(* ===== verification/Prelude.thy ===== *)
theory Prelude
  imports Main "HOL-Library.Word"
begin

text \<open>
  Shared foundations of the Velvet Fabric development.

  \<^item> Machine types: Go's \<^verbatim>\<open>byte\<close>, \<^verbatim>\<open>uint16\<close>, \<^verbatim>\<open>uint32\<close> and \<^verbatim>\<open>uint64\<close> are words of that width;
    a fixed array \<^verbatim>\<open>[16]byte\<close> or \<^verbatim>\<open>[32]byte\<close> is the 128 or 256 bit word whose big-endian
    octets are the array, so that its length is part of its type.
  \<^item> Errors: a Go \<^verbatim>\<open>(value, error)\<close> result is a sum, \<open>Inl\<close> for a non-nil error.
    The sentinel errors callers test with \<^verbatim>\<open>errors.Is\<close> are constructors; the text they are
    wrapped with is kept as a string.  A run-time panic is an error value of its own.
  \<^item> Big-endian octets of words (\<^verbatim>\<open>encoding/binary\<close>) with both round trips, and the order of
    octet strings (\<^verbatim>\<open>bytes.Compare\<close>) as the numeric order of the word.
  \<^item> The interface of a wire codec as a locale, with the lemmas its clients use.
\<close>

unbundle bit_operations_syntax

type_synonym byte = "8 word"
type_synonym bytes = "byte list"
type_synonym u16 = "16 word"
type_synonym u32 = "32 word"
type_synonym u64 = "64 word"
type_synonym array16 = "128 word"
type_synonym array32 = "256 word"

named_theorems wire_simps \<open>evaluation of wire encoders and decoders\<close>
named_theorems codec_intros \<open>round-trip facts of field codecs\<close>

section \<open>Results\<close>

datatype error =
    ErrMalformed
  | ErrFrame string
  | ErrConnection string
  | ErrNew string
  | Panic string

type_synonym 'a result = "error + 'a"

definition bind_r :: "'e + 'a \<Rightarrow> ('a \<Rightarrow> 'e + 'b) \<Rightarrow> 'e + 'b" where
  "bind_r r f = (case r of Inl e \<Rightarrow> Inl e | Inr x \<Rightarrow> f x)"

definition is_ok :: "'e + 'a \<Rightarrow> bool" where
  "is_ok r = (case r of Inl _ \<Rightarrow> False | Inr _ \<Rightarrow> True)"

lemma bind_r_simps [simp]: "bind_r (Inl e) f = Inl e" "bind_r (Inr x) f = f x"
  by (simp_all add: bind_r_def)

lemma bind_r_Inr_iff [simp]: "bind_r r f = Inr y \<longleftrightarrow> (\<exists>x. r = Inr x \<and> f x = Inr y)"
  by (cases r) auto

lemma is_ok_simps [simp]: "\<not> is_ok (Inl e)" "is_ok (Inr x)"
  by (simp_all add: is_ok_def)

lemma is_ok_iff: "is_ok r \<longleftrightarrow> (\<exists>x. r = Inr x)"
  by (cases r) auto

lemma if_Inl_Inr [simp]:
  "(if c then Inl e else r) = Inr y \<longleftrightarrow> \<not> c \<and> r = Inr y"
  "(if c then r else Inl e) = Inr y \<longleftrightarrow> c \<and> r = Inr y"
  by auto

section \<open>Big-endian octets\<close>

primrec be_word :: "bytes \<Rightarrow> 'a::len word" where
  "be_word [] = 0"
| "be_word (b # bs) = push_bit (8 * length bs) (ucast b) OR be_word bs"

primrec be_bytes :: "nat \<Rightarrow> 'a::len word \<Rightarrow> bytes" where
  "be_bytes 0 w = []"
| "be_bytes (Suc n) w = ucast (drop_bit (8 * n) w) # be_bytes n w"

lemma be_bytes_numeral [wire_simps]:
  "be_bytes (numeral k) w
    = ucast (drop_bit (8 * pred_numeral k) w) # be_bytes (pred_numeral k) w"
  by (simp add: numeral_eq_Suc)

lemma length_be_bytes [simp]: "length (be_bytes n w) = n"
  by (induction n) simp_all

lemma be_bytes_eq_Nil [simp]: "be_bytes n w = [] \<longleftrightarrow> n = 0"
  by (cases n) simp_all

lemma be_word_bit_bound: "bit (be_word bs :: 'a::len word) i \<Longrightarrow> i < 8 * length bs"
  by (induction bs) (auto simp: bit_simps dest: bit_imp_le_length)

lemma be_bytes_high:
  assumes "n \<le> k"
  shows "be_bytes n (push_bit (8 * k) x OR w) = be_bytes n (w :: 'a::len word)"
  using assms
proof (induction n)
  case (Suc n)
  have "ucast (drop_bit (8 * n) (push_bit (8 * k) x OR w)) = (ucast (drop_bit (8 * n) w) :: byte)"
    by (rule bit_word_eqI) (use Suc.prems in \<open>auto simp: bit_simps\<close>)
  with Suc show ?case by simp
qed simp

lemma be_bytes_be_word_length:
  assumes "8 * length bs \<le> LENGTH('a)"
  shows "be_bytes (length bs) (be_word bs :: 'a::len word) = bs"
  using assms
proof (induction bs)
  case (Cons b bs)
  let ?w = "be_word bs :: 'a word"
  have "ucast (drop_bit (8 * length bs) (push_bit (8 * length bs) (ucast b) OR ?w)) = b"
    by (rule bit_word_eqI)
      (use Cons.prems in \<open>auto simp: bit_simps dest: be_word_bit_bound\<close>)
  with Cons show ?case by (simp add: be_bytes_high)
qed simp

lemma be_bytes_be_word:
  "length bs = n \<Longrightarrow> 8 * n \<le> LENGTH('a) \<Longrightarrow> be_bytes n (be_word bs :: 'a::len word) = bs"
  using be_bytes_be_word_length by blast

lemma be_word_be_bytes_take: "be_word (be_bytes n w) = take_bit (8 * n) (w :: 'a::len word)"
proof (induction n)
  case (Suc n)
  have "push_bit (8 * n) (ucast (ucast (drop_bit (8 * n) w) :: byte)) OR take_bit (8 * n) w
      = take_bit (8 * Suc n) w"
    by (rule bit_word_eqI) (auto simp: bit_simps)
  with Suc show ?case by simp
qed simp

lemma be_word_be_bytes: "8 * n = LENGTH('a) \<Longrightarrow> be_word (be_bytes n w) = (w :: 'a::len word)"
  by (simp add: be_word_be_bytes_take)

lemma be_word_be_bytes_width [simp]:
  "be_word (be_bytes 2 (x :: u16)) = x"
  "be_word (be_bytes 4 (y :: u32)) = y"
  "be_word (be_bytes 8 (z :: u64)) = z"
  "be_word (be_bytes 16 (a :: array16)) = a"
  "be_word (be_bytes 32 (k :: array32)) = k"
  by (simp_all add: be_word_be_bytes)

lemma be_bytes_inj: "8 * n = LENGTH('a) \<Longrightarrow> be_bytes n v = be_bytes n w \<longleftrightarrow> v = (w :: 'a::len word)"
  by (metis be_word_be_bytes)

section \<open>The order of octet strings\<close>

fun bytes_Compare :: "bytes \<Rightarrow> bytes \<Rightarrow> int" where
  "bytes_Compare [] [] = 0"
| "bytes_Compare [] (b # bs) = -1"
| "bytes_Compare (a # as) [] = 1"
| "bytes_Compare (a # as) (b # bs) =
     (if a < b then -1 else if b < a then 1 else bytes_Compare as bs)"

lemma bytes_Compare_refl [simp]: "bytes_Compare as as = 0"
  by (induction as) simp_all

lemma bytes_Compare_antisym: "bytes_Compare as bs = - bytes_Compare bs as"
  by (induction as bs rule: bytes_Compare.induct) auto

lemma bytes_Compare_zero_iff [simp]: "bytes_Compare as bs = 0 \<longleftrightarrow> as = bs"
  by (induction as bs rule: bytes_Compare.induct) auto

lemma unat_drop: "unat (drop_bit k w) = unat w div 2 ^ k"
  using unat_drop_bit_eq[of k w] by (simp only: drop_bit_eq_div[of k "unat w"])

lemma unat_take: "unat (take_bit k w) = unat w mod 2 ^ k"
  by (simp only: unsigned_take_bit_eq take_bit_eq_mod[of k "unat w"])

lemma unat_octet: "unat (ucast w :: byte) = unat w mod 2 ^ 8"
  by (simp add: unsigned_ucast_eq take_bit_eq_mod)

lemma unat_top_octet:
  fixes w :: "'a::len word"
  assumes "8 * Suc n \<le> LENGTH('a)"
  shows "unat (take_bit (8 * Suc n) w)
    = 2 ^ (8 * n) * unat (ucast (drop_bit (8 * n) w) :: byte) + unat (take_bit (8 * n) w)"
proof -
  have "unat (ucast (drop_bit (8 * n) w) :: byte) = (unat w div 2 ^ (8 * n)) mod 2 ^ 8"
    by (simp only: unat_octet unat_drop)
  moreover have "unat w mod 2 ^ (8 * n + 8)
      = 2 ^ (8 * n) * ((unat w div 2 ^ (8 * n)) mod 2 ^ 8) + unat w mod 2 ^ (8 * n)"
    by (simp only: power_add mod_mult2_eq)
  ultimately show ?thesis
    by (simp only: unat_take mult_Suc_right add.commute[of "8" "8 * n"])
qed

lemma digits_less:
  fixes k l :: nat
  assumes "l < p" "l' < p"
  shows "p * k + l < p * k' + l' \<longleftrightarrow> k < k' \<or> k = k' \<and> l < l'"
proof -
  have *: "p * a + x < p * b + y" if "a < b" "x < p" for a b x y :: nat
  proof -
    have "p * a + x < p * Suc a" using that(2) by simp
    also have "\<dots> \<le> p * b" using that(1) by (intro mult_le_mono2) simp
    finally show ?thesis by simp
  qed
  show ?thesis
    using *[of k k' l l'] *[of k' k l' l] assms by (cases k k' rule: linorder_cases) auto
qed

lemma bytes_Compare_take_bit:
  fixes v w :: "'a::len word"
  assumes "8 * n \<le> LENGTH('a)"
  shows "bytes_Compare (be_bytes n v) (be_bytes n w) < 0
    \<longleftrightarrow> unat (take_bit (8 * n) v) < unat (take_bit (8 * n) w)"
  using assms
proof (induction n)
  case (Suc n)
  have bound: "unat (take_bit (8 * n) u) < 2 ^ (8 * n)" for u :: "'a word"
    by (simp only: unat_take) simp
  let ?hv = "ucast (drop_bit (8 * n) v) :: byte" and ?hw = "ucast (drop_bit (8 * n) w) :: byte"
  have "unat (take_bit (8 * Suc n) v) < unat (take_bit (8 * Suc n) w)
    \<longleftrightarrow> ?hv < ?hw \<or> ?hv = ?hw \<and> unat (take_bit (8 * n) v) < unat (take_bit (8 * n) w)"
    unfolding unat_top_octet[OF Suc.prems] digits_less[OF bound bound]
    by (auto simp: word_less_nat_alt word_unat_eq_iff)
  with Suc show ?case by (cases ?hv ?hw rule: linorder_cases) auto
qed simp

lemma bytes_Compare_word_less:
  fixes v w :: "'a::len word"
  assumes "8 * n = LENGTH('a)"
  shows "bytes_Compare (be_bytes n v) (be_bytes n w) < 0 \<longleftrightarrow> v < w"
  using bytes_Compare_take_bit[of n v w] assms by (simp add: word_less_nat_alt)

section \<open>Small list facts\<close>

definition allZero :: "bytes \<Rightarrow> bool" where
  "allZero value = list_all (\<lambda>item. item = 0) value"

lemma allZero_be_bytes:
  assumes "8 * n = LENGTH('a)"
  shows "allZero (be_bytes n (w :: 'a::len word)) \<longleftrightarrow> w = 0"
proof
  have zero: "be_word bs = (0 :: 'a word)" if "allZero bs" for bs
    using that by (induction bs) (auto simp: allZero_def)
  assume "allZero (be_bytes n w)"
  from zero[OF this] show "w = 0" by (simp add: be_word_be_bytes assms)
next
  have "allZero (be_bytes k (0 :: 'a word))" for k
    by (induction k) (simp_all add: allZero_def)
  then show "w = 0 \<Longrightarrow> allZero (be_bytes n w)" by simp
qed

lemma allZero_arrays [simp]:
  "allZero (be_bytes 16 (a :: array16)) \<longleftrightarrow> a = 0"
  "allZero (be_bytes 32 (k :: array32)) \<longleftrightarrow> k = 0"
  by (simp_all add: allZero_be_bytes)

lemma nth_take_drop: "n + k \<le> length xs \<Longrightarrow> i < k \<Longrightarrow> take k (drop n xs) ! i = xs ! (n + i)"
  by simp

section \<open>Wire codecs as an interface\<close>

text \<open>
  What a client of an encoder/decoder pair relies on: canonical values can be encoded, their
  encoding decodes to them, and every decoded value is canonical.  An exact codec moreover
  accepts only the octets its encoder produces.
\<close>

locale wire_codec =
  fixes enc :: "'a \<Rightarrow> bytes result"
    and dec :: "bytes \<Rightarrow> 'a result"
    and canon :: "'a \<Rightarrow> bool"
  assumes enc_total: "canon x \<Longrightarrow> is_ok (enc x)"
    and dec_enc: "canon x \<Longrightarrow> enc x = Inr b \<Longrightarrow> dec b = Inr x"
    and dec_canon: "dec b = Inr x \<Longrightarrow> canon x"
begin

lemma reencode: "dec b = Inr x \<Longrightarrow> \<exists>b'. enc x = Inr b' \<and> dec b' = Inr x"
  using dec_canon dec_enc enc_total is_ok_iff by metis

lemma enc_inj: "canon x \<Longrightarrow> canon y \<Longrightarrow> enc x = Inr b \<Longrightarrow> enc y = Inr b \<Longrightarrow> x = y"
  using dec_enc by (metis sum.inject(2))

lemma dec_image: "(\<exists>b. dec b = Inr x) \<longleftrightarrow> canon x"
  using dec_canon dec_enc enc_total is_ok_iff by metis

end

locale exact_codec = wire_codec +
  assumes enc_dec: "dec b = Inr x \<Longrightarrow> enc x = Inr b"
begin

lemma dec_inj: "dec b = Inr x \<Longrightarrow> dec b' = Inr x \<Longrightarrow> b = b'"
  using enc_dec by (metis sum.inject(2))

lemma dec_iff: "dec b = Inr x \<longleftrightarrow> canon x \<and> enc x = Inr b"
  using dec_canon dec_enc enc_dec by blast

end

end
