(* ===== verification/Netip.thy ===== *)
theory Netip
  imports Prelude
begin

text \<open>
  What the program uses of Go's \<^verbatim>\<open>net/netip\<close>: addresses (the zero address, IPv4, and IPv6 with
  its zone), address and port pairs, and prefixes, with the predicates and the arithmetic the
  sources call.  The names are those of the library.  A prefix keeps the address and the length
  it was built from; a length that does not fit the family makes it invalid, and its \<^verbatim>\<open>Bits\<close>
  are -1, as in the library.
\<close>

section \<open>Addresses\<close>

datatype addr = NoAddr | Addr4 u32 | Addr6 array16 string

fun IsValid :: "addr \<Rightarrow> bool" where
  "IsValid NoAddr = False"
| "IsValid _ = True"

fun Is4 :: "addr \<Rightarrow> bool" where
  "Is4 (Addr4 _) = True"
| "Is4 _ = False"

fun Is6 :: "addr \<Rightarrow> bool" where
  "Is6 (Addr6 _ _) = True"
| "Is6 _ = False"

fun Is4In6 :: "addr \<Rightarrow> bool" where
  "Is4In6 (Addr6 w _) = (drop_bit 32 w = 0xffff)"
| "Is4In6 _ = False"

fun Unmap :: "addr \<Rightarrow> addr" where
  "Unmap (Addr6 w z) = (if drop_bit 32 w = 0xffff then Addr4 (ucast w) else Addr6 w z)"
| "Unmap a = a"

fun hasZone :: "addr \<Rightarrow> bool" where
  "hasZone (Addr6 _ z) = (z \<noteq> [])"
| "hasZone _ = False"

fun withoutZone :: "addr \<Rightarrow> addr" where
  "withoutZone (Addr6 w _) = Addr6 w []"
| "withoutZone a = a"

fun BitLen :: "addr \<Rightarrow> int" where
  "BitLen NoAddr = 0"
| "BitLen (Addr4 _) = 32"
| "BitLen (Addr6 _ _) = 128"

definition IsUnspecified :: "addr \<Rightarrow> bool" where
  "IsUnspecified a = (a = Addr4 0 \<or> a = Addr6 0 [])"

fun multicast_raw :: "addr \<Rightarrow> bool" where
  "multicast_raw NoAddr = False"
| "multicast_raw (Addr4 w) = (drop_bit 24 w AND 0xf0 = 0xe0)"
| "multicast_raw (Addr6 w _) = (drop_bit 120 w = 0xff)"

definition IsMulticast :: "addr \<Rightarrow> bool" where
  "IsMulticast a = multicast_raw (Unmap a)"

fun link_local_raw :: "addr \<Rightarrow> bool" where
  "link_local_raw NoAddr = False"
| "link_local_raw (Addr4 w) = (drop_bit 16 w = 0xa9fe)"
| "link_local_raw (Addr6 w _) = (drop_bit 112 w AND 0xffc0 = 0xfe80)"

definition IsLinkLocalUnicast :: "addr \<Rightarrow> bool" where
  "IsLinkLocalUnicast a = link_local_raw (Unmap a)"

text \<open>The only address whose text form is 255.255.255.255.\<close>

definition is_broadcast :: "addr \<Rightarrow> bool" where
  "is_broadcast a = (a = Addr4 0xffffffff)"

definition AddrFrom4 :: "bytes \<Rightarrow> addr" where
  "AddrFrom4 raw = Addr4 (be_word raw)"

definition AddrFrom16 :: "bytes \<Rightarrow> addr" where
  "AddrFrom16 raw = Addr6 (be_word raw) []"

definition AddrFromSlice :: "bytes \<Rightarrow> addr option" where
  "AddrFromSlice raw =
    (if length raw = 4 then Some (AddrFrom4 raw)
     else if length raw = 16 then Some (AddrFrom16 raw) else None)"

fun As4 :: "addr \<Rightarrow> bytes result" where
  "As4 (Addr4 w) = Inr (be_bytes 4 w)"
| "As4 (Addr6 w z) =
    (if drop_bit 32 w = 0xffff then Inr (be_bytes 4 (ucast w :: u32))
     else Inl (Panic ''As4 called on IPv6 address''))"
| "As4 NoAddr = Inl (Panic ''As4 called on IP zero value'')"

fun As16 :: "addr \<Rightarrow> bytes" where
  "As16 (Addr4 w) = be_bytes 16 (push_bit 32 0xffff OR ucast w :: array16)"
| "As16 (Addr6 w z) = be_bytes 16 w"
| "As16 NoAddr = be_bytes 16 (0 :: array16)"

fun AsSlice :: "addr \<Rightarrow> bytes" where
  "AsSlice (Addr4 w) = be_bytes 4 w"
| "AsSlice (Addr6 w z) = be_bytes 16 w"
| "AsSlice NoAddr = []"

fun NextAddr :: "addr \<Rightarrow> addr" where
  "NextAddr (Addr4 w) = (if w + 1 = 0 then NoAddr else Addr4 (w + 1))"
| "NextAddr (Addr6 w z) = (if w + 1 = 0 then NoAddr else Addr6 (w + 1) z)"
| "NextAddr NoAddr = NoAddr"

lemma Is4_iff: "Is4 a \<longleftrightarrow> (\<exists>w. a = Addr4 w)"
  by (cases a) auto

lemma Is6_iff: "Is6 a \<longleftrightarrow> (\<exists>w z. a = Addr6 w z)"
  by (cases a) auto

lemma IsValid_iff: "IsValid a \<longleftrightarrow> Is4 a \<or> Is6 a"
  by (cases a) auto

lemma Is4_not_Is6: "Is4 a \<Longrightarrow> \<not> Is6 a"
  by (cases a) auto

lemma AddrFrom_simps [simp]:
  "Is4 (AddrFrom4 raw)" "\<not> Is6 (AddrFrom4 raw)" "IsValid (AddrFrom4 raw)"
  "Is6 (AddrFrom16 raw)" "\<not> Is4 (AddrFrom16 raw)" "IsValid (AddrFrom16 raw)"
  "\<not> Is4In6 (AddrFrom4 raw)" "\<not> hasZone (AddrFrom4 raw)" "\<not> hasZone (AddrFrom16 raw)"
  by (simp_all add: AddrFrom4_def AddrFrom16_def)

lemma AsSlice_AddrFrom:
  "length raw = 4 \<Longrightarrow> AsSlice (AddrFrom4 raw) = raw"
  "length raw = 16 \<Longrightarrow> AsSlice (AddrFrom16 raw) = raw"
  by (simp_all add: AddrFrom4_def AddrFrom16_def be_bytes_be_word)

lemma As4_AddrFrom4 [simp]: "length raw = 4 \<Longrightarrow> As4 (AddrFrom4 raw) = Inr raw"
  by (simp add: AddrFrom4_def be_bytes_be_word)

lemma As16_AddrFrom16 [simp]: "length raw = 16 \<Longrightarrow> As16 (AddrFrom16 raw) = raw"
  by (simp add: AddrFrom16_def be_bytes_be_word)

lemma AddrFrom4_As4: "Is4 a \<Longrightarrow> As4 a = Inr raw \<Longrightarrow> AddrFrom4 raw = a"
  by (cases a) (auto simp: AddrFrom4_def)

lemma AddrFrom16_As16: "Is6 a \<Longrightarrow> \<not> hasZone a \<Longrightarrow> AddrFrom16 (As16 a) = a"
  by (cases a) (auto simp: AddrFrom16_def)

lemma length_As4: "As4 a = Inr raw \<Longrightarrow> length raw = 4"
  by (cases a) (auto split: if_splits)

lemma length_As16 [simp]: "length (As16 a) = 16"
  by (cases a) simp_all

section \<open>Address and port\<close>

datatype addrport = AddrPort (ap_Addr: addr) (ap_Port: u16)

abbreviation NoAddrPort :: addrport where
  "NoAddrPort \<equiv> AddrPort NoAddr 0"

definition AP_IsValid :: "addrport \<Rightarrow> bool" where
  "AP_IsValid ep = IsValid (ap_Addr ep)"

section \<open>Prefixes\<close>

datatype prefix = Prefix (pf_Addr: addr) (pf_Bits: int)

abbreviation NoPrefix :: prefix where
  "NoPrefix \<equiv> Prefix NoAddr (-1)"

definition PF_IsValid :: "prefix \<Rightarrow> bool" where
  "PF_IsValid p = (0 \<le> pf_Bits p)"

definition PrefixFrom :: "addr \<Rightarrow> int \<Rightarrow> prefix" where
  "PrefixFrom a bits =
    Prefix (withoutZone a) (if IsValid a \<and> 0 \<le> bits \<and> bits \<le> BitLen a then bits else -1)"

definition mask_low :: "nat \<Rightarrow> 'a::len word \<Rightarrow> 'a word" where
  "mask_low k w = push_bit k (drop_bit k w)"

fun Masked :: "prefix \<Rightarrow> prefix" where
  "Masked (Prefix (Addr4 w) b) =
    (if b < 0 \<or> 32 < b then NoPrefix else PrefixFrom (Addr4 (mask_low (32 - nat b) w)) b)"
| "Masked (Prefix (Addr6 w z) b) =
    (if b < 0 \<or> 128 < b then NoPrefix else PrefixFrom (Addr6 (mask_low (128 - nat b) w) []) b)"
| "Masked (Prefix NoAddr b) = NoPrefix"

fun Contains :: "prefix \<Rightarrow> addr \<Rightarrow> bool" where
  "Contains (Prefix (Addr4 p) b) (Addr4 a) =
    (0 \<le> b \<and> drop_bit (32 - nat b) (a XOR p) = 0)"
| "Contains (Prefix (Addr6 p y) b) (Addr6 a z) =
    (0 \<le> b \<and> z = [] \<and> drop_bit (128 - nat b) (a XOR p) = 0)"
| "Contains _ _ = False"

lemma PrefixFrom_simps [simp]:
  "pf_Addr (PrefixFrom a b) = withoutZone a"
  "PF_IsValid (PrefixFrom a b) \<longleftrightarrow> IsValid a \<and> 0 \<le> b \<and> b \<le> BitLen a"
  by (auto simp: PrefixFrom_def PF_IsValid_def)

lemma NoPrefix_simps [simp]: "\<not> PF_IsValid NoPrefix" "\<not> AP_IsValid NoAddrPort"
  by (simp_all add: PF_IsValid_def AP_IsValid_def)

lemma mask_low_idem [simp]: "mask_low k (mask_low k w) = mask_low k w"
  by (rule bit_word_eqI) (auto simp: mask_low_def bit_simps)

lemma drop_bit_xor_zero_iff:
  "drop_bit k (a XOR b) = (0 :: 'a::len word) \<longleftrightarrow> drop_bit k a = drop_bit k b"
proof -
  have "drop_bit k (a XOR b) = drop_bit k a XOR drop_bit k b"
    by (simp add: drop_bit_xor)
  then show ?thesis by (auto simp: bit_eq_iff bit_simps)
qed

lemma Masked_Masked [simp]: "Masked (Masked p) = Masked p"
  by (cases p rule: Masked.cases) (auto simp: PrefixFrom_def)

lemma Masked_contains_self:
  assumes "PF_IsValid (Masked p)"
  shows "Contains (Masked p) (pf_Addr (Masked p))"
  using assms by (cases p rule: Masked.cases) (auto simp: PrefixFrom_def split: if_splits)

end
