(* ===== verification/Wire_Fields.thy ===== *)
theory Wire_Fields
  imports Netip
begin

text \<open>
  The field codecs of package \<^verbatim>\<open>internal/vfp/message\<close>: node identities, addresses, Link
  prefixes, operation identifiers, public keys, endpoints and Dynamic-Link policies.  Each
  parser is translated with all its checks; the endpoint, identity and policy codecs are shown
  to be exact, that is, each accepts precisely the octets its encoder produces.
\<close>

section \<open>Data\<close>

record UID =
  UUID :: array16
  Name :: bytes

record DynamicLinkPolicy =
  Revision :: u64
  Accept :: bool

section \<open>Node identities\<close>

definition name_octet :: "byte \<Rightarrow> bool" where
  "name_octet b = ((97 \<le> b \<and> b \<le> 122) \<or> (48 \<le> b \<and> b \<le> 57))"

definition parseUID :: "bytes \<Rightarrow> UID result" where
  "parseUID value =
    (if length value < 16 \<or> 21 < length value
     then Inl (ErrNew ''NODE_UID length must be 16..21'')
     else let parsed = be_word (take 16 value) in
       if parsed = 0 then Inl (ErrNew ''NODE_UID UUID is invalid'')
       else if \<not> list_all name_octet (drop 16 value) then Inl (ErrNew ''NODE_UID name is invalid'')
       else Inr \<lparr>UUID = parsed, Name = drop 16 value\<rparr>)"

definition encodeUID :: "UID \<Rightarrow> bytes result" where
  "encodeUID value =
    (if UUID value = 0 \<or> 5 < length (Name value) then Inl (ErrNew ''invalid UID'')
     else if \<not> list_all name_octet (Name value) then Inl (ErrNew ''invalid UID name'')
     else Inr (be_bytes 16 (UUID value) @ Name value))"

definition uid_canon :: "UID \<Rightarrow> bool" where
  "uid_canon u = (UUID u \<noteq> 0 \<and> length (Name u) \<le> 5 \<and> list_all name_octet (Name u))"

section \<open>Addresses and prefixes\<close>

definition validAddress :: "addr \<Rightarrow> bool" where
  "validAddress a =
    (\<not> IsUnspecified a \<and> \<not> IsMulticast a \<and> \<not> IsLinkLocalUnicast a \<and> \<not> is_broadcast a)"

definition parseAddress :: "bytes option \<Rightarrow> bool \<Rightarrow> addr result" where
  "parseAddress value ipv4 =
    (case value of
       None \<Rightarrow> Inr NoAddr
     | Some v \<Rightarrow>
        if ipv4 then
          (if length v \<noteq> 4 then Inl (ErrNew ''IPv4 address length is not 4'')
           else let a = AddrFrom4 v in
             if \<not> validAddress a then Inl (ErrNew ''invalid IPv4 address'') else Inr a)
        else
          (if length v \<noteq> 16 then Inl (ErrNew ''IPv6 address length is not 16'')
           else let a = AddrFrom16 v in
             if \<not> validAddress a then Inl (ErrNew ''invalid IPv6 address'') else Inr a))"

definition parsePrefix :: "bytes option \<Rightarrow> bool \<Rightarrow> prefix result" where
  "parsePrefix value ipv4 =
    bind_r (parseAddress value ipv4) (\<lambda>a.
      if \<not> IsValid a then Inr NoPrefix
      else let p = PrefixFrom a (if ipv4 then 30 else 126) in
        if p \<noteq> Masked p then Inl (ErrNew ''link prefix has host bits set'') else Inr p)"

section \<open>Identifiers and keys\<close>

definition parseOperationID :: "bytes \<Rightarrow> array16 result" where
  "parseOperationID value =
    (if length value \<noteq> 16 then Inl (ErrNew ''OPERATION_ID length must be 16'')
     else Inr (be_word value))"

definition parsePublicKey :: "bytes \<Rightarrow> array32 result" where
  "parsePublicKey value =
    (if length value \<noteq> 32 \<or> allZero value
     then Inl (ErrNew ''WG_PUBLIC_KEY must be 32 non-zero octets'')
     else Inr (be_word value))"

section \<open>Endpoints\<close>

definition validEndpointAddress :: "addr \<Rightarrow> bool" where
  "validEndpointAddress a =
    (IsValid a \<and> \<not> Is4In6 a \<and> \<not> IsUnspecified a \<and> \<not> IsMulticast a
      \<and> \<not> IsLinkLocalUnicast a \<and> \<not> is_broadcast a)"

definition parseEndpoint :: "bytes \<Rightarrow> addrport result" where
  "parseEndpoint value =
    (if length value \<noteq> 8 \<and> length value \<noteq> 20
     then Inl (ErrNew ''IP endpoint length must be 8 or 20'')
     else
       let afi = (be_word (take 2 value) :: u16);
           port = (be_word (take 2 (drop 2 value)) :: u16)
       in if port = 0 then Inl (ErrNew ''IP endpoint port must be non-zero'')
          else
            bind_r
              (if afi = 1 then
                 (if length value \<noteq> 8 then Inl (ErrNew ''IPv4 endpoint length must be 8'')
                  else Inr (AddrFrom4 (drop 4 value)))
               else if afi = 2 then
                 (if length value \<noteq> 20 then Inl (ErrNew ''IPv6 endpoint length must be 20'')
                  else Inr (AddrFrom16 (drop 4 value)))
               else Inl (ErrNew ''IP endpoint address family is unknown''))
              (\<lambda>a. if \<not> validEndpointAddress a then Inl (ErrNew ''IP endpoint address is invalid'')
                   else Inr (AddrPort a port)))"

definition encodeEndpoint :: "addrport \<Rightarrow> bytes result" where
  "encodeEndpoint value =
    (let a = ap_Addr value in
     if \<not> AP_IsValid value \<or> ap_Port value = 0 \<or> \<not> validEndpointAddress a
     then Inl (ErrNew ''invalid IP endpoint'')
     else if Is4 a then
       bind_r (As4 a) (\<lambda>raw. Inr (be_bytes 2 (1 :: u16) @ be_bytes 2 (ap_Port value) @ raw))
     else Inr (be_bytes 2 (2 :: u16) @ be_bytes 2 (ap_Port value) @ As16 a))"

definition endpoint_canon :: "addrport \<Rightarrow> bool" where
  "endpoint_canon ep = (ap_Port ep \<noteq> 0 \<and> validEndpointAddress (ap_Addr ep) \<and> \<not> hasZone (ap_Addr ep))"

section \<open>Policies\<close>

definition parseDynamicLinkPolicy :: "bytes \<Rightarrow> DynamicLinkPolicy result" where
  "parseDynamicLinkPolicy value =
    (if length value \<noteq> 9 then Inl (ErrFrame [])
     else if 1 < value ! 8 \<or> (be_word (take 8 value) :: u64) = 0 then Inl (ErrFrame [])
     else Inr \<lparr>Revision = be_word (take 8 value), Accept = (value ! 8 = 1)\<rparr>)"

definition encodeDynamicLinkPolicy :: "DynamicLinkPolicy option \<Rightarrow> bytes result" where
  "encodeDynamicLinkPolicy p =
    (case p of
       None \<Rightarrow> Inl (ErrFrame [])
     | Some q \<Rightarrow>
        if Revision q = 0 then Inl (ErrFrame [])
        else Inr (be_bytes 8 (Revision q) @ [if Accept q then 1 else 0]))"

definition policy_canon :: "DynamicLinkPolicy \<Rightarrow> bool" where
  "policy_canon p = (Revision p \<noteq> 0)"

section \<open>The codecs are exact\<close>

lemma encodeUID_eq: "uid_canon u \<Longrightarrow> encodeUID u = Inr (be_bytes 16 (UUID u) @ Name u)"
  by (simp add: uid_canon_def encodeUID_def)

interpretation uid_codec: exact_codec encodeUID parseUID uid_canon
proof unfold_locales
  fix u :: UID and b
  assume c: "uid_canon u"
  then show "is_ok (encodeUID u)" by (simp add: encodeUID_eq)
  assume "encodeUID u = Inr b"
  with c have "b = be_bytes 16 (UUID u) @ Name u" by (simp add: encodeUID_eq)
  with c show "parseUID b = Inr u" by (simp add: parseUID_def uid_canon_def)
next
  fix b and u :: UID
  assume p: "parseUID b = Inr u"
  then have *: "16 \<le> length b" "length b \<le> 21" "UUID u = be_word (take 16 b)" "Name u = drop 16 b"
    "UUID u \<noteq> 0" "list_all name_octet (Name u)"
    by (auto simp: parseUID_def Let_def)
  then show canon: "uid_canon u" by (simp add: uid_canon_def)
  from * have "be_bytes 16 (UUID u) = take 16 b" by (simp add: be_bytes_be_word)
  with * canon show "encodeUID u = Inr b" by (simp add: encodeUID_eq)
qed

lemma policy_flag: "\<not> 1 < (b :: byte) \<Longrightarrow> b = (if b = 1 then 1 else 0)"
  by (auto simp: not_less word_le_nat_alt word_unat_eq_iff)

interpretation policy_codec:
  exact_codec "\<lambda>p. encodeDynamicLinkPolicy (Some p)" parseDynamicLinkPolicy policy_canon
proof unfold_locales
  fix p :: DynamicLinkPolicy and b
  assume c: "policy_canon p"
  then show "is_ok (encodeDynamicLinkPolicy (Some p))"
    by (simp add: encodeDynamicLinkPolicy_def policy_canon_def)
  assume "encodeDynamicLinkPolicy (Some p) = Inr b"
  with c have "b = be_bytes 8 (Revision p) @ [if Accept p then 1 else 0]"
    by (simp add: encodeDynamicLinkPolicy_def policy_canon_def)
  with c show "parseDynamicLinkPolicy b = Inr p"
    by (auto simp: parseDynamicLinkPolicy_def policy_canon_def nth_append)
next
  fix b and p :: DynamicLinkPolicy
  assume "parseDynamicLinkPolicy b = Inr p"
  then have *: "length b = 9" "\<not> 1 < b ! 8" "Revision p = be_word (take 8 b)" "Revision p \<noteq> 0"
    "Accept p \<longleftrightarrow> b ! 8 = 1"
    by (auto simp: parseDynamicLinkPolicy_def)
  then show "policy_canon p" by (simp add: policy_canon_def)
  from * have "be_bytes 8 (Revision p) = take 8 b" by (simp add: be_bytes_be_word)
  moreover have "drop 8 b = [b ! 8]"
    using *(1) by (simp add: Cons_nth_drop_Suc[symmetric, of 8 b])
  moreover have "b ! 8 = (if Accept p then 1 else 0)"
    using policy_flag[OF *(2)] *(5) by simp
  ultimately show "encodeDynamicLinkPolicy (Some p) = Inr b"
    using *(4) append_take_drop_id[of 8 b] by (simp add: encodeDynamicLinkPolicy_def)
qed

lemma encodeEndpoint_4:
  "endpoint_canon (AddrPort (Addr4 w) port) \<Longrightarrow>
    encodeEndpoint (AddrPort (Addr4 w) port) = Inr (be_bytes 2 (1 :: u16) @ be_bytes 2 port @ be_bytes 4 w)"
  by (simp add: encodeEndpoint_def endpoint_canon_def AP_IsValid_def Let_def)

lemma encodeEndpoint_6:
  "endpoint_canon (AddrPort (Addr6 w z) port) \<Longrightarrow>
    encodeEndpoint (AddrPort (Addr6 w z) port) = Inr (be_bytes 2 (2 :: u16) @ be_bytes 2 port @ be_bytes 16 w)"
  by (auto simp: encodeEndpoint_def endpoint_canon_def AP_IsValid_def Let_def)

lemma endpoint_canon_cases:
  assumes "endpoint_canon ep"
  obtains (v4) w port where "ep = AddrPort (Addr4 w) port" "port \<noteq> 0" "validEndpointAddress (Addr4 w)"
    | (v6) w port where "ep = AddrPort (Addr6 w []) port" "port \<noteq> 0" "validEndpointAddress (Addr6 w [])"
  using assms
  by (cases ep; cases "ap_Addr ep") (auto simp: endpoint_canon_def validEndpointAddress_def)

lemma split_2_2: "take 2 b @ take 2 (drop 2 b) @ drop 4 b = b"
proof -
  have "drop 4 b = drop 2 (drop 2 b)" by simp
  then show ?thesis by (metis append_take_drop_id)
qed

interpretation endpoint_codec: exact_codec encodeEndpoint parseEndpoint endpoint_canon
proof unfold_locales
  fix ep :: addrport and b
  assume c: "endpoint_canon ep"
  then show "is_ok (encodeEndpoint ep)"
    using c by (cases rule: endpoint_canon_cases) (simp_all add: encodeEndpoint_4 encodeEndpoint_6)
  assume e: "encodeEndpoint ep = Inr b"
  from c show "parseEndpoint b = Inr ep"
  proof (cases rule: endpoint_canon_cases)
    case (v4 w port)
    with c e have "b = be_bytes 2 (1 :: u16) @ be_bytes 2 port @ be_bytes 4 w"
      by (simp add: encodeEndpoint_4)
    with v4 show ?thesis by (simp add: parseEndpoint_def AddrFrom4_def)
  next
    case (v6 w port)
    with c e have "b = be_bytes 2 (2 :: u16) @ be_bytes 2 port @ be_bytes 16 w"
      by (simp add: encodeEndpoint_6)
    with v6 show ?thesis by (simp add: parseEndpoint_def AddrFrom16_def)
  qed
next
  fix b and ep :: addrport
  assume p: "parseEndpoint b = Inr ep"
  let ?afi = "be_word (take 2 b) :: u16" and ?port = "be_word (take 2 (drop 2 b)) :: u16"
  from p have port: "ap_Port ep = ?port" "?port \<noteq> 0" and valid: "validEndpointAddress (ap_Addr ep)"
    and fam: "?afi = 1 \<and> length b = 8 \<and> ap_Addr ep = AddrFrom4 (drop 4 b)
      \<or> ?afi = 2 \<and> length b = 20 \<and> ap_Addr ep = AddrFrom16 (drop 4 b)"
    by (auto simp: parseEndpoint_def Let_def split: if_splits)
  then show c: "endpoint_canon ep" by (auto simp: endpoint_canon_def)
  have bytes: "be_bytes 2 ?afi = take 2 b" "be_bytes 2 ?port = take 2 (drop 2 b)"
    using fam by (intro be_bytes_be_word; auto)+
  from fam show "encodeEndpoint ep = Inr b"
  proof
    assume f: "?afi = 1 \<and> length b = 8 \<and> ap_Addr ep = AddrFrom4 (drop 4 b)"
    then have ep: "ep = AddrPort (Addr4 (be_word (drop 4 b))) ?port"
      using port by (cases ep) (simp add: AddrFrom4_def)
    from f bytes(1) have "be_bytes 2 (1 :: u16) = take 2 b" by simp
    moreover have "length b = 8" using f by simp
    ultimately show ?thesis
      using encodeEndpoint_4[OF c[unfolded ep]] bytes(2) ep
      by (simp add: be_bytes_be_word split_2_2)
  next
    assume f: "?afi = 2 \<and> length b = 20 \<and> ap_Addr ep = AddrFrom16 (drop 4 b)"
    then have ep: "ep = AddrPort (Addr6 (be_word (drop 4 b)) []) ?port"
      using port by (cases ep) (simp add: AddrFrom16_def)
    from f bytes(1) have "be_bytes 2 (2 :: u16) = take 2 b" by simp
    moreover have "length b = 20" using f by simp
    ultimately show ?thesis
      using encodeEndpoint_6[OF c[unfolded ep]] bytes(2) ep
      by (simp add: be_bytes_be_word split_2_2)
  qed
qed

lemma encodeEndpoint_length: "encodeEndpoint ep = Inr b \<Longrightarrow> length b = 8 \<or> length b = 20"
  by (auto simp: encodeEndpoint_def Let_def split: if_splits dest: length_As4)

lemma encodeEndpoint_ok_canon: "encodeEndpoint ep = Inr b \<Longrightarrow> \<not> hasZone (ap_Addr ep) \<Longrightarrow> endpoint_canon ep"
  by (auto simp: encodeEndpoint_def endpoint_canon_def Let_def split: if_splits)

lemma encodeUID_ok_canon: "encodeUID u = Inr b \<longleftrightarrow> uid_canon u \<and> b = be_bytes 16 (UUID u) @ Name u"
  by (auto simp: encodeUID_def uid_canon_def)

end
