(* ===== verification/Control_Codec.thy ===== *)
theory Control_Codec
  imports Wire_Fields
begin

text \<open>
  The discovery control record, \<^verbatim>\<open>internal/vfp/message/control.go\<close>: a fixed 45 octet head
  followed by at most 32 length-prefixed endpoints, with a validity rule per control code.
  The record codec is shown to be exact, and a decoded record satisfies the rule of its code.
\<close>

abbreviation Candidates :: byte where "Candidates \<equiv> 1"
abbreviation ProbeReport :: byte where "ProbeReport \<equiv> 2"
abbreviation RoundDone :: byte where "RoundDone \<equiv> 3"
abbreviation WGReady :: byte where "WGReady \<equiv> 4"
abbreviation DiscoveryEnd :: byte where "DiscoveryEnd \<equiv> 5"
abbreviation ObserveOpen :: byte where "ObserveOpen \<equiv> 6"
abbreviation ObserveReady :: byte where "ObserveReady \<equiv> 7"

record Control =
  ctl_Code :: byte
  ctl_Round :: u16
  ctl_Sequence :: u64
  ctl_Changed :: bool
  ctl_Key :: array32
  ctl_Endpoints :: "addrport list"

text \<open>The endpoint loop of the decoder and the one of the encoder.\<close>

fun decode_endpoints :: "nat \<Rightarrow> bytes \<Rightarrow> (addrport list \<times> bytes) result" where
  "decode_endpoints 0 b = Inr ([], b)"
| "decode_endpoints (Suc count) [] = Inl (ErrFrame [])"
| "decode_endpoints (Suc count) (n # b) =
    (if length b < unat n then Inl (ErrFrame [])
     else bind_r (parseEndpoint (take (unat n) b)) (\<lambda>ep.
          bind_r (decode_endpoints count (drop (unat n) b)) (\<lambda>(eps, rest).
            Inr (ep # eps, rest))))"

fun encode_endpoints :: "addrport list \<Rightarrow> bytes result" where
  "encode_endpoints [] = Inr []"
| "encode_endpoints (ep # eps) =
    bind_r (encodeEndpoint ep) (\<lambda>v.
      bind_r (encode_endpoints eps) (\<lambda>rest. Inr (word_of_nat (length v) # v @ rest)))"

definition control_valid :: "Control \<Rightarrow> bool" where
  "control_valid c =
    (let round = ctl_Round c; seq = ctl_Sequence c; changed = ctl_Changed c;
         count = length (ctl_Endpoints c); keyZero = (ctl_Key c = 0)
     in if ctl_Code c = Candidates then 1 \<le> round \<and> round \<le> 16 \<and> seq = 0 \<and> keyZero
        else if ctl_Code c = ProbeReport then
          round \<le> 16 \<and> 0 < seq \<and> seq \<le> 12000 \<and> count = 1 \<and> \<not> changed \<and> keyZero
        else if ctl_Code c = RoundDone then
          1 \<le> round \<and> round \<le> 16 \<and> seq = 0 \<and> (count = 0 \<or> count = 2) \<and> \<not> changed \<and> keyZero
        else if ctl_Code c = WGReady \<or> ctl_Code c = DiscoveryEnd then
          round = 0 \<and> seq = 0 \<and> count = 0 \<and> \<not> changed \<and> keyZero
        else if ctl_Code c = ObserveOpen then
          round = 0 \<and> seq = 0 \<and> count = 1 \<and> \<not> changed \<and> keyZero
        else if ctl_Code c = ObserveReady then
          round = 0 \<and> seq = 0 \<and> 1 \<le> count \<and> count \<le> 2 \<and> \<not> changed \<and> \<not> keyZero
        else False)"

definition DecodeControl :: "bytes \<Rightarrow> Control result" where
  "DecodeControl b =
    (if length b < 45 then Inl (ErrFrame [])
     else if 1 < b ! 11 \<or> 32 < b ! 44 then Inl (ErrFrame [])
     else bind_r (decode_endpoints (unat (b ! 44)) (drop 45 b)) (\<lambda>(eps, rest).
       if length rest \<noteq> 0 then Inl (ErrFrame [])
       else
         let c = \<lparr>ctl_Code = b ! 0, ctl_Round = be_word (take 2 (drop 1 b)),
                  ctl_Sequence = be_word (take 8 (drop 3 b)), ctl_Changed = (b ! 11 = 1),
                  ctl_Key = be_word (take 32 (drop 12 b)), ctl_Endpoints = eps\<rparr>
         in if \<not> control_valid c then Inl (ErrFrame []) else Inr c))"

definition control_head :: "Control \<Rightarrow> bytes" where
  "control_head c =
    [ctl_Code c] @ be_bytes 2 (ctl_Round c) @ be_bytes 8 (ctl_Sequence c)
      @ [if ctl_Changed c then 1 else 0] @ be_bytes 32 (ctl_Key c)
      @ [word_of_nat (length (ctl_Endpoints c))]"

definition EncodeControl :: "Control \<Rightarrow> bytes result" where
  "EncodeControl c =
    (if 32 < length (ctl_Endpoints c) then Inl (ErrFrame [])
     else bind_r (encode_endpoints (ctl_Endpoints c)) (\<lambda>tail.
       let b = control_head c @ tail in
       bind_r (DecodeControl b) (\<lambda>_. Inr b)))"

definition control_canon :: "Control \<Rightarrow> bool" where
  "control_canon c =
    (length (ctl_Endpoints c) \<le> 32 \<and> list_all endpoint_canon (ctl_Endpoints c) \<and> control_valid c)"

section \<open>The endpoint list\<close>

lemma encode_endpoints_total: "list_all endpoint_canon eps \<Longrightarrow> \<exists>b. encode_endpoints eps = Inr b"
  by (induction eps) (auto dest: endpoint_codec.enc_total simp: is_ok_iff)

lemma unat_small8: "n < 256 \<Longrightarrow> unat (word_of_nat n :: byte) = n"
  by (simp add: unat_of_nat)

lemma decode_encode_endpoints:
  "list_all endpoint_canon eps \<Longrightarrow> encode_endpoints eps = Inr b \<Longrightarrow>
    decode_endpoints (length eps) (b @ rest) = Inr (eps, rest)"
proof (induction eps arbitrary: b)
  case (Cons ep eps)
  then obtain v t where v: "encodeEndpoint ep = Inr v" and t: "encode_endpoints eps = Inr t"
    and b: "b = word_of_nat (length v) # v @ t" by auto
  from v have "length v < 256" using encodeEndpoint_length by fastforce
  moreover have "parseEndpoint v = Inr ep"
    using Cons.prems(1) v by (simp add: endpoint_codec.dec_enc)
  ultimately show ?case using Cons.IH[OF _ t] Cons.prems(1) b by (simp add: unat_small8)
qed simp

lemma encode_decode_endpoints:
  "decode_endpoints k b = Inr (eps, rest) \<Longrightarrow>
    length eps = k \<and> list_all endpoint_canon eps
      \<and> (\<exists>t. encode_endpoints eps = Inr t \<and> b = t @ rest)"
proof (induction k b arbitrary: eps rule: decode_endpoints.induct)
  case (3 k n b)
  from "3.prems" obtain ep eps' where len: "unat n \<le> length b"
    and ep: "parseEndpoint (take (unat n) b) = Inr ep"
    and rec: "decode_endpoints k (drop (unat n) b) = Inr (eps', rest)"
    and eps: "eps = ep # eps'"
    by (auto simp: not_less split: prod.splits)
  from "3.IH"[OF _ rec] len obtain t where
    *: "length eps' = k" "list_all endpoint_canon eps'" "encode_endpoints eps' = Inr t"
      "drop (unat n) b = t @ rest" by auto
  from len have "(word_of_nat (length (take (unat n) b)) :: byte) = n" by simp
  moreover have "b = take (unat n) b @ t @ rest" using *(4) by (metis append_take_drop_id)
  ultimately show ?case
    using * ep eps endpoint_codec.dec_canon[OF ep] endpoint_codec.enc_dec[OF ep] by auto
qed simp_all

section \<open>The record codec is exact\<close>

lemma length_control_head [simp]: "length (control_head c) = 45"
  by (simp add: control_head_def)

lemma control_head_fields:
  "length (control_head c @ t) = 45 + length t"
  "(control_head c @ t) ! 0 = ctl_Code c"
  "take 2 (drop 1 (control_head c @ t)) = be_bytes 2 (ctl_Round c)"
  "take 8 (drop 3 (control_head c @ t)) = be_bytes 8 (ctl_Sequence c)"
  "(control_head c @ t) ! 11 = (if ctl_Changed c then 1 else 0)"
  "take 32 (drop 12 (control_head c @ t)) = be_bytes 32 (ctl_Key c)"
  "(control_head c @ t) ! 44 = word_of_nat (length (ctl_Endpoints c))"
  "drop 45 (control_head c @ t) = t"
  by (simp_all add: control_head_def nth_append nth_Cons')

lemma split_control:
  assumes "45 \<le> length b"
  shows "b = [b ! 0] @ take 2 (drop 1 b) @ take 8 (drop 3 b) @ [b ! 11]
    @ take 32 (drop 12 b) @ [b ! 44] @ drop 45 b"
proof -
  have cut: "take k (drop n b) @ drop m b = drop n b" if "m = n + k" for n k m
    unfolding that by (metis add.commute append_take_drop_id drop_drop)
  have one: "[b ! n] @ drop m b = drop n b" if "n < 45" "m = Suc n" for n m
    unfolding that using that assms by (simp add: Cons_nth_drop_Suc)
  have "[b ! 0] @ drop 1 b = b" using one[of 0 1] by simp
  moreover have "take 2 (drop 1 b) @ drop 3 b = drop 1 b"
    and "take 8 (drop 3 b) @ drop 11 b = drop 3 b"
    and "take 32 (drop 12 b) @ drop 44 b = drop 12 b"
    by (rule cut; simp)+
  moreover have "[b ! 11] @ drop 12 b = drop 11 b" and "[b ! 44] @ drop 45 b = drop 44 b"
    by (rule one; simp)+
  ultimately show ?thesis by (simp only:)
qed

interpretation control_codec: exact_codec EncodeControl DecodeControl control_canon
proof unfold_locales
  have core: "DecodeControl (control_head c @ t) = Inr c"
    if c: "control_canon c" and t: "encode_endpoints (ctl_Endpoints c) = Inr t" for c t
  proof -
    have n: "length (ctl_Endpoints c) \<le> 32" using c by (simp add: control_canon_def)
    then have n': "unat (word_of_nat (length (ctl_Endpoints c)) :: byte) = length (ctl_Endpoints c)"
      by (simp add: unat_small8)
    with n have "\<not> 32 < (word_of_nat (length (ctl_Endpoints c)) :: byte)"
      by (simp add: word_less_nat_alt)
    moreover have "decode_endpoints (length (ctl_Endpoints c)) (t @ []) = Inr (ctl_Endpoints c, [])"
      using c t by (intro decode_encode_endpoints) (auto simp: control_canon_def)
    moreover define b where "b = control_head c @ t"
    note fields = control_head_fields[of c t, folded b_def]
    ultimately show ?thesis
      unfolding b_def[symmetric] using c n'
      by (simp add: DecodeControl_def fields control_canon_def Let_def del: One_nat_def)
        (cases c; auto)
  qed
  {
    fix c :: Control and b
    assume c: "control_canon c"
    then obtain t where t: "encode_endpoints (ctl_Endpoints c) = Inr t"
      using encode_endpoints_total by (auto simp: control_canon_def)
    have enc: "EncodeControl c = Inr (control_head c @ t)"
      using c t core[OF c t] by (simp add: EncodeControl_def control_canon_def)
    then show "is_ok (EncodeControl c)" by simp
    assume "EncodeControl c = Inr b"
    with enc core[OF c t] show "DecodeControl b = Inr c" by simp
  }
  fix b and c :: Control
  assume p: "DecodeControl b = Inr c"
  then obtain eps where len: "45 \<le> length b" and flag: "\<not> 1 < b ! 11" and cnt: "\<not> 32 < b ! 44"
    and eps: "decode_endpoints (unat (b ! 44)) (drop 45 b) = Inr (eps, [])"
    and c: "c = \<lparr>ctl_Code = b ! 0, ctl_Round = be_word (take 2 (drop 1 b)),
                  ctl_Sequence = be_word (take 8 (drop 3 b)), ctl_Changed = (b ! 11 = 1),
                  ctl_Key = be_word (take 32 (drop 12 b)), ctl_Endpoints = eps\<rparr>"
    and valid: "control_valid c"
    by (auto simp: DecodeControl_def Let_def not_less split: if_splits prod.splits)
  from encode_decode_endpoints[OF eps] obtain t where
    ep: "length eps = unat (b ! 44)" "list_all endpoint_canon eps" "encode_endpoints eps = Inr t"
      "drop 45 b = t" by auto
  have "unat (b ! 44) \<le> 32" using cnt by (simp add: word_le_nat_alt not_less)
  with ep c valid show canon: "control_canon c" by (simp add: control_canon_def)
  have "control_head c = [b ! 0] @ take 2 (drop 1 b) @ take 8 (drop 3 b) @ [b ! 11]
      @ take 32 (drop 12 b) @ [b ! 44]"
    using len ep(1) policy_flag[OF flag] by (simp add: control_head_def c be_bytes_be_word)
  then have "control_head c @ t = b" using split_control[OF len] ep(4) by simp
  then show "EncodeControl c = Inr b"
    using canon ep p c by (simp add: EncodeControl_def control_canon_def)
qed

lemma DecodeControl_length: "DecodeControl b = Inr c \<Longrightarrow> length b \<le> 717"
proof -
  assume d: "DecodeControl b = Inr c"
  have le: "length t \<le> 21 * length eps" if "encode_endpoints eps = Inr t" for eps t
    using that
  proof (induction eps arbitrary: t)
    case (Cons ep eps)
    then show ?case by (fastforce dest: encodeEndpoint_length)
  qed simp
  from control_codec.enc_dec[OF d] control_codec.dec_canon[OF d] show "length b \<le> 717"
    by (auto simp: EncodeControl_def control_canon_def Let_def dest!: le split: if_splits)
qed

end
