(* ===== verification/Tlv.thy ===== *)
theory Tlv
  imports Prelude
begin

text \<open>
  The TLV body format, package \<^verbatim>\<open>internal/tlv\<close>: a borrowing cursor over a body and the
  append operation.  A TLV is a 16 bit type, a 16 bit length and the value.  The lemmas show
  that the cursor recovers exactly the sequence that was appended, that it accepts a body only
  if the body is such a sequence, and that iterating the cursor always ends.
\<close>

record view =
  v_Type :: u16
  v_Offset :: nat
  v_Value :: bytes

record cursor =
  c_body :: bytes
  c_off :: nat

definition NewCursor :: "bytes \<Rightarrow> cursor" where
  "NewCursor body = \<lparr>c_body = body, c_off = 0\<rparr>"

definition Next :: "cursor \<Rightarrow> view option result \<times> cursor" where
  "Next c =
    (if c_off c = length (c_body c) then (Inr None, c)
     else if length (c_body c) - c_off c < 4 then (Inl ErrMalformed, c)
     else
       let start = c_off c;
           typeCode = be_word (take 2 (drop start (c_body c)));
           len = unat (be_word (take 2 (drop (start + 2) (c_body c))) :: u16)
       in if length (c_body c) - (start + 4) < len then (Inl ErrMalformed, c)
          else (Inr (Some \<lparr>v_Type = typeCode, v_Offset = start,
                           v_Value = take len (drop (start + 4) (c_body c))\<rparr>),
                c\<lparr>c_off := start + 4 + len\<rparr>))"

definition Append :: "bytes \<Rightarrow> u16 \<Rightarrow> bytes \<Rightarrow> bytes" where
  "Append dst typeCode value =
     dst @ be_bytes 2 typeCode @ be_bytes 2 (word_of_nat (length value) :: u16) @ value"

text \<open>
  Both decoders drain a cursor with the same loop: stop at an error, end when the cursor is
  exhausted, otherwise fold the view into the fields collected so far.
\<close>

lemma Next_progress:
  assumes "Next c = (Inr (Some v), c')"
  shows "c_body c' = c_body c \<and> c_off c < c_off c' \<and> c_off c' \<le> length (c_body c)"
  using assms by (auto simp: Next_def Let_def split: if_splits)

function each_view :: "(view \<Rightarrow> 's \<Rightarrow> 's) \<Rightarrow> cursor \<Rightarrow> 's \<Rightarrow> 's result" where
  "each_view f c s =
    (case Next c of
       (Inl e, _) \<Rightarrow> Inl e
     | (Inr None, _) \<Rightarrow> Inr s
     | (Inr (Some v), c') \<Rightarrow> each_view f c' (f v s))"
  by pat_completeness auto
termination
proof (relation "measure (\<lambda>(f, c, s). length (c_body c) - c_off c)", goal_cases)
  case (2 f c s p c' w v)
  from 2(1)[symmetric] 2(2,3) have "Next c = (Inr (Some v), c')" by simp
  then show ?case by (auto dest!: Next_progress)
qed simp

declare each_view.simps [simp del]

section \<open>The sequence a body stands for\<close>

definition tlv_bytes :: "(u16 \<times> bytes) list \<Rightarrow> bytes" where
  "tlv_bytes ts = concat (map (\<lambda>(t, v). Append [] t v) ts)"

primrec views_from :: "nat \<Rightarrow> (u16 \<times> bytes) list \<Rightarrow> view list" where
  "views_from off [] = []"
| "views_from off (tv # ts) =
     \<lparr>v_Type = fst tv, v_Offset = off, v_Value = snd tv\<rparr>
       # views_from (off + 4 + length (snd tv)) ts"

definition short_values :: "(u16 \<times> bytes) list \<Rightarrow> bool" where
  "short_values ts = list_all (\<lambda>(t, v). length v < 65536) ts"

lemma tlv_bytes_simps [simp]:
  "tlv_bytes [] = []"
  "tlv_bytes ((t, v) # ts) = Append [] t v @ tlv_bytes ts"
  "tlv_bytes (ts @ us) = tlv_bytes ts @ tlv_bytes us"
  by (simp_all add: tlv_bytes_def)

lemma Append_tlv_bytes: "Append (tlv_bytes ts) t v = tlv_bytes (ts @ [(t, v)])"
  by (simp add: Append_def)

lemma Append_Nil_tlv_bytes: "Append [] t v = tlv_bytes [(t, v)]"
  by simp

lemma length_Append [simp]: "length (Append dst t v) = length dst + 4 + length v"
  by (simp add: Append_def)

lemma short_values_simps [simp]:
  "short_values []"
  "short_values ((t, v) # ts) \<longleftrightarrow> length v < 65536 \<and> short_values ts"
  by (simp_all add: short_values_def)

lemma unat_len16: "n < 65536 \<Longrightarrow> unat (word_of_nat n :: u16) = n"
  by (simp add: unat_of_nat)

lemma Next_end: "Next \<lparr>c_body = pre, c_off = length pre\<rparr> = (Inr None, \<lparr>c_body = pre, c_off = length pre\<rparr>)"
  by (simp add: Next_def)

lemma Next_Append:
  assumes "length v < 65536"
  shows "Next \<lparr>c_body = pre @ Append [] t v @ rest, c_off = length pre\<rparr>
    = (Inr (Some \<lparr>v_Type = t, v_Offset = length pre, v_Value = v\<rparr>),
       \<lparr>c_body = pre @ Append [] t v @ rest, c_off = length pre + 4 + length v\<rparr>)"
  using assms by (simp add: Next_def Append_def Let_def unat_len16)

lemma each_view_tlv_bytes:
  assumes "short_values ts"
  shows "each_view f \<lparr>c_body = pre @ tlv_bytes ts, c_off = length pre\<rparr> s
    = Inr (fold f (views_from (length pre) ts) s)"
  using assms
proof (induction ts arbitrary: pre s)
  case Nil
  then show ?case by (simp add: each_view.simps Next_end)
next
  case (Cons tv ts)
  obtain t v where tv: "tv = (t, v)" by (cases tv)
  have "each_view f \<lparr>c_body = (pre @ Append [] t v) @ tlv_bytes ts, c_off = length (pre @ Append [] t v)\<rparr>
      (f \<lparr>v_Type = t, v_Offset = length pre, v_Value = v\<rparr> s)
    = Inr (fold f (views_from (length (pre @ Append [] t v)) ts)
        (f \<lparr>v_Type = t, v_Offset = length pre, v_Value = v\<rparr> s))"
    using Cons.prems tv by (intro Cons.IH) simp
  then show ?case
    using Cons.prems tv
    by (subst each_view.simps) (simp add: Next_Append add.assoc)
qed

theorem drain_appended:
  "short_values ts \<Longrightarrow> each_view f (NewCursor (tlv_bytes ts)) s = Inr (fold f (views_from 0 ts) s)"
  using each_view_tlv_bytes[of ts f "[]"] by (simp add: NewCursor_def)

lemma take_drop_split: "k \<le> length xs \<Longrightarrow> xs = take k xs @ drop k xs"
  by simp

lemma Next_Some_inv:
  assumes "Next c = (Inr (Some v), c')"
  shows "drop (c_off c) (c_body c) = Append [] (v_Type v) (v_Value v) @ drop (c_off c') (c_body c)"
    and "length (v_Value v) < 65536"
    and "v_Offset v = c_off c"
    and "c' = c\<lparr>c_off := c_off c + 4 + length (v_Value v)\<rparr>"
proof -
  define rest where "rest = drop (c_off c) (c_body c)"
  define len where "len = unat (be_word (take 2 (drop 2 rest)) :: u16)"
  from assms have four: "4 \<le> length rest" and fits: "len \<le> length rest - 4"
    and v: "v = \<lparr>v_Type = be_word (take 2 rest), v_Offset = c_off c, v_Value = take len (drop 4 rest)\<rparr>"
    and c': "c' = c\<lparr>c_off := c_off c + 4 + len\<rparr>"
    by (auto simp: Next_def Let_def rest_def len_def add.commute split: if_splits)
  have len16: "len < 65536"
    unfolding len_def using unsigned_less[of "be_word (take 2 (drop 2 rest)) :: u16", where ?'a = nat] by simp
  have value_len: "length (v_Value v) = len"
    using v fits by simp
  have "be_bytes 2 (word_of_nat len :: u16) = take 2 (drop 2 rest)"
    unfolding len_def using four by (simp add: be_bytes_be_word)
  moreover have "be_bytes 2 (v_Type v) = take 2 rest"
    using v four by (simp add: be_bytes_be_word)
  ultimately have "Append [] (v_Type v) (v_Value v) @ drop len (drop 4 rest)
      = take 2 rest @ take 2 (drop 2 rest) @ take len (drop 4 rest) @ drop len (drop 4 rest)"
    using value_len v by (simp add: Append_def)
  also have "\<dots> = rest"
    by (metis append_assoc append_take_drop_id drop_drop numeral_Bit0 take_add)
  finally have "rest = Append [] (v_Type v) (v_Value v) @ drop (c_off c') (c_body c)"
    using c' by (simp add: rest_def add.commute add.left_commute)
  then show "drop (c_off c) (c_body c) = Append [] (v_Type v) (v_Value v) @ drop (c_off c') (c_body c)"
    by (simp add: rest_def)
  show "length (v_Value v) < 65536" "v_Offset v = c_off c"
    "c' = c\<lparr>c_off := c_off c + 4 + length (v_Value v)\<rparr>"
    using value_len len16 v c' by simp_all
qed

lemma Next_cases [case_names err fin more]:
  obtains (err) c' where "Next c = (Inl ErrMalformed, c')"
    | (fin) c' where "Next c = (Inr None, c')" "c_off c = length (c_body c)"
    | (more) v c' where "Next c = (Inr (Some v), c')"
proof -
  have "(\<exists>c'. Next c = (Inl ErrMalformed, c'))
    \<or> (\<exists>c'. Next c = (Inr None, c') \<and> c_off c = length (c_body c))
    \<or> (\<exists>v c'. Next c = (Inr (Some v), c'))"
    by (simp add: Next_def Let_def)
  then show ?thesis using that by blast
qed

lemma each_view_Inr_inv:
  assumes "each_view f c s = Inr s'" and "c_off c \<le> length (c_body c)"
  shows "\<exists>ts. short_values ts \<and> drop (c_off c) (c_body c) = tlv_bytes ts
    \<and> s' = fold f (views_from (c_off c) ts) s"
  using assms
proof (induction f c s rule: each_view.induct)
  case (1 f c s)
  show ?case
  proof (cases c rule: Next_cases)
    case err
    with "1.prems" show ?thesis by (simp add: each_view.simps[of f c s])
  next
    case fin
    with "1.prems" show ?thesis
      by (intro exI[of _ "[]"]) (simp add: each_view.simps[of f c s])
  next
    case (more v c')
    note inv = Next_Some_inv[OF more] and pr = Next_progress[OF more]
    from more "1.prems" have rec: "each_view f c' (f v s) = Inr s'"
      by (simp add: each_view.simps[of f c s])
    have "c_off c' \<le> length (c_body c')" using pr by simp
    from "1.IH"[OF more[symmetric] refl refl rec this] obtain ts where
      ts: "short_values ts" "drop (c_off c') (c_body c') = tlv_bytes ts"
        "s' = fold f (views_from (c_off c') ts) (f v s)" by blast
    have eta: "\<lparr>v_Type = v_Type v, v_Offset = c_off c, v_Value = v_Value v\<rparr> = v"
      using inv(3) by (cases v) simp
    show ?thesis
      using ts inv pr by (intro exI[of _ "(v_Type v, v_Value v) # ts"]) (simp add: eta)
  qed
qed

lemma each_view_accepts:
  "(\<exists>s'. each_view f (NewCursor body) s = Inr s') \<longleftrightarrow> (\<exists>ts. short_values ts \<and> body = tlv_bytes ts)"
proof
  assume "\<exists>s'. each_view f (NewCursor body) s = Inr s'"
  then obtain s' where "each_view f (NewCursor body) s = Inr s'" ..
  from each_view_Inr_inv[OF this] show "\<exists>ts. short_values ts \<and> body = tlv_bytes ts"
    by (auto simp: NewCursor_def)
qed (auto simp: drain_appended)

lemma tlv_bytes_inj:
  assumes "short_values ts" and "short_values us" and "tlv_bytes ts = tlv_bytes us"
  shows "ts = us"
proof -
  define f :: "view \<Rightarrow> (u16 \<times> bytes) list \<Rightarrow> _" where "f = (\<lambda>v acc. acc @ [(v_Type v, v_Value v)])"
  have collect: "fold f (views_from off xs) acc = acc @ xs" for off xs acc
    by (induction xs arbitrary: off acc) (simp_all add: f_def)
  have "each_view f (NewCursor (tlv_bytes ts)) [] = Inr ts"
    using drain_appended[OF assms(1), of f "[]"] by (simp only: collect append_Nil)
  moreover have "each_view f (NewCursor (tlv_bytes us)) [] = Inr us"
    using drain_appended[OF assms(2), of f "[]"] by (simp only: collect append_Nil)
  ultimately show ?thesis using assms(3) by (metis sum.inject(2))
qed

lemma each_view_error: "each_view f c s = Inl e \<Longrightarrow> e = ErrMalformed"
proof (induction f c s rule: each_view.induct)
  case (1 f c s)
  show ?case
  proof (cases c rule: Next_cases)
    case (more v c')
    with "1.prems" have "each_view f c' (f v s) = Inl e" by (simp add: each_view.simps[of f c s])
    with "1.IH"[OF more[symmetric] refl refl] show ?thesis by blast
  qed (use "1.prems" in \<open>simp_all add: each_view.simps[of f c s]\<close>)
qed

end
