(* ===== verification/Message_Types.thy ===== *)
theory Message_Types
  imports Control_Codec Tlv
begin

text \<open>
  The message vocabulary of the Velvet Fabric Protocol: message and TLV codes, the flat
  \<^verbatim>\<open>Message\<close> struct of \<^verbatim>\<open>internal/vfp/message/message.go\<close> with its zero value, and the
  predicates that classify message types.  A message type is the octet of the header, so that
  unknown codes are representable.
\<close>

section \<open>Message types\<close>

abbreviation Open :: byte where "Open \<equiv> 0x01"
abbreviation NodeState :: byte where "NodeState \<equiv> 0x02"
abbreviation LinkPropose :: byte where "LinkPropose \<equiv> 0x03"
abbreviation LinkAccept :: byte where "LinkAccept \<equiv> 0x04"
abbreviation DynamicLinkPropose :: byte where "DynamicLinkPropose \<equiv> 0x06"
abbreviation DynamicLinkAccept :: byte where "DynamicLinkAccept \<equiv> 0x07"
abbreviation DynamicLinkDecline :: byte where "DynamicLinkDecline \<equiv> 0x08"
abbreviation DiscoveryHello :: byte where "DiscoveryHello \<equiv> 0x09"
abbreviation DiscoveryHelloAck :: byte where "DiscoveryHelloAck \<equiv> 0x0a"
abbreviation DiscoveryControl :: byte where "DiscoveryControl \<equiv> 0x0b"
abbreviation PublicProbe :: byte where "PublicProbe \<equiv> 0x0c"
abbreviation LinkPing :: byte where "LinkPing \<equiv> 0x0d"
abbreviation LinkPong :: byte where "LinkPong \<equiv> 0x0e"
abbreviation PolicyQuery :: byte where "PolicyQuery \<equiv> 0x0f"
abbreviation PolicyUpdate :: byte where "PolicyUpdate \<equiv> 0x10"
abbreviation DurablePropose :: byte where "DurablePropose \<equiv> 0x11"
abbreviation DurableSaved :: byte where "DurableSaved \<equiv> 0x12"
abbreviation DurableDecline :: byte where "DurableDecline \<equiv> 0x13"
abbreviation DurableCheck :: byte where "DurableCheck \<equiv> 0x14"
abbreviation DurableStatus :: byte where "DurableStatus \<equiv> 0x15"

definition IsPolicy :: "byte \<Rightarrow> bool" where
  "IsPolicy t = (t = PolicyQuery \<or> t = PolicyUpdate)"

definition IsLinkProbe :: "byte \<Rightarrow> bool" where
  "IsLinkProbe t = (t = LinkPing \<or> t = LinkPong)"

definition IsDiscovery :: "byte \<Rightarrow> bool" where
  "IsDiscovery t = (t = DiscoveryHello \<or> t = DiscoveryHelloAck)"

definition IsDurable :: "byte \<Rightarrow> bool" where
  "IsDurable t = (DurablePropose \<le> t \<and> t \<le> DurableStatus)"

section \<open>TLV types\<close>

abbreviation NodeUIDTLV :: u16 where "NodeUIDTLV \<equiv> 0x0001"
abbreviation LoopbackV6TLV :: u16 where "LoopbackV6TLV \<equiv> 0x0003"
abbreviation LinkPrefixV4TLV :: u16 where "LinkPrefixV4TLV \<equiv> 0x0004"
abbreviation LinkPrefixV6TLV :: u16 where "LinkPrefixV6TLV \<equiv> 0x0005"
abbreviation OperationIDTLV :: u16 where "OperationIDTLV \<equiv> 0x0006"
abbreviation WGPublicKeyTLV :: u16 where "WGPublicKeyTLV \<equiv> 0x0007"
abbreviation WGEndpointTLV :: u16 where "WGEndpointTLV \<equiv> 0x0008"
abbreviation ProbeKeyTLV :: u16 where "ProbeKeyTLV \<equiv> 0x0009"
abbreviation DiscoveryDataTLV :: u16 where "DiscoveryDataTLV \<equiv> 0x000a"
abbreviation SealedProbeTLV :: u16 where "SealedProbeTLV \<equiv> 0x000b"
abbreviation DeclineReasonTLV :: u16 where "DeclineReasonTLV \<equiv> 0x000c"
abbreviation DynamicLinkPolicyTLV :: u16 where "DynamicLinkPolicyTLV \<equiv> 0x000d"
abbreviation FlagsTLV :: u16 where "FlagsTLV \<equiv> 0x000e"
abbreviation StatusTLV :: u16 where "StatusTLV \<equiv> 0x000f"

section \<open>Messages\<close>

abbreviation DeclineOrdinary :: byte where "DeclineOrdinary \<equiv> 0"
abbreviation DeclinePolicy :: byte where "DeclinePolicy \<equiv> 1"
abbreviation Ready :: byte where "Ready \<equiv> 0"
abbreviation NotReady :: byte where "NotReady \<equiv> 1"
abbreviation Absent :: byte where "Absent \<equiv> 2"
abbreviation NoDurable :: u32 where "NoDurable \<equiv> 1"

record FixedEndpoint =
  fe_UID :: UID
  fe_Endpoint :: addrport

record Message =
  m_FixedEndpoints :: "FixedEndpoint list"
  m_AgreementID :: array16
  m_Flags :: u32
  m_Status :: byte
  m_DeclineReason :: byte
  m_Policy :: "DynamicLinkPolicy option"
  m_Type :: byte
  m_ProbeKey :: array32
  m_Data :: bytes
  m_UID :: "UID option"
  m_LoopbackV6 :: addr
  m_LinkPrefixV4 :: prefix
  m_LinkPrefixV6 :: prefix
  m_OperationID :: array16
  m_WGPublicKey :: array32
  m_Endpoint :: addrport

text \<open>The composite literal \<^verbatim>\<open>Message{Type: t}\<close>: every other field has its zero value.\<close>

definition message_of :: "byte \<Rightarrow> Message" where
  "message_of t =
    \<lparr>m_FixedEndpoints = [], m_AgreementID = 0, m_Flags = 0, m_Status = 0, m_DeclineReason = 0,
     m_Policy = None, m_Type = t, m_ProbeKey = 0, m_Data = [], m_UID = None,
     m_LoopbackV6 = NoAddr, m_LinkPrefixV4 = NoPrefix, m_LinkPrefixV6 = NoPrefix,
     m_OperationID = 0, m_WGPublicKey = 0, m_Endpoint = NoAddrPort\<rparr>"

lemma message_of_simps [simp]:
  "m_FixedEndpoints (message_of t) = []" "m_AgreementID (message_of t) = 0"
  "m_Flags (message_of t) = 0" "m_Status (message_of t) = 0" "m_DeclineReason (message_of t) = 0"
  "m_Policy (message_of t) = None" "m_Type (message_of t) = t" "m_ProbeKey (message_of t) = 0"
  "m_Data (message_of t) = []" "m_UID (message_of t) = None" "m_LoopbackV6 (message_of t) = NoAddr"
  "m_LinkPrefixV4 (message_of t) = NoPrefix" "m_LinkPrefixV6 (message_of t) = NoPrefix"
  "m_OperationID (message_of t) = 0" "m_WGPublicKey (message_of t) = 0"
  "m_Endpoint (message_of t) = NoAddrPort"
  by (simp_all add: message_of_def)

lemmas type_class_defs = IsPolicy_def IsLinkProbe_def IsDiscovery_def IsDurable_def

fun error_text :: "error \<Rightarrow> string" where
  "error_text ErrMalformed = ''malformed TLV body''"
| "error_text (ErrFrame s) = ''invalid VFP frame: '' @ s"
| "error_text (ErrConnection s) = ''invalid VFP connection: '' @ s"
| "error_text (ErrNew s) = s"
| "error_text (Panic s) = s"

definition wrap_frame :: "'a result \<Rightarrow> 'a result" where
  "wrap_frame r = (case r of Inl e \<Rightarrow> Inl (ErrFrame (error_text e)) | Inr x \<Rightarrow> Inr x)"

lemma wrap_frame_simps [simp]:
  "wrap_frame (Inr x) = Inr x" "wrap_frame r = Inr x \<longleftrightarrow> r = Inr x"
  by (auto simp: wrap_frame_def split: sum.splits)

end
