(* ===== verification/Durable_Codec.thy ===== *)
theory Durable_Codec
  imports Message_Types
begin

text \<open>
  The bodies of the durable-link messages, \<^verbatim>\<open>internal/vfp/message/durable.go\<close>.  Unlike the other
  messages they admit a bounded number of repeated TLVs.  The encoder finishes by running the
  decoder on its own output; the lemmas show what that check accepts, that the two are inverse
  on it, and that the endpoint list of an accepted proposal is strictly ordered by node UUID.
\<close>

definition durableOccurrences :: "byte \<Rightarrow> u16 \<Rightarrow> nat" where
  "durableOccurrences t field =
    (if field = OperationIDTLV then (if t = DurableCheck \<or> t = DurableStatus then 2 else 1)
     else if (field = NodeUIDTLV \<or> field = WGEndpointTLV) \<and> t = DurablePropose then 2
     else if field = FlagsTLV \<and> t = DurablePropose then 1
     else if field = StatusTLV \<and> t = DurableStatus then 1
     else if (field = DeclineReasonTLV \<or> field = DynamicLinkPolicyTLV) \<and> t = DurableDecline then 1
     else 0)"

text \<open>One turn of the field loop: keep a value while its type is below its limit.\<close>

definition keep_field :: "byte \<Rightarrow> view \<Rightarrow> (u16 \<Rightarrow> bytes list) \<Rightarrow> (u16 \<Rightarrow> bytes list)" where
  "keep_field kind v flds =
    (if length (flds (v_Type v)) < durableOccurrences kind (v_Type v)
     then flds(v_Type v := flds (v_Type v) @ [v_Value v]) else flds)"

definition uuid_Compare :: "array16 \<Rightarrow> array16 \<Rightarrow> int" where
  "uuid_Compare a b = bytes_Compare (be_bytes 16 a) (be_bytes 16 b)"

fun decode_fixed :: "FixedEndpoint list \<Rightarrow> bytes list \<Rightarrow> bytes list \<Rightarrow> FixedEndpoint list result" where
  "decode_fixed acc (u # us) (e # es) =
    (case parseUID u of
       Inl _ \<Rightarrow> Inl (ErrFrame [])
     | Inr uid \<Rightarrow>
       (case parseEndpoint e of
          Inl _ \<Rightarrow> Inl (ErrFrame [])
        | Inr ep \<Rightarrow>
          if acc \<noteq> [] \<and> 0 \<le> uuid_Compare (UUID (fe_UID (last acc))) (UUID uid)
          then Inl (ErrFrame [])
          else decode_fixed (acc @ [\<lparr>fe_UID = uid, fe_Endpoint = ep\<rparr>]) us es))"
| "decode_fixed acc _ _ = Inr acc"

definition decode_durable_fields :: "byte \<Rightarrow> (u16 \<Rightarrow> bytes list) \<Rightarrow> Message result" where
  "decode_durable_fields kind flds =
    (let ids = flds OperationIDTLV in
     if length ids \<noteq> durableOccurrences kind OperationIDTLV then Inl (ErrFrame [])
     else
       (case parseOperationID (ids ! 0) of
          Inl _ \<Rightarrow> Inl (ErrFrame [])
        | Inr op \<Rightarrow>
          if allZero (be_bytes 16 op) then Inl (ErrFrame [])
          else bind_r
            (if length ids = 2 then
               (case parseOperationID (ids ! 1) of
                  Inl _ \<Rightarrow> Inl (ErrFrame [])
                | Inr ag \<Rightarrow> if allZero (be_bytes 16 ag) then Inl (ErrFrame []) else Inr ag)
             else Inr 0)
            (\<lambda>ag.
              let m = (message_of kind)\<lparr>m_OperationID := op, m_AgreementID := ag\<rparr> in
              if kind = DurablePropose then
                (let uids = flds NodeUIDTLV; endpoints = flds WGEndpointTLV in
                 if length uids = 0 \<or> length uids \<noteq> length endpoints then Inl (ErrFrame [])
                 else bind_r (decode_fixed [] uids endpoints) (\<lambda>fixed.
                   (case flds FlagsTLV of
                      [] \<Rightarrow> Inr (m\<lparr>m_FixedEndpoints := fixed\<rparr>)
                    | f # _ \<Rightarrow>
                      if length f \<noteq> 4 then Inl (ErrFrame [])
                      else Inr (m\<lparr>m_FixedEndpoints := fixed, m_Flags := be_word f\<rparr>))))
              else if kind = DurableStatus then
                (case flds StatusTLV of
                   [[s]] \<Rightarrow> if Absent < s then Inl (ErrFrame []) else Inr (m\<lparr>m_Status := s\<rparr>)
                 | _ \<Rightarrow> Inl (ErrFrame []))
              else if kind = DurableDecline then
                (case flds DeclineReasonTLV of
                   [[r]] \<Rightarrow>
                     if DeclinePolicy < r then Inl (ErrFrame [])
                     else bind_r
                       (case flds DynamicLinkPolicyTLV of
                          [] \<Rightarrow> Inr None
                        | p # _ \<Rightarrow> bind_r (parseDynamicLinkPolicy p) (\<lambda>q. Inr (Some q)))
                       (\<lambda>policy.
                         if r = DeclinePolicy
                           \<and> (case policy of None \<Rightarrow> True | Some q \<Rightarrow> Accept q)
                         then Inl (ErrFrame [])
                         else Inr (m\<lparr>m_DeclineReason := r, m_Policy := policy\<rparr>))
                 | _ \<Rightarrow> Inl (ErrFrame []))
              else Inr m)))"

definition decodeDurable :: "byte \<Rightarrow> bytes \<Rightarrow> Message result" where
  "decodeDurable kind body =
    (case each_view (keep_field kind) (NewCursor body) (\<lambda>_. []) of
       Inl _ \<Rightarrow> Inl (ErrFrame [])
     | Inr flds \<Rightarrow> decode_durable_fields kind flds)"

fun encode_fixed :: "bytes \<Rightarrow> FixedEndpoint list \<Rightarrow> bytes result" where
  "encode_fixed b [] = Inr b"
| "encode_fixed b (fixed # rest) =
    bind_r (encodeUID (fe_UID fixed)) (\<lambda>uid.
      bind_r (encodeEndpoint (fe_Endpoint fixed)) (\<lambda>ep.
        encode_fixed (Append (Append b NodeUIDTLV uid) WGEndpointTLV ep) rest))"

definition encodeDurable :: "Message \<Rightarrow> bytes result" where
  "encodeDurable m =
    (let b0 = Append [] OperationIDTLV (be_bytes 16 (m_OperationID m));
         b = (if m_Type m = DurableCheck \<or> m_Type m = DurableStatus
              then Append b0 OperationIDTLV (be_bytes 16 (m_AgreementID m)) else b0)
     in bind_r
       (if m_Type m = DurablePropose then
          (if length (m_FixedEndpoints m) < 1 \<or> 2 < length (m_FixedEndpoints m)
           then Inl (ErrFrame [])
           else bind_r (encode_fixed b (m_FixedEndpoints m)) (\<lambda>b.
             Inr (if m_Flags m \<noteq> 0 then Append b FlagsTLV (be_bytes 4 (m_Flags m)) else b)))
        else if m_Type m = DurableStatus then Inr (Append b StatusTLV [m_Status m])
        else if m_Type m = DurableDecline then
          (let b = Append b DeclineReasonTLV [m_DeclineReason m] in
           case m_Policy m of
             None \<Rightarrow> Inr b
           | Some p \<Rightarrow>
             bind_r (encodeDynamicLinkPolicy (Some p)) (\<lambda>v. Inr (Append b DynamicLinkPolicyTLV v)))
        else Inr b)
       (\<lambda>b. bind_r (decodeDurable (m_Type m) b) (\<lambda>_. Inr b)))"

section \<open>The fields collected from a body\<close>

definition values_of :: "u16 \<Rightarrow> (u16 \<times> bytes) list \<Rightarrow> bytes list" where
  "values_of k ts = map snd (filter (\<lambda>tv. fst tv = k) ts)"

lemma values_of_simps [simp]:
  "values_of k [] = []"
  "values_of k ((t, v) # ts) = (if t = k then v # values_of k ts else values_of k ts)"
  by (simp_all add: values_of_def)

lemma fold_keep_field:
  assumes "\<And>k. length (flds k) \<le> durableOccurrences kind k"
  shows "fold (keep_field kind) (views_from off ts) flds
    = (\<lambda>k. flds k @ take (durableOccurrences kind k - length (flds k)) (values_of k ts))"
  using assms
proof (induction ts arbitrary: off flds)
  case (Cons tv ts)
  obtain t v where tv: "tv = (t, v)" by (cases tv)
  let ?view = "\<lparr>v_Type = t, v_Offset = off, v_Value = v\<rparr>"
  let ?flds = "keep_field kind ?view flds"
  have "\<And>k. length (?flds k) \<le> durableOccurrences kind k"
    using Cons.prems by (auto simp: keep_field_def)
  from Cons.IH[OF this] have IH: "fold (keep_field kind) (views_from (off + 4 + length v) ts) ?flds
    = (\<lambda>k. ?flds k @ take (durableOccurrences kind k - length (?flds k)) (values_of k ts))" .
  have "?flds k @ take (durableOccurrences kind k - length (?flds k)) (values_of k ts)
    = flds k @ take (durableOccurrences kind k - length (flds k)) (values_of k ((t, v) # ts))" for k
    using Cons.prems[of k] by (auto simp: keep_field_def take_Cons' Suc_diff_Suc)
  with IH show ?case by (simp add: tv)
qed simp

lemma decodeDurable_tlv_bytes:
  assumes "short_values ts"
  shows "decodeDurable kind (tlv_bytes ts)
    = decode_durable_fields kind (\<lambda>k. take (durableOccurrences kind k) (values_of k ts))"
  using assms by (simp add: decodeDurable_def drain_appended fold_keep_field)

lemma decodeDurable_inv:
  assumes "decodeDurable kind body = Inr m"
  obtains ts where "short_values ts" "body = tlv_bytes ts"
    "decode_durable_fields kind (\<lambda>k. take (durableOccurrences kind k) (values_of k ts)) = Inr m"
proof -
  from assms obtain flds where "each_view (keep_field kind) (NewCursor body) (\<lambda>_. []) = Inr flds"
    by (auto simp: decodeDurable_def split: sum.splits)
  then obtain ts where ts: "short_values ts" "body = tlv_bytes ts"
    using each_view_accepts[of "keep_field kind" body "\<lambda>_. []"] by auto
  from assms have "decode_durable_fields kind (\<lambda>k. take (durableOccurrences kind k) (values_of k ts)) = Inr m"
    unfolding ts(2) decodeDurable_tlv_bytes[OF ts(1)] .
  with that ts show ?thesis by blast
qed

section \<open>The fixed endpoints\<close>

lemma uuid_Compare_less: "uuid_Compare a b < 0 \<longleftrightarrow> a < b"
  by (simp add: uuid_Compare_def bytes_Compare_word_less)

definition fixed_canon :: "FixedEndpoint \<Rightarrow> bool" where
  "fixed_canon f = (uid_canon (fe_UID f) \<and> endpoint_canon (fe_Endpoint f))"

abbreviation fixed_less :: "FixedEndpoint \<Rightarrow> FixedEndpoint \<Rightarrow> bool" where
  "fixed_less f g \<equiv> UUID (fe_UID f) < UUID (fe_UID g)"

lemma decode_fixed_inv:
  assumes "decode_fixed acc us es = Inr fixed" "length us = length es"
    and "sorted_wrt fixed_less acc" "list_all fixed_canon acc"
  shows "sorted_wrt fixed_less fixed \<and> list_all fixed_canon fixed \<and> length fixed = length acc + length us"
  using assms
proof (induction acc us es rule: decode_fixed.induct)
  case (1 acc u us e es)
  from "1.prems"(1) obtain uid ep where uid: "parseUID u = Inr uid" and ep: "parseEndpoint e = Inr ep"
    and ord: "\<not> (acc \<noteq> [] \<and> 0 \<le> uuid_Compare (UUID (fe_UID (last acc))) (UUID uid))"
    and rec: "decode_fixed (acc @ [\<lparr>fe_UID = uid, fe_Endpoint = ep\<rparr>]) us es = Inr fixed"
    by (auto split: sum.splits if_splits)
  have "fixed_canon \<lparr>fe_UID = uid, fe_Endpoint = ep\<rparr>"
    using uid_codec.dec_canon[OF uid] endpoint_codec.dec_canon[OF ep] by (simp add: fixed_canon_def)
  with "1.prems"(4) have canon: "list_all fixed_canon (acc @ [\<lparr>fe_UID = uid, fe_Endpoint = ep\<rparr>])"
    by simp
  have "UUID (fe_UID f) < UUID uid" if f: "f \<in> set acc" for f
  proof -
    from f have ne: "acc \<noteq> []" by auto
    with ord have last: "UUID (fe_UID (last acc)) < UUID uid"
      by (simp add: uuid_Compare_less[symmetric])
    show ?thesis
    proof (cases "f = last acc")
      case False
      with f ne have "f \<in> set (butlast acc)"
        by (metis append_butlast_last_id in_set_butlast_appendI rotate1.simps(2) set_ConsD set_rotate1)
      moreover have "sorted_wrt fixed_less (butlast acc @ [last acc])"
        using "1.prems"(3) ne by simp
      ultimately have "fixed_less f (last acc)" by (simp add: sorted_wrt_append)
      from this last show ?thesis by (rule less_trans)
    qed (use last in simp)
  qed
  then have "sorted_wrt fixed_less (acc @ [\<lparr>fe_UID = uid, fe_Endpoint = ep\<rparr>])"
    using "1.prems"(3) by (simp add: sorted_wrt_append)
  from "1.IH"[OF uid ep ord rec _ this canon] "1.prems"(2) show ?case by simp
qed simp_all

lemma decode_fixed_one:
  "fixed_canon f \<Longrightarrow> encodeUID (fe_UID f) = Inr u \<Longrightarrow> encodeEndpoint (fe_Endpoint f) = Inr e \<Longrightarrow>
    decode_fixed acc (u # us) (e # es) =
      (if acc \<noteq> [] \<and> \<not> fixed_less (last acc) f then Inl (ErrFrame [])
       else decode_fixed (acc @ [f]) us es)"
  using uuid_Compare_less[of "UUID (fe_UID (last acc))" "UUID (fe_UID f)"]
  by (cases f) (auto simp: fixed_canon_def uid_codec.dec_enc endpoint_codec.dec_enc)

section \<open>Round trip\<close>

definition durable_canon :: "Message \<Rightarrow> bool" where
  "durable_canon m =
    (let t = m_Type m; base = (message_of t)\<lparr>m_OperationID := m_OperationID m\<rparr> in
     m_OperationID m \<noteq> 0 \<and>
     (if t = DurablePropose then
        m = base\<lparr>m_FixedEndpoints := m_FixedEndpoints m, m_Flags := m_Flags m\<rparr>
        \<and> length (m_FixedEndpoints m) \<in> {1, 2} \<and> list_all fixed_canon (m_FixedEndpoints m)
        \<and> sorted_wrt fixed_less (m_FixedEndpoints m)
      else if t = DurableSaved then m = base
      else if t = DurableDecline then
        m = base\<lparr>m_DeclineReason := m_DeclineReason m, m_Policy := m_Policy m\<rparr>
        \<and> m_DeclineReason m \<le> DeclinePolicy
        \<and> (case m_Policy m of None \<Rightarrow> m_DeclineReason m \<noteq> DeclinePolicy
            | Some p \<Rightarrow> policy_canon p \<and> (m_DeclineReason m = DeclinePolicy \<longrightarrow> \<not> Accept p))
      else if t = DurableCheck then
        m = base\<lparr>m_AgreementID := m_AgreementID m\<rparr> \<and> m_AgreementID m \<noteq> 0
      else if t = DurableStatus then
        m = base\<lparr>m_AgreementID := m_AgreementID m, m_Status := m_Status m\<rparr>
        \<and> m_AgreementID m \<noteq> 0 \<and> m_Status m \<le> Absent
      else False))"

definition fixed_tlvs :: "FixedEndpoint list \<Rightarrow> (u16 \<times> bytes) list" where
  "fixed_tlvs fs = concat (map (\<lambda>f.
     [(NodeUIDTLV, projr (encodeUID (fe_UID f))), (WGEndpointTLV, projr (encodeEndpoint (fe_Endpoint f)))]) fs)"

definition durable_tlvs :: "Message \<Rightarrow> (u16 \<times> bytes) list" where
  "durable_tlvs m =
    (let t = m_Type m; op = (OperationIDTLV, be_bytes 16 (m_OperationID m));
         ag = (OperationIDTLV, be_bytes 16 (m_AgreementID m)) in
     if t = DurablePropose then
       op # fixed_tlvs (m_FixedEndpoints m)
         @ (if m_Flags m \<noteq> 0 then [(FlagsTLV, be_bytes 4 (m_Flags m))] else [])
     else if t = DurableStatus then [op, ag, (StatusTLV, [m_Status m])]
     else if t = DurableDecline then
       [op, (DeclineReasonTLV, [m_DeclineReason m])]
         @ (case m_Policy m of None \<Rightarrow> []
            | Some p \<Rightarrow> [(DynamicLinkPolicyTLV, projr (encodeDynamicLinkPolicy (Some p)))])
     else if t = DurableCheck then [op, ag] else [op])"

lemma encode_fixed_tlvs:
  "list_all fixed_canon fs \<Longrightarrow> encode_fixed (tlv_bytes ts) fs = Inr (tlv_bytes (ts @ fixed_tlvs fs))"
proof (induction fs arbitrary: ts)
  case (Cons f fs)
  then obtain u e where ue: "encodeUID (fe_UID f) = Inr u" "encodeEndpoint (fe_Endpoint f) = Inr e"
    using uid_codec.enc_total endpoint_codec.enc_total by (fastforce simp: fixed_canon_def is_ok_iff)
  then have "encode_fixed (tlv_bytes ts) (f # fs)
      = encode_fixed (tlv_bytes (ts @ [(NodeUIDTLV, u), (WGEndpointTLV, e)])) fs"
    by (simp only: encode_fixed.simps bind_r_simps Append_tlv_bytes append_assoc append_Cons append_Nil)
  also have "\<dots> = Inr (tlv_bytes ((ts @ [(NodeUIDTLV, u), (WGEndpointTLV, e)]) @ fixed_tlvs fs))"
    using Cons.prems by (intro Cons.IH) simp
  also have "(ts @ [(NodeUIDTLV, u), (WGEndpointTLV, e)]) @ fixed_tlvs fs = ts @ fixed_tlvs (f # fs)"
    using ue by (simp add: fixed_tlvs_def)
  finally show ?case .
qed (simp add: fixed_tlvs_def)

lemma durable_canon_type:
  assumes "durable_canon m"
  shows "m_Type m \<in> {DurablePropose, DurableSaved, DurableDecline, DurableCheck, DurableStatus}"
  using assms by (auto simp: durable_canon_def Let_def split: if_splits)

lemma canon_field_lengths:
  "uid_canon u \<Longrightarrow> length (projr (encodeUID u)) \<le> 21"
  "endpoint_canon ep \<Longrightarrow> length (projr (encodeEndpoint ep)) \<le> 20"
  "policy_canon p \<Longrightarrow> length (projr (encodeDynamicLinkPolicy (Some p))) = 9"
proof -
  show "endpoint_canon ep \<Longrightarrow> length (projr (encodeEndpoint ep)) \<le> 20"
    using endpoint_codec.enc_total[of ep] encodeEndpoint_length by (fastforce simp: is_ok_iff)
qed (simp_all add: encodeUID_eq uid_canon_def encodeDynamicLinkPolicy_def policy_canon_def)

lemma fixed_tlvs_simps [simp]:
  "fixed_tlvs [] = []"
  "fixed_tlvs (f # fs) = (NodeUIDTLV, projr (encodeUID (fe_UID f)))
     # (WGEndpointTLV, projr (encodeEndpoint (fe_Endpoint f))) # fixed_tlvs fs"
  by (simp_all add: fixed_tlvs_def)

lemma fixed_tlvs_short: "list_all fixed_canon fs \<Longrightarrow> short_values (fixed_tlvs fs)"
  by (induction fs) (auto simp: fixed_canon_def dest!: canon_field_lengths)

lemma short_values_append [simp]: "short_values (ts @ us) \<longleftrightarrow> short_values ts \<and> short_values us"
  by (simp add: short_values_def)

lemma durable_tlvs_short: "durable_canon m \<Longrightarrow> short_values (durable_tlvs m)"
  by (auto simp: durable_canon_def durable_tlvs_def Let_def canon_field_lengths fixed_tlvs_short
      split: if_splits option.splits)

lemma values_of_append [simp]: "values_of k (ts @ us) = values_of k ts @ values_of k us"
  by (simp add: values_of_def)

lemma values_of_fixed_tlvs [simp]:
  "values_of NodeUIDTLV (fixed_tlvs fs) = map (\<lambda>f. projr (encodeUID (fe_UID f))) fs"
  "values_of WGEndpointTLV (fixed_tlvs fs) = map (\<lambda>f. projr (encodeEndpoint (fe_Endpoint f))) fs"
  "values_of OperationIDTLV (fixed_tlvs fs) = []"
  "values_of FlagsTLV (fixed_tlvs fs) = []"
  by (induction fs) simp_all

lemma decode_fixed_encoded:
  assumes "list_all fixed_canon fs" and "sorted_wrt fixed_less (acc @ fs)"
  shows "decode_fixed acc (map (\<lambda>f. projr (encodeUID (fe_UID f))) fs)
    (map (\<lambda>f. projr (encodeEndpoint (fe_Endpoint f))) fs) = Inr (acc @ fs)"
  using assms
proof (induction fs arbitrary: acc)
  case (Cons f fs)
  then have ue: "encodeUID (fe_UID f) = Inr (projr (encodeUID (fe_UID f)))"
    "encodeEndpoint (fe_Endpoint f) = Inr (projr (encodeEndpoint (fe_Endpoint f)))"
    using uid_codec.enc_total endpoint_codec.enc_total by (fastforce simp: fixed_canon_def is_ok_iff)+
  have "\<forall>g \<in> set acc. fixed_less g f" using Cons.prems(2) by (simp add: sorted_wrt_append)
  then have "acc = [] \<or> fixed_less (last acc) f" using last_in_set by blast
  then show ?case
    using Cons.prems Cons.IH[of "acc @ [f]"]
    by (simp add: decode_fixed_one[OF _ ue] del: decode_fixed.simps(1))
qed simp

lemmas durable_unfold = decode_durable_fields_def durable_tlvs_def durable_canon_def
  durableOccurrences_def Let_def parseOperationID_def message_of_def

lemma decode_policy_encoded:
  "policy_canon p \<Longrightarrow> parseDynamicLinkPolicy (projr (encodeDynamicLinkPolicy (Some p))) = Inr p"
  using policy_codec.enc_total[of p] policy_codec.dec_enc[of p] by (auto simp: is_ok_iff)

lemma decode_durable_tlvs:
  assumes c: "durable_canon m"
  shows "decodeDurable (m_Type m) (tlv_bytes (durable_tlvs m)) = Inr m"
proof -
  note dec = decodeDurable_tlv_bytes[OF durable_tlvs_short[OF c]]
  from durable_canon_type[OF c] consider "m_Type m = DurablePropose" | "m_Type m = DurableSaved"
    | "m_Type m = DurableDecline" | "m_Type m = DurableCheck" | "m_Type m = DurableStatus" by blast
  then show ?thesis
  proof cases
    case 1
    with c show ?thesis
      unfolding dec
      by (cases m) (auto simp: durable_unfold decode_fixed_encoded[of _ "[]", simplified])
  next
    case 3
    with c show ?thesis
      unfolding dec
      by (cases m) (auto simp: durable_unfold decode_policy_encoded not_less split: option.splits)
  next
    case 5
    with c show ?thesis
      unfolding dec by (cases m) (auto simp: durable_unfold not_less)
  qed (use c in \<open>unfold dec, cases m, auto simp: durable_unfold\<close>)
qed

lemma encodeDurable_canon:
  assumes c: "durable_canon m"
  shows "encodeDurable m = Inr (tlv_bytes (durable_tlvs m))"
proof -
  note d = decode_durable_tlvs[OF c]
  have fx: "encode_fixed (Append [] k v) fs = Inr (Append [] k v @ tlv_bytes (fixed_tlvs fs))"
    if "list_all fixed_canon fs" for k v fs
    using encode_fixed_tlvs[OF that, of "[(k, v)]"] by simp
  have app: "Append b k v = b @ Append [] k v" for b k v by (simp add: Append_def)
  have pol: "\<exists>v. encodeDynamicLinkPolicy (Some p) = Inr v" if "policy_canon p" for p
    using policy_codec.enc_total[OF that] by (simp add: is_ok_iff)
  from durable_canon_type[OF c] consider "m_Type m = DurablePropose" | "m_Type m = DurableSaved"
    | "m_Type m = DurableDecline" | "m_Type m = DurableCheck" | "m_Type m = DurableStatus" by blast
  then show ?thesis
  proof cases
    case 1
    then have "list_all fixed_canon (m_FixedEndpoints m)" "length (m_FixedEndpoints m) \<in> {1, 2}"
      using c by (simp_all add: durable_canon_def)
    with 1 d show ?thesis
      by (auto simp: encodeDurable_def durable_tlvs_def Let_def fx app[of "_ @ _"])
  next
    case 3
    with c d show ?thesis
      by (auto simp: encodeDurable_def durable_tlvs_def durable_canon_def Let_def app[of "Append _ _ _"] app[of "_ @ _"]
          split: option.splits dest!: pol)
  qed (use d in \<open>simp_all add: encodeDurable_def durable_tlvs_def Let_def app[of "Append _ _ _"] app[of "_ @ _"]\<close>)
qed

lemma decode_policy_option:
  "(case ps of [] \<Rightarrow> Inr None | p # _ \<Rightarrow> bind_r (parseDynamicLinkPolicy p) (\<lambda>q. Inr (Some q))) = Inr pol
    \<Longrightarrow> (case pol of None \<Rightarrow> True | Some q \<Rightarrow> policy_canon q)"
  by (auto split: list.splits option.splits dest: policy_codec.dec_canon)

lemma decode_durable_fields_canon:
  assumes kind: "kind \<in> {DurablePropose, DurableSaved, DurableDecline, DurableCheck, DurableStatus}"
    and occ: "\<And>k. length (flds k) \<le> durableOccurrences kind k"
    and dec: "decode_durable_fields kind flds = Inr m"
  shows "durable_canon m \<and> m_Type m = kind"
proof -
  from kind consider "kind = DurablePropose" | "kind = DurableSaved"
    | "kind = DurableDecline" | "kind = DurableCheck" | "kind = DurableStatus" by blast
  then show ?thesis
  proof cases
    case 1
    with dec obtain op fixed fl where op: "op \<noteq> 0"
      and fx: "decode_fixed [] (flds NodeUIDTLV) (flds WGEndpointTLV) = Inr fixed"
      and len: "length (flds NodeUIDTLV) = length (flds WGEndpointTLV)" "flds NodeUIDTLV \<noteq> []"
      and m: "m = (message_of kind)\<lparr>m_OperationID := op, m_FixedEndpoints := fixed, m_Flags := fl\<rparr>"
      by (cases "flds FlagsTLV") (auto simp: decode_durable_fields_def durableOccurrences_def Let_def
          message_of_def split: if_splits sum.splits)
    have "length (flds NodeUIDTLV) \<le> 2" and "length (flds NodeUIDTLV) \<noteq> 0"
      using occ[of NodeUIDTLV] 1 len(2) by (simp_all add: durableOccurrences_def)
    then have "length (flds NodeUIDTLV) \<in> {1, 2}" by (simp, arith)
    with op m show ?thesis
      using decode_fixed_inv[OF fx len(1)] 1 by (auto simp: durable_canon_def Let_def message_of_def)
  next
    case 3
    with dec obtain op r pol where op: "op \<noteq> 0" and r: "r \<le> DeclinePolicy"
      and pol: "(case flds DynamicLinkPolicyTLV of [] \<Rightarrow> Inr None
        | p # _ \<Rightarrow> bind_r (parseDynamicLinkPolicy p) (\<lambda>q. Inr (Some q))) = Inr pol"
      and rp: "r = DeclinePolicy \<longrightarrow> (\<exists>q. pol = Some q \<and> \<not> Accept q)"
      and m: "m = (message_of kind)\<lparr>m_OperationID := op, m_DeclineReason := r, m_Policy := pol\<rparr>"
      by (auto simp: decode_durable_fields_def durableOccurrences_def Let_def message_of_def not_less
          split: if_splits sum.splits list.splits option.splits)
    show ?thesis
      using op r rp m 3 decode_policy_option[OF pol]
      by (auto simp: durable_canon_def Let_def message_of_def split: option.splits)
  qed (use dec in \<open>auto simp: decode_durable_fields_def durable_canon_def durableOccurrences_def
      message_of_def Let_def not_less split: if_splits sum.splits list.splits\<close>)
qed

lemma decodeDurable_canon:
  assumes "IsDurable kind" and "decodeDurable kind body = Inr m"
  shows "durable_canon m \<and> m_Type m = kind"
proof -
  from assms(2) obtain ts where
    "decode_durable_fields kind (\<lambda>k. take (durableOccurrences kind k) (values_of k ts)) = Inr m"
    by (rule decodeDurable_inv)
  moreover have "kind \<in> {DurablePropose, DurableSaved, DurableDecline, DurableCheck, DurableStatus}"
    using assms(1) by (auto simp: IsDurable_def word_le_nat_alt word_unat_eq_iff)
  ultimately show ?thesis by (intro decode_durable_fields_canon) auto
qed

end
