(* ===== verification/Message_Codec.thy ===== *)
theory Message_Codec
  imports Durable_Codec
begin

text \<open>
  Framing and the message codec, \<^verbatim>\<open>internal/vfp/message/message.go\<close>: the common header, the
  decoder with its per-type field rules, the encoder, the UDP binding, and reading frames from
  a byte stream.  The codec is shown to satisfy the interface \<open>wire_codec\<close>: every message the
  decoder yields can be encoded again, and the new frame decodes to the same message.
\<close>

section \<open>Header\<close>

abbreviation Magic :: u32 where "Magic \<equiv> 0x56465000"
abbreviation Version :: byte where "Version \<equiv> 1"
abbreviation HeaderLength :: nat where "HeaderLength \<equiv> 8"
abbreviation MaxFrameLength :: nat where "MaxFrameLength \<equiv> 4096"
abbreviation MaxDatagramLength :: nat where "MaxDatagramLength \<equiv> 1200"

definition frameLength :: "bytes \<Rightarrow> nat result" where
  "frameLength frame =
    (if length frame < HeaderLength then Inl (ErrFrame ''short header'')
     else if (be_word (take 4 frame) :: u32) \<noteq> Magic then Inl (ErrFrame ''invalid magic'')
     else if frame ! 4 \<noteq> Version then Inl (ErrFrame ''unsupported version'')
     else let len = unat (be_word (take 2 (drop 6 frame)) :: u16) in
       if len < HeaderLength \<or> MaxFrameLength < len then Inl (ErrFrame ''declared length'')
       else Inr len)"

text \<open>
  Reading one frame from a stream: the stream is the octets that will arrive before it ends, and
  the result carries what is left of it.
\<close>

definition Read :: "bytes \<Rightarrow> (bytes \<times> bytes) result" where
  "Read r =
    (if length r < HeaderLength then Inl (ErrConnection ''read header'')
     else
       (case frameLength (take HeaderLength r) of
          Inl e \<Rightarrow> Inl (ErrConnection (error_text e))
        | Inr len \<Rightarrow>
          if length (drop HeaderLength r) < len - HeaderLength then Inl (ErrConnection ''read body'')
          else Inr (take HeaderLength r @ take (len - HeaderLength) (drop HeaderLength r),
                    drop (len - HeaderLength) (drop HeaderLength r))))"

section \<open>Decoder\<close>

definition usedBy :: "byte \<Rightarrow> u16 \<Rightarrow> bool" where
  "usedBy messageType tlvType =
    (if messageType = Open \<or> messageType = PolicyQuery then tlvType = NodeUIDTLV
     else if messageType = PolicyUpdate then tlvType = NodeUIDTLV \<or> tlvType = DynamicLinkPolicyTLV
     else if messageType = NodeState then tlvType = LoopbackV6TLV
     else if messageType = LinkPropose then tlvType = LinkPrefixV4TLV \<or> tlvType = LinkPrefixV6TLV
     else if messageType = LinkAccept then False
     else if messageType = LinkPing then tlvType = OperationIDTLV
     else if messageType = LinkPong then tlvType = OperationIDTLV \<or> tlvType = WGEndpointTLV
     else if messageType = DynamicLinkPropose \<or> messageType = DynamicLinkAccept then
       tlvType = OperationIDTLV \<or> tlvType = WGPublicKeyTLV \<or> tlvType = WGEndpointTLV \<or> tlvType = ProbeKeyTLV
     else if messageType = DiscoveryControl then tlvType = OperationIDTLV \<or> tlvType = DiscoveryDataTLV
     else if messageType = PublicProbe then tlvType = SealedProbeTLV
     else if messageType = DynamicLinkDecline then
       tlvType = OperationIDTLV \<or> tlvType = DeclineReasonTLV \<or> tlvType = DynamicLinkPolicyTLV
     else False)"

text \<open>One turn of the selection loop: the first occurrence of a used TLV is kept.\<close>

definition select_view :: "byte \<Rightarrow> view \<Rightarrow> (u16 \<rightharpoonup> bytes) \<Rightarrow> (u16 \<rightharpoonup> bytes)" where
  "select_view t v selected =
    (if \<not> usedBy t (v_Type v) then selected
     else (case selected (v_Type v) of
             None \<Rightarrow> selected(v_Type v \<mapsto> v_Value v)
           | Some _ \<Rightarrow> selected))"

text \<open>Indexing a Go map with a missing key yields the nil slice, which has length 0.\<close>

definition value_at :: "(u16 \<rightharpoonup> bytes) \<Rightarrow> u16 \<Rightarrow> bytes" where
  "value_at selected k = (case selected k of None \<Rightarrow> [] | Some v \<Rightarrow> v)"

definition decode_fields :: "byte \<Rightarrow> (u16 \<rightharpoonup> bytes) \<Rightarrow> Message result" where
  "decode_fields t selected =
    (let m = message_of t in
     if t = Open \<or> t = PolicyQuery \<or> t = PolicyUpdate then
       (case selected NodeUIDTLV of
          None \<Rightarrow> Inl (ErrFrame ''message requires NODE_UID'')
        | Some value \<Rightarrow>
          bind_r (wrap_frame (parseUID value)) (\<lambda>uid.
            let m = m\<lparr>m_UID := Some (if IsPolicy t then uid\<lparr>Name := []\<rparr> else uid)\<rparr> in
            if t = PolicyUpdate then
              bind_r (parseDynamicLinkPolicy (value_at selected DynamicLinkPolicyTLV)) (\<lambda>p.
                Inr (m\<lparr>m_Policy := Some p\<rparr>))
            else Inr m))
     else if t = NodeState then
       bind_r (wrap_frame (parseAddress (selected LoopbackV6TLV) False)) (\<lambda>a.
         if \<not> IsValid a then Inl (ErrFrame ''NODE_STATE requires LOOPBACK_V6'')
         else Inr (m\<lparr>m_LoopbackV6 := a\<rparr>))
     else if t = LinkPropose then
       bind_r (wrap_frame (parsePrefix (selected LinkPrefixV4TLV) True)) (\<lambda>p4.
         bind_r (wrap_frame (parsePrefix (selected LinkPrefixV6TLV) False)) (\<lambda>p6.
           Inr (m\<lparr>m_LinkPrefixV4 := p4, m_LinkPrefixV6 := p6\<rparr>)))
     else if t = LinkAccept \<or> t = DiscoveryHello \<or> t = DiscoveryHelloAck then Inr m
     else if t = LinkPing \<or> t = LinkPong then
       (case parseOperationID (value_at selected OperationIDTLV) of
          Inl _ \<Rightarrow> Inl (ErrFrame [])
        | Inr op \<Rightarrow>
          if allZero (be_bytes 16 op) then Inl (ErrFrame [])
          else
            (case (if t = LinkPong then selected WGEndpointTLV else None) of
               None \<Rightarrow> Inr (m\<lparr>m_OperationID := op\<rparr>)
             | Some value \<Rightarrow>
               (case parseEndpoint value of
                  Inl _ \<Rightarrow> Inl (ErrFrame [])
                | Inr ep \<Rightarrow>
                  if \<not> AP_IsValid ep then Inl (ErrFrame [])
                  else Inr (m\<lparr>m_OperationID := op, m_Endpoint := ep\<rparr>))))
     else if t = DynamicLinkPropose \<or> t = DynamicLinkAccept then
       (let key = value_at selected ProbeKeyTLV in
        if length key \<noteq> 32 then Inl (ErrFrame [])
        else bind_r (wrap_frame (parseOperationID (value_at selected OperationIDTLV))) (\<lambda>op.
          bind_r (wrap_frame (parsePublicKey (value_at selected WGPublicKeyTLV))) (\<lambda>wg.
            (case parseEndpoint (value_at selected WGEndpointTLV) of
               Inl _ \<Rightarrow> Inl (ErrFrame ''dynamic Link message requires a valid WG_ENDPOINT'')
             | Inr ep \<Rightarrow>
               if \<not> AP_IsValid ep
               then Inl (ErrFrame ''dynamic Link message requires a valid WG_ENDPOINT'')
               else Inr (m\<lparr>m_ProbeKey := be_word key, m_OperationID := op,
                           m_WGPublicKey := wg, m_Endpoint := ep\<rparr>)))))
     else if t = DiscoveryControl then
       (case parseOperationID (value_at selected OperationIDTLV) of
          Inl _ \<Rightarrow> Inl (ErrFrame [])
        | Inr op \<Rightarrow>
          let data = value_at selected DiscoveryDataTLV in
          bind_r (DecodeControl data) (\<lambda>_. Inr (m\<lparr>m_OperationID := op, m_Data := data\<rparr>)))
     else if t = PublicProbe then
       (let data = value_at selected SealedProbeTLV in
        if length data \<noteq> 50 \<and> length data \<noteq> 62 then Inl (ErrFrame [])
        else Inr (m\<lparr>m_Data := data\<rparr>))
     else if t = DynamicLinkDecline then
       (case value_at selected DeclineReasonTLV of
          [reason] \<Rightarrow>
            if DeclinePolicy < reason then Inl (ErrFrame [])
            else bind_r
              (case selected DynamicLinkPolicyTLV of
                 None \<Rightarrow> Inr None
               | Some value \<Rightarrow> bind_r (parseDynamicLinkPolicy value) (\<lambda>p. Inr (Some p)))
              (\<lambda>policy.
                if reason = DeclinePolicy
                  \<and> (case policy of None \<Rightarrow> True | Some p \<Rightarrow> Accept p)
                then Inl (ErrFrame [])
                else bind_r (wrap_frame (parseOperationID (value_at selected OperationIDTLV))) (\<lambda>op.
                  Inr (m\<lparr>m_DeclineReason := reason, m_Policy := policy, m_OperationID := op\<rparr>)))
        | _ \<Rightarrow> Inl (ErrFrame []))
     else Inr m)"

definition Decode :: "bytes \<Rightarrow> Message result" where
  "Decode frame =
    (case frameLength frame of
       Inl _ \<Rightarrow> Inl (ErrFrame [])
     | Inr len \<Rightarrow>
       if len \<noteq> length frame then Inl (ErrFrame [])
       else
         let t = frame ! 5 in
         if t < Open \<or> DurableStatus < t \<or> t = 0x05 then Inl (ErrFrame ''unknown message type'')
         else if IsDurable t then decodeDurable t (drop HeaderLength frame)
         else
           bind_r (wrap_frame (each_view (select_view t) (NewCursor (drop HeaderLength frame)) Map.empty))
             (decode_fields t))"

section \<open>Encoder\<close>

definition encode_body :: "Message \<Rightarrow> bytes result" where
  "encode_body m =
    (let t = m_Type m in
     if t = DurablePropose \<or> t = DurableSaved \<or> t = DurableDecline \<or> t = DurableCheck \<or> t = DurableStatus
     then encodeDurable m
     else if t = Open \<or> t = PolicyQuery \<or> t = PolicyUpdate then
       (case m_UID m of
          None \<Rightarrow> Inl (ErrNew ''message requires NODE_UID'')
        | Some u \<Rightarrow>
          let uid = (if IsPolicy t then u\<lparr>Name := []\<rparr> else u) in
          bind_r (encodeUID uid) (\<lambda>value.
            let body = Append [] NodeUIDTLV value in
            if t = PolicyUpdate then
              bind_r (encodeDynamicLinkPolicy (m_Policy m)) (\<lambda>value.
                Inr (Append body DynamicLinkPolicyTLV value))
            else Inr body))
     else if t = NodeState then
       (if IsValid (m_LoopbackV6 m) then
          (if \<not> Is6 (m_LoopbackV6 m) then Inl (ErrNew ''invalid IPv6 loopback'')
           else Inr (Append [] LoopbackV6TLV (As16 (m_LoopbackV6 m))))
        else Inl (ErrNew ''NODE_STATE requires an IPv6 loopback''))
     else if t = LinkPropose then
       bind_r
         (if PF_IsValid (m_LinkPrefixV4 m) then
            (if pf_Bits (m_LinkPrefixV4 m) \<noteq> 30 \<or> m_LinkPrefixV4 m \<noteq> Masked (m_LinkPrefixV4 m)
             then Inl (ErrNew ''invalid IPv4 link prefix'')
             else bind_r (As4 (pf_Addr (m_LinkPrefixV4 m))) (\<lambda>value.
               Inr (Append [] LinkPrefixV4TLV value)))
          else Inr [])
         (\<lambda>body.
           if PF_IsValid (m_LinkPrefixV6 m) then
             (if pf_Bits (m_LinkPrefixV6 m) \<noteq> 126 \<or> m_LinkPrefixV6 m \<noteq> Masked (m_LinkPrefixV6 m)
              then Inl (ErrNew ''invalid IPv6 link prefix'')
              else Inr (Append body LinkPrefixV6TLV (As16 (pf_Addr (m_LinkPrefixV6 m)))))
           else Inr body)
     else if t = LinkAccept \<or> t = DiscoveryHello \<or> t = DiscoveryHelloAck then Inr []
     else if t = LinkPing \<or> t = LinkPong then
       (if allZero (be_bytes 16 (m_OperationID m))
        then Inl (ErrNew ''Link probe requires nonzero challenge'')
        else
          let body = Append [] OperationIDTLV (be_bytes 16 (m_OperationID m)) in
          if t = LinkPong \<and> AP_IsValid (m_Endpoint m) then
            bind_r (encodeEndpoint (m_Endpoint m)) (\<lambda>value. Inr (Append body WGEndpointTLV value))
          else Inr body)
     else if t = DynamicLinkPropose \<or> t = DynamicLinkAccept then
       (let body = Append [] OperationIDTLV (be_bytes 16 (m_OperationID m)) in
        if allZero (be_bytes 32 (m_WGPublicKey m))
        then Inl (ErrNew ''dynamic Link message requires a non-zero WireGuard public key'')
        else
          let body = Append body WGPublicKeyTLV (be_bytes 32 (m_WGPublicKey m)) in
          bind_r (encodeEndpoint (m_Endpoint m)) (\<lambda>value.
            Inr (Append (Append body WGEndpointTLV value) ProbeKeyTLV (be_bytes 32 (m_ProbeKey m)))))
     else if t = DiscoveryControl then
       bind_r (DecodeControl (m_Data m)) (\<lambda>_.
         Inr (Append (Append [] OperationIDTLV (be_bytes 16 (m_OperationID m))) DiscoveryDataTLV (m_Data m)))
     else if t = PublicProbe then
       (if length (m_Data m) \<noteq> 50 \<and> length (m_Data m) \<noteq> 62 then Inl (ErrFrame [])
        else Inr (Append [] SealedProbeTLV (m_Data m)))
     else if t = DynamicLinkDecline then
       (if DeclinePolicy < m_DeclineReason m
          \<or> (m_DeclineReason m = DeclinePolicy
              \<and> (case m_Policy m of None \<Rightarrow> True | Some p \<Rightarrow> Accept p))
        then Inl (ErrFrame [])
        else
          let body = Append (Append [] OperationIDTLV (be_bytes 16 (m_OperationID m)))
                       DeclineReasonTLV [m_DeclineReason m] in
          case m_Policy m of
            None \<Rightarrow> Inr body
          | Some p \<Rightarrow>
            bind_r (encodeDynamicLinkPolicy (Some p)) (\<lambda>value.
              Inr (Append body DynamicLinkPolicyTLV value)))
     else Inl (ErrNew ''unknown message type''))"

definition frame_header :: "byte \<Rightarrow> nat \<Rightarrow> bytes" where
  "frame_header t len =
    be_bytes 4 Magic @ [Version, t] @ be_bytes 2 (word_of_nat len :: u16)"

definition Encode :: "Message \<Rightarrow> bytes result" where
  "Encode m =
    bind_r (encode_body m) (\<lambda>body.
      let len = HeaderLength + length body in
      if MaxFrameLength < len then Inl (ErrNew ''frame too large'')
      else Inr (frame_header (m_Type m) len @ body))"

section \<open>The UDP binding\<close>

definition udp_type :: "byte \<Rightarrow> bool" where
  "udp_type t = (IsDiscovery t \<or> IsLinkProbe t \<or> IsPolicy t \<or> t = PublicProbe)"

definition DecodeDatagram :: "bytes \<Rightarrow> Message result" where
  "DecodeDatagram packet =
    (if MaxDatagramLength < length packet then Inl (ErrFrame ''datagram too large'')
     else bind_r (Decode packet) (\<lambda>m.
       if \<not> udp_type (m_Type m) then Inl (ErrFrame ''message is not valid over UDP'')
       else Inr m))"

definition EncodeDatagram :: "Message \<Rightarrow> bytes result" where
  "EncodeDatagram m =
    (if \<not> udp_type (m_Type m) then Inl (ErrFrame ''message is not valid over UDP'')
     else bind_r (Encode m) (\<lambda>frame.
       if MaxDatagramLength < length frame then Inl (ErrFrame []) else Inr frame))"


section \<open>Frames and selected fields\<close>

lemma length_frame_header [simp]: "length (frame_header t len) = 8"
  by (simp add: frame_header_def)

lemma frameLength_header:
  assumes "8 \<le> len" "len \<le> 4096"
  shows "frameLength (frame_header t len @ body) = Inr len"
proof -
  have magic: "be_word (be_bytes 4 Magic) = Magic" by (simp only: be_word_be_bytes_width)
  have "take 4 (frame_header t len @ body) = be_bytes 4 Magic"
    "take 2 (drop 6 (frame_header t len @ body)) = be_bytes 2 (word_of_nat len :: u16)"
    "(frame_header t len @ body) ! 4 = Version"
    by (simp_all add: frame_header_def nth_append)
  then show ?thesis
    using assms magic by (simp add: frameLength_def unat_len16)
qed

lemma frame_header_type: "(frame_header t len @ body) ! 5 = t"
  by (simp add: frame_header_def nth_append)

definition known_type :: "byte \<Rightarrow> bool" where
  "known_type t = (\<not> (t < Open \<or> DurableStatus < t \<or> t = 0x05))"

lemma Decode_header:
  assumes "length body \<le> 4088" "known_type t"
  shows "Decode (frame_header t (8 + length body) @ body) =
    (if IsDurable t then decodeDurable t body
     else bind_r (wrap_frame (each_view (select_view t) (NewCursor body) Map.empty)) (decode_fields t))"
  using assms
  by (simp add: Decode_def frameLength_header frame_header_type known_type_def Let_def)

lemma frame_split:
  assumes "frameLength frame = Inr len" "len = length frame"
  shows "frame = frame_header (frame ! 5) (8 + length (drop 8 frame)) @ drop 8 frame"
    and "length (drop 8 frame) \<le> 4088"
proof -
  from assms have len: "8 \<le> length frame" "length frame \<le> 4096"
    and magic: "be_word (take 4 frame) = Magic" and ver: "frame ! 4 = Version"
    and l16: "unat (be_word (take 2 (drop 6 frame)) :: u16) = length frame"
    by (auto simp: frameLength_def Let_def split: if_splits)
  have "be_bytes 4 Magic = take 4 frame"
    using be_bytes_be_word[of "take 4 frame" 4, where 'a = 32] magic len by simp
  moreover have "(word_of_nat (length frame) :: u16) = be_word (take 2 (drop 6 frame))"
    using arg_cong[OF l16, of "word_of_nat :: nat \<Rightarrow> u16"] by simp
  then have "be_bytes 2 (word_of_nat (length frame) :: u16) = take 2 (drop 6 frame)"
    using len by (simp add: be_bytes_be_word)
  moreover have "frame = take 4 frame @ [frame ! 4, frame ! 5] @ take 2 (drop 6 frame) @ drop 8 frame"
  proof -
    have "take 4 frame @ drop 4 frame = frame" by simp
    moreover have "[frame ! 4, frame ! 5] @ drop 6 frame = drop 4 frame"
      using len Cons_nth_drop_Suc[of 4 frame] Cons_nth_drop_Suc[of 5 frame] by simp
    moreover have "take 2 (drop 6 frame) @ drop 8 frame = drop 6 frame"
      using append_take_drop_id[of 2 "drop 6 frame"] by (simp del: append_take_drop_id)
    ultimately show ?thesis by (metis append_assoc)
  qed
  ultimately show "frame = frame_header (frame ! 5) (8 + length (drop 8 frame)) @ drop 8 frame"
    using ver len by (simp add: frame_header_def)
  show "length (drop 8 frame) \<le> 4088" using len by simp
qed

lemma fold_select_view:
  "fold (select_view t) (views_from off ts) sel
    = (\<lambda>k. case sel k of Some v \<Rightarrow> Some v | None \<Rightarrow> if usedBy t k then map_of ts k else None)"
proof (induction ts arbitrary: off sel)
  case (Cons tv ts)
  obtain k v where tv: "tv = (k, v)" by (cases tv)
  show ?case
    unfolding tv by (rule ext) (simp add: Cons.IH, auto simp: select_view_def split: option.splits)
qed (auto split: option.splits)

lemma Decode_tlvs:
  assumes "short_values ts" "length (tlv_bytes ts) \<le> 4088" "known_type t" "\<not> IsDurable t"
  shows "Decode (frame_header t (8 + length (tlv_bytes ts)) @ tlv_bytes ts)
    = decode_fields t (\<lambda>k. if usedBy t k then map_of ts k else None)"
  using assms by (simp add: Decode_header drain_appended fold_select_view)

lemma Decode_inv:
  assumes "Decode frame = Inr m" "\<not> IsDurable (frame ! 5)"
  obtains ts where "decode_fields (frame ! 5) (\<lambda>k. if usedBy (frame ! 5) k then map_of ts k else None) = Inr m"
proof -
  let ?t = "frame ! 5" and ?body = "drop 8 frame"
  from assms obtain sel where sel: "each_view (select_view ?t) (NewCursor ?body) Map.empty = Inr sel"
    and dec: "decode_fields ?t sel = Inr m"
    by (auto simp: Decode_def Let_def split: sum.splits if_splits)
  from sel obtain ts where ts: "short_values ts" "?body = tlv_bytes ts"
    using each_view_accepts[of "select_view ?t" ?body Map.empty] by auto
  with sel have "sel = (\<lambda>k. if usedBy ?t k then map_of ts k else None)"
    by (simp add: drain_appended fold_select_view)
  with dec that show ?thesis by blast
qed

lemma Decode_known: "Decode frame = Inr m \<Longrightarrow> known_type (frame ! 5)"
  by (auto simp: Decode_def known_type_def Let_def split: sum.splits if_splits)

section \<open>Canonical messages\<close>

text \<open>
  The messages the decoder can yield: the fields its type uses satisfy the field rules, every
  other field has its zero value.
\<close>

definition prefix_canon :: "bool \<Rightarrow> prefix \<Rightarrow> bool" where
  "prefix_canon ipv4 p =
    (p = NoPrefix \<or>
      (if ipv4 then Is4 (pf_Addr p) \<and> pf_Bits p = 30
       else Is6 (pf_Addr p) \<and> \<not> hasZone (pf_Addr p) \<and> pf_Bits p = 126)
      \<and> validAddress (pf_Addr p) \<and> p = Masked p)"

definition decline_canon :: "byte \<Rightarrow> DynamicLinkPolicy option \<Rightarrow> bool" where
  "decline_canon reason policy =
    (reason \<le> DeclinePolicy \<and>
      (case policy of None \<Rightarrow> reason \<noteq> DeclinePolicy
       | Some p \<Rightarrow> policy_canon p \<and> (reason = DeclinePolicy \<longrightarrow> \<not> Accept p)))"

definition message_canon :: "Message \<Rightarrow> bool" where
  "message_canon m =
    (let t = m_Type m; base = message_of t in
     if IsDurable t then durable_canon m
     else if t = Open \<or> t = PolicyQuery then
       m = base\<lparr>m_UID := m_UID m\<rparr>
       \<and> (case m_UID m of None \<Rightarrow> False | Some u \<Rightarrow> uid_canon u \<and> (t = PolicyQuery \<longrightarrow> Name u = []))
     else if t = PolicyUpdate then
       m = base\<lparr>m_UID := m_UID m, m_Policy := m_Policy m\<rparr>
       \<and> (case m_UID m of None \<Rightarrow> False | Some u \<Rightarrow> uid_canon u \<and> Name u = [])
       \<and> (case m_Policy m of None \<Rightarrow> False | Some p \<Rightarrow> policy_canon p)
     else if t = NodeState then
       m = base\<lparr>m_LoopbackV6 := m_LoopbackV6 m\<rparr>
       \<and> Is6 (m_LoopbackV6 m) \<and> \<not> hasZone (m_LoopbackV6 m) \<and> validAddress (m_LoopbackV6 m)
     else if t = LinkPropose then
       m = base\<lparr>m_LinkPrefixV4 := m_LinkPrefixV4 m, m_LinkPrefixV6 := m_LinkPrefixV6 m\<rparr>
       \<and> prefix_canon True (m_LinkPrefixV4 m) \<and> prefix_canon False (m_LinkPrefixV6 m)
     else if t = LinkAccept \<or> t = DiscoveryHello \<or> t = DiscoveryHelloAck then m = base
     else if t = LinkPing then
       m = base\<lparr>m_OperationID := m_OperationID m\<rparr> \<and> m_OperationID m \<noteq> 0
     else if t = LinkPong then
       m = base\<lparr>m_OperationID := m_OperationID m, m_Endpoint := m_Endpoint m\<rparr>
       \<and> m_OperationID m \<noteq> 0 \<and> (m_Endpoint m = NoAddrPort \<or> endpoint_canon (m_Endpoint m))
     else if t = DynamicLinkPropose \<or> t = DynamicLinkAccept then
       m = base\<lparr>m_ProbeKey := m_ProbeKey m, m_OperationID := m_OperationID m,
                m_WGPublicKey := m_WGPublicKey m, m_Endpoint := m_Endpoint m\<rparr>
       \<and> m_WGPublicKey m \<noteq> 0 \<and> endpoint_canon (m_Endpoint m)
     else if t = DiscoveryControl then
       m = base\<lparr>m_OperationID := m_OperationID m, m_Data := m_Data m\<rparr> \<and> is_ok (DecodeControl (m_Data m))
     else if t = PublicProbe then
       m = base\<lparr>m_Data := m_Data m\<rparr> \<and> length (m_Data m) \<in> {50, 62}
     else if t = DynamicLinkDecline then
       m = base\<lparr>m_DeclineReason := m_DeclineReason m, m_Policy := m_Policy m,
                m_OperationID := m_OperationID m\<rparr>
       \<and> decline_canon (m_DeclineReason m) (m_Policy m)
     else False)"

definition message_tlvs :: "Message \<Rightarrow> (u16 \<times> bytes) list" where
  "message_tlvs m =
    (let t = m_Type m;
         uid = (NodeUIDTLV, projr (encodeUID (the (m_UID m))));
         policy = (DynamicLinkPolicyTLV, projr (encodeDynamicLinkPolicy (m_Policy m)));
         op = (OperationIDTLV, be_bytes 16 (m_OperationID m));
         endpoint = (WGEndpointTLV, projr (encodeEndpoint (m_Endpoint m))) in
     if IsDurable t then durable_tlvs m
     else if t = Open \<or> t = PolicyQuery then [uid]
     else if t = PolicyUpdate then [uid, policy]
     else if t = NodeState then [(LoopbackV6TLV, As16 (m_LoopbackV6 m))]
     else if t = LinkPropose then
       (if PF_IsValid (m_LinkPrefixV4 m)
        then [(LinkPrefixV4TLV, projr (As4 (pf_Addr (m_LinkPrefixV4 m))))] else [])
       @ (if PF_IsValid (m_LinkPrefixV6 m)
          then [(LinkPrefixV6TLV, As16 (pf_Addr (m_LinkPrefixV6 m)))] else [])
     else if t = LinkAccept \<or> t = DiscoveryHello \<or> t = DiscoveryHelloAck then []
     else if t = LinkPing then [op]
     else if t = LinkPong then op # (if AP_IsValid (m_Endpoint m) then [endpoint] else [])
     else if t = DynamicLinkPropose \<or> t = DynamicLinkAccept then
       [op, (WGPublicKeyTLV, be_bytes 32 (m_WGPublicKey m)), endpoint,
        (ProbeKeyTLV, be_bytes 32 (m_ProbeKey m))]
     else if t = DiscoveryControl then [op, (DiscoveryDataTLV, m_Data m)]
     else if t = PublicProbe then [(SealedProbeTLV, m_Data m)]
     else if t = DynamicLinkDecline then
       [op, (DeclineReasonTLV, [m_DeclineReason m])] @ (if m_Policy m = None then [] else [policy])
     else [])"

abbreviation undurable_types :: "byte set" where
  "undurable_types \<equiv> {Open, PolicyQuery, PolicyUpdate, NodeState, LinkPropose, LinkAccept,
     DiscoveryHello, DiscoveryHelloAck, LinkPing, LinkPong, DynamicLinkPropose, DynamicLinkAccept,
     DiscoveryControl, PublicProbe, DynamicLinkDecline}"

lemma undurable_known:
  "t \<in> undurable_types \<Longrightarrow> known_type t" "t \<in> undurable_types \<Longrightarrow> \<not> IsDurable t"
  by (auto simp: known_type_def IsDurable_def word_le_nat_alt word_less_nat_alt)

lemma known_type_cases:
  assumes "known_type t"
  shows "IsDurable t \<or> t \<in> undurable_types"
proof -
  have "unat t < 256" using unsigned_less[of t, where ?'a = nat] by simp
  with assms show ?thesis
    by (simp add: known_type_def IsDurable_def word_le_nat_alt word_less_nat_alt word_unat_eq_iff) arith
qed

lemma message_canon_known: "message_canon m \<Longrightarrow> known_type (m_Type m)"
  by (auto simp: message_canon_def Let_def known_type_def IsDurable_def split: if_splits)

section \<open>Field facts\<close>

lemma endpoint_canon_valid: "endpoint_canon ep \<Longrightarrow> AP_IsValid ep"
  by (auto simp: endpoint_canon_def validEndpointAddress_def AP_IsValid_def)

lemma encodeEndpoint_projr:
  "endpoint_canon ep \<Longrightarrow> \<exists>b. encodeEndpoint ep = Inr b \<and> parseEndpoint b = Inr ep \<and> length b \<le> 20"
  using endpoint_codec.enc_total[of ep] endpoint_codec.dec_enc[of ep] encodeEndpoint_length[of ep]
  by (fastforce simp: is_ok_iff)

lemma encodePolicy_projr:
  "policy_canon p \<Longrightarrow> \<exists>b. encodeDynamicLinkPolicy (Some p) = Inr b \<and> parseDynamicLinkPolicy b = Inr p \<and> length b = 9"
  using policy_codec.enc_total[of p] policy_codec.dec_enc[of p] canon_field_lengths(3)[of p]
  by (auto simp: is_ok_iff)

lemma encodeUID_exists:
  "uid_canon u \<Longrightarrow> \<exists>b. encodeUID u = Inr b \<and> parseUID b = Inr u \<and> length b \<le> 21"
  using uid_codec.enc_total[of u] uid_codec.dec_enc[of u] canon_field_lengths(1)[of u]
  by (auto simp: is_ok_iff)

lemma parsePrefix_None [simp]: "parsePrefix None ipv4 = Inr NoPrefix"
  by (simp add: parsePrefix_def parseAddress_def)

lemma parsePrefix_4:
  "prefix_canon True p \<Longrightarrow> PF_IsValid p \<Longrightarrow>
    \<exists>b. As4 (pf_Addr p) = Inr b \<and> length b = 4 \<and> parsePrefix (Some b) True = Inr p"
  by (cases p; cases "pf_Addr p")
    (auto simp: prefix_canon_def parsePrefix_def parseAddress_def AddrFrom4_def Let_def PrefixFrom_def PF_IsValid_def)

lemma parsePrefix_6:
  "prefix_canon False p \<Longrightarrow> PF_IsValid p \<Longrightarrow> parsePrefix (Some (As16 (pf_Addr p))) False = Inr p"
  by (cases p; cases "pf_Addr p")
    (auto simp: prefix_canon_def parsePrefix_def parseAddress_def AddrFrom16_def Let_def PrefixFrom_def PF_IsValid_def)

lemma parsePrefix_canon: "parsePrefix v ipv4 = Inr p \<Longrightarrow> prefix_canon ipv4 p"
  by (auto simp: parsePrefix_def parseAddress_def prefix_canon_def Let_def PrefixFrom_def
      AddrFrom4_def AddrFrom16_def split: option.splits if_splits)

lemma prefix_canon_invalid: "prefix_canon ipv4 p \<Longrightarrow> \<not> PF_IsValid p \<Longrightarrow> p = NoPrefix"
  by (auto simp: prefix_canon_def PF_IsValid_def split: if_splits)

section \<open>Round trip\<close>

definition body_ok :: "Message \<Rightarrow> bool" where
  "body_ok m =
    (encode_body m = Inr (tlv_bytes (message_tlvs m)) \<and> short_values (message_tlvs m)
      \<and> length (tlv_bytes (message_tlvs m)) \<le> 4088
      \<and> (\<not> IsDurable (m_Type m) \<longrightarrow>
          decode_fields (m_Type m)
            (\<lambda>k. if usedBy (m_Type m) k then map_of (message_tlvs m) k else None) = Inr m))"

lemma Append_as_append:
  "Append (Append b k v) k' v' = Append b k v @ Append [] k' v'"
  "Append (b @ c) k v = b @ c @ Append [] k v"
  by (simp_all add: Append_def)

lemmas message_unfold = message_canon_def message_tlvs_def encode_body_def decode_fields_def usedBy_def
  value_at_def type_class_defs message_of_def Let_def body_ok_def parseOperationID_def parsePublicKey_def
  Append_as_append word_le_nat_alt word_less_nat_alt

lemma body_ok_identity:
  assumes "message_canon m" "m_Type m \<in> {Open, PolicyQuery, PolicyUpdate}"
  shows "body_ok m"
proof -
  from assms obtain u where u: "m_UID m = Some u" "uid_canon u"
    by (auto simp: message_canon_def Let_def IsDurable_def word_le_nat_alt split: option.splits)
  from encodeUID_exists[OF u(2)] obtain b where
    b: "encodeUID u = Inr b" "parseUID b = Inr u" "length b \<le> 21" by blast
  show ?thesis
  proof (cases "m_Type m = PolicyUpdate")
    case True
    with assms obtain p where p: "m_Policy m = Some p" "policy_canon p"
      by (auto simp: message_canon_def Let_def IsDurable_def word_le_nat_alt split: option.splits)
    from encodePolicy_projr[OF p(2)] obtain c where
      c: "encodeDynamicLinkPolicy (Some p) = Inr c" "parseDynamicLinkPolicy c = Inr p" "length c = 9" by blast
    from True assms(1) u p b c show ?thesis
      by (cases m; cases u) (simp add: message_unfold)
  next
    case False
    with assms u b show ?thesis by (cases m; cases u) (auto simp: message_unfold)
  qed
qed

lemma body_ok_endpoint:
  assumes "message_canon m" "m_Type m \<in> {LinkPong, DynamicLinkPropose, DynamicLinkAccept}"
  shows "body_ok m"
proof (cases "m_Endpoint m = NoAddrPort")
  case True
  with assms show ?thesis
    by (cases m) (auto simp: message_unfold endpoint_canon_def validEndpointAddress_def)
next
  case False
  with assms have c: "endpoint_canon (m_Endpoint m)"
    by (auto simp: message_canon_def Let_def IsDurable_def word_le_nat_alt)
  from encodeEndpoint_projr[OF c] obtain b where
    b: "encodeEndpoint (m_Endpoint m) = Inr b" "parseEndpoint b = Inr (m_Endpoint m)" "length b \<le> 20"
    by blast
  note facts = assms(1) b endpoint_canon_valid[OF c]
  from assms(2) consider "m_Type m = LinkPong" | "m_Type m = DynamicLinkPropose" | "m_Type m = DynamicLinkAccept"
    by blast
  then show ?thesis
    by cases (use facts in \<open>cases m; simp add: message_unfold\<close>)+
qed

lemma body_ok_propose:
  assumes "message_canon m" "m_Type m = LinkPropose"
  shows "body_ok m"
proof -
  from assms have c: "prefix_canon True (m_LinkPrefixV4 m)" "prefix_canon False (m_LinkPrefixV6 m)"
    by (simp_all add: message_canon_def Let_def IsDurable_def word_le_nat_alt)
  have bits: "PF_IsValid (m_LinkPrefixV4 m) \<Longrightarrow> pf_Bits (m_LinkPrefixV4 m) = 30 \<and> m_LinkPrefixV4 m = Masked (m_LinkPrefixV4 m)"
    "PF_IsValid (m_LinkPrefixV6 m) \<Longrightarrow> pf_Bits (m_LinkPrefixV6 m) = 126 \<and> m_LinkPrefixV6 m = Masked (m_LinkPrefixV6 m)"
    using c by (auto simp: prefix_canon_def)
  show ?thesis
    using assms bits parsePrefix_4[OF c(1)] parsePrefix_6[OF c(2)]
      prefix_canon_invalid[OF c(1)] prefix_canon_invalid[OF c(2)]
    by (cases m; cases "PF_IsValid (m_LinkPrefixV4 m)"; cases "PF_IsValid (m_LinkPrefixV6 m)")
      (auto simp: message_unfold)
qed

lemma body_ok_decline:
  assumes "message_canon m" "m_Type m = DynamicLinkDecline"
  shows "body_ok m"
proof (cases "m_Policy m")
  case None
  with assms show ?thesis by (cases m) (auto simp: message_unfold decline_canon_def)
next
  case (Some p)
  with assms have "policy_canon p"
    by (simp add: message_canon_def Let_def IsDurable_def word_le_nat_alt decline_canon_def)
  from encodePolicy_projr[OF this] obtain c where
    c: "encodeDynamicLinkPolicy (Some p) = Inr c" "parseDynamicLinkPolicy c = Inr p" "length c = 9" by blast
  with assms Some show ?thesis
    by (cases m) (auto simp: message_unfold decline_canon_def)
qed

lemma body_ok_control:
  assumes "message_canon m" "m_Type m = DiscoveryControl"
  shows "body_ok m"
proof -
  from assms obtain c where "DecodeControl (m_Data m) = Inr c"
    by (auto simp: message_canon_def Let_def IsDurable_def word_le_nat_alt is_ok_iff)
  with DecodeControl_length[OF this] assms show ?thesis by (cases m) (auto simp: message_unfold)
qed

lemma body_ok_simple:
  assumes "message_canon m"
    "m_Type m \<in> {NodeState, LinkAccept, DiscoveryHello, DiscoveryHelloAck, LinkPing, PublicProbe}"
  shows "body_ok m"
proof (cases "m_Type m = NodeState")
  case True
  with assms(1) show ?thesis
    by (cases m; cases "m_LoopbackV6 m") (auto simp: message_unfold parseAddress_def AddrFrom16_def)
next
  case False
  with assms(2) consider "m_Type m = LinkAccept" | "m_Type m = DiscoveryHello"
    | "m_Type m = DiscoveryHelloAck" | "m_Type m = LinkPing" | "m_Type m = PublicProbe" by blast
  then show ?thesis
    by cases (use assms(1) in \<open>cases m; auto simp: message_unfold\<close>)+
qed

lemma durable_tlvs_bound:
  assumes c: "durable_canon m"
  shows "length (tlv_bytes (durable_tlvs m)) \<le> 4088"
proof -
  have fx: "length (tlv_bytes (fixed_tlvs fs)) \<le> 49 * length fs" if "list_all fixed_canon fs" for fs
    using that by (induction fs) (auto simp: fixed_canon_def dest!: canon_field_lengths)
  show ?thesis
    using c fx[of "m_FixedEndpoints m"] canon_field_lengths(3)
    by (auto simp: durable_canon_def durable_tlvs_def Let_def split: if_splits option.splits)
qed

lemma body_ok_canon:
  assumes c: "message_canon m"
  shows "body_ok m"
proof (cases "IsDurable (m_Type m)")
  case True
  with c have d: "durable_canon m" by (simp add: message_canon_def)
  from durable_canon_type[OF d] True show ?thesis
    by (simp add: body_ok_def encode_body_def message_tlvs_def encodeDurable_canon[OF d]
        durable_tlvs_short[OF d] durable_tlvs_bound[OF d])
next
  case False
  with known_type_cases[OF message_canon_known[OF c]] have "m_Type m \<in> undurable_types" by simp
  then consider "m_Type m \<in> {Open, PolicyQuery, PolicyUpdate}"
    | "m_Type m \<in> {LinkPong, DynamicLinkPropose, DynamicLinkAccept}" | "m_Type m = LinkPropose"
    | "m_Type m = DynamicLinkDecline" | "m_Type m = DiscoveryControl"
    | "m_Type m \<in> {NodeState, LinkAccept, DiscoveryHello, DiscoveryHelloAck, LinkPing, PublicProbe}"
    by auto
  then show ?thesis
    by cases (use c in \<open>simp_all only: body_ok_identity body_ok_endpoint body_ok_propose
        body_ok_decline body_ok_control body_ok_simple\<close>)
qed

lemma parsePublicKey_nonzero: "parsePublicKey v = Inr k \<Longrightarrow> k \<noteq> 0"
  using be_bytes_be_word[of v 32, where 'a = 256] by (auto simp: parsePublicKey_def simp flip: allZero_arrays(2))

lemma uid_canon_anonymous: "uid_canon u \<Longrightarrow> uid_canon (u\<lparr>Name := []\<rparr>)"
  by (simp add: uid_canon_def)

lemma decode_fields_canon_identity:
  assumes "t \<in> {Open, PolicyQuery, PolicyUpdate}" "decode_fields t sel = Inr m"
  shows "message_canon m \<and> m_Type m = t"
proof -
  note defs = decode_fields_def message_canon_def Let_def type_class_defs message_of_def word_le_nat_alt
  from assms(1) consider "t = Open" | "t = PolicyQuery" | "t = PolicyUpdate" by blast
  then show ?thesis
    by cases (use assms(2) in \<open>cases "sel NodeUIDTLV";
        auto simp: defs uid_canon_anonymous dest: uid_codec.dec_canon policy_codec.dec_canon\<close>)+
qed

lemma decode_fields_canon_rest:
  assumes "t \<in> undurable_types" "t \<notin> {Open, PolicyQuery, PolicyUpdate}" "decode_fields t sel = Inr m"
  shows "message_canon m \<and> m_Type m = t"
proof -
  note facts = assms(3) and defs = decode_fields_def message_canon_def Let_def IsDurable_def
    message_of_def word_le_nat_alt word_less_nat_alt
  from assms(1,2) consider "t = NodeState" | "t = LinkPropose"
    | "t = LinkAccept" | "t = DiscoveryHello" | "t = DiscoveryHelloAck" | "t = LinkPing" | "t = LinkPong"
    | "t = DynamicLinkPropose" | "t = DynamicLinkAccept" | "t = DiscoveryControl" | "t = PublicProbe"
    | "t = DynamicLinkDecline" by blast
  then show ?thesis
  proof cases
    case 1
    with facts show ?thesis
      by (auto simp: defs parseAddress_def split: option.splits)
  next
    case 2
    with facts show ?thesis
      by (auto simp: defs dest: parsePrefix_canon)
  next
    case 7
    with facts show ?thesis
      by (auto simp: defs split: sum.splits option.splits dest: endpoint_codec.dec_canon)
  next
    case 8
    with facts show ?thesis
      by (cases "parseEndpoint (value_at sel WGEndpointTLV)")
        (auto simp: defs dest: endpoint_codec.dec_canon parsePublicKey_nonzero)
  next
    case 9
    with facts show ?thesis
      by (cases "parseEndpoint (value_at sel WGEndpointTLV)")
        (auto simp: defs dest: endpoint_codec.dec_canon parsePublicKey_nonzero)
  next
    case 12
    with facts show ?thesis
      by (cases "sel DynamicLinkPolicyTLV")
        (auto simp: defs decline_canon_def not_less split: list.splits dest: policy_codec.dec_canon)
  qed (use facts in \<open>auto simp: defs split: sum.splits\<close>)
qed


lemma Decode_canon:
  assumes d: "Decode frame = Inr m"
  shows "message_canon m \<and> m_Type m = frame ! 5"
proof (cases "IsDurable (frame ! 5)")
  case True
  with d have "decodeDurable (frame ! 5) (drop HeaderLength frame) = Inr m"
    by (auto simp: Decode_def Let_def split: sum.splits if_splits)
  with True decodeDurable_canon show ?thesis by (auto simp: message_canon_def)
next
  case False
  from d False obtain ts where
    fields: "decode_fields (frame ! 5) (\<lambda>k. if usedBy (frame ! 5) k then map_of ts k else None) = Inr m"
    by (rule Decode_inv)
  have types: "frame ! 5 \<in> undurable_types"
    using known_type_cases[OF Decode_known[OF d]] False by simp
  show ?thesis
  proof (cases "frame ! 5 \<in> {Open, PolicyQuery, PolicyUpdate}")
    case True
    then show ?thesis using fields by (rule decode_fields_canon_identity)
  next
    case False
    with types show ?thesis using fields by (rule decode_fields_canon_rest)
  qed
qed

lemma Encode_canon:
  assumes "message_canon m"
  shows "Encode m = Inr (frame_header (m_Type m) (8 + length (tlv_bytes (message_tlvs m))) @ tlv_bytes (message_tlvs m))"
  using body_ok_canon[OF assms] by (simp add: Encode_def body_ok_def)

interpretation message_codec: wire_codec Encode Decode message_canon
proof unfold_locales
  fix m :: Message and b
  assume c: "message_canon m"
  show "is_ok (Encode m)" by (simp add: Encode_canon[OF c])
  assume "Encode m = Inr b"
  then have b: "b = frame_header (m_Type m) (8 + length (tlv_bytes (message_tlvs m))) @ tlv_bytes (message_tlvs m)"
    by (simp add: Encode_canon[OF c])
  from body_ok_canon[OF c] have ok: "short_values (message_tlvs m)"
    "length (tlv_bytes (message_tlvs m)) \<le> 4088" by (simp_all add: body_ok_def)
  show "Decode b = Inr m"
  proof (cases "IsDurable (m_Type m)")
    case True
    then have "durable_canon m" "message_tlvs m = durable_tlvs m"
      using c by (simp_all add: message_canon_def message_tlvs_def)
    with True ok message_canon_known[OF c] show ?thesis
      unfolding b by (simp only: Decode_header decode_durable_tlvs if_True)
  next
    case False
    with body_ok_canon[OF c]
    have "decode_fields (m_Type m) (\<lambda>k. if usedBy (m_Type m) k then map_of (message_tlvs m) k else None) = Inr m"
      by (simp add: body_ok_def)
    with Decode_tlvs[OF ok message_canon_known[OF c] False] show ?thesis
      unfolding b by simp
  qed
qed (use Decode_canon in blast)

section \<open>Streams and datagrams\<close>

lemma Encode_shape:
  assumes "Encode m = Inr f"
  shows "\<exists>body. f = frame_header (m_Type m) (8 + length body) @ body \<and> length body \<le> 4088"
  using assms by (auto simp: Encode_def Let_def)

lemma Read_header:
  assumes "length body \<le> 4088"
  shows "Read (frame_header t (8 + length body) @ body @ rest) = Inr (frame_header t (8 + length body) @ body, rest)"
  using assms frameLength_header[of "8 + length body" t "[]"] by (simp add: Read_def)

lemma Read_Encode: "Encode m = Inr f \<Longrightarrow> Read (f @ rest) = Inr (f, rest)"
  using Encode_shape[of m f] Read_header by fastforce

lemma Read_consumes:
  assumes "Read r = Inr (f, rest)"
  shows "r = f @ rest \<and> 8 \<le> length f \<and> length f \<le> 4096 \<and> frameLength f = Inr (length f)"
proof -
  from assms obtain len where len: "frameLength (take 8 r) = Inr len" "8 \<le> length r"
    "len - 8 \<le> length r - 8"
    and f: "f = take 8 r @ take (len - 8) (drop 8 r)" and rest: "rest = drop (len - 8) (drop 8 r)"
    by (auto simp: Read_def not_less split: if_splits sum.splits)
  from len have b: "8 \<le> len" "len \<le> 4096"
    by (auto simp: frameLength_def Let_def split: if_splits)
  have "take 8 f = take 8 r" using len(2) f by simp
  then have "take 4 f = take 4 r" "take 2 (drop 6 f) = take 2 (drop 6 r)" "f ! 4 = r ! 4"
    using f len(2) by (simp_all add: nth_append drop_take)
  moreover have "take 4 (take 8 r) = take 4 r" "take 2 (drop 6 (take 8 r)) = take 2 (drop 6 r)"
    by (simp_all add: min_def drop_take)
  moreover have lf: "length f = len" using f len b by simp
  ultimately have "frameLength f = Inr len"
    using len b by (simp add: frameLength_def Let_def split: if_splits)
  with lf b show ?thesis
    using f rest append_take_drop_id[of "len - 8" "drop 8 r"] append_take_drop_id[of 8 r]
    by (simp del: append_take_drop_id)
qed

text \<open>The reader half of a session: frames are taken off the stream until it fails.\<close>

function read_frames :: "bytes \<Rightarrow> bytes list \<times> error" where
  "read_frames r =
    (case Read r of
       Inl e \<Rightarrow> ([], e)
     | Inr (f, rest) \<Rightarrow> (case read_frames rest of (fs, e) \<Rightarrow> (f # fs, e)))"
  by pat_completeness auto
termination
proof (relation "measure length", goal_cases)
  case (2 r p f rest)
  then have "Read r = Inr (f, rest)" by simp
  from Read_consumes[OF this] show ?case by auto
qed simp

declare read_frames.simps [simp del]

lemma read_frames_written:
  assumes "list_all2 (\<lambda>m f. Encode m = Inr f) ms fs"
  shows "read_frames (concat fs) = (fs, ErrConnection ''read header'')"
  using assms
proof (induction ms fs rule: list_all2_induct)
  case Nil
  show ?case by (simp add: read_frames.simps[of "[]"] Read_def)
next
  case (Cons m ms f fs)
  then show ?case by (simp add: read_frames.simps[of "f @ concat fs"] Read_Encode)
qed

end
