(* ===== verification/Message_Properties.thy ===== *)
theory Message_Properties
  imports Message_Codec
begin

text \<open>
  The contract of the wire format as its users see it: what a peer writes is what the other peer
  reads, over TCP streams and over UDP datagrams, and nothing else is accepted.
\<close>

section \<open>Shared facts\<close>

lemma Encode_bound: "Encode m = Inr f \<Longrightarrow> 8 \<le> length f \<and> length f \<le> 4096"
  by (auto simp: Encode_def Let_def)

lemma udp_body_bound:
  assumes c: "message_canon m" and u: "udp_type (m_Type m)"
  shows "length (tlv_bytes (message_tlvs m)) \<le> 1192"
proof -
  have endp: "length (projr (encodeEndpoint (m_Endpoint m))) \<le> 20" if "endpoint_canon (m_Endpoint m)"
    using canon_field_lengths(2)[OF that] .
  have uid: "length (projr (encodeUID (the (m_UID m)))) \<le> 21" if "m_UID m = Some v" "uid_canon v" for v
    using canon_field_lengths(1)[OF that(2)] that(1) by simp
  have pol: "length (projr (encodeDynamicLinkPolicy (m_Policy m))) = 9" if "m_Policy m = Some p" "policy_canon p" for p
    using canon_field_lengths(3)[OF that(2)] that(1) by simp
  from u consider "m_Type m = DiscoveryHello" | "m_Type m = DiscoveryHelloAck" | "m_Type m = LinkPing"
    | "m_Type m = LinkPong" | "m_Type m = PolicyQuery" | "m_Type m = PolicyUpdate" | "m_Type m = PublicProbe"
    by (auto simp: udp_type_def type_class_defs)
  then show ?thesis
  proof cases
    case 4
    with c endp show ?thesis by (auto simp: message_canon_def message_tlvs_def Let_def type_class_defs word_le_nat_alt)
  next
    case 5
    with c uid show ?thesis
      by (fastforce simp: message_canon_def message_tlvs_def Let_def type_class_defs word_le_nat_alt split: option.splits)
  next
    case 6
    with c obtain v p where vp: "m_UID m = Some v" "uid_canon v" "m_Policy m = Some p" "policy_canon p"
      by (auto simp: message_canon_def Let_def type_class_defs word_le_nat_alt split: option.splits)
    with 6 uid[OF vp(1,2)] pol[OF vp(3,4)] show ?thesis
      by (simp add: message_tlvs_def Let_def type_class_defs word_le_nat_alt)
  qed (use c in \<open>auto simp: message_canon_def message_tlvs_def Let_def type_class_defs word_le_nat_alt\<close>)
qed

lemma Decode_type_canon: "Decode f = Inr m \<Longrightarrow> message_canon m"
  using Decode_canon by blast

interpretation datagram_codec: wire_codec EncodeDatagram DecodeDatagram
  "\<lambda>m. message_canon m \<and> udp_type (m_Type m)"
proof unfold_locales
  fix m b
  assume c: "message_canon m \<and> udp_type (m_Type m)"
  have len: "Encode m = Inr f \<Longrightarrow> length f \<le> 1200" for f
    using c udp_body_bound[of m] Encode_canon[of m] by auto
  show "is_ok (EncodeDatagram m)"
    using c len message_codec.enc_total[of m] by (auto simp: EncodeDatagram_def is_ok_iff not_less)
  assume "EncodeDatagram m = Inr b"
  with c len have "Encode m = Inr b" "length b \<le> 1200" by (auto simp: EncodeDatagram_def)
  with message_codec.dec_enc[of m b] c show "DecodeDatagram b = Inr m" by (simp add: DecodeDatagram_def)
next
  fix b m
  assume "DecodeDatagram b = Inr m"
  then have "Decode b = Inr m" "udp_type (m_Type m)" by (auto simp: DecodeDatagram_def)
  with Decode_type_canon show "message_canon m \<and> udp_type (m_Type m)" by blast
qed

section \<open>Sample values\<close>

definition sample_pong :: Message where
  "sample_pong = (message_of LinkPong)\<lparr>m_OperationID := 7,
     m_Endpoint := AddrPort (Addr4 0xC0A80001) 51820\<rparr>"

definition sample_open :: Message where
  "sample_open = (message_of Open)\<lparr>m_UID := Some \<lparr>UUID = 0x11, Name = [0x61]\<rparr>\<rparr>"

lemma sample_pong_canon: "message_canon sample_pong"
  by code_simp

lemma sample_open_canon: "message_canon sample_open"
  by code_simp

lemma sample_pong_udp: "udp_type (m_Type sample_pong)"
  by code_simp

section \<open>Properties\<close>

text \<open>
  C19: every message the decoder accepts can be encoded again; the new frame fits the frame limit,
  carries the same message type and decodes to the very same message.
\<close>
theorem Decode_reencodes:
  assumes "Decode frame = Inr m"
  shows "\<exists>frame'. Encode m = Inr frame' \<and> Decode frame' = Inr m \<and> length frame' \<le> 4096 \<and> frame' ! 5 = frame ! 5"
proof -
  from message_codec.reencode[OF assms] obtain g where g: "Encode m = Inr g" "Decode g = Inr m" by blast
  with Decode_canon[OF assms] Decode_canon[OF g(2)] Encode_bound[OF g(1)] show ?thesis by auto
qed

theorem Decode_reencodes_witness:
  "\<exists>frame'. Encode sample_pong = Inr frame' \<and> Decode frame' = Inr sample_pong \<and> length frame' \<le> 4096
    \<and> frame' ! 5 = LinkPong"
proof -
  obtain b where b: "Encode sample_pong = Inr b" "Decode b = Inr sample_pong"
    using message_codec.enc_total[OF sample_pong_canon] message_codec.dec_enc[OF sample_pong_canon]
    by (auto simp: is_ok_iff)
  from Decode_reencodes[OF b(2)] Decode_canon[OF b(2)] show ?thesis by (simp add: sample_pong_def)
qed

lemma stream_roundtrip:
  assumes "list_all message_canon ms"
  shows "\<exists>fs. map Encode ms = map Inr fs \<and> read_frames (concat fs) = (fs, ErrConnection ''read header'')
    \<and> map Decode fs = map Inr ms"
proof -
  have "\<exists>fs. list_all2 (\<lambda>m f. Encode m = Inr f \<and> Decode f = Inr m) ms fs" using assms
  proof (induction ms)
    case (Cons m ms)
    then obtain fs where "list_all2 (\<lambda>m f. Encode m = Inr f \<and> Decode f = Inr m) ms fs" by auto
    moreover obtain f where "Encode m = Inr f" "Decode f = Inr m"
      using Cons.prems message_codec.enc_total[of m] message_codec.dec_enc[of m] by (auto simp: is_ok_iff)
    ultimately show ?case by (intro exI[of _ "f # fs"]) simp
  qed (rule exI[of _ "[]"], simp)
  then obtain fs where fs: "list_all2 (\<lambda>m f. Encode m = Inr f \<and> Decode f = Inr m) ms fs" by blast
  then have "map Encode ms = map Inr fs \<and> map Decode fs = map Inr ms"
    by (induction ms fs rule: list_all2_induct) simp_all
  moreover have "list_all2 (\<lambda>m f. Encode m = Inr f) ms fs"
    using fs by (rule list_all2_mono) simp
  ultimately show ?thesis using read_frames_written[of ms fs] by blast
qed

text \<open>
  A datagram is accepted only within the datagram limit and with one of the message types
  bound to UDP, and the accepted message can be sent as a datagram that decodes to it.
\<close>
lemma datagram_roundtrip:
  assumes "DecodeDatagram packet = Inr m"
  shows "length packet \<le> 1200
    \<and> m_Type m \<in> {DiscoveryHello, DiscoveryHelloAck, LinkPing, LinkPong, PolicyQuery, PolicyUpdate, PublicProbe}
    \<and> (\<exists>packet'. EncodeDatagram m = Inr packet' \<and> DecodeDatagram packet' = Inr m)"
  using assms datagram_codec.reencode[OF assms]
  by (auto simp: DecodeDatagram_def udp_type_def type_class_defs)

text \<open>
  C39: the discovery control payload has exactly one encoding: the decoder accepts precisely the
  octets the encoder produces for a canonical value.
\<close>
theorem control_exact:
  "DecodeControl data = Inr c \<longleftrightarrow> control_canon c \<and> EncodeControl c = Inr data"
  by (rule control_codec.dec_iff)

text \<open>
  a decoded DURABLE_PROPOSE names an operation and at most two fixed endpoints, each with a
  usable address, in strictly increasing order of node UUID, so no node is named twice.
\<close>
lemma durable_propose_endpoints:
  assumes "decodeDurable DurablePropose body = Inr m"
  shows "m_OperationID m \<noteq> 0 \<and> length (m_FixedEndpoints m) \<le> 2
    \<and> sorted_wrt (\<lambda>a b. UUID (fe_UID a) < UUID (fe_UID b)) (m_FixedEndpoints m)
    \<and> list_all (\<lambda>f. endpoint_canon (fe_Endpoint f)) (m_FixedEndpoints m)"
proof -
  have "durable_canon m \<and> m_Type m = DurablePropose"
    using assms by (intro decodeDurable_canon) (simp_all add: IsDurable_def)
  then show ?thesis
    by (auto simp: durable_canon_def Let_def fixed_canon_def list_all_iff split: if_splits)
qed

definition sample_propose :: Message where
  "sample_propose = (message_of DurablePropose)\<lparr>m_OperationID := 9,
     m_FixedEndpoints := [\<lparr>fe_UID = \<lparr>UUID = 0x11, Name = [0x61]\<rparr>, fe_Endpoint = AddrPort (Addr4 0xC0A80001) 51820\<rparr>,
       \<lparr>fe_UID = \<lparr>UUID = 0x12, Name = [0x62]\<rparr>, fe_Endpoint = AddrPort (Addr4 0xC0A80002) 51820\<rparr>]\<rparr>"

text \<open>
  A TLV body is accepted by the cursor loop exactly when it is a concatenation of appended
  TLVs, and then the loop visits those TLVs in order, each with its offset; the decomposition
  is unique.
\<close>
lemma tlv_body_accepted:
  "(\<exists>s'. each_view f (NewCursor body) s = Inr s') \<longleftrightarrow>
    (\<exists>!ts. short_values ts \<and> body = tlv_bytes ts
      \<and> each_view f (NewCursor body) s = Inr (fold f (views_from 0 ts) s))"
  using each_view_accepts[of f body s] drain_appended[of _ f s] tlv_bytes_inj by metis

text \<open>
  The fields with a single wire form: node UIDs, endpoints and dynamic Link policies decode
  from exactly the octets their encoders produce for canonical values.
\<close>
lemma field_codecs_exact:
  "(parseUID b = Inr u \<longleftrightarrow> uid_canon u \<and> encodeUID u = Inr b)
   \<and> (parseEndpoint b = Inr ep \<longleftrightarrow> endpoint_canon ep \<and> encodeEndpoint ep = Inr b)
   \<and> (parseDynamicLinkPolicy b = Inr p \<longleftrightarrow> policy_canon p \<and> encodeDynamicLinkPolicy (Some p) = Inr b)"
  using uid_codec.dec_iff endpoint_codec.dec_iff policy_codec.dec_iff by blast


end
