(* ===== verification/Link_Derive.thy ===== *)
theory Link_Derive
  imports Netip "HOL-Library.Signed_Division"
begin

text \<open>
  Deterministic derivation of addresses, \<^verbatim>\<open>internal/link/derive.go\<close>: the bits of a pool are
  filled with entropy from a keyed digest to give link prefixes, loopbacks and link-local
  addresses, and the two ends of a link split the prefix between them.  The keyed hash
  (HMAC-SHA-256), the key derivation function and the parser of textual prefixes are
  parameters: \<open>mac\<close>, \<open>hkdf\<close> and \<open>parse\<close>.  No theorem depends on what they compute.
\<close>

record Proposal =
  p_V4 :: prefix
  p_V6 :: prefix

abbreviation NoProposal :: Proposal where
  "NoProposal \<equiv> \<lparr>p_V4 = NoPrefix, p_V6 = NoPrefix\<rparr>"

definition Empty :: "Proposal \<Rightarrow> bool" where
  "Empty p = (\<not> PF_IsValid (p_V4 p) \<and> \<not> PF_IsValid (p_V6 p))"

type_synonym mac = "bytes \<Rightarrow> bytes \<Rightarrow> bytes"

text \<open>The digest is copied into a zeroed array of 32 octets.\<close>

definition digest :: "mac \<Rightarrow> bytes \<Rightarrow> bytes list \<Rightarrow> bytes" where
  "digest mac key values = take 32 (mac key (concat (map (\<lambda>v. 0 # v) values)) @ replicate 32 0)"

lemma length_digest [simp]: "length (digest mac key values) = 32"
  by (simp add: digest_def)

definition ascii :: "string \<Rightarrow> bytes" where
  "ascii s = map (\<lambda>c. of_char c) s"

section \<open>Filling the bits of a pool\<close>

definition fill_bit :: "int \<Rightarrow> bytes \<Rightarrow> int \<Rightarrow> bytes \<Rightarrow> bytes" where
  "fill_bit poolBits entropy addressBit addressBytes =
    (let entropyBit = addressBit - poolBits;
         value = entropy ! (nat (entropyBit sdiv 8) mod length entropy)
                   AND push_bit (nat (7 - entropyBit smod 8)) 1;
         mask = push_bit (nat (7 - addressBit smod 8)) 1;
         i = nat (addressBit sdiv 8)
     in if value = 0 then addressBytes[i := addressBytes ! i AND NOT mask]
        else addressBytes[i := addressBytes ! i OR mask])"

function fill_loop :: "int \<Rightarrow> int \<Rightarrow> bytes \<Rightarrow> int \<Rightarrow> bytes \<Rightarrow> bytes result" where
  "fill_loop poolBits targetBits entropy addressBit addressBytes =
    (if addressBit < targetBits then
       (if int (length addressBytes) \<le> addressBit sdiv 8 then Inl (Panic ''index out of range'')
        else fill_loop poolBits targetBits entropy (addressBit + 1)
               (fill_bit poolBits entropy addressBit addressBytes))
     else Inr addressBytes)"
  by pat_completeness auto
termination
  by (relation "measure (\<lambda>(p, t, e, b, bs). nat (t - b))") auto

declare fill_loop.simps [simp del]

text \<open>Copying a slice into an array of n octets.\<close>

definition copy_array :: "nat \<Rightarrow> bytes \<Rightarrow> bytes" where
  "copy_array n bs = take n (bs @ replicate n 0)"

definition fillBits :: "prefix \<Rightarrow> int \<Rightarrow> bytes \<Rightarrow> addr result" where
  "fillBits pool targetBits entropy =
    bind_r (fill_loop (pf_Bits pool) targetBits entropy (pf_Bits pool) (AsSlice (pf_Addr pool))) (\<lambda>bs.
      Inr (if Is4 (pf_Addr pool) then AddrFrom4 (copy_array 4 bs) else AddrFrom16 (copy_array 16 bs)))"

definition deriveSubnet :: "prefix \<Rightarrow> int \<Rightarrow> bytes \<Rightarrow> prefix result" where
  "deriveSubnet pool bits entropy =
    bind_r (fillBits pool bits entropy) (\<lambda>a. Inr (Masked (PrefixFrom a bits)))"

definition deriveHost :: "prefix \<Rightarrow> bytes \<Rightarrow> addr result" where
  "deriveHost pool entropy =
    bind_r (fillBits pool (BitLen (pf_Addr pool)) entropy) (\<lambda>a.
      if Is4 a \<and> pf_Bits pool \<le> 30 then
        Inr (if a = pf_Addr (Masked (PrefixFrom a (pf_Bits pool))) then NextAddr a else a)
      else Inr a)"

section \<open>Derived addresses\<close>

definition DeriveLinkLocal :: "mac \<Rightarrow> bytes \<Rightarrow> array16 \<Rightarrow> bytes \<Rightarrow> prefix" where
  "DeriveLinkLocal mac fabricPSK uid interfaceName =
    (let entropy = digest mac fabricPSK [ascii ''velvet-fabric/link-local/v1'', be_bytes 16 uid, interfaceName];
         raw = [0xfe, 0x80, 0, 0, 0, 0, 0, 0] @ take 8 entropy;
         raw = raw[8 := raw ! 8 AND NOT 1];
         raw = (if list_all (\<lambda>value. value = 0) (drop 8 raw) then raw[15 := 1] else raw)
     in PrefixFrom (AddrFrom16 raw) 64)"

definition DeriveLoopbackV6 ::
  "mac \<Rightarrow> (string \<Rightarrow> addr option) \<Rightarrow> bytes \<Rightarrow> array16 \<Rightarrow> prefix \<Rightarrow> string \<Rightarrow> addr result" where
  "DeriveLoopbackV6 mac parseAddr fabricPSK uid v6Pool overrideV6 =
    bind_r (deriveHost v6Pool (digest mac fabricPSK [ascii ''velvet-fabric/loopback/v6/v1'', be_bytes 16 uid]))
      (\<lambda>v6.
        if overrideV6 \<noteq> [] then
          (case parseAddr overrideV6 of
             None \<Rightarrow> Inl (ErrNew ''ParseAddr'')
           | Some a \<Rightarrow> Inr a)
        else Inr v6)"

primrec apply_overrides :: "(string \<Rightarrow> prefix option) \<Rightarrow> string list \<Rightarrow> Proposal \<Rightarrow> Proposal result" where
  "apply_overrides parse [] result = Inr result"
| "apply_overrides parse (raw # rest) result =
    (case parse raw of
       None \<Rightarrow> Inl (ErrNew ''ParsePrefix'')
     | Some prefix \<Rightarrow>
       apply_overrides parse rest
         (if Is4 (pf_Addr prefix) then result\<lparr>p_V4 := Masked prefix\<rparr>
          else result\<lparr>p_V6 := Masked prefix\<rparr>))"

definition ordered_ids :: "array16 \<Rightarrow> array16 \<Rightarrow> bytes list" where
  "ordered_ids local remote =
    (if 0 < bytes_Compare (be_bytes 16 local) (be_bytes 16 remote)
     then [be_bytes 16 remote, be_bytes 16 local]
     else [be_bytes 16 local, be_bytes 16 remote])"

definition DeriveProposal ::
  "mac \<Rightarrow> (string \<Rightarrow> prefix option) \<Rightarrow> bytes \<Rightarrow> array16 \<Rightarrow> array16 \<Rightarrow> prefix \<Rightarrow> prefix
    \<Rightarrow> string list \<Rightarrow> u32 \<Rightarrow> Proposal result" where
  "DeriveProposal mac parse fabricPSK local remote v4Pool v6Pool overrides attempt =
    (let ids = ordered_ids local remote; attemptBytes = be_bytes 4 attempt in
     bind_r
       (if PF_IsValid v4Pool
        then deriveSubnet v4Pool 30
          (digest mac fabricPSK ([ascii ''velvet-fabric/link-prefix/v4/v1''] @ ids @ [attemptBytes]))
        else Inr NoPrefix) (\<lambda>p4.
     bind_r
       (if PF_IsValid v6Pool
        then deriveSubnet v6Pool 126
          (digest mac fabricPSK ([ascii ''velvet-fabric/link-prefix/v6/v1''] @ ids @ [attemptBytes]))
        else Inr NoPrefix) (\<lambda>p6.
     apply_overrides parse overrides \<lparr>p_V4 = p4, p_V6 = p6\<rparr>)))"

text \<open>One prefix of a proposal as the local interface prefix and the address of the peer.\<close>

definition split_prefix :: "bool \<Rightarrow> prefix \<Rightarrow> prefix \<times> addr" where
  "split_prefix localLower prefix =
    (let first = NextAddr (pf_Addr prefix); second = NextAddr (NextAddr (pf_Addr prefix));
         (localAddr, peerAddr) = (if localLower then (first, second) else (second, first))
     in (PrefixFrom localAddr (pf_Bits prefix), peerAddr))"

definition EndpointAddresses :: "Proposal \<Rightarrow> array16 \<Rightarrow> array16 \<Rightarrow> prefix list \<times> addr list" where
  "EndpointAddresses proposal local remote =
    (let localLower = (bytes_Compare (be_bytes 16 local) (be_bytes 16 remote) < 0);
         sides = map (split_prefix localLower) (filter PF_IsValid [p_V4 proposal, p_V6 proposal])
     in (map fst sides, map snd sides))"

definition MatchesOverrides :: "(string \<Rightarrow> prefix option) \<Rightarrow> Proposal \<Rightarrow> string list \<Rightarrow> bool" where
  "MatchesOverrides parse proposal overrides =
    list_all (\<lambda>raw.
      case parse raw of
        None \<Rightarrow> False
      | Some prefix \<Rightarrow>
        \<not> (Is4 (pf_Addr prefix) \<and> p_V4 proposal \<noteq> Masked prefix)
        \<and> \<not> (Is6 (pf_Addr prefix) \<and> p_V6 proposal \<noteq> Masked prefix)) overrides"

definition deriveWGLinkPSK ::
  "(bytes \<Rightarrow> bytes \<Rightarrow> bytes result) \<Rightarrow> bytes \<Rightarrow> array32 \<Rightarrow> array32 \<Rightarrow> array32 result" where
  "deriveWGLinkPSK hkdf fabricPSK a b =
    (let (k0, k1) = (if bytes_Compare (be_bytes 32 b) (be_bytes 32 a) < 0 then (b, a) else (a, b));
         info = ascii ''velvet-fabric/wg-link-psk/v1'' @ [0] @ be_bytes 32 k0 @ be_bytes 32 k1
     in bind_r (hkdf fabricPSK info) (\<lambda>stream.
       if length stream < 32 then Inl (ErrNew ''unexpected EOF'') else Inr (be_word (take 32 stream))))"

section \<open>Bits of octet strings\<close>

text \<open>Bit \<open>i\<close> of an octet string, counted from the most significant bit of its first octet.\<close>

definition bit_at :: "bytes \<Rightarrow> nat \<Rightarrow> bool" where
  "bit_at bs i = bit (bs ! (i div 8)) (7 - i mod 8)"

lemma bit_at_Cons:
  "bit_at (b # bs) i = (if i < 8 then bit b (7 - i) else bit_at bs (i - 8))"
proof (cases "i < 8")
  case False
  then obtain k where "i = k + 8" using le_Suc_ex[of 8 i] by (auto simp: add.commute)
  moreover have "(k + 8) div 8 = Suc (k div 8)" by simp
  ultimately show ?thesis by (simp only: bit_at_def nth_Cons_Suc mod_add_self2) simp
qed (simp add: bit_at_def)

lemma bit_be_word:
  assumes "8 * length bs \<le> LENGTH('a)" "i < 8 * length bs"
  shows "bit (be_word bs :: 'a::len word) (8 * length bs - Suc i) = bit_at bs i"
  using assms
proof (induction bs arbitrary: i)
  case (Cons b bs)
  show ?case
  proof (cases "i < 8")
    case True
    have "\<not> bit (be_word bs :: 'a word) (8 * length (b # bs) - Suc i)"
      using True be_word_bit_bound[of bs "8 * length (b # bs) - Suc i"] by fastforce
    moreover have "8 * length (b # bs) - Suc i - 8 * length bs = 7 - i"
      "8 * length bs \<le> 8 * length (b # bs) - Suc i" using True by auto
    moreover have "8 * length (b # bs) - Suc i < LENGTH('a)" "7 - i < LENGTH('a)" using Cons.prems by auto
    ultimately show ?thesis using True by (simp add: bit_simps bit_at_Cons)
  next
    case False
    then have "8 * length (b # bs) - Suc i = 8 * length bs - Suc (i - 8)" by auto
    moreover have "bit (be_word bs :: 'a word) (8 * length bs - Suc (i - 8)) = bit_at bs (i - 8)"
      using False Cons.prems by (intro Cons.IH) auto
    moreover have "bit (be_word (b # bs) :: 'a word) n = bit (be_word bs :: 'a word) n"
      if "n < 8 * length bs" for n using that by (simp add: bit_simps)
    moreover have "8 * length bs - Suc (i - 8) < 8 * length bs" using False Cons.prems by auto
    ultimately show ?thesis using False by (simp only: bit_at_Cons if_False)
  qed
qed simp

lemma bit_at_be_bytes:
  assumes "8 * n = LENGTH('a)" "i < 8 * n"
  shows "bit_at (be_bytes n (w :: 'a::len word)) i = bit w (8 * n - Suc i)"
  using bit_be_word[of "be_bytes n w" i, where 'a = 'a] assms be_word_be_bytes[of n w] by simp

lemma octet_update:
  fixes b :: byte
  assumes "r < 8" "s < 8"
  shows "bit (if v then b OR push_bit (7 - r) 1 else b AND NOT (push_bit (7 - r) 1)) (7 - s)
    = (if s = r then v else bit b (7 - s))"
proof -
  have "7 - r = 7 - s \<longleftrightarrow> s = r" using assms by linarith
  then show ?thesis using assms by (auto simp: bit_simps)
qed

lemma bit_at_update:
  assumes "i < 8 * length bs" "j < 8 * length bs"
  shows "bit_at (bs[i div 8 := (if v then bs ! (i div 8) OR push_bit (7 - i mod 8) 1
      else bs ! (i div 8) AND NOT (push_bit (7 - i mod 8) 1))]) j
    = (if j = i then v else bit_at bs j)"
proof (cases "i div 8 = j div 8")
  case True
  have "i = i div 8 * 8 + i mod 8" "j = j div 8 * 8 + j mod 8" by simp_all
  with True have "j mod 8 = i mod 8 \<longleftrightarrow> j = i" by metis
  moreover have "j div 8 < length bs" using assms by auto
  ultimately show ?thesis
    using True octet_update[of "i mod 8" "j mod 8" v "bs ! (j div 8)"]
    by (simp only: bit_at_def nth_list_update_eq mod_less_divisor zero_less_numeral)
next
  case False
  then show ?thesis by (auto simp: bit_at_def nth_list_update)
qed

section \<open>What the fill loop computes\<close>

lemma sdiv_nat:
  assumes "0 \<le> (k :: int)"
  shows "k sdiv 8 = k div 8" "nat (k sdiv 8) = nat k div 8" "nat (7 - k smod 8) = 7 - nat k mod 8"
proof -
  show sd: "k sdiv 8 = k div 8" using assms by (cases "k = 0") (simp_all add: signed_divide_int_def)
  then have "k smod 8 = k mod 8" using minus_sdiv_mult_eq_smod[of k 8] by (simp add: minus_div_mult_eq_mod)
  with sd assms show "nat (k sdiv 8) = nat k div 8" "nat (7 - k smod 8) = 7 - nat k mod 8"
    by (simp_all add: nat_div_distrib nat_mod_distrib nat_diff_distrib)
qed

lemma and_push_bit_one: "(w AND push_bit k 1 = (0 :: 'a::len word)) \<longleftrightarrow> \<not> bit w k"
  using and_exp_eq_0_iff_not_bit[of w k] bit_imp_le_length[of w k]
  by (auto simp: push_bit_of_1)

lemma fill_bit_at:
  assumes "0 \<le> pb" "pb \<le> int i" "i < 8 * length bs" "length entropy = 32" "j < 8 * length bs"
  shows "bit_at (fill_bit pb entropy (int i) bs) j
    = (if j = i then bit_at entropy ((i - nat pb) mod 256) else bit_at bs j)"
proof -
  have eb: "nat (int i - pb) = i - nat pb" using assms by (simp add: nat_diff_distrib)
  have idx: "(i - nat pb) div 8 mod 32 = ((i - nat pb) mod 256) div 8"
    "(i - nat pb) mod 8 = ((i - nat pb) mod 256) mod 8"
    by (simp_all add: mod_mult2_eq[of _ 8 32, simplified] mod_mod_cancel)
  define v where "v = bit_at entropy ((i - nat pb) mod 256)"
  have v: "(entropy ! (nat ((int i - pb) sdiv 8) mod length entropy)
      AND push_bit (nat (7 - (int i - pb) smod 8)) 1 = 0) \<longleftrightarrow> \<not> v"
    using assms by (simp only: sdiv_nat(2,3) eb and_push_bit_one v_def bit_at_def idx diff_ge_0_iff_ge)
  have "fill_bit pb entropy (int i) bs = bs[i div 8 := (if v then bs ! (i div 8) OR push_bit (7 - i mod 8) 1
      else bs ! (i div 8) AND NOT (push_bit (7 - i mod 8) 1))]"
    unfolding fill_bit_def Let_def v by (simp add: sdiv_nat(2,3))
  then show ?thesis
    using bit_at_update[OF assms(3,5), of v] by (simp add: v_def)
qed

lemma length_fill_bit [simp]: "length (fill_bit pb entropy i bs) = length bs"
  by (simp add: fill_bit_def Let_def)

lemma fill_loop_bits:
  assumes "0 \<le> pb" "pb \<le> int i" "i \<le> t" "t \<le> 8 * length bs" "length entropy = 32"
  shows "\<exists>bs'. fill_loop pb (int t) entropy (int i) bs = Inr bs' \<and> length bs' = length bs
    \<and> (\<forall>j < 8 * length bs. bit_at bs' j =
        (if i \<le> j \<and> j < t then bit_at entropy ((j - nat pb) mod 256) else bit_at bs j))"
  using assms
proof (induction "t - i" arbitrary: i bs)
  case 0
  then show ?case by (intro exI[of _ bs]) (auto simp: fill_loop.simps)
next
  case (Suc n)
  then have lt: "i < t" by simp
  let ?bs = "fill_bit pb entropy (int i) bs"
  have "\<exists>bs'. fill_loop pb (int t) entropy (int (Suc i)) ?bs = Inr bs' \<and> length bs' = length ?bs
    \<and> (\<forall>j < 8 * length ?bs. bit_at bs' j =
        (if Suc i \<le> j \<and> j < t then bit_at entropy ((j - nat pb) mod 256) else bit_at ?bs j))"
    using Suc.hyps(2) Suc.prems lt by (intro Suc.hyps(1)) auto
  then obtain bs' where bs': "fill_loop pb (int t) entropy (int i + 1) ?bs = Inr bs'"
    "length bs' = length bs"
    "\<And>j. j < 8 * length bs \<Longrightarrow> bit_at bs' j =
      (if Suc i \<le> j \<and> j < t then bit_at entropy ((j - nat pb) mod 256) else bit_at ?bs j)"
    by (auto simp: add.commute)
  have "\<not> int (length bs) \<le> int i sdiv 8"
    using lt Suc.prems by (simp add: sdiv_nat(1))
  with lt bs'(1) have "fill_loop pb (int t) entropy (int i) bs = Inr bs'"
    by (simp add: fill_loop.simps[of pb "int t" entropy "int i" bs])
  with bs' fill_bit_at[of pb i bs entropy] Suc.prems lt show ?case
    by (intro exI[of _ bs']) (auto simp: not_less_eq_eq le_antisym dest: le_antisym)
qed

lemma fill_word:
  fixes w :: "'a::len word"
  assumes "8 * n = LENGTH('a)" "0 \<le> pb" "pb \<le> t" "t \<le> int (8 * n)" "length entropy = 32"
  shows "\<exists>v :: 'a word. fill_loop pb t entropy pb (be_bytes n w) = Inr (be_bytes n v)
    \<and> drop_bit (8 * n - nat pb) v = drop_bit (8 * n - nat pb) w"
proof -
  from assms have "\<exists>bs'. fill_loop pb (int (nat t)) entropy (int (nat pb)) (be_bytes n w) = Inr bs'
    \<and> length bs' = length (be_bytes n w)
    \<and> (\<forall>j < 8 * length (be_bytes n w). bit_at bs' j =
        (if nat pb \<le> j \<and> j < nat t then bit_at entropy ((j - nat pb) mod 256) else bit_at (be_bytes n w) j))"
    by (intro fill_loop_bits) auto
  then obtain bs' where bs': "fill_loop pb t entropy pb (be_bytes n w) = Inr bs'" "length bs' = n"
    and bits: "\<And>j. j < nat pb \<Longrightarrow> bit_at bs' j = bit_at (be_bytes n w) j"
    using assms by auto
  have "bit (be_word bs' :: 'a word) k = bit w k" if k: "8 * n - nat pb \<le> k" "k < 8 * n" for k
  proof -
    have j: "8 * n - Suc k < 8 * n" "8 * n - Suc k < nat pb" "8 * n - Suc (8 * n - Suc k) = k"
      using k by auto
    have "bit (be_word bs' :: 'a word) k = bit_at bs' (8 * n - Suc k)"
      using bit_be_word[of bs' "8 * n - Suc k", where 'a = 'a] bs'(2) assms(1) j by simp
    also have "\<dots> = bit w k"
      using bits[OF j(2)] bit_at_be_bytes[OF assms(1) j(1), of w] j(3) by simp
    finally show ?thesis .
  qed
  moreover have "\<not> bit (v :: 'a word) k" if "\<not> k < 8 * n" for v k
    using that assms(1) bit_imp_le_length[of v k] by auto
  ultimately have "bit (be_word bs' :: 'a word) k = bit w k" if "8 * n - nat pb \<le> k" for k
    using that by metis
  then have "drop_bit (8 * n - nat pb) (be_word bs' :: 'a word) = drop_bit (8 * n - nat pb) w"
    by (intro bit_word_eqI) (simp add: bit_drop_bit_eq)
  moreover have "be_bytes n (be_word bs' :: 'a word) = bs'"
    using bs'(2) assms(1) by (simp add: be_bytes_be_word)
  ultimately show ?thesis using bs'(1) by metis
qed

lemma copy_array_be_bytes [simp]: "copy_array n (be_bytes n w) = be_bytes n w"
  by (simp add: copy_array_def)

text \<open>A prefix as the library builds it: its length fits its address.\<close>

definition pool_ok :: "prefix \<Rightarrow> bool" where
  "pool_ok p = (PF_IsValid p \<and> IsValid (pf_Addr p) \<and> pf_Bits p \<le> BitLen (pf_Addr p))"

lemma fillBits_in_pool:
  assumes "pool_ok pool" "pf_Bits pool \<le> t" "t \<le> BitLen (pf_Addr pool)" "length entropy = 32"
  shows "\<exists>a. fillBits pool t entropy = Inr a \<and> Contains pool a \<and> BitLen a = BitLen (pf_Addr pool)
    \<and> (Is4 a \<longleftrightarrow> Is4 (pf_Addr pool)) \<and> \<not> hasZone a"
proof (cases pool)
  case (Prefix p b)
  show ?thesis
  proof (cases p)
    case NoAddr
    with Prefix assms show ?thesis by (simp add: pool_ok_def)
  next
    case (Addr4 w)
    with Prefix assms obtain v :: u32 where
      v: "fill_loop b t entropy b (be_bytes 4 w) = Inr (be_bytes 4 v)"
        "drop_bit (32 - nat b) v = drop_bit (32 - nat b) w"
      using fill_word[of 4 b t entropy w] by (auto simp: pool_ok_def PF_IsValid_def)
    with Prefix Addr4 assms(1) show ?thesis
      by (intro exI[of _ "Addr4 v"])
        (simp add: fillBits_def AddrFrom4_def pool_ok_def PF_IsValid_def drop_bit_xor_zero_iff)
  next
    case (Addr6 w z)
    with Prefix assms obtain v :: array16 where
      v: "fill_loop b t entropy b (be_bytes 16 w) = Inr (be_bytes 16 v)"
        "drop_bit (128 - nat b) v = drop_bit (128 - nat b) w"
      using fill_word[of 16 b t entropy w] by (auto simp: pool_ok_def PF_IsValid_def)
    with Prefix Addr6 assms(1) show ?thesis
      by (intro exI[of _ "Addr6 v []"])
        (simp add: fillBits_def AddrFrom16_def pool_ok_def PF_IsValid_def drop_bit_xor_zero_iff)
  qed
qed

lemma drop_bit_mask_low: "j \<le> k \<Longrightarrow> drop_bit k (mask_low j w) = drop_bit k (w :: 'a::len word)"
  by (rule bit_word_eqI) (auto simp: mask_low_def bit_simps dest: bit_imp_le_length)

lemma Masked_in_pool:
  assumes "pool_ok pool" "Contains pool a" "pf_Bits pool \<le> t" "t \<le> BitLen (pf_Addr pool)"
  shows "let p = Masked (PrefixFrom a t) in
    pf_Bits p = t \<and> Masked p = p \<and> Contains pool (pf_Addr p) \<and> pool_ok p
    \<and> BitLen (pf_Addr p) = BitLen (pf_Addr pool)"
  using assms
  by (cases "(pool, a)" rule: Contains.cases)
    (auto simp: Let_def PrefixFrom_def pool_ok_def PF_IsValid_def drop_bit_xor_zero_iff drop_bit_mask_low)

lemma deriveSubnet_in_pool:
  assumes "pool_ok pool" "pf_Bits pool \<le> t" "t \<le> BitLen (pf_Addr pool)" "length entropy = 32"
  shows "\<exists>p. deriveSubnet pool t entropy = Inr p \<and> pf_Bits p = t \<and> Masked p = p
    \<and> Contains pool (pf_Addr p) \<and> pool_ok p \<and> BitLen (pf_Addr p) = BitLen (pf_Addr pool)"
proof -
  from fillBits_in_pool[OF assms] obtain a where
    "fillBits pool t entropy = Inr a" "Contains pool a" by blast
  with Masked_in_pool[OF assms(1) _ assms(2,3), of a] show ?thesis
    by (simp add: deriveSubnet_def Let_def)
qed

section \<open>Symmetry of the derivation\<close>

lemma bytes_Compare_swap: "0 < bytes_Compare a b \<longleftrightarrow> bytes_Compare b a < 0"
  using bytes_Compare_antisym[of a b] by linarith

lemma ordered_ids_sym: "ordered_ids a b = ordered_ids b a"
  using bytes_Compare_antisym[of "be_bytes 16 a" "be_bytes 16 b"]
    bytes_Compare_zero_iff[of "be_bytes 16 a" "be_bytes 16 b"]
  unfolding ordered_ids_def by (auto simp del: bytes_Compare_zero_iff)

lemma deriveWGLinkPSK_sym: "deriveWGLinkPSK hkdf psk a b = deriveWGLinkPSK hkdf psk b a"
  using bytes_Compare_antisym[of "be_bytes 32 a" "be_bytes 32 b"]
    bytes_Compare_zero_iff[of "be_bytes 32 a" "be_bytes 32 b"] be_bytes_inj[of 32 a b]
  unfolding deriveWGLinkPSK_def
  by (cases "bytes_Compare (be_bytes 32 a) (be_bytes 32 b)" "0 :: int" rule: linorder_cases)
    (auto simp del: bytes_Compare_zero_iff)

lemma DeriveProposal_sym:
  "DeriveProposal mac parse psk a b v4 v6 overrides attempt = DeriveProposal mac parse psk b a v4 v6 overrides attempt"
  by (simp add: DeriveProposal_def ordered_ids_sym[of a b])

section \<open>Proposals\<close>

text \<open>The pools a Fabric is configured with: absent, or wide enough for one link prefix.\<close>

definition pools_ok :: "prefix \<Rightarrow> prefix \<Rightarrow> bool" where
  "pools_ok v4 v6 =
    ((PF_IsValid v4 \<longrightarrow> pool_ok v4 \<and> Is4 (pf_Addr v4) \<and> pf_Bits v4 \<le> 30)
     \<and> (PF_IsValid v6 \<longrightarrow> pool_ok v6 \<and> Is6 (pf_Addr v6) \<and> pf_Bits v6 \<le> 126))"

lemma DeriveProposal_in_pools:
  assumes "pools_ok v4 v6"
  shows "\<exists>p. DeriveProposal mac parse psk a b v4 v6 [] attempt = Inr p
    \<and> (if PF_IsValid v4 then pf_Bits (p_V4 p) = 30 \<and> Masked (p_V4 p) = p_V4 p \<and> Contains v4 (pf_Addr (p_V4 p))
       else p_V4 p = NoPrefix)
    \<and> (if PF_IsValid v6 then pf_Bits (p_V6 p) = 126 \<and> Masked (p_V6 p) = p_V6 p \<and> Contains v6 (pf_Addr (p_V6 p))
       else p_V6 p = NoPrefix)"
proof -
  have four: "\<exists>p. deriveSubnet v4 30 (digest mac psk xs) = Inr p \<and> pf_Bits p = 30 \<and> Masked p = p \<and> Contains v4 (pf_Addr p)"
    if "PF_IsValid v4" for xs
    using that assms deriveSubnet_in_pool[of v4 30 "digest mac psk xs"] by (cases "pf_Addr v4") (auto simp: pools_ok_def)
  have six: "\<exists>p. deriveSubnet v6 126 (digest mac psk xs) = Inr p \<and> pf_Bits p = 126 \<and> Masked p = p \<and> Contains v6 (pf_Addr p)"
    if "PF_IsValid v6" for xs
    using that assms deriveSubnet_in_pool[of v6 126 "digest mac psk xs"] by (cases "pf_Addr v6") (auto simp: pools_ok_def)
  define x4 where "x4 = [ascii ''velvet-fabric/link-prefix/v4/v1''] @ ordered_ids a b @ [be_bytes 4 attempt]"
  define x6 where "x6 = [ascii ''velvet-fabric/link-prefix/v6/v1''] @ ordered_ids a b @ [be_bytes 4 attempt]"
  show ?thesis
    using four[of x4] six[of x6] unfolding x4_def[symmetric] x6_def[symmetric] DeriveProposal_def Let_def
    by (cases "PF_IsValid v4"; cases "PF_IsValid v6") (auto simp: x4_def x6_def)
qed

section \<open>The two ends of a link\<close>

lemma masked_low_bits:
  assumes "mask_low k w = w" "n < k"
  shows "\<not> bit (w :: 'a::len word) n"
proof -
  have "bit w n = bit (mask_low k w) n" by (simp only: assms(1))
  with assms(2) show ?thesis by (simp add: mask_low_def bit_simps)
qed

lemma masked_add:
  fixes w :: "'a::len word"
  assumes "mask_low k w = w" "e < k" "k \<le> LENGTH('a)"
  shows "bit (w + 2 ^ e) n \<longleftrightarrow> bit w n \<or> n = e"
proof -
  have one: "bit ((2 :: 'a word) ^ e) n \<longleftrightarrow> n = e" for n
    using assms(2,3) by (auto simp: bit_exp_iff)
  have "w AND 2 ^ e = 0"
    by (rule bit_word_eqI) (use masked_low_bits[OF assms(1,2)] in \<open>auto simp: bit_and_iff one\<close>)
  then have "w + 2 ^ e = w OR 2 ^ e" by (rule disjunctive_add_eq_or)
  then show ?thesis by (simp only: bit_or_iff one)
qed

lemma masked_hosts:
  fixes w :: "'a::len word"
  assumes "mask_low k w = w" "2 \<le> k" "k \<le> LENGTH('a)"
  shows "drop_bit k (w + 1) = drop_bit k w" "drop_bit k (w + 2) = drop_bit k w"
    "w + 1 \<noteq> 0" "w + 2 \<noteq> 0" "w + 1 \<noteq> w" "w + 2 \<noteq> w" "w + 1 \<noteq> w + 2"
proof -
  have one: "bit (w + 1) n \<longleftrightarrow> bit w n \<or> n = 0" for n
    using masked_add[OF assms(1) _ assms(3), of 0 n] assms(2) by simp
  have two: "bit (w + 2) n \<longleftrightarrow> bit w n \<or> n = 1" for n
    using masked_add[OF assms(1) _ assms(3), of 1 n] assms(2) by simp
  have low: "\<not> bit w 0" "\<not> bit w 1"
    using masked_low_bits[OF assms(1)] assms(2) by auto
  show "drop_bit k (w + 1) = drop_bit k w" "drop_bit k (w + 2) = drop_bit k w"
    by (rule bit_word_eqI, use one two assms(2) in \<open>simp add: bit_drop_bit_eq\<close>)+
  show "w + 1 \<noteq> 0" "w + 2 \<noteq> 0" using one[of 0] two[of 1] by force+
  show "w + 1 \<noteq> w" "w + 2 \<noteq> w" using one[of 0] two[of 1] low by metis+
  show "w + 1 \<noteq> w + 2" using one[of 1] two[of 1] low by (metis zero_neq_one)
qed

text \<open>A prefix a link can be numbered from: masked, with room for two hosts.\<close>

definition link_prefix_ok :: "prefix \<Rightarrow> bool" where
  "link_prefix_ok p = (pool_ok p \<and> Masked p = p \<and> pf_Bits p + 2 \<le> BitLen (pf_Addr p))"

lemma split_prefix_inside:
  assumes "link_prefix_ok p" "split_prefix lower p = (l, r)"
  shows "PF_IsValid l \<and> pf_Bits l = pf_Bits p \<and> Contains p (pf_Addr l) \<and> Contains p r
    \<and> pf_Addr l \<noteq> r \<and> pf_Addr l \<noteq> pf_Addr p \<and> r \<noteq> pf_Addr p"
proof (cases p)
  case (Prefix a b)
  show ?thesis
  proof (cases a)
    case NoAddr
    with Prefix assms show ?thesis by (simp add: link_prefix_ok_def pool_ok_def)
  next
    case (Addr4 w)
    with Prefix assms(1) have b: "0 \<le> b" "b \<le> 30" and m: "mask_low (32 - nat b) w = w"
      by (auto simp: link_prefix_ok_def pool_ok_def PF_IsValid_def PrefixFrom_def split: if_splits)
    note h = masked_hosts[OF m]
    have k: "2 \<le> 32 - nat b" "32 - nat b \<le> LENGTH(32)" using b by auto
    show ?thesis using assms(2) Prefix Addr4 b h[OF k]
      by (cases lower) (auto simp: split_prefix_def Let_def PrefixFrom_def PF_IsValid_def drop_bit_xor_zero_iff add.assoc)
  next
    case (Addr6 w z)
    with Prefix assms(1) have b: "0 \<le> b" "b \<le> 126" and m: "mask_low (128 - nat b) w = w" and z: "z = []"
      by (auto simp: link_prefix_ok_def pool_ok_def PF_IsValid_def PrefixFrom_def split: if_splits)
    note h = masked_hosts[OF m]
    have k: "2 \<le> 128 - nat b" "128 - nat b \<le> LENGTH(128)" using b by auto
    show ?thesis using assms(2) Prefix Addr6 b z h[OF k]
      by (cases lower) (auto simp: split_prefix_def Let_def PrefixFrom_def PF_IsValid_def drop_bit_xor_zero_iff add.assoc)
  qed
qed

lemma split_prefix_mirror:
  assumes "\<not> hasZone (pf_Addr p)"
  shows "pf_Addr (fst (split_prefix lower p)) = snd (split_prefix (\<not> lower) p)"
proof -
  have "withoutZone (NextAddr a) = NextAddr a" if "\<not> hasZone a" for a
    using that by (cases a) auto
  moreover have "\<not> hasZone (NextAddr a)" if "\<not> hasZone a" for a
    using that by (cases a) auto
  ultimately show ?thesis using assms by (simp add: split_prefix_def Let_def)
qed

lemma EndpointAddresses_mirror:
  assumes "a \<noteq> b" "\<not> hasZone (pf_Addr (p_V4 p))" "\<not> hasZone (pf_Addr (p_V6 p))"
  shows "map pf_Addr (fst (EndpointAddresses p a b)) = snd (EndpointAddresses p b a)"
proof -
  have "bytes_Compare (be_bytes 16 a) (be_bytes 16 b) \<noteq> 0"
    using assms(1) be_bytes_inj[of 16 a b] by simp
  then have "(bytes_Compare (be_bytes 16 b) (be_bytes 16 a) < 0) = (\<not> bytes_Compare (be_bytes 16 a) (be_bytes 16 b) < 0)"
    using bytes_Compare_antisym[of "be_bytes 16 a" "be_bytes 16 b"] by linarith
  with assms(2,3) show ?thesis by (simp add: EndpointAddresses_def Let_def split_prefix_mirror)
qed

lemma link_prefix_no_zone: "link_prefix_ok p \<Longrightarrow> \<not> hasZone (pf_Addr p)"
  by (cases p; cases "pf_Addr p") (auto simp: link_prefix_ok_def pool_ok_def PrefixFrom_def split: if_splits)

section \<open>Link-local addresses and overrides\<close>

lemma list_update_8: "(a0 # a1 # a2 # a3 # a4 # a5 # a6 # a7 # b # bs)[8 := x] = a0 # a1 # a2 # a3 # a4 # a5 # a6 # a7 # x # bs"
  by (simp add: numeral_eq_Suc)

lemma DeriveLinkLocal_raw:
  "\<exists>raw. DeriveLinkLocal mac psk uid name = PrefixFrom (AddrFrom16 raw) 64 \<and> length raw = 16
    \<and> take 8 raw = [0xfe, 0x80, 0, 0, 0, 0, 0, 0] \<and> \<not> bit (raw ! 8) 0 \<and> \<not> list_all (\<lambda>v. v = 0) (drop 8 raw)"
proof -
  define e where "e = digest mac psk [ascii ''velvet-fabric/link-local/v1'', be_bytes 16 uid, name]"
  define h :: bytes where "h = [0xfe, 0x80, 0, 0, 0, 0, 0, 0]"
  define r1 where "r1 = (h @ take 8 e)[8 := (h @ take 8 e) ! 8 AND NOT 1]"
  define r2 where "r2 = (if list_all (\<lambda>v. v = 0) (drop 8 r1) then r1[15 := 1] else r1)"
  have "length e = 32" by (simp add: e_def)
  then have l: "length r1 = 16" "length r2 = 16" "take 8 r1 = h" "length h = 8"
    by (simp_all add: r1_def r2_def h_def)
  have "take 8 r2 = h" using l by (simp add: r2_def)
  moreover have "\<not> bit (r1 ! 8) 0" using l by (simp add: r1_def h_def bit_simps)
  then have "\<not> bit (r2 ! 8) 0" using l by (simp add: r2_def)
  moreover have "\<not> list_all (\<lambda>v. v = 0) (drop 8 r2)"
  proof -
    have "drop 8 (r1[15 := 1]) ! 7 = 1" "7 < length (drop 8 (r1[15 := 1]))" using l by simp_all
    then have "\<not> list_all (\<lambda>v. v = 0) (drop 8 (r1[15 := 1]))"
      unfolding list_all_length by (metis zero_neq_one)
    then show ?thesis by (simp add: r2_def)
  qed
  moreover have "DeriveLinkLocal mac psk uid name = PrefixFrom (AddrFrom16 r2) 64"
    unfolding DeriveLinkLocal_def Let_def r2_def r1_def h_def e_def ..
  ultimately show ?thesis using l(2) unfolding h_def by blast
qed

lemma apply_overrides_matches:
  assumes "apply_overrides parse raws p = Inr q"
    and "distinct (map (\<lambda>raw. Is4 (pf_Addr (the (parse raw)))) raws)"
    and "\<And>raw pf. parse raw = Some pf \<Longrightarrow> IsValid (pf_Addr pf)"
  shows "MatchesOverrides parse q raws
    \<and> (True \<notin> (\<lambda>raw. Is4 (pf_Addr (the (parse raw)))) ` set raws \<longrightarrow> p_V4 q = p_V4 p)
    \<and> (False \<notin> (\<lambda>raw. Is4 (pf_Addr (the (parse raw)))) ` set raws \<longrightarrow> p_V6 q = p_V6 p)"
  using assms(1,2)
proof (induction raws arbitrary: p)
  case (Cons raw raws)
  obtain pf where pf: "parse raw = Some pf" using Cons.prems(1) by (auto split: option.splits)
  have "IsValid (pf_Addr pf)" using assms(3) pf .
  then have six: "Is6 (pf_Addr pf) = (\<not> Is4 (pf_Addr pf))" by (cases "pf_Addr pf") auto
  show ?case
  proof (cases "Is4 (pf_Addr pf)")
    case True
    with Cons.prems pf Cons.IH[of "p\<lparr>p_V4 := Masked pf\<rparr>"] six show ?thesis
      by (auto simp: MatchesOverrides_def)
  next
    case False
    with Cons.prems pf Cons.IH[of "p\<lparr>p_V6 := Masked pf\<rparr>"] six show ?thesis
      by (auto simp: MatchesOverrides_def)
  qed
qed (simp add: MatchesOverrides_def)

lemma be_word_append:
  "be_word (as @ bs) = push_bit (8 * length bs) (be_word as) OR (be_word bs :: 'a::len word)"
  by (induction as) (simp_all add: push_bit_or push_bit_push_bit or.assoc distrib_left ac_simps)

lemma be_word_split:
  assumes "8 * length (as @ bs) \<le> LENGTH('a)"
  shows "drop_bit (8 * length bs) (be_word (as @ bs) :: 'a::len word) = be_word as"
    and "take_bit (8 * length bs) (be_word (as @ bs) :: 'a::len word) = be_word bs"
proof -
  have high: "\<not> bit (be_word bs :: 'a word) (8 * length bs + n)" for n
    using be_word_bit_bound[of bs "8 * length bs + n", where 'a = 'a] by auto
  have fits: "bit (be_word as :: 'a word) n \<Longrightarrow> 8 * length bs + n < LENGTH('a)" for n
    using be_word_bit_bound[of as n, where 'a = 'a] assms by auto
  show "drop_bit (8 * length bs) (be_word (as @ bs) :: 'a::len word) = be_word as"
    by (rule bit_word_eqI) (use high fits in \<open>auto simp: be_word_append bit_drop_bit_eq bit_or_iff bit_push_bit_iff\<close>)
  show "take_bit (8 * length bs) (be_word (as @ bs) :: 'a::len word) = be_word bs"
    by (rule bit_word_eqI) (auto simp: be_word_append bit_simps dest: be_word_bit_bound)
qed

lemma be_word_eq_0: "8 * length bs \<le> LENGTH('a) \<Longrightarrow> be_word bs = (0 :: 'a::len word) \<Longrightarrow> list_all (\<lambda>v. v = 0) bs"
proof -
  assume len: "8 * length bs \<le> LENGTH('a)" and zero: "be_word bs = (0 :: 'a word)"
  have "be_bytes k (0 :: 'a word) = replicate k 0" for k by (induction k) auto
  then obtain n where "bs = replicate n 0" using be_bytes_be_word_length[OF len] zero by metis
  then show ?thesis by (simp add: list_all_iff)
qed

lemma DeriveLinkLocal_shape:
  "\<exists>w. DeriveLinkLocal mac psk uid name = Prefix (Addr6 w []) 64
    \<and> drop_bit 64 w = 0xfe80000000000000 \<and> take_bit 64 w \<noteq> 0 \<and> \<not> bit w 56"
proof -
  from DeriveLinkLocal_raw[of mac psk uid name] obtain raw where
    raw: "DeriveLinkLocal mac psk uid name = PrefixFrom (AddrFrom16 raw) 64" "length raw = 16"
      "take 8 raw = [0xfe, 0x80, 0, 0, 0, 0, 0, 0]" "\<not> bit (raw ! 8) 0" "\<not> list_all (\<lambda>v. v = 0) (drop 8 raw)"
    by blast
  define w :: array16 where "w = be_word raw"
  have "drop_bit 64 w = be_word (take 8 raw)" "take_bit 64 w = be_word (drop 8 raw)"
    using be_word_split[of "take 8 raw" "drop 8 raw", where 'a = 128] raw(2) by (simp_all add: w_def)
  moreover have "be_word (take 8 raw) = (0xfe80000000000000 :: array16)"
    unfolding raw(3) by code_simp
  moreover have "be_word (drop 8 raw) \<noteq> (0 :: array16)"
    using be_word_eq_0[of "drop 8 raw", where 'a = 128] raw(2,5) by auto
  moreover have "\<not> bit w 56"
    using bit_be_word[of raw 71, where 'a = 128] raw(2,4) by (simp add: w_def bit_at_def)
  moreover have "DeriveLinkLocal mac psk uid name = Prefix (Addr6 w []) 64"
    using raw(1) by (simp add: w_def PrefixFrom_def AddrFrom16_def)
  ultimately show ?thesis by auto
qed

section \<open>Properties\<close>

definition sample_pool4 :: prefix where "sample_pool4 = Prefix (Addr4 0x0A000000) 8"
definition sample_pool6 :: prefix where "sample_pool6 = Prefix (Addr6 0xfd000000000000000000000000000000 []) 64"

lemma sample_pools_ok: "pools_ok sample_pool4 sample_pool6"
  by code_simp

text \<open>
  For pools that leave room for a link prefix the derivation succeeds, and each derived prefix
  is a masked /30 or /126 whose address lies in its pool.
\<close>
lemma proposal_in_pools:
  assumes "pools_ok v4Pool v6Pool"
  shows "\<exists>p. DeriveProposal mac parse fabricPSK local remote v4Pool v6Pool [] attempt = Inr p
    \<and> (if PF_IsValid v4Pool
       then pf_Bits (p_V4 p) = 30 \<and> Masked (p_V4 p) = p_V4 p \<and> Contains v4Pool (pf_Addr (p_V4 p))
       else p_V4 p = NoPrefix)
    \<and> (if PF_IsValid v6Pool
       then pf_Bits (p_V6 p) = 126 \<and> Masked (p_V6 p) = p_V6 p \<and> Contains v6Pool (pf_Addr (p_V6 p))
       else p_V6 p = NoPrefix)"
  using assms by (rule DeriveProposal_in_pools)


text \<open>
  Both ends of a link derive the same prefixes and the same WireGuard preshared key: the
  derivation does not depend on which end is called local.
\<close>
lemma derivation_symmetric:
  "DeriveProposal mac parse fabricPSK a b v4Pool v6Pool overrides attempt
     = DeriveProposal mac parse fabricPSK b a v4Pool v6Pool overrides attempt
   \<and> deriveWGLinkPSK hkdf fabricPSK ka kb = deriveWGLinkPSK hkdf fabricPSK kb ka"
  using DeriveProposal_sym deriveWGLinkPSK_sym by blast



text \<open>
  The control address of an interface is in fe80::/64, its interface identifier is not zero
  and has the group bit clear, whatever the keyed hash returns.
\<close>
lemma link_local_shape:
  "\<exists>w. DeriveLinkLocal mac fabricPSK uid interfaceName = Prefix (Addr6 w []) 64
    \<and> drop_bit 64 w = 0xfe80000000000000 \<and> take_bit 64 w \<noteq> 0 \<and> \<not> bit w 56"
  by (rule DeriveLinkLocal_shape)

text \<open>
  A proposal derived with overrides, at most one per address family, satisfies the override
  check that the accepting end applies to it.
\<close>
lemma derived_matches_overrides:
  assumes "DeriveProposal mac parse fabricPSK local remote v4Pool v6Pool overrides attempt = Inr p"
    and "distinct (map (\<lambda>raw. Is4 (pf_Addr (the (parse raw)))) overrides)"
    and "\<And>raw pf. parse raw = Some pf \<Longrightarrow> IsValid (pf_Addr pf)"
  shows "MatchesOverrides parse p overrides"
  using assms(1) apply_overrides_matches[OF _ assms(2,3)] by (auto simp: DeriveProposal_def Let_def)

end
