(* ===== verification/Engine.thy ===== *)
theory Engine
  imports Message_Properties Link_Derive
begin

text \<open>
  The session engine, \<^verbatim>\<open>internal/vfp/engine/engine.go\<close>: the state machine of one VFP TCP
  session, the negotiation of a static link, and the event loop around them.  The loop is a
  function from a state and one event to the effects it performs and the next state; an engine
  run is a fold over the events.  The keyed hash and the parser of overrides are parameters, as
  in \<open>Link_Derive\<close>; the callbacks of the configuration are functions that may fail.
\<close>

section \<open>Configuration and state\<close>

datatype SessionContext = LinkBoundSession | RoutedSession

record Result =
  res_RemoteUID :: UID
  res_RemoteLoopbackV6 :: addr
  res_Proposal :: Proposal

record Config =
  Initiator :: bool
  FirstMessage :: "Message option"
  Context :: SessionContext
  LocalUID :: UID
  LocalLoopbackV6 :: addr
  ExpectedRemoteLoopbackV6 :: addr
  LinkPoolV4 :: prefix
  LinkPoolV6 :: prefix
  LoopbackPoolV6 :: prefix
  FabricPSK :: bytes
  LinkOverrides :: "string list"
  AcceptProposal :: "(UID \<Rightarrow> Proposal \<Rightarrow> bool) option"
  CommitResult :: "(Result \<Rightarrow> error option) option"
  Operational :: "(UID \<Rightarrow> addr \<Rightarrow> error option) option"
  OperationalMessage :: "(Message \<Rightarrow> error option) option"
  mac_of :: mac
  parse_of :: "string \<Rightarrow> prefix option"

datatype disposition = closeConnection | discardFrame

type_synonym proposal_key = "prefix \<times> prefix"

record staticLinkFSM =
  l_remoteUID :: UID
  l_remoteV6 :: addr
  waitingForRemoteProposal :: bool
  waitingForResponse :: bool
  outstanding :: Proposal
  attempt :: u32
  seen :: "proposal_key list"
  pendingCommit :: "Result option"
  established :: bool

record sessionFSM =
  opened :: bool
  stateReceived :: bool
  remoteUID :: UID
  remoteV6 :: addr
  link :: "staticLinkFSM option"
  operational :: bool

definition NoUID :: UID where "NoUID = \<lparr>UUID = 0, Name = []\<rparr>"

definition new_session :: sessionFSM where
  "new_session = \<lparr>opened = False, stateReceived = False, remoteUID = NoUID, remoteV6 = NoAddr,
     link = None, operational = False\<rparr>"

definition new_link :: "UID \<Rightarrow> addr \<Rightarrow> staticLinkFSM" where
  "new_link uid v6 = \<lparr>l_remoteUID = uid, l_remoteV6 = v6, waitingForRemoteProposal = False,
     waitingForResponse = False, outstanding = NoProposal, attempt = 0, seen = [],
     pendingCommit = None, established = False\<rparr>"

text \<open>The three results of a handler: the reply, what to do on an error, and the error.\<close>

type_synonym reply = "Message option \<times> disposition \<times> error option"

abbreviation reject :: "disposition \<Rightarrow> string \<Rightarrow> reply" where
  "reject d s \<equiv> (None, d, Some (ErrNew s))"

section \<open>Helpers\<close>

definition validOperationalMessage :: "SessionContext \<Rightarrow> byte \<Rightarrow> bool" where
  "validOperationalMessage context kind =
    (if context = RoutedSession
     then kind = DynamicLinkPropose \<or> kind = DynamicLinkAccept \<or> kind = DynamicLinkDecline
       \<or> kind = DiscoveryControl \<or> kind = DurableCheck \<or> kind = DurableStatus
     else kind = DurablePropose \<or> kind = DurableSaved \<or> kind = DurableDecline)"

definition proposalMessage :: "Proposal \<Rightarrow> Message" where
  "proposalMessage p = (message_of LinkPropose)\<lparr>m_LinkPrefixV4 := p_V4 p, m_LinkPrefixV6 := p_V6 p\<rparr>"

text \<open>Every invalid prefix prints as the same text, so that keys are compared up to validity.\<close>

definition prefix_text :: "prefix \<Rightarrow> prefix" where
  "prefix_text p = (if PF_IsValid p then p else NoPrefix)"

definition proposalKey :: "Proposal \<Rightarrow> proposal_key" where
  "proposalKey p = (prefix_text (p_V4 p), prefix_text (p_V6 p))"

definition withinAddress :: "addr \<Rightarrow> prefix \<Rightarrow> bool" where
  "withinAddress a pool = (\<not> IsValid a \<or> Contains pool a)"

definition withinPrefix :: "prefix \<Rightarrow> prefix \<Rightarrow> bool" where
  "withinPrefix p pool = (\<not> PF_IsValid p \<or> (pf_Bits pool \<le> pf_Bits p \<and> Contains pool (pf_Addr p)))"

definition acceptable :: "Config \<Rightarrow> UID \<Rightarrow> Proposal \<Rightarrow> bool" where
  "acceptable cfg uid p = (case AcceptProposal cfg of None \<Rightarrow> True | Some f \<Rightarrow> f uid p)"

section \<open>Static link negotiation\<close>

abbreviation maxCounterproposals :: u32 where "maxCounterproposals \<equiv> 64"

definition derive :: "Config \<Rightarrow> UID \<Rightarrow> u32 \<Rightarrow> Proposal result" where
  "derive cfg uid n =
    DeriveProposal (mac_of cfg) (parse_of cfg) (FabricPSK cfg) (UUID (LocalUID cfg)) (UUID uid)
      (LinkPoolV4 cfg) (LinkPoolV6 cfg) (LinkOverrides cfg) n"

function nextProposal :: "Config \<Rightarrow> staticLinkFSM \<Rightarrow> staticLinkFSM \<times> Proposal result" where
  "nextProposal cfg s =
    (if attempt s < maxCounterproposals then
       (let proposal = derive cfg (l_remoteUID s) (attempt s); s = s\<lparr>attempt := attempt s + 1\<rparr> in
        case proposal of
          Inl e \<Rightarrow> (s, Inl e)
        | Inr proposal \<Rightarrow>
          let key = proposalKey proposal in
          if key \<in> set (seen s) then nextProposal cfg s
          else if \<not> acceptable cfg (l_remoteUID s) proposal then nextProposal cfg s
          else (s\<lparr>seen := key # seen s\<rparr>, Inr proposal))
     else (s, Inl (ErrNew ''no acceptable counterproposal available'')))"
  by pat_completeness auto
termination
proof (relation "measure (\<lambda>(cfg, s). 64 - unat (attempt s))", goal_cases)
  case 1
  show ?case by simp
next
  case (2 cfg s p s' q k)
  then have "unat (attempt s + 1) = unat (attempt s) + 1" "unat (attempt s) < 64"
    by (simp_all add: word_less_nat_alt unat_word_ariths)
  with 2 show ?case by simp
next
  case (3 cfg s p s' q k)
  then have "unat (attempt s + 1) = unat (attempt s) + 1" "unat (attempt s) < 64"
    by (simp_all add: word_less_nat_alt unat_word_ariths)
  with 3 show ?case by simp
qed

declare nextProposal.simps [simp del]

definition link_result :: "staticLinkFSM \<Rightarrow> Proposal \<Rightarrow> Result" where
  "link_result s p = \<lparr>res_RemoteUID = l_remoteUID s, res_RemoteLoopbackV6 = l_remoteV6 s, res_Proposal = p\<rparr>"

definition start :: "Config \<Rightarrow> staticLinkFSM \<Rightarrow> staticLinkFSM \<times> reply" where
  "start cfg s =
    (if Initiator cfg then
       (case nextProposal cfg s of
          (s, Inl e) \<Rightarrow> (s, None, closeConnection, Some e)
        | (s, Inr proposal) \<Rightarrow>
          (s\<lparr>outstanding := proposal, waitingForResponse := True\<rparr>,
           Some (proposalMessage proposal), discardFrame, None))
     else (s\<lparr>waitingForRemoteProposal := True\<rparr>, None, discardFrame, None))"

definition handleProposal :: "Config \<Rightarrow> staticLinkFSM \<Rightarrow> Message \<Rightarrow> staticLinkFSM \<times> reply" where
  "handleProposal cfg s m =
    (let proposal = \<lparr>p_V4 = m_LinkPrefixV4 m, p_V6 = m_LinkPrefixV6 m\<rparr> in
     if \<not> withinPrefix (p_V4 proposal) (LinkPoolV4 cfg) \<or> \<not> withinPrefix (p_V6 proposal) (LinkPoolV6 cfg)
     then (s, reject discardFrame ''proposed Link prefix is outside Fabric prefix'')
     else
       let key = proposalKey proposal in
       if key \<in> set (seen s) then (s, reject closeConnection ''peer repeated a Link proposal'')
       else
         let s = s\<lparr>seen := key # seen s\<rparr> in
         if acceptable cfg (l_remoteUID s) proposal then
           (s\<lparr>pendingCommit := Some (link_result s proposal),
              waitingForRemoteProposal := False, waitingForResponse := False\<rparr>,
            Some (message_of LinkAccept), discardFrame, None)
         else
           (case nextProposal cfg s of
              (s, Inl e) \<Rightarrow> (s, None, closeConnection, Some e)
            | (s, Inr counter) \<Rightarrow>
              if proposalKey counter = key
              then (s, reject closeConnection ''no distinct counterproposal available'')
              else (s\<lparr>outstanding := counter, waitingForRemoteProposal := False, waitingForResponse := True\<rparr>,
                    Some (proposalMessage counter), discardFrame, None)))"

definition link_handle :: "Config \<Rightarrow> staticLinkFSM \<Rightarrow> Message \<Rightarrow> staticLinkFSM \<times> reply" where
  "link_handle cfg s m =
    (if waitingForRemoteProposal s then
       (if m_Type m \<noteq> LinkPropose then (s, reject discardFrame ''expected LINK_PROPOSE'')
        else handleProposal cfg s m)
     else if waitingForResponse s then
       (if m_Type m = LinkAccept then
          (s\<lparr>pendingCommit := Some (link_result s (outstanding s)), waitingForResponse := False\<rparr>,
           None, discardFrame, None)
        else if m_Type m = LinkPropose then handleProposal cfg s m
        else (s, reject discardFrame ''expected LINK_ACCEPT or counterproposal''))
     else (s, reject discardFrame ''link FSM has no active transition''))"

section \<open>Session\<close>

definition handleOpen :: "Config \<Rightarrow> sessionFSM \<Rightarrow> Message \<Rightarrow> sessionFSM \<times> reply" where
  "handleOpen cfg s m =
    (case m_UID m of
       None \<Rightarrow> (s, reject closeConnection ''first message is not a valid OPEN'')
     | Some uid \<Rightarrow>
       if m_Type m \<noteq> Open then (s, reject closeConnection ''first message is not a valid OPEN'')
       else if UUID uid = UUID (LocalUID cfg)
       then (s, reject closeConnection ''remote Node UUID equals local UUID'')
       else (s\<lparr>remoteUID := uid, opened := True\<rparr>,
             Some ((message_of NodeState)\<lparr>m_LoopbackV6 := LocalLoopbackV6 cfg\<rparr>), discardFrame, None))"

definition handleNodeState :: "Config \<Rightarrow> sessionFSM \<Rightarrow> Message \<Rightarrow> sessionFSM \<times> reply" where
  "handleNodeState cfg s m =
    (if m_Type m \<noteq> NodeState then (s, reject discardFrame ''expected NODE_STATE'')
     else if \<not> withinAddress (m_LoopbackV6 m) (LoopbackPoolV6 cfg)
     then (s, reject discardFrame ''remote loopback is outside Fabric prefix'')
     else
       let s = s\<lparr>stateReceived := True, remoteV6 := m_LoopbackV6 m\<rparr> in
       if Context cfg = RoutedSession then
         (if IsValid (ExpectedRemoteLoopbackV6 cfg) \<and> m_LoopbackV6 m \<noteq> ExpectedRemoteLoopbackV6 cfg
          then (s, reject closeConnection ''remote loopback does not match routed session target'')
          else (s\<lparr>operational := True\<rparr>, None, discardFrame, None))
       else
         (case (if Initiator cfg then FirstMessage cfg else None) of
            Some first \<Rightarrow>
              if m_Type first \<noteq> DurablePropose
              then (s, reject closeConnection ''invalid initial Link business message'')
              else (s\<lparr>operational := True\<rparr>, Some first, discardFrame, None)
          | None \<Rightarrow>
              (case start cfg (new_link (remoteUID s) (m_LoopbackV6 m)) of
                 (l, r) \<Rightarrow> (s\<lparr>link := Some l\<rparr>, r))))"

definition handle :: "Config \<Rightarrow> sessionFSM \<Rightarrow> Message \<Rightarrow> sessionFSM \<times> reply" where
  "handle cfg s m =
    (if \<not> opened s then handleOpen cfg s m
     else if \<not> stateReceived s then handleNodeState cfg s m
     else
       (case link s of
          None \<Rightarrow> (s, None, closeConnection, Some (Panic ''nil pointer dereference''))
        | Some l \<Rightarrow>
          if \<not> Initiator cfg \<and> waitingForRemoteProposal l \<and> m_Type m = DurablePropose
          then (s\<lparr>link := None, operational := True\<rparr>, None, discardFrame, None)
          else (case link_handle cfg l m of (l, r) \<Rightarrow> (s\<lparr>link := Some l\<rparr>, r))))"

definition takeCommit :: "sessionFSM \<Rightarrow> sessionFSM \<times> Result option" where
  "takeCommit s =
    (case link s of
       None \<Rightarrow> (s, None)
     | Some l \<Rightarrow> (s\<lparr>link := Some (l\<lparr>pendingCommit := None\<rparr>)\<rparr>, pendingCommit l))"

definition markEstablished :: "sessionFSM \<Rightarrow> sessionFSM" where
  "markEstablished s =
    s\<lparr>link := map_option (\<lambda>l. l\<lparr>established := True\<rparr>) (link s), operational := True\<rparr>"

section \<open>The event loop\<close>

datatype event =
    ReadMessage Message
  | ReadInvalid error
  | ReadFailed error
  | Deadline
  | Cancelled

datatype effect =
    Sent Message
  | Committed Result
  | FrameError error
  | EnteredOperational UID addr
  | OperationalInput Message

record run =
  fsm :: sessionFSM
  operationalNotified :: bool

datatype outcome = Continue run | Return "error option"

definition new_run :: run where
  "new_run = \<lparr>fsm = new_session, operationalNotified = False\<rparr>"

text \<open>
  What follows the handler: the operational callbacks and the loop's exits.  \<open>send\<close> is the
  connection: it reports an error or none for the message it is given.
\<close>

definition call1 :: "('a \<Rightarrow> error option) option \<Rightarrow> 'a \<Rightarrow> error option" where
  "call1 f x = (case f of None \<Rightarrow> None | Some g \<Rightarrow> g x)"

definition enter_operational :: "Config \<Rightarrow> run \<Rightarrow> Message \<Rightarrow> effect list \<times> outcome" where
  "enter_operational cfg r m =
    (let s = fsm r in
     if operational s \<and> Context cfg = LinkBoundSession
       \<and> (case link s of None \<Rightarrow> False | Some l \<Rightarrow> established l)
     then ([], Return None)
     else if operational s \<and> \<not> operationalNotified r then
       let r = r\<lparr>operationalNotified := True\<rparr>;
           entered = EnteredOperational (remoteUID s) (remoteV6 s) in
       (case (case Operational cfg of None \<Rightarrow> None | Some g \<Rightarrow> g (remoteUID s) (remoteV6 s)) of
          Some e \<Rightarrow> ([entered], Return (Some e))
        | None \<Rightarrow>
          if m_Type m = DurablePropose \<and> OperationalMessage cfg \<noteq> None then
            (case call1 (OperationalMessage cfg) m of
               Some e \<Rightarrow> ([entered, OperationalInput m], Return (Some e))
             | None \<Rightarrow> ([entered, OperationalInput m], Continue r))
          else ([entered], Continue r))
     else ([], Continue r))"

definition send_reply ::
  "Config \<Rightarrow> (Message \<Rightarrow> error option) \<Rightarrow> run \<Rightarrow> Message \<Rightarrow> Message option \<Rightarrow> effect list \<times> outcome" where
  "send_reply cfg send r m outbound =
    (case outbound of
       None \<Rightarrow> enter_operational cfg r m
     | Some out \<Rightarrow>
       (case send out of
          Some e \<Rightarrow> ([], Return (Some e))
        | None \<Rightarrow> (case enter_operational cfg r m of (effs, res) \<Rightarrow> (Sent out # effs, res))))"

definition read_message ::
  "Config \<Rightarrow> (Message \<Rightarrow> error option) \<Rightarrow> run \<Rightarrow> Message \<Rightarrow> effect list \<times> outcome" where
  "read_message cfg send r m =
    (if operational (fsm r) then
       (if \<not> validOperationalMessage (Context cfg) (m_Type m)
        then ([FrameError (ErrNew ''message is invalid in operational session context'')], Continue r)
        else
          (case OperationalMessage cfg of
             None \<Rightarrow> ([], Continue r)
           | Some g \<Rightarrow>
             (case g m of
                Some e \<Rightarrow> ([OperationalInput m], Return (Some e))
              | None \<Rightarrow> ([OperationalInput m], Continue r))))
     else
       (case handle cfg (fsm r) m of
          (s, outbound, disp, Some e) \<Rightarrow>
            if disp = discardFrame then ([FrameError e], Continue (r\<lparr>fsm := s\<rparr>))
            else ([], Return (Some e))
        | (s, outbound, disp, None) \<Rightarrow>
          (case takeCommit s of
             (s, None) \<Rightarrow> send_reply cfg send (r\<lparr>fsm := s\<rparr>) m outbound
           | (s, Some result) \<Rightarrow>
             (case call1 (CommitResult cfg) result of
                Some e \<Rightarrow> ([], Return (Some e))
              | None \<Rightarrow>
                (case send_reply cfg send (r\<lparr>fsm := markEstablished s\<rparr>) m outbound of
                   (effs, res) \<Rightarrow> (Committed result # effs, res))))))"

definition run_event ::
  "Config \<Rightarrow> (Message \<Rightarrow> error option) \<Rightarrow> run \<Rightarrow> event \<Rightarrow> effect list \<times> outcome" where
  "run_event cfg send r ev =
    (case ev of
       Cancelled \<Rightarrow> ([], Return (Some (ErrNew ''context canceled'')))
     | Deadline \<Rightarrow>
       if operationalNotified r \<and> Context cfg = RoutedSession then ([], Continue r)
       else ([], Return (Some (ErrNew ''VFP establishment timed out'')))
     | ReadFailed e \<Rightarrow> ([], Return (Some e))
     | ReadInvalid e \<Rightarrow>
       if \<not> opened (fsm r) then ([], Return (Some e)) else ([FrameError e], Continue r)
     | ReadMessage m \<Rightarrow> read_message cfg send r m)"

text \<open>\<^verbatim>\<open>Run\<close>: the OPEN is sent first, then events are processed until the loop returns.\<close>

fun run_events ::
  "Config \<Rightarrow> (Message \<Rightarrow> error option) \<Rightarrow> run \<Rightarrow> event list \<Rightarrow> effect list \<times> outcome" where
  "run_events cfg send r [] = ([], Continue r)"
| "run_events cfg send r (ev # evs) =
    (case run_event cfg send r ev of
       (effs, Return e) \<Rightarrow> (effs, Return e)
     | (effs, Continue r') \<Rightarrow> (case run_events cfg send r' evs of (effs', res) \<Rightarrow> (effs @ effs', res)))"

definition open_message :: "Config \<Rightarrow> Message" where
  "open_message cfg = (message_of Open)\<lparr>m_UID := Some (LocalUID cfg)\<rparr>"

definition Run :: "Config \<Rightarrow> (Message \<Rightarrow> error option) \<Rightarrow> event list \<Rightarrow> effect list \<times> outcome" where
  "Run cfg send evs =
    (case send (open_message cfg) of
       Some e \<Rightarrow> ([], Return (Some e))
     | None \<Rightarrow> (case run_events cfg send new_run evs of (effs, res) \<Rightarrow> (Sent (open_message cfg) # effs, res)))"


section \<open>Invariants of one session\<close>

text \<open>A proposal of our own: acceptable here and one of the at most 64 derived candidates.\<close>

definition own_proposal :: "Config \<Rightarrow> UID \<Rightarrow> Proposal \<Rightarrow> bool" where
  "own_proposal cfg uid p = (acceptable cfg uid p \<and> (\<exists>n < 64. derive cfg uid n = Inr p))"

lemma attempt_step: "n < (64 :: u32) \<Longrightarrow> unat (n + 1) = unat n + 1 \<and> unat n < 64"
  by (simp add: word_less_nat_alt unat_word_ariths)

lemma nextProposal_facts:
  assumes "nextProposal cfg s = (s', res)" "unat (attempt s) \<le> 64"
  shows "(\<exists>n k. s' = s\<lparr>attempt := n, seen := k\<rparr> \<and> set (seen s) \<subseteq> set k \<and> unat (attempt s) \<le> unat n \<and> unat n \<le> 64
      \<and> (\<forall>p. res = Inr p \<longrightarrow> own_proposal cfg (l_remoteUID s) p \<and> proposalKey p \<notin> set (seen s)
          \<and> proposalKey p \<in> set k \<and> unat (attempt s) < unat n))"
  using assms
proof (induction cfg s rule: nextProposal.induct)
  case (1 cfg s)
  show ?case
  proof (cases "attempt s < 64")
    case False
    with "1.prems" show ?thesis
      by (intro exI[of _ "attempt s"] exI[of _ "seen s"]) (auto simp: nextProposal.simps[of cfg s])
  next
    case True
    note step = attempt_step[OF True]
    let ?s = "s\<lparr>attempt := attempt s + 1\<rparr>"
    show ?thesis
    proof (cases "derive cfg (l_remoteUID s) (attempt s)")
      case (Inl e)
      with "1.prems" True step show ?thesis
        by (intro exI[of _ "attempt s + 1"] exI[of _ "seen s"]) (auto simp: nextProposal.simps[of cfg s] Let_def)
    next
      case (Inr p)
      show ?thesis
      proof (cases "proposalKey p \<in> set (seen s) \<or> \<not> acceptable cfg (l_remoteUID s) p")
        case again: True
        with "1.prems" True Inr have rec: "nextProposal cfg ?s = (s', res)"
          by (auto simp: nextProposal.simps[of cfg s] Let_def split: if_splits)
        have "\<exists>n k. s' = ?s\<lparr>attempt := n, seen := k\<rparr> \<and> set (seen ?s) \<subseteq> set k
          \<and> unat (attempt ?s) \<le> unat n \<and> unat n \<le> 64
          \<and> (\<forall>p. res = Inr p \<longrightarrow> own_proposal cfg (l_remoteUID ?s) p \<and> proposalKey p \<notin> set (seen ?s)
              \<and> proposalKey p \<in> set k \<and> unat (attempt ?s) < unat n)"
        proof (cases "proposalKey p \<in> set (seen s)")
          case True
          with "1.IH"(1)[OF \<open>attempt s < 64\<close> refl refl Inr refl] rec step show ?thesis by simp
        next
          case False
          with "1.IH"(2)[OF \<open>attempt s < 64\<close> refl refl Inr refl] again rec step show ?thesis by simp
        qed
        then obtain n k where nk: "s' = ?s\<lparr>attempt := n, seen := k\<rparr>" "set (seen ?s) \<subseteq> set k"
          "unat (attempt ?s) \<le> unat n" "unat n \<le> 64"
          "\<forall>p. res = Inr p \<longrightarrow> own_proposal cfg (l_remoteUID ?s) p \<and> proposalKey p \<notin> set (seen ?s)
              \<and> proposalKey p \<in> set k \<and> unat (attempt ?s) < unat n" by blast
        with step show ?thesis by (intro exI[of _ n] exI[of _ k]) auto
      next
        case False
        with "1.prems" True Inr step show ?thesis
          by (intro exI[of _ "attempt s + 1"] exI[of _ "proposalKey p # seen s"])
            (auto simp: nextProposal.simps[of cfg s] Let_def own_proposal_def)
      qed
    qed
  qed
qed

text \<open>What holds of the link state between two events, and of a result handed to the commit.\<close>

definition link_ok :: "Config \<Rightarrow> staticLinkFSM \<Rightarrow> bool" where
  "link_ok cfg l = (unat (attempt l) \<le> 64 \<and> pendingCommit l = None \<and> \<not> established l
     \<and> (waitingForResponse l \<longrightarrow> own_proposal cfg (l_remoteUID l) (outstanding l)))"

definition result_ok :: "Config \<Rightarrow> Result \<Rightarrow> bool" where
  "result_ok cfg r = (acceptable cfg (res_RemoteUID r) (res_Proposal r)
     \<and> (own_proposal cfg (res_RemoteUID r) (res_Proposal r)
        \<or> withinPrefix (p_V4 (res_Proposal r)) (LinkPoolV4 cfg) \<and> withinPrefix (p_V6 (res_Proposal r)) (LinkPoolV6 cfg)))"

abbreviation message_proposal :: "Message \<Rightarrow> Proposal" where
  "message_proposal m \<equiv> \<lparr>p_V4 = m_LinkPrefixV4 m, p_V6 = m_LinkPrefixV6 m\<rparr>"

lemma message_proposal_of [simp]: "message_proposal (proposalMessage p) = p"
  by (simp add: proposalMessage_def)

lemma proposalMessage_type [simp]: "m_Type (proposalMessage p) = LinkPropose"
  by (simp add: proposalMessage_def)

text \<open>The four ways a link handler ends.\<close>

lemma handleProposal_cases:
  assumes "link_ok cfg l" "handleProposal cfg l m = (l', out, d, err)"
  obtains (discarded) "l' = l" "out = None" "d = discardFrame" "err \<noteq> None"
    | (closed) "d = closeConnection" "err \<noteq> None"
    | (accepted) k where "l' = l\<lparr>seen := k, pendingCommit := Some (link_result l (message_proposal m)),
          waitingForRemoteProposal := False, waitingForResponse := False\<rparr>"
        "out = Some (message_of LinkAccept)" "err = None" "acceptable cfg (l_remoteUID l) (message_proposal m)"
        "withinPrefix (m_LinkPrefixV4 m) (LinkPoolV4 cfg)" "withinPrefix (m_LinkPrefixV6 m) (LinkPoolV6 cfg)"
    | (countered) n k q where "l' = l\<lparr>seen := k, attempt := n, outstanding := q,
          waitingForRemoteProposal := False, waitingForResponse := True\<rparr>"
        "out = Some (proposalMessage q)" "err = None" "own_proposal cfg (l_remoteUID l) q"
        "unat (attempt l) < unat n" "unat n \<le> 64" "proposalKey q \<noteq> proposalKey (message_proposal m)"
proof (cases "withinPrefix (m_LinkPrefixV4 m) (LinkPoolV4 cfg) \<and> withinPrefix (m_LinkPrefixV6 m) (LinkPoolV6 cfg)")
  case False
  with assms show ?thesis by (intro discarded) (auto simp: handleProposal_def Let_def)
next
  case within: True
  let ?p = "message_proposal m" and ?l = "l\<lparr>seen := proposalKey (message_proposal m) # seen l\<rparr>"
  show ?thesis
  proof (cases "proposalKey ?p \<in> set (seen l)")
    case True
    with within assms show ?thesis by (intro closed) (auto simp: handleProposal_def Let_def)
  next
    case fresh: False
    show ?thesis
    proof (cases "acceptable cfg (l_remoteUID l) ?p")
      case True
      with within fresh assms show ?thesis
        by (intro accepted[of "proposalKey ?p # seen l"]) (auto simp: handleProposal_def Let_def link_result_def)
    next
      case False
      obtain s' res where np: "nextProposal cfg ?l = (s', res)" by fastforce
      have le: "unat (attempt ?l) \<le> 64" using assms(1) by (simp add: link_ok_def)
      from nextProposal_facts[OF np le] obtain n k where nk:
        "s' = ?l\<lparr>attempt := n, seen := k\<rparr>" "unat n \<le> 64"
        "\<forall>p. res = Inr p \<longrightarrow> own_proposal cfg (l_remoteUID l) p \<and> unat (attempt l) < unat n" by auto
      show ?thesis
      proof (cases res)
        case (Inl e)
        with within fresh False np assms(2) show ?thesis
          by (intro closed) (auto simp: handleProposal_def Let_def)
      next
        case (Inr q)
        show ?thesis
        proof (cases "proposalKey q = proposalKey ?p")
          case True
          with Inr within fresh False np assms(2) show ?thesis
            by (intro closed) (auto simp: handleProposal_def Let_def)
        next
          case key: False
          with Inr within fresh False np nk assms(2) show ?thesis
            by (intro countered[where n = n and k = k and q = q]) (auto simp: handleProposal_def Let_def)
        qed
      qed
    qed
  qed
qed

definition session_ok :: "Config \<Rightarrow> sessionFSM \<Rightarrow> bool" where
  "session_ok cfg s =
    ((opened s \<longrightarrow> UUID (remoteUID s) \<noteq> UUID (LocalUID cfg))
     \<and> (stateReceived s \<longrightarrow> opened s \<and> withinAddress (remoteV6 s) (LoopbackPoolV6 cfg))
     \<and> (operational s \<longrightarrow> stateReceived s)
     \<and> (\<not> operational s \<and> stateReceived s \<longrightarrow> link s \<noteq> None)
     \<and> (case link s of None \<Rightarrow> True
        | Some l \<Rightarrow> stateReceived s \<and> \<not> operational s \<and> Context cfg = LinkBoundSession
            \<and> link_ok cfg l \<and> l_remoteUID l = remoteUID s \<and> l_remoteV6 l = remoteV6 s))"

lemma new_session_ok: "session_ok cfg new_session"
  by (simp add: session_ok_def new_session_def)

lemma start_cases:
  assumes "start cfg (new_link uid v6) = (l, out, d, err)"
  obtains (closed) "Initiator cfg" "d = closeConnection" "err \<noteq> None"
    | (proposed) "Initiator cfg" "link_ok cfg l" "l_remoteUID l = uid" "l_remoteV6 l = v6" "waitingForResponse l"
        "out = Some (proposalMessage (outstanding l))" "err = None" "0 < unat (attempt l)"
    | (listening) "\<not> Initiator cfg" "link_ok cfg l" "l_remoteUID l = uid" "l_remoteV6 l = v6"
        "waitingForRemoteProposal l" "\<not> waitingForResponse l" "out = None" "err = None"
proof (cases "Initiator cfg")
  case False
  with assms show ?thesis by (intro listening) (auto simp: start_def new_link_def link_ok_def)
next
  case True
  obtain s' res where np: "nextProposal cfg (new_link uid v6) = (s', res)" by fastforce
  from nextProposal_facts[OF np] obtain n k where nk:
    "s' = (new_link uid v6)\<lparr>attempt := n, seen := k\<rparr>" "unat n \<le> 64"
    "\<forall>p. res = Inr p \<longrightarrow> own_proposal cfg uid p \<and> 0 < unat n" by (auto simp: new_link_def)
  show ?thesis
  proof (cases res)
    case (Inl e)
    with True np assms show ?thesis by (intro closed) (auto simp: start_def)
  next
    case (Inr p)
    with True np nk assms show ?thesis
      by (intro proposed) (auto simp: start_def new_link_def link_ok_def)
  qed
qed

text \<open>Every way a session handles one message before it is operational.\<close>

lemma handle_cases:
  assumes ok: "session_ok cfg s" "\<not> operational s" and h: "handle cfg s m = (s', out, d, err)"
  obtains (closed) "d = closeConnection" "err \<noteq> None"
    | (discarded) "s' = s" "out = None" "d = discardFrame" "err \<noteq> None"
    | (introduced) uid where "\<not> opened s" "link s = None" "m_Type m = Open" "m_UID m = Some uid"
        "UUID uid \<noteq> UUID (LocalUID cfg)" "s' = s\<lparr>remoteUID := uid, opened := True\<rparr>"
        "out = Some ((message_of NodeState)\<lparr>m_LoopbackV6 := LocalLoopbackV6 cfg\<rparr>)" "err = None"
    | (operating) "link s = None" "m_Type m = NodeState" "opened s"
        "withinAddress (m_LoopbackV6 m) (LoopbackPoolV6 cfg)"
        "s' = s\<lparr>stateReceived := True, remoteV6 := m_LoopbackV6 m, operational := True\<rparr>"
        "out = None \<and> Context cfg = RoutedSession \<or> Initiator cfg \<and> FirstMessage cfg \<noteq> None \<and> out = FirstMessage cfg" "err = None"
    | (durable) l where "link s = Some l" "m_Type m = DurablePropose" "\<not> Initiator cfg" "waitingForRemoteProposal l"
        "s' = s\<lparr>link := None, operational := True\<rparr>" "out = None" "err = None"
    | (starting) l where "link s = None" "m_Type m = NodeState" "opened s" "Initiator cfg" "Context cfg = LinkBoundSession"
        "withinAddress (m_LoopbackV6 m) (LoopbackPoolV6 cfg)" "link_ok cfg l" "waitingForResponse l"
        "l_remoteUID l = remoteUID s" "l_remoteV6 l = m_LoopbackV6 m"
        "s' = s\<lparr>stateReceived := True, remoteV6 := m_LoopbackV6 m, link := Some l\<rparr>"
        "out = Some (proposalMessage (outstanding l))" "err = None" "0 < unat (attempt l)"
    | (listening) l where "link s = None" "m_Type m = NodeState" "opened s" "\<not> Initiator cfg" "Context cfg = LinkBoundSession"
        "withinAddress (m_LoopbackV6 m) (LoopbackPoolV6 cfg)" "link_ok cfg l"
        "waitingForRemoteProposal l" "\<not> waitingForResponse l"
        "l_remoteUID l = remoteUID s" "l_remoteV6 l = m_LoopbackV6 m"
        "s' = s\<lparr>stateReceived := True, remoteV6 := m_LoopbackV6 m, link := Some l\<rparr>" "out = None" "err = None"
    | (accepting) l k where "link s = Some l" "m_Type m = LinkPropose"
        "s' = s\<lparr>link := Some (l\<lparr>seen := k, pendingCommit := Some (link_result l (message_proposal m)),
          waitingForRemoteProposal := False, waitingForResponse := False\<rparr>)\<rparr>"
        "out = Some (message_of LinkAccept)" "err = None" "result_ok cfg (link_result l (message_proposal m))"
    | (countering) l l' where "link s = Some l" "m_Type m = LinkPropose" "s' = s\<lparr>link := Some l'\<rparr>"
        "link_ok cfg l'" "waitingForResponse l'" "l_remoteUID l' = l_remoteUID l" "l_remoteV6 l' = l_remoteV6 l"
        "unat (attempt l) < unat (attempt l')"
        "out = Some (proposalMessage (outstanding l'))" "err = None"
    | (accepted) l where "link s = Some l" "m_Type m = LinkAccept" "waitingForResponse l" "\<not> waitingForRemoteProposal l"
        "s' = s\<lparr>link := Some (l\<lparr>pendingCommit := Some (link_result l (outstanding l)), waitingForResponse := False\<rparr>)\<rparr>"
        "out = None" "err = None" "result_ok cfg (link_result l (outstanding l))"
proof (cases "opened s")
  case False
  with ok have "link s = None" by (auto simp: session_ok_def split: option.splits)
  moreover from False h have "handleOpen cfg s m = (s', out, d, err)" by (simp add: handle_def)
  ultimately show ?thesis using False closed introduced
    by (auto simp: handleOpen_def split: option.splits if_splits)
next
  case op: True
  show ?thesis
  proof (cases "stateReceived s")
    case False
    with ok have none: "link s = None" by (auto simp: session_ok_def split: option.splits)
    from op False h have hn: "handleNodeState cfg s m = (s', out, d, err)" by (simp add: handle_def)
    show ?thesis
    proof (cases "m_Type m = NodeState \<and> withinAddress (m_LoopbackV6 m) (LoopbackPoolV6 cfg)")
      case False
      with hn discarded show ?thesis by (auto simp: handleNodeState_def split: if_splits)
    next
      case valid: True
      show ?thesis
      proof (cases "Context cfg = RoutedSession \<or> Initiator cfg \<and> FirstMessage cfg \<noteq> None")
        case True
        with hn valid none op operating closed show ?thesis
          by (auto simp: handleNodeState_def Let_def split: if_splits option.splits)
      next
        case False
        then have ctx: "Context cfg = LinkBoundSession" using SessionContext.exhaust by blast
        obtain l r where st: "start cfg (new_link (remoteUID s) (m_LoopbackV6 m)) = (l, r)" by (rule prod.exhaust)
        obtain out' d' err' where r: "r = (out', d', err')" by (cases r)
        from False valid hn st r ctx
        have res: "s' = s\<lparr>stateReceived := True, remoteV6 := m_LoopbackV6 m, link := Some l\<rparr>"
          "out' = out" "d' = d" "err' = err"
          by (auto simp: handleNodeState_def Let_def split: if_splits option.splits)
        from st[unfolded r] show ?thesis
        proof (cases rule: start_cases)
          case closed
          with res that(1) show ?thesis by simp
        next
          case proposed
          with res valid none op ctx that(6)[of l] show ?thesis by simp
        next
          case listening
          with res valid none op ctx that(7)[of l] show ?thesis by simp
        qed
      qed
    qed
  next
    case sr: True
    with ok obtain l where l: "link s = Some l" and lok: "link_ok cfg l"
      by (auto simp: session_ok_def split: option.splits)
    have eta: "s\<lparr>link := Some l\<rparr> = s" using l by simp
    show ?thesis
    proof (cases "\<not> Initiator cfg \<and> waitingForRemoteProposal l \<and> m_Type m = DurablePropose")
      case True
      with op sr l h durable show ?thesis by (auto simp: handle_def)
    next
      case False
      with op sr l h obtain l' where lh: "link_handle cfg l m = (l', out, d, err)" and s': "s' = s\<lparr>link := Some l'\<rparr>"
        by (auto simp: handle_def split: prod.splits)
      show ?thesis
      proof (cases "m_Type m = LinkPropose \<and> (waitingForRemoteProposal l \<or> waitingForResponse l)")
        case True
        with lh have hp: "handleProposal cfg l m = (l', out, d, err)"
          by (auto simp: link_handle_def split: if_splits)
        from lok hp show ?thesis
        proof (cases rule: handleProposal_cases)
          case discarded
          with s' eta that(2) show ?thesis by simp
        next
          case closed
          with that(1) show ?thesis by simp
        next
          case (accepted k)
          with s' l True that(8)[of l k] show ?thesis by (simp add: result_ok_def link_result_def)
        next
          case (countered n k q)
          with s' l True lok that(9)[of l l'] show ?thesis by (simp add: link_ok_def)
        qed
      next
        case noprop: False
        show ?thesis
        proof (cases "m_Type m = LinkAccept \<and> waitingForResponse l \<and> \<not> waitingForRemoteProposal l")
          case True
          with lh s' l lok accepted[of l] show ?thesis
            by (auto simp: link_handle_def result_ok_def link_ok_def link_result_def own_proposal_def)
        next
          case False
          with noprop lh s' eta discarded show ?thesis
            by (auto simp: link_handle_def split: if_splits)
        qed
      qed
    qed
  qed
qed

section \<open>Invariants of the event loop\<close>

lemma enter_operational_facts:
  assumes "enter_operational cfg r m = (effs, res)"
  shows "Committed x \<notin> set effs" "res = Continue r' \<Longrightarrow> fsm r' = fsm r" "Sent y \<notin> set effs"
  using assms by (auto simp: enter_operational_def Let_def split: if_splits option.splits)

lemma enter_operational_quiet: "\<not> operational (fsm r) \<Longrightarrow> enter_operational cfg r m = ([], Continue r)"
  by (simp add: enter_operational_def Let_def)

lemma send_reply_facts:
  assumes "send_reply cfg send r m outbound = (effs, res)"
  shows "Committed x \<notin> set effs" "res = Continue r' \<Longrightarrow> fsm r' = fsm r"
    "Sent y \<in> set effs \<Longrightarrow> outbound = Some y"
proof -
  obtain e o' where en: "enter_operational cfg r m = (e, o')" by fastforce
  note facts = enter_operational_facts[OF en]
  from assms en have split: "effs = e \<and> res = o' \<or> (\<exists>x. effs = [] \<and> res = Return x)
      \<or> (\<exists>y. outbound = Some y \<and> effs = Sent y # e \<and> res = o')"
    by (cases outbound) (auto simp: send_reply_def split: option.splits)
  show "Committed x \<notin> set effs" using split facts(1)[of x] by auto
  show "fsm r' = fsm r" if "res = Continue r'" using split facts(2) that by blast
  show "outbound = Some y" if "Sent y \<in> set effs" using split facts(3)[of y] that by auto
qed

text \<open>After a commit on a link-bound session the loop returns, at most after sending the reply.\<close>

lemma send_reply_established:
  assumes "operational (fsm r)" "Context cfg = LinkBoundSession" "link (fsm r) = Some l" "established l"
    and "send_reply cfg send r m outbound = (effs, res)"
  shows "(\<exists>e. res = Return e) \<and> set effs \<subseteq> (case outbound of None \<Rightarrow> {} | Some y \<Rightarrow> {Sent y})"
  using assms by (auto simp: send_reply_def enter_operational_def Let_def split: option.splits prod.splits)

definition step_ok :: "Config \<Rightarrow> effect list \<Rightarrow> outcome \<Rightarrow> bool" where
  "step_ok cfg effs res =
    (case res of
       Continue r \<Rightarrow> session_ok cfg (fsm r) \<and> (\<forall>x. Committed x \<notin> set effs)
     | Return e \<Rightarrow> \<forall>x. Committed x \<in> set effs \<longrightarrow>
         result_ok cfg x \<and> UUID (res_RemoteUID x) \<noteq> UUID (LocalUID cfg)
         \<and> withinAddress (res_RemoteLoopbackV6 x) (LoopbackPoolV6 cfg)
         \<and> (\<exists>rest. effs = Committed x # rest \<and> set rest \<subseteq> {Sent (message_of LinkAccept)}))"

lemma send_reply_step_ok:
  assumes "session_ok cfg (fsm r)" "send_reply cfg send r m outbound = (effs, res)"
  shows "step_ok cfg effs res"
proof (cases res)
  case (Continue r')
  with send_reply_facts(2)[OF assms(2) Continue] assms(1) send_reply_facts(1)[OF assms(2)]
  show ?thesis by (simp add: step_ok_def)
next
  case (Return e)
  with send_reply_facts(1)[OF assms(2)] show ?thesis by (simp add: step_ok_def)
qed

lemma commit_step_ok:
  assumes s: "session_ok cfg s" "link s = Some l" and l': "l_remoteUID l' = l_remoteUID l" "l_remoteV6 l' = l_remoteV6 l"
    and "pendingCommit l' = Some x" "result_ok cfg x" "x = link_result l p"
    and out: "outbound \<in> {None, Some (message_of LinkAccept)}"
    and step: "(case takeCommit (s\<lparr>link := Some l'\<rparr>) of
             (s, None) \<Rightarrow> send_reply cfg send (r\<lparr>fsm := s\<rparr>) m outbound
           | (s, Some result) \<Rightarrow>
             (case call1 (CommitResult cfg) result of
                Some e \<Rightarrow> ([], Return (Some e))
              | None \<Rightarrow>
                (case send_reply cfg send (r\<lparr>fsm := markEstablished s\<rparr>) m outbound of
                   (effs, res) \<Rightarrow> (Committed result # effs, res)))) = (effs, res)"
  shows "step_ok cfg effs res"
proof (cases "call1 (CommitResult cfg) x")
  case (Some e)
  with step assms(5) show ?thesis by (auto simp: takeCommit_def step_ok_def)
next
  case None
  let ?r = "r\<lparr>fsm := markEstablished (s\<lparr>link := Some (l'\<lparr>pendingCommit := None\<rparr>)\<rparr>)\<rparr>"
  from None step assms(5) obtain effs' where
    sr: "send_reply cfg send ?r m outbound = (effs', res)" and effs: "effs = Committed x # effs'"
    by (auto simp: takeCommit_def split: prod.splits)
  have ctx: "Context cfg = LinkBoundSession" "l_remoteUID l = remoteUID s" "l_remoteV6 l = remoteV6 s"
    "stateReceived s" using s by (auto simp: session_ok_def)
  have "(\<exists>e. res = Return e) \<and> set effs' \<subseteq> (case outbound of None \<Rightarrow> {} | Some y \<Rightarrow> {Sent y})"
    by (rule send_reply_established[OF _ ctx(1) _ _ sr, where l = "l'\<lparr>pendingCommit := None, established := True\<rparr>"])
      (simp_all add: markEstablished_def)
  moreover have "Committed y \<notin> set effs'" for y using send_reply_facts(1)[OF sr] .
  moreover have "UUID (res_RemoteUID x) \<noteq> UUID (LocalUID cfg)"
    "withinAddress (res_RemoteLoopbackV6 x) (LoopbackPoolV6 cfg)"
    using s(1) ctx assms(7) by (auto simp: session_ok_def link_result_def)
  ultimately show ?thesis using effs out assms(6) by (auto simp: step_ok_def split: option.splits)
qed

lemma read_message_step_ok:
  assumes ok: "session_ok cfg (fsm r)" and step: "read_message cfg send r m = (effs, res)"
  shows "step_ok cfg effs res"
proof (cases "operational (fsm r)")
  case True
  with ok step show ?thesis
    by (auto simp: read_message_def step_ok_def split: if_splits option.splits)
next
  case nop: False
  obtain s' out d err where h: "handle cfg (fsm r) m = (s', out, d, err)" by (metis prod_cases4)
  show ?thesis
  proof (cases err)
    case (Some e)
    from ok nop h show ?thesis
      by (cases rule: handle_cases)
        (use Some step nop h ok in \<open>auto simp: read_message_def step_ok_def\<close>)
  next
    case None
    with step nop h have
      tail: "(case takeCommit s' of
             (s, None) \<Rightarrow> send_reply cfg send (r\<lparr>fsm := s\<rparr>) m out
           | (s, Some result) \<Rightarrow>
             (case call1 (CommitResult cfg) result of
                Some e \<Rightarrow> ([], Return (Some e))
              | None \<Rightarrow>
                (case send_reply cfg send (r\<lparr>fsm := markEstablished s\<rparr>) m out of
                   (effs, res) \<Rightarrow> (Committed result # effs, res)))) = (effs, res)"
      by (simp add: read_message_def)
    have quiet: "step_ok cfg effs res" if "session_ok cfg s'"
    proof -
      have "takeCommit s' = (s', None)"
        using that by (cases "link s'") (auto simp: takeCommit_def session_ok_def link_ok_def)
      with tail that show ?thesis using send_reply_step_ok[of cfg "r\<lparr>fsm := s'\<rparr>"] by simp
    qed
    from ok nop h show ?thesis
    proof (cases rule: handle_cases)
      case (accepting l k)
      show ?thesis
        by (rule commit_step_ok[OF ok accepting(1) _ _ _ _ refl _ tail[unfolded accepting(3)]])
          (use accepting in simp_all)
    next
      case (accepted l)
      show ?thesis
        by (rule commit_step_ok[OF ok accepted(1) _ _ _ _ refl _ tail[unfolded accepted(5)]])
          (use accepted in simp_all)
    qed (use None ok nop in \<open>auto intro!: quiet simp: session_ok_def\<close>)
  qed
qed

lemma run_event_step_ok:
  "session_ok cfg (fsm r) \<Longrightarrow> run_event cfg send r ev = (effs, res) \<Longrightarrow> step_ok cfg effs res"
  using read_message_step_ok[of cfg r send]
  by (cases ev) (simp_all add: run_event_def, auto simp: step_ok_def split: if_splits)

lemma run_events_ok:
  assumes "session_ok cfg (fsm r)" "run_events cfg send r evs = (effs, res)"
  shows "(case res of Continue r' \<Rightarrow> session_ok cfg (fsm r') \<and> (\<forall>x. Committed x \<notin> set effs)
    | Return e \<Rightarrow> \<forall>x. Committed x \<in> set effs \<longrightarrow>
        result_ok cfg x \<and> UUID (res_RemoteUID x) \<noteq> UUID (LocalUID cfg)
        \<and> withinAddress (res_RemoteLoopbackV6 x) (LoopbackPoolV6 cfg)
        \<and> (\<exists>pre rest. effs = pre @ Committed x # rest \<and> (\<forall>y. Committed y \<notin> set pre)
            \<and> set rest \<subseteq> {Sent (message_of LinkAccept)}))"
  using assms
proof (induction cfg send r evs arbitrary: effs res rule: run_events.induct)
  case (1 cfg send r)
  then show ?case by (auto split: outcome.splits)
next
  case (2 cfg send r ev evs)
  obtain e1 o1 where step: "run_event cfg send r ev = (e1, o1)" by fastforce
  note sok = run_event_step_ok[OF "2.prems"(1) step]
  show ?case
  proof (cases o1)
    case (Return e)
    with "2.prems"(2) step have "effs = e1" "res = Return e" by auto
    moreover have "\<exists>pre rest. e1 = pre @ Committed x # rest \<and> (\<forall>y. Committed y \<notin> set pre)
        \<and> set rest \<subseteq> {Sent (message_of LinkAccept)}" if "Committed x \<in> set e1" for x
    proof -
      from sok Return that obtain rest where "e1 = Committed x # rest" "set rest \<subseteq> {Sent (message_of LinkAccept)}"
        by (auto simp: step_ok_def)
      then show ?thesis by (intro exI[of _ "[]"] exI[of _ rest]) simp
    qed
    ultimately show ?thesis using sok Return by (auto simp: step_ok_def)
  next
    case (Continue r')
    obtain e2 o2 where rest: "run_events cfg send r' evs = (e2, o2)" by fastforce
    from sok Continue have ok': "session_ok cfg (fsm r')" and no: "\<forall>x. Committed x \<notin> set e1"
      by (auto simp: step_ok_def)
    from "2.prems"(2) step Continue rest have eq: "effs = e1 @ e2" "res = o2" by auto
    note IH = "2.IH"[OF step[symmetric] Continue ok' rest]
    show ?thesis
    proof (cases o2)
      case (Continue r'')
      with IH eq no show ?thesis by auto
    next
      case (Return e)
      have "\<exists>pre rest. e1 @ e2 = pre @ Committed x # rest \<and> (\<forall>y. Committed y \<notin> set pre)
        \<and> set rest \<subseteq> {Sent (message_of LinkAccept)}" if "Committed x \<in> set e2" for x
      proof -
        from IH Return that obtain pre rest where "e2 = pre @ Committed x # rest"
          "\<forall>y. Committed y \<notin> set pre" "set rest \<subseteq> {Sent (message_of LinkAccept)}" by auto
        with no show ?thesis by (intro exI[of _ "e1 @ pre"] exI[of _ rest]) auto
      qed
      with IH Return eq no show ?thesis by auto
    qed
  qed
qed

end
