(* ===== verification/Engine_Agreement.thy ===== *)
theory Engine_Agreement
  imports Engine
begin

text \<open>
  Two session engines on one connection.  The theory composes the event loops of the initiator
  and of the responder over two FIFO channels, with losses and failures, and shows that a
  negotiated link is committed consistently; it also bounds the number of proposals and ties the
  loop to the octets of the connection.
\<close>

section \<open>Two engines on one connection\<close>

text \<open>
  One end of a connection: its loop state, whether the loop still runs, and the results its
  commit callback has accepted.  When the loop returns the last state is kept for the record.
\<close>

record side =
  s_run :: run
  s_live :: bool
  s_commits :: "Result list"

definition sent :: "effect list \<Rightarrow> Message list" where
  "sent effs = concat (map (\<lambda>e. case e of Sent m \<Rightarrow> [m] | _ \<Rightarrow> []) effs)"

definition committed :: "effect list \<Rightarrow> Result list" where
  "committed effs = concat (map (\<lambda>e. case e of Committed r \<Rightarrow> [r] | _ \<Rightarrow> []) effs)"

lemma sent_committed_simps [simp]:
  "sent [] = []" "committed [] = []"
  "sent (e # effs) = (case e of Sent m \<Rightarrow> [m] | _ \<Rightarrow> []) @ sent effs"
  "committed (e # effs) = (case e of Committed r \<Rightarrow> [r] | _ \<Rightarrow> []) @ committed effs"
  by (simp_all add: sent_def committed_def)

definition deliver :: "Config \<Rightarrow> (Message \<Rightarrow> error option) \<Rightarrow> side \<Rightarrow> event \<Rightarrow> side \<times> Message list" where
  "deliver cfg send x ev =
    (case run_event cfg send (s_run x) ev of
       (effs, Continue r) \<Rightarrow> (x\<lparr>s_run := r, s_commits := s_commits x @ committed effs\<rparr>, sent effs)
     | (effs, Return e) \<Rightarrow> (x\<lparr>s_live := False, s_commits := s_commits x @ committed effs\<rparr>, sent effs))"

record net =
  n_a :: side
  n_b :: side
  n_ab :: "Message list"
  n_ba :: "Message list"

text \<open>
  The steps of the system, in any order: an end takes the next message addressed to it; the
  message arrives undecodable; an end stops on a timeout, cancellation or connection error.
  Sending may fail at any time, which ends the sender.
\<close>

inductive net_step :: "Config \<Rightarrow> Config \<Rightarrow> net \<Rightarrow> net \<Rightarrow> bool" for ca cb where
  a_recv: "\<lbrakk>s_live (n_a n); n_ba n = m # rest; ev = ReadMessage m \<or> ev = ReadInvalid e;
     deliver ca send (n_a n) ev = (x, out)\<rbrakk>
     \<Longrightarrow> net_step ca cb n (n\<lparr>n_a := x, n_ba := rest, n_ab := n_ab n @ out\<rparr>)"
| b_recv: "\<lbrakk>s_live (n_b n); n_ab n = m # rest; ev = ReadMessage m \<or> ev = ReadInvalid e;
     deliver cb send (n_b n) ev = (x, out)\<rbrakk>
     \<Longrightarrow> net_step ca cb n (n\<lparr>n_b := x, n_ab := rest, n_ba := n_ba n @ out\<rparr>)"
| a_stop: "net_step ca cb n (n\<lparr>n_a := (n_a n)\<lparr>s_live := False\<rparr>\<rparr>)"
| b_stop: "net_step ca cb n (n\<lparr>n_b := (n_b n)\<lparr>s_live := False\<rparr>\<rparr>)"

definition new_side :: side where
  "new_side = \<lparr>s_run = new_run, s_live = True, s_commits = []\<rparr>"

definition new_net :: "Config \<Rightarrow> Config \<Rightarrow> net" where
  "new_net ca cb = \<lparr>n_a = new_side, n_b = new_side, n_ab = [open_message ca], n_ba = [open_message cb]\<rparr>"

inductive reachable :: "Config \<Rightarrow> Config \<Rightarrow> net \<Rightarrow> bool" for ca cb where
  init: "reachable ca cb (new_net ca cb)"
| step: "reachable ca cb n \<Longrightarrow> net_step ca cb n n' \<Longrightarrow> reachable ca cb n'"

section \<open>One end receives one message\<close>

definition side_ok :: "Config \<Rightarrow> side \<Rightarrow> bool" where
  "side_ok cfg x = (session_ok cfg (fsm (s_run x)) \<and> \<not> operational (fsm (s_run x)) \<and> (s_live x \<longrightarrow> s_commits x = []))"

abbreviation side_link :: "side \<Rightarrow> staticLinkFSM option" where
  "side_link x \<equiv> link (fsm (s_run x))"

definition link_bound :: "Config \<Rightarrow> bool" where
  "link_bound cfg = (Context cfg = LinkBoundSession \<and> FirstMessage cfg = None)"

abbreviation handshake :: "byte set" where
  "handshake \<equiv> {Open, NodeState, LinkPropose, LinkAccept}"

lemma send_reply_open:
  "\<not> operational (fsm r) \<Longrightarrow> send_reply cfg send r m outbound =
    (case outbound of None \<Rightarrow> ([], Continue r)
     | Some out \<Rightarrow> (case send out of Some e \<Rightarrow> ([], Return (Some e)) | None \<Rightarrow> ([Sent out], Continue r)))"
  by (simp add: send_reply_def enter_operational_quiet split: option.splits)

lemma deliver_commit:
  assumes "side_ok cfg x" "s_live x" "handle cfg (fsm (s_run x)) m = (s', outbound, d, None)"
    "side_link x = Some l" "s' = (fsm (s_run x))\<lparr>link := Some l'\<rparr>" "pendingCommit l' = Some res"
    "deliver cfg send x (ReadMessage m) = (x', outs)"
  shows "s_run x' = s_run x \<and> \<not> s_live x' \<and> (s_commits x' = [] \<and> outs = [] \<or> s_commits x' = [res]
    \<and> (outs = [] \<or> (\<exists>y. outbound = Some y \<and> outs = [y])))"
proof -
  let ?r = "(s_run x)\<lparr>fsm := markEstablished ((fsm (s_run x))\<lparr>link := Some (l'\<lparr>pendingCommit := None\<rparr>)\<rparr>)\<rparr>"
  have ctx: "Context cfg = LinkBoundSession" "\<not> operational (fsm (s_run x))" "s_commits x = []"
    using assms(1,2,4) by (auto simp: side_ok_def session_ok_def)
  have en: "enter_operational cfg ?r m = ([], Return None)"
    using ctx by (simp add: enter_operational_def markEstablished_def Let_def)
  from ctx(2) assms(3,5,6) have "read_message cfg send (s_run x) m =
    (case call1 (CommitResult cfg) res of Some e \<Rightarrow> ([], Return (Some e))
     | None \<Rightarrow> (case send_reply cfg send ?r m outbound of (effs, o') \<Rightarrow> (Committed res # effs, o')))"
    by (simp add: read_message_def takeCommit_def)
  moreover have "send_reply cfg send ?r m outbound \<in> {([], Return None)} \<union> {([], Return e) |e. True}
      \<union> {([Sent y], Return None) |y. outbound = Some y}"
    by (cases outbound) (auto simp: send_reply_def en split: option.splits)
  ultimately show ?thesis
    using assms(7) ctx(3) by (cases "call1 (CommitResult cfg) res") (auto simp: deliver_def run_event_def)
qed

lemma deliver_plain:
  assumes "side_ok cfg x" "s_live x" "handle cfg (fsm (s_run x)) m = (s', outbound, d, None)"
    "session_ok cfg s'" "\<not> operational s'" "deliver cfg send x (ReadMessage m) = (x', outs)"
  shows "s_commits x' = [] \<and> (s_run x' = s_run x \<and> outs = [] \<or>
    s_live x' \<and> fsm (s_run x') = s' \<and> outs = (case outbound of None \<Rightarrow> [] | Some y \<Rightarrow> [y]))"
proof -
  have "takeCommit s' = (s', None)"
    using assms(4) by (cases "link s'") (auto simp: takeCommit_def session_ok_def link_ok_def)
  with assms(1,3) have "read_message cfg send (s_run x) m = send_reply cfg send ((s_run x)\<lparr>fsm := s'\<rparr>) m outbound"
    by (simp add: read_message_def side_ok_def)
  with assms send_reply_open[of "(s_run x)\<lparr>fsm := s'\<rparr>"] show ?thesis
    by (cases outbound; cases "send (the outbound)") (auto simp: deliver_def run_event_def side_ok_def)
qed

text \<open>What a delivery does, seen from outside.\<close>

lemma deliver_cases:
  assumes ok: "side_ok cfg x" "s_live x" "link_bound cfg" "m_Type m \<in> handshake"
    and dl: "deliver cfg send x (ReadMessage m) = (x', outs)"
  obtains (quiet) "s_run x' = s_run x" "s_commits x' = []" "outs = []"
    | (introduced) uid where "m_Type m = Open" "m_UID m = Some uid" "side_link x = None" "s_commits x' = []"
        "fsm (s_run x') = (fsm (s_run x))\<lparr>remoteUID := uid, opened := True\<rparr>"
        "\<not> opened (fsm (s_run x))" "outs = [(message_of NodeState)\<lparr>m_LoopbackV6 := LocalLoopbackV6 cfg\<rparr>]"
        "session_ok cfg (fsm (s_run x'))"
    | (started) l where "m_Type m = NodeState" "side_link x = None" "s_commits x' = []"
        "fsm (s_run x') = (fsm (s_run x))\<lparr>stateReceived := True, remoteV6 := m_LoopbackV6 m, link := Some l\<rparr>"
        "l_remoteUID l = remoteUID (fsm (s_run x))" "l_remoteV6 l = m_LoopbackV6 m" "opened (fsm (s_run x))"
        "Initiator cfg = waitingForResponse l"
        "outs = (if Initiator cfg then [proposalMessage (outstanding l)] else [])"
        "session_ok cfg (fsm (s_run x'))"
    | (accepting) l where "m_Type m = LinkPropose" "side_link x = Some l" "s_run x' = s_run x" "\<not> s_live x'"
        "s_commits x' = [link_result l (message_proposal m)]" "outs = [] \<or> outs = [message_of LinkAccept]"
    | (countering) l l' where "m_Type m = LinkPropose" "side_link x = Some l" "s_commits x' = []"
        "fsm (s_run x') = (fsm (s_run x))\<lparr>link := Some l'\<rparr>" "waitingForResponse l'"
        "l_remoteUID l' = l_remoteUID l" "l_remoteV6 l' = l_remoteV6 l"
        "outs = [proposalMessage (outstanding l')]" "session_ok cfg (fsm (s_run x'))"
    | (accepted) l where "m_Type m = LinkAccept" "side_link x = Some l" "waitingForResponse l"
        "s_run x' = s_run x" "\<not> s_live x'" "s_commits x' = [link_result l (outstanding l)]" "outs = []"
proof -
  note J = ok(1)[unfolded side_ok_def]
  obtain s' outbound d err where h: "handle cfg (fsm (s_run x)) m = (s', outbound, d, err)" by (metis prod_cases4)
  have nop: "\<not> operational (fsm (s_run x))" and c0: "s_commits x = []" using J ok(2) by auto
  from J h have "session_ok cfg (fsm (s_run x))" by simp
  from this nop h show thesis
  proof (cases rule: handle_cases)
    case closed
    with h nop dl c0 quiet show ?thesis by (auto simp: deliver_def run_event_def read_message_def)
  next
    case discarded
    with h nop dl c0 quiet show ?thesis by (auto simp: deliver_def run_event_def read_message_def)
  next
    case (introduced uid)
    have s': "session_ok cfg s'" "\<not> operational s'" using introduced J by (auto simp: session_ok_def)
    from deliver_plain[OF ok(1,2) h[unfolded introduced(8)] s' dl] show ?thesis
    proof (elim conjE disjE)
      assume "s_run x' = s_run x" "s_commits x' = []" "outs = []"
      then show ?thesis by (rule that(1))
    next
      assume "fsm (s_run x') = s'" "s_commits x' = []" "outs = (case outbound of None \<Rightarrow> [] | Some y \<Rightarrow> [y])"
      with introduced s' show ?thesis by (intro that(2)[of uid]) simp_all
    qed
  next
    case operating
    with ok(3) show ?thesis by (auto simp: link_bound_def)
  next
    case (durable l)
    with ok(4) show ?thesis by simp
  next
    case (starting l)
    have s': "session_ok cfg s'" "\<not> operational s'" using starting J by (auto simp: session_ok_def)
    from deliver_plain[OF ok(1,2) h[unfolded starting(13)] s' dl] show ?thesis
    proof (elim conjE disjE)
      assume "s_run x' = s_run x" "s_commits x' = []" "outs = []"
      then show ?thesis by (rule that(1))
    next
      assume "fsm (s_run x') = s'" "s_commits x' = []" "outs = (case outbound of None \<Rightarrow> [] | Some y \<Rightarrow> [y])"
      with starting s' show ?thesis by (intro that(3)[of l]) simp_all
    qed
  next
    case (listening l)
    have s': "session_ok cfg s'" "\<not> operational s'" using listening J by (auto simp: session_ok_def)
    from deliver_plain[OF ok(1,2) h[unfolded listening(14)] s' dl] show ?thesis
    proof (elim conjE disjE)
      assume "s_run x' = s_run x" "s_commits x' = []" "outs = []"
      then show ?thesis by (rule that(1))
    next
      assume "fsm (s_run x') = s'" "s_commits x' = []" "outs = (case outbound of None \<Rightarrow> [] | Some y \<Rightarrow> [y])"
      with listening s' show ?thesis by (intro that(3)[of l]) simp_all
    qed
  next
    case (accepting l k)
    have "s_run x' = s_run x \<and> \<not> s_live x' \<and> (s_commits x' = [] \<and> outs = []
        \<or> s_commits x' = [link_result l (message_proposal m)] \<and> (outs = [] \<or> (\<exists>y. outbound = Some y \<and> outs = [y])))"
      by (rule deliver_commit[OF ok(1,2) h[unfolded accepting(5)] accepting(1,3) _ dl]) simp
    then consider "s_run x' = s_run x" "s_commits x' = []" "outs = []"
      | "s_run x' = s_run x" "\<not> s_live x'" "s_commits x' = [link_result l (message_proposal m)]"
        "outs = [] \<or> (\<exists>y. outbound = Some y \<and> outs = [y])" by blast
    then show ?thesis
    proof cases
      case 1
      then show ?thesis by (rule that(1))
    next
      case 2
      with accepting show ?thesis by (intro that(4)[of l]) auto
    qed
  next
    case (countering l l')
    have s': "session_ok cfg s'" "\<not> operational s'" using countering J nop by (auto simp: session_ok_def)
    from deliver_plain[OF ok(1,2) h[unfolded countering(10)] s' dl] show ?thesis
    proof (elim conjE disjE)
      assume "s_run x' = s_run x" "s_commits x' = []" "outs = []"
      then show ?thesis by (rule that(1))
    next
      assume "fsm (s_run x') = s'" "s_commits x' = []" "outs = (case outbound of None \<Rightarrow> [] | Some y \<Rightarrow> [y])"
      with countering s' show ?thesis by (intro that(5)[of l l']) simp_all
    qed
  next
    case (accepted l)
    have "s_run x' = s_run x \<and> \<not> s_live x' \<and> (s_commits x' = [] \<and> outs = []
        \<or> s_commits x' = [link_result l (outstanding l)] \<and> (outs = [] \<or> (\<exists>y. outbound = Some y \<and> outs = [y])))"
      by (rule deliver_commit[OF ok(1,2) h[unfolded accepted(7)] accepted(1,5) _ dl]) simp
    then consider "s_run x' = s_run x" "s_commits x' = []" "outs = []"
      | "s_run x' = s_run x" "\<not> s_live x'" "s_commits x' = [link_result l (outstanding l)]"
        "outs = [] \<or> (\<exists>y. outbound = Some y \<and> outs = [y])" by blast
    then show ?thesis
    proof cases
      case 1
      then show ?thesis by (rule that(1))
    next
      case 2
      with accepted show ?thesis by (intro that(6)[of l]) auto
    qed
  qed
qed

section \<open>The negotiation as a whole\<close>

definition biz :: "Message list \<Rightarrow> Message list" where
  "biz ms = filter (\<lambda>m. m_Type m \<in> {LinkPropose, LinkAccept}) ms"

lemma biz_simps [simp]:
  "biz [] = []" "biz (m # ms) = (if m_Type m \<in> {LinkPropose, LinkAccept} then m # biz ms else biz ms)"
  "biz (ms @ ns) = biz ms @ biz ns"
  by (simp_all add: biz_def)

definition idle :: "Config \<Rightarrow> side \<Rightarrow> bool" where
  "idle cfg x = (\<not> Initiator cfg \<and> s_commits x = [] \<and> (\<forall>l. side_link x = Some l \<longrightarrow> \<not> waitingForResponse l))"

definition waits :: "side \<Rightarrow> Proposal \<Rightarrow> bool" where
  "waits x p = (s_commits x = [] \<and> (\<exists>l. side_link x = Some l \<and> waitingForResponse l \<and> outstanding l = p))"

definition agreed :: "side \<Rightarrow> Proposal \<Rightarrow> bool" where
  "agreed x p = (\<exists>r. s_commits x = [r] \<and> res_Proposal r = p)"

text \<open>
  The phases of a negotiation between \<open>x\<close> and \<open>y\<close>, each with what may be in flight: \<open>x\<close> has a
  proposal outstanding; \<open>x\<close> has accepted what \<open>y\<close> has outstanding; both have committed.
\<close>

definition asks :: "Config \<Rightarrow> side \<Rightarrow> side \<Rightarrow> Message list \<Rightarrow> Message list \<Rightarrow> bool" where
  "asks cy x y xy yx = (\<exists>p. waits x p \<and> (idle cy y \<or> (\<exists>q. waits y q))
     \<and> (biz xy = [] \<or> biz xy = [proposalMessage p]) \<and> biz yx = [])"

definition answered :: "side \<Rightarrow> side \<Rightarrow> Message list \<Rightarrow> Message list \<Rightarrow> bool" where
  "answered x y xy yx = (\<exists>p. agreed x p \<and> waits y p \<and> (biz xy = [] \<or> biz xy = [message_of LinkAccept]) \<and> biz yx = [])"

definition settled :: "side \<Rightarrow> side \<Rightarrow> Message list \<Rightarrow> Message list \<Rightarrow> bool" where
  "settled x y xy yx = (\<exists>p. agreed x p \<and> agreed y p \<and> biz xy = [] \<and> biz yx = [])"

definition phase :: "Config \<Rightarrow> Config \<Rightarrow> side \<Rightarrow> side \<Rightarrow> Message list \<Rightarrow> Message list \<Rightarrow> bool" where
  "phase cx cy x y xy yx = (asks cy x y xy yx \<or> asks cx y x yx xy \<or> answered x y xy yx
     \<or> answered y x yx xy \<or> settled x y xy yx)"

lemma phase_sym: "phase cx cy x y xy yx \<longleftrightarrow> phase cy cx y x yx xy"
  by (auto simp: phase_def settled_def)

lemmas phase_defs = phase_def asks_def answered_def settled_def

lemma status_run:
  assumes "s_run x' = s_run x" "s_commits x' = s_commits x"
  shows "idle cfg x' = idle cfg x" "waits x' p = waits x p" "agreed x' p = agreed x p"
  using assms by (simp_all add: idle_def waits_def agreed_def)

lemma status_exclusive: "waits x p \<Longrightarrow> \<not> agreed x q" "waits x p \<Longrightarrow> waits x q \<Longrightarrow> p = q" "idle cfg x \<Longrightarrow> \<not> waits x p"
  by (auto simp: waits_def agreed_def idle_def)

lemma phase_live:
  assumes "phase cx cy x y xy yx" "s_commits x = []"
  shows "(\<exists>p. waits x p) \<or> idle cx x"
  using assms by (auto simp: phase_defs agreed_def)

lemma biz_proposal [simp]: "biz [proposalMessage p] = [proposalMessage p]" "biz [message_of LinkAccept] = [message_of LinkAccept]"
  "biz [(message_of NodeState)\<lparr>m_LoopbackV6 := a\<rparr>] = []"
  by (simp_all add: biz_def)

lemma phase_consume:
  assumes "phase cx cy x y xy (m # yx)" "s_commits x = []"
  shows "phase cx cy x y xy yx"
  using assms by (auto simp: phase_defs agreed_def split: if_splits)

lemma phase_recv:
  assumes ph: "phase cx cy x y xy (m # yx)" and live: "side_ok cx x" "s_live x" "link_bound cx"
    and m: "m_Type m \<in> handshake" and dl: "deliver cx send x (ReadMessage m) = (x', outs)"
  shows "phase cx cy x' y (xy @ outs) yx"
proof -
  have c0: "s_commits x = []" using live by (simp add: side_ok_def)
  note ph' = phase_consume[OF ph c0]
  from live m dl show ?thesis
  proof (cases rule: deliver_cases)
    case quiet
    then show ?thesis using ph' c0 status_run[of x' x] by (simp add: phase_defs)
  next
    case (introduced uid)
    then have "idle cx x' = idle cx x" "waits x' p = waits x p" "agreed x' p = agreed x p" for p
      using c0 by (simp_all add: idle_def waits_def agreed_def)
    with ph' introduced show ?thesis by (simp add: phase_defs)
  next
    case (started l)
    then have "idle cx x" using phase_live[OF ph' c0] by (auto simp: waits_def)
    then have "asks cx y x yx xy" "idle cx x'" "outs = []"
      using ph' started c0 status_exclusive by (auto simp: phase_defs idle_def agreed_def waits_def)
    with ph' show ?thesis by (auto simp: phase_def asks_def)
  next
    case (accepting l)
    then have "biz (m # yx) = m # biz yx" by simp
    with ph c0 accepting(1) obtain p where p: "waits y p" "m = proposalMessage p" "biz yx = []" "biz xy = []"
      by (auto simp: phase_defs agreed_def)
    then have "agreed x' p" using accepting(5) by (simp add: agreed_def link_result_def)
    with p accepting(6) show ?thesis by (auto simp: phase_def answered_def)
  next
    case (countering l l')
    then have "biz (m # yx) = m # biz yx" by simp
    with ph c0 countering(1) obtain p where p: "waits y p" "biz yx = []" "biz xy = []"
      by (auto simp: phase_defs agreed_def)
    moreover have "waits x' (outstanding l')" using countering by (simp add: waits_def)
    ultimately show ?thesis using countering by (auto simp: phase_def asks_def)
  next
    case (accepted l)
    then have "biz (m # yx) = m # biz yx" by simp
    with ph c0 accepted(1) obtain p where p: "agreed y p" "waits x p" "biz yx = []" "biz xy = []"
      by (auto simp: phase_defs agreed_def)
    then have "agreed x' p" using accepted by (auto simp: agreed_def link_result_def waits_def)
    with p accepted show ?thesis by (auto simp: phase_def settled_def)
  qed
qed

lemma deliver_invalid:
  assumes "side_ok cfg x" "s_live x" "deliver cfg send x (ReadInvalid e) = (x', outs)"
  shows "s_run x' = s_run x \<and> s_commits x' = [] \<and> outs = []"
  using assms by (auto simp: deliver_def run_event_def side_ok_def split: if_splits)

section \<open>Who the peer is\<close>

definition channel_ok :: "Config \<Rightarrow> Message list \<Rightarrow> bool" where
  "channel_ok cfg ms = list_all (\<lambda>m. m_Type m \<in> handshake
     \<and> (m_Type m = Open \<longrightarrow> m_UID m = Some (LocalUID cfg))
     \<and> (m_Type m = NodeState \<longrightarrow> m_LoopbackV6 m = LocalLoopbackV6 cfg)) ms"

definition peer_ok :: "Config \<Rightarrow> side \<Rightarrow> bool" where
  "peer_ok peer x =
    ((opened (fsm (s_run x)) \<longrightarrow> remoteUID (fsm (s_run x)) = LocalUID peer)
     \<and> (stateReceived (fsm (s_run x)) \<longrightarrow> remoteV6 (fsm (s_run x)) = LocalLoopbackV6 peer)
     \<and> (\<forall>r \<in> set (s_commits x). res_RemoteUID r = LocalUID peer \<and> res_RemoteLoopbackV6 r = LocalLoopbackV6 peer))"

lemma channel_ok_simps [simp]:
  "channel_ok cfg []" "channel_ok cfg (ms @ ns) \<longleftrightarrow> channel_ok cfg ms \<and> channel_ok cfg ns"
  "channel_ok cfg (m # ms) \<longleftrightarrow> m_Type m \<in> handshake \<and> (m_Type m = Open \<longrightarrow> m_UID m = Some (LocalUID cfg))
     \<and> (m_Type m = NodeState \<longrightarrow> m_LoopbackV6 m = LocalLoopbackV6 cfg) \<and> channel_ok cfg ms"
  by (simp_all add: channel_ok_def)

lemma deliver_peer:
  assumes "side_ok cfg x" "s_live x" "link_bound cfg" "channel_ok peer (m # ms)" "peer_ok peer x"
    and dl: "deliver cfg send x (ReadMessage m) = (x', outs)"
  shows "side_ok cfg x' \<and> peer_ok peer x' \<and> channel_ok cfg outs"
proof -
  have m: "m_Type m \<in> handshake" using assms(4) by simp
  have c0: "s_commits x = []" using assms(1,2) by (simp add: side_ok_def)
  from assms(1-3) m dl show ?thesis
  proof (cases rule: deliver_cases)
    case quiet
    then show ?thesis using assms by (simp add: side_ok_def peer_ok_def)
  next
    case (introduced uid)
    then show ?thesis using assms by (auto simp: side_ok_def peer_ok_def)
  next
    case (started l)
    then show ?thesis using assms by (auto simp: side_ok_def peer_ok_def)
  next
    case (accepting l)
    then show ?thesis using assms by (auto simp: side_ok_def peer_ok_def session_ok_def link_result_def)
  next
    case (countering l l')
    then show ?thesis using assms by (auto simp: side_ok_def peer_ok_def)
  next
    case (accepted l)
    then show ?thesis using assms by (auto simp: side_ok_def peer_ok_def session_ok_def link_result_def)
  qed
qed

section \<open>The invariant of the connection\<close>

definition before_start :: "Config \<Rightarrow> net \<Rightarrow> bool" where
  "before_start cb n = (side_link (n_a n) = None \<and> s_commits (n_a n) = [] \<and> idle cb (n_b n)
     \<and> biz (n_ab n) = [] \<and> biz (n_ba n) = [])"

definition net_ok :: "Config \<Rightarrow> Config \<Rightarrow> net \<Rightarrow> bool" where
  "net_ok ca cb n = (side_ok ca (n_a n) \<and> side_ok cb (n_b n) \<and> peer_ok cb (n_a n) \<and> peer_ok ca (n_b n)
     \<and> channel_ok ca (n_ab n) \<and> channel_ok cb (n_ba n)
     \<and> (before_start cb n \<or> phase ca cb (n_a n) (n_b n) (n_ab n) (n_ba n)))"

definition roles :: "Config \<Rightarrow> Config \<Rightarrow> bool" where
  "roles ca cb = (link_bound ca \<and> link_bound cb \<and> Initiator ca \<and> \<not> Initiator cb)"

lemma before_start_recv_a:
  assumes "before_start cb n" "side_ok ca (n_a n)" "s_live (n_a n)" "link_bound ca" "Initiator ca"
    "n_ba n = m # rest" "m_Type m \<in> handshake" "deliver ca send (n_a n) (ReadMessage m) = (x, out)"
  shows "before_start cb (n\<lparr>n_a := x, n_ba := rest, n_ab := n_ab n @ out\<rparr>)
    \<or> phase ca cb x (n_b n) (n_ab n @ out) rest"
  using assms(2-4,7,8)
proof (cases rule: deliver_cases)
  case (started l)
  with assms show ?thesis by (auto simp: before_start_def phase_def asks_def waits_def split: if_splits)
qed (use assms in \<open>auto simp: before_start_def split: if_splits\<close>)

lemma before_start_recv_b:
  assumes "before_start cb n" "side_ok cb (n_b n)" "s_live (n_b n)" "link_bound cb"
    "n_ab n = m # rest" "m_Type m \<in> handshake" "deliver cb send (n_b n) (ReadMessage m) = (x, out)"
  shows "before_start cb (n\<lparr>n_b := x, n_ab := rest, n_ba := n_ba n @ out\<rparr>)"
  using assms(2-4,6,7)
  by (cases rule: deliver_cases) (use assms in \<open>auto simp: before_start_def idle_def split: if_splits\<close>)

lemma before_start_drop:
  "before_start cb n \<Longrightarrow> n_ab n = m # rest \<Longrightarrow> biz rest = []"
  "before_start cb n \<Longrightarrow> n_ba n = m # rest \<Longrightarrow> biz rest = []"
  by (auto simp: before_start_def split: if_splits)

lemma side_ok_run: "side_ok cfg x \<Longrightarrow> s_run x' = s_run x \<Longrightarrow> s_commits x' = [] \<Longrightarrow> side_ok cfg x'"
  by (simp add: side_ok_def)

lemma stop_status [simp]:
  "idle cfg (x\<lparr>s_live := b\<rparr>) = idle cfg x" "waits (x\<lparr>s_live := b\<rparr>) p = waits x p"
  "agreed (x\<lparr>s_live := b\<rparr>) p = agreed x p"
  by (simp_all add: idle_def waits_def agreed_def)

lemma phase_stop:
  "phase cx cy (x\<lparr>s_live := b\<rparr>) y xy yx = phase cx cy x y xy yx"
  "phase cx cy x (y\<lparr>s_live := b\<rparr>) xy yx = phase cx cy x y xy yx"
  by (simp_all add: phase_defs)

lemma net_ok_init: "roles ca cb \<Longrightarrow> net_ok ca cb (new_net ca cb)"
  by (auto simp: net_ok_def roles_def new_net_def new_side_def new_run_def side_ok_def new_session_ok peer_ok_def
      open_message_def before_start_def idle_def new_session_def session_ok_def)

lemma net_ok_step:
  assumes r: "roles ca cb" and ok: "net_ok ca cb n" and st: "net_step ca cb n n'"
  shows "net_ok ca cb n'"
  using st
proof cases
  case (a_recv m rest ev e send x out)
  from a_recv(4) show ?thesis
  proof
    assume ev: "ev = ReadMessage m"
    have m: "m_Type m \<in> handshake" using ok a_recv(3) by (simp add: net_ok_def)
    have dp: "side_ok ca x \<and> peer_ok cb x \<and> channel_ok ca out"
      by (rule deliver_peer[where m = m and ms = rest]) (use ok r a_recv ev in \<open>auto simp: net_ok_def roles_def\<close>)
    have "before_start cb n' \<or> phase ca cb x (n_b n) (n_ab n @ out) rest"
    proof (cases "before_start cb n")
      case True
      with before_start_recv_a[of cb n ca m rest send x out] ok r a_recv ev m show ?thesis
        by (simp add: net_ok_def roles_def)
    next
      case False
      then have "phase ca cb (n_a n) (n_b n) (n_ab n) (m # rest)" using ok a_recv(3) by (simp add: net_ok_def)
      then show ?thesis
        using phase_recv[of ca cb "n_a n" "n_b n" "n_ab n" m rest send x out] ok r a_recv ev m
        by (simp add: net_ok_def roles_def)
    qed
    with dp ok a_recv show ?thesis by (auto simp: net_ok_def)
  next
    assume ev: "ev = ReadInvalid e"
    have c0: "s_commits (n_a n) = []" using ok a_recv(2) by (simp add: net_ok_def side_ok_def)
    have dl: "s_run x = s_run (n_a n) \<and> s_commits x = [] \<and> out = []"
      using deliver_invalid[of ca "n_a n" send e x out] ok a_recv ev by (simp add: net_ok_def)
    then have "side_ok ca x" "peer_ok cb x" using ok c0 by (simp_all add: net_ok_def side_ok_def peer_ok_def)
    moreover have "before_start cb n' \<or> phase ca cb x (n_b n) (n_ab n) rest"
    proof (cases "before_start cb n")
      case True
      with dl a_recv before_start_drop(2)[OF True a_recv(3)] show ?thesis by (auto simp: before_start_def)
    next
      case False
      then have "phase ca cb (n_a n) (n_b n) (n_ab n) rest"
        using ok a_recv(3) phase_consume[of ca cb "n_a n" "n_b n" "n_ab n" m rest] c0 by (simp add: net_ok_def)
      with dl c0 status_run[of x "n_a n"] show ?thesis by (simp add: phase_defs)
    qed
    ultimately show ?thesis using dl ok a_recv by (auto simp: net_ok_def)
  qed
next
  case (b_recv m rest ev e send x out)
  from b_recv(4) show ?thesis
  proof
    assume ev: "ev = ReadMessage m"
    have m: "m_Type m \<in> handshake" using ok b_recv(3) by (simp add: net_ok_def)
    have dp: "side_ok cb x \<and> peer_ok ca x \<and> channel_ok cb out"
      by (rule deliver_peer[where m = m and ms = rest]) (use ok r b_recv ev in \<open>auto simp: net_ok_def roles_def\<close>)
    have "before_start cb n' \<or> phase ca cb (n_a n) x rest (n_ba n @ out)"
    proof (cases "before_start cb n")
      case True
      with before_start_recv_b[of cb n m rest send x out] ok r b_recv ev m show ?thesis
        by (simp add: net_ok_def roles_def)
    next
      case False
      then have "phase cb ca (n_b n) (n_a n) (n_ba n) (m # rest)"
        using ok b_recv(3) phase_sym[of ca cb] by (simp add: net_ok_def)
      then show ?thesis
        using phase_recv[of cb ca "n_b n" "n_a n" "n_ba n" m rest send x out] phase_sym[of ca cb] ok r b_recv ev m
        by (simp add: net_ok_def roles_def)
    qed
    with dp ok b_recv show ?thesis by (auto simp: net_ok_def)
  next
    assume ev: "ev = ReadInvalid e"
    have c0: "s_commits (n_b n) = []" using ok b_recv(2) by (simp add: net_ok_def side_ok_def)
    have dl: "s_run x = s_run (n_b n) \<and> s_commits x = [] \<and> out = []"
      using deliver_invalid[of cb "n_b n" send e x out] ok b_recv ev by (simp add: net_ok_def)
    then have "side_ok cb x" "peer_ok ca x" using ok c0 by (simp_all add: net_ok_def side_ok_def peer_ok_def)
    moreover have "before_start cb n' \<or> phase cb ca x (n_a n) (n_ba n) rest"
    proof (cases "before_start cb n")
      case True
      with dl b_recv before_start_drop(1)[OF True b_recv(3)] show ?thesis by (auto simp: before_start_def idle_def)
    next
      case False
      then have "phase cb ca (n_b n) (n_a n) (n_ba n) rest"
        using ok b_recv(3) phase_sym[of ca cb] phase_consume[of cb ca "n_b n" "n_a n" "n_ba n" m rest] c0
        by (simp add: net_ok_def)
      with dl c0 status_run[of x "n_b n"] show ?thesis by (simp add: phase_defs)
    qed
    ultimately show ?thesis using dl ok b_recv phase_sym[of ca cb] by (auto simp: net_ok_def)
  qed
next
  case a_stop
  with ok show ?thesis
    by (simp add: net_ok_def side_ok_def peer_ok_def before_start_def phase_stop)
next
  case b_stop
  with ok show ?thesis
    by (simp add: net_ok_def side_ok_def peer_ok_def before_start_def phase_stop)
qed

lemma reachable_net_ok: "reachable ca cb n \<Longrightarrow> roles ca cb \<Longrightarrow> net_ok ca cb n"
  by (induction rule: reachable.induct) (blast intro: net_ok_init net_ok_step)+

section \<open>A loss-free exchange\<close>

text \<open>Deliver what is in flight, the responder first, at most \<open>k\<close> messages.\<close>

primrec exchange :: "nat \<Rightarrow> Config \<Rightarrow> Config \<Rightarrow> net \<Rightarrow> net" where
  "exchange 0 ca cb n = n"
| "exchange (Suc k) ca cb n =
    (case (n_ab n, n_ba n) of
       (m # rest, _) \<Rightarrow>
         if s_live (n_b n) then
           (case deliver cb (\<lambda>_. None) (n_b n) (ReadMessage m) of
              (x, out) \<Rightarrow> exchange k ca cb (n\<lparr>n_b := x, n_ab := rest, n_ba := n_ba n @ out\<rparr>))
         else n
     | ([], m # rest) \<Rightarrow>
         if s_live (n_a n) then
           (case deliver ca (\<lambda>_. None) (n_a n) (ReadMessage m) of
              (x, out) \<Rightarrow> exchange k ca cb (n\<lparr>n_a := x, n_ba := rest, n_ab := n_ab n @ out\<rparr>))
         else n
     | ([], []) \<Rightarrow> n)"

lemma exchange_reachable: "reachable ca cb n \<Longrightarrow> reachable ca cb (exchange k ca cb n)"
proof (induction k arbitrary: n)
  case (Suc k)
  show ?case
  proof (cases "n_ab n")
    case (Cons m rest)
    obtain x out where d: "deliver cb (\<lambda>_. None) (n_b n) (ReadMessage m) = (x, out)" by fastforce
    show ?thesis
    proof (cases "s_live (n_b n)")
      case True
      have "net_step ca cb n (n\<lparr>n_b := x, n_ab := rest, n_ba := n_ba n @ out\<rparr>)"
        by (rule net_step.b_recv[OF True Cons _ d]) simp
      from reachable.step[OF Suc.prems this] Suc.IH True Cons d show ?thesis by simp
    qed (use Suc.prems Cons in simp)
  next
    case Nil
    show ?thesis
    proof (cases "n_ba n")
      case (Cons m rest)
      obtain x out where d: "deliver ca (\<lambda>_. None) (n_a n) (ReadMessage m) = (x, out)" by fastforce
      show ?thesis
      proof (cases "s_live (n_a n)")
        case True
        have "net_step ca cb n (n\<lparr>n_a := x, n_ba := rest, n_ab := n_ab n @ out\<rparr>)"
          by (rule net_step.a_recv[OF True Cons _ d]) simp
        from reachable.step[OF Suc.prems this] Suc.IH True Cons Nil d show ?thesis by simp
      qed (use Suc.prems Cons Nil in simp)
    qed (use Suc.prems Nil in simp)
  qed
qed simp

definition compatible :: "Config \<Rightarrow> Config \<Rightarrow> Proposal \<Rightarrow> bool" where
  "compatible ca cb p =
    (roles ca cb \<and> UUID (LocalUID ca) \<noteq> UUID (LocalUID cb)
     \<and> withinAddress (LocalLoopbackV6 ca) (LoopbackPoolV6 cb)
     \<and> withinAddress (LocalLoopbackV6 cb) (LoopbackPoolV6 ca)
     \<and> derive ca (LocalUID cb) 0 = Inr p \<and> acceptable ca (LocalUID cb) p
     \<and> withinPrefix (p_V4 p) (LinkPoolV4 cb) \<and> withinPrefix (p_V6 p) (LinkPoolV6 cb)
     \<and> acceptable cb (LocalUID ca) p
     \<and> call1 (CommitResult ca) \<lparr>res_RemoteUID = LocalUID cb, res_RemoteLoopbackV6 = LocalLoopbackV6 cb, res_Proposal = p\<rparr> = None
     \<and> call1 (CommitResult cb) \<lparr>res_RemoteUID = LocalUID ca, res_RemoteLoopbackV6 = LocalLoopbackV6 ca, res_Proposal = p\<rparr> = None)"

lemmas engine_defs = deliver_def run_event_def read_message_def handle_def handleOpen_def handleNodeState_def
  start_def link_handle_def handleProposal_def takeCommit_def markEstablished_def send_reply_def
  enter_operational_def Let_def

lemma compatible_exchange:
  assumes "compatible ca cb p"
  shows "s_commits (n_a (exchange 6 ca cb (new_net ca cb)))
       = [\<lparr>res_RemoteUID = LocalUID cb, res_RemoteLoopbackV6 = LocalLoopbackV6 cb, res_Proposal = p\<rparr>]
    \<and> s_commits (n_b (exchange 6 ca cb (new_net ca cb)))
       = [\<lparr>res_RemoteUID = LocalUID ca, res_RemoteLoopbackV6 = LocalLoopbackV6 ca, res_Proposal = p\<rparr>]"
proof -
  have np: "nextProposal ca (new_link (LocalUID cb) v)
      = ((new_link (LocalUID cb) v)\<lparr>attempt := 1, seen := [proposalKey p]\<rparr>, Inr p)" for v
    using assms by (subst nextProposal.simps) (simp add: compatible_def new_link_def Let_def)
  have six: "exchange 6 = exchange (Suc (Suc (Suc (Suc (Suc (Suc 0))))))" by (simp add: numeral_eq_Suc)
  have ne: "UUID (LocalUID cb) \<noteq> UUID (LocalUID ca)" using assms by (auto simp: compatible_def)
  have eta: "\<lparr>p_V4 = p_V4 p, p_V6 = p_V6 p\<rparr> = p" by simp
  show ?thesis
    unfolding six new_net_def
    using assms np ne
    by (simp add: eta compatible_def roles_def link_bound_def new_side_def new_run_def new_session_def open_message_def
        engine_defs new_link_def proposalMessage_def link_result_def)
qed

section \<open>How many proposals are made\<close>

definition budget :: "sessionFSM \<Rightarrow> nat" where
  "budget s = (case link s of None \<Rightarrow> if stateReceived s then 0 else 64 | Some l \<Rightarrow> 64 - unat (attempt l))"

definition proposals :: "effect list \<Rightarrow> nat" where
  "proposals effs = length (filter (\<lambda>m. m_Type m = LinkPropose) (sent effs))"

lemma sent_append [simp]: "sent (xs @ ys) = sent xs @ sent ys"
  by (simp add: sent_def)

lemma proposals_append [simp]: "proposals (xs @ ys) = proposals xs + proposals ys"
  by (simp add: proposals_def)

lemma enter_operational_sent: "enter_operational cfg r m = (effs, res) \<Longrightarrow> sent effs = []"
  by (auto simp: enter_operational_def Let_def split: if_splits option.splits)

lemma send_reply_sent:
  assumes "send_reply cfg send r m outbound = (effs, res)"
  shows "sent effs = [] \<or> (\<exists>y. outbound = Some y \<and> sent effs = [y])"
proof -
  obtain e o' where en: "enter_operational cfg r m = (e, o')" by fastforce
  show ?thesis
    using assms en enter_operational_sent[OF en] by (cases outbound) (auto simp: send_reply_def split: option.splits)
qed

definition remaining :: "outcome \<Rightarrow> nat" where
  "remaining res = (case res of Continue r \<Rightarrow> budget (fsm r) | Return e \<Rightarrow> 0)"

lemma read_message_tail:
  assumes "\<not> operational (fsm r)" "handle cfg (fsm r) m = (s', out, d, None)"
    and step: "read_message cfg send r m = (effs, res)"
  shows "proposals effs \<le> (case out of None \<Rightarrow> 0 | Some y \<Rightarrow> if m_Type y = LinkPropose then 1 else 0)"
    and "takeCommit s' = (s', None) \<Longrightarrow> res = Continue r' \<Longrightarrow> fsm r' = s'"
proof -
  obtain s'' c where tc: "takeCommit s' = (s'', c)" by fastforce
  have sr: "proposals e \<le> (case out of None \<Rightarrow> 0 | Some y \<Rightarrow> if m_Type y = LinkPropose then 1 else 0)"
    if "send_reply cfg send r1 m out = (e, o')" for r1 e o'
    using send_reply_sent[OF that] by (auto simp: proposals_def)
  show "proposals effs \<le> (case out of None \<Rightarrow> 0 | Some y \<Rightarrow> if m_Type y = LinkPropose then 1 else 0)"
  proof (cases c)
    case None
    with assms tc show ?thesis by (auto simp: read_message_def intro!: sr)
  next
    case (Some x)
    obtain e o' where e: "send_reply cfg send (r\<lparr>fsm := markEstablished s''\<rparr>) m out = (e, o')" by fastforce
    from Some assms tc e have "effs = [] \<or> effs = Committed x # e"
      by (auto simp: read_message_def split: option.splits)
    with sr[OF e] show ?thesis by (auto simp: proposals_def)
  qed
  assume "takeCommit s' = (s', None)" "res = Continue r'"
  with assms have "send_reply cfg send (r\<lparr>fsm := s'\<rparr>) m out = (effs, Continue r')"
    by (simp add: read_message_def)
  from send_reply_facts(2)[OF this refl] show "fsm r' = s'" by simp
qed

lemma takeCommit_session_ok: "session_ok cfg s \<Longrightarrow> takeCommit s = (s, None)"
  by (cases "link s") (auto simp: takeCommit_def session_ok_def link_ok_def)

lemma commit_returns:
  assumes "session_ok cfg (fsm r)" "\<not> operational (fsm r)" "handle cfg (fsm r) m = (s', out, d, None)"
    "takeCommit s' = (s'', Some x)" "read_message cfg send r m = (effs, res)"
  shows "\<exists>e. res = Return e"
proof (cases "call1 (CommitResult cfg) x")
  case (Some e)
  with assms show ?thesis by (auto simp: read_message_def)
next
  case None
  with assms have "Committed x \<in> set effs" by (auto simp: read_message_def split: prod.splits)
  with read_message_step_ok[OF assms(1,5)] show ?thesis by (auto simp: step_ok_def split: outcome.splits)
qed

lemma read_message_budget:
  assumes ok: "session_ok cfg (fsm r)" and step: "read_message cfg send r m = (effs, res)"
    and first: "\<And>f. FirstMessage cfg = Some f \<Longrightarrow> m_Type f \<noteq> LinkPropose"
  shows "proposals effs + remaining res \<le> budget (fsm r)"
proof (cases "operational (fsm r)")
  case True
  with step show ?thesis
    by (auto simp: read_message_def proposals_def remaining_def split: if_splits option.splits)
next
  case nop: False
  obtain s' out d err where h: "handle cfg (fsm r) m = (s', out, d, err)" by (metis prod_cases4)
  show ?thesis
  proof (cases err)
    case (Some e)
    from ok nop h show ?thesis
      by (cases rule: handle_cases)
        (use Some step nop h in \<open>auto simp: read_message_def proposals_def remaining_def\<close>)
  next
    case None
    note tail = read_message_tail[OF nop h[unfolded None] step]
    have quiet: ?thesis
      if s': "session_ok cfg s'" and le: "(case out of None \<Rightarrow> 0 | Some y \<Rightarrow> if m_Type y = LinkPropose then 1 else 0) + budget s' \<le> budget (fsm r)"
    proof -
      have "remaining res \<le> budget s'"
        using tail(2)[OF takeCommit_session_ok[OF s']] by (cases res) (auto simp: remaining_def)
      with tail(1) le show ?thesis by linarith
    qed
    have commit: ?thesis if "takeCommit s' = (s'', Some x)" "out = None \<or> out = Some (message_of LinkAccept)" for s'' x
      using commit_returns[OF ok nop h[unfolded None] that(1) step] tail(1) that(2) by (auto simp: remaining_def)
    from ok nop h show ?thesis
    proof (cases rule: handle_cases)
      case (introduced uid)
      with ok nop show ?thesis by (intro quiet) (auto simp: session_ok_def budget_def split: option.splits)
    next
      case operating
      with ok nop first show ?thesis by (intro quiet) (auto simp: session_ok_def budget_def)
    next
      case (durable l)
      with ok nop show ?thesis by (intro quiet) (auto simp: session_ok_def budget_def)
    next
      case (starting l)
      then have "\<not> stateReceived (fsm r)" using ok nop by (auto simp: session_ok_def)
      with starting ok nop show ?thesis by (intro quiet) (auto simp: session_ok_def budget_def link_ok_def)
    next
      case (listening l)
      then have "\<not> stateReceived (fsm r)" using ok nop by (auto simp: session_ok_def)
      with listening ok nop show ?thesis by (intro quiet) (auto simp: session_ok_def budget_def)
    next
      case (accepting l k)
      then show ?thesis by (intro commit) (auto simp: takeCommit_def)
    next
      case (countering l l')
      with ok nop show ?thesis by (intro quiet) (auto simp: session_ok_def budget_def link_ok_def)
    next
      case (accepted l)
      then show ?thesis by (intro commit) (auto simp: takeCommit_def)
    qed (use None in auto)
  qed
qed

lemma run_events_budget:
  assumes "session_ok cfg (fsm r)" "run_events cfg send r evs = (effs, res)"
    and first: "\<And>f. FirstMessage cfg = Some f \<Longrightarrow> m_Type f \<noteq> LinkPropose"
  shows "proposals effs \<le> budget (fsm r)"
  using assms(1,2)
proof (induction evs arbitrary: r effs res)
  case Nil
  then show ?case by (auto simp: proposals_def)
next
  case (Cons ev evs)
  obtain e1 o1 where step: "run_event cfg send r ev = (e1, o1)" by fastforce
  have b: "proposals e1 + remaining o1 \<le> budget (fsm r)"
    using step read_message_budget[OF Cons.prems(1) _ first]
    by (cases ev) (auto simp: run_event_def proposals_def remaining_def split: if_splits)
  show ?case
  proof (cases o1)
    case (Return e)
    with step Cons.prems b show ?thesis by auto
  next
    case (Continue r')
    obtain e2 o2 where rest: "run_events cfg send r' evs = (e2, o2)" by fastforce
    have "session_ok cfg (fsm r')" using run_event_step_ok[OF Cons.prems(1) step] Continue by (simp add: step_ok_def)
    from Cons.IH[OF this rest] b step Continue rest Cons.prems(2) show ?thesis by (auto simp: remaining_def)
  qed
qed

section \<open>Transport\<close>

text \<open>
  \<^verbatim>\<open>message.Write\<close>: the octets that reach the connection; a short write is retried with the rest,
  so a successful call has written the whole frame.  \<^verbatim>\<open>readLoop\<close>: the events the octets of a
  connection give rise to, up to the error that ends the loop.
\<close>

definition Write :: "Message \<Rightarrow> bytes result" where
  "Write m = (if udp_type (m_Type m) then Inl (ErrFrame ''discovery is not valid over TCP'') else Encode m)"

definition readLoop :: "bytes \<Rightarrow> event list" where
  "readLoop r =
    (case read_frames r of (frames, e) \<Rightarrow>
       map (\<lambda>f. case Decode f of Inl e \<Rightarrow> ReadInvalid e | Inr m \<Rightarrow> ReadMessage m) frames @ [ReadFailed e])"

lemma written_frames:
  assumes "list_all (\<lambda>m. message_canon m \<and> \<not> udp_type (m_Type m)) ms"
  shows "\<exists>fs. map Write ms = map Inr fs \<and> read_frames (concat fs) = (fs, ErrConnection ''read header'')
    \<and> map Decode fs = map Inr ms"
proof -
  have "list_all message_canon ms" using assms by (auto simp: list_all_iff)
  moreover have "map Write ms = map Encode ms" using assms by (auto simp: list_all_iff Write_def)
  ultimately show ?thesis using stream_roundtrip[of ms] by (simp only:)
qed

section \<open>Sample configurations\<close>

definition sample_config :: "bool \<Rightarrow> array16 \<Rightarrow> array16 \<Rightarrow> Config" where
  "sample_config initiator uid host =
    \<lparr>Initiator = initiator, FirstMessage = None, Context = LinkBoundSession,
     LocalUID = \<lparr>UUID = uid, Name = []\<rparr>, LocalLoopbackV6 = Addr6 (0xfd000000000000000000000000000000 + host) [],
     ExpectedRemoteLoopbackV6 = NoAddr, LinkPoolV4 = sample_pool4, LinkPoolV6 = NoPrefix,
     LoopbackPoolV6 = sample_pool6, FabricPSK = [1], LinkOverrides = [],
     AcceptProposal = None, CommitResult = None, Operational = None, OperationalMessage = None,
     mac_of = (\<lambda>k m. [0xAB, 0xCD, 0xEF]), parse_of = (\<lambda>_. None)\<rparr>"

definition sample_proposal :: Proposal where
  "sample_proposal = \<lparr>p_V4 = Prefix (Addr4 0x0AABCDEC) 30, p_V6 = NoPrefix\<rparr>"

lemma sample_compatible: "compatible (sample_config True 1 1) (sample_config False 2 2) sample_proposal"
  by code_simp

lemma phase_commits:
  assumes "phase cx cy x y xy yx"
  shows "(s_commits x = [] \<and> s_commits y = []) \<or> (\<exists>p. agreed x p \<and> s_commits y = [])
    \<or> (\<exists>p. s_commits x = [] \<and> agreed y p) \<or> (\<exists>p. agreed x p \<and> agreed y p)"
  using assms unfolding phase_def
proof (elim disjE)
qed (auto simp: asks_def answered_def settled_def waits_def idle_def)

section \<open>Properties\<close>

text \<open>
  C1: agreement.  Whatever the order of deliveries, losses of frames, failures of sends and
  commits and early stops, the two ends of a connection never commit different results: each
  end commits at most once, and when both have committed they hold the same proposal, each with
  the identity and the loopback of the other.
\<close>
theorem negotiation_agrees:
  assumes "roles ca cb" "reachable ca cb n"
  shows "length (s_commits (n_a n)) \<le> 1 \<and> length (s_commits (n_b n)) \<le> 1
    \<and> (\<forall>ra rb. s_commits (n_a n) = [ra] \<and> s_commits (n_b n) = [rb] \<longrightarrow>
        res_Proposal ra = res_Proposal rb
        \<and> res_RemoteUID ra = LocalUID cb \<and> res_RemoteUID rb = LocalUID ca
        \<and> res_RemoteLoopbackV6 ra = LocalLoopbackV6 cb \<and> res_RemoteLoopbackV6 rb = LocalLoopbackV6 ca)"
proof -
  have ok: "net_ok ca cb n" using assms by (simp add: reachable_net_ok)
  then have peers: "peer_ok cb (n_a n)" "peer_ok ca (n_b n)" by (simp_all add: net_ok_def)
  have "before_start cb n \<or> phase ca cb (n_a n) (n_b n) (n_ab n) (n_ba n)" using ok by (simp add: net_ok_def)
  then have "(s_commits (n_a n) = [] \<and> s_commits (n_b n) = []) \<or> (\<exists>p. agreed (n_a n) p \<and> s_commits (n_b n) = [])
      \<or> (\<exists>p. s_commits (n_a n) = [] \<and> agreed (n_b n) p) \<or> (\<exists>p. agreed (n_a n) p \<and> agreed (n_b n) p)"
    using phase_commits unfolding before_start_def idle_def by blast
  then consider "s_commits (n_a n) = []" "s_commits (n_b n) = []"
    | p where "agreed (n_a n) p" "s_commits (n_b n) = []" | p where "s_commits (n_a n) = []" "agreed (n_b n) p"
    | p where "agreed (n_a n) p" "agreed (n_b n) p"
    by blast
  then show ?thesis
  proof cases
    case (4 p)
    then obtain ra rb where r: "s_commits (n_a n) = [ra]" "s_commits (n_b n) = [rb]"
      "res_Proposal ra = p" "res_Proposal rb = p" by (auto simp: agreed_def)
    have "res_RemoteUID ra = LocalUID cb \<and> res_RemoteLoopbackV6 ra = LocalLoopbackV6 cb"
      "res_RemoteUID rb = LocalUID ca \<and> res_RemoteLoopbackV6 rb = LocalLoopbackV6 ca"
      using peers r(1,2) by (simp_all add: peer_ok_def)
    with r show ?thesis by simp
  qed (auto simp: agreed_def)
qed

theorem negotiation_agrees_witness:
  "\<exists>(n :: net) ra rb. s_commits (n_a n) = [ra] \<and> s_commits (n_b n) = [rb] \<and> res_Proposal ra = res_Proposal rb
    \<and> res_RemoteUID ra = LocalUID (sample_config False 2 2) \<and> res_RemoteUID rb = LocalUID (sample_config True 1 1)"
proof -
  let ?ca = "sample_config True 1 1" and ?cb = "sample_config False 2 2"
  have roles: "roles ?ca ?cb" using sample_compatible by (simp add: compatible_def)
  let ?n = "exchange 6 ?ca ?cb (new_net ?ca ?cb)"
  have reach: "reachable ?ca ?cb ?n" by (rule exchange_reachable, rule reachable.init)
  obtain ra rb where "s_commits (n_a ?n) = [ra]" "s_commits (n_b ?n) = [rb]"
    using compatible_exchange[OF sample_compatible] by blast
  moreover from this negotiation_agrees[OF roles reach] have "res_Proposal ra = res_Proposal rb"
    "res_RemoteUID ra = LocalUID ?cb" "res_RemoteUID rb = LocalUID ?ca" by blast+
  ultimately show ?thesis by blast
qed



text \<open>
  C5: what a session hands to its commit callback.  Over any sequence of events at most one result
  is committed; after it the loop only sends the final LINK_ACCEPT and returns.  The result
  names a node other than the local one, a loopback inside the Fabric prefix, and a proposal
  acceptable here that lies inside the link pools or is one of our own 64 candidates.
\<close>
theorem commit_once_and_valid:
  assumes "Run cfg send evs = (effs, res)" "Committed x \<in> set effs"
  shows "(\<exists>e. res = Return e) \<and> result_ok cfg x \<and> UUID (res_RemoteUID x) \<noteq> UUID (LocalUID cfg)
    \<and> withinAddress (res_RemoteLoopbackV6 x) (LoopbackPoolV6 cfg)
    \<and> (\<exists>pre rest. effs = pre @ Committed x # rest \<and> (\<forall>y. Committed y \<notin> set pre)
        \<and> set rest \<subseteq> {Sent (message_of LinkAccept)})"
proof -
  obtain e1 o1 where r: "run_events cfg send new_run evs = (e1, o1)" by fastforce
  from assms r have eq: "effs = Sent (open_message cfg) # e1" "res = o1" "Committed x \<in> set e1"
    by (auto simp: Run_def split: option.splits)
  have "session_ok cfg (fsm new_run)" by (simp add: new_run_def new_session_ok)
  from run_events_ok[OF this r] eq(3) obtain e pre rest where
    *: "o1 = Return e" "result_ok cfg x" "UUID (res_RemoteUID x) \<noteq> UUID (LocalUID cfg)"
      "withinAddress (res_RemoteLoopbackV6 x) (LoopbackPoolV6 cfg)" "e1 = pre @ Committed x # rest"
      "\<forall>y. Committed y \<notin> set pre" "set rest \<subseteq> {Sent (message_of LinkAccept)}"
    by (cases o1) auto
  then have "effs = (Sent (open_message cfg) # pre) @ Committed x # rest"
    "\<forall>y. Committed y \<notin> set (Sent (open_message cfg) # pre)" using eq(1) by simp_all
  with * eq(2) show ?thesis by blast
qed

definition sample_events :: "event list" where
  "sample_events = [ReadMessage (open_message (sample_config True 1 1)),
     ReadMessage ((message_of NodeState)\<lparr>m_LoopbackV6 := LocalLoopbackV6 (sample_config True 1 1)\<rparr>),
     ReadMessage (proposalMessage sample_proposal)]"

definition sample_result :: Result where
  "sample_result = \<lparr>res_RemoteUID = \<lparr>UUID = 1, Name = []\<rparr>,
     res_RemoteLoopbackV6 = Addr6 0xfd000000000000000000000000000001 [], res_Proposal = sample_proposal\<rparr>"

theorem commit_once_and_valid_witness:
  "result_ok (sample_config False 2 2) sample_result"
proof -
  obtain effs res where r: "Run (sample_config False 2 2) (\<lambda>_. None) sample_events = (effs, res)" by fastforce
  have "Committed sample_result \<in> set (fst (Run (sample_config False 2 2) (\<lambda>_. None) sample_events))"
    by code_simp
  with r have "Committed sample_result \<in> set effs" by simp
  from commit_once_and_valid[OF r this] show ?thesis by simp
qed

text \<open>
  A session sends at most 64 LINK_PROPOSE messages, over any sequence of events, so that a
  negotiation between two ends always ends.
\<close>
lemma proposals_bounded:
  assumes "Run cfg send evs = (effs, res)"
    and "\<And>f. FirstMessage cfg = Some f \<Longrightarrow> m_Type f = DurablePropose"
  shows "proposals effs \<le> 64"
proof (cases "send (open_message cfg)")
  case (Some e)
  with assms show ?thesis by (auto simp: Run_def proposals_def)
next
  case None
  obtain e1 o1 where r: "run_events cfg send new_run evs = (e1, o1)" by fastforce
  have "session_ok cfg (fsm new_run)" by (simp add: new_run_def new_session_ok)
  from run_events_budget[OF this r] assms(2)
  have "proposals e1 \<le> budget (fsm new_run)" by fastforce
  moreover have "budget (fsm new_run) = 64" by (simp add: budget_def new_run_def new_session_def)
  moreover have "effs = Sent (open_message cfg) # e1" using assms(1) None r by (simp add: Run_def)
  ultimately show ?thesis by (simp add: proposals_def open_message_def)
qed


text \<open>
  The counterproposal search returns a proposal only if it is acceptable, was derived by one of
  the attempts not yet used, and has not been seen before in this session; it then counts as seen.
  It uses up attempts and never goes past 64.
\<close>
lemma nextProposal_fresh:
  assumes "nextProposal cfg s = (s', res)" "unat (attempt s) \<le> 64"
  shows "unat (attempt s) \<le> unat (attempt s') \<and> unat (attempt s') \<le> 64 \<and> set (seen s) \<subseteq> set (seen s')
    \<and> (\<forall>p. res = Inr p \<longrightarrow> own_proposal cfg (l_remoteUID s) p \<and> proposalKey p \<notin> set (seen s)
        \<and> proposalKey p \<in> set (seen s') \<and> unat (attempt s) < unat (attempt s'))"
  using nextProposal_facts[OF assms] by auto




end
