(* ===== verification/Inference.thy ===== *)
theory Inference
  imports Netip
begin

text \<open>
  Endpoint inference, \<^verbatim>\<open>internal/inference\<close>: evidence and its single-candidate baseline
  (\<^verbatim>\<open>inference.go\<close>), the store of mapping samples, the derivation of candidate endpoints from a
  snapshot of the store, and the measurement plan (\<^verbatim>\<open>survey.go\<close>).  The lemmas show that every
  candidate offered is a usable endpoint of the right family, that what is observed comes before
  what is guessed, that a node with a usable address is never left without a candidate, and that
  a plan asks only for measurements that are new.
\<close>

section \<open>Evidence\<close>

record Evidence =
  ev_Link :: string
  ev_LocalListenPort :: u16
  ev_ObservedEndpoint :: addrport

definition EvidenceValid :: "Evidence \<Rightarrow> bool" where
  "EvidenceValid e = (ev_Link e \<noteq> [] \<and> ev_LocalListenPort e \<noteq> 0
     \<and> AP_IsValid (ev_ObservedEndpoint e) \<and> ap_Port (ev_ObservedEndpoint e) \<noteq> 0)"

definition NewEvidence :: "string \<Rightarrow> int \<Rightarrow> addrport \<Rightarrow> Evidence result" where
  "NewEvidence link localListenPort observed =
    (if link = [] then Inl (ErrNew ''endpoint evidence has no Link identity'')
     else if localListenPort < 1 \<or> 65535 < localListenPort
     then Inl (ErrNew ''endpoint evidence has an invalid local listen port'')
     else if \<not> AP_IsValid observed \<or> ap_Port observed = 0
     then Inl (ErrNew ''endpoint evidence has an invalid observed endpoint'')
     else Inr \<lparr>ev_Link = link, ev_LocalListenPort = word_of_int localListenPort, ev_ObservedEndpoint = observed\<rparr>)"

definition Baseline :: "Evidence list \<Rightarrow> int \<Rightarrow> addrport option" where
  "Baseline evidence listenPort =
    (case evidence of
       [] \<Rightarrow> None
     | e # _ \<Rightarrow>
       if \<not> EvidenceValid e \<or> listenPort < 1 \<or> 65535 < listenPort then None
       else Some (AddrPort (ap_Addr (ev_ObservedEndpoint e)) (word_of_int listenPort)))"

section \<open>The store of observations\<close>

record Observation =
  o_Local :: addrport
  o_Remote :: addrport
  o_Seen :: addrport

definition usableEndpoint :: "addrport \<Rightarrow> bool" where
  "usableEndpoint ep = (AP_IsValid ep \<and> ap_Port ep \<noteq> 0 \<and> \<not> IsUnspecified (ap_Addr ep) \<and> \<not> IsMulticast (ap_Addr ep))"

abbreviation is4 :: "addrport \<Rightarrow> bool" where
  "is4 ep \<equiv> Is4 (ap_Addr ep)"

definition ObservationValid :: "Observation \<Rightarrow> bool" where
  "ObservationValid ob = (usableEndpoint (o_Local ob) \<and> usableEndpoint (o_Remote ob) \<and> usableEndpoint (o_Seen ob)
     \<and> is4 (o_Local ob) = is4 (o_Remote ob) \<and> is4 (o_Local ob) = is4 (o_Seen ob))"

type_synonym Store = "Observation list"

definition Add :: "Store \<Rightarrow> Observation \<Rightarrow> Store \<times> bool" where
  "Add s ob = (if \<not> ObservationValid ob \<or> ob \<in> set s then (s, False) else (s @ [ob], True))"

definition Snapshot :: "Store \<Rightarrow> Observation list" where
  "Snapshot s = s"

definition ForgetLocal :: "Store \<Rightarrow> addrport \<Rightarrow> Store" where
  "ForgetLocal s local = filter (\<lambda>ob. o_Local ob \<noteq> local) s"

section \<open>Candidates and plans\<close>

record Observer =
  ob_Bootstrap :: bool
  ob_Endpoints :: "addrport list"

record Measurement =
  me_Local :: addrport
  me_Remote :: addrport

record MeasurementGroup =
  mg_Bootstrap :: bool
  mg_Steps :: "Measurement list"

record EndpointRange =
  r_Addr :: addr
  r_First :: u16
  r_Last :: u16

definition Count :: "EndpointRange \<Rightarrow> int" where
  "Count r = (if \<not> IsValid (r_Addr r) \<or> r_First r = 0 \<or> r_Last r < r_First r then 0
     else uint (r_Last r) - uint (r_First r) + 1)"

record CandidateBatch =
  cb_Basis :: string
  cb_Ranges :: "EndpointRange list"

record SurveyInput =
  in_Local :: addrport
  in_Target :: addrport
  in_PublicIPs :: "addr list"
  in_Observers :: "Observer list"
  in_BaseOnly :: bool

record Prediction =
  pr_Candidates :: "CandidateBatch list"
  pr_Plan :: "MeasurementGroup list"

text \<open>The closure \<^verbatim>\<open>addIP\<close>: usable addresses of the local family, each once, in order.\<close>

definition addIP :: "SurveyInput \<Rightarrow> addr \<Rightarrow> addr list \<Rightarrow> addr list" where
  "addIP input ip ips =
    (if IsValid ip \<and> \<not> IsUnspecified ip \<and> \<not> IsMulticast ip \<and> Is4 ip = is4 (in_Local input) \<and> ip \<notin> set ips
     then ips @ [ip] else ips)"

definition relevant_of :: "Observation list \<Rightarrow> SurveyInput \<Rightarrow> Observation list" where
  "relevant_of samples input =
    filter (\<lambda>ob. ObservationValid ob \<and> ap_Addr (o_Local ob) = ap_Addr (in_Local input)) samples"

definition ips_of :: "Observation list \<Rightarrow> SurveyInput \<Rightarrow> addr list" where
  "ips_of relevant input =
    fold (\<lambda>ob. addIP input (ap_Addr (o_Seen ob))) relevant (fold (addIP input) (in_PublicIPs input) [])"

definition point :: "addrport \<Rightarrow> EndpointRange" where
  "point ep = \<lparr>r_Addr = ap_Addr ep, r_First = ap_Port ep, r_Last = ap_Port ep\<rparr>"

text \<open>The closure \<^verbatim>\<open>add\<close> appends a batch when one of its endpoints is usable.\<close>

definition add_batch :: "string \<Rightarrow> addrport list \<Rightarrow> CandidateBatch list" where
  "add_batch basis endpoints =
    (let ranges = fold (\<lambda>ep rs. if usableEndpoint ep \<and> point ep \<notin> set rs then rs @ [point ep] else rs) endpoints []
     in if ranges = [] then [] else [\<lparr>cb_Basis = basis, cb_Ranges = ranges\<rparr>])"

definition baseline_batches :: "addr list \<Rightarrow> SurveyInput \<Rightarrow> CandidateBatch list" where
  "baseline_batches ips input =
    concat (map (\<lambda>ip. add_batch ''port-preservation-hypothesis'' [AddrPort ip (ap_Port (in_Local input))]) ips)"

definition observed_batches :: "Observation list \<Rightarrow> SurveyInput \<Rightarrow> CandidateBatch list" where
  "observed_batches current input =
    concat (map (\<lambda>ob. if o_Remote ob = in_Target input then add_batch ''observed-target'' [o_Seen ob] else []) current)
    @ concat (map (\<lambda>ob.
        if ap_Addr (o_Remote ob) = ap_Addr (in_Target input) \<and> o_Remote ob \<noteq> in_Target input
        then add_batch ''target-address-mapping-hypothesis'' [o_Seen ob] else []) current)
    @ (case current of
         [] \<Rightarrow> []
       | first # _ \<Rightarrow>
         if list_all (\<lambda>ob. o_Seen ob = o_Seen first) current
         then add_batch ''shared-mapping-hypothesis'' [o_Seen first] else [])"

definition add_new :: "'a \<Rightarrow> 'a list \<Rightarrow> 'a list" where
  "add_new x xs = (if x \<in> set xs then xs else xs @ [x])"

text \<open>The distinct elements in the order of their first occurrence.\<close>

definition firsts :: "'a list \<Rightarrow> 'a list" where
  "firsts xs = fold add_new xs []"

abbreviation port_int :: "addrport \<Rightarrow> int" where
  "port_int ep \<equiv> uint (ap_Port ep)"

definition offset_batch :: "Observation list \<Rightarrow> SurveyInput \<Rightarrow> addrport \<Rightarrow> CandidateBatch list" where
  "offset_batch relevant input remote =
    (case filter (\<lambda>ob. o_Remote ob = remote) relevant of
       [] \<Rightarrow> []
     | first # rest \<Rightarrow>
       let group = first # rest;
           delta = port_int (o_Seen first) - port_int (o_Local first);
           locals = remdups (map o_Local group);
           consistent = list_all (\<lambda>ob. ap_Addr (o_Seen ob) = ap_Addr (o_Seen first)
             \<and> port_int (o_Seen ob) - port_int (o_Local ob) = delta) group;
           port = port_int (in_Local input) + delta
       in if consistent \<and> 3 \<le> length locals \<and> 0 < port \<and> port \<le> 65535
          then add_batch ''local-port-offset-hypothesis'' [AddrPort (ap_Addr (o_Seen first)) (word_of_int port)]
          else [])"

definition sequence_batch :: "Observation list \<Rightarrow> addr \<Rightarrow> CandidateBatch list" where
  "sequence_batch relevant ip =
    (let ports = firsts (map (\<lambda>ob. ap_Port (o_Seen ob)) (filter (\<lambda>ob. ap_Addr (o_Seen ob) = ip) relevant));
         n = length ports
     in if n < 3 then []
        else
          let d1 = uint (ports ! (n - 1)) - uint (ports ! (n - 2));
              d2 = uint (ports ! (n - 2)) - uint (ports ! (n - 3))
          in if 0 < d1 \<and> d1 \<le> 8 \<and> d1 = d2 then
               [\<lparr>cb_Basis = ''allocation-sequence-hypothesis'',
                 cb_Ranges = [\<lparr>r_Addr = ip,
                   r_First = word_of_int (max 1 (uint (ports ! (n - 3)) - 4)),
                   r_Last = word_of_int (min 65535 (uint (ports ! (n - 1)) + d1 + 4))\<rparr>]\<rparr>]
             else [])"

section \<open>Measurement plan\<close>

definition survey_locals :: "SurveyInput \<Rightarrow> addrport list" where
  "survey_locals input =
    in_Local input # map (\<lambda>offset.
      let port = port_int (in_Local input) + offset;
          port = (if 65535 < port then port_int (in_Local input) - offset else port)
      in AddrPort (ap_Addr (in_Local input)) (word_of_int port)) [1, 2]"

definition plan_step ::
  "Measurement \<Rightarrow> Measurement list \<times> Measurement list \<Rightarrow> Measurement list \<times> Measurement list" where
  "plan_step step acc =
    (case acc of (steps, seen) \<Rightarrow>
      if usableEndpoint (me_Remote step) \<and> is4 (me_Local step) = is4 (me_Remote step) \<and> step \<notin> set seen
      then (steps @ [step], step # seen) else (steps, seen))"

definition observer_pairs :: "SurveyInput \<Rightarrow> Observer \<Rightarrow> Measurement list" where
  "observer_pairs input ob =
    concat (map (\<lambda>local. map (\<lambda>remote. \<lparr>me_Local = local, me_Remote = remote\<rparr>)
      (take 2 (ob_Endpoints ob))) (survey_locals input))"

definition plan_observer ::
  "SurveyInput \<Rightarrow> Observer \<Rightarrow> MeasurementGroup list \<times> Measurement list \<Rightarrow> MeasurementGroup list \<times> Measurement list" where
  "plan_observer input ob acc =
    (case acc of (plan, seen) \<Rightarrow>
      (case fold plan_step (observer_pairs input ob) ([], seen) of (steps, seen) \<Rightarrow>
        (if steps = [] then plan else plan @ [\<lparr>mg_Bootstrap = ob_Bootstrap ob, mg_Steps = steps\<rparr>], seen)))"

text \<open>The stable sort puts the bootstrap observers first and keeps the order otherwise.\<close>

definition surveyPlan :: "Observation list \<Rightarrow> SurveyInput \<Rightarrow> MeasurementGroup list" where
  "surveyPlan samples input =
    (let observers = filter ob_Bootstrap (in_Observers input) @ filter (\<lambda>ob. \<not> ob_Bootstrap ob) (in_Observers input);
         seen = map (\<lambda>ob. \<lparr>me_Local = o_Local ob, me_Remote = o_Remote ob\<rparr>) samples
     in fst (fold (plan_observer input) observers ([], seen)))"

section \<open>Inference\<close>

definition Infer :: "Observation list \<Rightarrow> SurveyInput \<Rightarrow> Prediction" where
  "Infer samples input =
    (if \<not> usableEndpoint (in_Local input) \<or> \<not> usableEndpoint (in_Target input) \<or> is4 (in_Local input) \<noteq> is4 (in_Target input)
     then \<lparr>pr_Candidates = [], pr_Plan = []\<rparr>
     else
       let relevant = relevant_of samples input;
           ips = ips_of relevant input;
           current = filter (\<lambda>ob. o_Local ob = in_Local input) relevant;
           baseline = baseline_batches ips input
       in if in_BaseOnly input then \<lparr>pr_Candidates = baseline, pr_Plan = []\<rparr>
          else
            let candidates = observed_batches current input
                  @ (if current = [] \<or> list_all (\<lambda>ob. ap_Port (o_Seen ob) = ap_Port (o_Local ob)) current
                     then baseline else [])
                  @ concat (map (offset_batch relevant input) (firsts (map o_Remote relevant)))
                  @ concat (map (sequence_batch relevant) ips);
                candidates = (if candidates = []
                  then map (\<lambda>ip. \<lparr>cb_Basis = ''unconstrained-port-space'',
                         cb_Ranges = [\<lparr>r_Addr = ip, r_First = 1, r_Last = 65535\<rparr>]\<rparr>) ips
                  else candidates)
            in \<lparr>pr_Candidates = candidates, pr_Plan = surveyPlan relevant input\<rparr>)"

section \<open>The store as an interface\<close>

text \<open>
  What the collector relies on of a store of samples: which samples a snapshot holds after an
  addition and after a socket is released, and when an addition counts as new information.
\<close>

locale sample_store =
  fixes snapshot :: "'s \<Rightarrow> 'o list"
    and add :: "'s \<Rightarrow> 'o \<Rightarrow> 's \<times> bool"
    and forget :: "'s \<Rightarrow> 'l \<Rightarrow> 's"
    and valid :: "'o \<Rightarrow> bool"
    and local_of :: "'o \<Rightarrow> 'l"
    and inv :: "'s \<Rightarrow> bool"
  assumes add_set: "set (snapshot (fst (add s ob))) = (if valid ob then insert ob (set (snapshot s)) else set (snapshot s))"
    and add_new_iff: "snd (add s ob) \<longleftrightarrow> valid ob \<and> ob \<notin> set (snapshot s)"
    and add_prefix: "\<exists>new. snapshot (fst (add s ob)) = snapshot s @ new"
    and forget_set: "set (snapshot (forget s l)) = {ob \<in> set (snapshot s). local_of ob \<noteq> l}"
    and add_inv: "inv s \<Longrightarrow> inv (fst (add s ob))"
    and forget_inv: "inv s \<Longrightarrow> inv (forget s l)"
    and inv_distinct: "inv s \<Longrightarrow> distinct (snapshot s) \<and> list_all valid (snapshot s)"
begin

lemma redelivery: "snd (add (fst (add s ob)) ob) = False"
  using add_set[of s ob] by (simp add: add_new_iff)

lemma add_all:
  "set (snapshot (fold (\<lambda>ob s. fst (add s ob)) obs s)) = set (snapshot s) \<union> {ob \<in> set obs. valid ob}"
  by (induction obs arbitrary: s) (auto simp: add_set)

lemma add_all_inv: "inv s \<Longrightarrow> inv (fold (\<lambda>ob s. fst (add s ob)) obs s)"
  by (induction obs arbitrary: s) (auto simp: add_inv)

lemma forget_then_add: "local_of ob = l \<Longrightarrow> valid ob \<Longrightarrow> snd (add (forget s l) ob)"
  by (simp add: add_new_iff forget_set)

end

definition store_ok :: "Store \<Rightarrow> bool" where
  "store_ok s = (distinct s \<and> list_all ObservationValid s)"

interpretation observations: sample_store Snapshot Add ForgetLocal ObservationValid o_Local store_ok
  by unfold_locales (auto simp: Snapshot_def Add_def ForgetLocal_def store_ok_def list_all_iff)

section \<open>Candidates are usable\<close>

definition ip_ok :: "SurveyInput \<Rightarrow> addr \<Rightarrow> bool" where
  "ip_ok input ip = (IsValid ip \<and> \<not> IsUnspecified ip \<and> \<not> IsMulticast ip \<and> Is4 ip = is4 (in_Local input))"

definition range_ok :: "SurveyInput \<Rightarrow> EndpointRange \<Rightarrow> bool" where
  "range_ok input r = (ip_ok input (r_Addr r) \<and> 0 < Count r)"

definition batch_ok :: "SurveyInput \<Rightarrow> CandidateBatch \<Rightarrow> bool" where
  "batch_ok input b = (cb_Ranges b \<noteq> [] \<and> list_all (range_ok input) (cb_Ranges b))"

lemma add_batch_single [simp]:
  "add_batch basis [ep] = (if usableEndpoint ep then [\<lparr>cb_Basis = basis, cb_Ranges = [point ep]\<rparr>] else [])"
  by (simp add: add_batch_def)

lemma addIP_ok: "list_all (ip_ok input) ips \<Longrightarrow> list_all (ip_ok input) (addIP input ip ips)"
  by (simp add: addIP_def ip_ok_def)

lemma ips_ok: "list_all (ip_ok input) (ips_of relevant input)"
proof -
  have pub: "list_all (ip_ok input) (fold (addIP input) xs acc)" if "list_all (ip_ok input) acc" for xs acc
    using that by (induction xs arbitrary: acc) (auto simp: addIP_ok)
  have obs: "list_all (ip_ok input) (fold (\<lambda>ob. addIP input (ap_Addr (o_Seen ob))) xs acc)"
    if "list_all (ip_ok input) acc" for xs acc
    using that by (induction xs arbitrary: acc) (auto simp: addIP_ok)
  show ?thesis unfolding ips_of_def by (intro obs pub) simp
qed

lemma Count_pos: "IsValid (r_Addr r) \<Longrightarrow> r_First r \<noteq> 0 \<Longrightarrow> r_First r \<le> r_Last r \<Longrightarrow> 0 < Count r"
  by (simp add: Count_def not_less word_le_def)

lemma point_ok: "usableEndpoint ep \<Longrightarrow> is4 ep = is4 (in_Local input) \<Longrightarrow> range_ok input (point ep)"
  by (auto simp: range_ok_def ip_ok_def point_def usableEndpoint_def AP_IsValid_def intro!: Count_pos)

lemma single_ok: "is4 ep = is4 (in_Local input) \<Longrightarrow> list_all (batch_ok input) (add_batch basis [ep])"
  by (simp add: batch_ok_def point_ok)

lemma relevant_facts:
  "ob \<in> set (relevant_of samples input) \<Longrightarrow> ObservationValid ob \<and> is4 (o_Seen ob) = is4 (in_Local input)
     \<and> usableEndpoint (o_Seen ob)"
  by (auto simp: relevant_of_def ObservationValid_def)

lemma list_all_concat_map: "(\<And>x. x \<in> set xs \<Longrightarrow> list_all P (f x)) \<Longrightarrow> list_all P (concat (map f xs))"
  by (induction xs) auto

lemma baseline_ok:
  assumes "list_all (ip_ok input) ips"
  shows "list_all (batch_ok input) (baseline_batches ips input)"
  unfolding baseline_batches_def
  by (rule list_all_concat_map, rule single_ok) (use assms in \<open>auto simp: list_all_iff ip_ok_def\<close>)

lemma observed_ok:
  assumes "\<And>ob. ob \<in> set current \<Longrightarrow> is4 (o_Seen ob) = is4 (in_Local input)"
  shows "list_all (batch_ok input) (observed_batches current input)"
proof -
  have "list_all (batch_ok input) (if c then add_batch basis [o_Seen ob] else [])" if "ob \<in> set current" for c basis ob
    using single_ok[OF assms[OF that]] by simp
  then show ?thesis
    unfolding observed_batches_def by (auto intro!: list_all_concat_map split: list.splits simp del: add_batch_single)
qed

lemma offset_ok:
  assumes "relevant = relevant_of samples input"
  shows "list_all (batch_ok input) (offset_batch relevant input remote)"
proof (cases "filter (\<lambda>ob. o_Remote ob = remote) relevant")
  case (Cons first rest)
  then have "first \<in> set (filter (\<lambda>ob. o_Remote ob = remote) relevant)" by simp
  then have "first \<in> set relevant" by simp
  then have "is4 (AddrPort (ap_Addr (o_Seen first)) p) = is4 (in_Local input)" for p
    using relevant_facts[of first samples input] assms by simp
  from single_ok[OF this] Cons show ?thesis by (simp add: offset_batch_def Let_def del: add_batch_single)
qed (simp add: offset_batch_def)

lemma uint_of_int16: "0 \<le> k \<Longrightarrow> k \<le> 65535 \<Longrightarrow> uint (word_of_int k :: u16) = k"
  by (simp add: uint_word_of_int)

lemma sequence_ok:
  assumes "ip_ok input ip"
  shows "list_all (batch_ok input) (sequence_batch relevant ip)"
proof -
  define ports where "ports = firsts (map (\<lambda>ob. ap_Port (o_Seen ob)) (filter (\<lambda>ob. ap_Addr (o_Seen ob) = ip) relevant))"
  define n where "n = length ports"
  let ?p = "uint (ports ! (n - 3))" and ?q = "uint (ports ! (n - 1))"
  let ?d1 = "?q - uint (ports ! (n - 2))" and ?d2 = "uint (ports ! (n - 2)) - ?p"
  let ?lo = "max 1 (?p - 4)" and ?hi = "min 65535 (?q + ?d1 + 4)"
  let ?r = "\<lparr>r_Addr = ip, r_First = word_of_int ?lo, r_Last = word_of_int ?hi\<rparr>"
  have bounds: "0 \<le> ?p" "?p \<le> 65535" "0 \<le> ?q" "?q \<le> 65535" "0 \<le> uint (ports ! (n - 2))"
    using uint_lt2p[of "ports ! (n - 3)"] uint_lt2p[of "ports ! (n - 1)"] by simp_all
  have "range_ok input ?r" if "0 < ?d1" "?d1 = ?d2"
  proof -
    have lo: "uint (word_of_int ?lo :: u16) = ?lo" using bounds by (intro uint_of_int16) auto
    have "0 \<le> ?hi" using bounds that(1) by linarith
    then have hi: "uint (word_of_int ?hi :: u16) = ?hi" by (intro uint_of_int16) auto
    have "1 \<le> ?lo" "?lo \<le> ?hi" using bounds that by linarith+
    with lo hi have "(word_of_int ?lo :: u16) \<noteq> 0" "(word_of_int ?lo :: u16) \<le> word_of_int ?hi"
      by (auto simp: word_le_def uint_0_iff[symmetric] simp del: uint_word_of_int)
    with assms show ?thesis by (auto simp: range_ok_def ip_ok_def intro!: Count_pos)
  qed
  then show ?thesis
    unfolding sequence_batch_def ports_def[symmetric] n_def[symmetric] Let_def by (simp add: batch_ok_def)
qed

lemma Infer_ok: "list_all (batch_ok input) (pr_Candidates (Infer samples input))"
proof -
  define relevant where "relevant = relevant_of samples input"
  define ips where "ips = ips_of relevant input"
  have ips: "list_all (ip_ok input) ips" by (simp add: ips_def ips_ok)
  have full: "list_all (batch_ok input) (map (\<lambda>ip. \<lparr>cb_Basis = ''unconstrained-port-space'',
      cb_Ranges = [\<lparr>r_Addr = ip, r_First = 1, r_Last = 65535\<rparr>]\<rparr>) ips)"
    using ips by (auto simp: list_all_iff batch_ok_def range_ok_def ip_ok_def Count_def word_less_nat_alt)
  have obs: "list_all (batch_ok input) (observed_batches (filter (\<lambda>ob. o_Local ob = in_Local input) relevant) input)"
    by (rule observed_ok) (use relevant_facts in \<open>auto simp: relevant_def\<close>)
  have offs: "list_all (batch_ok input) (concat (map (offset_batch relevant input) rs))" for rs
    by (rule list_all_concat_map, rule offset_ok[OF relevant_def])
  have seqs: "list_all (batch_ok input) (concat (map (sequence_batch relevant) ips))"
    by (rule list_all_concat_map, rule sequence_ok) (use ips in \<open>auto simp: list_all_iff\<close>)
  show ?thesis
    using baseline_ok[OF ips] full obs offs seqs
    unfolding Infer_def Let_def relevant_def[symmetric] ips_def[symmetric] by simp
qed

section \<open>Order and completeness of candidates\<close>

lemma in_fold_addIP:
  assumes "ip_ok input ip"
  shows "ip \<in> set acc \<Longrightarrow> ip \<in> set (fold (addIP input) xs acc)" "ip \<in> set xs \<Longrightarrow> ip \<in> set (fold (addIP input) xs acc)"
proof -
  have mono: "ip \<in> set acc \<Longrightarrow> ip \<in> set (fold (addIP input) xs acc)" for acc xs
    by (induction xs arbitrary: acc) (auto simp: addIP_def)
  show "ip \<in> set acc \<Longrightarrow> ip \<in> set (fold (addIP input) xs acc)" by (rule mono)
  show "ip \<in> set xs \<Longrightarrow> ip \<in> set (fold (addIP input) xs acc)"
    by (induction xs arbitrary: acc) (use assms mono in \<open>auto simp: addIP_def ip_ok_def\<close>)
qed

lemma ips_complete:
  assumes "ip_ok input ip" "ip \<in> set (in_PublicIPs input) \<or> (\<exists>ob \<in> set relevant. ap_Addr (o_Seen ob) = ip)"
  shows "ip \<in> set (ips_of relevant input)"
proof -
  have "fold (\<lambda>ob. addIP input (ap_Addr (o_Seen ob))) relevant acc = fold (addIP input) (map (\<lambda>ob. ap_Addr (o_Seen ob)) relevant) acc" for acc
    by (induction relevant arbitrary: acc) simp_all
  then show ?thesis using assms in_fold_addIP[OF assms(1)] by (auto simp: ips_of_def)
qed

lemma Infer_candidate_exists:
  assumes "usableEndpoint (in_Local input)" "usableEndpoint (in_Target input)" "is4 (in_Local input) = is4 (in_Target input)"
    and "ip_ok input ip" "ip \<in> set (in_PublicIPs input) \<or> (\<exists>ob \<in> set (relevant_of samples input). ap_Addr (o_Seen ob) = ip)"
  shows "pr_Candidates (Infer samples input) \<noteq> []"
proof -
  have ip: "ip \<in> set (ips_of (relevant_of samples input) input)" using ips_complete[OF assms(4,5)] .
  have "usableEndpoint (AddrPort ip (ap_Port (in_Local input)))"
    using assms(1,4) by (simp add: usableEndpoint_def ip_ok_def AP_IsValid_def)
  with ip have "baseline_batches (ips_of (relevant_of samples input) input) input \<noteq> []"
    by (auto simp: baseline_batches_def)
  with ip assms(1-3) show ?thesis by (auto simp: Infer_def Let_def)
qed

lemma Infer_observed_first:
  assumes "usableEndpoint (in_Local input)" "usableEndpoint (in_Target input)" "is4 (in_Local input) = is4 (in_Target input)"
    "\<not> in_BaseOnly input"
    and "filter (\<lambda>ob. o_Local ob = in_Local input \<and> o_Remote ob = in_Target input) (relevant_of samples input) = ob # rest"
  shows "\<exists>more. pr_Candidates (Infer samples input)
    = \<lparr>cb_Basis = ''observed-target'', cb_Ranges = [point (o_Seen ob)]\<rparr> # more"
proof -
  define current where "current = filter (\<lambda>ob. o_Local ob = in_Local input) (relevant_of samples input)"
  have us: "usableEndpoint (o_Seen x)" if "x \<in> set current" for x
    using that relevant_facts[of x] by (auto simp: current_def)
  have "concat (map (\<lambda>ob. if o_Remote ob = in_Target input then add_batch ''observed-target'' [o_Seen ob] else []) xs)
    = map (\<lambda>ob. \<lparr>cb_Basis = ''observed-target'', cb_Ranges = [point (o_Seen ob)]\<rparr>) (filter (\<lambda>ob. o_Remote ob = in_Target input) xs)"
    if "set xs \<subseteq> set current" for xs
    using that us by (induction xs) auto
  from this[of current] have "concat (map (\<lambda>ob. if o_Remote ob = in_Target input then add_batch ''observed-target'' [o_Seen ob] else []) current)
    = map (\<lambda>ob. \<lparr>cb_Basis = ''observed-target'', cb_Ranges = [point (o_Seen ob)]\<rparr>) (filter (\<lambda>ob. o_Remote ob = in_Target input) current)" by simp
  moreover have "filter (\<lambda>ob. o_Remote ob = in_Target input) current = ob # rest"
    using assms(5) by (simp add: current_def conj_commute)
  ultimately show ?thesis
    using assms(1-4) unfolding Infer_def Let_def current_def[symmetric] observed_batches_def
    by (simp del: add_batch_single)
qed

section \<open>Plans\<close>

definition all_steps :: "MeasurementGroup list \<Rightarrow> Measurement list" where
  "all_steps plan = concat (map mg_Steps plan)"

definition step_ok :: "SurveyInput \<Rightarrow> Measurement \<Rightarrow> bool" where
  "step_ok input st = (usableEndpoint (me_Remote st) \<and> is4 (me_Local st) = is4 (me_Remote st) \<and> me_Local st \<in> set (survey_locals input))"

lemma plan_steps:
  assumes "fold plan_step pairs (steps, seen) = (steps', seen')" "set steps \<subseteq> set seen" "distinct steps"
    "\<And>p. p \<in> set pairs \<Longrightarrow> me_Local p \<in> set (survey_locals input)"
  shows "\<exists>new. steps' = steps @ new \<and> distinct new \<and> set new \<inter> set seen = {} \<and> set seen' = set seen \<union> set new
    \<and> list_all (step_ok input) new \<and> length new \<le> length pairs"
  using assms
proof (induction pairs arbitrary: steps seen)
  case (Cons p pairs)
  let ?take = "usableEndpoint (me_Remote p) \<and> is4 (me_Local p) = is4 (me_Remote p) \<and> p \<notin> set seen"
  show ?case
  proof (cases ?take)
    case True
    then have rec: "fold plan_step pairs (steps @ [p], p # seen) = (steps', seen')"
      using Cons.prems(1) by (auto simp: plan_step_def[of p])
    have "\<exists>new. steps' = (steps @ [p]) @ new \<and> distinct new \<and> set new \<inter> set (p # seen) = {}
      \<and> set seen' = set (p # seen) \<union> set new \<and> list_all (step_ok input) new \<and> length new \<le> length pairs"
      by (rule Cons.IH[OF rec]) (use Cons.prems True in auto)
    then obtain new where "steps' = (steps @ [p]) @ new" "distinct new" "set new \<inter> set (p # seen) = {}"
      "set seen' = set (p # seen) \<union> set new" "list_all (step_ok input) new" "length new \<le> length pairs" by blast
    moreover have "step_ok input p" using True Cons.prems(4) by (simp add: step_ok_def)
    ultimately show ?thesis using True by (intro exI[of _ "p # new"]) auto
  next
    case False
    then have rec: "fold plan_step pairs (steps, seen) = (steps', seen')"
      using Cons.prems(1) by (auto simp: plan_step_def[of p])
    have "\<exists>new. steps' = steps @ new \<and> distinct new \<and> set new \<inter> set seen = {} \<and> set seen' = set seen \<union> set new
      \<and> list_all (step_ok input) new \<and> length new \<le> length pairs"
      by (rule Cons.IH[OF rec]) (use Cons.prems in auto)
    then show ?thesis by fastforce
  qed
qed simp

lemma pairs_local: "p \<in> set (observer_pairs input ob) \<Longrightarrow> me_Local p \<in> set (survey_locals input)"
  by (auto simp: observer_pairs_def)

lemma pairs_length: "length (observer_pairs input ob) \<le> 6"
  by (simp add: observer_pairs_def survey_locals_def)

lemma plan_observers:
  assumes "fold (plan_observer input) obs (plan, seen) = (plan', seen')"
    "set (all_steps plan) \<subseteq> set seen" "distinct (all_steps plan)"
  shows "\<exists>more. plan' = plan @ more \<and> distinct (all_steps more) \<and> set (all_steps more) \<inter> set seen = {}
    \<and> list_all (\<lambda>g. mg_Steps g \<noteq> [] \<and> length (mg_Steps g) \<le> 6 \<and> list_all (step_ok input) (mg_Steps g)) more
    \<and> (\<forall>i < length more. \<exists>ob \<in> set obs. mg_Bootstrap (more ! i) = ob_Bootstrap ob)"
  using assms
proof (induction obs arbitrary: plan seen)
  case (Cons ob obs)
  obtain steps seen1 where f: "fold plan_step (observer_pairs input ob) ([], seen) = (steps, seen1)" by fastforce
  have "\<exists>new. steps = [] @ new \<and> distinct new \<and> set new \<inter> set seen = {} \<and> set seen1 = set seen \<union> set new
    \<and> list_all (step_ok input) new \<and> length new \<le> length (observer_pairs input ob)"
    by (rule plan_steps[OF f]) (use pairs_local in auto)
  then have st: "distinct steps" "set steps \<inter> set seen = {}" "set seen1 = set seen \<union> set steps"
    "list_all (step_ok input) steps" "length steps \<le> 6" using pairs_length[of input ob] by auto
  define g where "g = (if steps = [] then [] else [\<lparr>mg_Bootstrap = ob_Bootstrap ob, mg_Steps = steps\<rparr>])"
  have rec: "fold (plan_observer input) obs (plan @ g, seen1) = (plan', seen')"
    using Cons.prems(1) f by (simp add: plan_observer_def[of input ob] g_def split: if_splits)
  have gs: "all_steps g = steps" by (simp add: g_def all_steps_def)
  have app: "all_steps (xs @ ys) = all_steps xs @ all_steps ys" for xs ys by (simp add: all_steps_def)
  have "\<exists>more. plan' = (plan @ g) @ more \<and> distinct (all_steps more) \<and> set (all_steps more) \<inter> set seen1 = {}
    \<and> list_all (\<lambda>g. mg_Steps g \<noteq> [] \<and> length (mg_Steps g) \<le> 6 \<and> list_all (step_ok input) (mg_Steps g)) more
    \<and> (\<forall>i < length more. \<exists>ob \<in> set obs. mg_Bootstrap (more ! i) = ob_Bootstrap ob)"
    by (rule Cons.IH[OF rec]) (use Cons.prems(2,3) st gs app in auto)
  then obtain more where m: "plan' = (plan @ g) @ more" "distinct (all_steps more)" "set (all_steps more) \<inter> set seen1 = {}"
    "list_all (\<lambda>g. mg_Steps g \<noteq> [] \<and> length (mg_Steps g) \<le> 6 \<and> list_all (step_ok input) (mg_Steps g)) more"
    "\<forall>i < length more. \<exists>ob \<in> set obs. mg_Bootstrap (more ! i) = ob_Bootstrap ob" by blast
  have boot: "\<exists>ob' \<in> set (ob # obs). mg_Bootstrap ((g @ more) ! i) = ob_Bootstrap ob'" if "i < length (g @ more)" for i
    using that m(5) by (cases "i < length g") (auto simp: nth_append g_def split: if_splits)
  have "list_all (\<lambda>g. mg_Steps g \<noteq> [] \<and> length (mg_Steps g) \<le> 6 \<and> list_all (step_ok input) (mg_Steps g)) g"
    using st by (simp add: g_def)
  with m st gs app boot show ?case by (intro exI[of _ "g @ more"]) auto
qed (simp add: all_steps_def)

lemma surveyPlan_ok:
  "distinct (all_steps (surveyPlan samples input))
   \<and> list_all (\<lambda>g. mg_Steps g \<noteq> [] \<and> length (mg_Steps g) \<le> 6 \<and> list_all (step_ok input) (mg_Steps g)) (surveyPlan samples input)
   \<and> (\<forall>ob \<in> set samples. \<lparr>me_Local = o_Local ob, me_Remote = o_Remote ob\<rparr> \<notin> set (all_steps (surveyPlan samples input)))"
proof -
  define obs where "obs = filter ob_Bootstrap (in_Observers input) @ filter (\<lambda>ob. \<not> ob_Bootstrap ob) (in_Observers input)"
  define seen where "seen = map (\<lambda>ob. \<lparr>me_Local = o_Local ob, me_Remote = o_Remote ob\<rparr>) samples"
  obtain plan seen' where f: "fold (plan_observer input) obs ([], seen) = (plan, seen')" by fastforce
  have plan: "surveyPlan samples input = plan" using f by (simp add: surveyPlan_def obs_def seen_def)
  have "set (all_steps []) \<subseteq> set seen" "distinct (all_steps [])" by (simp_all add: all_steps_def)
  from plan_observers[OF f this] show ?thesis unfolding plan by (auto simp: seen_def)
qed

section \<open>Properties\<close>

definition sample_ap :: "u32 \<Rightarrow> u16 \<Rightarrow> addrport" where
  "sample_ap a p = AddrPort (Addr4 a) p"

definition sample_input :: SurveyInput where
  "sample_input = \<lparr>in_Local = sample_ap 0x0A000001 4000, in_Target = sample_ap 0xC6336401 5000,
     in_PublicIPs = [Addr4 0xCB007101],
     in_Observers = [\<lparr>ob_Bootstrap = False, ob_Endpoints = [sample_ap 0xC6336402 6000]\<rparr>],
     in_BaseOnly = False\<rparr>"

definition sample_observation :: Observation where
  "sample_observation = \<lparr>o_Local = sample_ap 0x0A000001 4000, o_Remote = sample_ap 0xC6336401 5000,
     o_Seen = sample_ap 0xCB007101 4001\<rparr>"

text \<open>
  C38: every candidate batch offers at least one range, and every range is a nonempty interval of
  nonzero ports on a usable address of the family of the local socket, whatever the samples.
\<close>
theorem candidates_usable:
  "list_all (\<lambda>b. cb_Ranges b \<noteq> [] \<and> list_all (\<lambda>r. 0 < Count r \<and> r_First r \<noteq> 0
      \<and> \<not> IsUnspecified (r_Addr r) \<and> \<not> IsMulticast (r_Addr r) \<and> Is4 (r_Addr r) = is4 (in_Local input))
    (cb_Ranges b)) (pr_Candidates (Infer samples input))"
  using Infer_ok[of input samples]
  by (auto simp: list_all_iff batch_ok_def range_ok_def ip_ok_def Count_def split: if_splits)

text \<open>
  a mapping observed towards the target from the same socket is the first candidate.
\<close>
lemma observed_mapping_first:
  assumes "usableEndpoint (in_Local input)" "usableEndpoint (in_Target input)" "is4 (in_Local input) = is4 (in_Target input)"
    "\<not> in_BaseOnly input"
    and "filter (\<lambda>ob. o_Local ob = in_Local input \<and> o_Remote ob = in_Target input) (relevant_of samples input) = ob # rest"
  shows "\<exists>more. pr_Candidates (Infer samples input)
    = \<lparr>cb_Basis = ''observed-target'', cb_Ranges = [point (o_Seen ob)]\<rparr> # more"
  using assms by (rule Infer_observed_first)

text \<open>
  a measurement plan never repeats a measurement that is planned already or has been sampled,
  uses only the local socket and its two auxiliary sockets towards usable remotes of the same
  family, and has at most six steps for one observer.
\<close>
lemma plan_is_new:
  "distinct (all_steps (surveyPlan samples input))
   \<and> list_all (\<lambda>g. mg_Steps g \<noteq> [] \<and> length (mg_Steps g) \<le> 6 \<and> list_all (step_ok input) (mg_Steps g)) (surveyPlan samples input)
   \<and> (\<forall>ob \<in> set samples. \<lparr>me_Local = o_Local ob, me_Remote = o_Remote ob\<rparr> \<notin> set (all_steps (surveyPlan samples input)))"
  by (rule surveyPlan_ok)

text \<open>
  Samples delivered to the store in any number and order, with repetitions: the store then
  holds exactly the valid ones, each once; delivering one of them again adds nothing, and after
  its socket is released the same sample counts as new.
\<close>
lemma store_collects:
  "set (Snapshot (fold (\<lambda>ob s. fst (Add s ob)) obs [])) = {ob \<in> set obs. ObservationValid ob}
   \<and> distinct (Snapshot (fold (\<lambda>ob s. fst (Add s ob)) obs []))
   \<and> snd (Add (fst (Add s ob)) ob) = False
   \<and> (ObservationValid ob \<longrightarrow> snd (Add (ForgetLocal s (o_Local ob)) ob))"
  using observations.add_all[of obs "[]"] observations.inv_distinct observations.add_all_inv[of "[]" obs]
    observations.redelivery[of s ob] observations.forget_then_add[OF refl, of ob s]
  by (auto simp: store_ok_def Snapshot_def)

end
