(* ===== verification/Recovery.thy ===== *)
theory Recovery
  imports Prelude
begin

text \<open>
  Failure episodes across restarts, \<^verbatim>\<open>internal/recovery/recovery.go\<close>: the persistent record a
  tracker updates under its file lock, and the operations of the daemon and of the separate
  cleanup timer on it.  A time is a number of nanoseconds and 0 is the zero time; the record on
  disk is an optional value of the record type, absent before the first update.  The file
  system enters as the way one update fails, if it does.
\<close>

section \<open>The record\<close>

type_synonym time = int
type_synonym duration = int

text \<open>\<^verbatim>\<open>Time.Sub\<close> saturates at the bounds of a 64 bit duration.\<close>

definition sub_time :: "time \<Rightarrow> time \<Rightarrow> duration" where
  "sub_time a b = max (- (2 ^ 63)) (min (2 ^ 63 - 1) (a - b))"

record State =
  Node :: string
  Namespace :: string
  Tables :: "int list"
  Running :: bool
  Retired :: bool
  FailureSince :: time
  HealthySince :: time
  LastProgress :: time
  Window :: duration
  Stable :: duration

definition zero_state :: State where
  "zero_state = \<lparr>Node = [], Namespace = [], Tables = [], Running = False, Retired = False,
     FailureSince = 0, HealthySince = 0, LastProgress = 0, Window = 0, Stable = 0\<rparr>"

record Tracker =
  t_Window :: duration
  t_Stable :: duration

text \<open>What the tracker reads of the desired state.\<close>

record desired_tables =
  d_UUID :: string
  d_FabricTableID :: int
  d_RouteTables :: "int list"
  d_RuleTables :: "int list"

section \<open>Updates\<close>

text \<open>
  An update fails before the record is read, when the new record is written to its temporary
  file or renamed, after that (when the directory is synced), or not at all; a failing
  transformation leaves the record as it was.
\<close>

datatype io = IoOk | IoBefore error | IoWrite error | IoAfter error

definition update :: "io \<Rightarrow> (State \<Rightarrow> State result) \<Rightarrow> State option \<Rightarrow> State option \<times> error option" where
  "update io fn disk =
    (case io of
       IoBefore e \<Rightarrow> (disk, Some e)
     | _ \<Rightarrow>
       (case fn (case disk of None \<Rightarrow> zero_state | Some s \<Rightarrow> s) of
          Inl e \<Rightarrow> (disk, Some e)
        | Inr s \<Rightarrow>
          (case io of
             IoWrite e \<Rightarrow> (disk, Some e)
           | IoAfter e \<Rightarrow> (Some s, Some e)
           | _ \<Rightarrow> (Some s, None))))"

definition all_tables :: "int list \<Rightarrow> desired_tables \<Rightarrow> int list" where
  "all_tables old d =
    sort (remdups (d_FabricTableID d # old @ d_RouteTables d @ d_RuleTables d))"

definition begin_fn :: "Tracker \<Rightarrow> string \<Rightarrow> desired_tables \<Rightarrow> time \<Rightarrow> State \<Rightarrow> State" where
  "begin_fn t namespace d now s =
    (let s = (if Node s \<noteq> d_UUID d \<or> Namespace s \<noteq> namespace \<or> Retired s \<or> \<not> Running s
              then zero_state\<lparr>FailureSince := now\<rparr> else s);
         s = (if FailureSince s = 0 then
                (if LastProgress s = 0 then s\<lparr>FailureSince := now\<rparr>
                 else s\<lparr>FailureSince := LastProgress s\<rparr>)
              else s)
     in s\<lparr>Node := d_UUID d, Namespace := namespace, Running := True, HealthySince := 0,
          LastProgress := now, Window := t_Window t, Stable := t_Stable t,
          Tables := all_tables (Tables s) d\<rparr>)"

definition progress_fn :: "time \<Rightarrow> bool \<Rightarrow> State \<Rightarrow> State" where
  "progress_fn now healthy s =
    (if \<not> Running s \<or> Retired s then s
     else if \<not> healthy then s\<lparr>HealthySince := 0\<rparr>
     else
       let s = s\<lparr>LastProgress := now\<rparr>;
           s = (if HealthySince s = 0 then s\<lparr>HealthySince := now\<rparr> else s)
       in if Stable s \<le> sub_time now (HealthySince s) then s\<lparr>FailureSince := 0\<rparr> else s)"

definition stop_fn :: "State \<Rightarrow> State" where
  "stop_fn s = s\<lparr>Running := False, FailureSince := 0, HealthySince := 0\<rparr>"

definition failure_fn :: "time \<Rightarrow> State \<Rightarrow> State" where
  "failure_fn now s =
    (if Node s = [] \<or> Retired s then s
     else
       let s = (if FailureSince s = 0 then s\<lparr>FailureSince := now\<rparr> else s)
       in s\<lparr>Running := True, HealthySince := 0\<rparr>)"

text \<open>The check hands the record to \<open>retire\<close> and marks it retired when that succeeds.\<close>

definition check_fn ::
  "string \<Rightarrow> time \<Rightarrow> (State \<Rightarrow> error option) \<Rightarrow> State \<Rightarrow> State result \<times> State list" where
  "check_fn namespace now retire s =
    (if \<not> Running s \<or> Retired s \<or> Namespace s \<noteq> namespace then (Inr s, [])
     else
       let s = (if FailureSince s = 0 then
                  (if LastProgress s = 0 then s\<lparr>FailureSince := now\<rparr>
                   else s\<lparr>FailureSince := LastProgress s\<rparr>)
                else s)
       in if Window s \<le> 0 \<or> sub_time now (FailureSince s) < Window s then (Inr s, [])
          else (case retire s of
                  Some e \<Rightarrow> (Inl e, [s])
                | None \<Rightarrow> (Inr (s\<lparr>Retired := True, Running := False\<rparr>), [s])))"

definition update_desired_fn :: "desired_tables \<Rightarrow> State \<Rightarrow> State result" where
  "update_desired_fn d s =
    (if Node s \<noteq> d_UUID d then Inl (ErrNew ''recovery identity changed'')
     else Inr (s\<lparr>Tables := all_tables (Tables s) d\<rparr>))"

section \<open>Operations\<close>

datatype op =
    Begin desired_tables time
  | Progress time bool
  | Stop
  | Failure time
  | Check time "State \<Rightarrow> error option"
  | UpdateDesired desired_tables

text \<open>One call of an operation: the record, the error, and the records handed to \<open>retire\<close>.\<close>

definition apply_op ::
  "Tracker \<Rightarrow> string \<Rightarrow> io \<Rightarrow> op \<Rightarrow> State option \<Rightarrow> (State option \<times> error option) \<times> State list" where
  "apply_op t namespace io op disk =
    (case op of
       Begin d now \<Rightarrow> (update io (\<lambda>s. Inr (begin_fn t namespace d now s)) disk, [])
     | Progress now healthy \<Rightarrow> (update io (\<lambda>s. Inr (progress_fn now healthy s)) disk, [])
     | Stop \<Rightarrow> (update io (\<lambda>s. Inr (stop_fn s)) disk, [])
     | Failure now \<Rightarrow> (update io (\<lambda>s. Inr (failure_fn now s)) disk, [])
     | UpdateDesired d \<Rightarrow> (update io (update_desired_fn d) disk, [])
     | Check now retire \<Rightarrow>
         (update io (\<lambda>s. fst (check_fn namespace now retire s)) disk,
          (case io of IoBefore _ \<Rightarrow> []
           | _ \<Rightarrow> snd (check_fn namespace now retire (case disk of None \<Rightarrow> zero_state | Some s \<Rightarrow> s)))))"

text \<open>A history of calls, with the file system's behaviour and the namespace of each.\<close>

type_synonym call = "string \<times> io \<times> op"

primrec history :: "Tracker \<Rightarrow> call list \<Rightarrow> State option \<Rightarrow> State option \<times> (op \<times> State) list" where
  "history t [] disk = (disk, [])"
| "history t (c # cs) disk =
    (case c of (namespace, io, op) \<Rightarrow>
      (case apply_op t namespace io op disk of ((disk', err), retired) \<Rightarrow>
        (case history t cs disk' of (disk'', rest) \<Rightarrow> (disk'', map (\<lambda>s. (op, s)) retired @ rest))))"

section \<open>Invariants\<close>

lemma sub_time_le: "w \<le> sub_time a b \<Longrightarrow> 0 < w \<Longrightarrow> w \<le> a - b"
  by (auto simp: sub_time_def max_def min_def split: if_splits)

lemma sub_time_ge: "w \<le> a - b \<Longrightarrow> w < 2 ^ 63 \<Longrightarrow> w \<le> sub_time a b"
  by (auto simp: sub_time_def)

fun op_time :: "op \<Rightarrow> time option" where
  "op_time (Begin d now) = Some now"
| "op_time (Progress now h) = Some now"
| "op_time (Failure now) = Some now"
| "op_time (Check now f) = Some now"
| "op_time _ = None"

abbreviation record_of :: "State option \<Rightarrow> State" where
  "record_of disk \<equiv> (case disk of None \<Rightarrow> zero_state | Some s \<Rightarrow> s)"

definition not_before :: "time \<Rightarrow> op \<Rightarrow> bool" where
  "not_before t op = (case op_time op of None \<Rightarrow> True | Some now \<Rightarrow> t \<le> now)"

text \<open>No episode in the record began before \<open>t\<close>, and the last progress is not older.\<close>

definition since :: "time \<Rightarrow> State \<Rightarrow> bool" where
  "since t s = ((FailureSince s = 0 \<or> t \<le> FailureSince s) \<and> t \<le> LastProgress s)"

lemma update_cases:
  "fst (update io fn disk) = disk \<or> (\<exists>s. fn (record_of disk) = Inr s \<and> fst (update io fn disk) = Some s)"
  by (auto simp: update_def split: io.splits sum.splits option.splits)

lemma check_fn_since:
  assumes "since t s" "0 < t" "t \<le> now"
  shows "fst (check_fn ns now retire s) = Inr s' \<Longrightarrow> since t s'"
    and "x \<in> set (snd (check_fn ns now retire s)) \<Longrightarrow> t + Window x \<le> now \<and> Running x \<and> \<not> Retired x \<and> Namespace x = ns \<and> 0 < Window x"
proof -
  show "since t s'" if "fst (check_fn ns now retire s) = Inr s'"
    using that assms by (auto simp: check_fn_def since_def Let_def split: if_splits option.splits)
  assume "x \<in> set (snd (check_fn ns now retire s))"
  then have x: "0 < Window x" "Window x \<le> sub_time now (FailureSince x)" "Running x" "\<not> Retired x" "Namespace x = ns"
    and "FailureSince x = FailureSince s \<and> FailureSince s \<noteq> 0 \<or> FailureSince s = 0 \<and> FailureSince x \<in> {now, LastProgress s}"
    by (auto simp: check_fn_def Let_def split: if_splits option.splits)
  with assms have "t \<le> FailureSince x" by (auto simp: since_def)
  with x sub_time_le[of "Window x" now "FailureSince x"] show
    "t + Window x \<le> now \<and> Running x \<and> \<not> Retired x \<and> Namespace x = ns \<and> 0 < Window x" by auto
qed

lemma apply_op_since:
  assumes "since t (record_of disk)" "0 < t" "not_before t op"
    and "apply_op tr ns io op disk = ((disk', err), retired)"
  shows "since t (record_of disk') \<and> (\<forall>x \<in> set retired. \<exists>now f. op = Check now f \<and> t + Window x \<le> now)"
proof -
  let ?s = "record_of disk"
  have keep: "since t (record_of disk')" if "fst (update io fn disk) = disk'" "\<And>s'. fn ?s = Inr s' \<Longrightarrow> since t s'" for fn
    using update_cases[of io fn disk] that assms(1) by (auto split: option.splits)
  show ?thesis
  proof (cases op)
    case (Begin d now)
    have "since t (begin_fn tr ns d now ?s)"
      using assms(1-3) Begin by (auto simp: begin_fn_def since_def not_before_def Let_def zero_state_def)
    with keep[of "\<lambda>s. Inr (begin_fn tr ns d now s)"] assms(4) Begin show ?thesis by (auto simp: apply_op_def)
  next
    case (Progress now h)
    have "since t (progress_fn now h ?s)"
      using assms(1-3) Progress by (auto simp: progress_fn_def since_def not_before_def Let_def)
    with keep[of "\<lambda>s. Inr (progress_fn now h s)"] assms(4) Progress show ?thesis by (auto simp: apply_op_def)
  next
    case Stop
    have "since t (stop_fn ?s)" using assms(1) by (auto simp: stop_fn_def since_def)
    with keep[of "\<lambda>s. Inr (stop_fn s)"] assms(4) Stop show ?thesis by (auto simp: apply_op_def)
  next
    case (Failure now)
    have "since t (failure_fn now ?s)"
      using assms(1-3) Failure by (auto simp: failure_fn_def since_def not_before_def Let_def)
    with keep[of "\<lambda>s. Inr (failure_fn now s)"] assms(4) Failure show ?thesis by (auto simp: apply_op_def)
  next
    case (UpdateDesired d)
    have "since t s'" if "update_desired_fn d ?s = Inr s'" for s'
      using that assms(1) by (auto simp: update_desired_fn_def since_def)
    with keep[of "update_desired_fn d"] assms(4) UpdateDesired show ?thesis by (auto simp: apply_op_def)
  next
    case (Check now f)
    have now: "t \<le> now" using assms(3) Check by (simp add: not_before_def)
    note cs = check_fn_since[OF assms(1,2) now, where ns = ns and retire = f]
    from assms(4) Check have "fst (update io (\<lambda>s. fst (check_fn ns now f s)) disk) = disk'"
      "set retired \<subseteq> set (snd (check_fn ns now f ?s))"
      by (auto simp: apply_op_def split: io.splits)
    with keep[of "\<lambda>s. fst (check_fn ns now f s)"] cs Check show ?thesis by blast
  qed
qed

lemma history_since:
  assumes "since t (record_of disk)" "0 < t" "list_all (\<lambda>(ns, io, op). not_before t op) calls"
    and "history tr calls disk = (disk', retired)"
  shows "\<forall>(op, x) \<in> set retired. \<exists>now f. op = Check now f \<and> t + Window x \<le> now"
  using assms
proof (induction calls arbitrary: disk disk' retired)
  case (Cons c cs)
  obtain ns io op where c: "c = (ns, io, op)" by (metis prod_cases3)
  obtain disk1 err ret1 where a: "apply_op tr ns io op disk = ((disk1, err), ret1)" by (metis prod.exhaust)
  obtain disk2 ret2 where h: "history tr cs disk1 = (disk2, ret2)" by fastforce
  have nb: "not_before t op" "list_all (\<lambda>(ns, io, op). not_before t op) cs" using Cons.prems(3) c by auto
  note one = apply_op_since[OF Cons.prems(1,2) nb(1) a]
  have "\<forall>(op, x) \<in> set ret2. \<exists>now f. op = Check now f \<and> t + Window x \<le> now"
    by (rule Cons.IH[OF _ Cons.prems(2) nb(2)]) (use one h in auto)
  with one Cons.prems(4) c a h show ?case by auto
qed simp

section \<open>Episodes that last\<close>

text \<open>The record of a running node whose episode began at \<open>t\<close>.\<close>

definition failing :: "string \<Rightarrow> string \<Rightarrow> time \<Rightarrow> State \<Rightarrow> bool" where
  "failing node ns t s = (Node s = node \<and> Namespace s = ns \<and> Running s \<and> \<not> Retired s \<and> FailureSince s = t)"

text \<open>
  A call that does not end the episode: a restart of the same node, a failure report, a check
  that comes too early, progress that is unhealthy or has not yet been healthy for long enough.
\<close>

fun keeps_failing :: "string \<Rightarrow> string \<Rightarrow> op \<Rightarrow> State \<Rightarrow> bool" where
  "keeps_failing node ns (Begin d now) s = (d_UUID d = node)"
| "keeps_failing node ns (Progress now healthy) s =
    (healthy \<longrightarrow> sub_time now (if HealthySince s = 0 then now else HealthySince s) < Stable s)"
| "keeps_failing node ns (Failure now) s = True"
| "keeps_failing node ns (Check now retire) s = (snd (check_fn ns now retire s) = [])"
| "keeps_failing node ns (UpdateDesired d) s = True"
| "keeps_failing node ns Stop s = False"

lemma failing_step:
  assumes "failing node ns t (record_of disk)" "t \<noteq> 0" "node \<noteq> []"
    and "keeps_failing node ns op (record_of disk)"
  shows "failing node ns t (record_of (fst (fst (apply_op tr ns io op disk))))"
proof -
  let ?s = "record_of disk"
  have keep: "failing node ns t (record_of (fst (update io fn disk)))"
    if "\<And>s'. fn ?s = Inr s' \<Longrightarrow> failing node ns t s'" for fn
    using update_cases[of io fn disk] that assms(1) by (auto split: option.splits)
  show ?thesis
  proof (cases op)
    case (Begin d now)
    have "failing node ns t (begin_fn tr ns d now ?s)"
      using assms Begin by (auto simp: failing_def begin_fn_def Let_def)
    then show ?thesis using Begin by (auto simp: apply_op_def intro!: keep)
  next
    case (Progress now h)
    have "failing node ns t (progress_fn now h ?s)"
      using assms Progress by (auto simp: failing_def progress_fn_def Let_def)
    then show ?thesis using Progress by (auto simp: apply_op_def intro!: keep)
  next
    case (Failure now)
    have "failing node ns t (failure_fn now ?s)"
      using assms by (auto simp: failing_def failure_fn_def Let_def)
    then show ?thesis using Failure by (auto simp: apply_op_def intro!: keep)
  next
    case (Check now f)
    have "failing node ns t s'" if "fst (check_fn ns now f ?s) = Inr s'" for s'
      using that assms Check by (auto simp: failing_def check_fn_def Let_def split: if_splits option.splits)
    then show ?thesis using Check by (auto simp: apply_op_def intro!: keep)
  next
    case (UpdateDesired d)
    have "failing node ns t s'" if "update_desired_fn d ?s = Inr s'" for s'
      using that assms(1) by (auto simp: failing_def update_desired_fn_def split: if_splits)
    then show ?thesis using UpdateDesired by (auto simp: apply_op_def intro!: keep)
  qed (use assms in simp)
qed

fun episode :: "Tracker \<Rightarrow> string \<Rightarrow> string \<Rightarrow> (io \<times> op) list \<Rightarrow> State option \<Rightarrow> bool" where
  "episode tr node ns [] disk = True"
| "episode tr node ns ((io, op) # cs) disk =
    (keeps_failing node ns op (record_of disk)
     \<and> episode tr node ns cs (fst (fst (apply_op tr ns io op disk))))"

lemma history_failing:
  assumes "failing node ns t (record_of disk)" "t \<noteq> 0" "node \<noteq> []" "episode tr node ns cs disk"
  shows "failing node ns t (record_of (fst (history tr (map (\<lambda>(io, op). (ns, io, op)) cs) disk)))"
  using assms
proof (induction cs arbitrary: disk)
  case (Cons c cs)
  obtain io op where c: "c = (io, op)" by fastforce
  obtain disk1 err ret where a: "apply_op tr ns io op disk = ((disk1, err), ret)" by (metis prod.exhaust)
  have "failing node ns t (record_of disk1)"
    using failing_step[of node ns t disk op tr io] Cons.prems c a by simp
  moreover obtain disk2 ret2 where "history tr (map (\<lambda>(io, op). (ns, io, op)) cs) disk1 = (disk2, ret2)" by fastforce
  ultimately show ?case using Cons.IH[of disk1] Cons.prems(2-4) c a by simp
qed simp

lemma check_retires:
  assumes "failing node ns t s" "t \<noteq> 0" "0 < Window s" "Window s < 2 ^ 63" "t + Window s \<le> now" "retire s = None"
  shows "check_fn ns now retire s = (Inr (s\<lparr>Retired := True, Running := False\<rparr>), [s])"
proof -
  have "Window s \<le> sub_time now t" using sub_time_ge[of "Window s" now t] assms(4,5) by simp
  with assms show ?thesis by (simp add: check_fn_def failing_def)
qed

section \<open>Tables to clean up\<close>

lemma all_tables_set: "set (all_tables old d) = insert (d_FabricTableID d) (set old \<union> set (d_RouteTables d) \<union> set (d_RuleTables d))"
  by (auto simp: all_tables_def)

lemma all_tables_sorted: "sorted (all_tables old d) \<and> distinct (all_tables old d)"
  by (simp add: all_tables_def)

section \<open>Properties\<close>

definition sample_state :: State where
  "sample_state = zero_state\<lparr>Node := ''n'', Namespace := ''ns'', Running := True, FailureSince := 100,
     LastProgress := 100, Window := 50, Stable := 10\<rparr>"

text \<open>
  C25: a node that has been healthy for the stability period is not cleaned up early.  If the last
  such moment was t, then whatever calls follow, with times not before t and any file system
  failures, a check hands the record to the cleanup only when the failure window has passed
  since t.
\<close>
theorem no_early_retirement:
  assumes "Running s" "\<not> Retired s" "0 < t" "FailureSince (progress_fn t True s) = 0"
    and "list_all (\<lambda>(ns, io, op). not_before t op) calls"
    and "history tr calls (Some (progress_fn t True s)) = (disk, retired)"
  shows "\<forall>(op, x) \<in> set retired. \<exists>now f. op = Check now f \<and> t + Window x \<le> now"
proof -
  have "since t (progress_fn t True s)"
    using assms(1-4) by (auto simp: since_def progress_fn_def Let_def split: if_splits)
  with history_since[of t "Some (progress_fn t True s)" calls tr disk retired] assms(3,5,6) show ?thesis by simp
qed

theorem no_early_retirement_witness:
  "list_all (\<lambda>(op, x). \<exists>now f. op = Check now f \<and> 120 + Window x \<le> now)
    (snd (history \<lparr>t_Window = 50, t_Stable = 10\<rparr>
      [(''ns'', IoOk, Failure 130), (''ns'', IoOk, Check 200 (\<lambda>_. None))]
      (Some (progress_fn 120 True (sample_state\<lparr>HealthySince := 105\<rparr>)))))"
proof -
  let ?s = "sample_state\<lparr>HealthySince := 105\<rparr>"
  have "Running ?s" "\<not> Retired ?s" "(0 :: int) < 120" "FailureSince (progress_fn 120 True ?s) = 0"
    "list_all (\<lambda>(ns, io, op). not_before 120 op)
      [(''ns'', IoOk, Failure 130), (''ns'', IoOk, Check 200 (\<lambda>_. None))]" by code_simp+
  note facts = this
  obtain disk retired where h: "history \<lparr>t_Window = 50, t_Stable = 10\<rparr>
      [(''ns'', IoOk, Failure 130), (''ns'', IoOk, Check 200 (\<lambda>_. None))] (Some (progress_fn 120 True ?s))
    = (disk, retired)" by fastforce
  from no_early_retirement[OF facts h] show ?thesis unfolding h snd_conv list_all_iff .
qed

text \<open>
  C37: a node that keeps failing is cleaned up.  While an episode that began at t goes on, over
  any number of restarts, failure reports, early checks and short healthy spells, the record
  keeps t, so that a check after the window hands it to the cleanup and retires it.
\<close>
theorem failing_node_retired:
  assumes "failing node ns t (record_of disk)" "t \<noteq> 0" "node \<noteq> []" "episode tr node ns cs disk"
    and s: "fst (history tr (map (\<lambda>(io, op). (ns, io, op)) cs) disk) = Some s"
    and "0 < Window s" "Window s < 2 ^ 63" "t + Window s \<le> now" "retire s = None"
  shows "apply_op tr ns IoOk (Check now retire) (Some s)
    = ((Some (s\<lparr>Retired := True, Running := False\<rparr>), None), [s])"
proof -
  have "failing node ns t s" using history_failing[OF assms(1-4)] s by simp
  from check_retires[where retire = retire, OF this assms(2) assms(6-9)] show ?thesis
    by (simp add: apply_op_def update_def)
qed

theorem failing_node_retired_witness:
  "\<exists>s. apply_op \<lparr>t_Window = 50, t_Stable = 10\<rparr> ''ns'' IoOk (Check 151 (\<lambda>_. None)) (Some s)
    = ((Some (s\<lparr>Retired := True, Running := False\<rparr>), None), [s])"
proof -
  let ?t = "\<lparr>t_Window = 50, t_Stable = 10\<rparr>"
  let ?d = "\<lparr>d_UUID = ''n'', d_FabricTableID = 1, d_RouteTables = [], d_RuleTables = []\<rparr>"
  let ?cs = "[(IoOk, Begin ?d 110), (IoOk, Progress 115 True), (IoOk, Failure 118), (IoOk, Begin ?d 120)]"
  define s where "s = the (fst (history ?t (map (\<lambda>(io, op). (''ns'', io, op)) ?cs) (Some sample_state)))"
  have h: "failing ''n'' ''ns'' 100 (record_of (Some sample_state))" "(100 :: int) \<noteq> 0" "''n'' \<noteq> []"
    "episode ?t ''n'' ''ns'' ?cs (Some sample_state)" by code_simp+
  have "fst (history ?t (map (\<lambda>(io, op). (''ns'', io, op)) ?cs) (Some sample_state)) = Some s"
    "Window s = 50" unfolding s_def by code_simp+
  from failing_node_retired[OF h this(1), of 151 "\<lambda>_. None"] this(2) show ?thesis by auto
qed

text \<open>
  The cleanup is called only for a record of a running node that is not retired, in the
  namespace it was made in, with a positive window that has passed since the episode began; and
  a retired record is not handed to it again.
\<close>
lemma check_guards:
  "(\<forall>x \<in> set (snd (check_fn namespace now retire s)).
      Running x \<and> \<not> Retired x \<and> Namespace x = namespace \<and> 0 < Window x \<and> Window x \<le> now - FailureSince x)
   \<and> (\<forall>s'. fst (check_fn namespace now retire s) = Inr s' \<and> snd (check_fn namespace now retire s) \<noteq> [] \<longrightarrow>
        Retired s' \<and> check_fn namespace later retire' s' = (Inr s', []))"
proof -
  have "Running x \<and> \<not> Retired x \<and> Namespace x = namespace \<and> 0 < Window x \<and> Window x \<le> now - FailureSince x"
    if "x \<in> set (snd (check_fn namespace now retire s))" for x
    using that sub_time_le[of "Window x" now "FailureSince x"]
    by (auto simp: check_fn_def Let_def split: if_splits option.splits)
  moreover have "Retired s' \<and> check_fn namespace later retire' s' = (Inr s', [])"
    if "fst (check_fn namespace now retire s) = Inr s'" "snd (check_fn namespace now retire s) \<noteq> []" for s'
    using that by (auto simp: check_fn_def Let_def split: if_splits option.splits)
  ultimately show ?thesis by blast
qed

text \<open>
  the record never loses a routing table it may have to clean up while the node runs: a
  restart of the same running node and a change of the desired state keep the tables recorded
  before and add those now desired, sorted and without duplicates.
\<close>
lemma tables_kept:
  assumes "Node s = d_UUID d" "Namespace s = namespace" "Running s" "\<not> Retired s"
  shows "set (Tables (begin_fn tr namespace d now s))
      = insert (d_FabricTableID d) (set (Tables s) \<union> set (d_RouteTables d) \<union> set (d_RuleTables d))
    \<and> (\<exists>s'. update_desired_fn d s = Inr s' \<and> Tables s' = Tables (begin_fn tr namespace d now s)
          \<and> FailureSince s' = FailureSince s)
    \<and> sorted (Tables (begin_fn tr namespace d now s)) \<and> distinct (Tables (begin_fn tr namespace d now s))"
  using assms all_tables_set all_tables_sorted by (simp add: begin_fn_def update_desired_fn_def Let_def)

end
