(* ===== verification/Link_Discovery.thy ===== *)
theory Link_Discovery
  imports Inference Recovery "HOL-Library.List_Lexorder" "HOL-Library.Char_ord"
begin

text \<open>
  The candidate search, \<^verbatim>\<open>internal/linkdiscovery\<close>: the centralized search over two peers
  (\<^verbatim>\<open>search.go\<close>) and the local engine of one peer (\<^verbatim>\<open>peer.go\<close>).  The network interfaces of the
  sources are records of state-passing functions over an arbitrary environment, which also holds
  the clock and the cancellation of the context.  The textual form of an endpoint, which only
  orders paths, is a parameter.
\<close>

section \<open>Interfaces and state\<close>

datatype Side = SideA | SideB

record Probe =
  pb_ID :: u64
  pb_Side :: Side
  pb_Local :: addrport
  pb_Remote :: addrport

record Report =
  rp_ID :: u64
  rp_Seen :: addrport

record 'n Network =
  net_Open :: "Side \<Rightarrow> addrport \<Rightarrow> 'n \<Rightarrow> 'n \<times> error option"
  net_Close :: "Side \<Rightarrow> addrport \<Rightarrow> 'n \<Rightarrow> 'n \<times> error option"
  net_Send :: "Probe \<Rightarrow> 'n \<Rightarrow> 'n \<times> error option"
  net_Reports :: "'n \<Rightarrow> 'n \<times> Report list result"
  net_Wait :: "duration \<Rightarrow> 'n \<Rightarrow> 'n \<times> error option"
  net_Now :: "'n \<Rightarrow> time"
  ctx_Err :: "'n \<Rightarrow> error option"

record Peer =
  peer_Local :: addrport
  peer_Target :: addrport
  peer_PublicIPs :: "addr list"
  peer_Observers :: "Observer list"

record Limits =
  lim_Timeout :: duration
  lim_Interval :: duration
  lim_Packets :: int
  lim_Measurements :: int
  lim_Candidates :: int
  lim_Pairs :: int
  lim_Repeats :: int
  lim_MaxIterations :: int

definition DefaultLimits :: Limits where
  "DefaultLimits = \<lparr>lim_Timeout = 10000000000, lim_Interval = 10000000, lim_Packets = 12000,
     lim_Measurements = 64, lim_Candidates = 32, lim_Pairs = 1024, lim_Repeats = 3, lim_MaxIterations = 16\<rparr>"

record Stats =
  st_Iterations :: int
  st_Packets :: int
  st_Measurements :: int
  st_NewObservations :: int
  st_RejectedBatches :: int
  st_BootstrapBranches :: int
  st_OtherBranches :: int

record Path =
  path_LocalA :: addrport
  path_LocalB :: addrport
  path_EndpointA :: addrport
  path_EndpointB :: addrport

text \<open>
  The mutable part of the engine.  The two-element arrays of the source are functions of the
  side; the sets of tried pairs and of measured steps are lists.
\<close>

record 'n engine =
  env :: 'n
  stats :: Stats
  nextID :: u64
  opened_sockets :: "(Side \<times> addrport) list"
  tried :: "(addrport \<times> addrport) list"
  measured :: "Side \<Rightarrow> Measurement list"
  stores :: "Side \<Rightarrow> Store"

text \<open>What does not change during a search.\<close>

record 'n setting =
  network :: "'n Network"
  peers :: "Side \<Rightarrow> Peer"
  limits :: Limits
  until :: time

definition errBudget :: error where
  "errBudget = ErrNew ''discovery budget exhausted''"

definition validEndpoint :: "addrport \<Rightarrow> bool" where
  "validEndpoint ep = (AP_IsValid ep \<and> ap_Port ep \<noteq> 0 \<and> \<not> IsUnspecified (ap_Addr ep) \<and> \<not> IsMulticast (ap_Addr ep))"

section \<open>Operations\<close>

definition check :: "'n setting \<Rightarrow> 'n engine \<Rightarrow> error option" where
  "check c e =
    (case ctx_Err (network c) (env e) of
       Some err \<Rightarrow> Some err
     | None \<Rightarrow>
       if until c \<le> net_Now (network c) (env e) \<or> lim_Packets (limits c) \<le> st_Packets (stats e)
       then Some errBudget else None)"

definition open_socket :: "'n setting \<Rightarrow> Side \<Rightarrow> addrport \<Rightarrow> 'n engine \<Rightarrow> 'n engine \<times> error option" where
  "open_socket c side local e =
    (case check c e of
       Some err \<Rightarrow> (e, Some err)
     | None \<Rightarrow>
       if (side, local) \<in> set (opened_sockets e) then (e, None)
       else
         (case net_Open (network c) side local (env e) of
            (n, Some err) \<Rightarrow> (e\<lparr>env := n\<rparr>, Some err)
          | (n, None) \<Rightarrow> (e\<lparr>env := n, opened_sockets := opened_sockets e @ [(side, local)]\<rparr>, None)))"

text \<open>The running total of a batch stops growing once it is over the limit.\<close>

fun batch_count :: "int \<Rightarrow> int \<Rightarrow> EndpointRange list \<Rightarrow> int" where
  "batch_count limit count [] = count"
| "batch_count limit count (r # rs) =
    (if limit < count + Count r then count + Count r else batch_count limit (count + Count r) rs)"

definition range_endpoints :: "EndpointRange \<Rightarrow> addrport list" where
  "range_endpoints r =
    (if Count r = 0 then []
     else map (\<lambda>port. AddrPort (r_Addr r) (word_of_int port)) [uint (r_First r) .. uint (r_Last r)])"

definition select_endpoint :: "int \<Rightarrow> addrport \<Rightarrow> addrport list \<Rightarrow> addrport list" where
  "select_endpoint limit ep selected =
    (if ep \<notin> set selected \<and> int (length selected) < limit then selected @ [ep] else selected)"

definition select_batch :: "int \<Rightarrow> CandidateBatch \<Rightarrow> addrport list \<times> int \<Rightarrow> addrport list \<times> int" where
  "select_batch limit batch acc =
    (case acc of (selected, rejected) \<Rightarrow>
      if limit < batch_count limit 0 (cb_Ranges batch) then (selected, rejected + 1)
      else (fold (select_endpoint limit) (concat (map range_endpoints (cb_Ranges batch))) selected, rejected))"

definition selectCandidates :: "int \<Rightarrow> Prediction \<Rightarrow> addrport list \<times> int" where
  "selectCandidates limit prediction = fold (select_batch limit) (pr_Candidates prediction) ([], 0)"

text \<open>The probes of one round of trials, with each side's destinations taken once.\<close>

definition add_probe :: "'n setting \<Rightarrow> Side \<Rightarrow> addrport \<Rightarrow> Probe list \<Rightarrow> Probe list" where
  "add_probe c side remote probes =
    (if \<exists>p \<in> set probes. pb_Side p = side \<and> pb_Remote p = remote then probes
     else probes @ [\<lparr>pb_ID = 0, pb_Side = side, pb_Local = peer_Local (peers c side), pb_Remote = remote\<rparr>])"

definition try_pair ::
  "'n setting \<Rightarrow> addrport \<times> addrport \<Rightarrow> Probe list \<times> (addrport \<times> addrport) list \<times> int
    \<Rightarrow> Probe list \<times> (addrport \<times> addrport) list \<times> int" where
  "try_pair c pair acc =
    (case (pair, acc) of ((a, b), (probes, done, pairs)) \<Rightarrow>
      if (a, b) \<in> set done \<or> lim_Pairs (limits c) \<le> pairs then (probes, done, pairs)
      else (add_probe c SideB a (add_probe c SideA b probes), (a, b) # done, pairs + 1))"

definition try_probes ::
  "'n setting \<Rightarrow> (addrport \<times> addrport) list \<Rightarrow> addrport list \<Rightarrow> addrport list
    \<Rightarrow> Probe list \<times> (addrport \<times> addrport) list" where
  "try_probes c done as bs =
    (case fold (try_pair c) (concat (map (\<lambda>a. map (\<lambda>b. (a, b)) bs) as)) ([], done, 0) of
       (probes, done', _) \<Rightarrow> (probes, done'))"

text \<open>Sending one copy of every probe: the numbered probes join the list of those sent.\<close>

fun send_probes ::
  "'n setting \<Rightarrow> Probe list \<Rightarrow> 'n engine \<Rightarrow> Probe list \<Rightarrow> 'n engine \<times> Probe list \<times> error option" where
  "send_probes c [] e sent = (e, sent, None)"
| "send_probes c (t # ts) e sent =
    (case check c e of
       Some err \<Rightarrow> (e, sent, Some err)
     | None \<Rightarrow>
       let probe = t\<lparr>pb_ID := nextID e + 1\<rparr>;
           e = e\<lparr>nextID := nextID e + 1, stats := (stats e)\<lparr>st_Packets := st_Packets (stats e) + 1\<rparr>\<rparr>
       in (case net_Send (network c) probe (env e) of
             (n, Some err) \<Rightarrow> (e\<lparr>env := n\<rparr>, sent @ [probe], Some err)
           | (n, None) \<Rightarrow> send_probes c ts (e\<lparr>env := n\<rparr>) (sent @ [probe])))"

definition probe_observation :: "Probe \<Rightarrow> addrport \<Rightarrow> Observation" where
  "probe_observation p seen = \<lparr>o_Local = pb_Local p, o_Remote = pb_Remote p, o_Seen = seen\<rparr>"

text \<open>
  The maps of the source from an identifier to its probe and to its first valid report; the
  latest probe sent under an identifier is the one looked up.
\<close>

definition sent_probe :: "Probe list \<Rightarrow> u64 \<Rightarrow> Probe option" where
  "sent_probe sent i = List.find (\<lambda>p. pb_ID p = i) (rev sent)"

definition take_report :: "Probe list \<Rightarrow> Report \<Rightarrow> (u64 \<times> addrport) list \<Rightarrow> (u64 \<times> addrport) list" where
  "take_report sent r reports =
    (case sent_probe sent (rp_ID r) of
       None \<Rightarrow> reports
     | Some p \<Rightarrow>
       if ObservationValid (probe_observation p (rp_Seen r)) \<and> rp_ID r \<notin> fst ` set reports
       then reports @ [(rp_ID r, rp_Seen r)] else reports)"

fun window_rounds ::
  "'n setting \<Rightarrow> nat \<Rightarrow> Probe list \<Rightarrow> 'n engine \<Rightarrow> Probe list \<Rightarrow> (u64 \<times> addrport) list
    \<Rightarrow> 'n engine \<times> Probe list \<times> (u64 \<times> addrport) list \<times> error option" where
  "window_rounds c 0 templates e sent reports = (e, sent, reports, None)"
| "window_rounds c (Suc k) templates e sent reports =
    (case send_probes c templates e sent of
       (e, sent, Some err) \<Rightarrow> (e, sent, reports, Some err)
     | (e, sent, None) \<Rightarrow>
       (case net_Wait (network c) (min (lim_Interval (limits c))
               (max 0 (sub_time (until c) (net_Now (network c) (env e))))) (env e) of
          (n, Some err) \<Rightarrow> (e\<lparr>env := n\<rparr>, sent, reports, Some err)
        | (n, None) \<Rightarrow>
          if until c \<le> net_Now (network c) n then (e\<lparr>env := n\<rparr>, sent, reports, Some errBudget)
          else
            (case net_Reports (network c) n of
               (n, Inl err) \<Rightarrow> (e\<lparr>env := n\<rparr>, sent, reports, Some err)
             | (n, Inr received) \<Rightarrow>
               window_rounds c k templates (e\<lparr>env := n\<rparr>) sent (fold (take_report sent) received reports))))"

definition collect :: "Probe list \<Rightarrow> (u64 \<times> addrport) list \<Rightarrow> Side \<Rightarrow> Observation list" where
  "collect sent reports side =
    concat (map (\<lambda>(i, seen).
      case sent_probe sent i of
        None \<Rightarrow> []
      | Some p \<Rightarrow> if pb_Side p = side then [probe_observation p seen] else []) (sort_key fst reports))"

definition window :: "'n setting \<Rightarrow> Probe list \<Rightarrow> 'n engine \<Rightarrow> 'n engine \<times> (Side \<Rightarrow> Observation list) \<times> error option" where
  "window c templates e =
    (if templates = [] then (e, (\<lambda>_. []), None)
     else
       (case window_rounds c (nat (lim_Repeats (limits c))) templates e [] [] of
          (e, sent, reports, err) \<Rightarrow> (e, collect sent reports, err)))"

definition ingest_side :: "Side \<Rightarrow> Observation list \<Rightarrow> 'n engine \<Rightarrow> 'n engine" where
  "ingest_side side obs e =
    fold (\<lambda>ob e.
      case Add (stores e side) ob of (s, added) \<Rightarrow>
        e\<lparr>stores := (stores e)(side := s),
          stats := (if added then (stats e)\<lparr>st_NewObservations := st_NewObservations (stats e) + 1\<rparr> else stats e)\<rparr>) obs e"

definition ingest :: "(Side \<Rightarrow> Observation list) \<Rightarrow> 'n engine \<Rightarrow> 'n engine" where
  "ingest obs e = ingest_side SideB (obs SideB) (ingest_side SideA (obs SideA) e)"

definition try_round ::
  "'n setting \<Rightarrow> addrport list \<Rightarrow> addrport list \<Rightarrow> 'n engine \<Rightarrow> 'n engine \<times> (Side \<Rightarrow> Observation list) \<times> error option" where
  "try_round c as bs e =
    (case try_probes c (tried e) as bs of (probes, done) \<Rightarrow> window c probes (e\<lparr>tried := done\<rparr>))"

text \<open>One branch of measurements; the flag says whether the branch has been entered.\<close>

fun observe_steps ::
  "'n setting \<Rightarrow> Side \<Rightarrow> bool \<Rightarrow> bool \<Rightarrow> Measurement list \<Rightarrow> 'n engine \<Rightarrow> 'n engine \<times> error option" where
  "observe_steps c side bootstrap entered [] e = (e, None)"
| "observe_steps c side bootstrap entered (step # steps) e =
    (if step \<in> set (measured e side) then observe_steps c side bootstrap entered steps e
     else if lim_Measurements (limits c) \<le> st_Measurements (stats e) then (e, Some errBudget)
     else
       let st = stats e;
           st = (if entered then st
                 else if bootstrap then st\<lparr>st_BootstrapBranches := st_BootstrapBranches st + 1\<rparr>
                 else st\<lparr>st_OtherBranches := st_OtherBranches st + 1\<rparr>);
           e = e\<lparr>measured := (measured e)(side := step # measured e side),
                 stats := st\<lparr>st_Measurements := st_Measurements st + 1\<rparr>\<rparr>
       in (case open_socket c side (me_Local step) e of
             (e, Some err) \<Rightarrow> (e, Some err)
           | (e, None) \<Rightarrow>
             (case window c [\<lparr>pb_ID = 0, pb_Side = side, pb_Local = me_Local step, pb_Remote = me_Remote step\<rparr>] e of
                (e, obs, Some err) \<Rightarrow> (ingest obs e, Some err)
              | (e, obs, None) \<Rightarrow> observe_steps c side bootstrap True steps (ingest obs e))))"

fun observe :: "'n setting \<Rightarrow> Side \<Rightarrow> MeasurementGroup list \<Rightarrow> 'n engine \<Rightarrow> 'n engine \<times> error option" where
  "observe c side [] e = (e, None)"
| "observe c side (g # gs) e =
    (case observe_steps c side (mg_Bootstrap g) False (mg_Steps g) e of
       (e', Some err) \<Rightarrow> (e', Some err)
     | (e', None) \<Rightarrow>
       if st_NewObservations (stats e) < st_NewObservations (stats e') then (e', None)
       else observe c side gs e')"

definition matchedPath :: "(Side \<Rightarrow> Observation list) \<Rightarrow> (Side \<Rightarrow> Peer) \<Rightarrow> Path option" where
  "matchedPath obs ps =
    (case [(a, b). a \<leftarrow> obs SideA, o_Local a = peer_Local (ps SideA),
                   b \<leftarrow> obs SideB, o_Local b = peer_Local (ps SideB) \<and> o_Remote a = o_Seen b \<and> o_Remote b = o_Seen a] of
       [] \<Rightarrow> None
     | (a, b) # _ \<Rightarrow> Some \<lparr>path_LocalA = o_Local a, path_LocalB = o_Local b,
                           path_EndpointA = o_Seen a, path_EndpointB = o_Seen b\<rparr>)"

section \<open>The search\<close>

record search_result =
  sr_Path :: "Path option"
  sr_Reason :: string
  sr_Stats :: Stats

definition survey_input :: "Peer \<Rightarrow> SurveyInput" where
  "survey_input p = \<lparr>in_Local = peer_Local p, in_Target = peer_Target p, in_PublicIPs = peer_PublicIPs p,
     in_Observers = peer_Observers p, in_BaseOnly = False\<rparr>"

text \<open>
  The loop of \<^verbatim>\<open>Run\<close>.  \<open>k\<close> bounds the iterations left; the result is the engine, the path found,
  the reason set before leaving the loop, if any, and the error.
\<close>

fun search_loop :: "'n setting \<Rightarrow> nat \<Rightarrow> 'n engine \<Rightarrow> 'n engine \<times> Path option \<times> string option \<times> error option" where
  "search_loop c 0 e = (e, None, None, None)"
| "search_loop c (Suc k) e =
    (case check c e of
       Some err \<Rightarrow> (e, None, None, Some err)
     | None \<Rightarrow>
       let before = st_NewObservations (stats e);
           predict = (\<lambda>side. Infer (Snapshot (stores e side)) (survey_input (peers c side)));
           chosen = (\<lambda>side. selectCandidates (lim_Candidates (limits c)) (predict side));
           e = e\<lparr>stats := (stats e)\<lparr>st_Iterations := st_Iterations (stats e) + 1,
                 st_RejectedBatches := st_RejectedBatches (stats e) + snd (chosen SideA) + snd (chosen SideB)\<rparr>\<rparr>
       in (case try_round c (fst (chosen SideA)) (fst (chosen SideB)) e of
             (e, obs, err) \<Rightarrow>
               let e = ingest obs e in
               case err of
                 Some err \<Rightarrow> (e, None, None, Some err)
               | None \<Rightarrow>
                 (case matchedPath obs (peers c) of
                    Some path \<Rightarrow> (e, Some path, Some ''connected'', None)
                  | None \<Rightarrow>
                    if before < st_NewObservations (stats e) then search_loop c k e
                    else
                      (case observe c SideA (pr_Plan (predict SideA)) e of
                         (e, Some err) \<Rightarrow> (e, None, None, Some err)
                       | (e, None) \<Rightarrow>
                         (case observe c SideB (pr_Plan (predict SideB)) e of
                            (e, Some err) \<Rightarrow> (e, None, None, Some err)
                          | (e, None) \<Rightarrow>
                            if st_NewObservations (stats e) = before
                            then (e, None, Some ''no-progress'', None)
                            else search_loop c k e)))))"

text \<open>The deferred release of the sockets that are not retained.\<close>

definition close_socket :: "'n setting \<Rightarrow> Side \<times> addrport \<Rightarrow> 'n engine \<times> error list \<Rightarrow> 'n engine \<times> error list" where
  "close_socket c s acc =
    (case acc of (e, errs) \<Rightarrow>
     case net_Close (network c) (fst s) (snd s) (env e) of (n, err) \<Rightarrow>
      (e\<lparr>env := n, stores := (stores e)(fst s := ForgetLocal (stores e (fst s)) (snd s))\<rparr>,
       errs @ (case err of None \<Rightarrow> [] | Some x \<Rightarrow> [x])))"

definition retained :: "'n setting \<Rightarrow> Path option \<Rightarrow> Side \<times> addrport \<Rightarrow> bool" where
  "retained c path s = (path \<noteq> None \<and> snd s = peer_Local (peers c (fst s)))"

definition release :: "'n setting \<Rightarrow> Path option \<Rightarrow> 'n engine \<Rightarrow> error list \<Rightarrow> 'n engine \<times> error list" where
  "release c path e errs = fold (close_socket c) (filter (\<lambda>s. \<not> retained c path s) (opened_sockets e)) (e, errs)"

definition is_cancel :: "error \<Rightarrow> bool" where
  "is_cancel e = (e = ErrNew ''context canceled'' \<or> e = ErrNew ''context deadline exceeded'')"

definition valid_setting :: "'n setting \<Rightarrow> bool" where
  "valid_setting c =
    (let a = peers c SideA; b = peers c SideB; l = limits c in
     validEndpoint (peer_Local a) \<and> validEndpoint (peer_Local b)
     \<and> validEndpoint (peer_Target a) \<and> validEndpoint (peer_Target b)
     \<and> is4 (peer_Local a) = is4 (peer_Local b) \<and> is4 (peer_Local a) = is4 (peer_Target a)
     \<and> is4 (peer_Local b) = is4 (peer_Target b)
     \<and> 0 < lim_Timeout l \<and> 0 < lim_Interval l \<and> 0 < lim_Packets l \<and> 0 < lim_Measurements l
     \<and> 0 < lim_Candidates l \<and> 0 < lim_Pairs l \<and> 0 < lim_Repeats l \<and> 0 < lim_MaxIterations l)"

definition zero_stats :: Stats where
  "zero_stats = \<lparr>st_Iterations = 0, st_Packets = 0, st_Measurements = 0, st_NewObservations = 0,
     st_RejectedBatches = 0, st_BootstrapBranches = 0, st_OtherBranches = 0\<rparr>"

definition new_engine :: "'n \<Rightarrow> (Side \<Rightarrow> Store) \<Rightarrow> 'n engine" where
  "new_engine n s = \<lparr>env = n, stats = zero_stats, nextID = 0, opened_sockets = [], tried = [],
     measured = (\<lambda>_. []), stores = s\<rparr>"

definition final_reason :: "string option \<Rightarrow> error option \<Rightarrow> string" where
  "final_reason reason err =
    (case reason of
       Some r \<Rightarrow> r
     | None \<Rightarrow>
       (case err of
          None \<Rightarrow> ''budget-exhausted''
        | Some e \<Rightarrow> if e = errBudget then ''budget-exhausted''
                    else if is_cancel e then ''cancelled'' else ''execution-error''))"

text \<open>
  The error of a search joins the error that ended it with those of the closing calls: it is a
  list, empty for no error.  \<open>finish\<close> is the deferred part, run on every exit.
\<close>

definition finish ::
  "'n setting \<Rightarrow> 'n engine \<Rightarrow> Path option \<Rightarrow> string \<Rightarrow> error option \<Rightarrow> 'n engine \<times> search_result \<times> error list" where
  "finish c e path reason err =
    (case release c path e (case err of None \<Rightarrow> [] | Some x \<Rightarrow> [x]) of
       (e', errs) \<Rightarrow> (e', \<lparr>sr_Path = path, sr_Reason = reason, sr_Stats = stats e\<rparr>, errs))"

definition open_failure :: "error \<Rightarrow> string" where
  "open_failure err = (if is_cancel err then ''cancelled'' else ''resource-error'')"

definition search_until :: "'n setting \<Rightarrow> (Side \<Rightarrow> Store) \<Rightarrow> 'n \<Rightarrow> 'n engine \<times> search_result \<times> error list" where
  "search_until c s n =
    (case open_socket c SideA (peer_Local (peers c SideA)) (new_engine n s) of
       (e, Some err) \<Rightarrow> finish c e None (open_failure err) (Some err)
     | (e, None) \<Rightarrow>
       (case open_socket c SideB (peer_Local (peers c SideB)) e of
          (e, Some err) \<Rightarrow> finish c e None (open_failure err) (Some err)
        | (e, None) \<Rightarrow>
          (case search_loop c (nat (lim_MaxIterations (limits c))) e of
             (e, path, reason, err) \<Rightarrow>
               finish c e path (final_reason reason err) (if err = Some errBudget then None else err))))"

definition search :: "'n setting \<Rightarrow> (Side \<Rightarrow> Store) \<Rightarrow> 'n \<Rightarrow> 'n engine \<times> search_result \<times> error list" where
  "search c s n =
    (if \<not> valid_setting c
     then (new_engine n s, \<lparr>sr_Path = None, sr_Reason = [], sr_Stats = zero_stats\<rparr>,
           [ErrNew ''invalid discovery configuration''])
     else search_until (c\<lparr>until := net_Now (network c) n + lim_Timeout (limits c)\<rparr>) s n)"

section \<open>One peer\<close>

record Arrival =
  ar_Destination :: addrport
  ar_Source :: addrport

record Batch =
  ba_Endpoints :: "addrport list"
  ba_Changed :: bool

record 'n PeerNetwork =
  pn_Exchange :: "u16 \<Rightarrow> Batch \<Rightarrow> 'n \<Rightarrow> 'n \<times> Batch result"
  pn_Try :: "u16 \<Rightarrow> addrport list \<Rightarrow> 'n \<Rightarrow> 'n \<times> (Observation list \<times> Arrival list) result"
  pn_Agree :: "u16 \<Rightarrow> addrport list \<Rightarrow> 'n \<Rightarrow> 'n \<times> addrport list result"
  pn_Observe :: "SurveyInput \<Rightarrow> Observation list \<Rightarrow> 'n \<Rightarrow> 'n \<times> Observation list result"

record PeerResult =
  out_Local :: addrport
  out_Endpoint :: addrport
  out_Seen :: addrport
  out_Rounds :: int
  out_Observations :: int
  out_Reason :: string

definition CandidatesFor :: "Prediction \<Rightarrow> int \<Rightarrow> addrport list" where
  "CandidatesFor prediction limit = fst (selectCandidates limit prediction)"

definition path_key :: "(addrport \<Rightarrow> string) \<Rightarrow> addrport \<times> addrport \<Rightarrow> string" where
  "path_key text p =
    (let a = text (fst p); b = text (snd p); (a, b) = (if b < a then (b, a) else (a, b)) in a @ ''/'' @ b)"

definition reciprocal_paths :: "Observation list \<Rightarrow> Arrival list \<Rightarrow> addrport \<Rightarrow> (addrport \<times> addrport) list" where
  "reciprocal_paths observations arrivals local =
    [(o_Seen ob, o_Remote ob). ob \<leftarrow> observations, o_Local ob = local,
       ar \<leftarrow> arrivals, o_Seen ob = ar_Destination ar \<and> o_Remote ob = ar_Source ar]"

definition reciprocal ::
  "(addrport \<Rightarrow> string) \<Rightarrow> Observation list \<Rightarrow> Arrival list \<Rightarrow> addrport \<Rightarrow> addrport list" where
  "reciprocal text observations arrivals local =
    (case sort_key (path_key text) (reciprocal_paths observations arrivals local) of
       [] \<Rightarrow> []
     | (a, b) # _ \<Rightarrow> [a, b])"

definition add_all :: "Observation list \<Rightarrow> Store \<times> int \<Rightarrow> Store \<times> int" where
  "add_all obs acc =
    fold (\<lambda>ob (s, n). case Add s ob of (s, added) \<Rightarrow> (s, if added then n + 1 else n)) obs acc"

definition agreed_paths :: "addrport list \<Rightarrow> addrport list \<Rightarrow> bool" where
  "agreed_paths path other =
    (length path = 2 \<and> length other = 2 \<and> path ! 0 = other ! 1 \<and> path ! 1 = other ! 0)"

text \<open>\<open>k\<close> is the number of rounds left, \<open>round\<close> the number of the current one.\<close>

fun peer_loop ::
  "(addrport \<Rightarrow> string) \<Rightarrow> 'n PeerNetwork \<Rightarrow> Peer \<Rightarrow> int \<Rightarrow> nat \<Rightarrow> int \<Rightarrow> bool \<Rightarrow> 'n \<Rightarrow> Store \<Rightarrow> PeerResult
    \<Rightarrow> 'n \<times> Store \<times> PeerResult \<times> error option" where
  "peer_loop text net p limit 0 round changed n s out = (n, s, out\<lparr>out_Reason := ''budget-exhausted''\<rparr>, None)"
| "peer_loop text net p limit (Suc k) round changed n s out =
    (let out = out\<lparr>out_Rounds := round\<rparr>;
         prediction = Infer (Snapshot s) (survey_input p) in
     case pn_Exchange net (word_of_int round) \<lparr>ba_Endpoints = CandidatesFor prediction limit, ba_Changed = changed\<rparr> n of
       (n, Inl err) \<Rightarrow> (n, s, out, Some err)
     | (n, Inr batch) \<Rightarrow>
       if limit < int (length (ba_Endpoints batch))
       then (n, s, out, Some (ErrNew ''peer candidate budget exceeded''))
       else if \<not> changed \<and> \<not> ba_Changed batch then (n, s, out\<lparr>out_Reason := ''no-progress''\<rparr>, None)
       else
         (case pn_Try net (word_of_int round) (ba_Endpoints batch) n of
            (n, Inl err) \<Rightarrow> (n, s, out, Some err)
          | (n, Inr (observations, arrivals)) \<Rightarrow>
            (case add_all observations (s, out_Observations out) of (s', obs) \<Rightarrow>
              let out = out\<lparr>out_Observations := obs\<rparr>;
                  path = reciprocal text observations arrivals (peer_Local p) in
              case pn_Agree net (word_of_int round) path n of
                (n, Inl err) \<Rightarrow> (n, s', out, Some err)
              | (n, Inr other) \<Rightarrow>
                if agreed_paths path other
                then (n, s', out\<lparr>out_Local := peer_Local p, out_Seen := path ! 0, out_Endpoint := path ! 1,
                               out_Reason := ''connected''\<rparr>, None)
                else if length s' = length s then
                  (case pn_Observe net (survey_input p) (Snapshot s') n of
                     (n, Inl err) \<Rightarrow> (n, s', out, Some err)
                   | (n, Inr extra) \<Rightarrow>
                     (case add_all extra (s', out_Observations out) of (s'', obs) \<Rightarrow>
                       peer_loop text net p limit k (round + 1) (length s < length s'') n s''
                         (out\<lparr>out_Observations := obs\<rparr>)))
                else peer_loop text net p limit k (round + 1) (length s < length s') n s' out)))"

definition RunPeer ::
  "(addrport \<Rightarrow> string) \<Rightarrow> 'n PeerNetwork \<Rightarrow> Peer \<Rightarrow> Limits \<Rightarrow> Store \<Rightarrow> 'n \<Rightarrow> 'n \<times> Store \<times> PeerResult \<times> error option" where
  "RunPeer text net p lims s n =
    (let out = \<lparr>out_Local = NoAddrPort, out_Endpoint = NoAddrPort, out_Seen = NoAddrPort,
                out_Rounds = 0, out_Observations = 0, out_Reason = []\<rparr> in
     if \<not> validEndpoint (peer_Local p) \<or> \<not> validEndpoint (peer_Target p)
       \<or> lim_MaxIterations lims < 1 \<or> 16 < lim_MaxIterations lims \<or> lim_Timeout lims \<le> 0
       \<or> lim_Candidates lims < 1 \<or> 32 < lim_Candidates lims
     then (n, s, out, Some (ErrNew ''invalid peer discovery configuration''))
     else peer_loop text net p (lim_Candidates lims) (nat (lim_MaxIterations lims)) 1 True n s out)"

section \<open>Selected candidates\<close>

lemma select_endpoint_inv:
  assumes "distinct sel" "int (length sel) \<le> max 0 limit"
  shows "distinct (select_endpoint limit ep sel)" "int (length (select_endpoint limit ep sel)) \<le> max 0 limit"
    "set (select_endpoint limit ep sel) \<subseteq> insert ep (set sel)"
  using assms by (auto simp: select_endpoint_def)

lemma fold_select_endpoint:
  assumes "distinct sel" "int (length sel) \<le> max 0 limit"
  shows "distinct (fold (select_endpoint limit) eps sel) \<and> int (length (fold (select_endpoint limit) eps sel)) \<le> max 0 limit
    \<and> set (fold (select_endpoint limit) eps sel) \<subseteq> set sel \<union> set eps"
  using assms
proof (induction eps arbitrary: sel)
  case (Cons ep eps)
  from Cons.IH[OF select_endpoint_inv(1,2)[OF Cons.prems], of ep] select_endpoint_inv(3)[OF Cons.prems, of ep]
  show ?case by auto
qed simp

definition small_batch :: "int \<Rightarrow> CandidateBatch \<Rightarrow> bool" where
  "small_batch limit b = (sum_list (map Count (cb_Ranges b)) \<le> limit)"

lemma Count_nonneg: "0 \<le> Count r"
  by (auto simp: Count_def not_less word_le_def)

lemma batch_count_exact: "batch_count limit count rs \<le> limit \<Longrightarrow> count + sum_list (map Count rs) = batch_count limit count rs"
  by (induction limit count rs rule: batch_count.induct) (auto split: if_splits simp: add.assoc)

lemma fold_select_batch:
  assumes "distinct sel" "int (length sel) \<le> max 0 limit"
    "fold (select_batch limit) bs (sel, rej) = (sel', rej')"
  shows "distinct sel' \<and> int (length sel') \<le> max 0 limit
    \<and> (\<forall>ep \<in> set sel'. ep \<in> set sel \<or> (\<exists>b \<in> set bs. small_batch limit b \<and> (\<exists>r \<in> set (cb_Ranges b). ep \<in> set (range_endpoints r))))"
  using assms
proof (induction bs arbitrary: sel rej)
  case (Cons b bs)
  obtain sel1 rej1 where one: "select_batch limit b (sel, rej) = (sel1, rej1)" by fastforce
  have inv: "distinct sel1 \<and> int (length sel1) \<le> max 0 limit
    \<and> (\<forall>ep \<in> set sel1. ep \<in> set sel \<or> small_batch limit b \<and> (\<exists>r \<in> set (cb_Ranges b). ep \<in> set (range_endpoints r)))"
  proof (cases "limit < batch_count limit 0 (cb_Ranges b)")
    case True
    with one Cons.prems show ?thesis by (auto simp: select_batch_def)
  next
    case False
    with batch_count_exact[of limit 0 "cb_Ranges b"] have "small_batch limit b" by (simp add: small_batch_def)
    moreover from False one have "sel1 = fold (select_endpoint limit) (concat (map range_endpoints (cb_Ranges b))) sel"
      by (simp add: select_batch_def)
    ultimately show ?thesis
      using fold_select_endpoint[OF Cons.prems(1,2), of "concat (map range_endpoints (cb_Ranges b))"] by auto
  qed
  moreover have "fold (select_batch limit) bs (sel1, rej1) = (sel', rej')" using Cons.prems(3) one by simp
  ultimately have "distinct sel' \<and> int (length sel') \<le> max 0 limit
    \<and> (\<forall>ep \<in> set sel'. ep \<in> set sel1 \<or> (\<exists>b \<in> set bs. small_batch limit b \<and> (\<exists>r \<in> set (cb_Ranges b). ep \<in> set (range_endpoints r))))"
    using Cons.IH[of sel1 rej1] by blast
  with inv show ?case by fastforce
qed simp

lemma selectCandidates_facts:
  "distinct (fst (selectCandidates limit p)) \<and> int (length (fst (selectCandidates limit p))) \<le> max 0 limit
   \<and> (\<forall>ep \<in> set (fst (selectCandidates limit p)).
        \<exists>b \<in> set (pr_Candidates p). small_batch limit b \<and> (\<exists>r \<in> set (cb_Ranges b). ep \<in> set (range_endpoints r)))"
proof -
  obtain sel rej where f: "fold (select_batch limit) (pr_Candidates p) ([], 0) = (sel, rej)" by fastforce
  have "distinct ([] :: addrport list)" "int (length ([] :: addrport list)) \<le> max 0 limit" by simp_all
  from fold_select_batch[OF this f] f show ?thesis by (simp add: selectCandidates_def)
qed

section \<open>Budgets\<close>

definition bud :: "'n setting \<Rightarrow> 'n engine \<Rightarrow> bool" where
  "bud c e = (st_Packets (stats e) \<le> lim_Packets (limits c) \<and> st_Measurements (stats e) \<le> lim_Measurements (limits c))"

text \<open>The counters an operation may move: the others are as they were.\<close>

definition same_counts :: "'n engine \<Rightarrow> 'n engine \<Rightarrow> bool" where
  "same_counts e e' = (st_Iterations (stats e') = st_Iterations (stats e))"

lemma same_counts_trans: "same_counts a b \<Longrightarrow> same_counts b d \<Longrightarrow> same_counts a d"
  by (simp add: same_counts_def)

lemma check_None: "check c e = None \<Longrightarrow> st_Packets (stats e) < lim_Packets (limits c) \<and> net_Now (network c) (env e) < until c"
  by (auto simp: check_def split: option.splits if_splits)

lemma open_socket_bud:
  "open_socket c side l e = (e', err) \<Longrightarrow> stats e' = stats e"
  by (auto simp: open_socket_def split: option.splits if_splits prod.splits)

lemma send_probes_bud:
  "send_probes c ts e sent = (e', sent', err) \<Longrightarrow> bud c e \<Longrightarrow> bud c e' \<and> same_counts e e'"
proof (induction c ts e sent rule: send_probes.induct)
  case (2 c t ts e sent)
  show ?case
  proof (cases "check c e")
    case (Some err)
    with 2 show ?thesis by (auto simp: same_counts_def)
  next
    case None
    let ?p = "t\<lparr>pb_ID := nextID e + 1\<rparr>"
    let ?e = "e\<lparr>nextID := nextID e + 1, stats := (stats e)\<lparr>st_Packets := st_Packets (stats e) + 1\<rparr>\<rparr>"
    obtain n se where s: "net_Send (network c) ?p (env ?e) = (n, se)" by fastforce
    have b: "bud c (?e\<lparr>env := n\<rparr>)" using "2.prems"(2) check_None[OF None] by (simp add: bud_def)
    show ?thesis
    proof (cases se)
      case (Some err)
      with "2.prems" None s b show ?thesis by (auto simp: same_counts_def)
    next
      case none: None
      with "2.prems"(1) None s have "send_probes c ts (?e\<lparr>env := n\<rparr>) (sent @ [?p]) = (e', sent', err)" by simp
      from "2.IH"[OF None refl refl s[symmetric] none this b] show ?thesis by (simp add: same_counts_def)
    qed
  qed
qed (auto simp: same_counts_def)

lemma window_rounds_bud:
  "window_rounds c k ts e sent reports = (e', sent', reports', err) \<Longrightarrow> bud c e \<Longrightarrow> bud c e' \<and> same_counts e e'"
proof (induction k arbitrary: e sent reports)
  case (Suc k)
  obtain e1 sent1 err1 where s: "send_probes c ts e sent = (e1, sent1, err1)" by (metis prod_cases3)
  note b = send_probes_bud[OF s Suc.prems(2)]
  have env: "bud c (e1\<lparr>env := n\<rparr>) \<and> same_counts e (e1\<lparr>env := n\<rparr>)" for n
    using b by (simp add: bud_def same_counts_def)
  show ?case
  proof (cases err1)
    case (Some x)
    with Suc.prems(1) s b show ?thesis by auto
  next
    case None
    obtain n we where w: "net_Wait (network c) (min (lim_Interval (limits c))
        (max 0 (sub_time (until c) (net_Now (network c) (env e1))))) (env e1) = (n, we)" by fastforce
    show ?thesis
    proof (cases "we \<noteq> None \<or> until c \<le> net_Now (network c) n")
      case True
      with Suc.prems(1) s None w env show ?thesis by (auto split: option.splits if_splits)
    next
      case False
      obtain n' rr where r: "net_Reports (network c) n = (n', rr)" by fastforce
      show ?thesis
      proof (cases rr)
        case (Inl x)
        with Suc.prems(1) s None w False r env show ?thesis by auto
      next
        case (Inr received)
        with Suc.prems(1) s None w False r
        have "window_rounds c k ts (e1\<lparr>env := n'\<rparr>) sent1 (fold (take_report sent1) received reports) = (e', sent', reports', err)"
          by simp
        from Suc.IH[OF this] env[of n'] show ?thesis by (auto intro: same_counts_trans)
      qed
    qed
  qed
qed (auto simp: same_counts_def)

lemma window_bud: "window c ts e = (e', obs, err) \<Longrightarrow> bud c e \<Longrightarrow> bud c e' \<and> same_counts e e'"
  using window_rounds_bud[of c "nat (lim_Repeats (limits c))" ts e "[]" "[]"]
  by (auto simp: window_def same_counts_def split: if_splits prod.splits)

lemma ingest_side_stats:
  "st_Packets (stats (ingest_side side obs e)) = st_Packets (stats e)
   \<and> st_Measurements (stats (ingest_side side obs e)) = st_Measurements (stats e)
   \<and> st_Iterations (stats (ingest_side side obs e)) = st_Iterations (stats e)
   \<and> opened_sockets (ingest_side side obs e) = opened_sockets e \<and> env (ingest_side side obs e) = env e"
  unfolding ingest_side_def by (induction obs arbitrary: e) (auto split: prod.splits)

lemma ingest_stats:
  "bud c (ingest obs e) = bud c e" "same_counts e (ingest obs e)"
  "opened_sockets (ingest obs e) = opened_sockets e" "env (ingest obs e) = env e"
  by (simp_all add: ingest_def bud_def same_counts_def ingest_side_stats)

lemma observe_steps_bud:
  "observe_steps c side boot ent steps e = (e', err) \<Longrightarrow> bud c e \<Longrightarrow> bud c e' \<and> same_counts e e'"
proof (induction steps arbitrary: ent e)
  case (Cons step steps)
  show ?case
  proof (cases "step \<in> set (measured e side) \<or> lim_Measurements (limits c) \<le> st_Measurements (stats e)")
    case True
    with Cons show ?thesis by (auto simp: same_counts_def split: if_splits)
  next
    case False
    define st where "st = (if ent then stats e
      else if boot then (stats e)\<lparr>st_BootstrapBranches := st_BootstrapBranches (stats e) + 1\<rparr>
      else (stats e)\<lparr>st_OtherBranches := st_OtherBranches (stats e) + 1\<rparr>)"
    define e1 where "e1 = e\<lparr>measured := (measured e)(side := step # measured e side),
      stats := st\<lparr>st_Measurements := st_Measurements st + 1\<rparr>\<rparr>"
    have b1: "bud c e1 \<and> same_counts e e1"
      using False Cons.prems(2) by (auto simp: e1_def st_def bud_def same_counts_def)
    obtain e2 oe where o: "open_socket c side (me_Local step) e1 = (e2, oe)" by fastforce
    have b2: "bud c e2 \<and> same_counts e e2" using b1 open_socket_bud[OF o] by (simp add: bud_def same_counts_def)
    show ?thesis
    proof (cases oe)
      case (Some x)
      with Cons.prems(1) False o b2 show ?thesis by (simp add: e1_def st_def Let_def)
    next
      case None
      obtain e3 obs we where w: "window c [\<lparr>pb_ID = 0, pb_Side = side, pb_Local = me_Local step, pb_Remote = me_Remote step\<rparr>] e2 = (e3, obs, we)"
        by (metis prod_cases3)
      have b3: "bud c (ingest obs e3) \<and> same_counts e (ingest obs e3)"
        using window_bud[OF w] b2 ingest_stats(1,2) by (meson same_counts_trans)
      show ?thesis
      proof (cases we)
        case (Some x)
        with Cons.prems(1) False o None w b3 show ?thesis by (simp add: e1_def st_def Let_def)
      next
        case wn: None
        with Cons.prems(1) False o None w have "observe_steps c side boot True steps (ingest obs e3) = (e', err)"
          by (simp add: e1_def st_def Let_def)
        from Cons.IH[OF this] b3 show ?thesis by (auto intro: same_counts_trans)
      qed
    qed
  qed
qed (auto simp: same_counts_def)

lemma observe_bud: "observe c side gs e = (e', err) \<Longrightarrow> bud c e \<Longrightarrow> bud c e' \<and> same_counts e e'"
proof (induction gs arbitrary: e)
  case (Cons g gs)
  obtain e1 err1 where s: "observe_steps c side (mg_Bootstrap g) False (mg_Steps g) e = (e1, err1)" by fastforce
  note b = observe_steps_bud[OF s Cons.prems(2)]
  show ?case
    using Cons.prems(1) s b Cons.IH[of e1] by (auto split: option.splits if_splits intro: same_counts_trans)
qed (auto simp: same_counts_def)

lemma try_round_bud: "try_round c as bs e = (e', obs, err) \<Longrightarrow> bud c e \<Longrightarrow> bud c e' \<and> same_counts e e'"
  using window_bud[of c _ "e\<lparr>tried := snd (try_probes c (tried e) as bs)\<rparr>"]
  by (auto simp: try_round_def bud_def same_counts_def split: prod.splits)

text \<open>
  The loop meets an engine state in one of five ways; the lemma lists them once for the
  invariants below.
\<close>

lemma search_loop_cases:
  assumes "search_loop c (Suc k) e = (e', path, reason, err)"
  obtains (stopped) "e' = e" "path = None" "reason = None" "err \<noteq> None"
    | (round) rej e1 obs terr where "try_round c (fst (selectCandidates (lim_Candidates (limits c)) (Infer (Snapshot (stores e SideA)) (survey_input (peers c SideA)))))
          (fst (selectCandidates (lim_Candidates (limits c)) (Infer (Snapshot (stores e SideB)) (survey_input (peers c SideB)))))
          (e\<lparr>stats := (stats e)\<lparr>st_Iterations := st_Iterations (stats e) + 1, st_RejectedBatches := rej\<rparr>\<rparr>) = (e1, obs, terr)"
        "check c e = None"
        "e' = ingest obs e1 \<and> path = None \<and> terr \<noteq> None
         \<or> terr = None \<and> e' = ingest obs e1 \<and> path \<noteq> None \<and> path = matchedPath obs (peers c)
         \<or> terr = None \<and> search_loop c k (ingest obs e1) = (e', path, reason, err)
         \<or> terr = None \<and> (\<exists>planA e2 errA. observe c SideA planA (ingest obs e1) = (e2, errA) \<and>
              (e' = e2 \<and> path = None
               \<or> (\<exists>planB e3 errB. observe c SideB planB e2 = (e3, errB) \<and>
                    (e' = e3 \<and> path = None \<or> search_loop c k e3 = (e', path, reason, err)))))"
proof (cases "check c e")
  case (Some x)
  with assms have "e' = e" "path = None" "reason = None" "err = Some x" by simp_all
  then show ?thesis by (intro stopped) simp_all
next
  case None
  define predict where "predict = (\<lambda>side. Infer (Snapshot (stores e side)) (survey_input (peers c side)))"
  define chosen where "chosen = (\<lambda>side. selectCandidates (lim_Candidates (limits c)) (predict side))"
  define e0 where "e0 = e\<lparr>stats := (stats e)\<lparr>st_Iterations := st_Iterations (stats e) + 1,
    st_RejectedBatches := st_RejectedBatches (stats e) + snd (chosen SideA) + snd (chosen SideB)\<rparr>\<rparr>"
  obtain e1 obs terr where t: "try_round c (fst (chosen SideA)) (fst (chosen SideB)) e0 = (e1, obs, terr)" by (metis prod_cases3)
  obtain e2 errA where a: "observe c SideA (pr_Plan (predict SideA)) (ingest obs e1) = (e2, errA)" by fastforce
  obtain e3 errB where b: "observe c SideB (pr_Plan (predict SideB)) e2 = (e3, errB)" by fastforce
  have step: "(e', path, reason, err) = (case terr of
       Some x \<Rightarrow> (ingest obs e1, None, None, Some x)
     | None \<Rightarrow>
       (case matchedPath obs (peers c) of
          Some p \<Rightarrow> (ingest obs e1, Some p, Some ''connected'', None)
        | None \<Rightarrow>
          if st_NewObservations (stats e) < st_NewObservations (stats (ingest obs e1)) then search_loop c k (ingest obs e1)
          else (case errA of Some x \<Rightarrow> (e2, None, None, Some x)
            | None \<Rightarrow> (case errB of Some x \<Rightarrow> (e3, None, None, Some x)
              | None \<Rightarrow> if st_NewObservations (stats e3) = st_NewObservations (stats e)
                  then (e3, None, Some ''no-progress'', None) else search_loop c k e3))))"
    unfolding assms[symmetric] using None t a b
    by (cases terr; cases "matchedPath obs (peers c)"; cases errA; cases errB)
      (simp_all add: Let_def predict_def chosen_def e0_def)
  show ?thesis
  proof (rule round[of "st_RejectedBatches (stats e) + snd (chosen SideA) + snd (chosen SideB)" e1 obs terr])
    show "try_round c (fst (selectCandidates (lim_Candidates (limits c)) (Infer (Snapshot (stores e SideA)) (survey_input (peers c SideA)))))
          (fst (selectCandidates (lim_Candidates (limits c)) (Infer (Snapshot (stores e SideB)) (survey_input (peers c SideB)))))
          (e\<lparr>stats := (stats e)\<lparr>st_Iterations := st_Iterations (stats e) + 1,
              st_RejectedBatches := st_RejectedBatches (stats e) + snd (chosen SideA) + snd (chosen SideB)\<rparr>\<rparr>) = (e1, obs, terr)"
      using t by (simp add: chosen_def predict_def e0_def)
    show "check c e = None" by fact
    let ?plan = "\<exists>planA e2 errA. observe c SideA planA (ingest obs e1) = (e2, errA) \<and>
              (e' = e2 \<and> path = None
               \<or> (\<exists>planB e3 errB. observe c SideB planB e2 = (e3, errB) \<and>
                    (e' = e3 \<and> path = None \<or> search_loop c k e3 = (e', path, reason, err))))"
    let ?cases = "e' = ingest obs e1 \<and> path = None \<and> terr \<noteq> None
         \<or> terr = None \<and> e' = ingest obs e1 \<and> path \<noteq> None \<and> path = matchedPath obs (peers c)
         \<or> terr = None \<and> search_loop c k (ingest obs e1) = (e', path, reason, err)
         \<or> terr = None \<and> ?plan"
    have plan: ?plan if "errA \<noteq> None \<and> e' = e2 \<and> path = None \<or> errB \<noteq> None \<and> e' = e3 \<and> path = None
        \<or> e' = e3 \<and> path = None \<or> search_loop c k e3 = (e', path, reason, err)"
      using that a b by blast
    show ?cases
    proof (cases "terr \<noteq> None \<or> matchedPath obs (peers c) \<noteq> None
        \<or> st_NewObservations (stats e) < st_NewObservations (stats (ingest obs e1))")
      case True
      with step show ?thesis by (cases terr; cases "matchedPath obs (peers c)") simp_all
    next
      case False
      with step have "errA \<noteq> None \<and> e' = e2 \<and> path = None \<or> errB \<noteq> None \<and> e' = e3 \<and> path = None
        \<or> e' = e3 \<and> path = None \<or> search_loop c k e3 = (e', path, reason, err)"
        by (cases errA; cases errB) (simp_all split: if_splits)
      from plan[OF this] False show ?thesis by blast
    qed
  qed
qed

lemma search_loop_bud:
  assumes "search_loop c k e = (e', path, reason, err)" "bud c e"
  shows "bud c e' \<and> st_Iterations (stats e') \<le> st_Iterations (stats e) + int k"
  using assms
proof (induction k arbitrary: e)
  case (Suc k)
  from Suc.prems(1) show ?case
  proof (cases rule: search_loop_cases)
    case stopped
    with Suc.prems(2) show ?thesis by simp
  next
    case (round rej e1 obs terr)
    have "bud c (e\<lparr>stats := (stats e)\<lparr>st_Iterations := st_Iterations (stats e) + 1, st_RejectedBatches := rej\<rparr>\<rparr>)"
      using Suc.prems(2) by (simp add: bud_def)
    from try_round_bud[OF round(1) this] have
      r: "bud c (ingest obs e1)" "st_Iterations (stats (ingest obs e1)) = st_Iterations (stats e) + 1"
      using ingest_stats(1)[of c obs e1] ingest_stats(2)[of e1 obs] by (simp_all add: same_counts_def)
    have plan: "bud c e2 \<and> st_Iterations (stats e2) = st_Iterations (stats e) + 1"
      if "observe c side g x = (e2, err2)" "bud c x" "st_Iterations (stats x) = st_Iterations (stats e) + 1" for side g x e2 err2
      using observe_bud[OF that(1,2)] that(3) by (simp add: same_counts_def)
    have rec: "bud c e' \<and> st_Iterations (stats e') \<le> st_Iterations (stats e) + int (Suc k)"
      if "search_loop c k x = (e', path, reason, err)" "bud c x" "st_Iterations (stats x) = st_Iterations (stats e) + 1" for x
      using Suc.IH[OF that(1,2)] that(3) by simp
    from round(3) show ?thesis
      using r plan rec by (elim disjE conjE exE) (auto, (metis+)?)
  qed
qed simp

section \<open>Sockets\<close>

text \<open>
  What the search relies on of the network it is given, with \<open>os\<close> the sockets that are open:
  opening opens exactly the socket asked for or nothing, closing closes it, and the other
  calls leave sockets alone.
\<close>

definition net_laws :: "'n Network \<Rightarrow> ('n \<Rightarrow> (Side \<times> addrport) set) \<Rightarrow> bool" where
  "net_laws net os =
    ((\<forall>side l n n' err. net_Open net side l n = (n', err) \<longrightarrow>
        os n' = (if err = None then insert (side, l) (os n) else os n))
     \<and> (\<forall>side l n. os (fst (net_Close net side l n)) = os n - {(side, l)})
     \<and> (\<forall>p n n' err. net_Send net p n = (n', err) \<longrightarrow> os n' = os n)
     \<and> (\<forall>n n' r. net_Reports net n = (n', r) \<longrightarrow> os n' = os n)
     \<and> (\<forall>d n n' err. net_Wait net d n = (n', err) \<longrightarrow> os n' = os n))"

definition owns :: "('n \<Rightarrow> (Side \<times> addrport) set) \<Rightarrow> 'n engine \<Rightarrow> 'n engine \<Rightarrow> bool" where
  "owns os e e' = ((os (env e) = set (opened_sockets e) \<longrightarrow> os (env e') = set (opened_sockets e'))
     \<and> set (opened_sockets e) \<subseteq> set (opened_sockets e'))"

lemma owns_refl [simp]: "owns os e e"
  by (simp add: owns_def)

lemma owns_trans: "owns os a b \<Longrightarrow> owns os b d \<Longrightarrow> owns os a d"
  by (auto simp: owns_def)

lemma owns_same: "os (env e') = os (env e) \<Longrightarrow> opened_sockets e' = opened_sockets e \<Longrightarrow> owns os e e'"
  by (simp add: owns_def)

lemma open_socket_owns:
  assumes "net_laws (network c) os" "open_socket c side l e = (e', err)"
  shows "owns os e e'" "err = None \<Longrightarrow> (side, l) \<in> set (opened_sockets e')"
proof -
  obtain n oe where n: "net_Open (network c) side l (env e) = (n, oe)" by fastforce
  note os = assms(1)[unfolded net_laws_def, THEN conjunct1, rule_format, OF n]
  show "owns os e e'" "err = None \<Longrightarrow> (side, l) \<in> set (opened_sockets e')"
    using assms(2) n os by (cases oe; auto simp: open_socket_def owns_def split: option.splits if_splits)+
qed

lemma send_probes_owns:
  assumes "net_laws (network c) os"
  shows "send_probes c ts e sent = (e', sent', err) \<Longrightarrow> owns os e e'"
proof (induction ts arbitrary: e sent)
  case (Cons t ts)
  show ?case
  proof (cases "check c e")
    case (Some x)
    with Cons.prems show ?thesis by simp
  next
    case None
    let ?p = "t\<lparr>pb_ID := nextID e + 1\<rparr>"
    let ?e = "e\<lparr>nextID := nextID e + 1, stats := (stats e)\<lparr>st_Packets := st_Packets (stats e) + 1\<rparr>\<rparr>"
    obtain n se where s: "net_Send (network c) ?p (env ?e) = (n, se)" by fastforce
    have "os n = os (env ?e)" using assms s unfolding net_laws_def by blast
    then have o: "owns os e (?e\<lparr>env := n\<rparr>)" by (intro owns_same) simp_all
    show ?thesis
      using Cons.prems None s o Cons.IH[of "?e\<lparr>env := n\<rparr>" "sent @ [?p]"]
      by (cases se) (auto simp: Let_def intro: owns_trans)
  qed
qed simp

lemma window_rounds_owns:
  assumes laws: "net_laws (network c) os"
  shows "window_rounds c k ts e sent reports = (e', sent', reports', err) \<Longrightarrow> owns os e e'"
proof (induction k arbitrary: e sent reports)
  case (Suc k)
  obtain e1 sent1 err1 where s: "send_probes c ts e sent = (e1, sent1, err1)" by (metis prod_cases3)
  obtain n we where w: "net_Wait (network c) (min (lim_Interval (limits c))
      (max 0 (sub_time (until c) (net_Now (network c) (env e1))))) (env e1) = (n, we)" by fastforce
  obtain n' rr where r: "net_Reports (network c) n = (n', rr)" by fastforce
  have "os n = os (env e1)" "os n' = os n" using laws w r unfolding net_laws_def by blast+
  then have "owns os e1 (e1\<lparr>env := n\<rparr>)" "owns os e1 (e1\<lparr>env := n'\<rparr>)"
    by (simp_all add: owns_def)
  then have o: "owns os e e1" "owns os e (e1\<lparr>env := n\<rparr>)" "owns os e (e1\<lparr>env := n'\<rparr>)"
    using send_probes_owns[OF laws s] by (blast intro: owns_trans)+
  show ?case
  proof (cases err1)
    case (Some x)
    with Suc.prems s o(1) show ?thesis by auto
  next
    case None
    show ?thesis
    proof (cases "we \<noteq> None \<or> until c \<le> net_Now (network c) n")
      case True
      with Suc.prems s None w o show ?thesis by (auto split: option.splits if_splits)
    next
      case False
      with Suc.prems s None w r o Suc.IH[of "e1\<lparr>env := n'\<rparr>" sent1] show ?thesis
        by (cases rr) (auto intro: owns_trans)
    qed
  qed
qed simp

lemma window_owns: "net_laws (network c) os \<Longrightarrow> window c ts e = (e', obs, err) \<Longrightarrow> owns os e e'"
  using window_rounds_owns[of c os "nat (lim_Repeats (limits c))" ts e "[]" "[]"]
  by (auto simp: window_def split: if_splits prod.splits)

lemma ingest_owns: "owns os e (ingest obs e)"
  by (rule owns_same) (simp_all add: ingest_stats)

lemma observe_steps_owns:
  assumes laws: "net_laws (network c) os"
  shows "observe_steps c side boot ent steps e = (e', err) \<Longrightarrow> owns os e e'"
proof (induction steps arbitrary: ent e)
  case (Cons step steps)
  show ?case
  proof (cases "step \<in> set (measured e side) \<or> lim_Measurements (limits c) \<le> st_Measurements (stats e)")
    case True
    with Cons show ?thesis by (auto split: if_splits)
  next
    case False
    define st where "st = (if ent then stats e
      else if boot then (stats e)\<lparr>st_BootstrapBranches := st_BootstrapBranches (stats e) + 1\<rparr>
      else (stats e)\<lparr>st_OtherBranches := st_OtherBranches (stats e) + 1\<rparr>)"
    define e1 where "e1 = e\<lparr>measured := (measured e)(side := step # measured e side),
      stats := st\<lparr>st_Measurements := st_Measurements st + 1\<rparr>\<rparr>"
    have o1: "owns os e e1" by (rule owns_same) (simp_all add: e1_def)
    obtain e2 oe where o: "open_socket c side (me_Local step) e1 = (e2, oe)" by fastforce
    note o2 = owns_trans[OF o1 open_socket_owns(1)[OF laws o]]
    obtain e3 obs we where w: "window c [\<lparr>pb_ID = 0, pb_Side = side, pb_Local = me_Local step, pb_Remote = me_Remote step\<rparr>] e2 = (e3, obs, we)"
      by (metis prod_cases3)
    note o3 = owns_trans[OF owns_trans[OF o2 window_owns[OF laws w]] ingest_owns[of os e3 obs]]
    show ?thesis
      using Cons.prems False o w o2 o3 Cons.IH[of True "ingest obs e3"]
      by (cases oe; cases we) (auto simp: e1_def st_def Let_def intro: owns_trans)
  qed
qed simp

lemma observe_owns:
  assumes laws: "net_laws (network c) os"
  shows "observe c side gs e = (e', err) \<Longrightarrow> owns os e e'"
proof (induction gs arbitrary: e)
  case (Cons g gs)
  obtain e1 err1 where s: "observe_steps c side (mg_Bootstrap g) False (mg_Steps g) e = (e1, err1)" by fastforce
  show ?case
    using Cons.prems s observe_steps_owns[OF laws s] Cons.IH[of e1]
    by (auto split: option.splits if_splits intro: owns_trans)
qed simp

lemma try_round_owns:
  "net_laws (network c) os \<Longrightarrow> try_round c as bs e = (e', obs, err) \<Longrightarrow> owns os e e'"
  using window_owns[of c os _ "e\<lparr>tried := snd (try_probes c (tried e) as bs)\<rparr>" e' obs err]
  by (auto simp: try_round_def owns_def split: prod.splits)

lemma search_loop_owns:
  assumes laws: "net_laws (network c) os"
  shows "search_loop c k e = (e', path, reason, err) \<Longrightarrow> owns os e e'"
proof (induction k arbitrary: e)
  case (Suc k)
  from Suc.prems show ?case
  proof (cases rule: search_loop_cases)
    case (round rej e1 obs terr)
    have "owns os e (e\<lparr>stats := (stats e)\<lparr>st_Iterations := st_Iterations (stats e) + 1, st_RejectedBatches := rej\<rparr>\<rparr>)"
      by (rule owns_same) simp_all
    from owns_trans[OF owns_trans[OF this try_round_owns[OF laws round(1)]] ingest_owns]
    have r: "owns os e (ingest obs e1)" .
    have rec: "owns os e e'" if "owns os e x" "search_loop c k x = (e', path, reason, err)" for x
      using owns_trans[OF that(1) Suc.IH[OF that(2)]] .
    have plan: "owns os e e2" if "owns os e x" "observe c side g x = (e2, err2)" for side g x e2 err2
      using owns_trans[OF that(1) observe_owns[OF laws that(2)]] .
    from round(3) show ?thesis
      by (elim disjE conjE exE) (use r plan rec in \<open>auto, (metis+)?\<close>)
  qed simp
qed simp

lemma release_env:
  assumes "net_laws (network c) os"
  shows "os (env (fst (fold (close_socket c) xs (e, errs)))) = os (env e) - set xs"
proof (induction xs arbitrary: e errs)
  case (Cons s xs)
  obtain n err where n: "net_Close (network c) (fst s) (snd s) (env e) = (n, err)" by fastforce
  have "os (fst (net_Close (network c) (fst s) (snd s) (env e))) = os (env e) - {(fst s, snd s)}"
    using assms unfolding net_laws_def by blast
  with n Cons.IH show ?case by (auto simp: close_socket_def)
qed simp

section \<open>Paths\<close>

lemma collect_valid:
  assumes "\<forall>(i, seen) \<in> set reports. \<forall>p. sent_probe sent i = Some p \<longrightarrow> ObservationValid (probe_observation p seen)"
  shows "\<forall>ob \<in> set (collect sent reports side). ObservationValid ob"
  using assms by (auto simp: collect_def split: option.splits if_splits)

lemma matchedPath_Some:
  assumes "matchedPath obs ps = Some path"
  shows "\<exists>a \<in> set (obs SideA). \<exists>b \<in> set (obs SideB). o_Local a = peer_Local (ps SideA) \<and> o_Local b = peer_Local (ps SideB)
    \<and> o_Remote a = o_Seen b \<and> o_Remote b = o_Seen a
    \<and> path = \<lparr>path_LocalA = o_Local a, path_LocalB = o_Local b, path_EndpointA = o_Seen a, path_EndpointB = o_Seen b\<rparr>"
proof -
  define xs where "xs = [(a, b). a \<leftarrow> obs SideA, o_Local a = peer_Local (ps SideA),
    b \<leftarrow> obs SideB, o_Local b = peer_Local (ps SideB) \<and> o_Remote a = o_Seen b \<and> o_Remote b = o_Seen a]"
  from assms obtain a b rest where ab: "xs = (a, b) # rest"
    "path = \<lparr>path_LocalA = o_Local a, path_LocalB = o_Local b, path_EndpointA = o_Seen a, path_EndpointB = o_Seen b\<rparr>"
    unfolding matchedPath_def xs_def[symmetric] by (auto split: list.splits)
  then have "(a, b) \<in> set xs" by simp
  then have "a \<in> set (obs SideA)" "b \<in> set (obs SideB)" "o_Local a = peer_Local (ps SideA)"
    "o_Local b = peer_Local (ps SideB)" "o_Remote a = o_Seen b" "o_Remote b = o_Seen a"
    unfolding xs_def by (auto split: if_splits)
  with ab(2) show ?thesis by blast
qed

text \<open>Every observation of a window answers one of the probes the window was given.\<close>

definition from_templates :: "Probe list \<Rightarrow> Probe list \<Rightarrow> bool" where
  "from_templates ts sent =
    (\<forall>p \<in> set sent. \<exists>t \<in> set ts. pb_Side p = pb_Side t \<and> pb_Local p = pb_Local t \<and> pb_Remote p = pb_Remote t)"

lemma send_probes_sent:
  assumes "send_probes c us e sent = (e', sent', err)" "from_templates ts sent" "set us \<subseteq> set ts"
  shows "from_templates ts sent'"
  using assms
proof (induction c us e sent rule: send_probes.induct)
  case (2 c t us e sent)
  let ?p = "t\<lparr>pb_ID := nextID e + 1\<rparr>"
  let ?e = "e\<lparr>nextID := nextID e + 1, stats := (stats e)\<lparr>st_Packets := st_Packets (stats e) + 1\<rparr>\<rparr>"
  have f: "from_templates ts (sent @ [?p])" using "2.prems"(2,3) by (auto simp: from_templates_def)
  obtain n se where s: "net_Send (network c) ?p (env ?e) = (n, se)" by fastforce
  show ?case
  proof (cases "check c e")
    case none: None
    show ?thesis
    proof (cases se)
      case None
      with none s "2.prems"(1) have "send_probes c us (?e\<lparr>env := n\<rparr>) (sent @ [?p]) = (e', sent', err)" by simp
      from "2.IH"[OF none refl refl s[symmetric] None this f] "2.prems"(3) show ?thesis by simp
    next
      case Some
      with none s "2.prems"(1) f show ?thesis by auto
    qed
  next
    case (Some x)
    with "2.prems" show ?thesis by auto
  qed
qed simp

lemma window_rounds_sent:
  assumes "window_rounds c k ts e sent reports = (e', sent', reports', err)" "from_templates ts sent"
  shows "from_templates ts sent'"
  using assms
proof (induction k arbitrary: e sent reports)
  case (Suc k)
  obtain e1 sent1 err1 where s: "send_probes c ts e sent = (e1, sent1, err1)" by (metis prod_cases3)
  obtain n we where w: "net_Wait (network c) (min (lim_Interval (limits c))
      (max 0 (sub_time (until c) (net_Now (network c) (env e1))))) (env e1) = (n, we)" by fastforce
  obtain n' rr where r: "net_Reports (network c) n = (n', rr)" by fastforce
  have f: "from_templates ts sent1" using send_probes_sent[OF s Suc.prems(2)] by simp
  show ?case
    using Suc.prems(1) s w r f Suc.IH[of "e1\<lparr>env := n'\<rparr>" sent1]
    by (cases err1; cases we; cases rr; cases "until c \<le> net_Now (network c) n") auto
qed simp

lemma window_answers:
  assumes "window c ts e = (e', obs, err)" "ob \<in> set (obs side)"
  shows "\<exists>t \<in> set ts. pb_Side t = side \<and> o_Local ob = pb_Local t \<and> o_Remote ob = pb_Remote t"
proof (cases "ts = []")
  case True
  with assms show ?thesis by (auto simp: window_def)
next
  case False
  obtain e1 sent reports x where w: "window_rounds c (nat (lim_Repeats (limits c))) ts e [] [] = (e1, sent, reports, x)"
    by (metis prod_cases4)
  have f: "from_templates ts sent" using window_rounds_sent[OF w] by (simp add: from_templates_def)
  from assms False w have "ob \<in> set (collect sent reports side)" by (auto simp: window_def)
  then obtain i seen p where "sent_probe sent i = Some p" "pb_Side p = side" "ob = probe_observation p seen"
    unfolding collect_def by (auto split: option.splits if_splits) metis
  moreover from this(1) have "p \<in> set sent" by (auto simp: sent_probe_def find_Some_iff) (metis nth_mem set_rev length_rev)
  ultimately show ?thesis using f unfolding from_templates_def by (fastforce simp: probe_observation_def)
qed

definition remotes_in :: "addrport list \<Rightarrow> addrport list \<Rightarrow> Probe list \<Rightarrow> bool" where
  "remotes_in as bs ps = (\<forall>t \<in> set ps. pb_Remote t \<in> set (case pb_Side t of SideA \<Rightarrow> bs | SideB \<Rightarrow> as))"

lemma add_probe_remotes:
  "remotes_in as bs ps \<Longrightarrow> r \<in> set (case side of SideA \<Rightarrow> bs | SideB \<Rightarrow> as) \<Longrightarrow> remotes_in as bs (add_probe c side r ps)"
  by (simp add: add_probe_def remotes_in_def)

lemma try_probes_remotes: "remotes_in as bs (fst (try_probes c done as bs))"
proof -
  have step: "remotes_in as bs (fst (fold (try_pair c) prs acc))" if "set prs \<subseteq> set as \<times> set bs" "remotes_in as bs (fst acc)" for prs acc
    using that
  proof (induction prs arbitrary: acc)
    case (Cons pr prs)
    obtain a b ps dn k where pr: "pr = (a, b)" "acc = (ps, dn, k)" by (metis surj_pair)
    with Cons.prems have "remotes_in as bs (add_probe c SideB a (add_probe c SideA b ps))"
      by (intro add_probe_remotes) simp_all
    with Cons.prems(2) pr have "remotes_in as bs (fst (try_pair c pr acc))" by (simp add: try_pair_def)
    with Cons show ?case by simp
  qed simp
  have sub: "set (concat (map (\<lambda>a. map (\<lambda>b. (a, b)) bs) as)) \<subseteq> set as \<times> set bs" by auto
  have "remotes_in as bs (fst (fold (try_pair c) (concat (map (\<lambda>a. map (\<lambda>b. (a, b)) bs) as)) ([], done, 0)))"
    by (rule step[OF sub]) (simp add: remotes_in_def)
  then show ?thesis by (simp add: try_probes_def split_def)
qed

lemma range_endpoints_usable:
  assumes "ep \<in> set (range_endpoints r)" "range_ok input r"
  shows "usableEndpoint ep \<and> is4 ep = is4 (in_Local input)"
proof -
  from assms(1) obtain port where p: "ep = AddrPort (r_Addr r) (word_of_int port)" "uint (r_First r) \<le> port" "port \<le> uint (r_Last r)"
    by (auto simp: range_endpoints_def split: if_splits)
  have "r_First r \<noteq> 0" using assms(2) by (auto simp: range_ok_def Count_def split: if_splits)
  then have f: "0 < uint (r_First r)" by (simp add: word_neq_0_conv[symmetric] uint_0_iff order.strict_iff_order)
  have "uint (r_Last r) < 2 ^ 16" using uint_lt2p[of "r_Last r"] by simp
  with p f have "uint (word_of_int port :: u16) = port" by (simp add: uint_word_of_int take_bit_int_eq_self)
  with p f have "(word_of_int port :: u16) \<noteq> 0" by fastforce
  with p assms(2) show ?thesis by (simp add: range_ok_def ip_ok_def usableEndpoint_def AP_IsValid_def)
qed

lemma chosen_usable:
  assumes "ep \<in> set (fst (selectCandidates limit (Infer samples input)))"
  shows "usableEndpoint ep \<and> is4 ep = is4 (in_Local input)"
proof -
  from assms selectCandidates_facts[of limit "Infer samples input"] obtain b r
    where "b \<in> set (pr_Candidates (Infer samples input))" "r \<in> set (cb_Ranges b)" "ep \<in> set (range_endpoints r)" by blast
  with Infer_ok[of input samples] show ?thesis
    by (auto simp: list_all_iff batch_ok_def intro!: range_endpoints_usable)
qed

definition path_ok :: "'n setting \<Rightarrow> Path \<Rightarrow> bool" where
  "path_ok c p = (path_LocalA p = peer_Local (peers c SideA) \<and> path_LocalB p = peer_Local (peers c SideB)
     \<and> usableEndpoint (path_EndpointA p) \<and> is4 (path_EndpointA p) = is4 (path_LocalA p)
     \<and> usableEndpoint (path_EndpointB p) \<and> is4 (path_EndpointB p) = is4 (path_LocalB p))"

lemma round_path_ok:
  assumes "try_round c (fst (selectCandidates l (Infer sa (survey_input (peers c SideA)))))
      (fst (selectCandidates l' (Infer sb (survey_input (peers c SideB))))) e = (e', obs, err)"
    and "matchedPath obs (peers c) = Some p"
  shows "path_ok c p"
proof -
  let ?as = "fst (selectCandidates l (Infer sa (survey_input (peers c SideA))))"
  let ?bs = "fst (selectCandidates l' (Infer sb (survey_input (peers c SideB))))"
  obtain ps dn where t: "try_probes c (tried e) ?as ?bs = (ps, dn)" by fastforce
  with assms(1) have w: "window c ps (e\<lparr>tried := dn\<rparr>) = (e', obs, err)" by (simp add: try_round_def)
  from t try_probes_remotes[of ?as ?bs c "tried e"] have rem: "remotes_in ?as ?bs ps" by simp
  from matchedPath_Some[OF assms(2)] obtain a b where ab: "a \<in> set (obs SideA)" "b \<in> set (obs SideB)"
    "o_Local a = peer_Local (peers c SideA)" "o_Local b = peer_Local (peers c SideB)" "o_Remote a = o_Seen b" "o_Remote b = o_Seen a"
    "p = \<lparr>path_LocalA = o_Local a, path_LocalB = o_Local b, path_EndpointA = o_Seen a, path_EndpointB = o_Seen b\<rparr>" by blast
  from window_answers[OF w ab(1)] rem have "o_Remote a \<in> set ?bs" by (auto simp: remotes_in_def split: Side.splits)
  moreover from window_answers[OF w ab(2)] rem have "o_Remote b \<in> set ?as" by (auto simp: remotes_in_def split: Side.splits)
  ultimately show ?thesis
    using ab chosen_usable[of "o_Remote a" l' sb] chosen_usable[of "o_Remote b" l sa]
    by (simp add: path_ok_def survey_input_def)
qed

lemma search_loop_path: "search_loop c k e = (e', Some p, reason, err) \<Longrightarrow> path_ok c p"
proof (induction k arbitrary: e)
  case (Suc k)
  from Suc.prems show ?case
  proof (cases rule: search_loop_cases)
    case (round rej e1 obs terr)
    from round(3) Suc.IH round_path_ok[OF round(1)] show ?thesis by (elim disjE conjE exE) simp_all
  qed simp
qed simp

section \<open>One peer's rounds\<close>

lemma add_all_facts:
  assumes "add_all obs (s, k) = (s', k')" "store_ok s"
  shows "store_ok s' \<and> length s \<le> length s' \<and> k' = k + int (length s') - int (length s)"
  using assms
proof (induction obs arbitrary: s k)
  case (Cons ob obs)
  obtain s1 added where a: "Add s ob = (s1, added)" by fastforce
  have one: "store_ok s1" "length s1 = length s + (if added then 1 else 0)"
    using a Cons.prems(2) by (auto simp: Add_def store_ok_def list_all_iff split: if_splits)
  have "add_all obs (s1, if added then k + 1 else k) = (s', k')" using Cons.prems(1) a by (simp add: add_all_def)
  from Cons.IH[OF this one(1)] one(2) show ?case by auto
qed (simp add: add_all_def)

lemma path_key_eq:
  "path_key text (a, b) = (if text b < text a then text b @ ''/'' @ text a else text a @ ''/'' @ text b)"
  by (simp add: path_key_def Let_def)

lemma path_key_swap: "path_key text (b, a) = path_key text (a, b)"
proof (cases "text a = text b")
  case False
  then have "text b < text a \<longleftrightarrow> \<not> text a < text b" by auto
  then show ?thesis unfolding path_key_eq by simp
qed (simp add: path_key_eq)

lemma slash_cut:
  assumes "xs @ ''/'' @ ys = xs' @ ''/'' @ ys'" "CHR ''/'' \<notin> set xs" "CHR ''/'' \<notin> set xs'"
  shows "xs = xs' \<and> ys = ys'"
proof -
  have cut: "takeWhile (\<lambda>x. x \<noteq> CHR ''/'') (xs @ ''/'' @ ys) = xs" if "CHR ''/'' \<notin> set xs" for xs ys :: string
    using that by (induction xs) auto
  have "xs = xs'" using arg_cong[OF assms(1), of "takeWhile (\<lambda>x. x \<noteq> CHR ''/'')"] unfolding cut[OF assms(2)] cut[OF assms(3)] .
  with assms(1) show ?thesis by simp
qed

lemma path_key_inj:
  assumes "path_key text (a, b) = path_key text (a', b')" "inj_on text {a, b, a', b'}"
    "\<forall>x \<in> {a, b, a', b'}. CHR ''/'' \<notin> set (text x)"
  shows "(a', b') = (a, b) \<or> (a', b') = (b, a)"
proof -
  have n: "CHR ''/'' \<notin> set (text a)" "CHR ''/'' \<notin> set (text b)" "CHR ''/'' \<notin> set (text a')" "CHR ''/'' \<notin> set (text b')"
    using assms(3) by simp_all
  have "text a = text a' \<and> text b = text b' \<or> text a = text b' \<and> text b = text a'"
    using assms(1) unfolding path_key_eq by (simp only: split: if_splits) (blast dest: slash_cut[OF _ n(1) n(3)]
      slash_cut[OF _ n(1) n(4)] slash_cut[OF _ n(2) n(3)] slash_cut[OF _ n(2) n(4)])+
  with assms(2) show ?thesis by (auto dest: inj_onD)
qed

lemma hd_sort_key:
  assumes "xs \<noteq> []"
  shows "hd (sort_key f xs) \<in> set xs" "x \<in> set xs \<Longrightarrow> f (hd (sort_key f xs)) \<le> f x"
proof -
  obtain y ys where y: "sort_key f xs = y # ys" using assms by (metis list.exhaust sort_key_simps(1) length_0_conv length_sort)
  have s: "set xs = insert y (set ys)" by (metis y list.simps(15) set_sort)
  then show "hd (sort_key f xs) \<in> set xs" by (simp add: y)
  have "sorted (map f (y # ys))" by (metis y sorted_sort_key)
  with s show "x \<in> set xs \<Longrightarrow> f (hd (sort_key f xs)) \<le> f x" by (auto simp: y)
qed

definition chosen_path :: "(addrport \<Rightarrow> string) \<Rightarrow> (addrport \<times> addrport) list \<Rightarrow> addrport list" where
  "chosen_path text ps = (case sort_key (path_key text) ps of [] \<Rightarrow> [] | (a, b) # _ \<Rightarrow> [a, b])"

lemma chosen_path_hd:
  assumes "ps \<noteq> []" "hd (sort_key (path_key text) ps) = (a, b)"
  shows "chosen_path text ps = [a, b]"
proof -
  have "length (sort_key (path_key text) ps) = length ps" by simp
  with assms show ?thesis unfolding chosen_path_def by (cases "sort_key (path_key text) ps") auto
qed

lemma chosen_path_mirror:
  assumes mirror: "set qs = prod.swap ` set ps"
    and one_way: "\<forall>p \<in> set ps. prod.swap p \<notin> set ps"
    and inj: "inj_on text (fst ` set ps \<union> snd ` set ps)"
    and slash: "\<forall>x \<in> fst ` set ps \<union> snd ` set ps. CHR ''/'' \<notin> set (text x)"
  shows "chosen_path text qs = rev (chosen_path text ps)"
proof (cases "ps = []")
  case True
  with mirror have "qs = []" by simp
  with True show ?thesis by (simp add: chosen_path_def)
next
  case False
  with mirror have q: "qs \<noteq> []" by auto
  obtain a b where p: "hd (sort_key (path_key text) ps) = (a, b)" by fastforce
  obtain c d where c: "hd (sort_key (path_key text) qs) = (c, d)" by fastforce
  have ab: "(a, b) \<in> set ps" using hd_sort_key(1)[OF False, of "path_key text"] p by simp
  have dc: "(d, c) \<in> set ps" using hd_sort_key(1)[OF q, of "path_key text"] c mirror by auto
  have "path_key text (a, b) \<le> path_key text (d, c)" using hd_sort_key(2)[OF False dc, of "path_key text"] p by simp
  moreover have "path_key text (c, d) \<le> path_key text (b, a)"
  proof -
    have "(b, a) \<in> set qs" unfolding mirror using ab by (rule rev_image_eqI) simp
    from hd_sort_key(2)[OF q this, of "path_key text"] c show ?thesis by simp
  qed
  ultimately have key: "path_key text (a, b) = path_key text (d, c)" by (simp add: path_key_swap order.antisym)
  have sub: "{a, b, d, c} \<subseteq> fst ` set ps \<union> snd ` set ps"
    using imageI[OF ab, of fst] imageI[OF ab, of snd] imageI[OF dc, of fst] imageI[OF dc, of snd] by simp
  have "(d, c) = (a, b) \<or> (d, c) = (b, a)"
    by (rule path_key_inj[OF key inj_on_subset[OF inj sub]]) (rule ballI, rule bspec[OF slash], erule subsetD[OF sub])
  moreover have "(b, a) \<notin> set ps" using bspec[OF one_way ab] by simp
  ultimately have "(d, c) = (a, b)" using dc by auto
  then show ?thesis using chosen_path_hd[OF False p] chosen_path_hd[OF q c] by simp
qed

lemma peer_loop_facts:
  assumes "peer_loop text net p limit k round changed n s out = (n', s', out', err)" "store_ok s" "out_Rounds out < round"
  shows "store_ok s' \<and> out_Observations out' = out_Observations out + int (length s') - int (length s)
    \<and> out_Rounds out' < round + int k"
  using assms
proof (induction k arbitrary: round changed n s out)
  case (Suc k)
  define pred where "pred = Infer (Snapshot s) (survey_input p)"
  obtain n1 ex where ex: "pn_Exchange net (word_of_int round) \<lparr>ba_Endpoints = CandidatesFor pred limit, ba_Changed = changed\<rparr> n = (n1, ex)" by fastforce
  show ?case
  proof (cases "\<exists>b. ex = Inr b \<and> int (length (ba_Endpoints b)) \<le> limit \<and> (changed \<or> ba_Changed b)")
    case False
    with Suc.prems ex show ?thesis by (cases ex) (auto simp: Let_def pred_def split: if_splits)
  next
    case True
    then obtain b where b: "ex = Inr b" "int (length (ba_Endpoints b)) \<le> limit" "changed \<or> ba_Changed b" by blast
    obtain n2 tr where tr: "pn_Try net (word_of_int round) (ba_Endpoints b) n1 = (n2, tr)" by fastforce
    show ?thesis
    proof (cases tr)
      case Inl
      with Suc.prems ex b tr show ?thesis by (auto simp: Let_def pred_def)
    next
      case (Inr oa)
      obtain obs arr where oa: "oa = (obs, arr)" by fastforce
      obtain s1 o1 where a1: "add_all obs (s, out_Observations out) = (s1, o1)" by fastforce
      note f1 = add_all_facts[OF a1 Suc.prems(2)]
      let ?path = "reciprocal text obs arr (peer_Local p)"
      let ?out = "out\<lparr>out_Rounds := round, out_Observations := o1\<rparr>"
      obtain n3 ag where ag: "pn_Agree net (word_of_int round) ?path n2 = (n3, ag)" by fastforce
      obtain n4 ob where ob: "pn_Observe net (survey_input p) (Snapshot s1) n3 = (n4, ob)" by fastforce
      have rec: "store_ok s' \<and> out_Observations out' = out_Observations out + int (length s') - int (length s)
          \<and> out_Rounds out' < round + int (Suc k)"
        if "peer_loop text net p limit k (round + 1) ch x s2 (?out\<lparr>out_Observations := o2\<rparr>) = (n', s', out', err)"
          "store_ok s2" "o2 = out_Observations out + int (length s2) - int (length s)" for ch x s2 o2
        using Suc.IH[OF that(1,2)] that(3) by simp
      show ?thesis
      proof (cases "\<exists>other. ag = Inr other \<and> \<not> agreed_paths ?path other")
        case False
        with Suc.prems ex b tr Inr oa a1 ag f1 show ?thesis by (cases ag) (auto simp: Let_def pred_def)
      next
        case nag: True
        show ?thesis
        proof (cases "length s1 = length s")
          case False
          with Suc.prems(1) ex b tr Inr oa a1 ag nag
          have "peer_loop text net p limit k (round + 1) (length s < length s1) n3 s1 (?out\<lparr>out_Observations := o1\<rparr>) = (n', s', out', err)"
            by (auto simp: Let_def pred_def)
          from rec[OF this] f1 show ?thesis by simp
        next
          case True
          show ?thesis
          proof (cases ob)
            case Inl
            with Suc.prems ex b tr \<open>tr = Inr oa\<close> oa a1 ag nag True ob f1 show ?thesis by (auto simp: Let_def pred_def)
          next
            case io: (Inr extra)
            obtain s2 o2 where a2: "add_all extra (s1, o1) = (s2, o2)" by fastforce
            note f2 = add_all_facts[OF a2]
            from Suc.prems(1) ex b tr Inr oa a1 ag nag True ob io a2
            have "peer_loop text net p limit k (round + 1) (length s < length s2) n4 s2 (?out\<lparr>out_Observations := o2\<rparr>) = (n', s', out', err)"
              by (auto simp: Let_def pred_def)
            from rec[OF this] f1 f2 show ?thesis by simp
          qed
        qed
      qed
    qed
  qed
qed auto

section \<open>Properties of the search\<close>

text \<open>The two ways a search ends, once its configuration has been accepted.\<close>

lemma search_cases:
  assumes "search_until c s n = (e', res, err)"
  obtains (resource) e e1 x where "open_socket c SideA (peer_Local (peers c SideA)) (new_engine n s) = (e, x)"
        "e1 = e \<or> (\<exists>y. open_socket c SideB (peer_Local (peers c SideB)) e = (e1, y))"
        "e' = fst (release c None e1 err0)" "sr_Path res = None" "sr_Stats res = stats e1"
    | (looped) ea eb e1 reason x where "open_socket c SideA (peer_Local (peers c SideA)) (new_engine n s) = (ea, None)"
        "open_socket c SideB (peer_Local (peers c SideB)) ea = (eb, None)"
        "search_loop c (nat (lim_MaxIterations (limits c))) eb = (e1, sr_Path res, reason, x)"
        "e' = fst (release c (sr_Path res) e1 err0)" "sr_Stats res = stats e1"
proof -
  have errs: "fst (release c path e errs) = fst (release c path e err0)" for path e errs
  proof -
    have "fst (fold (close_socket c) xs (e, errs)) = fst (fold (close_socket c) xs (e, errs'))" for xs e errs errs'
    proof (induction xs arbitrary: e errs errs')
      case (Cons s xs)
      obtain n err where n: "net_Close (network c) (fst s) (snd s) (env e) = (n, err)" by fastforce
      show ?case by (simp add: close_socket_def[of c s] n) (rule Cons.IH)
    qed simp
    then show ?thesis unfolding release_def .
  qed
  have fin: "e' = fst (release c path e err0) \<and> sr_Path res = path \<and> sr_Stats res = stats e"
    if "finish c e path reason x = (e', res, err)" for e path reason x
    using that errs[of path e] by (auto simp: finish_def split: prod.splits) (metis fst_conv)+
  obtain ea xa where a: "open_socket c SideA (peer_Local (peers c SideA)) (new_engine n s) = (ea, xa)" by fastforce
  obtain eb xb where b: "open_socket c SideB (peer_Local (peers c SideB)) ea = (eb, xb)" by fastforce
  obtain e1 path reason x where l: "search_loop c (nat (lim_MaxIterations (limits c))) eb = (e1, path, reason, x)" by (metis prod_cases4)
  show thesis
  proof (cases "xa = None \<and> xb = None")
    case True
    with assms a b l have "finish c e1 path (final_reason reason x) (if x = Some errBudget then None else x) = (e', res, err)"
      by (auto simp: search_until_def)
    from fin[OF this] True a b l show thesis by (intro looped) simp_all
  next
    case False
    with assms a b have "\<exists>y r. finish c (if xa = None then eb else ea) None r y = (e', res, err)"
      by (cases xa; cases xb) (auto simp: search_until_def)
    with fin False a b show thesis by (intro resource[OF a, of "if xa = None then eb else ea"]) auto
  qed
qed

lemma search_until_bud:
  assumes s: "search_until c s n = (e', res, err)" and v: "valid_setting c"
  shows "st_Packets (sr_Stats res) \<le> lim_Packets (limits c) \<and> st_Measurements (sr_Stats res) \<le> lim_Measurements (limits c)
    \<and> st_Iterations (sr_Stats res) \<le> lim_MaxIterations (limits c)"
proof -
  have same: "stats e2 = stats (new_engine n s)"
    if "open_socket c SideA (peer_Local (peers c SideA)) (new_engine n s) = (e1, x)"
      "e2 = e1 \<or> (\<exists>y. open_socket c SideB (peer_Local (peers c SideB)) e1 = (e2, y))" for e1 x e2
    using that open_socket_bud by metis
  have pos: "0 < lim_Packets (limits c)" "0 < lim_Measurements (limits c)" "0 < lim_MaxIterations (limits c)"
    using v by (simp_all add: valid_setting_def Let_def)
  from s show ?thesis
  proof (cases rule: search_cases[where ?err0.0 = "[]"])
    case (resource e e1 x)
    with same[OF resource(1,2)] pos show ?thesis by (simp add: zero_stats_def new_engine_def)
  next
    case (looped ea eb e1 reason x)
    have "stats eb = zero_stats" using same[OF looped(1), of eb] looped(2) by (simp add: new_engine_def)
    with pos have "bud c eb" "st_Iterations (stats eb) = 0" by (simp_all add: bud_def zero_stats_def)
    with search_loop_bud[OF looped(3)] looped(5) pos show ?thesis by (auto simp: bud_def)
  qed
qed

lemma release_sockets:
  assumes "net_laws (network c) os" "os (env e) = set (opened_sockets e)"
  shows "os (env (fst (release c path e errs))) = {s \<in> set (opened_sockets e). retained c path s}"
  unfolding release_def release_env[OF assms(1)] using assms(2) by auto

lemma search_eq:
  assumes "valid_setting c"
  shows "search c s n = search_until (c\<lparr>until := net_Now (network c) n + lim_Timeout (limits c)\<rparr>) s n"
  using assms by (simp add: search_def)

lemma search_until_sockets:
  assumes laws: "net_laws (network c) os" and "os n = {}" and s: "search_until c s n = (e', res, err)"
  shows "os (env e') = (if sr_Path res = None then {}
    else {(SideA, peer_Local (peers c SideA)), (SideB, peer_Local (peers c SideB))})"
proof -
  have start: "os (env (new_engine n s)) = set (opened_sockets (new_engine n s))" by (simp add: new_engine_def assms(2))
  from s show ?thesis
  proof (cases rule: search_cases[where ?err0.0 = "[]"])
    case (resource e e1 x)
    have "owns os (new_engine n s) e1"
      using resource(2) open_socket_owns(1)[OF laws resource(1)] open_socket_owns(1)[OF laws] by (blast intro: owns_trans)
    with start have "os (env e1) = set (opened_sockets e1)" by (simp add: owns_def)
    from release_sockets[OF laws this, of None] resource show ?thesis by (simp add: retained_def)
  next
    case (looped ea eb e1 reason x)
    note o1 = open_socket_owns[OF laws looped(1)] and o2 = open_socket_owns[OF laws looped(2)]
    note o3 = search_loop_owns[OF laws looped(3)]
    have "owns os (new_engine n s) e1" using o1(1) o2(1) o3 by (blast intro: owns_trans)
    with start have ow: "os (env e1) = set (opened_sockets e1)" by (simp add: owns_def)
    have "(SideA, peer_Local (peers c SideA)) \<in> set (opened_sockets e1)" "(SideB, peer_Local (peers c SideB)) \<in> set (opened_sockets e1)"
      using o1(2) o2 o3 by (auto simp: owns_def)
    then have "{s \<in> set (opened_sockets e1). retained c (sr_Path res) s}
        = (if sr_Path res = None then {} else {(SideA, peer_Local (peers c SideA)), (SideB, peer_Local (peers c SideB))})"
      by (auto simp: retained_def) (metis Side.exhaust)+
    with release_sockets[OF laws ow, of "sr_Path res"] looped(4) show ?thesis by simp
  qed
qed


text \<open>
  C23: over a network that opens and closes the sockets it is asked to, a search leaves no socket
  behind: when it ends without a path everything it opened is closed, and with a path exactly the
  two primary sockets remain.
\<close>
theorem search_sockets_released:
  assumes "net_laws (network c) os" "os n = {}" "search c s n = (e', res, err)"
  shows "os (env e') = (if sr_Path res = None then {}
    else {(SideA, peer_Local (peers c SideA)), (SideB, peer_Local (peers c SideB))})"
proof (cases "valid_setting c")
  case True
  with assms(3) have "search_until (c\<lparr>until := net_Now (network c) n + lim_Timeout (limits c)\<rparr>) s n = (e', res, err)"
    by (simp add: search_eq)
  from search_until_sockets[of _ os, OF _ assms(2) this] assms(1) show ?thesis by simp
next
  case False
  with assms(3) have "e' = new_engine n s" "sr_Path res = None" by (auto simp: search_def)
  with assms(2) show ?thesis by (simp add: new_engine_def)
qed

text \<open>
  C35: a path that a search reports joins the two primary sockets, and both its endpoints are
  usable transport addresses of the family of their socket.
\<close>
theorem search_path_usable:
  "case sr_Path (fst (snd (search c s n))) of
     None \<Rightarrow> True
   | Some p \<Rightarrow> path_LocalA p = peer_Local (peers c SideA) \<and> path_LocalB p = peer_Local (peers c SideB)
       \<and> usableEndpoint (path_EndpointA p) \<and> is4 (path_EndpointA p) = is4 (path_LocalA p)
       \<and> usableEndpoint (path_EndpointB p) \<and> is4 (path_EndpointB p) = is4 (path_LocalB p)"
proof (cases "valid_setting c")
  case True
  let ?c = "c\<lparr>until := net_Now (network c) n + lim_Timeout (limits c)\<rparr>"
  obtain e' res err where s: "search_until ?c s n = (e', res, err)" by (metis prod_cases3)
  from s have "path_ok ?c p" if "sr_Path res = Some p" for p
    using that by (cases rule: search_cases[where ?err0.0 = "[]"]) (auto intro: search_loop_path)
  with s True show ?thesis by (auto simp: search_eq path_ok_def split: option.splits)
qed (simp add: search_def)

definition echo_network :: "((Side \<times> addrport) list \<times> Probe list) Network" where
  "echo_network = \<lparr>net_Open = (\<lambda>side l (os, ps). (((side, l) # os, ps), None)),
     net_Close = (\<lambda>side l (os, ps). ((filter (\<lambda>s. s \<noteq> (side, l)) os, ps), None)),
     net_Send = (\<lambda>p (os, ps). ((os, ps @ [p]), None)),
     net_Reports = (\<lambda>(os, ps). ((os, []), Inr (map (\<lambda>p. \<lparr>rp_ID = pb_ID p, rp_Seen = pb_Local p\<rparr>) ps))),
     net_Wait = (\<lambda>_ n. (n, None)), net_Now = (\<lambda>_. 0), ctx_Err = (\<lambda>_. None)\<rparr>"

definition sample_peer :: "u32 \<Rightarrow> u32 \<Rightarrow> Peer" where
  "sample_peer l r = \<lparr>peer_Local = sample_ap l 4000, peer_Target = sample_ap r 4000, peer_PublicIPs = [], peer_Observers = []\<rparr>"

definition sample_setting :: "((Side \<times> addrport) list \<times> Probe list) setting" where
  "sample_setting = \<lparr>network = echo_network,
     peers = (\<lambda>side. case side of SideA \<Rightarrow> sample_peer 0xC6336401 0xC6336402 | SideB \<Rightarrow> sample_peer 0xC6336402 0xC6336401),
     limits = DefaultLimits, until = 1\<rparr>"

definition sample_stores :: "Side \<Rightarrow> Store" where
  "sample_stores side = (let p = peers sample_setting side in
     [\<lparr>o_Local = peer_Local p, o_Remote = peer_Target p, o_Seen = peer_Local p\<rparr>])"

lemma echo_laws: "net_laws echo_network (\<lambda>n. set (fst n))"
  by (auto simp: net_laws_def echo_network_def)

lemma sample_search_path: "sr_Path (fst (snd (search sample_setting sample_stores ([], [])))) \<noteq> None"
  by code_simp

theorem search_sockets_released_witness:
  "set (fst (env (fst (search sample_setting sample_stores ([], [])))))
    = {(SideA, sample_ap 0xC6336401 4000), (SideB, sample_ap 0xC6336402 4000)}"
proof -
  obtain e' res err where s: "search sample_setting sample_stores ([], []) = (e', res, err)" by (metis prod_cases3)
  have "net_laws (network sample_setting) (\<lambda>n. set (fst n))" by (simp add: sample_setting_def echo_laws)
  note r = search_sockets_released[OF this _ s, simplified]
  have "sr_Path res \<noteq> None" using sample_search_path s by simp
  with r s show ?thesis by (simp add: sample_setting_def sample_peer_def)
qed

section \<open>Properties of one peer\<close>

text \<open>
  One peer's run ends within its rounds, its store of observations stays free of duplicates
  and invalid entries, and the count it reports is exactly the number of observations it added.
\<close>
lemma peer_run_accounts:
  assumes "RunPeer text net p lims s n = (n', s', out, err)" "store_ok s"
  shows "store_ok s' \<and> out_Observations out = int (length s') - int (length s)
    \<and> out_Rounds out \<le> max 0 (lim_MaxIterations lims) \<and> out_Rounds out \<le> 16"
proof (cases "n' = n \<and> s' = s \<and> out_Rounds out = 0 \<and> out_Observations out = 0")
  case False
  define z where "z = \<lparr>out_Local = NoAddrPort, out_Endpoint = NoAddrPort, out_Seen = NoAddrPort,
    out_Rounds = 0, out_Observations = 0, out_Reason = []\<rparr>"
  from assms(1) False have "peer_loop text net p (lim_Candidates lims) (nat (lim_MaxIterations lims)) 1 True n s z = (n', s', out, err)"
    and "1 \<le> lim_MaxIterations lims" "lim_MaxIterations lims \<le> 16"
    by (auto simp: RunPeer_def Let_def z_def split: if_splits)
  with peer_loop_facts[OF this(1) assms(2)] show ?thesis by (simp add: z_def)
qed (use assms(2) in simp)


definition nearby :: addrport where "nearby = sample_ap 0xC6336401 4000"
definition faraway :: addrport where "faraway = sample_ap 0xC6336402 4000"
definition sample_text :: "addrport \<Rightarrow> string" where
  "sample_text ep = (if ep = nearby then ''a'' else ''b'')"


definition sample_peer_network :: "nat PeerNetwork" where
  "sample_peer_network = \<lparr>pn_Exchange = (\<lambda>_ b n. (n, Inr \<lparr>ba_Endpoints = [faraway], ba_Changed = True\<rparr>)),
     pn_Try = (\<lambda>_ _ n. (n, Inr ([\<lparr>o_Local = nearby, o_Remote = faraway, o_Seen = nearby\<rparr>], [\<lparr>ar_Destination = nearby, ar_Source = faraway\<rparr>]))),
     pn_Agree = (\<lambda>_ path n. (n, Inr (rev path))), pn_Observe = (\<lambda>_ _ n. (n, Inr []))\<rparr>"


end
