(* ===== verification/Node_Spec.thy ===== *)
theory Node_Spec
  imports Message_Types "HOL-Library.List_Lexorder" "HOL-Library.Char_ord"
begin

text \<open>
  The node specification and its validation, \<^verbatim>\<open>internal/spec/spec.go\<close> and \<^verbatim>\<open>internal/spec/ports.go\<close>.

  A Go map with string keys is an association list with distinct keys, and iterating over its
  sorted keys is \<open>sorted_keys\<close>.  Validation collects a list of problems; a problem keeps the path
  and the text of the message, and leaves out the values printed into it.  The parsers of textual
  addresses, keys and identifiers are fields of \<open>parsers\<close>, which every definition that reads
  text takes: the theorems hold whatever they accept.
\<close>

section \<open>Specification\<close>

record PortRange =
  First :: int
  Last :: int

record PortChoice =
  Port :: int
  Range :: PortRange

abbreviation no_range :: PortRange where
  "no_range \<equiv> \<lparr>First = 0, Last = 0\<rparr>"

abbreviation system_port :: PortChoice where
  "system_port \<equiv> \<lparr>Port = 0, Range = no_range\<rparr>"

type_synonym ListenPorts = "PortChoice option"

record Route =
  rt_Prefix :: string
  rt_Metric :: "u32 option"

type_synonym Routes = "(string \<times> Route list) list"

record Announcement =
  an_Prefix :: string
  an_Metric :: "u32 option"

record FabricSpec =
  PSK :: string
  LinkPrefixV4 :: string
  LinkPrefixV6 :: string
  LoopbackPrefixV6 :: string
  VFPPort :: "int option"
  RoutingTableID :: "int option"
  f_StaticRoutes :: Routes

record BabelSpec =
  Enabled :: "bool option"
  Executable :: string

record DurableSpec =
  SoftLimit :: "int option"
  StableSeconds :: "int option"

record DurableSettings =
  ds_SoftLimit :: int
  ds_Stable :: int

record DynamicLinksSpec =
  dl_ListenPorts :: ListenPorts
  RecoveryTimeoutSeconds :: "int option"
  Durable :: "DurableSpec option"
  Mode :: string
  AllowCandidatePrefixes :: "string list"

record NodeUID =
  nu_Name :: string
  nu_UUID :: string

record Node =
  nd_UID :: NodeUID
  PrivateKey :: string
  LoopbackAddressV6 :: string

record PeerSpec =
  ps_ListenPorts :: ListenPorts
  ps_Name :: string
  PublicKey :: string
  Endpoints :: "string list"
  LinkAddresses :: "string list"
  PersistentKeepaliveSeconds :: "int option"
  ps_InterfaceName :: string

record DomainSpec =
  SourceTableID :: int
  SourcePrefixes :: "string list"
  d_StaticRoutes :: Routes
  Announcements :: "Announcement list"

record NodeSpec =
  APIVersion :: string
  Kind :: string
  Fabric :: FabricSpec
  sp_Node :: Node
  Peers :: "PeerSpec list"
  Babel :: "BabelSpec option"
  DynamicLinks :: "DynamicLinksSpec option"
  Domains :: "(string \<times> DomainSpec) list"

text \<open>The parsers of the standard library and of the key and identifier packages.\<close>

record parsers =
  ParsePrefix :: "string \<Rightarrow> prefix option"
  ParseAddr :: "string \<Rightarrow> addr option"
  DecodeBase64 :: "string \<Rightarrow> bytes option"
  ParseWGKey :: "string \<Rightarrow> array32 option"
  PublicKeyOf :: "array32 \<Rightarrow> array32"
  ParseUUID :: "string \<Rightarrow> array16 option"
  SplitHostPort :: "string \<Rightarrow> (string \<times> string) option"
  Atoi :: "string \<Rightarrow> int option"
  IsAbs :: "string \<Rightarrow> bool"
  TrimSpace :: "string \<Rightarrow> string"
  NameDigest :: "string \<Rightarrow> string \<Rightarrow> string \<Rightarrow> bytes"

definition sorted_keys :: "(string \<times> 'v) list \<Rightarrow> string list" where
  "sorted_keys m = sort (map fst m)"

section \<open>Ports\<close>

text \<open>
  The JSON values a port choice is read from: \<open>JOther\<close> stands for every value that is neither
  null, an integer literal nor an array.  A null leaves the integer it is decoded into at zero.
\<close>

datatype json = JNull | JInt int | JArray "json list" | JOther

definition unmarshal_int :: "json \<Rightarrow> int option" where
  "unmarshal_int v =
    (case v of
       JNull \<Rightarrow> Some 0
     | JInt i \<Rightarrow> if - (2 ^ 63) \<le> i \<and> i < 2 ^ 63 then Some i else None
     | _ \<Rightarrow> None)"

definition Choice :: "ListenPorts \<Rightarrow> PortChoice" where
  "Choice p = (case p of None \<Rightarrow> system_port | Some c \<Rightarrow> c)"

definition ValidatePorts :: "ListenPorts \<Rightarrow> error option" where
  "ValidatePorts p =
    (let choice = Choice p in
     if Port choice < 0 \<or> 65535 < Port choice
     then Some (ErrNew ''listen_ports must be between 0 and 65535'')
     else if Range choice \<noteq> no_range \<and> (Port choice \<noteq> 0 \<or> First (Range choice) < 1 \<or> 65535 < Last (Range choice)
         \<or> Last (Range choice) < First (Range choice))
     then Some (ErrNew ''listen_ports range requires 1 <= first <= last <= 65535'')
     else None)"

definition UnmarshalPorts :: "json \<Rightarrow> PortChoice result" where
  "UnmarshalPorts v =
    (let choice =
       (case v of
          JArray vs \<Rightarrow>
            (case map unmarshal_int vs of
               [Some a, Some b] \<Rightarrow>
                 if a < 1 \<or> 65535 < b \<or> b < a
                 then Inl (ErrNew ''listen_ports range requires 1 <= first <= last <= 65535'')
                 else Inr \<lparr>Port = 0, Range = \<lparr>First = a, Last = b\<rparr>\<rparr>
             | _ \<Rightarrow> Inl (ErrNew ''listen_ports must be an integer or exactly two integers [first,last]''))
        | _ \<Rightarrow>
            (case unmarshal_int v of
               None \<Rightarrow> Inl (ErrNew ''listen_ports must be an integer or exactly two integers [first,last]'')
             | Some i \<Rightarrow> Inr \<lparr>Port = i, Range = no_range\<rparr>))
     in bind_r choice (\<lambda>c. case ValidatePorts (Some c) of Some e \<Rightarrow> Inl e | None \<Rightarrow> Inr c))"

definition MarshalPorts :: "PortChoice \<Rightarrow> json" where
  "MarshalPorts c =
    (if Range c \<noteq> no_range then JArray [JInt (First (Range c)), JInt (Last (Range c))] else JInt (Port c))"

definition validateVFPPort :: "PortChoice \<Rightarrow> int \<Rightarrow> error option" where
  "validateVFPPort c vfpPort =
    (if Port c = vfpPort \<or> First (Range c) = vfpPort \<and> Last (Range c) = vfpPort
     then Some (ErrNew ''WireGuard port choice must leave a port other than fabric.vfp_port'') else None)"

definition PeerPorts :: "PeerSpec \<Rightarrow> PortChoice" where
  "PeerPorts peer = Choice (ps_ListenPorts peer)"

definition DynamicPorts :: "NodeSpec \<Rightarrow> PortChoice" where
  "DynamicPorts s = (case DynamicLinks s of None \<Rightarrow> system_port | Some d \<Rightarrow> Choice (dl_ListenPorts d))"

definition ValidateDurable :: "DurableSpec \<Rightarrow> error option" where
  "ValidateDurable d =
    (if (case SoftLimit d of None \<Rightarrow> False | Some l \<Rightarrow> l < 0 \<or> 128 < l)
     then Some (ErrNew ''durable.soft_limit must be between 0 and 128'')
     else if (case StableSeconds d of None \<Rightarrow> False | Some s \<Rightarrow> s < 1 \<or> 86400 * 365 < s)
     then Some (ErrNew ''durable.stable_seconds must be between 1 and 31536000'')
     else None)"

definition EffectiveDurable :: "DynamicLinksSpec option \<Rightarrow> DurableSettings" where
  "EffectiveDurable d =
    (case d of
       Some dl \<Rightarrow>
         (case Durable dl of
            Some ds \<Rightarrow>
              \<lparr>ds_SoftLimit = (case SoftLimit ds of None \<Rightarrow> 2 | Some l \<Rightarrow> l),
               ds_Stable = (case StableSeconds ds of None \<Rightarrow> 1800000000000 | Some t \<Rightarrow> t * 1000000000)\<rparr>
          | None \<Rightarrow> \<lparr>ds_SoftLimit = 2, ds_Stable = 1800000000000\<rparr>)
     | None \<Rightarrow> \<lparr>ds_SoftLimit = 2, ds_Stable = 1800000000000\<rparr>)"

section \<open>Prefixes\<close>

fun prefixContained :: "prefix \<Rightarrow> prefix list \<Rightarrow> bool" where
  "prefixContained prefix [] = False"
| "prefixContained prefix (parent # parents) =
    (if Is4 (pf_Addr parent) = Is4 (pf_Addr prefix) \<and> pf_Bits parent \<le> pf_Bits prefix
        \<and> Contains parent (pf_Addr prefix)
     then True else prefixContained prefix parents)"

fun is_access :: "parsers \<Rightarrow> string list \<Rightarrow> prefix \<Rightarrow> bool" where
  "is_access ps [] prefix = False"
| "is_access ps (raw # raws) prefix =
    (case ParsePrefix ps raw of
       Some source \<Rightarrow> if prefixContained prefix [source] then True else is_access ps raws prefix
     | None \<Rightarrow> is_access ps raws prefix)"

definition IsAccessPrefix :: "parsers \<Rightarrow> DomainSpec \<Rightarrow> prefix \<Rightarrow> bool" where
  "IsAccessPrefix ps d prefix = is_access ps (SourcePrefixes d) prefix"

definition InfrastructurePrefixes :: "parsers \<Rightarrow> FabricSpec \<Rightarrow> prefix list" where
  "InfrastructurePrefixes ps f =
    List.map_filter (ParsePrefix ps) [LoopbackPrefixV6 f, LinkPrefixV4 f, LinkPrefixV6 f]"

definition EffectiveVFPPort :: "FabricSpec \<Rightarrow> int" where
  "EffectiveVFPPort f = (case VFPPort f of Some p \<Rightarrow> p | None \<Rightarrow> 58420)"

definition EffectiveRoutingTableID :: "FabricSpec \<Rightarrow> int" where
  "EffectiveRoutingTableID f = (case RoutingTableID f of Some t \<Rightarrow> t | None \<Rightarrow> 20000)"

definition IsEnabled :: "BabelSpec option \<Rightarrow> bool" where
  "IsEnabled b = (case b of None \<Rightarrow> False | Some b \<Rightarrow> Enabled b = Some True)"

definition linkBits :: "addr \<Rightarrow> int" where
  "linkBits a = (if Is4 a then 30 else 126)"

definition validUnicast :: "addr \<Rightarrow> bool" where
  "validUnicast a =
    (IsValid a \<and> \<not> IsUnspecified a \<and> \<not> IsMulticast a \<and> \<not> IsLinkLocalUnicast a \<and> a \<noteq> Addr4 0xFFFFFFFF)"

definition parseCanonicalPrefix :: "parsers \<Rightarrow> string \<Rightarrow> prefix option" where
  "parseCanonicalPrefix ps raw =
    (case ParsePrefix ps raw of
       None \<Rightarrow> None
     | Some p \<Rightarrow> if p \<noteq> Masked p then None else Some p)"

definition prefixesOverlap :: "prefix \<Rightarrow> prefix \<Rightarrow> bool" where
  "prefixesOverlap a b =
    (BitLen (pf_Addr a) = BitLen (pf_Addr b) \<and> (Contains a (pf_Addr b) \<or> Contains b (pf_Addr a)))"

definition parsePool :: "parsers \<Rightarrow> string \<Rightarrow> bool \<Rightarrow> int \<Rightarrow> prefix result" where
  "parsePool ps raw ipv4 targetBits =
    (case ParsePrefix ps raw of
       None \<Rightarrow> Inl (ErrNew ''must be a canonical network prefix'')
     | Some p \<Rightarrow>
       if p \<noteq> Masked p then Inl (ErrNew ''must be a canonical network prefix'')
       else if Is4 (pf_Addr p) \<noteq> ipv4 then Inl (ErrNew ''has the wrong address family'')
       else if targetBits < pf_Bits p then Inl (ErrNew ''must be no longer than'')
       else Inr p)"

definition parseOptionalPool :: "parsers \<Rightarrow> string \<Rightarrow> bool \<Rightarrow> int \<Rightarrow> prefix result" where
  "parseOptionalPool ps raw ipv4 targetBits =
    (if TrimSpace ps raw = [] then Inr NoPrefix else parsePool ps raw ipv4 targetBits)"

definition ParseFabricPrefixes :: "parsers \<Rightarrow> FabricSpec \<Rightarrow> (prefix \<times> prefix \<times> prefix) result" where
  "ParseFabricPrefixes ps f =
    bind_r (parseOptionalPool ps (LinkPrefixV4 f) True 30) (\<lambda>link4.
    bind_r (parseOptionalPool ps (LinkPrefixV6 f) False 126) (\<lambda>link6.
    bind_r (parsePool ps (LoopbackPrefixV6 f) False 128) (\<lambda>loop6. Inr (link4, link6, loop6))))"

definition containsFamily :: "parsers \<Rightarrow> string list \<Rightarrow> bool \<Rightarrow> bool" where
  "containsFamily ps values ipv4 =
    list_ex (\<lambda>raw. case ParsePrefix ps raw of None \<Rightarrow> False | Some p \<Rightarrow> Is4 (pf_Addr p) = ipv4) values"

definition validateTableID :: "int \<Rightarrow> error option" where
  "validateTableID value =
    (if value < 1 then Some (ErrNew ''must be positive'')
     else if 2 ^ 32 - 1 < value then Some (ErrNew ''must fit a 32-bit Linux routing table ID'')
     else if value \<in> {253, 254, 255} then Some (ErrNew ''must not use a reserved Linux routing table'')
     else None)"

section \<open>Names\<close>

definition lower_digit :: "char \<Rightarrow> bool" where
  "lower_digit c = (CHR ''a'' \<le> c \<and> c \<le> CHR ''z'' \<or> CHR ''0'' \<le> c \<and> c \<le> CHR ''9'')"

definition alnum :: "char \<Rightarrow> bool" where
  "alnum c = (lower_digit c \<or> CHR ''A'' \<le> c \<and> c \<le> CHR ''Z'')"

definition name_char :: "char \<Rightarrow> bool" where
  "name_char c = (alnum c \<or> c = CHR ''_'' \<or> c = CHR ''.'' \<or> c = CHR ''-'')"

text \<open>The three regular expressions of the source.\<close>

definition uidNamePattern :: "string \<Rightarrow> bool" where
  "uidNamePattern s = (length s \<le> 5 \<and> list_all lower_digit s)"

definition peerNamePattern :: "string \<Rightarrow> bool" where
  "peerNamePattern s =
    (case s of [] \<Rightarrow> False | c # cs \<Rightarrow> alnum c \<and> length cs \<le> 63 \<and> list_all name_char cs)"

definition interfacePattern :: "string \<Rightarrow> bool" where
  "interfacePattern s = (s \<noteq> [] \<and> list_all name_char s)"

definition validInterfaceName :: "string \<Rightarrow> bool" where
  "validInterfaceName s = (0 < length s \<and> length s \<le> 15 \<and> s \<noteq> ''.'' \<and> s \<noteq> ''..'' \<and> interfacePattern s)"

text \<open>Lower case, on the ASCII text that names and identifiers are made of.\<close>

definition lower_char :: "char \<Rightarrow> char" where
  "lower_char c = (if CHR ''A'' \<le> c \<and> c \<le> CHR ''Z'' then char_of (of_char c + 32 :: nat) else c)"

definition ToLower :: "string \<Rightarrow> string" where
  "ToLower s = map lower_char s"

definition interfaceSlug :: "string \<Rightarrow> string" where
  "interfaceSlug value =
    (let slug = filter lower_digit (ToLower value) in if slug = [] then ''peer'' else slug)"

definition hex_digit :: "nat \<Rightarrow> char" where
  "hex_digit n = ''0123456789abcdef'' ! n"

definition hex_byte :: "byte \<Rightarrow> string" where
  "hex_byte b = [hex_digit (unat b div 16), hex_digit (unat b mod 16)]"

definition InterfaceName :: "parsers \<Rightarrow> NodeUID \<Rightarrow> string \<Rightarrow> string \<Rightarrow> string" where
  "InterfaceName ps local peerName peerPublicKey =
    (let stripped = filter (\<lambda>c. c \<noteq> CHR ''-'') (nu_UUID local);
         left = (if nu_Name local \<noteq> [] then nu_Name local
                 else if length stripped < 5 then ''node0'' else take 5 stripped);
         right = interfaceSlug peerName;
         readable = ''vl-'' @ left @ ''-'' @ right;
         digest = NameDigest ps (nu_UUID local) peerName peerPublicKey
     in if length readable \<le> 15 then readable
        else ''vl-'' @ take 3 left @ ''-'' @ take 3 right @ ''-'' @ hex_byte (digest ! 0) @ hex_byte (digest ! 1))"

definition DynamicInterfaceName :: "NodeUID \<Rightarrow> string" where
  "DynamicInterfaceName remote =
    (let suffix = take 4 (filter (\<lambda>c. c \<noteq> CHR ''-'') (ToLower (nu_UUID remote)))
     in if nu_Name remote = [] then ''vdl-'' @ suffix else ''vdl-'' @ nu_Name remote @ ''-'' @ suffix)"

section \<open>Validation\<close>

type_synonym problem = string

function show_nat :: "nat \<Rightarrow> string" where
  "show_nat n = (if n < 10 then [char_of (48 + n)] else show_nat (n div 10) @ [char_of (48 + n mod 10)])"
  by pat_completeness auto
termination by (relation "measure id") auto

declare show_nat.simps [simp del]

definition index :: "string \<Rightarrow> nat \<Rightarrow> string" where
  "index where i = where @ ''['' @ show_nat i @ '']''"

definition problem_of :: "string \<Rightarrow> error option \<Rightarrow> problem list" where
  "problem_of where e = (case e of None \<Rightarrow> [] | Some e \<Rightarrow> [where @ error_text e])"

definition ParseKey :: "parsers \<Rightarrow> string \<Rightarrow> array32 option" where
  "ParseKey ps value = ParseWGKey ps (TrimSpace ps value)"

definition parseInlineKey :: "parsers \<Rightarrow> string \<Rightarrow> bytes option" where
  "parseInlineKey ps value =
    (case DecodeBase64 ps (TrimSpace ps value) of
       None \<Rightarrow> None
     | Some decoded \<Rightarrow> if length decoded \<noteq> 32 then None else Some decoded)"

definition validateEndpoint :: "parsers \<Rightarrow> string \<Rightarrow> error option" where
  "validateEndpoint ps value =
    (case SplitHostPort ps value of
       None \<Rightarrow> Some (ErrNew ''invalid endpoint'')
     | Some (host, port) \<Rightarrow>
       if host = [] \<or> port = [] then Some (ErrNew ''invalid endpoint'')
       else
         (case Atoi ps port of
            None \<Rightarrow> Some (ErrNew ''invalid endpoint port'')
          | Some n \<Rightarrow> if n < 1 \<or> 65535 < n then Some (ErrNew ''invalid endpoint port'') else None))"

definition metric_problem :: "string \<Rightarrow> u32 option \<Rightarrow> problem list" where
  "metric_problem where metric =
    (case metric of
       None \<Rightarrow> []
     | Some m \<Rightarrow> if 65534 < m then [where @ ''.metric must be between 0 and 65534''] else [])"

text \<open>The routes through one peer: \<open>resolved\<close> maps each prefix to the first peer that claims it.\<close>

fun validate_items ::
  "parsers \<Rightarrow> string \<Rightarrow> string \<Rightarrow> nat \<Rightarrow> Route list \<Rightarrow> (prefix \<times> string) list \<times> problem list
    \<Rightarrow> (prefix \<times> string) list \<times> problem list" where
  "validate_items ps where peer i [] acc = acc"
| "validate_items ps where peer i (route # routes) acc =
    validate_items ps where peer (Suc i) routes
      (case acc of (resolved, problems) \<Rightarrow>
       case parseCanonicalPrefix ps (rt_Prefix route) of
         None \<Rightarrow> (resolved, problems @ [index where i @ ''.prefix must be a canonical network prefix''])
       | Some p \<Rightarrow>
         if map_of resolved p \<noteq> None
         then (resolved, problems @ [index where i @ ''.prefix duplicates a route''])
         else (resolved @ [(p, peer)], problems @ metric_problem (index where i) (rt_Metric route)))"

fun validate_peers ::
  "parsers \<Rightarrow> string \<Rightarrow> Routes \<Rightarrow> string list \<Rightarrow> string list \<Rightarrow> (prefix \<times> string) list \<times> problem list
    \<Rightarrow> (prefix \<times> string) list \<times> problem list" where
  "validate_peers ps where routes peerNames [] acc = acc"
| "validate_peers ps where routes peerNames (name # names) acc =
    (let items = the (map_of routes name);
         peerWhere = where @ ''.'' @ name
     in case acc of (resolved, problems) \<Rightarrow>
        validate_peers ps where routes peerNames names
          (validate_items ps peerWhere name 0 items
            (resolved, problems
              @ (if name \<notin> set peerNames then [peerWhere @ '' references an unknown peer''] else [])
              @ (if items = [] then [peerWhere @ '' must not be empty''] else []))))"

definition validateRoutes ::
  "parsers \<Rightarrow> string \<Rightarrow> Routes \<Rightarrow> string list \<Rightarrow> (prefix \<times> string) list \<times> problem list" where
  "validateRoutes ps where routes peerNames = validate_peers ps where routes peerNames (sorted_keys routes) ([], [])"

fun validate_announcements ::
  "parsers \<Rightarrow> string \<Rightarrow> nat \<Rightarrow> Announcement list \<Rightarrow> prefix list \<times> problem list \<Rightarrow> prefix list \<times> problem list" where
  "validate_announcements ps where i [] acc = acc"
| "validate_announcements ps where i (a # as) acc =
    validate_announcements ps where (Suc i) as
      (case acc of (resolved, problems) \<Rightarrow>
       case parseCanonicalPrefix ps (an_Prefix a) of
         None \<Rightarrow> (resolved, problems @ [index where i @ ''.prefix must be a canonical network prefix''])
       | Some p \<Rightarrow>
         (if p \<in> set resolved then resolved else resolved @ [p],
          problems @ (if p \<in> set resolved then [index where i @ ''.prefix duplicates''] else [])
            @ metric_problem (index where i) (an_Metric a)))"

definition validateAnnouncements ::
  "parsers \<Rightarrow> string \<Rightarrow> Announcement list \<Rightarrow> prefix list \<times> problem list" where
  "validateAnnouncements ps where as = validate_announcements ps where 0 as ([], [])"

text \<open>The source prefixes of one domain, against the pools and the prefixes seen before.\<close>

fun validate_sources ::
  "parsers \<Rightarrow> string \<Rightarrow> string \<Rightarrow> prefix list \<Rightarrow> nat \<Rightarrow> string list \<Rightarrow> (string \<times> prefix) list \<times> problem list
    \<Rightarrow> (string \<times> prefix) list \<times> problem list" where
  "validate_sources ps where name pools i [] acc = acc"
| "validate_sources ps where name pools i (raw # raws) acc =
    validate_sources ps where name pools (Suc i) raws
      (case acc of (sources, problems) \<Rightarrow>
       case parseCanonicalPrefix ps raw of
         None \<Rightarrow> (sources, problems @ [index (where @ ''.source_prefixes'') i @ '' must be a canonical network prefix''])
       | Some p \<Rightarrow>
         (sources @ [(name, p)],
          problems
          @ (if pf_Bits p = 0 then [where @ ''.source_prefixes must not contain /0''] else [])
          @ map (\<lambda>_. index (where @ ''.source_prefixes'') i @ '' overlaps infrastructure pool'')
              (filter (prefixesOverlap p) pools)
          @ (if list_ex (\<lambda>previous. prefixesOverlap p (snd previous)) sources
             then [index (where @ ''.source_prefixes'') i @ '' overlaps domain''] else [])))"

record routing_check =
  rc_tables :: "(int \<times> string) list"
  rc_sources :: "(string \<times> prefix) list"
  rc_problems :: "problem list"

definition validate_domain ::
  "parsers \<Rightarrow> prefix list \<Rightarrow> string list \<Rightarrow> string \<times> DomainSpec \<Rightarrow> routing_check \<Rightarrow> routing_check" where
  "validate_domain ps pools peerNames nd rc =
    (case nd of (name, domain) \<Rightarrow>
     let where = ''domains.'' @ name;
         p0 = (if peerNamePattern name then [] else [where @ '' name is invalid'']);
         (tables, p1) =
           (case validateTableID (SourceTableID domain) of
              Some e \<Rightarrow> (rc_tables rc, [where @ ''.source_table_id '' @ error_text e])
            | None \<Rightarrow>
              if map_of (rc_tables rc) (SourceTableID domain) \<noteq> None
              then (rc_tables rc, [where @ ''.source_table_id duplicates''])
              else (rc_tables rc @ [(SourceTableID domain, where @ ''.source_table_id'')], []));
         p2 = (if SourcePrefixes domain = [] then [where @ ''.source_prefixes must not be empty''] else []);
         (sources, problems) = validate_sources ps where name pools 0 (SourcePrefixes domain)
           (rc_sources rc, rc_problems rc @ p0 @ p1 @ p2);
         (routes, p3) = validateRoutes ps (where @ ''.static_routes'') (d_StaticRoutes domain) peerNames;
         (announcements, p4) = validateAnnouncements ps (where @ ''.announcements'') (Announcements domain);
         p5 = map (\<lambda>_. where @ ''.static_routes prefix has no same-family source_prefix'')
           (filter (\<lambda>(p, _). \<not> containsFamily ps (SourcePrefixes domain) (Is4 (pf_Addr p))) routes);
         p6 = concat (map (\<lambda>p.
           (if containsFamily ps (SourcePrefixes domain) (Is4 (pf_Addr p)) then []
            else [where @ ''.announcements prefix has no same-family source_prefix''])
           @ (if map_of routes p = None then [] else [where @ ''.announcements conflicts with a route''])) announcements)
     in \<lparr>rc_tables = tables, rc_sources = sources, rc_problems = problems @ p3 @ p4 @ p5 @ p6\<rparr>)"

definition validateRouting :: "parsers \<Rightarrow> NodeSpec \<Rightarrow> string list \<Rightarrow> problem list" where
  "validateRouting ps s peerNames =
    (let recovery =
           (case DynamicLinks s of
              None \<Rightarrow> []
            | Some d \<Rightarrow>
              (case RecoveryTimeoutSeconds d of
                 None \<Rightarrow> []
               | Some t \<Rightarrow> if t < 30 \<or> 604800 < t
                   then [''dynamic_links.recovery_timeout_seconds must be between 30 and 604800''] else []));
         pools = InfrastructurePrefixes ps (Fabric s);
         (fabricRoutes, p1) = validateRoutes ps ''fabric.static_routes'' (f_StaticRoutes (Fabric s)) peerNames;
         p2 = map (\<lambda>_. ''fabric.static_routes prefix is outside the infrastructure pools'')
           (filter (\<lambda>(p, _). \<not> prefixContained p pools) fabricRoutes);
         start = \<lparr>rc_tables = [(EffectiveRoutingTableID (Fabric s), ''fabric.routing_table_id'')],
                  rc_sources = [], rc_problems = recovery @ p1 @ p2\<rparr>
     in rc_problems (fold (validate_domain ps pools peerNames)
          (map (\<lambda>name. (name, the (map_of (Domains s) name))) (sorted_keys (Domains s))) start))"

fun duplicate_prefixes :: "parsers \<Rightarrow> nat \<Rightarrow> string list \<Rightarrow> prefix list \<Rightarrow> problem list" where
  "duplicate_prefixes ps i [] seen = []"
| "duplicate_prefixes ps i (raw # raws) seen =
    (let where = index ''dynamic_links.allow_candidate_prefixes'' i in
     case parseCanonicalPrefix ps raw of
       None \<Rightarrow> (where @ '' must be a canonical network prefix'') # duplicate_prefixes ps (Suc i) raws seen
     | Some p \<Rightarrow> (if p \<in> set seen then [where @ '' duplicates''] else []) @ duplicate_prefixes ps (Suc i) raws (p # seen))"

definition validate_dynamic :: "parsers \<Rightarrow> DynamicLinksSpec \<Rightarrow> problem list" where
  "validate_dynamic ps d =
    (if Mode d = ''active'' \<or> Mode d = ''passive'' then
       (if AllowCandidatePrefixes d = []
        then [''dynamic_links.allow_candidate_prefixes must not be empty in active or passive mode''] else [])
     else if Mode d = ''off'' then []
     else if Mode d = [] then [''dynamic_links.mode is required when dynamic_links is present'']
     else [''dynamic_links.mode must be active, passive, or off''])
    @ duplicate_prefixes ps 0 (AllowCandidatePrefixes d) []"

definition validate_loopback :: "parsers \<Rightarrow> string \<Rightarrow> prefix result \<Rightarrow> problem list" where
  "validate_loopback ps raw pool =
    (if raw = [] then []
     else
       (case ParseAddr ps raw of
          None \<Rightarrow> [''node.loopback_address_v6 must be a valid unicast address'']
        | Some addr \<Rightarrow>
          if \<not> Is6 addr \<or> \<not> validUnicast addr then [''node.loopback_address_v6 must be a valid unicast address'']
          else
            (case pool of
               Inr p \<Rightarrow> if Contains p addr then [] else [''node.loopback_address_v6 is outside its Fabric loopback prefix'']
             | Inl _ \<Rightarrow> [])))"

definition pool_problem :: "string \<Rightarrow> prefix result \<Rightarrow> problem list" where
  "pool_problem name r = (case r of Inl e \<Rightarrow> [''fabric.'' @ name @ '' '' @ error_text e] | Inr _ \<Rightarrow> [])"

definition validate_fabric :: "parsers \<Rightarrow> NodeSpec \<Rightarrow> problem list" where
  "validate_fabric ps s =
    (let f = Fabric s in
     (if APIVersion s \<noteq> ''velvet.io/v1alpha2'' then [''api_version must be velvet.io/v1alpha2''] else [])
     @ (if Kind s \<noteq> ''NodeSpec'' then [''kind must be NodeSpec''] else [])
     @ (if parseInlineKey ps (PSK f) = None then [''fabric.psk must be an inline base64 32-byte key''] else [])
     @ pool_problem ''link_prefix_v4'' (parseOptionalPool ps (LinkPrefixV4 f) True 30)
     @ pool_problem ''link_prefix_v6'' (parseOptionalPool ps (LinkPrefixV6 f) False 126)
     @ pool_problem ''loopback_prefix_v6'' (parsePool ps (LoopbackPrefixV6 f) False 128)
     @ (case VFPPort f of
          None \<Rightarrow> []
        | Some p \<Rightarrow> if p < 1 \<or> 65535 < p then [''fabric.vfp_port must be between 1 and 65535''] else [])
     @ problem_of ''fabric.routing_table_id '' (validateTableID (EffectiveRoutingTableID f))
     @ (case Babel s of
          None \<Rightarrow> []
        | Some b \<Rightarrow>
          (if Enabled b = None then [''babel.enabled is required when babel is present''] else [])
          @ (if Executable b \<noteq> [] \<and> \<not> IsAbs ps (Executable b) then [''babel.executable must be an absolute path''] else []))
     @ (case DynamicLinks s of None \<Rightarrow> [] | Some d \<Rightarrow> validate_dynamic ps d))"

definition validate_node :: "parsers \<Rightarrow> NodeSpec \<Rightarrow> problem list" where
  "validate_node ps s =
    (let n = sp_Node s; f = Fabric s in
     (if uidNamePattern (nu_Name (nd_UID n)) then []
      else [''node.uid.name must contain at most five lowercase letters or digits''])
     @ (case ParseUUID ps (nu_UUID (nd_UID n)) of
          None \<Rightarrow> [''node.uid.uuid must be a non-zero UUID'']
        | Some u \<Rightarrow> if u = 0 then [''node.uid.uuid must be a non-zero UUID''] else [])
     @ (if ParseKey ps (PrivateKey n) = None then [''node.private_key must be an inline base64 WireGuard key''] else [])
     @ validate_loopback ps (LoopbackAddressV6 n) (parsePool ps (LoopbackPrefixV6 f) False 128)
     @ (case DynamicLinks s of
          None \<Rightarrow> []
        | Some d \<Rightarrow> problem_of ''dynamic_links: '' (ValidatePorts (dl_ListenPorts d)))
     @ problem_of ''dynamic_links: '' (validateVFPPort (DynamicPorts s) (EffectiveVFPPort f))
     @ (case DynamicLinks s of
          None \<Rightarrow> []
        | Some d \<Rightarrow> (case Durable d of None \<Rightarrow> [] | Some ds \<Rightarrow> problem_of [] (ValidateDurable ds)))
     @ (if Peers s = [] then [''peers must not be empty''] else []))"

fun endpoint_problems :: "parsers \<Rightarrow> string \<Rightarrow> string list \<Rightarrow> string list \<Rightarrow> problem list" where
  "endpoint_problems ps where [] seen = []"
| "endpoint_problems ps where (e # es) seen =
    (case validateEndpoint ps e of
       Some err \<Rightarrow> [where @ ''.endpoints: '' @ error_text err]
     | None \<Rightarrow> if e \<in> set seen then [where @ ''.endpoints contains a duplicate endpoint''] else [])
    @ endpoint_problems ps where es (e # seen)"

definition outside_pool :: "prefix result \<Rightarrow> prefix \<Rightarrow> bool" where
  "outside_pool pool prefix =
    (case pool of Inl _ \<Rightarrow> False | Inr p \<Rightarrow> \<not> PF_IsValid p \<or> \<not> Contains p (pf_Addr prefix))"

fun link_address_problems :: "parsers \<Rightarrow> string \<Rightarrow> FabricSpec \<Rightarrow> string list \<Rightarrow> bool list \<Rightarrow> problem list" where
  "link_address_problems ps where f [] seen = []"
| "link_address_problems ps where f (raw # raws) seen =
    (let bad = (where @ ''.link_addresses must contain canonical /30 IPv4 or /126 IPv6 prefixes'')
                 # link_address_problems ps where f raws seen
     in case ParsePrefix ps raw of
       None \<Rightarrow> bad
     | Some p \<Rightarrow>
       if p \<noteq> Masked p \<or> pf_Bits p \<noteq> linkBits (pf_Addr p) then bad
       else
         let family = Is4 (pf_Addr p) in
         (if family \<in> set seen then [where @ ''.link_addresses contains the same family twice''] else [])
         @ (if family \<and> outside_pool (parseOptionalPool ps (LinkPrefixV4 f) True 30) p
            then [where @ ''.link_addresses IPv4 prefix requires and must be inside fabric.link_prefix_v4''] else [])
         @ (if \<not> family \<and> outside_pool (parseOptionalPool ps (LinkPrefixV6 f) False 126) p
            then [where @ ''.link_addresses IPv6 prefix requires and must be inside fabric.link_prefix_v6''] else [])
         @ link_address_problems ps where f raws (family # seen))"

record peer_check =
  pc_index :: nat
  pc_names :: "string list"
  pc_interfaces :: "string list"
  pc_ports :: "int list"
  pc_problems :: "problem list"

definition interface_of :: "parsers \<Rightarrow> NodeSpec \<Rightarrow> PeerSpec \<Rightarrow> string" where
  "interface_of ps s peer =
    (if ps_InterfaceName peer = [] then InterfaceName ps (nd_UID (sp_Node s)) (ps_Name peer) (PublicKey peer)
     else ps_InterfaceName peer)"

definition key_problem :: "parsers \<Rightarrow> string \<Rightarrow> NodeSpec \<Rightarrow> PeerSpec \<Rightarrow> problem list" where
  "key_problem ps where s peer =
    (case ParseKey ps (PublicKey peer) of
       None \<Rightarrow> [where @ ''.public_key must be an inline base64 WireGuard key'']
     | Some k \<Rightarrow>
       (case ParseKey ps (PrivateKey (sp_Node s)) of
          None \<Rightarrow> []
        | Some own \<Rightarrow> if k = PublicKeyOf ps own
            then [where @ ''.public_key cannot equal the local WireGuard public key''] else []))"

definition validate_peer :: "parsers \<Rightarrow> NodeSpec \<Rightarrow> PeerSpec \<Rightarrow> peer_check \<Rightarrow> peer_check" where
  "validate_peer ps s peer pc =
    (let where = index ''peers'' (pc_index pc);
         choice = PeerPorts peer;
         name = interface_of ps s peer
     in \<lparr>pc_index = Suc (pc_index pc),
         pc_names = ps_Name peer # pc_names pc,
         pc_interfaces = name # pc_interfaces pc,
         pc_ports = (if 0 < Port choice then Port choice # pc_ports pc else pc_ports pc),
         pc_problems = pc_problems pc
           @ (if \<not> peerNamePattern (ps_Name peer) then [where @ ''.name is invalid'']
              else if ps_Name peer \<in> set (pc_names pc) then [where @ ''.name is duplicated''] else [])
           @ key_problem ps where s peer
           @ endpoint_problems ps where (Endpoints peer) []
           @ problem_of (where @ '': '') (ValidatePorts (ps_ListenPorts peer))
           @ problem_of (where @ '': '') (validateVFPPort choice (EffectiveVFPPort (Fabric s)))
           @ (if 0 < Port choice \<and> Port choice \<in> set (pc_ports pc)
              then [where @ ''.listen_ports is already used by peer''] else [])
           @ (case PersistentKeepaliveSeconds peer of
                None \<Rightarrow> []
              | Some k \<Rightarrow> if k < 0 \<or> 65535 < k
                  then [where @ ''.persistent_keepalive_seconds must be between 0 and 65535''] else [])
           @ (if \<not> validInterfaceName name then [where @ ''.interface_name is invalid'']
              else if name \<in> set (pc_interfaces pc) then [where @ '' resolves to interface already used by peer''] else [])
           @ link_address_problems ps where (Fabric s) (LinkAddresses peer) []\<rparr>)"

definition Validate :: "parsers \<Rightarrow> NodeSpec \<Rightarrow> problem list" where
  "Validate ps s =
    (let pc = fold (validate_peer ps s) (Peers s)
           \<lparr>pc_index = 0, pc_names = [], pc_interfaces = [], pc_ports = [],
            pc_problems = validate_fabric ps s @ validate_node ps s\<rparr>
     in pc_problems pc @ validateRouting ps s (pc_names pc))"

section \<open>What validation establishes\<close>

text \<open>
  Validation only ever adds problems, so that an empty list at the end means that no step found
  one.
\<close>

definition routes_ok :: "parsers \<Rightarrow> string list \<Rightarrow> Routes \<Rightarrow> bool" where
  "routes_ok ps names routes =
    (\<forall>name \<in> set (sorted_keys routes). name \<in> set names
       \<and> (\<forall>item \<in> set (the (map_of routes name)). parseCanonicalPrefix ps (rt_Prefix item) \<noteq> None))"

definition route_prefixes :: "parsers \<Rightarrow> Routes \<Rightarrow> prefix set" where
  "route_prefixes ps routes =
    {p. \<exists>name \<in> set (sorted_keys routes). \<exists>item \<in> set (the (map_of routes name)). parseCanonicalPrefix ps (rt_Prefix item) = Some p}"

lemma validate_items_ok:
  assumes "validate_items ps where peer i items (resolved, problems) = (resolved', [])"
  shows "problems = [] \<and> (\<forall>item \<in> set items. parseCanonicalPrefix ps (rt_Prefix item) \<noteq> None)
    \<and> fst ` set resolved' = fst ` set resolved \<union> {p. \<exists>item \<in> set items. parseCanonicalPrefix ps (rt_Prefix item) = Some p}"
  using assms
proof (induction items arbitrary: i resolved problems)
  case (Cons item items)
  show ?case
  proof (cases "parseCanonicalPrefix ps (rt_Prefix item)")
    case None
    with Cons.prems have "validate_items ps where peer (Suc i) items
        (resolved, problems @ [index where i @ ''.prefix must be a canonical network prefix'']) = (resolved', [])" by simp
    from Cons.IH[OF this] show ?thesis by simp
  next
    case (Some p)
    show ?thesis
    proof (cases "map_of resolved p = None")
      case True
      with Cons.prems Some have "validate_items ps where peer (Suc i) items
          (resolved @ [(p, peer)], problems @ metric_problem (index where i) (rt_Metric item)) = (resolved', [])" by simp
      from Cons.IH[OF this] Some show ?thesis by auto
    next
      case False
      with Cons.prems Some have "validate_items ps where peer (Suc i) items
          (resolved, problems @ [index where i @ ''.prefix duplicates a route'']) = (resolved', [])" by simp
      from Cons.IH[OF this] show ?thesis by simp
    qed
  qed
qed simp

lemma validate_peers_ok:
  assumes "validate_peers ps where routes names keys (resolved, problems) = (resolved', [])"
  shows "problems = [] \<and> (\<forall>name \<in> set keys. name \<in> set names
       \<and> (\<forall>item \<in> set (the (map_of routes name)). parseCanonicalPrefix ps (rt_Prefix item) \<noteq> None))
    \<and> fst ` set resolved' = fst ` set resolved \<union>
        {p. \<exists>name \<in> set keys. \<exists>item \<in> set (the (map_of routes name)). parseCanonicalPrefix ps (rt_Prefix item) = Some p}"
  using assms
proof (induction keys arbitrary: resolved problems)
  case (Cons name keys)
  let ?w = "where @ ''.'' @ name"
  let ?items = "the (map_of routes name)"
  let ?new = "(if name \<notin> set names then [?w @ '' references an unknown peer''] else [])
              @ (if ?items = [] then [?w @ '' must not be empty''] else [])"
  obtain r1 p1 where one: "validate_items ps ?w name 0 ?items (resolved, problems @ ?new) = (r1, p1)" by fastforce
  with Cons.prems have rest: "validate_peers ps where routes names keys (r1, p1) = (resolved', [])"
    by (simp only: validate_peers.simps Let_def prod.case)
  note ih = Cons.IH[OF this]
  with one have "validate_items ps ?w name 0 ?items (resolved, problems @ ?new) = (r1, [])" by simp
  note items = validate_items_ok[OF this]
  from items ih show ?case by (auto split: if_splits)
qed simp

lemma validateRoutes_ok:
  assumes "validateRoutes ps where routes names = (resolved, [])"
  shows "routes_ok ps names routes" "fst ` set resolved = route_prefixes ps routes"
  using validate_peers_ok[OF assms[unfolded validateRoutes_def]] by (simp_all add: routes_ok_def route_prefixes_def)

definition announcements_ok :: "parsers \<Rightarrow> Announcement list \<Rightarrow> bool" where
  "announcements_ok ps as = (\<forall>a \<in> set as. parseCanonicalPrefix ps (an_Prefix a) \<noteq> None)"

lemma validate_announcements_ok:
  assumes "validate_announcements ps where i as (resolved, problems) = (resolved', [])"
  shows "problems = [] \<and> announcements_ok ps as"
  using assms
proof (induction as arbitrary: i resolved problems)
  case (Cons a as)
  obtain r1 p1 where acc: "(case parseCanonicalPrefix ps (an_Prefix a) of
         None \<Rightarrow> (resolved, problems @ [index where i @ ''.prefix must be a canonical network prefix''])
       | Some p \<Rightarrow> (if p \<in> set resolved then resolved else resolved @ [p],
          problems @ (if p \<in> set resolved then [index where i @ ''.prefix duplicates''] else [])
            @ metric_problem (index where i) (an_Metric a))) = (r1, p1)" by fastforce
  with Cons.prems have "validate_announcements ps where (Suc i) as (r1, p1) = (resolved', [])" by simp
  from Cons.IH[OF this] acc show ?case by (auto simp: announcements_ok_def split: option.splits)
qed (simp add: announcements_ok_def)

definition sources_ok :: "parsers \<Rightarrow> string list \<Rightarrow> bool" where
  "sources_ok ps raws = (\<forall>raw \<in> set raws. parseCanonicalPrefix ps raw \<noteq> None)"

lemma validate_sources_ok:
  assumes "validate_sources ps where name pools i raws (sources, problems) = (sources', [])"
  shows "problems = [] \<and> sources_ok ps raws"
  using assms
proof (induction raws arbitrary: i sources problems)
  case (Cons raw raws)
  show ?case
  proof (cases "parseCanonicalPrefix ps raw")
    case None
    with Cons.prems have "validate_sources ps where name pools (Suc i) raws
        (sources, problems @ [index (where @ ''.source_prefixes'') i @ '' must be a canonical network prefix'']) = (sources', [])" by simp
    from Cons.IH[OF this] show ?thesis by simp
  next
    case (Some p)
    obtain s1 p1 where acc: "(sources @ [(name, p)],
          problems
          @ (if pf_Bits p = 0 then [where @ ''.source_prefixes must not contain /0''] else [])
          @ map (\<lambda>_. index (where @ ''.source_prefixes'') i @ '' overlaps infrastructure pool'')
              (filter (prefixesOverlap p) pools)
          @ (if list_ex (\<lambda>previous. prefixesOverlap p (snd previous)) sources
             then [index (where @ ''.source_prefixes'') i @ '' overlaps domain''] else [])) = (s1, p1)" by fastforce
    with Cons.prems Some have "validate_sources ps where name pools (Suc i) raws (s1, p1) = (sources', [])" by simp
    from Cons.IH[OF this] acc Some show ?thesis by (simp add: sources_ok_def)
  qed
qed (simp add: sources_ok_def)

definition domain_ok :: "parsers \<Rightarrow> string list \<Rightarrow> DomainSpec \<Rightarrow> bool" where
  "domain_ok ps names d = (sources_ok ps (SourcePrefixes d) \<and> SourcePrefixes d \<noteq> [] \<and> routes_ok ps names (d_StaticRoutes d)
     \<and> announcements_ok ps (Announcements d) \<and> validateTableID (SourceTableID d) = None)"

lemma validate_domain_ok:
  assumes "rc_problems (validate_domain ps pools names (name, d) rc) = []"
  shows "rc_problems rc = []" "domain_ok ps names d" "map_of (rc_tables rc) (SourceTableID d) = None"
    "map fst (rc_tables (validate_domain ps pools names (name, d) rc)) = map fst (rc_tables rc) @ [SourceTableID d]"
proof -
  let ?w = "''domains.'' @ name"
  define tp where "tp = (case validateTableID (SourceTableID d) of
              Some e \<Rightarrow> (rc_tables rc, [?w @ ''.source_table_id '' @ error_text e])
            | None \<Rightarrow>
              if map_of (rc_tables rc) (SourceTableID d) \<noteq> None
              then (rc_tables rc, [?w @ ''.source_table_id duplicates''])
              else (rc_tables rc @ [(SourceTableID d, ?w @ ''.source_table_id'')], []))"
  define ini where "ini = rc_problems rc @ (if peerNamePattern name then [] else [?w @ '' name is invalid'']) @ snd tp
    @ (if SourcePrefixes d = [] then [?w @ ''.source_prefixes must not be empty''] else [])"
  obtain sources problems where src: "validate_sources ps ?w name pools 0 (SourcePrefixes d) (rc_sources rc, ini) = (sources, problems)" by fastforce
  obtain routes p3 where r: "validateRoutes ps (?w @ ''.static_routes'') (d_StaticRoutes d) names = (routes, p3)" by fastforce
  obtain an p4 where a: "validateAnnouncements ps (?w @ ''.announcements'') (Announcements d) = (an, p4)" by fastforce
  have eq: "rc_problems (validate_domain ps pools names (name, d) rc) = [] \<Longrightarrow> problems = [] \<and> p3 = [] \<and> p4 = []"
    "rc_tables (validate_domain ps pools names (name, d) rc) = fst tp"
    using src r a unfolding validate_domain_def ini_def tp_def by (auto simp: Let_def split: prod.splits option.splits if_splits)
  with assms src r a have ok: "validate_sources ps ?w name pools 0 (SourcePrefixes d) (rc_sources rc, ini) = (sources, [])"
    "validateRoutes ps (?w @ ''.static_routes'') (d_StaticRoutes d) names = (routes, [])"
    "validate_announcements ps (?w @ ''.announcements'') 0 (Announcements d) ([], []) = (an, [])"
    by (auto simp: validateAnnouncements_def)
  have ini: "ini = []" and so: "sources_ok ps (SourcePrefixes d)" using validate_sources_ok[OF ok(1)] by auto
  from ini show "rc_problems rc = []" by (simp add: ini_def)
  from ini have t: "snd tp = []" by (simp add: ini_def)
  then have tn: "validateTableID (SourceTableID d) = None" "map_of (rc_tables rc) (SourceTableID d) = None"
    by (auto simp: tp_def split: option.splits if_splits)
  from tn show "map_of (rc_tables rc) (SourceTableID d) = None" by simp
  from tn show "map fst (rc_tables (validate_domain ps pools names (name, d) rc)) = map fst (rc_tables rc) @ [SourceTableID d]"
    by (simp add: eq(2) tp_def)
  from ini so tn validateRoutes_ok(1)[OF ok(2)] validate_announcements_ok[OF ok(3)] show "domain_ok ps names d"
    by (auto simp: domain_ok_def ini_def split: if_splits)
qed

lemma validate_domains_none:
  "rc_problems (fold (validate_domain ps pools names) nds rc) = [] \<Longrightarrow> rc_problems rc = []"
proof (induction nds arbitrary: rc)
  case (Cons nd nds)
  then have "rc_problems (validate_domain ps pools names (fst nd, snd nd) rc) = []" by simp
  then show ?case by (rule validate_domain_ok(1))
qed simp

lemma validate_domains_ok:
  assumes "rc_problems (fold (validate_domain ps pools names) nds rc) = []" "distinct (map fst (rc_tables rc))"
  shows "(\<forall>nd \<in> set nds. domain_ok ps names (snd nd))
    \<and> distinct (map fst (rc_tables rc) @ map (\<lambda>nd. SourceTableID (snd nd)) nds)"
  using assms
proof (induction nds arbitrary: rc)
  case (Cons nd nds)
  let ?rc = "validate_domain ps pools names (fst nd, snd nd) rc"
  have rest: "rc_problems (fold (validate_domain ps pools names) nds ?rc) = []" using Cons.prems(1) by simp
  note one = validate_domain_ok[OF validate_domains_none[OF rest]]
  have "distinct (map fst (rc_tables ?rc))"
    using one(3,4) Cons.prems(2) by (simp add: map_of_eq_None_iff)
  from Cons.IH[OF rest this, unfolded one(4)] one(2) show ?case by simp
qed simp

lemma pc_names: "pc_names (fold (validate_peer ps s) peers pc) = rev (map ps_Name peers) @ pc_names pc"
  by (induction peers arbitrary: pc) (simp_all add: validate_peer_def Let_def)

lemma Validate_routing:
  assumes "Validate ps s = []"
  shows "routes_ok ps (rev (map ps_Name (Peers s))) (f_StaticRoutes (Fabric s))"
    "\<forall>p \<in> route_prefixes ps (f_StaticRoutes (Fabric s)). prefixContained p (InfrastructurePrefixes ps (Fabric s))"
    "\<forall>name \<in> set (sorted_keys (Domains s)). domain_ok ps (rev (map ps_Name (Peers s))) (the (map_of (Domains s) name))"
    "distinct (EffectiveRoutingTableID (Fabric s) # map (\<lambda>name. SourceTableID (the (map_of (Domains s) name))) (sorted_keys (Domains s)))"
proof -
  let ?names = "rev (map ps_Name (Peers s))"
  let ?pools = "InfrastructurePrefixes ps (Fabric s)"
  let ?nds = "map (\<lambda>name. (name, the (map_of (Domains s) name))) (sorted_keys (Domains s))"
  obtain resolved p1 where r: "validateRoutes ps ''fabric.static_routes'' (f_StaticRoutes (Fabric s)) ?names = (resolved, p1)" by fastforce
  define p2 where "p2 = map (\<lambda>_. ''fabric.static_routes prefix is outside the infrastructure pools'')
           (filter (\<lambda>(p, _). \<not> prefixContained p ?pools) resolved)"
  from assms have v: "validateRouting ps s ?names = []" by (simp add: Validate_def Let_def pc_names)
  then obtain rec where f: "rc_problems (fold (validate_domain ps ?pools ?names) ?nds
      \<lparr>rc_tables = [(EffectiveRoutingTableID (Fabric s), ''fabric.routing_table_id'')],
       rc_sources = [], rc_problems = rec @ p1 @ p2\<rparr>) = []"
    using r unfolding validateRouting_def p2_def Let_def by auto
  from validate_domains_none[OF f] have none: "p1 = []" "p2 = []" by simp_all
  with r have r': "validateRoutes ps ''fabric.static_routes'' (f_StaticRoutes (Fabric s)) ?names = (resolved, [])" by simp
  show "routes_ok ps ?names (f_StaticRoutes (Fabric s))" by (rule validateRoutes_ok(1)[OF r'])
  from none(2) have "\<forall>p \<in> fst ` set resolved. prefixContained p ?pools" by (auto simp: p2_def filter_empty_conv)
  then show "\<forall>p \<in> route_prefixes ps (f_StaticRoutes (Fabric s)). prefixContained p ?pools"
    by (simp add: validateRoutes_ok(2)[OF r'])
  from validate_domains_ok[OF f] show "\<forall>name \<in> set (sorted_keys (Domains s)). domain_ok ps ?names (the (map_of (Domains s) name))"
    "distinct (EffectiveRoutingTableID (Fabric s) # map (\<lambda>name. SourceTableID (the (map_of (Domains s) name))) (sorted_keys (Domains s)))"
    by (simp_all add: comp_def)
qed

section \<open>Ports in JSON\<close>

lemma MarshalPorts_roundtrip:
  assumes "ValidatePorts (Some c) = None"
  shows "UnmarshalPorts (MarshalPorts c) = Inr c"
  using assms
  by (cases c; cases "Range c = no_range")
    (auto simp: UnmarshalPorts_def MarshalPorts_def ValidatePorts_def Choice_def unmarshal_int_def Let_def split: if_splits)

lemma UnmarshalPorts_valid: "UnmarshalPorts v = Inr c \<Longrightarrow> ValidatePorts (Some c) = None"
  by (auto simp: UnmarshalPorts_def Let_def split: option.splits)

definition fixed_ports :: "PeerSpec list \<Rightarrow> int list" where
  "fixed_ports peers = filter (\<lambda>p. p \<noteq> 0) (map (\<lambda>peer. Port (PeerPorts peer)) peers)"

lemma problem_of_none [simp]: "problem_of w e = [] \<longleftrightarrow> e = None"
  by (auto simp: problem_of_def split: option.splits)

lemma validate_peer_ok:
  assumes "pc_problems (validate_peer ps s peer pc) = []" "ParseKey ps (PrivateKey (sp_Node s)) = Some own"
  shows "pc_problems pc = []" "\<exists>k. ParseKey ps (PublicKey peer) = Some k \<and> k \<noteq> PublicKeyOf ps own"
    "0 \<le> Port (PeerPorts peer)" "Port (PeerPorts peer) \<noteq> 0 \<longrightarrow> Port (PeerPorts peer) \<notin> set (pc_ports pc)"
    "pc_ports (validate_peer ps s peer pc)
      = (if Port (PeerPorts peer) = 0 then pc_ports pc else Port (PeerPorts peer) # pc_ports pc)"
proof -
  from assms(1) have none: "pc_problems pc = []" "key_problem ps (index ''peers'' (pc_index pc)) s peer = []"
    "ValidatePorts (ps_ListenPorts peer) = None" "\<not> (0 < Port (PeerPorts peer) \<and> Port (PeerPorts peer) \<in> set (pc_ports pc))"
    by (simp_all add: validate_peer_def Let_def split: if_splits)
  from none(1) show "pc_problems pc = []" .
  from none(2) assms(2) show "\<exists>k. ParseKey ps (PublicKey peer) = Some k \<and> k \<noteq> PublicKeyOf ps own"
    by (auto simp: key_problem_def split: option.splits if_splits)
  from none(3) show nn: "0 \<le> Port (PeerPorts peer)" by (auto simp: ValidatePorts_def PeerPorts_def Let_def split: if_splits)
  from nn none(4) show "Port (PeerPorts peer) \<noteq> 0 \<longrightarrow> Port (PeerPorts peer) \<notin> set (pc_ports pc)" by auto
  from nn show "pc_ports (validate_peer ps s peer pc)
      = (if Port (PeerPorts peer) = 0 then pc_ports pc else Port (PeerPorts peer) # pc_ports pc)"
    by (simp add: validate_peer_def Let_def)
qed

text \<open>No problem left after the peers: their keys parse and differ from the node's, and their fixed ports are distinct.\<close>

lemma validate_peers_list_ok:
  assumes "pc_problems (fold (validate_peer ps s) peers pc) = []" "ParseKey ps (PrivateKey (sp_Node s)) = Some own"
    "distinct (pc_ports pc)"
  shows "pc_problems pc = [] \<and> (\<forall>peer \<in> set peers. \<exists>k. ParseKey ps (PublicKey peer) = Some k \<and> k \<noteq> PublicKeyOf ps own)
    \<and> distinct (rev (fixed_ports peers) @ pc_ports pc)"
  using assms(1,3)
proof (induction peers arbitrary: pc)
  case (Cons peer peers)
  let ?pc = "validate_peer ps s peer pc"
  have mono: "pc_problems (fold (validate_peer ps s) xs x) = [] \<Longrightarrow> pc_problems x = []" for xs x
    by (induction xs arbitrary: x) (auto dest: validate_peer_ok(1)[OF _ assms(2)])
  have rest: "pc_problems (fold (validate_peer ps s) peers ?pc) = []" using Cons.prems(1) by simp
  note one = validate_peer_ok[OF mono[OF rest] assms(2)]
  have "distinct (pc_ports ?pc)" using one(4,5) Cons.prems(2) by simp
  from Cons.IH[OF rest this, unfolded one(5)] one(1,2) show ?case by (auto simp: fixed_ports_def split: if_splits)
qed (simp add: fixed_ports_def)

lemma duplicate_prefixes_none:
  "duplicate_prefixes ps i raws seen = [] \<Longrightarrow> \<forall>raw \<in> set raws. parseCanonicalPrefix ps raw \<noteq> None"
  by (induction raws arbitrary: i seen) (auto simp: Let_def split: option.splits)

lemma Validate_parts:
  assumes "Validate ps s = []"
  shows "validate_fabric ps s = []" "validate_node ps s = []" "\<exists>own. ParseKey ps (PrivateKey (sp_Node s)) = Some own
     \<and> (\<forall>peer \<in> set (Peers s). \<exists>k. ParseKey ps (PublicKey peer) = Some k \<and> k \<noteq> PublicKeyOf ps own)"
    "distinct (fixed_ports (Peers s))"
proof -
  let ?pc = "\<lparr>pc_index = 0, pc_names = [], pc_interfaces = [], pc_ports = [],
            pc_problems = validate_fabric ps s @ validate_node ps s\<rparr>"
  from assms have p: "pc_problems (fold (validate_peer ps s) (Peers s) ?pc) = []" by (simp add: Validate_def Let_def)
  have grow: "\<exists>x. pc_problems (fold (validate_peer ps s) xs y) = pc_problems y @ x" for xs y
  proof (induction xs arbitrary: y)
    case (Cons a xs)
    have "\<exists>x. pc_problems (validate_peer ps s a y) = pc_problems y @ x" by (simp add: validate_peer_def Let_def)
    with Cons.IH[of "validate_peer ps s a y"] show ?case by fastforce
  qed simp
  from grow[of "Peers s" ?pc] p have none: "validate_fabric ps s = []" "validate_node ps s = []" by auto
  from none show "validate_fabric ps s = []" "validate_node ps s = []" .
  from none(2) obtain own where own: "ParseKey ps (PrivateKey (sp_Node s)) = Some own"
    by (auto simp: validate_node_def Let_def split: if_splits option.splits)
  from validate_peers_list_ok[OF p own] own show "\<exists>own. ParseKey ps (PrivateKey (sp_Node s)) = Some own
     \<and> (\<forall>peer \<in> set (Peers s). \<exists>k. ParseKey ps (PublicKey peer) = Some k \<and> k \<noteq> PublicKeyOf ps own)"
    "distinct (fixed_ports (Peers s))" by auto
qed

end
