(* ===== verification/Desired_State.thy ===== *)
theory Desired_State
  imports Node_Spec Link_Derive
begin

text \<open>
  Compilation of a node specification into the desired kernel state,
  \<^verbatim>\<open>internal/reconcile/desired.go\<close>, with the bootstrap parameters of a link from
  \<^verbatim>\<open>internal/link/derive.go\<close>.  The textual keys under which the source removes duplicate routes
  and rules are the tuples they print.  The hash functions and the printer of identifiers are
  fields of \<open>primitives\<close>.
\<close>

section \<open>Plans\<close>

datatype RouteType = RouteViaPeer | RouteThrow | RouteUnreachable

record LinkPlan =
  WaitingPort :: bool
  lp_Ports :: PortChoice
  Probing :: bool
  ReceiveOnly :: bool
  lp_PeerName :: string
  lp_InterfaceName :: string
  OwnerAlias :: string
  lp_PrivateKey :: array32
  PeerPublicKey :: array32
  PresharedKey :: array32
  ListenPort :: int
  lp_Endpoints :: "string list"
  Keepalive :: "int option"
  BootstrapAddress :: prefix
  LinkOverrides :: "string list"

record RoutePlan =
  rp_TableID :: int
  rp_Prefix :: prefix
  rp_Type :: RouteType
  rp_PeerName :: string
  rp_InterfaceName :: string
  rp_Metric :: "u32 option"

record RulePlan =
  ru_TableID :: int
  ru_Priority :: int
  ru_Source :: prefix
  ru_Destination :: prefix

record BabelOrigin =
  bo_Destination :: prefix
  bo_Source :: prefix
  bo_Metric :: u16

record BabelView =
  ReturnPrefixes :: "prefix list"
  bv_TableID :: int
  bv_Source :: prefix
  RulePriority :: int

record BabelPlan =
  ServiceName :: string
  bp_Executable :: string
  ConfigPath :: string
  ControlPath :: string
  StatePath :: string
  Interfaces :: "string list"
  Origins :: "BabelOrigin list"
  Views :: "BabelView list"
  ImportPrefixes :: "prefix list"
  ImportSources :: "prefix list"
  Protocol :: byte
  DeviceOnly :: bool
  ManageRules :: bool

record DynamicLinksPlan =
  dp_Mode :: string
  dp_AllowCandidatePrefixes :: "prefix list"
  RecoveryTimeout :: int

record DesiredState =
  RetainedLinks :: "LinkPlan list"
  ds_Ports :: PortChoice
  ds_Durable :: DurableSettings
  ds_UID :: NodeUID
  ds_UUID :: array16
  FabricPSK :: bytes
  LinkPoolV4 :: prefix
  LinkPoolV6 :: prefix
  LoopbackPoolV6 :: prefix
  ds_LoopbackV6 :: addr
  ds_VFPPort :: int
  FabricTableID :: int
  LoopbackOwnerAlias :: string
  Forwarding :: bool
  Links :: "LinkPlan list"
  ds_Routes :: "RoutePlan list"
  ds_Rules :: "RulePlan list"
  ds_Babel :: "BabelPlan option"
  ds_DynamicLinks :: "DynamicLinksPlan option"
  ds_PrivateKey :: array32

record primitives =
  pm_mac :: mac
  pm_hkdf :: "bytes \<Rightarrow> bytes \<Rightarrow> bytes result"
  pm_uuid :: "array16 \<Rightarrow> string"

abbreviation UnreachableMetric :: u32 where
  "UnreachableMetric \<equiv> 2147483647"

abbreviation FabricRulePriority :: int where
  "FabricRulePriority \<equiv> 20000"

abbreviation DomainRulePriority :: int where
  "DomainRulePriority \<equiv> 20001"

section \<open>Links\<close>

record Bootstrap =
  bs_InterfaceName :: string
  bs_ListenPort :: int
  bs_LocalAddress :: prefix
  bs_PresharedKey :: array32

definition DeriveBootstrap ::
  "parsers \<Rightarrow> primitives \<Rightarrow> bytes \<Rightarrow> array32 \<Rightarrow> array32 \<Rightarrow> NodeUID \<Rightarrow> PeerSpec \<Rightarrow> Bootstrap result" where
  "DeriveBootstrap ps pm fabricPSK localPrivate peerPublic localUID peer =
    (let localPublic = PublicKeyOf ps localPrivate in
     if localPublic = peerPublic then Inl (ErrNew ''peer WireGuard public key equals local public key'')
     else
       (case ParseUUID ps (nu_UUID localUID) of
          None \<Rightarrow> Inl (ErrNew ''local Node UUID is invalid'')
        | Some uid \<Rightarrow>
          if uid = 0 then Inl (ErrNew ''local Node UUID is invalid'')
          else
            let interfaceName = (if ps_InterfaceName peer \<noteq> [] then ps_InterfaceName peer
                  else InterfaceName ps localUID (ps_Name peer) (PublicKey peer))
            in bind_r (deriveWGLinkPSK (pm_hkdf pm) fabricPSK localPublic peerPublic) (\<lambda>key.
                 Inr \<lparr>bs_InterfaceName = interfaceName, bs_ListenPort = Port (Choice (ps_ListenPorts peer)),
                      bs_LocalAddress = DeriveLinkLocal (pm_mac pm) fabricPSK uid (ascii interfaceName),
                      bs_PresharedKey = key\<rparr>)))"

text \<open>The loop over the peers: \<open>ports\<close> holds the listen ports seen with their peers.\<close>

fun build_links ::
  "parsers \<Rightarrow> primitives \<Rightarrow> NodeSpec \<Rightarrow> bytes \<Rightarrow> array32 \<Rightarrow> array16 \<Rightarrow> PeerSpec list \<Rightarrow> (int \<times> string) list
    \<Rightarrow> LinkPlan list result" where
  "build_links ps pm s psk privateKey uid [] ports = Inr []"
| "build_links ps pm s psk privateKey uid (peer # peers) ports =
    (case ParseKey ps (PublicKey peer) of
       None \<Rightarrow> Inl (ErrNew ''peer public key'')
     | Some peerKey \<Rightarrow>
       bind_r (DeriveBootstrap ps pm psk privateKey peerKey (nd_UID (sp_Node s)) peer) (\<lambda>b.
         if bs_ListenPort b \<noteq> 0 \<and> map_of ports (bs_ListenPort b) \<noteq> None
         then Inl (ErrNew ''peers use the same listen port; set different listen_ports'')
         else
           let item = \<lparr>WaitingPort = False, lp_Ports = PeerPorts peer, Probing = False, ReceiveOnly = False,
                 lp_PeerName = ps_Name peer, lp_InterfaceName = bs_InterfaceName b,
                 OwnerAlias = ''velvet:link:'' @ pm_uuid pm uid @ '':'' @ ps_Name peer,
                 lp_PrivateKey = privateKey, PeerPublicKey = peerKey, PresharedKey = bs_PresharedKey b,
                 ListenPort = Port (PeerPorts peer), lp_Endpoints = Endpoints peer,
                 Keepalive = map_option (\<lambda>k. k * 1000000000) (PersistentKeepaliveSeconds peer),
                 BootstrapAddress = bs_LocalAddress b, LinkOverrides = LinkAddresses peer\<rparr>
           in bind_r (build_links ps pm s psk privateKey uid peers ((bs_ListenPort b, ps_Name peer) # ports)) (\<lambda>rest.
                Inr (item # rest))))"

section \<open>Routing\<close>

datatype emission = AddRoute RoutePlan | AddRule RulePlan

definition route_key :: "RoutePlan \<Rightarrow> int \<times> prefix \<times> RouteType \<times> u32" where
  "route_key r = (rp_TableID r, rp_Prefix r, rp_Type r, (case rp_Metric r of None \<Rightarrow> 0 | Some m \<Rightarrow> m))"

definition rule_key :: "RulePlan \<Rightarrow> int \<times> prefix \<times> prefix" where
  "rule_key r = (ru_TableID r, ru_Source r, ru_Destination r)"

fun emit :: "emission \<Rightarrow> RoutePlan list \<times> RulePlan list \<Rightarrow> RoutePlan list \<times> RulePlan list" where
  "emit (AddRoute r) (routes, rules) =
    (if route_key r \<in> route_key ` set routes then (routes, rules) else (routes @ [r], rules))"
| "emit (AddRule r) (routes, rules) =
    (if rule_key r \<in> rule_key ` set rules then (routes, rules) else (routes, rules @ [r]))"

definition guard :: "int \<Rightarrow> prefix \<Rightarrow> emission" where
  "guard table p = AddRoute \<lparr>rp_TableID = table, rp_Prefix = p, rp_Type = RouteUnreachable, rp_PeerName = [],
     rp_InterfaceName = [], rp_Metric = Some UnreachableMetric\<rparr>"

definition rule :: "int \<Rightarrow> int \<Rightarrow> prefix \<Rightarrow> prefix \<Rightarrow> emission" where
  "rule table priority source destination = AddRule \<lparr>ru_TableID = table, ru_Priority = priority,
     ru_Source = source, ru_Destination = destination\<rparr>"

definition MustParsePrefix :: "parsers \<Rightarrow> string \<Rightarrow> prefix result" where
  "MustParsePrefix ps raw = (case ParsePrefix ps raw of None \<Rightarrow> Inl (Panic ''netip.MustParsePrefix'') | Some p \<Rightarrow> Inr p)"

fun map_r :: "('a \<Rightarrow> 'b result) \<Rightarrow> 'a list \<Rightarrow> 'b list result" where
  "map_r f [] = Inr []"
| "map_r f (x # xs) = bind_r (f x) (\<lambda>y. bind_r (map_r f xs) (\<lambda>ys. Inr (y # ys)))"

definition sourcePrefixes :: "parsers \<Rightarrow> DomainSpec \<Rightarrow> prefix list result" where
  "sourcePrefixes ps d = map_r (MustParsePrefix ps) (SourcePrefixes d)"

fun canonical_sources :: "parsers \<Rightarrow> string list \<Rightarrow> bool list \<Rightarrow> prefix list" where
  "canonical_sources ps [] seen = []"
| "canonical_sources ps (raw # raws) seen =
    (let prefix = (case ParsePrefix ps raw of None \<Rightarrow> NoPrefix | Some p \<Rightarrow> p);
         family = Is4 (pf_Addr prefix)
     in if family \<in> set seen then canonical_sources ps raws seen
        else prefix # canonical_sources ps raws (family # seen))"

definition canonicalSources :: "parsers \<Rightarrow> string list \<Rightarrow> prefix list" where
  "canonicalSources ps raws = canonical_sources ps raws []"

definition peer_route :: "parsers \<Rightarrow> int \<Rightarrow> string \<Rightarrow> LinkPlan \<Rightarrow> Route \<Rightarrow> RoutePlan result" where
  "peer_route ps tableID peerName link item =
    (case ParsePrefix ps (rt_Prefix item) of
       None \<Rightarrow> Inl (ErrNew ''route prefix'')
     | Some p \<Rightarrow> Inr \<lparr>rp_TableID = tableID, rp_Prefix = p, rp_Type = RouteViaPeer, rp_PeerName = peerName,
                    rp_InterfaceName = lp_InterfaceName link, rp_Metric = rt_Metric item\<rparr>)"

text \<open>
  The routes through peers in the order they are handed on; an error discards them all, because
  it ends the compilation.
\<close>

definition compilePeerRoutes ::
  "parsers \<Rightarrow> Routes \<Rightarrow> int \<Rightarrow> (string \<times> LinkPlan) list \<Rightarrow> RoutePlan list result" where
  "compilePeerRoutes ps routes tableID links =
    bind_r (map_r (\<lambda>peerName.
      case map_of links peerName of
        None \<Rightarrow> Inl (ErrNew ''route references unknown peer'')
      | Some link \<Rightarrow> map_r (peer_route ps tableID peerName link) (the (map_of routes peerName))) (sorted_keys routes))
      (\<lambda>rss. Inr (concat rss))"

definition throw_routes :: "parsers \<Rightarrow> int \<Rightarrow> DomainSpec \<Rightarrow> Announcement \<Rightarrow> emission list result" where
  "throw_routes ps fabricTable domain a =
    bind_r (MustParsePrefix ps (an_Prefix a)) (\<lambda>p.
      let throw = \<lparr>rp_TableID = SourceTableID domain, rp_Prefix = p, rp_Type = RouteThrow, rp_PeerName = [],
                   rp_InterfaceName = [], rp_Metric = None\<rparr>
      in Inr (AddRoute throw # (if IsAccessPrefix ps domain p then [AddRoute (throw\<lparr>rp_TableID := fabricTable\<rparr>)] else [])))"

definition zero_prefix :: "prefix \<Rightarrow> prefix" where
  "zero_prefix canonical = (if Is4 (pf_Addr canonical) then Prefix (Addr4 0) 0 else Prefix (Addr6 0 []) 0)"

definition domain_emissions ::
  "parsers \<Rightarrow> int \<Rightarrow> (string \<times> LinkPlan) list \<Rightarrow> DomainSpec \<Rightarrow> emission list result" where
  "domain_emissions ps fabricTable links domain =
    bind_r (sourcePrefixes ps domain) (\<lambda>sources.
    bind_r (compilePeerRoutes ps (d_StaticRoutes domain) (SourceTableID domain) links) (\<lambda>routes.
    bind_r (map_r (throw_routes ps fabricTable domain) (Announcements domain)) (\<lambda>throws.
      Inr (concat (map (\<lambda>p. [rule (SourceTableID domain) DomainRulePriority p NoPrefix,
                             rule fabricTable FabricRulePriority NoPrefix p,
                             guard fabricTable p, guard (SourceTableID domain) p]) sources)
           @ map (\<lambda>c. guard (SourceTableID domain) (zero_prefix c)) (canonicalSources ps (SourcePrefixes domain))
           @ concat (map (\<lambda>r. AddRoute r # (if IsAccessPrefix ps domain (rp_Prefix r)
                                           then [AddRoute (r\<lparr>rp_TableID := fabricTable\<rparr>)] else [])) routes)
           @ concat throws))))"

definition sorted_domains :: "NodeSpec \<Rightarrow> DomainSpec list" where
  "sorted_domains s = map (\<lambda>name. the (map_of (Domains s) name)) (sorted_keys (Domains s))"

definition routing_emissions ::
  "parsers \<Rightarrow> NodeSpec \<Rightarrow> int \<Rightarrow> (string \<times> LinkPlan) list \<Rightarrow> emission list result" where
  "routing_emissions ps s fabricTable links =
    (let tables = fabricTable # map SourceTableID (sorted_domains s) in
     bind_r (compilePeerRoutes ps (f_StaticRoutes (Fabric s)) fabricTable links) (\<lambda>fabricRoutes.
     bind_r (map_r (domain_emissions ps fabricTable links) (sorted_domains s)) (\<lambda>domains.
       Inr (concat (map (\<lambda>pool. rule fabricTable FabricRulePriority NoPrefix pool # map (\<lambda>t. guard t pool) tables)
              (InfrastructurePrefixes ps (Fabric s)))
            @ concat (map (\<lambda>r. map (\<lambda>t. AddRoute (r\<lparr>rp_TableID := t\<rparr>)) tables) fabricRoutes)
            @ concat domains))))"

definition compileRouting ::
  "parsers \<Rightarrow> NodeSpec \<Rightarrow> int \<Rightarrow> (string \<times> LinkPlan) list \<Rightarrow> (RoutePlan list \<times> RulePlan list) result" where
  "compileRouting ps s fabricTable links =
    bind_r (routing_emissions ps s fabricTable links) (\<lambda>es. Inr (fold emit es ([], [])))"

section \<open>Babel\<close>

definition announcementMetric :: "Announcement \<Rightarrow> u16" where
  "announcementMetric a = (case an_Metric a of None \<Rightarrow> 0 | Some m \<Rightarrow> ucast m)"

definition ordinary_prefixes :: "parsers \<Rightarrow> NodeSpec \<Rightarrow> prefix list result" where
  "ordinary_prefixes ps s =
    bind_r (map_r (sourcePrefixes ps) (sorted_domains s)) (\<lambda>pss.
      Inr (InfrastructurePrefixes ps (Fabric s) @ concat pss))"

text \<open>One domain's part of the plan: its sources, views and origins.\<close>

definition babel_domain ::
  "parsers \<Rightarrow> FabricSpec \<Rightarrow> DomainSpec \<Rightarrow> (prefix list \<times> BabelView list \<times> BabelOrigin list) result" where
  "babel_domain ps f domain =
    bind_r (sourcePrefixes ps domain) (\<lambda>sources.
    bind_r (map_r (\<lambda>a. bind_r (MustParsePrefix ps (an_Prefix a)) (\<lambda>p. Inr (p, announcementMetric a))) (Announcements domain)) (\<lambda>as.
      let allowed = InfrastructurePrefixes ps f @ sources;
          canonicals = canonicalSources ps (SourcePrefixes domain);
          view = (\<lambda>c. \<lparr>ReturnPrefixes = filter (\<lambda>p. Is4 (pf_Addr p) = Is4 (pf_Addr c)) allowed,
                       bv_TableID = SourceTableID domain, bv_Source = c, RulePriority = DomainRulePriority\<rparr>);
          exits = concat (map (\<lambda>c. map (\<lambda>(p, m). \<lparr>bo_Destination = p, bo_Source = c, bo_Metric = m\<rparr>)
            (filter (\<lambda>(p, _). \<not> IsAccessPrefix ps domain p \<and> Is4 (pf_Addr p) = Is4 (pf_Addr c)) as)) canonicals);
          access = map (\<lambda>(p, m). \<lparr>bo_Destination = p, bo_Source = NoPrefix, bo_Metric = m\<rparr>)
            (filter (\<lambda>(p, _). IsAccessPrefix ps domain p) as)
      in Inr (canonicals, map view canonicals, exits @ access)))"

definition compileBabel :: "parsers \<Rightarrow> primitives \<Rightarrow> DesiredState \<Rightarrow> NodeSpec \<Rightarrow> BabelPlan result" where
  "compileBabel ps pm desired s =
    (let executable = (case Babel s of None \<Rightarrow> [] | Some b \<Rightarrow> Executable b);
         runtimeRoot = ''/run/velvet-babel/'' @ pm_uuid pm (ds_UUID desired);
         stateRoot = ''/var/lib/velvet/'' @ pm_uuid pm (ds_UUID desired)
     in bind_r (ordinary_prefixes ps s) (\<lambda>ordinary.
        bind_r (map_r (babel_domain ps (Fabric s)) (sorted_domains s)) (\<lambda>domains.
          Inr \<lparr>ServiceName = [], bp_Executable = (if executable = [] then ''babel-rs'' else executable),
               ConfigPath = stateRoot @ ''/babel-rs.toml'', ControlPath = runtimeRoot @ ''/babel-rs.ctl'',
               StatePath = stateRoot @ ''/babel-rs-state.toml'', Interfaces = [],
               Origins = \<lparr>bo_Destination = PrefixFrom (ds_LoopbackV6 desired) 128, bo_Source = NoPrefix, bo_Metric = 0\<rparr>
                 # concat (map (\<lambda>d. snd (snd d)) domains),
               Views = \<lparr>ReturnPrefixes = ordinary, bv_TableID = FabricTableID desired, bv_Source = NoPrefix, RulePriority = 0\<rparr>
                 # concat (map (\<lambda>d. fst (snd d)) domains),
               ImportPrefixes = ordinary, ImportSources = concat (map fst domains),
               Protocol = 203, DeviceOnly = True, ManageRules = False\<rparr>)))"

section \<open>The desired state\<close>

definition dynamic_plan :: "parsers \<Rightarrow> DynamicLinksSpec \<Rightarrow> DynamicLinksPlan result" where
  "dynamic_plan ps d =
    bind_r (map_r (MustParsePrefix ps) (AllowCandidatePrefixes d)) (\<lambda>prefixes.
      Inr \<lparr>dp_Mode = Mode d, dp_AllowCandidatePrefixes = prefixes,
           RecoveryTimeout = (case RecoveryTimeoutSeconds d of None \<Rightarrow> 1800000000000 | Some t \<Rightarrow> t * 1000000000)\<rparr>)"

definition option_r :: "('a \<Rightarrow> 'b result) \<Rightarrow> 'a option \<Rightarrow> 'b option result" where
  "option_r f x = (case x of None \<Rightarrow> Inr None | Some v \<Rightarrow> bind_r (f v) (\<lambda>y. Inr (Some y)))"

definition BuildDesiredState :: "parsers \<Rightarrow> primitives \<Rightarrow> NodeSpec \<Rightarrow> DesiredState result" where
  "BuildDesiredState ps pm s =
    (if Validate ps s \<noteq> [] then Inl (ErrNew ''invalid NodeSpec'')
     else
       (case parseInlineKey ps (PSK (Fabric s)) of
          None \<Rightarrow> Inl (ErrNew ''key must decode to 32 bytes'')
        | Some fabricPSK \<Rightarrow>
          bind_r (ParseFabricPrefixes ps (Fabric s)) (\<lambda>(link4, link6, loop6).
          case ParseKey ps (PrivateKey (sp_Node s)) of
            None \<Rightarrow> Inl (ErrNew ''parse node private key'')
          | Some privateKey \<Rightarrow>
            (case ParseUUID ps (nu_UUID (nd_UID (sp_Node s))) of
               None \<Rightarrow> Inl (Panic ''uuid.MustParse'')
             | Some uid \<Rightarrow>
               bind_r (DeriveLoopbackV6 (pm_mac pm) (ParseAddr ps) fabricPSK uid loop6 (LoopbackAddressV6 (sp_Node s))) (\<lambda>localLoop6.
               bind_r (option_r (dynamic_plan ps) (DynamicLinks s)) (\<lambda>dynamic.
               bind_r (build_links ps pm s fabricPSK privateKey uid (Peers s) []) (\<lambda>links.
               bind_r (compileRouting ps s (EffectiveRoutingTableID (Fabric s)) (map (\<lambda>l. (lp_PeerName l, l)) (rev links))) (\<lambda>(routes, rules).
                 let desired = \<lparr>RetainedLinks = [], ds_Ports = DynamicPorts s, ds_Durable = EffectiveDurable (DynamicLinks s),
                       ds_UID = nd_UID (sp_Node s), ds_UUID = uid, FabricPSK = fabricPSK,
                       LinkPoolV4 = link4, LinkPoolV6 = link6, LoopbackPoolV6 = loop6,
                       ds_LoopbackV6 = localLoop6, ds_VFPPort = EffectiveVFPPort (Fabric s),
                       FabricTableID = EffectiveRoutingTableID (Fabric s),
                       LoopbackOwnerAlias = ''velvet:loopback:'' @ pm_uuid pm uid,
                       Forwarding = (f_StaticRoutes (Fabric s) \<noteq> [] \<or> Domains s \<noteq> [] \<or> IsEnabled (Babel s)),
                       Links = links, ds_Routes = routes, ds_Rules = rules, ds_Babel = None,
                       ds_DynamicLinks = dynamic, ds_PrivateKey = privateKey\<rparr>
                 in if IsEnabled (Babel s)
                    then bind_r (compileBabel ps pm desired s) (\<lambda>b. Inr (desired\<lparr>ds_Babel := Some b\<rparr>))
                    else Inr desired))))))))"

section \<open>Removal of duplicates\<close>

lemma map_r_ok: "(\<And>x. x \<in> set xs \<Longrightarrow> \<exists>y. f x = Inr y) \<Longrightarrow> \<exists>ys. map_r f xs = Inr ys"
proof (induction xs)
  case (Cons x xs)
  from Cons.prems[of x] obtain y where "f x = Inr y" by auto
  moreover from Cons obtain ys where "map_r f xs = Inr ys" by auto
  ultimately show ?case by simp
qed simp

lemma map_r_set: "map_r f xs = Inr ys \<Longrightarrow> set ys = {y. \<exists>x \<in> set xs. f x = Inr y}"
  by (induction xs arbitrary: ys) auto

definition routes_of :: "emission list \<Rightarrow> RoutePlan set" where
  "routes_of es = {r. AddRoute r \<in> set es}"

lemma routes_of_simps [simp]:
  "routes_of [] = {}" "routes_of (AddRoute r # es) = insert r (routes_of es)" "routes_of (AddRule u # es) = routes_of es"
  "routes_of (xs @ ys) = routes_of xs \<union> routes_of ys" "routes_of (concat ess) = (\<Union>es \<in> set ess. routes_of es)"
  by (auto simp: routes_of_def)

lemma routes_of_map: "routes_of (map f xs) = {r. \<exists>x \<in> set xs. f x = AddRoute r}"
  unfolding routes_of_def by (auto intro: rev_image_eqI)

lemma emit_keys:
  assumes "fold emit es (routes, rules) = (routes', rules')"
    "distinct (map route_key routes)" "distinct (map rule_key rules)"
  shows "distinct (map route_key routes') \<and> distinct (map rule_key rules')"
  using assms
proof (induction es arbitrary: routes rules)
  case (Cons e es)
  obtain r1 u1 where one: "emit e (routes, rules) = (r1, u1)" by fastforce
  then have "distinct (map route_key r1)" "distinct (map rule_key u1)"
    using Cons.prems(2,3) by (cases e; auto split: if_splits)+
  moreover have "fold emit es (r1, u1) = (routes', rules')" using Cons.prems(1) one by simp
  ultimately show ?case using Cons.IH by blast
qed simp

lemma emit_routes:
  assumes "fold emit es (routes, rules) = (routes', rules')"
  shows "set routes \<subseteq> set routes' \<and> set routes' \<subseteq> set routes \<union> routes_of es
    \<and> route_key ` set routes' = route_key ` (set routes \<union> routes_of es)"
  using assms
proof (induction es arbitrary: routes rules)
  case (Cons e es)
  obtain r1 u1 where one: "emit e (routes, rules) = (r1, u1)" by fastforce
  with Cons.prems have "fold emit es (r1, u1) = (routes', rules')" by simp
  note ih = Cons.IH[OF this]
  have "set routes \<subseteq> set r1 \<and> set r1 \<subseteq> set routes \<union> routes_of [e] \<and> route_key ` set r1 = route_key ` (set routes \<union> routes_of [e])"
    using one by (cases e) (auto split: if_splits)
  moreover have "routes_of (e # es) = routes_of [e] \<union> routes_of es" using routes_of_simps(4)[of "[e]" es] by simp
  ultimately show ?case using ih by (simp add: image_Un) blast
qed simp

section \<open>Routes\<close>

lemma parseCanonical_Some: "parseCanonicalPrefix ps raw = Some p \<Longrightarrow> ParsePrefix ps raw = Some p"
  by (auto simp: parseCanonicalPrefix_def split: option.splits if_splits)

lemma compilePeerRoutes_total:
  assumes "routes_ok ps names routes" "set names \<subseteq> fst ` set links"
  shows "\<exists>rs. compilePeerRoutes ps routes t links = Inr rs"
proof -
  have "\<exists>y. (case map_of links name of None \<Rightarrow> Inl (ErrNew ''route references unknown peer'')
      | Some link \<Rightarrow> map_r (peer_route ps t name link) (the (map_of routes name))) = Inr y"
    if n: "name \<in> set (sorted_keys routes)" for name
  proof -
    from n assms obtain link where link: "map_of links name = Some link"
      unfolding routes_ok_def by (metis image_eqI map_of_eq_None_iff not_None_eq subsetD)
    have "\<exists>y. peer_route ps t name link item = Inr y" if "item \<in> set (the (map_of routes name))" for item
      using assms(1) n that unfolding routes_ok_def by (fastforce simp: peer_route_def parseCanonicalPrefix_def split: option.splits)
    from map_r_ok[OF this] link show ?thesis by simp
  qed
  from map_r_ok[OF this] show ?thesis unfolding compilePeerRoutes_def by auto
qed

lemma compilePeerRoutes_routes:
  assumes "compilePeerRoutes ps routes t links = Inr rs" "r \<in> set rs" "routes_ok ps names routes"
  shows "rp_TableID r = t \<and> rp_Type r = RouteViaPeer \<and> rp_Prefix r \<in> route_prefixes ps routes"
proof -
  from assms(1,2) obtain name link item where n: "name \<in> set (sorted_keys routes)" "map_of links name = Some link"
    "item \<in> set (the (map_of routes name))" "peer_route ps t name link item = Inr r"
    unfolding compilePeerRoutes_def by (auto dest!: map_r_set split: option.splits)
  from n(1,3) assms(3) obtain p where p: "parseCanonicalPrefix ps (rt_Prefix item) = Some p" unfolding routes_ok_def by fastforce
  with n parseCanonical_Some[OF p] have "rp_Prefix r = p \<and> rp_TableID r = t \<and> rp_Type r = RouteViaPeer"
    by (auto simp: peer_route_def)
  with n p show ?thesis unfolding route_prefixes_def by blast
qed

definition announced :: "parsers \<Rightarrow> DomainSpec \<Rightarrow> prefix set" where
  "announced ps d = {p. \<exists>a \<in> set (Announcements d). parseCanonicalPrefix ps (an_Prefix a) = Some p}"

text \<open>What a domain says about its own destinations.\<close>

definition declared :: "parsers \<Rightarrow> DomainSpec \<Rightarrow> prefix set" where
  "declared ps d = route_prefixes ps (d_StaticRoutes d) \<union> announced ps d"

lemma MustParse_canonical: "parseCanonicalPrefix ps raw = Some p \<Longrightarrow> MustParsePrefix ps raw = Inr p"
  by (simp add: MustParsePrefix_def parseCanonical_Some)

lemma sourcePrefixes_ok:
  assumes "sources_ok ps (SourcePrefixes d)"
  shows "\<exists>ss. sourcePrefixes ps d = Inr ss"
  unfolding sourcePrefixes_def by (rule map_r_ok) (use assms in \<open>auto simp: sources_ok_def dest: MustParse_canonical\<close>)

lemma throw_routes_ok:
  assumes "announcements_ok ps (Announcements d)" "a \<in> set (Announcements d)"
  shows "\<exists>p es. parseCanonicalPrefix ps (an_Prefix a) = Some p \<and> throw_routes ps ft d a = Inr es
    \<and> (\<forall>r \<in> routes_of es. rp_Type r = RouteThrow \<and> rp_Prefix r = p
        \<and> (rp_TableID r = SourceTableID d \<or> rp_TableID r = ft \<and> IsAccessPrefix ps d p))"
proof -
  from assms obtain p where p: "parseCanonicalPrefix ps (an_Prefix a) = Some p" by (auto simp: announcements_ok_def)
  then show ?thesis by (auto simp: throw_routes_def MustParse_canonical Let_def)
qed

definition confined_in :: "parsers \<Rightarrow> int \<Rightarrow> DomainSpec \<Rightarrow> RoutePlan \<Rightarrow> bool" where
  "confined_in ps ft d r = (rp_Type r = RouteUnreachable \<or>
     rp_Prefix r \<in> declared ps d \<and> (rp_TableID r = SourceTableID d \<or> rp_TableID r = ft \<and> IsAccessPrefix ps d (rp_Prefix r)))"

lemma domain_emissions_ok:
  assumes "domain_ok ps names d" "set names \<subseteq> fst ` set links"
  shows "\<exists>es. domain_emissions ps ft links d = Inr es \<and> (\<forall>r \<in> routes_of es. confined_in ps ft d r)"
proof -
  from assms(1) have ok: "sources_ok ps (SourcePrefixes d)" "routes_ok ps names (d_StaticRoutes d)" "announcements_ok ps (Announcements d)"
    by (simp_all add: domain_ok_def)
  obtain ss where ss: "sourcePrefixes ps d = Inr ss" using sourcePrefixes_ok[OF ok(1)] by blast
  obtain rs where rs: "compilePeerRoutes ps (d_StaticRoutes d) (SourceTableID d) links = Inr rs"
    using compilePeerRoutes_total[OF ok(2) assms(2)] by blast
  obtain ts where ts: "map_r (throw_routes ps ft d) (Announcements d) = Inr ts"
    using map_r_ok[of "Announcements d" "throw_routes ps ft d"] throw_routes_ok[OF ok(3)] by blast
  have throw: "confined_in ps ft d r" if "es \<in> set ts" "r \<in> routes_of es" for es r
  proof -
    from that(1) map_r_set[OF ts] obtain a where a: "a \<in> set (Announcements d)" "throw_routes ps ft d a = Inr es" by auto
    from throw_routes_ok[OF ok(3) a(1), of ft] a that(2) show ?thesis
      by (auto simp: confined_in_def declared_def announced_def)
  qed
  have via: "confined_in ps ft d r" "IsAccessPrefix ps d (rp_Prefix r) \<longrightarrow> confined_in ps ft d (r\<lparr>rp_TableID := ft\<rparr>)" if "r \<in> set rs" for r
    using compilePeerRoutes_routes[OF rs that ok(2)] by (simp_all add: confined_in_def declared_def)
  have guards: "confined_in ps ft d r" if "guard t p = AddRoute r" for t p r
    using that by (auto simp: guard_def confined_in_def)
  have copies: "confined_in ps ft d r"
    if "x \<in> set rs" "r \<in> routes_of (AddRoute x # (if IsAccessPrefix ps d (rp_Prefix x) then [AddRoute (x\<lparr>rp_TableID := ft\<rparr>)] else []))" for x r
    using via[OF that(1)] that(2) by (auto split: if_splits)
  have prefixes: "confined_in ps ft d r"
    if "r \<in> routes_of [rule t k p q, rule t' k' p' q', guard u v, guard u' v']" for t k p q t' k' p' q' u v u' v' r
    using that guards by (auto simp: routes_of_def rule_def)
  let ?es = "concat (map (\<lambda>p. [rule (SourceTableID d) DomainRulePriority p NoPrefix, rule ft FabricRulePriority NoPrefix p,
        guard ft p, guard (SourceTableID d) p]) ss)
      @ map (\<lambda>c. guard (SourceTableID d) (zero_prefix c)) (canonicalSources ps (SourcePrefixes d))
      @ concat (map (\<lambda>r. AddRoute r # (if IsAccessPrefix ps d (rp_Prefix r) then [AddRoute (r\<lparr>rp_TableID := ft\<rparr>)] else [])) rs)
      @ concat ts"
  have "confined_in ps ft d r" if "r \<in> routes_of ?es" for r
    using that throw copies prefixes guards unfolding routes_of_simps(4,5) routes_of_map by auto
  moreover have "domain_emissions ps ft links d = Inr ?es" by (simp add: domain_emissions_def ss rs ts)
  ultimately show ?thesis by blast
qed

section \<open>The routing plan\<close>

text \<open>
  The confinement of a route: it is a guard, or it leads to the infrastructure pools and serves
  every table, or one domain declares it, and then it is in that domain's table or, for a prefix
  inside the domain's own sources, in the fabric table.
\<close>

definition confined :: "parsers \<Rightarrow> NodeSpec \<Rightarrow> RoutePlan \<Rightarrow> bool" where
  "confined ps s r = (rp_Type r = RouteUnreachable
     \<or> prefixContained (rp_Prefix r) (InfrastructurePrefixes ps (Fabric s))
     \<or> (\<exists>d \<in> set (sorted_domains s). confined_in ps (EffectiveRoutingTableID (Fabric s)) d r))"

lemma compileRouting_ok:
  assumes "Validate ps s = []" "set (map ps_Name (Peers s)) \<subseteq> fst ` set links"
  shows "\<exists>routes rules. compileRouting ps s (EffectiveRoutingTableID (Fabric s)) links = Inr (routes, rules)
    \<and> distinct (map route_key routes) \<and> distinct (map rule_key rules) \<and> (\<forall>r \<in> set routes. confined ps s r)"
proof -
  let ?ft = "EffectiveRoutingTableID (Fabric s)"
  let ?names = "rev (map ps_Name (Peers s))"
  note v = Validate_routing[OF assms(1)]
  have names: "set ?names \<subseteq> fst ` set links" using assms(2) by simp
  obtain frs where frs: "compilePeerRoutes ps (f_StaticRoutes (Fabric s)) ?ft links = Inr frs"
    using compilePeerRoutes_total[OF v(1) names] by blast
  have dom: "\<exists>es. domain_emissions ps ?ft links d = Inr es \<and> (\<forall>r \<in> routes_of es. confined_in ps ?ft d r)"
    if "d \<in> set (sorted_domains s)" for d
    using that v(3) domain_emissions_ok[OF _ names] by (auto simp: sorted_domains_def)
  then obtain des where des: "map_r (domain_emissions ps ?ft links) (sorted_domains s) = Inr des"
    using map_r_ok[of "sorted_domains s" "domain_emissions ps ?ft links"] by blast
  define tables where "tables = ?ft # map SourceTableID (sorted_domains s)"
  define es where "es = concat (map (\<lambda>pool. rule ?ft FabricRulePriority NoPrefix pool # map (\<lambda>t. guard t pool) tables)
              (InfrastructurePrefixes ps (Fabric s)))
            @ concat (map (\<lambda>r. map (\<lambda>t. AddRoute (r\<lparr>rp_TableID := t\<rparr>)) tables) frs) @ concat des"
  have em: "routing_emissions ps s ?ft links = Inr es"
    by (simp add: routing_emissions_def frs des es_def tables_def Let_def)
  have all: "confined ps s r" if "r \<in> routes_of es" for r
  proof -
    from that consider (grd) "rp_Type r = RouteUnreachable" | (fab) x t where "x \<in> set frs" "r = x\<lparr>rp_TableID := t\<rparr>"
      | (dom) d where "d \<in> set des" "r \<in> routes_of d"
      unfolding es_def by (auto simp: routes_of_map guard_def rule_def)
    then show ?thesis
    proof cases
      case fab
      with compilePeerRoutes_routes[OF frs fab(1) v(1)] v(2) show ?thesis by (simp add: confined_def)
    next
      case (dom y)
      with map_r_set[OF des] obtain d where "d \<in> set (sorted_domains s)" "domain_emissions ps ?ft links d = Inr y" by auto
      with dom \<open>\<And>d. d \<in> set (sorted_domains s) \<Longrightarrow> _\<close> show ?thesis unfolding confined_def by (metis sum.inject(2))
    qed (simp add: confined_def)
  qed
  obtain routes rules where fold: "fold emit es ([], []) = (routes, rules)" by fastforce
  with em have "compileRouting ps s ?ft links = Inr (routes, rules)" by (simp add: compileRouting_def)
  with emit_keys[OF fold] emit_routes[OF fold] all show ?thesis by auto
qed

definition guarded :: "RoutePlan list \<Rightarrow> int \<Rightarrow> prefix \<Rightarrow> bool" where
  "guarded routes t p = (\<exists>r \<in> set routes. rp_TableID r = t \<and> rp_Prefix r = p \<and> rp_Type r = RouteUnreachable
     \<and> rp_Metric r = Some UnreachableMetric)"

lemma emitted_guard:
  assumes "fold emit es ([], []) = (routes, rules)" "guard t p \<in> set es"
  shows "guarded routes t p"
proof -
  obtain r where r: "guard t p = AddRoute r" "route_key r = (t, p, RouteUnreachable, UnreachableMetric)"
    by (simp add: guard_def route_key_def)
  with assms(2) have "r \<in> routes_of es" by (simp add: routes_of_def)
  with emit_routes[OF assms(1)] have "route_key r \<in> route_key ` set routes" by simp
  then obtain x where "x \<in> set routes" "route_key x = (t, p, RouteUnreachable, UnreachableMetric)" using r(2) by auto
  moreover from this(2) have "rp_Metric x = Some UnreachableMetric" by (cases "rp_Metric x") (auto simp: route_key_def)
  ultimately show ?thesis by (auto simp: guarded_def route_key_def)
qed

lemma compileRouting_guards:
  assumes "compileRouting ps s ft links = Inr (routes, rules)"
  shows "\<forall>pool \<in> set (InfrastructurePrefixes ps (Fabric s)). \<forall>t \<in> insert ft (SourceTableID ` set (sorted_domains s)). guarded routes t pool"
    "\<forall>d \<in> set (sorted_domains s). \<exists>ss. sourcePrefixes ps d = Inr ss
       \<and> (\<forall>p \<in> set ss. guarded routes ft p \<and> guarded routes (SourceTableID d) p)
       \<and> (\<forall>c \<in> set (canonicalSources ps (SourcePrefixes d)). guarded routes (SourceTableID d) (zero_prefix c))"
proof -
  from assms obtain frs des es where frs: "compilePeerRoutes ps (f_StaticRoutes (Fabric s)) ft links = Inr frs"
    and des: "map_r (domain_emissions ps ft links) (sorted_domains s) = Inr des"
    and es: "es = concat (map (\<lambda>pool. rule ft FabricRulePriority NoPrefix pool # map (\<lambda>t. guard t pool) (ft # map SourceTableID (sorted_domains s)))
              (InfrastructurePrefixes ps (Fabric s)))
            @ concat (map (\<lambda>r. map (\<lambda>t. AddRoute (r\<lparr>rp_TableID := t\<rparr>)) (ft # map SourceTableID (sorted_domains s))) frs) @ concat des"
    and fold: "fold emit es ([], []) = (routes, rules)"
    by (auto simp: compileRouting_def routing_emissions_def Let_def)
  show "\<forall>pool \<in> set (InfrastructurePrefixes ps (Fabric s)). \<forall>t \<in> insert ft (SourceTableID ` set (sorted_domains s)). guarded routes t pool"
  proof (intro ballI emitted_guard[OF fold])
    fix pool t assume "pool \<in> set (InfrastructurePrefixes ps (Fabric s))" "t \<in> insert ft (SourceTableID ` set (sorted_domains s))"
    then show "guard t pool \<in> set es" unfolding es by auto
  qed
  show "\<forall>d \<in> set (sorted_domains s). \<exists>ss. sourcePrefixes ps d = Inr ss
       \<and> (\<forall>p \<in> set ss. guarded routes ft p \<and> guarded routes (SourceTableID d) p)
       \<and> (\<forall>c \<in> set (canonicalSources ps (SourcePrefixes d)). guarded routes (SourceTableID d) (zero_prefix c))"
  proof
    fix d assume d: "d \<in> set (sorted_domains s)"
    have "\<exists>y. domain_emissions ps ft links d = Inr y \<and> y \<in> set des"
    proof -
      have "map_r f xs = Inr ys \<Longrightarrow> x \<in> set xs \<Longrightarrow> \<exists>y. f x = Inr y \<and> y \<in> set ys" for f :: "DomainSpec \<Rightarrow> emission list result" and xs ys x
        by (induction xs arbitrary: ys) auto
      from this[OF des d] show ?thesis .
    qed
    then obtain y ss where y: "domain_emissions ps ft links d = Inr y" "y \<in> set des" and ss: "sourcePrefixes ps d = Inr ss"
      by (auto simp: domain_emissions_def)
    from y ss have "guard ft p \<in> set y \<and> guard (SourceTableID d) p \<in> set y" if "p \<in> set ss" for p
      using that by (auto simp: domain_emissions_def)
    moreover from y ss have "guard (SourceTableID d) (zero_prefix c) \<in> set y" if "c \<in> set (canonicalSources ps (SourcePrefixes d))" for c
      using that by (auto simp: domain_emissions_def)
    moreover have "set y \<subseteq> set es" using y(2) by (auto simp: es)
    ultimately show "\<exists>ss. sourcePrefixes ps d = Inr ss
       \<and> (\<forall>p \<in> set ss. guarded routes ft p \<and> guarded routes (SourceTableID d) p)
       \<and> (\<forall>c \<in> set (canonicalSources ps (SourcePrefixes d)). guarded routes (SourceTableID d) (zero_prefix c))"
      using ss emitted_guard[OF fold] by blast
  qed
qed

section \<open>The built state\<close>

lemma build_links_names:
  "build_links ps pm s psk key uid peers ports = Inr ls \<Longrightarrow> map lp_PeerName ls = map ps_Name peers"
proof (induction peers arbitrary: ports ls)
  case (Cons peer peers)
  from Cons.prems show ?case by (auto simp: Let_def split: option.splits if_splits dest: Cons.IH)
qed simp

lemma BuildDesiredState_cases:
  assumes "BuildDesiredState ps pm s = Inr d"
  obtains links where "Validate ps s = []" "FabricTableID d = EffectiveRoutingTableID (Fabric s)"
    "set (map ps_Name (Peers s)) \<subseteq> fst ` set (links :: (string \<times> LinkPlan) list)"
    "compileRouting ps s (FabricTableID d) links = Inr (ds_Routes d, ds_Rules d)"
    "\<forall>b. ds_Babel d = Some b \<longrightarrow> (\<exists>d'. ds_LoopbackV6 d' = ds_LoopbackV6 d \<and> compileBabel ps pm d' s = Inr b)"
    "IsEnabled (Babel s) \<longrightarrow> ds_Babel d \<noteq> None"
proof -
  from assms obtain psk l4 l6 lo key uid loop dyn links routes rules where
    v: "Validate ps s = []" and b: "build_links ps pm s psk key uid (Peers s) [] = Inr links"
    and c: "compileRouting ps s (EffectiveRoutingTableID (Fabric s)) (map (\<lambda>l. (lp_PeerName l, l)) (rev links)) = Inr (routes, rules)"
    and d: "FabricTableID d = EffectiveRoutingTableID (Fabric s)" "ds_Routes d = routes" "ds_Rules d = rules"
    and bab: "\<forall>b. ds_Babel d = Some b \<longrightarrow> (\<exists>d'. ds_LoopbackV6 d' = ds_LoopbackV6 d \<and> compileBabel ps pm d' s = Inr b)"
    and en: "IsEnabled (Babel s) \<longrightarrow> ds_Babel d \<noteq> None"
    unfolding BuildDesiredState_def Let_def
    by (fastforce split: if_splits option.splits prod.splits)
  have "set (map ps_Name (Peers s)) \<subseteq> fst ` set (map (\<lambda>l. (lp_PeerName l, l)) (rev links))"
    unfolding build_links_names[OF b, symmetric] by (simp add: image_image)
  then show thesis by (rule that[OF v d(1)]) (use c d bab en in simp_all)
qed

section \<open>Totality\<close>

lemma build_links_total:
  assumes "\<forall>peer \<in> set peers. \<exists>k. ParseKey ps (PublicKey peer) = Some k \<and> k \<noteq> PublicKeyOf ps own"
    "ParseUUID ps (nu_UUID (nd_UID (sp_Node s))) = Some u" "u \<noteq> 0"
    "\<forall>k i. \<exists>stream. pm_hkdf pm k i = Inr stream \<and> 32 \<le> length stream"
    "distinct (fixed_ports peers)" "set (fixed_ports peers) \<inter> fst ` set ports = {}"
  shows "\<exists>ls. build_links ps pm s psk own uid peers ports = Inr ls"
  using assms(1,5,6)
proof (induction peers arbitrary: ports)
  case (Cons peer peers)
  from Cons.prems(1) obtain k where k: "ParseKey ps (PublicKey peer) = Some k" "k \<noteq> PublicKeyOf ps own" by auto
  obtain key where "deriveWGLinkPSK (pm_hkdf pm) psk (PublicKeyOf ps own) k = Inr key"
  proof -
    have "\<exists>key. deriveWGLinkPSK (pm_hkdf pm) psk a b = Inr key" for a b
    proof -
      define info where "info = ascii ''velvet-fabric/wg-link-psk/v1'' @ [0]
        @ (case (if bytes_Compare (be_bytes 32 b) (be_bytes 32 a) < 0 then (b, a) else (a, b)) of (k0, k1) \<Rightarrow> be_bytes 32 k0 @ be_bytes 32 k1)"
      from assms(4) obtain stream where "pm_hkdf pm psk info = Inr stream" "32 \<le> length stream" by blast
      then show ?thesis by (auto simp: deriveWGLinkPSK_def info_def split: if_splits)
    qed
    then show ?thesis using that by blast
  qed
  then obtain b where b: "DeriveBootstrap ps pm psk own k (nd_UID (sp_Node s)) peer = Inr b" "bs_ListenPort b = Port (PeerPorts peer)"
    using assms(2,3) k(2) by (auto simp: DeriveBootstrap_def PeerPorts_def Let_def)
  have free: "bs_ListenPort b = 0 \<or> map_of ports (bs_ListenPort b) = None"
    using Cons.prems(3) b(2) by (auto simp: fixed_ports_def map_of_eq_None_iff)
  have "\<exists>ls. build_links ps pm s psk own uid peers ((bs_ListenPort b, ps_Name peer) # ports) = Inr ls"
    using Cons.IH[of "(bs_ListenPort b, ps_Name peer) # ports"] Cons.prems b(2) by (auto simp: fixed_ports_def split: if_splits)
  with k b free show ?case by (auto simp: Let_def)
qed simp

lemma parsePool_pool_ok:
  assumes "\<forall>raw p. ParsePrefix ps raw = Some p \<longrightarrow> PF_IsValid p" "parsePool ps raw False 128 = Inr p"
  shows "pool_ok p \<and> pf_Bits p \<le> BitLen (pf_Addr p)"
proof -
  from assms(2) have p: "ParsePrefix ps raw = Some p" "p = Masked p" by (auto simp: parsePool_def split: option.splits if_splits)
  with assms(1) have "PF_IsValid p" by blast
  with p(2) show ?thesis by (cases p rule: Masked.cases) (auto simp: pool_ok_def PF_IsValid_def PrefixFrom_def split: if_splits)
qed

lemma DeriveLoopbackV6_total:
  assumes "pool_ok pool" "override = [] \<or> parseAddr override \<noteq> None"
  shows "\<exists>a. DeriveLoopbackV6 mac parseAddr psk uid pool override = Inr a"
proof -
  have "\<exists>a. deriveHost pool e = Inr a" if "length e = 32" for e
    using fillBits_in_pool[OF assms(1) _ order.refl that] assms(1) by (auto simp: deriveHost_def pool_ok_def)
  then obtain a where "deriveHost pool (digest mac psk [ascii ''velvet-fabric/loopback/v6/v1'', be_bytes 16 uid]) = Inr a"
    using length_digest by blast
  with assms(2) show ?thesis by (auto simp: DeriveLoopbackV6_def)
qed

lemma compileBabel_total:
  assumes "\<forall>d \<in> set (sorted_domains s). domain_ok ps names d"
  shows "\<exists>b. compileBabel ps pm desired s = Inr b"
proof -
  have src: "\<exists>ss. sourcePrefixes ps d = Inr ss" if "d \<in> set (sorted_domains s)" for d
    using sourcePrefixes_ok assms that by (auto simp: domain_ok_def)
  have "\<exists>y. babel_domain ps (Fabric s) d = Inr y" if "d \<in> set (sorted_domains s)" for d
  proof -
    have "\<exists>y. bind_r (MustParsePrefix ps (an_Prefix a)) (\<lambda>p. Inr (p, announcementMetric a)) = Inr y" if "a \<in> set (Announcements d)" for a
      using assms \<open>d \<in> set (sorted_domains s)\<close> that by (fastforce simp: domain_ok_def announcements_ok_def dest: MustParse_canonical)
    from map_r_ok[OF this] src[OF that] show ?thesis by (auto simp: babel_domain_def Let_def)
  qed
  from map_r_ok[of "sorted_domains s" "babel_domain ps (Fabric s)"] this obtain domains where "map_r (babel_domain ps (Fabric s)) (sorted_domains s) = Inr domains" by blast
  moreover from map_r_ok[of "sorted_domains s" "sourcePrefixes ps"] src obtain pss where "map_r (sourcePrefixes ps) (sorted_domains s) = Inr pss" by blast
  ultimately show ?thesis by (simp add: compileBabel_def ordinary_prefixes_def Let_def)
qed

lemma BuildDesiredState_total:
  assumes v: "Validate ps s = []"
    and parse: "\<forall>raw p. ParsePrefix ps raw = Some p \<longrightarrow> PF_IsValid p"
    and hkdf: "\<forall>k i. \<exists>stream. pm_hkdf pm k i = Inr stream \<and> 32 \<le> length stream"
  shows "\<exists>d. BuildDesiredState ps pm s = Inr d"
proof -
  note parts = Validate_parts[OF v] and routing = Validate_routing[OF v]
  from parts(1) obtain psk l4 l6 lo where fab: "parseInlineKey ps (PSK (Fabric s)) = Some psk"
    "ParseFabricPrefixes ps (Fabric s) = Inr (l4, l6, lo)" "parsePool ps (LoopbackPrefixV6 (Fabric s)) False 128 = Inr lo"
    by (auto simp: validate_fabric_def ParseFabricPrefixes_def pool_problem_def Let_def split: if_splits sum.splits)
  from parts(1) have dyn: "\<exists>y. option_r (dynamic_plan ps) (DynamicLinks s) = Inr y"
  proof (cases "DynamicLinks s")
    case (Some dl)
    with parts(1) have "duplicate_prefixes ps 0 (AllowCandidatePrefixes dl) [] = []" by (simp add: validate_fabric_def validate_dynamic_def Let_def)
    from duplicate_prefixes_none[OF this] have "\<exists>ys. map_r (MustParsePrefix ps) (AllowCandidatePrefixes dl) = Inr ys"
      by (intro map_r_ok) (auto dest: MustParse_canonical)
    with Some show ?thesis by (auto simp: option_r_def dynamic_plan_def)
  qed (simp add: option_r_def)
  from parts(3) obtain own where own: "ParseKey ps (PrivateKey (sp_Node s)) = Some own"
    "\<forall>peer \<in> set (Peers s). \<exists>k. ParseKey ps (PublicKey peer) = Some k \<and> k \<noteq> PublicKeyOf ps own" by blast
  from parts(2) obtain uid where uid: "ParseUUID ps (nu_UUID (nd_UID (sp_Node s))) = Some uid" "uid \<noteq> 0"
    by (auto simp: validate_node_def Let_def split: option.splits if_splits)
  from parts(2) have "LoopbackAddressV6 (sp_Node s) = [] \<or> ParseAddr ps (LoopbackAddressV6 (sp_Node s)) \<noteq> None"
    by (auto simp: validate_node_def validate_loopback_def Let_def split: option.splits if_splits)
  from DeriveLoopbackV6_total[where parseAddr = "ParseAddr ps", OF _ this, of lo] parsePool_pool_ok[OF parse fab(3)] obtain loop where
    loop: "DeriveLoopbackV6 (pm_mac pm) (ParseAddr ps) psk uid lo (LoopbackAddressV6 (sp_Node s)) = Inr loop" by blast
  obtain links where links: "build_links ps pm s psk own uid (Peers s) [] = Inr links"
    using build_links_total[OF own(2) uid hkdf parts(4), of "[]"] by auto
  have "set (map ps_Name (Peers s)) \<subseteq> fst ` set (map (\<lambda>l. (lp_PeerName l, l)) (rev links))"
    unfolding build_links_names[OF links, symmetric] by (simp add: image_image)
  from compileRouting_ok[OF v this] obtain routes rules where
    c: "compileRouting ps s (EffectiveRoutingTableID (Fabric s)) (map (\<lambda>l. (lp_PeerName l, l)) (rev links)) = Inr (routes, rules)" by blast
  have babel: "\<exists>b. compileBabel ps pm d s = Inr b" for d
    using compileBabel_total[of s ps] routing(3) by (auto simp: sorted_domains_def)
  from v fab own uid loop dyn links c babel show ?thesis
    unfolding BuildDesiredState_def Let_def by (cases "IsEnabled (Babel s)") auto
qed

text \<open>
  An origin of the routing daemon: the loopback of the node, or what one domain announces, which
  carries a source of that domain and of its own family unless it lies inside the domain's
  sources.
\<close>

definition origin_scoped :: "parsers \<Rightarrow> DomainSpec \<Rightarrow> BabelOrigin \<Rightarrow> bool" where
  "origin_scoped ps d og = (bo_Destination og \<in> announced ps d \<and>
     (if IsAccessPrefix ps d (bo_Destination og) then bo_Source og = NoPrefix
      else bo_Source og \<in> set (canonicalSources ps (SourcePrefixes d))
        \<and> Is4 (pf_Addr (bo_Source og)) = Is4 (pf_Addr (bo_Destination og))))"

lemma babel_domain_origins:
  assumes "babel_domain ps f d = Inr (cs, vs, os)" "announcements_ok ps (Announcements d)" "og \<in> set os"
  shows "origin_scoped ps d og"
proof -
  from assms(1) obtain as where as: "map_r (\<lambda>a. bind_r (MustParsePrefix ps (an_Prefix a)) (\<lambda>p. Inr (p, announcementMetric a))) (Announcements d) = Inr as"
    and os: "os = concat (map (\<lambda>c. map (\<lambda>(p, m). \<lparr>bo_Destination = p, bo_Source = c, bo_Metric = m\<rparr>)
            (filter (\<lambda>(p, _). \<not> IsAccessPrefix ps d p \<and> Is4 (pf_Addr p) = Is4 (pf_Addr c)) as)) (canonicalSources ps (SourcePrefixes d)))
          @ map (\<lambda>(p, m). \<lparr>bo_Destination = p, bo_Source = NoPrefix, bo_Metric = m\<rparr>) (filter (\<lambda>(p, _). IsAccessPrefix ps d p) as)"
    by (auto simp: babel_domain_def Let_def)
  have ann: "p \<in> announced ps d" if pm: "(p, m) \<in> set as" for p m
  proof -
    from pm map_r_set[OF as] obtain a where a: "a \<in> set (Announcements d)" "MustParsePrefix ps (an_Prefix a) = Inr p" by auto
    with assms(2) obtain q where q: "parseCanonicalPrefix ps (an_Prefix a) = Some q" by (auto simp: announcements_ok_def)
    with a MustParse_canonical[OF q] show ?thesis by (auto simp: announced_def)
  qed
  from assms(3) show ?thesis unfolding os by (auto simp: origin_scoped_def dest: ann)
qed

lemma compileBabel_origins:
  assumes "compileBabel ps pm d s = Inr b" "\<forall>dom \<in> set (sorted_domains s). announcements_ok ps (Announcements dom)" "og \<in> set (Origins b)"
  shows "og = \<lparr>bo_Destination = PrefixFrom (ds_LoopbackV6 d) 128, bo_Source = NoPrefix, bo_Metric = 0\<rparr>
    \<or> (\<exists>dom \<in> set (sorted_domains s). origin_scoped ps dom og)"
proof -
  from assms(1) obtain domains where doms: "map_r (babel_domain ps (Fabric s)) (sorted_domains s) = Inr domains"
    and b: "Origins b = \<lparr>bo_Destination = PrefixFrom (ds_LoopbackV6 d) 128, bo_Source = NoPrefix, bo_Metric = 0\<rparr> # concat (map (\<lambda>d. snd (snd d)) domains)"
    by (auto simp: compileBabel_def Let_def)
  have "\<exists>dom \<in> set (sorted_domains s). origin_scoped ps dom og" if "x \<in> set domains" "og \<in> set (snd (snd x))" for x
  proof -
    from that(1) map_r_set[OF doms] obtain dom where "dom \<in> set (sorted_domains s)" "babel_domain ps (Fabric s) dom = Inr x" by auto
    with babel_domain_origins[of ps "Fabric s" dom "fst x" "fst (snd x)" "snd (snd x)" og] assms(2) that(2) show ?thesis by auto
  qed
  with assms(3) show ?thesis unfolding b by auto
qed

section \<open>Properties\<close>

definition sample_parsers :: parsers where
  "sample_parsers = \<lparr>ParsePrefix = map_of [(''loop'', Prefix (Addr6 (0xfd0000000000000000000000000000 * 0x10000) []) 127),
       (''site'', Prefix (Addr4 0x0A010000) 16), (''lan'', Prefix (Addr4 0x0A010100) 24), (''default'', Prefix (Addr4 0) 0)],
     ParseAddr = (\<lambda>_. None), DecodeBase64 = (\<lambda>_. Some (replicate 32 7)), ParseWGKey = (\<lambda>s. Some (of_nat (length s))),
     PublicKeyOf = (\<lambda>k. k + 100), ParseUUID = (\<lambda>_. Some 5), SplitHostPort = (\<lambda>_. None), Atoi = (\<lambda>_. None),
     IsAbs = (\<lambda>_. True), TrimSpace = id, NameDigest = (\<lambda>_ _ _. [1, 2])\<rparr>"

definition sample_primitives :: primitives where
  "sample_primitives = \<lparr>pm_mac = (\<lambda>_ _. [9]), pm_hkdf = (\<lambda>_ _. Inr (replicate 32 3)), pm_uuid = (\<lambda>_. ''u'')\<rparr>"

definition sample_domain :: DomainSpec where
  "sample_domain = \<lparr>SourceTableID = 300, SourcePrefixes = [''site''],
     d_StaticRoutes = [(''hub'', [\<lparr>rt_Prefix = ''default'', rt_Metric = None\<rparr>, \<lparr>rt_Prefix = ''lan'', rt_Metric = Some 5\<rparr>])],
     Announcements = [\<lparr>an_Prefix = ''site'', an_Metric = None\<rparr>]\<rparr>"

definition sample_spec :: NodeSpec where
  "sample_spec = \<lparr>APIVersion = ''velvet.io/v1alpha2'', Kind = ''NodeSpec'',
     Fabric = \<lparr>PSK = ''k'', LinkPrefixV4 = [], LinkPrefixV6 = [], LoopbackPrefixV6 = ''loop'', VFPPort = None,
       RoutingTableID = None, f_StaticRoutes = []\<rparr>,
     sp_Node = \<lparr>nd_UID = \<lparr>nu_Name = ''n1'', nu_UUID = ''u''\<rparr>, PrivateKey = ''a'', LoopbackAddressV6 = []\<rparr>,
     Peers = [\<lparr>ps_ListenPorts = None, ps_Name = ''hub'', PublicKey = ''abc'', Endpoints = [], LinkAddresses = [],
       PersistentKeepaliveSeconds = None, ps_InterfaceName = []\<rparr>],
     Babel = Some \<lparr>Enabled = Some True, Executable = []\<rparr>, DynamicLinks = None, Domains = [(''site'', sample_domain)]\<rparr>"

lemma sample_valid: "Validate sample_parsers sample_spec = []"
  by code_simp

lemma sample_laws:
  "\<forall>raw p. ParsePrefix sample_parsers raw = Some p \<longrightarrow> PF_IsValid p"
  "\<forall>k i. \<exists>stream. pm_hkdf sample_primitives k i = Inr stream \<and> 32 \<le> length stream"
  by (auto simp: sample_parsers_def sample_primitives_def PF_IsValid_def split: if_splits)

lemma sample_built: "\<exists>d. BuildDesiredState sample_parsers sample_primitives sample_spec = Inr d"
  by (rule BuildDesiredState_total[OF sample_valid sample_laws])

text \<open>
  C32: a specification that validates always builds: no key, identifier, prefix or peer lookup of
  the compilation fails and no parser panics, given that parsed prefixes are valid and that the
  key derivation yields the octets asked for.
\<close>
theorem validated_spec_builds:
  assumes "Validate ps s = []"
    and "\<forall>raw p. ParsePrefix ps raw = Some p \<longrightarrow> PF_IsValid p"
    and "\<forall>k i. \<exists>stream. pm_hkdf pm k i = Inr stream \<and> 32 \<le> length stream"
  shows "\<exists>d. BuildDesiredState ps pm s = Inr d"
  using assms by (rule BuildDesiredState_total)

theorem validated_spec_builds_witness: "\<exists>d. BuildDesiredState sample_parsers sample_primitives sample_spec = Inr d"
  by (rule validated_spec_builds[OF sample_valid sample_laws])



text \<open>
  C27: the routing plan fails closed.  Every table has an unreachable route for every infrastructure
  pool; for every source prefix of a domain the fabric table and the domain's table have one; and
  a domain's table has an unreachable default route for each family of its sources.
\<close>
theorem routing_fails_closed:
  assumes "BuildDesiredState ps pm s = Inr d"
  shows "(\<forall>pool \<in> set (InfrastructurePrefixes ps (Fabric s)).
       \<forall>t \<in> insert (FabricTableID d) (SourceTableID ` set (sorted_domains s)). guarded (ds_Routes d) t pool)
    \<and> (\<forall>dom \<in> set (sorted_domains s). \<exists>sources. sourcePrefixes ps dom = Inr sources
         \<and> (\<forall>p \<in> set sources. guarded (ds_Routes d) (FabricTableID d) p \<and> guarded (ds_Routes d) (SourceTableID dom) p)
         \<and> (\<forall>c \<in> set (canonicalSources ps (SourcePrefixes dom)). guarded (ds_Routes d) (SourceTableID dom) (zero_prefix c)))"
proof -
  from assms obtain links where "compileRouting ps s (FabricTableID d) links = Inr (ds_Routes d, ds_Rules d)"
    by (rule BuildDesiredState_cases)
  from compileRouting_guards[OF this] show ?thesis by blast
qed

theorem routing_fails_closed_witness:
  "\<exists>d. BuildDesiredState sample_parsers sample_primitives sample_spec = Inr d \<and> guarded (ds_Routes d) 300 (Prefix (Addr4 0) 0)"
proof -
  obtain d where d: "BuildDesiredState sample_parsers sample_primitives sample_spec = Inr d" using sample_built by blast
  have dom: "sample_domain \<in> set (sorted_domains sample_spec)"
    by (simp add: sorted_domains_def sorted_keys_def sample_spec_def)
  have "Prefix (Addr4 0x0A010000) 16 \<in> set (canonicalSources sample_parsers (SourcePrefixes sample_domain))"
    by (simp add: canonicalSources_def sample_domain_def sample_parsers_def)
  with routing_fails_closed[OF d] dom have "guarded (ds_Routes d) (SourceTableID sample_domain) (zero_prefix (Prefix (Addr4 0x0A010000) 16))" by blast
  with d show ?thesis by (simp add: zero_prefix_def sample_domain_def)
qed

text \<open>
  C33: the routing daemon never originates an unscoped route outside the node's own addresses.
  Every origin is the loopback of the node or announced by one domain; an announced prefix inside
  the domain's sources is unscoped, and every other one, a default route for instance, carries a
  source prefix of the domain of the same family.
\<close>
theorem babel_origins_scoped:
  assumes "BuildDesiredState ps pm s = Inr d" "ds_Babel d = Some b"
  shows "list_all (\<lambda>og. og = \<lparr>bo_Destination = PrefixFrom (ds_LoopbackV6 d) 128, bo_Source = NoPrefix, bo_Metric = 0\<rparr>
    \<or> (\<exists>dom \<in> set (sorted_domains s). bo_Destination og \<in> announced ps dom \<and>
         (if IsAccessPrefix ps dom (bo_Destination og) then bo_Source og = NoPrefix
          else bo_Source og \<in> set (canonicalSources ps (SourcePrefixes dom))
            \<and> Is4 (pf_Addr (bo_Source og)) = Is4 (pf_Addr (bo_Destination og))))) (Origins b)"
proof -
  from assms(1) obtain d' where v: "Validate ps s = []" and c: "ds_LoopbackV6 d' = ds_LoopbackV6 d" "compileBabel ps pm d' s = Inr b"
    using assms(2) by (auto elim!: BuildDesiredState_cases)
  have "\<forall>dom \<in> set (sorted_domains s). announcements_ok ps (Announcements dom)"
    using Validate_routing(3)[OF v] by (auto simp: sorted_domains_def domain_ok_def)
  from compileBabel_origins[OF c(2) this] c(1) show ?thesis by (auto simp: list_all_iff origin_scoped_def)
qed

theorem babel_origins_scoped_witness:
  "\<exists>d b. BuildDesiredState sample_parsers sample_primitives sample_spec = Inr d \<and> ds_Babel d = Some b
    \<and> list_all (\<lambda>og. og = \<lparr>bo_Destination = PrefixFrom (ds_LoopbackV6 d) 128, bo_Source = NoPrefix, bo_Metric = 0\<rparr>
        \<or> bo_Destination og \<in> announced sample_parsers sample_domain) (Origins b)"
proof -
  obtain d where d: "BuildDesiredState sample_parsers sample_primitives sample_spec = Inr d" using sample_built by blast
  have "IsEnabled (Babel sample_spec)" by (simp add: sample_spec_def IsEnabled_def)
  with d obtain b where b: "ds_Babel d = Some b" by (auto elim!: BuildDesiredState_cases)
  have "set (sorted_domains sample_spec) = {sample_domain}" by (simp add: sorted_domains_def sorted_keys_def sample_spec_def)
  with babel_origins_scoped[OF d b] d b show ?thesis by (auto simp: list_all_iff)
qed

end
