(* ===== verification/Ports.thy ===== *)
theory Ports
  imports Desired_State
begin

text \<open>
  Reservation of UDP ports and ownership of links, \<^verbatim>\<open>internal/runtime/ports.go\<close> and the resource
  table of \<^verbatim>\<open>internal/runtime/link_manager.go\<close>.  A lease is an identity: the pool numbers the
  leases it hands out, and the number plays the part of the pointer.  The sockets and the kernel
  are functions over an arbitrary environment.
\<close>

section \<open>The pool\<close>

record portLease =
  pl_port :: int
  pl_id :: nat

record portPool =
  leases :: "int \<Rightarrow> portLease option"
  vfpPort :: int
  next_id :: nat

definition new_pool :: "int \<Rightarrow> portPool" where
  "new_pool vfp = \<lparr>leases = (\<lambda>_. None), vfpPort = vfp, next_id = 0\<rparr>"

definition release_lease :: "portLease option \<Rightarrow> portPool \<Rightarrow> portPool" where
  "release_lease l p =
    (case l of
       None \<Rightarrow> p
     | Some l \<Rightarrow> if leases p (pl_port l) = Some l then p\<lparr>leases := (leases p)(pl_port l := None)\<rparr> else p)"

text \<open>\<open>start\<close> is the random offset into the range.\<close>

definition port_candidates :: "PortChoice \<Rightarrow> int \<Rightarrow> int \<Rightarrow> int list" where
  "port_candidates choice sticky start =
    (if First (Range choice) \<noteq> 0 then
       (if First (Range choice) \<le> sticky \<and> sticky \<le> Last (Range choice) then [sticky] else [])
       @ (let n = Last (Range choice) - First (Range choice) + 1
          in filter (\<lambda>port. port \<noteq> sticky) (map (\<lambda>i. First (Range choice) + (start + i) mod n) [0 .. n - 1]))
     else if Port choice \<noteq> 0 then [Port choice]
     else (if sticky \<noteq> 0 then [sticky] else []) @ replicate 16 0)"

definition reserved_for_vfp :: error where
  "reserved_for_vfp = ErrNew ''UDP port is reserved for VFP''"

fun bind_loop ::
  "(int \<Rightarrow> 's \<Rightarrow> 's \<times> int result) \<Rightarrow> int list \<Rightarrow> error option \<Rightarrow> portPool \<Rightarrow> 's \<Rightarrow> 's \<times> portPool \<times> portLease result" where
  "bind_loop f [] lastErr p s =
    (s, p, Inl (ErrNew (''Link UDP ports unavailable: reservation exhausted''
      @ (case lastErr of None \<Rightarrow> [] | Some e \<Rightarrow> [CHR 0x0A] @ error_text e))))"
| "bind_loop f (port # ports) lastErr p s =
    (if port \<noteq> 0 \<and> port = vfpPort p then bind_loop f ports (Some reserved_for_vfp) p s
     else if leases p port \<noteq> None then bind_loop f ports lastErr p s
     else
       (case f port s of
          (s, Inl e) \<Rightarrow> bind_loop f ports (Some e) p s
        | (s, Inr actual) \<Rightarrow>
          if port \<noteq> 0 \<and> actual \<noteq> port \<or> actual < 1 \<or> 65535 < actual
          then (s, p, Inl (ErrNew ''invalid allocated UDP port''))
          else if actual = vfpPort p then bind_loop f ports (Some reserved_for_vfp) p s
          else if leases p actual \<noteq> None
          then bind_loop f ports (Some (ErrNew ''allocated port reserved by another Link'')) p s
          else
            let lease = \<lparr>pl_port = actual, pl_id = next_id p\<rparr>
            in (s, p\<lparr>leases := (leases p)(actual \<mapsto> lease), next_id := next_id p + 1\<rparr>, Inr lease)))"

definition bind_port ::
  "(int \<Rightarrow> 's \<Rightarrow> 's \<times> int result) \<Rightarrow> PortChoice \<Rightarrow> int \<Rightarrow> int \<Rightarrow> portPool \<Rightarrow> 's \<Rightarrow> 's \<times> portPool \<times> portLease result" where
  "bind_port f choice sticky start p s = bind_loop f (port_candidates choice sticky start) None p s"

section \<open>Sockets\<close>

text \<open>What the runtime asks of the system: probe sockets, random numbers and the port of an interface.\<close>

record ('n, 'k) system =
  sys_listen :: "addrport \<Rightarrow> 'n \<Rightarrow> 'n \<times> 'k result"
  sys_listen_any :: "int \<Rightarrow> 'n \<Rightarrow> 'n \<times> 'k result"
  sys_close :: "'k \<Rightarrow> 'n \<Rightarrow> 'n"
  sys_port :: "'k \<Rightarrow> u16"
  sys_rand :: "int \<Rightarrow> 'n \<Rightarrow> 'n \<times> int"
  sys_ListenPort :: "string \<Rightarrow> 'n \<Rightarrow> 'n \<times> int"
  sys_RemoveDynamic :: "LinkPlan \<Rightarrow> 'n \<Rightarrow> 'n \<times> error option"
  sys_PrepareLink :: "LinkPlan \<Rightarrow> 'n \<Rightarrow> 'n \<times> LinkPlan result"
  sys_ConfigureLink :: "LinkPlan \<Rightarrow> 'n \<Rightarrow> 'n \<times> error option"

definition close_opt :: "('n, 'k) system \<Rightarrow> 'k option \<Rightarrow> 'n \<Rightarrow> 'n" where
  "close_opt sys k n = (case k of None \<Rightarrow> n | Some k \<Rightarrow> sys_close sys k n)"

record 'k leasedProbe =
  lp_socket :: "'k option"
  lp_lease :: portLease
  lp_handed :: bool

definition probe_Close :: "('n, 'k) system \<Rightarrow> 'k leasedProbe \<Rightarrow> 'n \<Rightarrow> portPool \<Rightarrow> 'n \<times> portPool" where
  "probe_Close sys s n p =
    (close_opt sys (lp_socket s) n, if lp_handed s then p else release_lease (Some (lp_lease s)) p)"

definition probe_handoff :: "('n, 'k) system \<Rightarrow> 'k leasedProbe \<Rightarrow> 'n \<Rightarrow> 'n \<times> 'k leasedProbe" where
  "probe_handoff sys s n = (close_opt sys (lp_socket s) n, s\<lparr>lp_handed := True\<rparr>)"

text \<open>The state of a binding callback is the environment and the socket bound last.\<close>

definition probe_bind ::
  "('n, 'k) system \<Rightarrow> addr \<Rightarrow> int \<Rightarrow> 'n \<times> 'k option \<Rightarrow> ('n \<times> 'k option) \<times> int result" where
  "probe_bind sys addr port st =
    (case st of (n, socket) \<Rightarrow>
     case sys_listen sys (AddrPort addr (word_of_int port)) (close_opt sys socket n) of
       (n, Inl e) \<Rightarrow> ((n, None), Inl e)
     | (n, Inr k) \<Rightarrow> ((n, Some k), Inr (uint (sys_port sys k))))"

definition reserveProbe ::
  "('n, 'k) system \<Rightarrow> addrport \<Rightarrow> PortChoice \<Rightarrow> portPool \<Rightarrow> 'n \<Rightarrow> 'n \<times> portPool \<times> 'k leasedProbe result" where
  "reserveProbe sys endpoint choice p n =
    (let port = uint (ap_Port endpoint) in
     if port \<noteq> 0 \<and> First (Range choice) \<noteq> 0 \<and> (port < First (Range choice) \<or> Last (Range choice) < port)
     then (n, p, Inl (ErrNew ''probe port outside configured range''))
     else if port \<noteq> 0 \<and> Port choice \<noteq> 0 \<and> Port choice \<noteq> port
     then (n, p, Inl (ErrNew ''probe port differs from fixed port''))
     else
       let choice = (if port \<noteq> 0 then \<lparr>Port = port, Range = no_range\<rparr> else choice);
           (n, start) = (if First (Range choice) \<noteq> 0
             then sys_rand sys (Last (Range choice) - First (Range choice) + 1) n else (n, 0))
       in case bind_port (probe_bind sys (ap_Addr endpoint)) choice 0 start p (n, None) of
            ((n, socket), p, Inl e) \<Rightarrow> (close_opt sys socket n, p, Inl e)
          | ((n, socket), p, Inr lease) \<Rightarrow>
            (n, p, Inr \<lparr>lp_socket = socket, lp_lease = lease, lp_handed = False\<rparr>))"

definition static_bind ::
  "('n, 'k) system \<Rightarrow> int \<Rightarrow> int \<Rightarrow> 'n \<times> 'k option \<Rightarrow> ('n \<times> 'k option) \<times> int result" where
  "static_bind sys sticky port st =
    (case st of (n, socket) \<Rightarrow>
     let n = close_opt sys socket n in
     if port \<noteq> 0 \<and> port = sticky then ((n, None), Inr port)
     else
       (case sys_listen_any sys port n of
          (n, Inl e) \<Rightarrow> ((n, None), Inl e)
        | (n, Inr k) \<Rightarrow> ((n, Some k), Inr (uint (sys_port sys k)))))"

definition reserveStaticPort ::
  "('n, 'k) system \<Rightarrow> LinkPlan \<Rightarrow> portPool \<Rightarrow> 'n \<Rightarrow> 'n \<times> portPool \<times> portLease result" where
  "reserveStaticPort sys plan p n =
    (let (n, sticky) = sys_ListenPort sys (lp_InterfaceName plan) n;
         choice = lp_Ports plan;
         (n, start) = (if First (Range choice) \<noteq> 0
           then sys_rand sys (Last (Range choice) - First (Range choice) + 1) n else (n, 0))
     in case bind_port (static_bind sys sticky) choice sticky start p (n, None) of
          ((n, socket), p, r) \<Rightarrow> (close_opt sys socket n, p, r))"

section \<open>Link resources\<close>

record linkResources =
  lr_plan :: LinkPlan
  lr_port :: "portLease option"
  lr_cleanup :: bool

type_synonym resources = "(string \<times> linkResources) list"

definition own :: "LinkPlan \<Rightarrow> portLease option \<Rightarrow> resources \<Rightarrow> resources" where
  "own plan lease m =
    (OwnerAlias plan, \<lparr>lr_plan = plan, lr_port = lease, lr_cleanup = False\<rparr>) # filter (\<lambda>(a, _). a \<noteq> OwnerAlias plan) m"

definition removed :: "LinkPlan \<Rightarrow> error option \<Rightarrow> resources \<times> portPool \<Rightarrow> resources \<times> portPool" where
  "removed plan err mp =
    (case mp of (m, p) \<Rightarrow>
     case map_of m (OwnerAlias plan) of
       None \<Rightarrow> (m, p)
     | Some r \<Rightarrow>
       (case err of
          Some _ \<Rightarrow> (map (\<lambda>(a, x). if a = OwnerAlias plan then (a, x\<lparr>lr_cleanup := True\<rparr>) else (a, x)) m, p)
        | None \<Rightarrow> (filter (\<lambda>(a, _). a \<noteq> OwnerAlias plan) m, release_lease (lr_port r) p)))"

fun cleanup_plans ::
  "('n, 'k) system \<Rightarrow> LinkPlan list \<Rightarrow> resources \<times> portPool \<Rightarrow> 'n \<Rightarrow> 'n \<times> resources \<times> portPool" where
  "cleanup_plans sys [] mp n = (n, mp)"
| "cleanup_plans sys (plan # plans) mp n =
    (case sys_RemoveDynamic sys plan n of (n, err) \<Rightarrow> cleanup_plans sys plans (removed plan err mp) n)"

definition retryLinkCleanup :: "('n, 'k) system \<Rightarrow> resources \<times> portPool \<Rightarrow> 'n \<Rightarrow> 'n \<times> resources \<times> portPool" where
  "retryLinkCleanup sys mp n =
    cleanup_plans sys (map (\<lambda>(_, r). lr_plan r) (filter (\<lambda>(_, r). lr_cleanup r) (fst mp))) mp n"

definition liveDesired :: "LinkPlan list \<Rightarrow> resources \<Rightarrow> LinkPlan list" where
  "liveDesired links m =
    map (\<lambda>plan. case map_of m (OwnerAlias plan) of
                  None \<Rightarrow> plan
                | Some r \<Rightarrow> if lr_cleanup r then plan else lr_plan r) links"

text \<open>One plan of the loop: it is skipped, keeps the port it owns, waits, or gets a lease.\<close>

definition reserve_plan ::
  "('n, 'k) system \<Rightarrow> bool \<Rightarrow> LinkPlan \<Rightarrow> 'n \<times> portPool \<times> resources \<Rightarrow> LinkPlan \<times> 'n \<times> portPool \<times> resources" where
  "reserve_plan sys fixed plan st =
    (case st of (n, p, m) \<Rightarrow>
     if (Port (lp_Ports plan) \<noteq> 0) \<noteq> fixed then (plan, n, p, m)
     else
       (case map_of m (OwnerAlias plan) of
          Some r \<Rightarrow>
            if \<not> lr_cleanup r then (plan\<lparr>ListenPort := ListenPort (lr_plan r)\<rparr>, n, p, m)
            else
              (case reserveStaticPort sys plan p n of
                 (n, p, Inl _) \<Rightarrow> (plan\<lparr>WaitingPort := True\<rparr>, n, p, m)
               | (n, p, Inr l) \<Rightarrow>
                 let plan = plan\<lparr>ListenPort := pl_port l\<rparr> in (plan, n, p, own plan (Some l) m))
        | None \<Rightarrow>
            (case reserveStaticPort sys plan p n of
               (n, p, Inl _) \<Rightarrow> (plan\<lparr>WaitingPort := True\<rparr>, n, p, m)
             | (n, p, Inr l) \<Rightarrow>
               let plan = plan\<lparr>ListenPort := pl_port l\<rparr> in (plan, n, p, own plan (Some l) m))))"

fun reserve_plans ::
  "('n, 'k) system \<Rightarrow> bool \<Rightarrow> LinkPlan list \<Rightarrow> 'n \<times> portPool \<times> resources \<Rightarrow> LinkPlan list \<times> 'n \<times> portPool \<times> resources" where
  "reserve_plans sys fixed [] st = ([], st)"
| "reserve_plans sys fixed (plan # plans) st =
    (case reserve_plan sys fixed plan st of (plan, st) \<Rightarrow>
     case reserve_plans sys fixed plans st of (plans, st) \<Rightarrow> (plan # plans, st))"

definition reserveStaticPorts ::
  "('n, 'k) system \<Rightarrow> LinkPlan list \<Rightarrow> 'n \<times> portPool \<times> resources \<Rightarrow> LinkPlan list \<times> 'n \<times> portPool \<times> resources" where
  "reserveStaticPorts sys links st =
    (case reserve_plans sys True links st of (links, st) \<Rightarrow> reserve_plans sys False links st)"

definition retryStaticPort ::
  "('n, 'k) system \<Rightarrow> LinkPlan \<Rightarrow> 'n \<times> portPool \<times> resources \<Rightarrow> ('n \<times> portPool \<times> resources) \<times> LinkPlan \<times> error option" where
  "retryStaticPort sys plan st =
    (case st of (n, p, m) \<Rightarrow>
     case reserveStaticPort sys plan p n of
       (n, p, Inl e) \<Rightarrow> ((n, p, m), plan, Some e)
     | (n, p, Inr lease) \<Rightarrow>
       let next_plan = plan\<lparr>ListenPort := pl_port lease, WaitingPort := False\<rparr>;
           m = own next_plan (Some lease) m;
           (n, prepared) = sys_PrepareLink sys next_plan n;
           (n, r) = (case prepared of
              Inl e \<Rightarrow> (n, Inl e)
            | Inr q \<Rightarrow> (case sys_ConfigureLink sys q n of (n, None) \<Rightarrow> (n, Inr q) | (n, Some e) \<Rightarrow> (n, Inl e)))
       in case r of
            Inl e \<Rightarrow>
              (case sys_RemoveDynamic sys plan n of (n, cleanupErr) \<Rightarrow>
               case removed plan cleanupErr (m, p) of (m, p) \<Rightarrow> ((n, p, m), plan, Some e))
          | Inr q \<Rightarrow> ((n, p, own q (Some lease) m), q, None))"

section \<open>Leases as an interface\<close>

text \<open>
  What the users of a pool of leases rely on: who holds a port, that a new lease is for a port
  nobody holds and differs from every lease handed out before, and that a release frees the port
  only for its holder.  The stamp of a lease and the clock of the pool express identity.
\<close>

primrec lease_run ::
  "('q \<Rightarrow> 'p \<Rightarrow> 'p \<times> 'l option) \<Rightarrow> ('l \<Rightarrow> 'p \<Rightarrow> 'p) \<Rightarrow> ('q + 'l) list \<Rightarrow> 'p \<times> 'l list \<times> 'l list \<Rightarrow> 'p \<times> 'l list \<times> 'l list" where
  "lease_run reserve rel [] st = st"
| "lease_run reserve rel (ev # evs) st =
    (case st of (p, issued, live) \<Rightarrow>
     lease_run reserve rel evs
       (case ev of
          Inl q \<Rightarrow> (case reserve q p of (p', None) \<Rightarrow> (p', issued, live) | (p', Some l) \<Rightarrow> (p', l # issued, l # live))
        | Inr l \<Rightarrow> if l \<in> set issued then (rel l p, issued, removeAll l live) else (p, issued, live)))"

locale lease_pool =
  fixes holder :: "'p \<Rightarrow> int \<Rightarrow> 'l option"
    and port_of :: "'l \<Rightarrow> int"
    and stamp :: "'l \<Rightarrow> nat"
    and clock :: "'p \<Rightarrow> nat"
    and reserve :: "'q \<Rightarrow> 'p \<Rightarrow> 'p \<times> 'l option"
    and rel :: "'l \<Rightarrow> 'p \<Rightarrow> 'p"
    and allowed :: "'p \<Rightarrow> int \<Rightarrow> bool"
  assumes reserve_some: "reserve q p = (p', Some l) \<Longrightarrow> holder p (port_of l) = None
      \<and> holder p' = (holder p)(port_of l \<mapsto> l) \<and> stamp l = clock p \<and> clock p' = Suc (clock p)
      \<and> allowed p (port_of l) \<and> allowed p' = allowed p"
    and reserve_none: "reserve q p = (p', None) \<Longrightarrow> holder p' = holder p \<and> clock p' = clock p \<and> allowed p' = allowed p"
    and rel_holder: "holder (rel l p) = (if holder p (port_of l) = Some l then (holder p)(port_of l := None) else holder p)"
    and rel_clock: "clock (rel l p) = clock p" "allowed (rel l p) = allowed p"
begin

definition consistent :: "'p \<times> 'l list \<times> 'l list \<Rightarrow> bool" where
  "consistent st = (case st of (p, issued, live) \<Rightarrow>
    (\<forall>l \<in> set issued. stamp l < clock p) \<and> set live \<subseteq> set issued \<and> distinct issued
    \<and> (\<forall>port l. holder p port = Some l \<longleftrightarrow> l \<in> set live \<and> port_of l = port)
    \<and> (\<forall>l \<in> set live. allowed p (port_of l)))"

lemma consistent_reserve:
  assumes "consistent (p, issued, live)" "reserve q p = (p', Some l)"
  shows "consistent (p', l # issued, l # live)"
proof -
  from assms have r: "holder p (port_of l) = None" "holder p' = (holder p)(port_of l \<mapsto> l)" "stamp l = clock p"
    "clock p' = Suc (clock p)" "allowed p (port_of l)" "allowed p' = allowed p"
    using reserve_some by blast+
  from assms(1) have c: "\<forall>l \<in> set issued. stamp l < clock p" "set live \<subseteq> set issued" "distinct issued"
    "\<forall>port l. holder p port = Some l \<longleftrightarrow> l \<in> set live \<and> port_of l = port" "\<forall>l \<in> set live. allowed p (port_of l)"
    by (simp_all add: consistent_def)
  have "l \<notin> set issued" using c(1) r(3) by auto
  moreover have "\<forall>m \<in> set live. port_of m \<noteq> port_of l" using c(4) r(1) by (metis option.distinct(1))
  ultimately show ?thesis using c r unfolding consistent_def by (auto simp: less_Suc_eq)
qed

lemma consistent_release:
  assumes "consistent (p, issued, live)"
  shows "consistent (rel l p, issued, removeAll l live)"
proof (cases "holder p (port_of l) = Some l")
  case True
  from assms have "\<forall>port m. holder p port = Some m \<longleftrightarrow> m \<in> set live \<and> port_of m = port" by (simp add: consistent_def)
  with True have "\<forall>m \<in> set live. port_of m = port_of l \<longrightarrow> m = l" by (metis option.inject)
  with True assms show ?thesis unfolding consistent_def by (auto simp: rel_holder rel_clock)
next
  case False
  with assms have "l \<notin> set live" unfolding consistent_def by auto
  with False assms show ?thesis unfolding consistent_def by (simp add: rel_holder rel_clock)
qed

lemma run_consistent: "consistent st \<Longrightarrow> consistent (lease_run reserve rel evs st)"
proof (induction evs arbitrary: st)
  case (Cons ev evs)
  obtain p issued live where st: "st = (p, issued, live)" by (metis prod_cases3)
  show ?case
  proof (cases ev)
    case (Inl q)
    obtain p' r where r: "reserve q p = (p', r)" by fastforce
    have "consistent (case r of None \<Rightarrow> (p', issued, live) | Some l \<Rightarrow> (p', l # issued, l # live))"
      using consistent_reserve[of p issued live q p'] Cons.prems r reserve_none[of q p p'] st
      by (cases r) (auto simp: consistent_def)
    from Cons.IH[OF this] show ?thesis by (cases r) (simp_all add: st Inl r)
  next
    case (Inr l)
    have "consistent (if l \<in> set issued then (rel l p, issued, removeAll l live) else (p, issued, live))"
      using consistent_release[of p issued live l] Cons.prems st by simp
    from Cons.IH[OF this] show ?thesis by (simp add: st Inr)
  qed
qed simp

text \<open>Ports are exclusive: live leases have different ports, and a port is held exactly by the live lease on it.\<close>

lemma run_exclusive:
  assumes "holder p0 = (\<lambda>_. None)" "lease_run reserve rel evs (p0, [], []) = (p, issued, live)"
  shows "distinct issued \<and> inj_on port_of (set live) \<and> (\<forall>l \<in> set live. holder p (port_of l) = Some l \<and> allowed p (port_of l))"
proof -
  have "consistent (p0, [], [])" using assms(1) by (simp add: consistent_def)
  from run_consistent[OF this, of evs] assms(2) have c: "consistent (p, issued, live)" by simp
  then have "holder p (port_of l) = Some l" if "l \<in> set live" for l using that by (auto simp: consistent_def)
  with c show ?thesis by (auto simp: consistent_def inj_on_def) (metis option.inject)
qed

lemma run_allowed: "lease_run reserve rel evs (p0, issued0, live0) = (p, issued, live) \<Longrightarrow> allowed p = allowed p0"
proof (induction evs arbitrary: p0 issued0 live0)
  case (Cons ev evs)
  show ?case
  proof (cases ev)
    case (Inl q)
    obtain p' r where r: "reserve q p0 = (p', r)" by fastforce
    with Inl Cons.prems Cons.IH have "allowed p = allowed p'" by (cases r) auto
    moreover have "allowed p' = allowed p0" using r reserve_none reserve_some by (cases r) blast+
    ultimately show ?thesis by simp
  next
    case (Inr l)
    with Cons show ?thesis by (auto simp: rel_clock split: if_splits)
  qed
qed simp

text \<open>A lease that is no longer live frees nothing.\<close>

lemma stale_release:
  assumes "holder p0 = (\<lambda>_. None)" "lease_run reserve rel evs (p0, [], []) = (p, issued, live)" "l \<notin> set live"
  shows "holder (rel l p) = holder p"
proof -
  have "consistent (p0, [], [])" using assms(1) by (simp add: consistent_def)
  from run_consistent[OF this, of evs] assms(2,3) have "holder p (port_of l) \<noteq> Some l" by (auto simp: consistent_def)
  then show ?thesis by (simp add: rel_holder)
qed

end

section \<open>The pool provides it\<close>

text \<open>A request fixes the arguments of \<^verbatim>\<open>bind\<close>, its callback and the environment it is run in.\<close>

record 's request =
  rq_bind :: "int \<Rightarrow> 's \<Rightarrow> 's \<times> int result"
  rq_choice :: PortChoice
  rq_sticky :: int
  rq_start :: int
  rq_env :: 's

definition serve :: "'s request \<Rightarrow> portPool \<Rightarrow> portPool \<times> portLease option" where
  "serve q p =
    (case bind_port (rq_bind q) (rq_choice q) (rq_sticky q) (rq_start q) p (rq_env q) of
       (_, p', Inr l) \<Rightarrow> (p', Some l)
     | (_, p', Inl _) \<Rightarrow> (p', None))"

definition usable_port :: "portPool \<Rightarrow> int \<Rightarrow> bool" where
  "usable_port p port = (1 \<le> port \<and> port \<le> 65535 \<and> port \<noteq> vfpPort p)"

lemma bind_loop_result:
  assumes "bind_loop f ports le p s = (s', p', r)"
  shows "case r of
      Inl _ \<Rightarrow> p' = p
    | Inr l \<Rightarrow> leases p (pl_port l) = None \<and> pl_id l = next_id p \<and> usable_port p (pl_port l)
        \<and> p' = p\<lparr>leases := (leases p)(pl_port l \<mapsto> l), next_id := next_id p + 1\<rparr>
        \<and> (pl_port l \<in> set ports \<or> 0 \<in> set ports)"
  using assms
proof (induction ports arbitrary: le s)
  case (Cons port ports)
  obtain s1 a where f: "f port s = (s1, a)" by fastforce
  show ?case
  proof (cases "port \<noteq> 0 \<and> port = vfpPort p \<or> leases p port \<noteq> None")
    case True
    with Cons.prems obtain le' where "bind_loop f ports le' p s = (s', p', r)" by (auto split: if_splits)
    from Cons.IH[OF this] show ?thesis by (auto split: sum.splits)
  next
    case free: False
    show ?thesis
    proof (cases a)
      case (Inl e)
      with Cons.prems free f have "bind_loop f ports (Some e) p s1 = (s', p', r)" by auto
      from Cons.IH[OF this] show ?thesis by (auto split: sum.splits)
    next
      case (Inr actual)
      show ?thesis
      proof (cases "port \<noteq> 0 \<and> actual \<noteq> port \<or> actual < 1 \<or> 65535 < actual")
        case True
        with Cons.prems free f Inr show ?thesis by auto
      next
        case ok: False
        show ?thesis
        proof (cases "actual = vfpPort p \<or> leases p actual \<noteq> None")
          case True
          with Cons.prems free f Inr ok obtain le' where "bind_loop f ports le' p s1 = (s', p', r)" by (auto split: if_splits)
          from Cons.IH[OF this] show ?thesis by (auto split: sum.splits)
        next
          case False
          with Cons.prems free f Inr ok have "r = Inr \<lparr>pl_port = actual, pl_id = next_id p\<rparr>"
            "p' = p\<lparr>leases := (leases p)(actual \<mapsto> \<lparr>pl_port = actual, pl_id = next_id p\<rparr>), next_id := next_id p + 1\<rparr>"
            by (auto simp: Let_def)
          with False ok show ?thesis by (auto simp: usable_port_def)
        qed
      qed
    qed
  qed
qed auto

interpretation port_pool: lease_pool leases pl_port pl_id next_id serve "\<lambda>l. release_lease (Some l)" usable_port
proof
  fix q :: "'a request" and p p' l
  show "serve q p = (p', Some l) \<Longrightarrow> leases p (pl_port l) = None
      \<and> leases p' = (leases p)(pl_port l \<mapsto> l) \<and> pl_id l = next_id p \<and> next_id p' = Suc (next_id p)
      \<and> usable_port p (pl_port l) \<and> usable_port p' = usable_port p"
    unfolding serve_def bind_port_def
    by (auto split: prod.splits sum.splits dest!: bind_loop_result simp: usable_port_def fun_eq_iff)
  show "serve q p = (p', None) \<Longrightarrow> leases p' = leases p \<and> next_id p' = next_id p \<and> usable_port p' = usable_port p"
    unfolding serve_def bind_port_def by (auto split: prod.splits sum.splits dest!: bind_loop_result)
qed (auto simp: release_lease_def usable_port_def fun_eq_iff)

section \<open>Static reservations\<close>

definition resource_ok :: "portPool \<Rightarrow> string \<Rightarrow> linkResources \<Rightarrow> bool" where
  "resource_ok p a r = (\<not> lr_cleanup r \<and> OwnerAlias (lr_plan r) = a \<and> usable_port p (ListenPort (lr_plan r))
     \<and> (\<exists>l. lr_port r = Some l \<and> pl_port l = ListenPort (lr_plan r) \<and> leases p (pl_port l) = Some l))"

definition owned_ok :: "portPool \<Rightarrow> resources \<Rightarrow> bool" where
  "owned_ok p m = (distinct (map fst m) \<and> inj_on (\<lambda>(a, r). ListenPort (lr_plan r)) (set m)
    \<and> (\<forall>(a, r) \<in> set m. resource_ok p a r))"

definition settled :: "resources \<Rightarrow> LinkPlan \<Rightarrow> bool" where
  "settled m plan = (WaitingPort plan \<or>
    (\<exists>r. map_of m (OwnerAlias plan) = Some r \<and> ListenPort (lr_plan r) = ListenPort plan))"

lemma reserveStaticPort_result:
  assumes "reserveStaticPort sys plan p n = (n', p', r)"
  shows "case r of
      Inl _ \<Rightarrow> p' = p
    | Inr l \<Rightarrow> leases p (pl_port l) = None \<and> usable_port p (pl_port l)
        \<and> p' = p\<lparr>leases := (leases p)(pl_port l \<mapsto> l), next_id := next_id p + 1\<rparr>"
proof -
  obtain n1 sticky where "sys_ListenPort sys (lp_InterfaceName plan) n = (n1, sticky)" by fastforce
  moreover obtain n2 start where "(if First (Range (lp_Ports plan)) \<noteq> 0
      then sys_rand sys (Last (Range (lp_Ports plan)) - First (Range (lp_Ports plan)) + 1) n1 else (n1, 0)) = (n2, start)" by fastforce
  moreover obtain n3 k p3 r3 where b: "bind_port (static_bind sys sticky) (lp_Ports plan) sticky start p (n2, None) = ((n3, k), p3, r3)"
    by (metis prod_cases3 surj_pair)
  ultimately have "p' = p3" "r = r3" using assms by (simp_all add: reserveStaticPort_def Let_def)
  with bind_loop_result[OF b[unfolded bind_port_def]] show ?thesis by (auto split: sum.splits)
qed

lemma own_ok:
  assumes "owned_ok p m" "leases p (pl_port l) = None" "usable_port p (pl_port l)" "map_of m (OwnerAlias plan) = None"
    "ListenPort plan = pl_port l"
  shows "owned_ok (p\<lparr>leases := (leases p)(pl_port l \<mapsto> l), next_id := next_id p + 1\<rparr>) (own plan (Some l) m)"
proof -
  have new: "OwnerAlias plan \<notin> fst ` set m" using assms(4) by (simp add: map_of_eq_None_iff)
  then have m: "own plan (Some l) m = (OwnerAlias plan, \<lparr>lr_plan = plan, lr_port = Some l, lr_cleanup = False\<rparr>) # m"
    by (force simp: own_def filter_id_conv)
  let ?p = "p\<lparr>leases := (leases p)(pl_port l \<mapsto> l), next_id := next_id p + 1\<rparr>"
  have old: "ListenPort (lr_plan r) \<noteq> pl_port l" "resource_ok ?p a r" if "(a, r) \<in> set m" for a r
  proof -
    from assms(1) that have ok: "resource_ok p a r" by (auto simp: owned_ok_def)
    then obtain l' where l': "lr_port r = Some l'" "pl_port l' = ListenPort (lr_plan r)" "leases p (pl_port l') = Some l'"
      by (auto simp: resource_ok_def)
    with assms(2) show "ListenPort (lr_plan r) \<noteq> pl_port l" by auto
    with ok l' show "resource_ok ?p a r" by (simp add: resource_ok_def usable_port_def)
  qed
  have fresh: "resource_ok ?p (OwnerAlias plan) \<lparr>lr_plan = plan, lr_port = Some l, lr_cleanup = False\<rparr>"
    using assms(3,5) by (simp add: resource_ok_def usable_port_def)
  have d: "distinct (map fst m)" "inj_on (\<lambda>(a, r). ListenPort (lr_plan r)) (set m)" using assms(1) by (simp_all add: owned_ok_def)
  have "inj_on (\<lambda>(a, r). ListenPort (lr_plan r)) (set (own plan (Some l) m))"
    unfolding m list.set(2) using d(2) old(1) assms(5) by (auto simp: inj_on_insert) blast+
  with d(1) new old(2) fresh show ?thesis unfolding m owned_ok_def by auto
qed

lemma reserve_plan_step:
  assumes "owned_ok p m" "(Port (lp_Ports plan) \<noteq> 0) = fixed \<longrightarrow> map_of m (OwnerAlias plan) = None"
    "reserve_plan sys fixed plan (n, p, m) = (plan', n', p', m')"
  shows "owned_ok p' m' \<and> vfpPort p' = vfpPort p \<and> OwnerAlias plan' = OwnerAlias plan \<and> lp_Ports plan' = lp_Ports plan
    \<and> (\<forall>a. a \<noteq> OwnerAlias plan \<longrightarrow> map_of m' a = map_of m a)
    \<and> (if (Port (lp_Ports plan) \<noteq> 0) = fixed then settled m' plan' else plan' = plan \<and> m' = m)"
proof (cases "(Port (lp_Ports plan) \<noteq> 0) = fixed")
  case False
  with assms(1,3) show ?thesis by (auto simp: reserve_plan_def)
next
  case True
  obtain n1 p1 r where r: "reserveStaticPort sys plan p n = (n1, p1, r)" by (metis prod_cases3)
  note res = reserveStaticPort_result[OF r]
  show ?thesis
  proof (cases r)
    case (Inl e)
    with True assms r res show ?thesis by (auto simp: reserve_plan_def settled_def)
  next
    case (Inr l)
    let ?plan = "plan\<lparr>ListenPort := pl_port l\<rparr>"
    have eq: "plan' = ?plan" "p' = p1" "m' = own ?plan (Some l) m"
      using True assms(2,3) r Inr by (auto simp: reserve_plan_def Let_def)
    have "owned_ok p' m'" using own_ok[OF assms(1), of l ?plan] res Inr eq assms(2) True by simp
    moreover have "map_of m' a = map_of m a" if "a \<noteq> OwnerAlias plan" for a
      using that unfolding eq own_def by (induction m) auto
    moreover have "settled m' plan'" by (simp add: eq settled_def own_def)
    ultimately show ?thesis using True res Inr eq by simp
  qed
qed

lemma reserve_plans_steps:
  assumes "owned_ok p m" "distinct (map OwnerAlias plans)"
    "\<forall>plan \<in> set plans. (Port (lp_Ports plan) \<noteq> 0) = fixed \<longrightarrow> map_of m (OwnerAlias plan) = None"
    "reserve_plans sys fixed plans (n, p, m) = (plans', n', p', m')"
  shows "owned_ok p' m' \<and> vfpPort p' = vfpPort p \<and> map OwnerAlias plans' = map OwnerAlias plans
    \<and> map lp_Ports plans' = map lp_Ports plans
    \<and> (\<forall>a. a \<notin> OwnerAlias ` {plan \<in> set plans. (Port (lp_Ports plan) \<noteq> 0) = fixed} \<longrightarrow> map_of m' a = map_of m a)
    \<and> (\<forall>plan' \<in> set plans'. if (Port (lp_Ports plan') \<noteq> 0) = fixed then settled m' plan' else plan' \<in> set plans)"
  using assms
proof (induction plans arbitrary: n p m plans' n' p' m')
  case (Cons plan plans)
  obtain q n1 p1 m1 where one: "reserve_plan sys fixed plan (n, p, m) = (q, n1, p1, m1)" by (metis prod_cases4)
  obtain qs n2 p2 m2 where rest: "reserve_plans sys fixed plans (n1, p1, m1) = (qs, n2, p2, m2)" by (metis prod_cases4)
  have eq: "plans' = q # qs" "p' = p2" "m' = m2" using Cons.prems(4) one rest by auto
  have s: "owned_ok p1 m1 \<and> vfpPort p1 = vfpPort p \<and> OwnerAlias q = OwnerAlias plan \<and> lp_Ports q = lp_Ports plan
    \<and> (\<forall>a. a \<noteq> OwnerAlias plan \<longrightarrow> map_of m1 a = map_of m a)
    \<and> (if (Port (lp_Ports plan) \<noteq> 0) = fixed then settled m1 q else q = plan \<and> m1 = m)"
    using reserve_plan_step[OF Cons.prems(1) _ one] Cons.prems(3) by simp
  have new: "OwnerAlias plan \<notin> OwnerAlias ` set plans" and d: "distinct (map OwnerAlias plans)" using Cons.prems(2) by auto
  have "\<forall>x \<in> set plans. (Port (lp_Ports x) \<noteq> 0) = fixed \<longrightarrow> map_of m1 (OwnerAlias x) = None"
  proof (intro ballI impI)
    fix x assume x: "x \<in> set plans" "(Port (lp_Ports x) \<noteq> 0) = fixed"
    then have "OwnerAlias x \<noteq> OwnerAlias plan" using new by (metis imageI)
    with s have "map_of m1 (OwnerAlias x) = map_of m (OwnerAlias x)" by blast
    with x Cons.prems(3) show "map_of m1 (OwnerAlias x) = None" by simp
  qed
  note ih = Cons.IH[OF conjunct1[OF s] d this rest]
  have "OwnerAlias plan \<notin> OwnerAlias ` {x \<in> set plans. (Port (lp_Ports x) \<noteq> 0) = fixed}" using new by blast
  with ih have keep: "map_of m2 (OwnerAlias plan) = map_of m1 (OwnerAlias plan)" by blast
  have q: "if (Port (lp_Ports q) \<noteq> 0) = fixed then settled m2 q else q \<in> set (plan # plans)"
    using s keep by (auto simp: settled_def)
  have others: "\<forall>a. a \<notin> OwnerAlias ` {x \<in> set (plan # plans). (Port (lp_Ports x) \<noteq> 0) = fixed} \<longrightarrow> map_of m2 a = map_of m a"
  proof (intro allI impI)
    fix a assume a: "a \<notin> OwnerAlias ` {x \<in> set (plan # plans). (Port (lp_Ports x) \<noteq> 0) = fixed}"
    then have "map_of m2 a = map_of m1 a" using ih by auto
    moreover have "map_of m1 a = map_of m a" using a s by (cases "(Port (lp_Ports plan) \<noteq> 0) = fixed") auto
    ultimately show "map_of m2 a = map_of m a" by simp
  qed
  from s ih q others show ?case unfolding eq by auto
qed simp


lemma settled_distinct:
  assumes "owned_ok p m" "distinct (map OwnerAlias plans)" "\<forall>plan \<in> set plans. settled m plan"
  shows "distinct (map ListenPort (filter (\<lambda>plan. \<not> WaitingPort plan) plans))
    \<and> (\<forall>plan \<in> set plans. \<not> WaitingPort plan \<longrightarrow> usable_port p (ListenPort plan) \<and> leases p (ListenPort plan) \<noteq> None)"
proof -
  let ?ps = "filter (\<lambda>plan. \<not> WaitingPort plan) plans"
  have res: "\<exists>r. (OwnerAlias plan, r) \<in> set m \<and> ListenPort (lr_plan r) = ListenPort plan" if "plan \<in> set ?ps" for plan
    using assms(3) that by (auto simp: settled_def dest: map_of_SomeD)
  have inj: "inj_on ListenPort (set ?ps)"
  proof (rule inj_onI)
    fix x y assume xy: "x \<in> set ?ps" "y \<in> set ?ps" "ListenPort x = ListenPort y"
    obtain r r' where rr: "(OwnerAlias x, r) \<in> set m" "(OwnerAlias y, r') \<in> set m"
      "ListenPort (lr_plan r) = ListenPort x" "ListenPort (lr_plan r') = ListenPort y"
      using res[OF xy(1)] res[OF xy(2)] by blast
    have "inj_on (\<lambda>(a, r). ListenPort (lr_plan r)) (set m)" using assms(1) by (simp add: owned_ok_def)
    from inj_onD[OF this _ rr(1,2)] rr(3,4) xy(3) have "OwnerAlias x = OwnerAlias y" by simp
    with assms(2) xy(1,2) show "x = y" by (auto simp: distinct_map dest: inj_onD)
  qed
  moreover have "distinct ?ps" using assms(2) by (simp add: distinct_map)
  ultimately have "distinct (map ListenPort ?ps)" by (simp add: distinct_map)
  moreover have "usable_port p (ListenPort plan) \<and> leases p (ListenPort plan) \<noteq> None" if "plan \<in> set ?ps" for plan
    using res[OF that] assms(1) unfolding owned_ok_def resource_ok_def by fastforce
  ultimately show ?thesis by simp
qed

lemma reserveStaticPorts_ok:
  assumes "distinct (map OwnerAlias links)" "reserveStaticPorts sys links (n, new_pool vfp, []) = (links', n', p, m)"
  shows "map OwnerAlias links' = map OwnerAlias links \<and> vfpPort p = vfp
    \<and> distinct (map ListenPort (filter (\<lambda>plan. \<not> WaitingPort plan) links'))
    \<and> (\<forall>plan \<in> set links'. \<not> WaitingPort plan \<longrightarrow> usable_port p (ListenPort plan) \<and> leases p (ListenPort plan) \<noteq> None)"
proof -
  obtain ls n1 p1 m1 where a: "reserve_plans sys True links (n, new_pool vfp, []) = (ls, n1, p1, m1)" by (metis prod_cases4)
  with assms(2) have b: "reserve_plans sys False ls (n1, p1, m1) = (links', n', p, m)" by (simp add: reserveStaticPorts_def)
  have "owned_ok (new_pool vfp) []" by (simp add: owned_ok_def)
  from reserve_plans_steps[OF this assms(1) _ a] have one: "owned_ok p1 m1" "vfpPort p1 = vfp" "map OwnerAlias ls = map OwnerAlias links"
    "\<forall>a. a \<notin> OwnerAlias ` {plan \<in> set links. (Port (lp_Ports plan) \<noteq> 0) = True} \<longrightarrow> map_of m1 a = None"
    "map lp_Ports ls = map lp_Ports links" "\<forall>plan \<in> set ls. if (Port (lp_Ports plan) \<noteq> 0) = True then settled m1 plan else plan \<in> set links"
    by (simp_all add: new_pool_def)
  have d: "distinct (map OwnerAlias ls)" using one(3) assms(1) by simp
  have fresh: "\<forall>plan \<in> set ls. (Port (lp_Ports plan) \<noteq> 0) = False \<longrightarrow> map_of m1 (OwnerAlias plan) = None"
  proof (intro ballI impI)
    fix plan assume pl: "plan \<in> set ls" "(Port (lp_Ports plan) \<noteq> 0) = False"
    with one(6) have l: "plan \<in> set links" by auto
    have "OwnerAlias plan \<notin> OwnerAlias ` {x \<in> set links. Port (lp_Ports x) \<noteq> 0}"
      using assms(1) l pl(2) by (auto simp: distinct_map dest: inj_onD)
    with one(4) show "map_of m1 (OwnerAlias plan) = None" by simp
  qed
  from reserve_plans_steps[OF one(1) d fresh b] have two: "owned_ok p m" "vfpPort p = vfpPort p1" "map OwnerAlias links' = map OwnerAlias ls"
    "\<forall>a. a \<notin> OwnerAlias ` {plan \<in> set ls. (Port (lp_Ports plan) \<noteq> 0) = False} \<longrightarrow> map_of m a = map_of m1 a"
    "\<forall>plan \<in> set links'. if (Port (lp_Ports plan) \<noteq> 0) = False then settled m plan else plan \<in> set ls" by simp_all
  have all: "settled m plan" if pl: "plan \<in> set links'" for plan
  proof (cases "Port (lp_Ports plan) = 0")
    case False
    with two(5) pl have l: "plan \<in> set ls" by auto
    with one(6) False have s: "settled m1 plan" by auto
    have "OwnerAlias plan \<notin> OwnerAlias ` {x \<in> set ls. (Port (lp_Ports x) \<noteq> 0) = False}"
      using d l False by (auto simp: distinct_map dest: inj_onD)
    with two(4) s show ?thesis by (simp add: settled_def)
  qed (use two(5) pl in auto)
  have "distinct (map OwnerAlias links')" using two(3) d by simp
  from settled_distinct[OF two(1) this] all have "distinct (map ListenPort (filter (\<lambda>plan. \<not> WaitingPort plan) links'))
    \<and> (\<forall>plan \<in> set links'. \<not> WaitingPort plan \<longrightarrow> usable_port p (ListenPort plan) \<and> leases p (ListenPort plan) \<noteq> None)" by blast
  with two(2,3) one(2,3) show ?thesis by simp
qed

section \<open>Properties\<close>

lemma range_candidates:
  assumes "0 < First (Range c)" "First (Range c) \<le> Last (Range c)"
  shows "set (port_candidates c sticky start) = {First (Range c) .. Last (Range c)}"
proof -
  let ?f = "First (Range c)" and ?n = "Last (Range c) - First (Range c) + 1"
  have n: "0 < ?n" using assms(2) by simp
  have all: "(\<lambda>i. ?f + (start + i) mod ?n) ` {0 .. ?n - 1} = {?f .. Last (Range c)}"
  proof
    show "(\<lambda>i. ?f + (start + i) mod ?n) ` {0 .. ?n - 1} \<subseteq> {?f .. Last (Range c)}"
    proof
      fix x assume "x \<in> (\<lambda>i. ?f + (start + i) mod ?n) ` {0 .. ?n - 1}"
      then obtain i where "x = ?f + (start + i) mod ?n" by blast
      with pos_mod_bound[OF n, of "start + i"] pos_mod_sign[OF n, of "start + i"] show "x \<in> {?f .. Last (Range c)}" by simp
    qed
    show "{?f .. Last (Range c)} \<subseteq> (\<lambda>i. ?f + (start + i) mod ?n) ` {0 .. ?n - 1}"
    proof
      fix x assume x: "x \<in> {?f .. Last (Range c)}"
      let ?i = "(x - ?f - start) mod ?n"
      have "(start + ?i) mod ?n = (x - ?f) mod ?n" by (simp add: mod_add_right_eq)
      also have "\<dots> = x - ?f" using x by (intro mod_pos_pos_trivial) auto
      finally have "x = ?f + (start + ?i) mod ?n" by simp
      moreover have "?i \<in> {0 .. ?n - 1}" using pos_mod_bound[OF n, of "x - ?f - start"] pos_mod_sign[OF n, of "x - ?f - start"] by simp
      ultimately show "x \<in> (\<lambda>i. ?f + (start + i) mod ?n) ` {0 .. ?n - 1}" by blast
    qed
  qed
  have "set (port_candidates c sticky start) = (if ?f \<le> sticky \<and> sticky \<le> Last (Range c) then {sticky} else {})
      \<union> ({?f .. Last (Range c)} - {sticky})"
    using assms(1) all by (auto simp: port_candidates_def Let_def)
  then show ?thesis by auto
qed

lemma bind_loop_exhausted:
  assumes "bind_loop f ports le p s = (s', p', Inl e)" "\<forall>port s s'' a. f port s = (s'', Inr a) \<longrightarrow> port \<noteq> 0 \<longrightarrow> a = port"
    "\<forall>port \<in> set ports. 1 \<le> port \<and> port \<le> 65535" "port \<in> set ports"
  shows "port = vfpPort p \<or> leases p port \<noteq> None \<or> (\<exists>st st' x. f port st = (st', Inl x))"
  using assms
proof (induction ports arbitrary: le s)
  case (Cons q ports)
  obtain s1 a where f: "f q s = (s1, a)" by fastforce
  have q: "1 \<le> q" "q \<le> 65535" using Cons.prems(3) by auto
  show ?case
  proof (cases "q = vfpPort p \<or> leases p q \<noteq> None \<or> (\<exists>x. a = Inl x)")
    case True
    with Cons.prems(1) f q obtain le' s2 where "bind_loop f ports le' p s2 = (s', p', Inl e)" by (auto split: if_splits)
    from Cons.IH[OF this Cons.prems(2)] Cons.prems(3,4) True f show ?thesis by auto
  next
    case False
    then obtain x where "a = Inr x" by (cases a) auto
    with Cons.prems(2) f q have "a = Inr q" by fastforce
    with Cons.prems(1) False f q show ?thesis by (auto simp: Let_def)
  qed
qed simp

text \<open>
  C15: ports are exclusive.  After any sequence of reservations, successful or not, and releases of
  leases handed out before, repeated and late ones included, no two live leases share a port, each
  live lease is recorded as the holder of its port, which is a valid UDP port other than the VFP
  port, and releasing a lease that is no longer live leaves the pool as it is.
\<close>
theorem ports_exclusive:
  assumes "lease_run serve (\<lambda>l. release_lease (Some l)) evs (new_pool vfp, [], []) = (p, issued, live)"
  shows "distinct issued \<and> inj_on pl_port (set live)
    \<and> list_all (\<lambda>l. leases p (pl_port l) = Some l \<and> 1 \<le> pl_port l \<and> pl_port l \<le> 65535 \<and> pl_port l \<noteq> vfp) live
    \<and> (l \<in> set live \<or> leases (release_lease (Some l) p) = leases p)"
proof -
  have "leases (new_pool vfp) = (\<lambda>_. None)" by (simp add: new_pool_def)
  note run = port_pool.run_exclusive[OF this assms] port_pool.stale_release[OF this assms, of l]
  have "usable_port p = usable_port (new_pool vfp)" by (rule port_pool.run_allowed[OF assms])
  with run show ?thesis by (auto simp: list_all_iff usable_port_def new_pool_def)
qed

definition sample_request :: "unit request" where
  "sample_request = \<lparr>rq_bind = (\<lambda>port s. (s, Inr port)), rq_choice = \<lparr>Port = 0, Range = \<lparr>First = 5000, Last = 5002\<rparr>\<rparr>,
     rq_sticky = 0, rq_start = 1, rq_env = ()\<rparr>"

theorem ports_exclusive_witness:
  "case lease_run serve (\<lambda>l. release_lease (Some l)) [Inl sample_request, Inl sample_request, Inl sample_request] (new_pool 5001, [], []) of
     (p, issued, live) \<Rightarrow> map pl_port live = [5000, 5002] \<and> inj_on pl_port (set live)"
proof -
  let ?run = "lease_run serve (\<lambda>l. release_lease (Some l)) [Inl sample_request, Inl sample_request, Inl sample_request] (new_pool 5001, [], [])"
  have "map pl_port (snd (snd ?run)) = [5000, 5002]" by code_simp
  moreover have "inj_on pl_port (set (snd (snd ?run)))" using ports_exclusive[of _ 5001 "fst ?run" "fst (snd ?run)" "snd (snd ?run)"] by (metis prod.collapse)
  ultimately show ?thesis by (simp add: split_def)
qed

text \<open>
  A reservation from a range gives a port of the range, and fails only when every port of the
  range is taken: it is the VFP port, it is leased, or the system refuses it.
\<close>
lemma bind_covers_range:
  assumes "1 \<le> First (Range choice)" "First (Range choice) \<le> Last (Range choice)" "Last (Range choice) \<le> 65535"
    and "\<forall>port s s'' a. f port s = (s'', Inr a) \<longrightarrow> port \<noteq> 0 \<longrightarrow> a = port"
    and "bind_port f choice sticky start p s = (s', p', r)"
  shows "case r of
      Inr l \<Rightarrow> First (Range choice) \<le> pl_port l \<and> pl_port l \<le> Last (Range choice)
    | Inl _ \<Rightarrow> p' = p \<and> (\<forall>port \<in> {First (Range choice) .. Last (Range choice)}.
        port = vfpPort p \<or> leases p port \<noteq> None \<or> (\<exists>st st' x. f port st = (st', Inl x)))"
proof -
  have c: "set (port_candidates choice sticky start) = {First (Range choice) .. Last (Range choice)}"
    using range_candidates assms(1,2) by simp
  from assms(5) have b: "bind_loop f (port_candidates choice sticky start) None p s = (s', p', r)" by (simp add: bind_port_def)
  show ?thesis
  proof (cases r)
    case (Inl e)
    with b have b: "bind_loop f (port_candidates choice sticky start) None p s = (s', p', Inl e)" by simp
    have "\<forall>port \<in> set (port_candidates choice sticky start). 1 \<le> port \<and> port \<le> 65535" using c assms(1,3) by auto
    from bind_loop_exhausted[OF b assms(4) this] bind_loop_result[OF b] c Inl show ?thesis by auto
  next
    case (Inr l)
    with bind_loop_result[OF b] c assms(1) show ?thesis by auto
  qed
qed



definition sample_plan :: "string \<Rightarrow> PortChoice \<Rightarrow> LinkPlan" where
  "sample_plan name choice = \<lparr>WaitingPort = False, lp_Ports = choice, Probing = False, ReceiveOnly = False, lp_PeerName = name,
     lp_InterfaceName = name, OwnerAlias = name, lp_PrivateKey = 0, PeerPublicKey = 0, PresharedKey = 0,
     ListenPort = 0, lp_Endpoints = [], Keepalive = None, BootstrapAddress = NoPrefix, LinkOverrides = []\<rparr>"

definition sample_system :: "(unit, u16) system" where
  "sample_system = \<lparr>sys_listen = (\<lambda>ep n. (n, Inr (ap_Port ep))), sys_listen_any = (\<lambda>port n. (n, Inr (word_of_int port))),
     sys_close = (\<lambda>_ n. n), sys_port = id, sys_rand = (\<lambda>_ n. (n, 0)), sys_ListenPort = (\<lambda>_ n. (n, 0)),
     sys_RemoveDynamic = (\<lambda>_ n. (n, None)), sys_PrepareLink = (\<lambda>q n. (n, Inr q)), sys_ConfigureLink = (\<lambda>_ n. (n, None))\<rparr>"

definition sample_links :: "LinkPlan list" where
  "sample_links = [sample_plan ''a'' \<lparr>Port = 0, Range = \<lparr>First = 6000, Last = 6001\<rparr>\<rparr>, sample_plan ''b'' \<lparr>Port = 6000, Range = no_range\<rparr>]"


end
