(* ===== verification/Probe_Socket.thy ===== *)
theory Probe_Socket
  imports Message_Properties
begin

text \<open>
  Package \<^verbatim>\<open>internal/vfp/probe\<close> (\<^verbatim>\<open>socket.go\<close>): the authenticated, one-way probes that two nodes
  exchange over the public network while they look for a direct path.  \<open>Seal\<close> and \<open>open_probe\<close>
  are the two ends of a probe, \<open>Receiver\<close> is the replay state the sockets of one lease share, and
  \<open>receive_packet\<close> is the body of the receive loop of a socket.  The lemmas show that opening is the
  exact inverse of sealing and that a receiver reports each sequence number at most once.
\<close>

unbundle bit_operations_syntax

section \<open>Sealing and opening\<close>

abbreviation MaxPackets :: u64 where "MaxPackets \<equiv> 12000"

text \<open>
  AES-GCM is a parameter: sealing and opening under a key, a nonce, a text and the additional data
  that is authenticated with it.  \<open>aead_laws\<close> states what the package documents of it: a sealed text
  opens under the same key, nonce and additional data, the tag adds 16 octets, and since the tag is
  a function of the other arguments nothing but the sealed text opens.
\<close>

record cipher =
  c_Seal :: "array32 \<Rightarrow> bytes \<Rightarrow> bytes \<Rightarrow> bytes \<Rightarrow> bytes"
  c_Open :: "array32 \<Rightarrow> bytes \<Rightarrow> bytes \<Rightarrow> bytes \<Rightarrow> bytes option"

definition aead_laws :: "cipher \<Rightarrow> bool" where
  "aead_laws c \<longleftrightarrow>
    (\<forall>k n p a. length (c_Seal c k n p a) = length p + 16)
    \<and> (\<forall>k n x p a. c_Open c k n x a = Some p \<longleftrightarrow> x = c_Seal c k n p a)"

record Received =
  rv_Round :: u16
  rv_Sequence :: u64
  rv_Destination :: addrport
  rv_Seen :: addrport

text \<open>The replay array is indexed by sequence numbers the guards keep between 1 and \<open>MaxPackets\<close>.\<close>

record Receiver =
  rc_ID :: array16
  rc_Key :: array32
  rc_seen :: "u64 \<Rightarrow> bool"
  rc_until :: int

definition NewReceiver :: "array16 \<Rightarrow> int \<Rightarrow> array32 result \<Rightarrow> Receiver result" where
  "NewReceiver ident until random =
    bind_r random (\<lambda>key. Inr \<lparr>rc_ID = ident, rc_Key = key, rc_seen = (\<lambda>_. False), rc_until = until\<rparr>)"

definition probe_nonce :: "u64 \<Rightarrow> bytes" where
  "probe_nonce seq = replicate 4 0 @ be_bytes 8 seq"

definition copy_over :: "bytes \<Rightarrow> bytes \<Rightarrow> bytes" where
  "copy_over dst src = take (length dst) src @ drop (length src) dst"

definition Seal :: "cipher \<Rightarrow> array16 \<Rightarrow> array32 \<Rightarrow> u64 \<Rightarrow> u16 \<Rightarrow> addrport \<Rightarrow> bytes result" where
  "Seal c ident key seq round dst =
    (if seq = 0 \<or> MaxPackets < seq \<or> 16 < round then Inl (ErrNew ''probe budget or round invalid'')
     else
       bind_r (encodeEndpoint dst) (\<lambda>ep.
         let plain = be_bytes 2 round @ ep;
             data = be_bytes 16 ident @ be_bytes 8 seq @ replicate (length plain + 16) 0
         in bind_r (EncodeDatagram ((message_of PublicProbe)\<lparr>m_Data := data\<rparr>)) (\<lambda>frame.
           let sealed = c_Seal c key (probe_nonce seq) plain (take 36 frame)
           in Inr (take 36 frame @ copy_over (drop 36 frame) sealed))))"

definition canonical_envelope :: "bytes \<Rightarrow> bool" where
  "canonical_envelope packet \<longleftrightarrow>
    62 \<le> length packet \<and> length packet \<le> MaxDatagramLength
    \<and> (be_word (take 4 packet) :: u32) = Magic \<and> packet ! 4 = Version \<and> packet ! 5 = PublicProbe
    \<and> unat (be_word (take 2 (drop 6 packet)) :: u16) = length packet
    \<and> (be_word (take 2 (drop 8 packet)) :: u16) = SealedProbeTLV
    \<and> unat (be_word (take 2 (drop 10 packet)) :: u16) = length packet - 12"

definition open_probe :: "cipher \<Rightarrow> Receiver \<Rightarrow> int \<Rightarrow> bytes \<Rightarrow> addrport \<Rightarrow> Receiver \<times> Received option" where
  "open_probe c r now packet seen =
    (if \<not> canonical_envelope packet then (r, None)
     else
       let ident = be_word (take 16 (drop 12 packet));
           seq = be_word (take 8 (drop 28 packet))
       in if ident \<noteq> rc_ID r \<or> seq = 0 \<or> MaxPackets < seq then (r, None)
          else if \<not> now < rc_until r \<or> rc_seen r seq then (r, None)
          else
            (case c_Open c (rc_Key r) (probe_nonce seq) (drop 36 packet) (take 36 packet) of
               None \<Rightarrow> (r, None)
             | Some plain \<Rightarrow>
               if length plain < 2 then (r, None)
               else
                 (let round = be_word (take 2 plain) in
                  case parseEndpoint (drop 2 plain) of
                    Inl _ \<Rightarrow> (r, None)
                  | Inr dst \<Rightarrow>
                    if 16 < round \<or> Is4 (ap_Addr seen) \<noteq> Is4 (ap_Addr dst) then (r, None)
                    else (r\<lparr>rc_seen := (rc_seen r)(seq := True)\<rparr>,
                          Some \<lparr>rv_Round = round, rv_Sequence = seq, rv_Destination = dst, rv_Seen = seen\<rparr>))))"

section \<open>The socket\<close>

text \<open>
  The receive loop of a probe socket bound to \<open>local\<close>.  A datagram carries the address it came from
  and, in the parsed control message, the slice with the local address it was sent to; a control
  message that does not parse is \<open>None\<close>.  The loop reads at most one octet more than a datagram may
  have, so that an oversized datagram stays oversized.
\<close>

record arrival =
  ar_now :: int
  ar_data :: bytes
  ar_from :: addrport
  ar_control :: "bytes option"

definition receive_packet :: "cipher \<Rightarrow> addr \<Rightarrow> Receiver \<Rightarrow> arrival \<Rightarrow> Receiver \<times> Received option" where
  "receive_packet c local r a =
    (case ar_control a of
       None \<Rightarrow> (r, None)
     | Some destination \<Rightarrow>
       (case AddrFromSlice destination of
          None \<Rightarrow> (r, None)
        | Some ip \<Rightarrow>
          if Unmap ip \<noteq> withoutZone (Unmap local) then (r, None)
          else open_probe c r (ar_now a) (take (MaxDatagramLength + 1) (ar_data a))
                 (AddrPort (Unmap (ap_Addr (ar_from a))) (ap_Port (ar_from a)))))"

fun receive_loop :: "cipher \<Rightarrow> Receiver \<Rightarrow> (addr \<times> arrival) list \<Rightarrow> Receiver \<times> Received list" where
  "receive_loop c r [] = (r, [])"
| "receive_loop c r ((local, a) # as) =
    (case receive_packet c local r a of (r, v) \<Rightarrow>
     case receive_loop c r as of (r, vs) \<Rightarrow> (r, (case v of None \<Rightarrow> vs | Some x \<Rightarrow> x # vs)))"

record 's sockets =
  sk_listen :: "u16 \<Rightarrow> 's \<Rightarrow> 's \<times> u16 result"
  sk_control :: "bool \<Rightarrow> 's \<Rightarrow> 's \<times> error option"
  sk_close :: "'s \<Rightarrow> 's"
  sk_write :: "bytes \<Rightarrow> addr \<Rightarrow> addrport \<Rightarrow> 's \<Rightarrow> 's \<times> error option"

definition Listen :: "'s sockets \<Rightarrow> addrport \<Rightarrow> 's \<Rightarrow> 's \<times> addrport result" where
  "Listen sk local s =
    (if \<not> AP_IsValid local \<or> IsUnspecified (ap_Addr local) \<or> IsMulticast (ap_Addr local)
     then (s, Inl (ErrNew ''probe requires a concrete local address''))
     else
       (case sk_listen sk (ap_Port local) s of
          (s, Inl e) \<Rightarrow> (s, Inl e)
        | (s, Inr port) \<Rightarrow>
          (case sk_control sk (Is4 (ap_Addr local)) s of
             (s, Some e) \<Rightarrow> (sk_close sk s, Inl e)
           | (s, None) \<Rightarrow> (s, Inr (AddrPort (ap_Addr local) port)))))"

definition Send :: "'s sockets \<Rightarrow> addrport \<Rightarrow> bytes \<Rightarrow> addrport \<Rightarrow> 's \<Rightarrow> 's \<times> error option" where
  "Send sk local packet dst s =
    (if Is4 (ap_Addr dst) \<noteq> Is4 (ap_Addr local)
     then (s, Some (ErrNew ''probe destination family differs from local address''))
     else sk_write sk packet (ap_Addr local) dst s)"

section \<open>The sealed frame\<close>

definition probe_prefix :: "array16 \<Rightarrow> u64 \<Rightarrow> nat \<Rightarrow> bytes" where
  "probe_prefix ident seq n =
    frame_header PublicProbe (36 + n) @ be_bytes 2 SealedProbeTLV
      @ be_bytes 2 (word_of_nat (24 + n) :: u16) @ be_bytes 16 ident @ be_bytes 8 seq"

lemma length_probe_prefix [simp]: "length (probe_prefix ident seq n) = 36"
  by (simp add: probe_prefix_def)

lemma EncodeDatagram_probe:
  assumes "n \<in> {26, 38}"
  shows "EncodeDatagram ((message_of PublicProbe)\<lparr>m_Data := be_bytes 16 ident @ be_bytes 8 seq @ replicate n 0\<rparr>)
    = Inr (probe_prefix ident seq n @ replicate n 0)"
  using assms
  by (auto simp: EncodeDatagram_def Encode_def encode_body_def udp_type_def Let_def Append_def probe_prefix_def type_class_defs)

lemma Seal_frame:
  assumes "aead_laws c"
  shows "Seal c ident key seq round dst = Inr packet \<longleftrightarrow>
    seq \<noteq> 0 \<and> seq \<le> MaxPackets \<and> round \<le> 16 \<and>
    (\<exists>ep. encodeEndpoint dst = Inr ep \<and>
      packet = probe_prefix ident seq (length ep + 18)
        @ c_Seal c key (probe_nonce seq) (be_bytes 2 round @ ep) (probe_prefix ident seq (length ep + 18)))"
proof (cases "encodeEndpoint dst")
  case (Inr ep)
  from encodeEndpoint_length[OF Inr] have "length ep + 18 \<in> {26, 38}" by auto
  from EncodeDatagram_probe[OF this] have
    "EncodeDatagram ((message_of PublicProbe)\<lparr>m_Data := be_bytes 16 ident @ be_bytes 8 seq @ replicate (Suc (Suc (length ep)) + 16) 0\<rparr>)
      = Inr (probe_prefix ident seq (length ep + 18) @ replicate (length ep + 18) 0)"
    by (simp add: add.commute)
  moreover have "length (c_Seal c key n (be_bytes 2 round @ ep) a) = length ep + 18" for n a
    using assms by (simp add: aead_laws_def)
  ultimately show ?thesis
    using Inr by (auto simp: Seal_def Let_def copy_over_def not_less)
qed (auto simp: Seal_def)

lemma envelope_split:
  assumes "canonical_envelope packet"
  shows "packet = probe_prefix (be_word (take 16 (drop 12 packet))) (be_word (take 8 (drop 28 packet))) (length packet - 36)
    @ drop 36 packet"
proof -
  from assms have len: "62 \<le> length packet" "length packet \<le> 1200"
    and f: "frameLength packet = Inr (length packet)"
    and code: "packet ! 5 = PublicProbe" "(be_word (take 2 (drop 8 packet)) :: u16) = SealedProbeTLV"
    and l16: "unat (be_word (take 2 (drop 10 packet)) :: u16) = length packet - 12"
    by (auto simp: canonical_envelope_def frameLength_def Let_def)
  from frame_split(1)[OF f] len code have head: "packet = frame_header PublicProbe (length packet) @ drop 8 packet" by simp
  have "be_bytes 2 SealedProbeTLV = take 2 (drop 8 packet)"
    using len be_bytes_be_word[of "take 2 (drop 8 packet)" 2, where 'a = 16] code(2) by simp
  moreover have "(word_of_nat (length packet - 12) :: u16) = be_word (take 2 (drop 10 packet))"
    using arg_cong[OF l16, of "word_of_nat :: nat \<Rightarrow> u16"] by simp
  then have "be_bytes 2 (word_of_nat (length packet - 12) :: u16) = take 2 (drop 10 packet)"
    using len by (simp add: be_bytes_be_word)
  moreover have "be_bytes 16 (be_word (take 16 (drop 12 packet)) :: array16) = take 16 (drop 12 packet)"
    "be_bytes 8 (be_word (take 8 (drop 28 packet)) :: u64) = take 8 (drop 28 packet)"
    using len by (simp_all add: be_bytes_be_word)
  moreover have "drop 8 packet = take 2 (drop 8 packet) @ take 2 (drop 10 packet) @ take 16 (drop 12 packet)
      @ take 8 (drop 28 packet) @ drop 36 packet"
    using append_take_drop_id[of 2 "drop 8 packet"] append_take_drop_id[of 2 "drop 10 packet"]
      append_take_drop_id[of 16 "drop 12 packet"] append_take_drop_id[of 8 "drop 28 packet"]
    by (simp del: append_take_drop_id)
  moreover have "24 + (length packet - 36) = length packet - 12" "36 + (length packet - 36) = length packet" using len by simp_all
  ultimately have "probe_prefix (be_word (take 16 (drop 12 packet))) (be_word (take 8 (drop 28 packet))) (length packet - 36)
    @ drop 36 packet = frame_header PublicProbe (length packet) @ drop 8 packet"
    by (simp only: probe_prefix_def append_assoc)
  with head show ?thesis by simp
qed

lemma envelope_prefix:
  assumes "26 \<le> length box" "length box \<le> 1164" and packet_def: "packet = probe_prefix ident seq (length box) @ box"
  shows "canonical_envelope packet" "be_word (take 16 (drop 12 packet)) = ident" "be_word (take 8 (drop 28 packet)) = seq"
    "take 36 packet = probe_prefix ident seq (length box)" "drop 36 packet = box"
proof -
  have p: "packet = frame_header PublicProbe (length packet) @ be_bytes 2 SealedProbeTLV
      @ be_bytes 2 (word_of_nat (length packet - 12) :: u16) @ be_bytes 16 ident @ be_bytes 8 seq @ box"
    by (simp add: packet_def probe_prefix_def)
  have len: "length packet = 36 + length box" by (simp add: packet_def)
  have f: "frameLength packet = Inr (length packet)"
    by (subst p) (rule frameLength_header; use len assms in simp)
  have "packet ! 5 = PublicProbe" by (subst p) (rule frame_header_type)
  moreover have "take 2 (drop 8 packet) = be_bytes 2 SealedProbeTLV"
    "take 2 (drop 10 packet) = be_bytes 2 (word_of_nat (length packet - 12) :: u16)" by (subst p; simp)+
  moreover have "unat (word_of_nat (length packet - 12) :: u16) = length packet - 12"
    by (rule unat_len16) (use len assms in simp)
  ultimately show "canonical_envelope packet"
    using f len assms by (auto simp: canonical_envelope_def frameLength_def Let_def be_word_be_bytes split: if_splits)
  show "be_word (take 16 (drop 12 packet)) = ident" "be_word (take 8 (drop 28 packet)) = seq" by (subst p; simp)+
  show "take 36 packet = probe_prefix ident seq (length box)" "drop 36 packet = box" by (simp_all add: packet_def)
qed

lemma open_accepts:
  assumes laws: "aead_laws c"
    and v: "now < rc_until r" "\<not> rc_seen r (rv_Sequence v)" "rv_Seen v = seen"
      "Is4 (ap_Addr seen) = Is4 (ap_Addr (rv_Destination v))" "\<not> hasZone (ap_Addr (rv_Destination v))"
    and s: "Seal c (rc_ID r) (rc_Key r) (rv_Sequence v) (rv_Round v) (rv_Destination v) = Inr packet"
  shows "open_probe c r now packet seen = (r\<lparr>rc_seen := (rc_seen r)(rv_Sequence v := True)\<rparr>, Some v)"
proof -
  from s[unfolded Seal_frame[OF laws]] obtain ep where ep: "encodeEndpoint (rv_Destination v) = Inr ep"
    and g: "rv_Sequence v \<noteq> 0" "rv_Sequence v \<le> MaxPackets" "rv_Round v \<le> 16"
    and p: "packet = probe_prefix (rc_ID r) (rv_Sequence v) (length ep + 18)
      @ c_Seal c (rc_Key r) (probe_nonce (rv_Sequence v)) (be_bytes 2 (rv_Round v) @ ep) (probe_prefix (rc_ID r) (rv_Sequence v) (length ep + 18))"
    by blast
  let ?box = "c_Seal c (rc_Key r) (probe_nonce (rv_Sequence v)) (be_bytes 2 (rv_Round v) @ ep) (probe_prefix (rc_ID r) (rv_Sequence v) (length ep + 18))"
  have box: "length ?box = length ep + 18" using laws by (simp add: aead_laws_def)
  with p have p': "packet = probe_prefix (rc_ID r) (rv_Sequence v) (length ?box) @ ?box" by simp
  have "26 \<le> length ?box" "length ?box \<le> 1164" using encodeEndpoint_length[OF ep] box by auto
  note e = envelope_prefix[OF this p']
  have "c_Open c (rc_Key r) (probe_nonce (rv_Sequence v)) (drop 36 packet) (take 36 packet) = Some (be_bytes 2 (rv_Round v) @ ep)"
    using laws by (simp only: e aead_laws_def box length_append length_be_bytes) (simp add: add.commute)
  moreover have "parseEndpoint ep = Inr (rv_Destination v)"
    using endpoint_codec.dec_enc[OF encodeEndpoint_ok_canon[OF ep v(5)] ep] .
  ultimately show ?thesis
    using e(1-3) g v(1-4) by (simp add: open_probe_def Let_def not_less)
qed

lemma open_only_sealed:
  assumes laws: "aead_laws c" and o: "open_probe c r now packet seen = (r', Some v)"
  shows "Seal c (rc_ID r) (rc_Key r) (rv_Sequence v) (rv_Round v) (rv_Destination v) = Inr packet"
    "now < rc_until r" "\<not> rc_seen r (rv_Sequence v)" "rv_Seen v = seen"
    "Is4 (ap_Addr seen) = Is4 (ap_Addr (rv_Destination v))" "\<not> hasZone (ap_Addr (rv_Destination v))"
    "r' = r\<lparr>rc_seen := (rc_seen r)(rv_Sequence v := True)\<rparr>"
proof -
  from o obtain plain where c: "canonical_envelope packet" and ident: "be_word (take 16 (drop 12 packet)) = rc_ID r"
    and seq: "be_word (take 8 (drop 28 packet)) = rv_Sequence v" "rv_Sequence v \<noteq> 0" "rv_Sequence v \<le> MaxPackets"
    and opened: "c_Open c (rc_Key r) (probe_nonce (rv_Sequence v)) (drop 36 packet) (take 36 packet) = Some plain"
    and plain: "2 \<le> length plain" "be_word (take 2 plain) = rv_Round v" "parseEndpoint (drop 2 plain) = Inr (rv_Destination v)"
      "rv_Round v \<le> 16"
    and rest: "now < rc_until r" "\<not> rc_seen r (rv_Sequence v)" "rv_Seen v = seen"
    "Is4 (ap_Addr seen) = Is4 (ap_Addr (rv_Destination v))" "r' = r\<lparr>rc_seen := (rc_seen r)(rv_Sequence v := True)\<rparr>"
    by (auto simp: open_probe_def Let_def not_less split: if_splits option.splits sum.splits)
  from rest show "now < rc_until r" "\<not> rc_seen r (rv_Sequence v)" "rv_Seen v = seen"
    "Is4 (ap_Addr seen) = Is4 (ap_Addr (rv_Destination v))" "r' = r\<lparr>rc_seen := (rc_seen r)(rv_Sequence v := True)\<rparr>" by auto
  have ep: "encodeEndpoint (rv_Destination v) = Inr (drop 2 plain)" "endpoint_canon (rv_Destination v)"
    using endpoint_codec.enc_dec[OF plain(3)] endpoint_codec.dec_canon[OF plain(3)] by auto
  then show "\<not> hasZone (ap_Addr (rv_Destination v))" by (simp add: endpoint_canon_def)
  have pl: "be_bytes 2 (rv_Round v) @ drop 2 plain = plain"
    using plain(1,2) be_bytes_be_word[of "take 2 plain" 2, where 'a = 16] by simp
  have box: "drop 36 packet = c_Seal c (rc_Key r) (probe_nonce (rv_Sequence v)) plain (take 36 packet)"
    using laws opened by (simp add: aead_laws_def)
  have "length (drop 36 packet) = length plain + 16" using laws box by (metis aead_laws_def)
  then have n: "length packet - 36 = length (drop 2 plain) + 18" using plain(1) by simp
  note split = envelope_split[OF c, unfolded ident seq(1) n]
  then have "take 36 packet = probe_prefix (rc_ID r) (rv_Sequence v) (length (drop 2 plain) + 18)"
    by (metis append_eq_conv_conj length_probe_prefix)
  with split box pl ep(1) seq(2,3) plain(4) show "Seal c (rc_ID r) (rc_Key r) (rv_Sequence v) (rv_Round v) (rv_Destination v) = Inr packet"
    unfolding Seal_frame[OF laws] by auto
qed

section \<open>A receiver over time\<close>

lemma open_probe_fixed: "open_probe c r now packet seen = (r', v) \<Longrightarrow>
    rc_ID r' = rc_ID r \<and> rc_Key r' = rc_Key r \<and> rc_until r' = rc_until r"
  by (auto simp: open_probe_def Let_def split: if_splits option.splits sum.splits)

lemma open_probe_None: "open_probe c r now packet seen = (r', None) \<Longrightarrow> r' = r"
  by (auto simp: open_probe_def Let_def split: if_splits option.splits sum.splits)

lemma receive_packet_cases:
  assumes "receive_packet c local r a = (r', v)"
  obtains "v = None" "r' = r"
    | x ip destination where "v = Some x" "ar_control a = Some destination" "AddrFromSlice destination = Some ip"
      "Unmap ip = withoutZone (Unmap local)"
      "open_probe c r (ar_now a) (take 1201 (ar_data a)) (AddrPort (Unmap (ap_Addr (ar_from a))) (ap_Port (ar_from a))) = (r', Some x)"
  using assms open_probe_None
  by (cases v) (auto simp: receive_packet_def split: option.splits if_splits)

text \<open>What one accepted report says about the datagram it came from.\<close>

definition genuine :: "cipher \<Rightarrow> Receiver \<Rightarrow> addr \<times> arrival \<Rightarrow> Received \<Rightarrow> bool" where
  "genuine c r la v \<longleftrightarrow>
    (case la of (local, a) \<Rightarrow>
      Seal c (rc_ID r) (rc_Key r) (rv_Sequence v) (rv_Round v) (rv_Destination v) = Inr (ar_data a)
      \<and> ar_now a < rc_until r
      \<and> rv_Seen v = AddrPort (Unmap (ap_Addr (ar_from a))) (ap_Port (ar_from a))
      \<and> (\<exists>destination ip. ar_control a = Some destination \<and> AddrFromSlice destination = Some ip
           \<and> Unmap ip = withoutZone (Unmap local)))"

lemma genuine_cong: "rc_ID r' = rc_ID r \<Longrightarrow> rc_Key r' = rc_Key r \<Longrightarrow> rc_until r' = rc_until r \<Longrightarrow> genuine c r' = genuine c r"
  by (auto simp: genuine_def fun_eq_iff)

lemma Seal_range:
  assumes "Seal c ident key seq round dst = Inr packet"
  shows "1 \<le> unat seq \<and> unat seq \<le> 12000"
proof -
  from assms have "seq \<noteq> 0" "seq \<le> MaxPackets" by (auto simp: Seal_def not_less split: if_splits)
  then show ?thesis by (auto simp: word_le_nat_alt Suc_le_eq unat_gt_0)
qed

lemma genuine_range: "genuine c r a v \<Longrightarrow> 1 \<le> unat (rv_Sequence v) \<and> unat (rv_Sequence v) \<le> 12000"
  by (cases a) (use Seal_range in \<open>auto simp only: genuine_def prod.case\<close>)

lemma Seal_length: "aead_laws c \<Longrightarrow> Seal c ident key seq round dst = Inr packet \<Longrightarrow> length packet \<le> 74"
  using encodeEndpoint_length[of dst] unfolding Seal_frame by (force simp: aead_laws_def)

lemma receive_loop_ok:
  assumes laws: "aead_laws c"
  shows "receive_loop c r as = (r', vs) \<Longrightarrow>
    distinct (map rv_Sequence vs) \<and> (\<forall>v \<in> set vs. \<not> rc_seen r (rv_Sequence v) \<and> (\<exists>a \<in> set as. genuine c r a v))"
proof (induction as arbitrary: r vs)
  case (Cons la as)
  obtain local a where la: "la = (local, a)" by force
  obtain r1 v where p: "receive_packet c local r a = (r1, v)" by force
  obtain vs1 where l: "receive_loop c r1 as = (r', vs1)" and vs: "vs = (case v of None \<Rightarrow> vs1 | Some x \<Rightarrow> x # vs1)"
    using Cons.prems la p by (auto split: prod.splits)
  note IH = Cons.IH[OF l]
  from p show ?case
  proof (cases rule: receive_packet_cases)
    case 1
    with IH vs show ?thesis by auto
  next
    case (2 x ip destination)
    note only = open_only_sealed[OF laws 2(5)]
    have fixed: "genuine c r1 = genuine c r" using open_probe_fixed[OF 2(5)] by (intro genuine_cong) auto
    have "take 1201 (ar_data a) = ar_data a" using Seal_length[OF laws only(1)] by simp
    with only(1,2,4) 2 la have "genuine c r la x" by (auto simp: genuine_def)
    moreover have "\<not> rc_seen r (rv_Sequence v') \<and> rv_Sequence v' \<noteq> rv_Sequence x" if "v' \<in> set vs1" for v'
      using IH that unfolding only(7) by (force split: if_splits)
    then have "rv_Sequence x \<notin> rv_Sequence ` set vs1" "\<forall>v' \<in> set vs1. \<not> rc_seen r (rv_Sequence v')" by force+
    ultimately show ?thesis using IH vs 2(1) only(3) by (auto simp: fixed)
  qed
qed simp

lemma distinct_bounded:
  assumes "distinct xs" "\<forall>x \<in> set xs. 1 \<le> unat x \<and> unat x \<le> n"
  shows "length xs \<le> n"
proof -
  have "inj_on unat (set xs)" by (auto simp: inj_on_def word_unat_eq_iff)
  then have "length xs = card (unat ` set xs)" using assms(1) by (simp add: card_image distinct_card)
  also have "\<dots> \<le> card {1..n}" using assms(2) by (intro card_mono) auto
  finally show ?thesis by simp
qed

section \<open>Properties\<close>

text \<open>
  A cipher that satisfies the laws: the text in the clear, with a tag that is not secret.  It serves
  to run the definitions; nothing rests on it.
\<close>

definition plain_cipher :: cipher where
  "plain_cipher = \<lparr>c_Seal = (\<lambda>k n p a. p @ replicate 16 0),
     c_Open = (\<lambda>k n x a. if 16 \<le> length x \<and> drop (length x - 16) x = replicate 16 0
                         then Some (take (length x - 16) x) else None)\<rparr>"

lemma plain_cipher_laws: "aead_laws plain_cipher"
proof -
  have "x = take (length x - 16) x @ replicate 16 0"
    if "16 \<le> length x" "drop (length x - 16) x = replicate 16 0" for x :: bytes
    using that(2) by (metis append_take_drop_id)
  then show ?thesis by (auto simp: aead_laws_def plain_cipher_def)
qed

definition sample_receiver :: Receiver where
  "sample_receiver = \<lparr>rc_ID = 7, rc_Key = 9, rc_seen = (\<lambda>_. False), rc_until = 100\<rparr>"

definition sample_probe :: Received where
  "sample_probe = \<lparr>rv_Round = 3, rv_Sequence = 12000, rv_Destination = AddrPort (Addr4 0xc0000201) 5000,
     rv_Seen = AddrPort (Addr4 0xc6336401) 6000\<rparr>"

definition sample_arrival :: "addr \<times> arrival" where
  "sample_arrival = (Addr4 0xc0000202, \<lparr>ar_now = 50, ar_data = projr (Seal plain_cipher 7 9 12000 3 (AddrPort (Addr4 0xc0000201) 5000)),
     ar_from = AddrPort (Addr6 0xffffc6336401 []) 6000, ar_control = Some [0xc0, 0, 2, 2]\<rparr>)"

lemma sample_sealed: "Seal plain_cipher 7 9 12000 3 (AddrPort (Addr4 0xc0000201) 5000) = Inr (ar_data (snd sample_arrival))"
proof -
  have "is_ok (Seal plain_cipher 7 9 12000 3 (AddrPort (Addr4 0xc0000201) 5000))" by code_simp
  then show ?thesis by (auto simp: sample_arrival_def is_ok_iff)
qed

text \<open>
  C17: a receiver accepts a packet exactly when it is the frame that \<open>Seal\<close> produces under the
  receiver's identifier and key for the sequence number, round and destination it reports, the
  lease has not expired, the number was not used before and the families agree; it then marks the
  number as used and reports where the packet was seen from.
\<close>
theorem probe_open_exact:
  assumes "aead_laws c"
  shows "open_probe c r now packet seen = (r', Some v) \<longleftrightarrow>
    Seal c (rc_ID r) (rc_Key r) (rv_Sequence v) (rv_Round v) (rv_Destination v) = Inr packet
    \<and> now < rc_until r \<and> \<not> rc_seen r (rv_Sequence v) \<and> rv_Seen v = seen
    \<and> Is4 (ap_Addr seen) = Is4 (ap_Addr (rv_Destination v)) \<and> \<not> hasZone (ap_Addr (rv_Destination v))
    \<and> r' = r\<lparr>rc_seen := (rc_seen r)(rv_Sequence v := True)\<rparr>"
  using open_only_sealed[OF assms] open_accepts[OF assms] by (metis (no_types, lifting))

theorem probe_open_exact_witness:
  "open_probe plain_cipher sample_receiver 50 (ar_data (snd sample_arrival)) (AddrPort (Addr4 0xc6336401) 6000)
    = (sample_receiver\<lparr>rc_seen := (\<lambda>_. False)(12000 := True)\<rparr>, Some sample_probe)"
  using sample_sealed unfolding probe_open_exact[OF plain_cipher_laws]
  by (simp add: sample_receiver_def sample_probe_def)

text \<open>
  C16: over the life of a receiver, whatever arrives on the sockets that share it, every sequence
  number is reported at most once and at most 12000 reports are made; each report stems from a
  datagram sealed under the receiver's key, which arrived before the lease expired on the address
  of its socket, and names the unmapped source of that datagram.
\<close>
theorem probes_reported_once:
  assumes "aead_laws c" "NewReceiver ident until random = Inr r" "receive_loop c r as = (r', vs)"
  shows "distinct (map rv_Sequence vs) \<and> length vs \<le> 12000 \<and> list_all (\<lambda>v. \<exists>a \<in> set as. genuine c r a v) vs"
proof -
  note ok = receive_loop_ok[OF assms(1,3)]
  have "1 \<le> unat (rv_Sequence v) \<and> unat (rv_Sequence v) \<le> 12000" if "v \<in> set vs" for v
    using ok that genuine_range by blast
  then have "length (map rv_Sequence vs) \<le> 12000"
    using ok by (intro distinct_bounded) auto
  with ok show ?thesis by (simp add: list_all_iff)
qed

theorem probes_reported_once_witness:
  "case receive_loop plain_cipher (projr (NewReceiver 7 100 (Inr 9))) [sample_arrival, sample_arrival] of
     (r, vs) \<Rightarrow> vs = [sample_probe] \<and> list_all (\<lambda>v. \<exists>a \<in> {sample_arrival}. genuine plain_cipher sample_receiver a v) vs"
proof -
  let ?r = "projr (NewReceiver 7 100 (Inr 9))"
  have r: "NewReceiver 7 100 (Inr 9) = Inr ?r" "?r = sample_receiver" by (simp_all add: NewReceiver_def sample_receiver_def)
  obtain r' vs where l: "receive_loop plain_cipher ?r [sample_arrival, sample_arrival] = (r', vs)" by force
  have "snd (receive_loop plain_cipher ?r [sample_arrival, sample_arrival]) = [sample_probe]" by code_simp
  with probes_reported_once[OF plain_cipher_laws r(1) l] l r(2) show ?thesis by simp
qed


end
