(* ===== verification/Peer_Targets.thy ===== *)
theory Peer_Targets
  imports Desired_State Message_Properties "HOL-Library.AList"
begin

text \<open>
  The table of routed peers of \<^verbatim>\<open>internal/runtime\<close>: \<^verbatim>\<open>dynamic_policy.go\<close>, the scanning and dialling
  half of \<^verbatim>\<open>dynamic_discovery.go\<close>, and the places of \<^verbatim>\<open>dynamic.go\<close>, \<^verbatim>\<open>dynamic_engine.go\<close>,
  \<^verbatim>\<open>dynamic_negotiation.go\<close> and \<^verbatim>\<open>runtime.go\<close> that write to it.  A target is what the node knows
  of a peer it reaches through the fabric: its identity, its last policy, and the budgets for
  dialling, asking and answering it.  The operations are functions on the state; a step relation
  interleaves them as the goroutines may, and the invariants are proved by rule induction over it.
\<close>

unbundle bit_operations_syntax

section \<open>The order of addresses\<close>

text \<open>
  \<^verbatim>\<open>netip.Addr.Compare\<close>: shorter addresses first, then by value, then by zone.
\<close>

instantiation addr :: linorder
begin

fun less_eq_addr :: "addr \<Rightarrow> addr \<Rightarrow> bool" where
  "less_eq_addr NoAddr b = True"
| "less_eq_addr (Addr4 v) NoAddr = False"
| "less_eq_addr (Addr4 v) (Addr4 w) = (v \<le> w)"
| "less_eq_addr (Addr4 v) (Addr6 w z) = True"
| "less_eq_addr (Addr6 v y) (Addr6 w z) = (v < w \<or> v = w \<and> y \<le> z)"
| "less_eq_addr (Addr6 v y) b = False"

definition less_addr :: "addr \<Rightarrow> addr \<Rightarrow> bool" where
  "less_addr a b = (a \<le> b \<and> \<not> b \<le> a)"

instance
proof
  fix a b c :: addr
  show "(a < b) = (a \<le> b \<and> \<not> b \<le> a)" by (simp add: less_addr_def)
  show "a \<le> a" by (cases a) auto
  show "a \<le> b \<Longrightarrow> b \<le> c \<Longrightarrow> a \<le> c" by (cases a; cases b; cases c) auto
  show "a \<le> b \<Longrightarrow> b \<le> a \<Longrightarrow> a = b" by (cases a; cases b) auto
  show "a \<le> b \<or> b \<le> a" by (cases a; cases b) auto
qed

end

section \<open>State\<close>

text \<open>
  Times are nanoseconds since the zero time, durations nanoseconds.  \<open>dynamicPeers\<close> is the part of
  \<^verbatim>\<open>dynamicLinkEngine\<close> these operations use: the targets by loopback address, the cursor of the
  policy sender, the dial budget, the slots taken in \<^verbatim>\<open>outboundSessions\<close>, the reserved policy
  revision, whether the policy socket is open and whether the engine has been stopped.  Log lines
  are not modelled.
\<close>

abbreviation second :: int where "second \<equiv> 1000000000"
abbreviation minute :: int where "minute \<equiv> 60 * second"
abbreviation dynamicRetryBase :: int where "dynamicRetryBase \<equiv> 10 * second"
abbreviation dynamicRetryMax :: int where "dynamicRetryMax \<equiv> 5 * minute"
abbreviation dynamicQueryInterval :: int where "dynamicQueryInterval \<equiv> 5 * minute"
abbreviation dynamicUpdateInterval :: int where "dynamicUpdateInterval \<equiv> 5 * second"
abbreviation dynamicTargetRetention :: int where "dynamicTargetRetention \<equiv> 30 * minute"
abbreviation maxDynamicDialsPerSecond :: nat where "maxDynamicDialsPerSecond \<equiv> 4"
abbreviation maxPolicySendsPerTick :: nat where "maxPolicySendsPerTick \<equiv> 16"
abbreviation maxDynamicTargets :: nat where "maxDynamicTargets \<equiv> 4096"
abbreviation maxRoutedSessions :: nat where "maxRoutedSessions \<equiv> 128"

record dynamicTarget =
  dialing :: bool
  t_uid :: array16
  bound :: bool
  failures :: byte
  nextAttempt :: int
  nextQuery :: int
  nextUpdate :: int
  t_policy :: "DynamicLinkPolicy option"
  pendingUpdate :: bool
  pendingQuery :: bool
  reachable :: bool
  lastSeen :: int

type_synonym target_map = "(addr \<times> dynamicTarget) list"

record dynamicPeers =
  targets :: target_map
  policyCursor :: nat
  dialWindow :: int
  dialCount :: nat
  outboundSessions :: nat
  policyRevision :: u64
  policySocket :: bool
  stopped :: bool

definition new_target :: "int \<Rightarrow> dynamicTarget" where
  "new_target now =
    \<lparr>dialing = False, t_uid = 0, bound = False, failures = 0, nextAttempt = 0, nextQuery = 0, nextUpdate = 0,
     t_policy = None, pendingUpdate = False, pendingQuery = False, reachable = False, lastSeen = now\<rparr>"

definition active :: "DesiredState \<Rightarrow> bool" where
  "active desired = (case ds_DynamicLinks desired of None \<Rightarrow> False | Some plan \<Rightarrow> dp_Mode plan = ''active'')"

definition allowsInbound :: "DesiredState \<Rightarrow> bool" where
  "allowsInbound desired =
    (case ds_DynamicLinks desired of
       None \<Rightarrow> False | Some plan \<Rightarrow> dp_Mode plan = ''active'' \<or> dp_Mode plan = ''passive'')"

section \<open>Budgets\<close>

text \<open>The random draw of \<^verbatim>\<open>rand.Int64N\<close> is an argument, reduced to the range that function has.\<close>

definition jitterDelay :: "int \<Rightarrow> int \<Rightarrow> int" where
  "jitterDelay base draw = base + draw mod (base div 4 + 1)"

definition retryDelay :: "byte \<Rightarrow> int \<Rightarrow> int" where
  "retryDelay fails draw =
    (let shift = min (unat fails) 6;
         shift = (if 0 < shift then shift - 1 else shift)
     in jitterDelay (min (dynamicRetryBase * 2 ^ shift) dynamicRetryMax) draw)"

section \<open>Targets and identities\<close>

definition targetLocked :: "addr \<Rightarrow> int \<Rightarrow> target_map \<Rightarrow> (target_map \<times> dynamicTarget) option" where
  "targetLocked a now m =
    (case map_of m a of
       Some t \<Rightarrow> Some (m, t)
     | None \<Rightarrow> if maxDynamicTargets \<le> length m then None
               else Some (AList.update a (new_target now) m, new_target now))"

definition claimed_elsewhere :: "addr \<Rightarrow> array16 \<Rightarrow> target_map \<Rightarrow> bool" where
  "claimed_elsewhere a u m = list_ex (\<lambda>(b, other). b \<noteq> a \<and> t_uid other = u) m"

definition bindPolicyPeer ::
  "addr \<Rightarrow> array16 \<Rightarrow> int \<Rightarrow> int \<Rightarrow> target_map \<Rightarrow> target_map \<times> error option" where
  "bindPolicyPeer a u now now' m =
    (case targetLocked a now m of
       None \<Rightarrow> (m, Some (ErrNew ''dynamic peer cache full''))
     | Some (m, t) \<Rightarrow>
       if t_uid t \<noteq> 0 \<and> t_uid t \<noteq> u then (m, Some (ErrNew ''routed peer identity conflicts with cached binding''))
       else if claimed_elsewhere a u m then (m, Some (ErrNew ''routed UID already bound to another loopback''))
       else (AList.update a (t\<lparr>t_uid := u, bound := True, lastSeen := now'\<rparr>) m, None))"

definition mergePolicyLocked :: "dynamicTarget \<Rightarrow> DynamicLinkPolicy option \<Rightarrow> dynamicTarget" where
  "mergePolicyLocked t p =
    (case p of
       None \<Rightarrow> t
     | Some p \<Rightarrow>
       if Revision p = 0 then t
       else if (case t_policy t of None \<Rightarrow> False | Some q \<Rightarrow> Revision p \<le> Revision q) then t
       else t\<lparr>t_policy := Some p, pendingQuery := False\<rparr>)"

definition receivePolicy :: "DesiredState \<Rightarrow> addr \<Rightarrow> Message \<Rightarrow> int \<Rightarrow> dynamicPeers \<Rightarrow> dynamicPeers" where
  "receivePolicy desired source m now d =
    (case m_UID m of
       None \<Rightarrow> d
     | Some sender \<Rightarrow>
       let u = UUID sender; t = map_of (targets d) source in
       if u = 0 \<or> u = ds_UUID desired then d
       else if stopped d then d
       else if (case t of None \<Rightarrow> False | Some t \<Rightarrow> t_uid t \<noteq> 0 \<and> t_uid t \<noteq> u) then d
       else if claimed_elsewhere source u (targets d) then d
       else if m_Type m = PolicyUpdate then
         (case t of
            None \<Rightarrow> d
          | Some t \<Rightarrow>
            if \<not> bound t \<or> t_uid t \<noteq> u then d
            else d\<lparr>targets := AList.update source (mergePolicyLocked t (m_Policy m)) (targets d)\<rparr>)
       else if m_Type m = PolicyQuery then
         (if \<not> allowsInbound desired then d
          else
            (case targetLocked source now (targets d) of
               None \<Rightarrow> d
             | Some (m', t) \<Rightarrow>
               d\<lparr>targets := AList.update source
                   (t\<lparr>t_uid := u, lastSeen := now, reachable := True, pendingUpdate := True\<rparr>) m'\<rparr>))
       else d)"

section \<open>Sending policies\<close>

definition flush_target ::
  "DesiredState \<Rightarrow> u64 \<Rightarrow> int \<Rightarrow> int \<Rightarrow> dynamicTarget \<Rightarrow> (dynamicTarget \<times> Message) option" where
  "flush_target desired revision now draw t =
    (let self = Some \<lparr>UUID = ds_UUID desired, Name = []\<rparr> in
     if pendingUpdate t \<and> reachable t \<and> nextUpdate t \<le> now \<and> revision \<noteq> 0 then
       Some (t\<lparr>pendingUpdate := False, nextUpdate := now + dynamicUpdateInterval\<rparr>,
             (message_of PolicyUpdate)\<lparr>m_UID := self, m_Policy := Some \<lparr>Revision = revision, Accept = allowsInbound desired\<rparr>\<rparr>)
     else if pendingQuery t \<and> nextQuery t \<le> now \<and> bound t
         \<and> (case t_policy t of None \<Rightarrow> False | Some p \<Rightarrow> \<not> Accept p) then
       Some (t\<lparr>pendingQuery := False, nextQuery := now + jitterDelay dynamicQueryInterval draw\<rparr>,
             (message_of PolicyQuery)\<lparr>m_UID := self\<rparr>)
     else None)"

text \<open>
  The traversal of the sorted keys: \<open>n\<close> keys are still to be visited in this call, the cursor says
  which one is next, and the loop stops early once enough messages are collected.
\<close>

fun flush_visits ::
  "(addr \<Rightarrow> dynamicTarget \<Rightarrow> (dynamicTarget \<times> Message) option) \<Rightarrow> addr list \<Rightarrow> nat
    \<Rightarrow> nat \<times> target_map \<times> (addr \<times> Message) list \<Rightarrow> nat \<times> target_map \<times> (addr \<times> Message) list" where
  "flush_visits f keys 0 st = st"
| "flush_visits f keys (Suc n) (cursor, m, sends) =
    (if maxPolicySendsPerTick \<le> length sends then (cursor, m, sends)
     else
       let idx = cursor mod length keys; a = keys ! idx; cursor = (idx + 1) mod length keys in
       (case Option.bind (map_of m a) (f a) of
          None \<Rightarrow> flush_visits f keys n (cursor, m, sends)
        | Some (t, msg) \<Rightarrow> flush_visits f keys n (cursor, AList.update a t m, sends @ [(a, msg)])))"

definition flushPolicy ::
  "DesiredState \<Rightarrow> int \<Rightarrow> (addr \<Rightarrow> int) \<Rightarrow> dynamicPeers \<Rightarrow> dynamicPeers \<times> (addr \<times> Message) list" where
  "flushPolicy desired now draws d =
    (if \<not> policySocket d then (d, [])
     else
       let keys = sort (map fst (targets d)) in
       case flush_visits (\<lambda>a. flush_target desired (policyRevision d) now (draws a)) keys (length keys)
              (policyCursor d, targets d, []) of
         (cursor, m, sends) \<Rightarrow> (d\<lparr>targets := m, policyCursor := cursor\<rparr>, sends))"

section \<open>Scanning and dialling\<close>

text \<open>
  \<open>busy u\<close> says that there is an attempt or a pending cleanup for the node \<open>u\<close>, and \<open>direct a\<close> that
  \<open>a\<close> is the node's own loopback or has a direct link.
\<close>

definition expired :: "int \<Rightarrow> (array16 \<Rightarrow> bool) \<Rightarrow> dynamicTarget \<Rightarrow> bool" where
  "expired now busy t \<longleftrightarrow>
    \<not> reachable t \<and> \<not> dialing t \<and> \<not> busy (t_uid t) \<and> dynamicTargetRetention < now - lastSeen t
    \<and> nextAttempt t \<le> now \<and> nextQuery t \<le> now"

definition scan_targets :: "int \<Rightarrow> addr list \<Rightarrow> (array16 \<Rightarrow> bool) \<Rightarrow> target_map \<Rightarrow> target_map" where
  "scan_targets now routed busy m =
    filter (\<lambda>(a, t). \<not> expired now busy t)
      (map (\<lambda>(a, t). (a, if a \<in> set routed then t\<lparr>reachable := True, pendingQuery := False, lastSeen := now\<rparr>
                          else t\<lparr>reachable := False, pendingQuery := False\<rparr>)) m)"

definition denied :: "dynamicTarget \<Rightarrow> bool" where
  "denied t = (case t_policy t of None \<Rightarrow> False | Some p \<Rightarrow> \<not> Accept p)"

definition mark_query :: "(array16 \<Rightarrow> bool) \<Rightarrow> addr \<Rightarrow> target_map \<Rightarrow> target_map" where
  "mark_query busy a m =
    (case map_of m a of
       None \<Rightarrow> m
     | Some t \<Rightarrow> if denied t \<and> \<not> dialing t \<and> \<not> busy (t_uid t)
                 then AList.update a (t\<lparr>pendingQuery := True\<rparr>) m else m)"

definition reserveDial ::
  "addr \<Rightarrow> bool \<Rightarrow> (array16 \<Rightarrow> bool) \<Rightarrow> int \<Rightarrow> int \<Rightarrow> dynamicPeers \<Rightarrow> dynamicPeers \<times> bool" where
  "reserveDial a direct busy now draw d =
    (let state = map_of (targets d) a in
     if direct then (d, False)
     else if stopped d \<or> (case state of None \<Rightarrow> False | Some t \<Rightarrow>
         dialing t \<or> now < nextAttempt t \<or> denied t \<or> busy (t_uid t)) then (d, False)
     else if state = None \<and> maxDynamicTargets \<le> length (targets d) then (d, False)
     else
       let d = (if second \<le> now - dialWindow d then d\<lparr>dialWindow := now, dialCount := 0\<rparr> else d) in
       if maxDynamicDialsPerSecond \<le> dialCount d then (d, False)
       else if maxRoutedSessions \<le> outboundSessions d then (d, False)
       else
         let t = (case state of None \<Rightarrow> new_target now | Some t \<Rightarrow> t);
             fails = min (failures t + 1) 7
         in (d\<lparr>targets := AList.update a (t\<lparr>dialing := True, failures := fails, nextAttempt := now + retryDelay fails draw\<rparr>) (targets d),
               dialCount := dialCount d + 1, outboundSessions := outboundSessions d + 1\<rparr>, True))"

text \<open>Later of the present budget and a fresh delay, \<^verbatim>\<open>next.After(t.nextAttempt)\<close>.\<close>

definition postpone :: "int \<Rightarrow> int \<Rightarrow> dynamicTarget \<Rightarrow> dynamicTarget" where
  "postpone now draw t =
    (let next = now + retryDelay (failures t) draw in
     if nextAttempt t < next then t\<lparr>nextAttempt := next\<rparr> else t)"

definition finishRoutedDial :: "addr \<Rightarrow> bool \<Rightarrow> (array16 \<Rightarrow> bool) \<Rightarrow> int \<Rightarrow> int \<Rightarrow> target_map \<Rightarrow> target_map" where
  "finishRoutedDial a failed up now draw m =
    (case map_of m a of
       None \<Rightarrow> m
     | Some t \<Rightarrow>
       let t = t\<lparr>dialing := False\<rparr> in
       AList.update a (if failed \<and> \<not> up (t_uid t) then postpone now draw t else t) m)"

definition on_peer :: "array16 \<Rightarrow> (dynamicTarget \<Rightarrow> dynamicTarget) \<Rightarrow> target_map \<Rightarrow> target_map" where
  "on_peer u f m =
    (case find (\<lambda>(a, t). t_uid t = u) m of None \<Rightarrow> m | Some (a, t) \<Rightarrow> AList.update a (f t) m)"

definition reset_budget :: "dynamicTarget \<Rightarrow> dynamicTarget" where
  "reset_budget t = t\<lparr>failures := 0, nextAttempt := 0\<rparr>"

definition admit_outbound :: "DesiredState \<Rightarrow> addr \<Rightarrow> array16 \<Rightarrow> target_map \<Rightarrow> target_map \<times> bool" where
  "admit_outbound desired a u m =
    (let t = (case map_of m a of None \<Rightarrow> new_target 0 | Some t \<Rightarrow> t);
         t = t\<lparr>t_uid := u, bound := True\<rparr>
     in (AList.update a t m, active desired \<and> \<not> denied t))"

text \<open>A reload: the next runtime inherits the targets when the node kept its place in the fabric.\<close>

definition InheritDynamic :: "DesiredState \<Rightarrow> DesiredState \<Rightarrow> dynamicPeers \<Rightarrow> target_map" where
  "InheritDynamic desired previous d =
    (if ds_UUID desired \<noteq> ds_UUID previous \<or> ds_LoopbackV6 desired \<noteq> ds_LoopbackV6 previous
        \<or> LoopbackPoolV6 desired \<noteq> LoopbackPoolV6 previous then []
     else map (\<lambda>(a, t). (a, t\<lparr>dialing := False, pendingQuery := False\<rparr>)) (targets d))"

definition start_peers :: "u64 \<Rightarrow> target_map \<Rightarrow> dynamicPeers" where
  "start_peers revision seed =
    \<lparr>targets = map (\<lambda>(a, t). (a, t\<lparr>pendingUpdate := t_uid t \<noteq> 0\<rparr>)) seed, policyCursor = 0, dialWindow = 0,
     dialCount = 0, outboundSessions = 0, policyRevision = revision, policySocket = True, stopped = False\<rparr>"

text \<open>
  One pass of the scan, as its only thread runs it: refresh and evict, then ask or dial every
  routed loopback, then send.  The dials that were reserved are returned; each runs in a goroutine
  of its own.
\<close>

definition scan_visit ::
  "(addr \<Rightarrow> bool) \<Rightarrow> (array16 \<Rightarrow> bool) \<Rightarrow> bool \<Rightarrow> int \<Rightarrow> (addr \<Rightarrow> int) \<Rightarrow> addr \<Rightarrow> dynamicPeers \<times> addr list \<Rightarrow> dynamicPeers \<times> addr list" where
  "scan_visit direct busy evidence now draws a acc =
    (case acc of (d, dials) \<Rightarrow>
      if direct a then (d, dials)
      else
        let refused = (case map_of (targets d) a of None \<Rightarrow> False | Some t \<Rightarrow> denied t);
            d = d\<lparr>targets := mark_query busy a (targets d)\<rparr>
        in if refused \<or> \<not> evidence then (d, dials)
           else (case reserveDial a (direct a) busy now (draws a) d of
                   (d, ok) \<Rightarrow> (d, if ok then dials @ [a] else dials)))"

definition scanLoopbacks ::
  "DesiredState \<Rightarrow> addr list result \<Rightarrow> (addr \<Rightarrow> bool) \<Rightarrow> (array16 \<Rightarrow> bool) \<Rightarrow> bool \<Rightarrow> int \<Rightarrow> (addr \<Rightarrow> int) \<Rightarrow> dynamicPeers
    \<Rightarrow> dynamicPeers \<times> addr list \<times> (addr \<times> Message) list" where
  "scanLoopbacks desired routes direct busy evidence now draws d =
    (case routes of
       Inl _ \<Rightarrow> (d, [], [])
     | Inr routed \<Rightarrow>
       let d = d\<lparr>targets := scan_targets now routed busy (targets d)\<rparr> in
       case (if active desired then fold (scan_visit direct busy evidence now draws) routed (d, []) else (d, [])) of
         (d, dials) \<Rightarrow> (case flushPolicy desired now draws d of (d, sends) \<Rightarrow> (d, dials, sends)))"

section \<open>Runs\<close>

text \<open>
  The operations above run under the engine's lock, in any order the goroutines happen to take it.
  A world adds to the state the desired state in force and what the program order fixes: the dials
  whose goroutine has not finished yet, and the pairs of address and identity for which such a
  goroutine has passed \<open>bindPolicyPeer\<close>, the call before \<open>admit_outbound\<close>.
\<close>

record world =
  w_desired :: DesiredState
  w_peers :: dynamicPeers
  w_dials :: "addr list"
  w_bound :: "(addr \<times> array16) list"

definition with_targets :: "(target_map \<Rightarrow> target_map) \<Rightarrow> world \<Rightarrow> world" where
  "with_targets f w = w\<lparr>w_peers := (w_peers w)\<lparr>targets := f (targets (w_peers w))\<rparr>\<rparr>"

inductive peer_step :: "world \<Rightarrow> world \<Rightarrow> bool" where
  Receive: "peer_step w (w\<lparr>w_peers := receivePolicy (w_desired w) source m now (w_peers w)\<rparr>)"
| Decline: "map_of (targets (w_peers w)) a = Some t \<Longrightarrow>
    peer_step w (with_targets (AList.update a (mergePolicyLocked t p)) w)"
| Flush: "peer_step w (w\<lparr>w_peers := fst (flushPolicy (w_desired w) now draws (w_peers w))\<rparr>)"
| Scan: "peer_step w (with_targets (scan_targets now routed busy) w)"
| Query: "peer_step w (with_targets (mark_query busy a) w)"
| Reserve: "reserveDial a direct busy now draw (w_peers w) = (d, ok) \<Longrightarrow>
    peer_step w (w\<lparr>w_peers := d, w_dials := (if ok then a # w_dials w else w_dials w)\<rparr>)"
| Bind: "u \<noteq> 0 \<Longrightarrow> peer_step w (with_targets (\<lambda>m. fst (bindPolicyPeer a u now now' m)) w)"
| Bind_out: "u \<noteq> 0 \<Longrightarrow> a \<in> set (w_dials w) \<Longrightarrow> bindPolicyPeer a u now now' (targets (w_peers w)) = (m, None) \<Longrightarrow>
    peer_step w (with_targets (\<lambda>_. m) w\<lparr>w_bound := (a, u) # w_bound w\<rparr>)"
| Admit: "(a, u) \<in> set (w_bound w) \<Longrightarrow> peer_step w (with_targets (\<lambda>m. fst (admit_outbound (w_desired w) a u m)) w)"
| Finish: "a \<in> set (w_dials w) \<Longrightarrow>
    peer_step w (with_targets (finishRoutedDial a failed up now draw) w
      \<lparr>w_dials := filter (\<lambda>b. b \<noteq> a) (w_dials w), w_bound := filter (\<lambda>(b, _). b \<noteq> a) (w_bound w)\<rparr>)"
| Release: "peer_step w (w\<lparr>w_peers := (w_peers w)\<lparr>outboundSessions := outboundSessions (w_peers w) - 1\<rparr>\<rparr>)"
| Postpone: "peer_step w (with_targets (on_peer u (postpone now draw)) w)"
| Reset: "peer_step w (with_targets (on_peer u reset_budget) w)"
| Stop: "peer_step w (w\<lparr>w_peers := (w_peers w)\<lparr>stopped := True\<rparr>\<rparr>)"
| Restart: "w_dials w = [] \<Longrightarrow>
    peer_step w \<lparr>w_desired = desired, w_peers = start_peers revision (InheritDynamic desired (w_desired w) (w_peers w)),
      w_dials = [], w_bound = []\<rparr>"

inductive peer_run :: "world \<Rightarrow> bool" where
  Fresh: "peer_run \<lparr>w_desired = desired, w_peers = start_peers revision [], w_dials = [], w_bound = []\<rparr>"
| Step: "peer_run w \<Longrightarrow> peer_step w w' \<Longrightarrow> peer_run w'"

section \<open>The target table\<close>

definition target_ok :: "dynamicTarget \<Rightarrow> bool" where
  "target_ok t \<longleftrightarrow> failures t \<le> 7 \<and> (bound t \<longrightarrow> t_uid t \<noteq> 0)
    \<and> (case t_policy t of None \<Rightarrow> True | Some p \<Rightarrow> Revision p \<noteq> 0)"

definition unclaimed :: "addr \<Rightarrow> array16 \<Rightarrow> target_map \<Rightarrow> bool" where
  "unclaimed a u m \<longleftrightarrow> u = 0 \<or> (\<forall>b t. map_of m b = Some t \<longrightarrow> t_uid t = u \<longrightarrow> b = a)"

definition table_ok :: "target_map \<Rightarrow> bool" where
  "table_ok m \<longleftrightarrow> distinct (map fst m) \<and> length m \<le> maxDynamicTargets
    \<and> (\<forall>a t. map_of m a = Some t \<longrightarrow> target_ok t \<and> unclaimed a (t_uid t) m)"

lemma length_update: "length (AList.update a t m) = (if map_of m a = None then Suc (length m) else length m)"
  by (induction m) auto

lemma table_ok_D:
  assumes "table_ok m" "map_of m a = Some t"
  shows "target_ok t" "unclaimed a (t_uid t) m"
  using assms by (auto simp: table_ok_def)

lemma claimed_elsewhere_iff: "distinct (map fst m) \<Longrightarrow>
    claimed_elsewhere a u m \<longleftrightarrow> (\<exists>b t. map_of m b = Some t \<and> b \<noteq> a \<and> t_uid t = u)"
  by (auto simp: claimed_elsewhere_def list_ex_iff map_of_eq_Some_iff)

lemma unclaimed_iff: "distinct (map fst m) \<Longrightarrow> unclaimed a u m \<longleftrightarrow> u = 0 \<or> \<not> claimed_elsewhere a u m"
  by (auto simp: unclaimed_def claimed_elsewhere_iff)

lemma table_ok_update:
  assumes "table_ok m" "target_ok t" "unclaimed a (t_uid t) m" "map_of m a \<noteq> None \<or> length m < maxDynamicTargets"
  shows "table_ok (AList.update a t m)"
  using assms
  by (auto simp: table_ok_def unclaimed_def update_conv' distinct_update length_update split: if_splits) metis+

lemma table_ok_modify:
  assumes "table_ok m" "map_of m a = Some t" "target_ok t \<Longrightarrow> target_ok t'" "t_uid t' = t_uid t"
  shows "table_ok (AList.update a t' m)"
  using assms table_ok_D[OF assms(1,2)] by (intro table_ok_update) auto

lemma map_of_mapk: "map_of (map (\<lambda>(a, t). (a, f a t)) m) a = map_option (f a) (map_of m a)"
  by (induction m) auto

lemma mapk_fst: "map fst (map (\<lambda>(a, t). (a, f a t)) m) = map fst m"
  by (induction m) auto

lemma table_ok_map:
  assumes "table_ok m" "\<And>a t. target_ok t \<Longrightarrow> target_ok (f a t)" "\<And>a t. t_uid (f a t) = t_uid t"
  shows "table_ok (map (\<lambda>(a, t). (a, f a t)) m)"
  using assms(1) unfolding table_ok_def mapk_fst
  by (auto simp: map_of_mapk assms(2,3) unclaimed_def) metis

lemma map_of_filter_Some: "distinct (map fst m) \<Longrightarrow> map_of (filter P m) a = Some t \<longleftrightarrow> map_of m a = Some t \<and> P (a, t)"
  by (induction m) (auto simp: map_of_eq_None_iff rev_image_eqI)

lemma table_ok_filter: "table_ok m \<Longrightarrow> table_ok (filter P m)"
  by (auto simp: table_ok_def map_of_filter_Some unclaimed_def distinct_map_filter intro: le_trans[OF length_filter_le]) metis

lemma targetLocked_cases:
  assumes "targetLocked a now m = Some (m', t)"
  obtains "map_of m a = Some t" "m' = m"
    | "map_of m a = None" "length m < maxDynamicTargets" "t = new_target now" "m' = AList.update a t m"
  using assms by (auto simp: targetLocked_def split: option.splits if_splits)

lemma new_target_simps [simp]:
  "t_uid (new_target now) = 0" "\<not> bound (new_target now)" "t_policy (new_target now) = None"
  "failures (new_target now) = 0" "\<not> dialing (new_target now)" "target_ok (new_target now)"
  by (simp_all add: new_target_def target_ok_def)

lemma targetLocked_ok:
  assumes "targetLocked a now m = Some (m', t)" "table_ok m"
  shows "table_ok m'" "map_of m' a = Some t" "target_ok t" "b \<noteq> a \<Longrightarrow> map_of m' b = map_of m b"
  using assms by (auto elim!: targetLocked_cases simp: update_conv' unclaimed_def table_ok_D intro: table_ok_update)

lemma merge_simps [simp]: "t_uid (mergePolicyLocked t p) = t_uid t" "bound (mergePolicyLocked t p) = bound t"
  "failures (mergePolicyLocked t p) = failures t" "dialing (mergePolicyLocked t p) = dialing t"
  "nextUpdate (mergePolicyLocked t p) = nextUpdate t" "nextQuery (mergePolicyLocked t p) = nextQuery t"
  by (auto simp: mergePolicyLocked_def split: option.splits)

lemma merge_ok: "target_ok t \<Longrightarrow> target_ok (mergePolicyLocked t p)"
  by (auto simp: mergePolicyLocked_def target_ok_def split: option.splits)

section \<open>What an operation keeps\<close>

text \<open>
  What is known of a peer only grows while its target stays: its identity and binding are kept, a
  policy is replaced only by a later one, and the sending budgets move forward.  Outside \<open>X\<close>, a
  target that is being dialled stays and stays so.
\<close>

definition keeps :: "dynamicTarget \<Rightarrow> dynamicTarget \<Rightarrow> bool" where
  "keeps t t' \<longleftrightarrow> (t_uid t = 0 \<or> t_uid t' = t_uid t) \<and> (bound t \<longrightarrow> bound t')
    \<and> (case t_policy t of None \<Rightarrow> True | Some p \<Rightarrow> \<exists>q. t_policy t' = Some q \<and> (q = p \<or> Revision p < Revision q))
    \<and> nextUpdate t \<le> nextUpdate t' \<and> nextQuery t \<le> nextQuery t'"

definition evolves :: "addr set \<Rightarrow> target_map \<Rightarrow> target_map \<Rightarrow> bool" where
  "evolves X m m' \<longleftrightarrow>
    (\<forall>a t t'. map_of m a = Some t \<longrightarrow> map_of m' a = Some t' \<longrightarrow> keeps t t')
    \<and> (\<forall>a t. map_of m a = Some t \<longrightarrow> dialing t \<longrightarrow> a \<notin> X \<longrightarrow> (\<exists>t'. map_of m' a = Some t' \<and> dialing t'))"

definition op_ok :: "addr set \<Rightarrow> target_map \<Rightarrow> target_map \<Rightarrow> bool" where
  "op_ok X m m' \<longleftrightarrow> table_ok m' \<and> evolves X m m'"

lemma keeps_refl [simp]: "keeps t t"
  by (auto simp: keeps_def split: option.splits)

lemma keeps_trans: "keeps t t' \<Longrightarrow> keeps t' t'' \<Longrightarrow> keeps t t''"
  by (fastforce simp: keeps_def split: option.splits)

lemma keeps_same:
  "t_uid t' = t_uid t \<Longrightarrow> bound t' = bound t \<Longrightarrow> t_policy t' = t_policy t \<Longrightarrow> nextUpdate t \<le> nextUpdate t' \<Longrightarrow>
    nextQuery t \<le> nextQuery t' \<Longrightarrow> keeps t t'"
  by (auto simp: keeps_def split: option.splits)

lemma merge_keeps: "keeps t (mergePolicyLocked t p)"
  by (auto simp: mergePolicyLocked_def keeps_def not_le split: option.splits)

lemma op_ok_refl: "table_ok m \<Longrightarrow> op_ok X m m"
  by (simp add: op_ok_def evolves_def)

lemma op_ok_update:
  assumes "table_ok (AList.update a t' m)"
    and "\<And>t. map_of m a = Some t \<Longrightarrow> keeps t t' \<and> (dialing t \<longrightarrow> a \<in> X \<or> dialing t')"
  shows "op_ok X m (AList.update a t' m)"
  using assms by (auto simp: op_ok_def evolves_def update_conv' split: if_splits)

lemma op_ok_modify:
  assumes "table_ok m" "map_of m a = Some t" "target_ok t \<Longrightarrow> target_ok t'" "t_uid t' = t_uid t" "keeps t t'"
    "dialing t \<longrightarrow> a \<in> X \<or> dialing t'"
  shows "op_ok X m (AList.update a t' m)"
  using assms by (intro op_ok_update table_ok_modify) auto

lemma op_ok_map:
  assumes "table_ok m" "\<And>a t. target_ok t \<Longrightarrow> target_ok (f a t)" "\<And>a t. t_uid (f a t) = t_uid t"
    "\<And>a t. keeps t (f a t)" "\<And>a t. dialing t \<Longrightarrow> dialing (f a t)"
  shows "op_ok X m (map (\<lambda>(a, t). (a, f a t)) m)"
  using table_ok_map[OF assms(1-3)] assms(4,5) by (auto simp: op_ok_def evolves_def map_of_mapk)

lemma op_ok_filter:
  assumes "op_ok X m m'" "\<And>a t. dialing t \<Longrightarrow> P (a, t)"
  shows "op_ok X m (filter P m')"
proof -
  from assms(1) have ok: "table_ok m'" by (simp add: op_ok_def)
  then have "distinct (map fst m')" by (simp add: table_ok_def)
  note sel = map_of_filter_Some[OF this]
  show ?thesis
    using assms table_ok_filter[OF ok] unfolding op_ok_def evolves_def sel by blast
qed

lemma op_ok_trans:
  assumes "op_ok X m m'" "op_ok X m' m''" and dom: "\<And>a. map_of m a \<noteq> None \<Longrightarrow> map_of m' a \<noteq> None"
  shows "op_ok X m m''"
proof -
  from assms(1,2) have e: "evolves X m m'" "evolves X m' m''" "table_ok m''" by (simp_all add: op_ok_def)
  have "keeps t t''" if "map_of m a = Some t" "map_of m'' a = Some t''" for a t t''
  proof -
    from dom that(1) obtain t' where "map_of m' a = Some t'" by fastforce
    with e(1,2) that have "keeps t t'" "keeps t' t''" unfolding evolves_def by blast+
    then show ?thesis by (rule keeps_trans)
  qed
  moreover have "\<exists>t''. map_of m'' a = Some t'' \<and> dialing t''" if "map_of m a = Some t" "dialing t" "a \<notin> X" for a t
    using e(1,2) that unfolding evolves_def by blast
  ultimately show ?thesis using e(3) by (simp add: op_ok_def evolves_def)
qed

lemma uid_change:
  assumes "table_ok m" "map_of m a = Some t" "\<not> (t_uid t \<noteq> 0 \<and> t_uid t \<noteq> u)" "\<not> claimed_elsewhere a u m" "u \<noteq> 0"
    and "t_uid t' = u" "bound t \<longrightarrow> bound t'" "t_policy t' = t_policy t" "failures t' = failures t"
    and "nextUpdate t' = nextUpdate t" "nextQuery t' = nextQuery t" "dialing t' = dialing t"
  shows "op_ok X m (AList.update a t' m)"
proof (rule op_ok_update)
  have "target_ok t" using table_ok_D[OF assms(1,2)] by simp
  then have "target_ok t'" using assms by (auto simp: target_ok_def)
  moreover have "unclaimed a (t_uid t') m" using assms by (simp add: unclaimed_iff table_ok_def)
  ultimately show "table_ok (AList.update a t' m)" using assms(1,2) by (intro table_ok_update) auto
  show "keeps s t' \<and> (dialing s \<longrightarrow> a \<in> X \<or> dialing t')" if "map_of m a = Some s" for s
    using that assms by (auto simp: keeps_def split: option.splits)
qed

lemma targetLocked_op: "targetLocked a now m = Some (m', t) \<Longrightarrow> table_ok m \<Longrightarrow> op_ok X m m'"
  using targetLocked_ok[of a now m m' t]
  by (auto elim!: targetLocked_cases intro!: op_ok_update op_ok_refl)

lemma targetLocked_dom: "targetLocked a now m = Some (m', t) \<Longrightarrow> map_of m b \<noteq> None \<Longrightarrow> map_of m' b \<noteq> None"
  by (auto elim!: targetLocked_cases simp: update_conv')

lemma bindPolicyPeer_op:
  assumes "table_ok m" "u \<noteq> 0" "bindPolicyPeer a u now now' m = (m', e)"
  shows "op_ok X m m'" and "e = None \<Longrightarrow> \<exists>t. map_of m' a = Some t \<and> t_uid t = u"
proof -
  have "op_ok X m m' \<and> (e = None \<longrightarrow> (\<exists>t. map_of m' a = Some t \<and> t_uid t = u))"
  proof (cases "targetLocked a now m")
    case None
    with assms show ?thesis by (auto simp: bindPolicyPeer_def op_ok_refl)
  next
    case (Some mt)
    obtain m1 t where l: "targetLocked a now m = Some (m1, t)" using Some by (cases mt) auto
    note ok = targetLocked_ok[OF l assms(1)]
    from assms(3) l consider "m' = m1" "e \<noteq> None"
      | "\<not> (t_uid t \<noteq> 0 \<and> t_uid t \<noteq> u)" "\<not> claimed_elsewhere a u m1"
        "m' = AList.update a (t\<lparr>t_uid := u, bound := True, lastSeen := now'\<rparr>) m1"
      by (auto simp: bindPolicyPeer_def split: if_splits)
    then show ?thesis
    proof cases
      case 1
      with targetLocked_op[OF l assms(1)] show ?thesis by auto
    next
      case 2
      have "op_ok X m1 m'" unfolding 2(3) by (rule uid_change[OF ok(1,2) 2(1,2) assms(2)]) auto
      then have "op_ok X m m'" by (rule op_ok_trans[OF targetLocked_op[OF l assms(1)] _ targetLocked_dom[OF l]])
      with 2(3) show ?thesis by (simp add: update_conv')
    qed
  qed
  then show "op_ok X m m'" "e = None \<Longrightarrow> \<exists>t. map_of m' a = Some t \<and> t_uid t = u" by auto
qed

lemma receivePolicy_rest: "receivePolicy desired source msg now d = d\<lparr>targets := targets (receivePolicy desired source msg now d)\<rparr>"
  by (auto simp: receivePolicy_def Let_def split: option.splits)

lemma receivePolicy_op:
  assumes "table_ok (targets d)"
  shows "op_ok X (targets d) (targets (receivePolicy desired source msg now d))"
proof (cases "targets (receivePolicy desired source msg now d) = targets d")
  case False
  obtain sender where u: "m_UID msg = Some sender" using False by (cases "m_UID msg") (auto simp: receivePolicy_def)
  let ?u = "UUID sender"
  from False u have guards: "?u \<noteq> 0" "\<not> claimed_elsewhere source ?u (targets d)"
    "\<And>t. map_of (targets d) source = Some t \<Longrightarrow> \<not> (t_uid t \<noteq> 0 \<and> t_uid t \<noteq> ?u)"
    by (auto simp: receivePolicy_def Let_def split: option.splits if_splits)
  from False u consider (update) t where "map_of (targets d) source = Some t"
      "targets (receivePolicy desired source msg now d) = AList.update source (mergePolicyLocked t (m_Policy msg)) (targets d)"
    | (query) m1 t where "targetLocked source now (targets d) = Some (m1, t)"
      "targets (receivePolicy desired source msg now d)
        = AList.update source (t\<lparr>t_uid := ?u, lastSeen := now, reachable := True, pendingUpdate := True\<rparr>) m1"
    by (simp add: receivePolicy_def Let_def split: option.splits if_splits prod.splits)
  then show ?thesis
  proof cases
    case update
    then show ?thesis using assms by (auto intro!: op_ok_modify merge_ok merge_keeps)
  next
    case query
    note ok = targetLocked_ok[OF query(1) assms]
    have "\<not> claimed_elsewhere source ?u m1"
      using guards(2) ok(1,4) assms by (metis claimed_elsewhere_iff table_ok_def)
    moreover have "\<not> (t_uid t \<noteq> 0 \<and> t_uid t \<noteq> ?u)"
      using guards(3) query(1) by (auto elim!: targetLocked_cases)
    ultimately have "op_ok X m1 (targets (receivePolicy desired source msg now d))"
      unfolding query(2) by (intro uid_change[OF ok(1,2) _ _ guards(1)]) auto
    then show ?thesis by (rule op_ok_trans[OF targetLocked_op[OF query(1) assms] _ targetLocked_dom[OF query(1)]])
  qed
qed (simp add: op_ok_refl assms)

lemma flush_target_ok:
  assumes "flush_target desired revision now draw t = Some (t', msg)"
  shows "t_uid t' = t_uid t" "target_ok t \<Longrightarrow> target_ok t'" "keeps t t'" "dialing t' = dialing t"
proof -
  have "0 \<le> jitterDelay dynamicQueryInterval draw" by (simp add: jitterDelay_def)
  then show "t_uid t' = t_uid t" "target_ok t \<Longrightarrow> target_ok t'" "keeps t t'" "dialing t' = dialing t"
    using assms by (auto simp: flush_target_def Let_def target_ok_def intro!: keeps_same split: if_splits)
qed

lemma flush_visits_op:
  assumes "flush_visits (\<lambda>a. flush_target desired revision now (draws a)) keys n (cursor, m, sends) = (cursor', m', sends')" "table_ok m"
  shows "op_ok X m m' \<and> map fst m' = map fst m"
  using assms
proof (induction n arbitrary: cursor m sends)
  case (Suc n)
  let ?a = "keys ! (cursor mod length keys)"
  show ?case
  proof (cases "16 \<le> length sends")
    case False
    note step = Suc.prems(1)[unfolded flush_visits.simps(2) Let_def if_not_P[OF False]]
    show ?thesis
    proof (cases "Option.bind (map_of m ?a) (flush_target desired revision now (draws ?a))")
      case None
      with step Suc show ?thesis by simp
    next
      case (Some tm)
      then obtain t t' msg where t: "map_of m ?a = Some t" "flush_target desired revision now (draws ?a) t = Some (t', msg)" "tm = (t', msg)"
        by (cases tm) (auto simp: Option.bind_eq_Some_conv)
      note ok = flush_target_ok[OF t(2)]
      have one: "op_ok X m (AList.update ?a t' m)"
        using Suc.prems(2) t(1) ok by (intro op_ok_modify) auto
      have keys: "map fst (AList.update ?a t' m) = map fst m"
        using map_of_SomeD[OF t(1)] by (simp add: update_keys) force
      have "op_ok X (AList.update ?a t' m) m' \<and> map fst m' = map fst (AList.update ?a t' m)"
        by (rule Suc.IH) (use step Some t(3) one in \<open>simp_all add: op_ok_def\<close>)
      with one keys show ?thesis
        using op_ok_trans[OF one, of m'] by (simp add: update_conv')
    qed
  qed (use Suc.prems in \<open>simp add: op_ok_refl\<close>)
qed (simp add: op_ok_refl)

lemma flushPolicy_op:
  assumes "table_ok (targets d)" "flushPolicy desired now draws d = (d', sends)"
  shows "op_ok X (targets d) (targets d')" "map fst (targets d') = map fst (targets d)"
    "d' = d\<lparr>targets := targets d', policyCursor := policyCursor d'\<rparr>"
proof -
  have "op_ok X (targets d) (targets d') \<and> map fst (targets d') = map fst (targets d)
    \<and> d' = d\<lparr>targets := targets d', policyCursor := policyCursor d'\<rparr>"
  proof (cases "policySocket d")
    case True
    obtain c m s where f: "flush_visits (\<lambda>a. flush_target desired (policyRevision d) now (draws a)) (sort (map fst (targets d)))
        (length (sort (map fst (targets d)))) (policyCursor d, targets d, []) = (c, m, s)" by (metis prod_cases3)
    from flush_visits_op[OF f assms(1)] assms(2) f True show ?thesis by (auto simp: flushPolicy_def Let_def)
  qed (use assms in \<open>auto simp: flushPolicy_def op_ok_refl\<close>)
  then show "op_ok X (targets d) (targets d')" "map fst (targets d') = map fst (targets d)"
    "d' = d\<lparr>targets := targets d', policyCursor := policyCursor d'\<rparr>" by auto
qed

lemma scan_targets_op:
  assumes "table_ok m"
  shows "op_ok X m (scan_targets now routed busy m)"
  unfolding scan_targets_def
proof (rule op_ok_filter)
  show "op_ok X m (map (\<lambda>(a, t). (a, if a \<in> set routed then t\<lparr>reachable := True, pendingQuery := False, lastSeen := now\<rparr>
      else t\<lparr>reachable := False, pendingQuery := False\<rparr>)) m)"
    by (rule op_ok_map[OF assms]) (auto simp: target_ok_def intro: keeps_same)
qed (simp add: expired_def)

lemma mark_query_op: "table_ok m \<Longrightarrow> op_ok X m (mark_query busy a m)"
  by (auto simp: mark_query_def target_ok_def split: option.splits intro!: op_ok_refl op_ok_modify keeps_same)

lemma reserveDial_op:
  assumes "table_ok (targets d)" "reserveDial a direct busy now draw d = (d', ok)"
    and b: "dialCount d \<le> 4" "outboundSessions d \<le> 128"
  shows "op_ok X (targets d) (targets d')" "dialCount d' \<le> 4" "outboundSessions d' \<le> 128"
    "ok \<Longrightarrow> \<exists>t. map_of (targets d') a = Some t \<and> dialing t"
proof -
  let ?t = "case map_of (targets d) a of None \<Rightarrow> new_target now | Some t \<Rightarrow> t"
  let ?fails = "min (failures ?t + 1) 7"
  let ?t' = "?t\<lparr>dialing := True, failures := ?fails, nextAttempt := now + retryDelay ?fails draw\<rparr>"
  have "op_ok X (targets d) (targets d') \<and> dialCount d' \<le> 4 \<and> outboundSessions d' \<le> 128
    \<and> (ok \<longrightarrow> (\<exists>t. map_of (targets d') a = Some t \<and> dialing t))"
  proof (cases ok)
    case True
    then have d': "targets d' = AList.update a ?t' (targets d)" "dialCount d' \<le> 4" "outboundSessions d' \<le> 128"
      and room: "map_of (targets d) a = None \<longrightarrow> length (targets d) < 4096"
      using assms(2) by (cases "map_of (targets d) a"; auto simp: reserveDial_def Let_def not_le split: if_splits)+
    have "target_ok ?t" "unclaimed a (t_uid ?t) (targets d)"
      using table_ok_D[OF assms(1)] by (cases "map_of (targets d) a"; simp add: unclaimed_def)+
    then have "table_ok (AList.update a ?t' (targets d))"
      using room assms(1) by (intro table_ok_update) (auto simp: target_ok_def)
    then have "op_ok X (targets d) (targets d')"
      unfolding d'(1) by (intro op_ok_update) (auto intro: keeps_same)
    with d' show ?thesis by (simp add: update_conv')
  next
    case False
    with assms(2) b have "targets d' = targets d" "dialCount d' \<le> 4" "outboundSessions d' \<le> 128"
      by (auto simp: reserveDial_def Let_def split: if_splits)
    with False show ?thesis by (simp add: op_ok_refl assms(1))
  qed
  then show "op_ok X (targets d) (targets d')" "dialCount d' \<le> 4" "outboundSessions d' \<le> 128"
    "ok \<Longrightarrow> \<exists>t. map_of (targets d') a = Some t \<and> dialing t" by auto
qed

lemma postpone_simps [simp]: "t_uid (postpone now draw t) = t_uid t" "dialing (postpone now draw t) = dialing t"
  "target_ok (postpone now draw t) = target_ok t" "keeps t (postpone now draw t)"
  by (auto simp: postpone_def Let_def target_ok_def intro: keeps_same)

lemma hang_up: "target_ok (t\<lparr>dialing := False\<rparr>) = target_ok t" "keeps t (t\<lparr>dialing := False\<rparr>)"
  by (auto simp: target_ok_def intro: keeps_same)

lemma finishRoutedDial_op:
  assumes "table_ok m"
  shows "op_ok {a} m (finishRoutedDial a failed up now draw m)"
proof (cases "map_of m a")
  case (Some t)
  let ?t = "t\<lparr>dialing := False\<rparr>"
  let ?t' = "if failed \<and> \<not> up (t_uid t) then postpone now draw ?t else ?t"
  have "keeps t ?t'" using keeps_trans[OF hang_up(2) postpone_simps(4)] hang_up(2) by simp
  then have "op_ok {a} m (AList.update a ?t' m)"
    using assms Some by (intro op_ok_modify) (auto simp: hang_up)
  with Some show ?thesis by (simp add: finishRoutedDial_def Let_def)
qed (simp add: finishRoutedDial_def op_ok_refl assms)

lemma on_peer_op:
  assumes "table_ok m" "\<And>t. target_ok t \<Longrightarrow> target_ok (f t)" "\<And>t. t_uid (f t) = t_uid t" "\<And>t. keeps t (f t)"
    "\<And>t. dialing (f t) = dialing t"
  shows "op_ok X m (on_peer u f m)"
proof (cases "find (\<lambda>(a, t). t_uid t = u) m")
  case (Some x)
  obtain a t where x: "x = (a, t)" by force
  with Some have "(a, t) \<in> set m" by (auto simp: find_Some_iff in_set_conv_nth)
  then have "map_of m a = Some t" using assms(1) by (simp add: table_ok_def)
  with Some x show ?thesis using assms by (auto simp: on_peer_def intro!: op_ok_modify)
qed (simp add: on_peer_def op_ok_refl assms(1))

lemma reset_budget_ok: "target_ok t \<Longrightarrow> target_ok (reset_budget t)" "keeps t (reset_budget t)"
  "t_uid (reset_budget t) = t_uid t" "dialing (reset_budget t) = dialing t"
  by (auto simp: reset_budget_def target_ok_def intro: keeps_same)

lemma admit_outbound_op:
  assumes "table_ok m" "map_of m a = Some t" "t_uid t = u" "u \<noteq> 0"
  shows "op_ok X m (fst (admit_outbound desired a u m))"
proof -
  have "keeps t (t\<lparr>t_uid := u, bound := True\<rparr>)" using assms(3) by (auto simp: keeps_def split: option.splits)
  with assms show ?thesis by (auto simp: admit_outbound_def Let_def target_ok_def intro!: op_ok_modify)
qed

lemma restart_op:
  assumes "table_ok (targets d)"
  shows "table_ok (targets (start_peers revision (InheritDynamic desired previous d)))"
    and "map_of (targets d) a = Some t \<Longrightarrow>
      map_of (targets (start_peers revision (InheritDynamic desired previous d))) a = Some t' \<Longrightarrow> keeps t t'"
proof -
  have e: "table_ok []" by (simp add: table_ok_def)
  have "table_ok (InheritDynamic desired previous d)"
    using assms e by (auto simp: InheritDynamic_def target_ok_def intro!: table_ok_map)
  then show "table_ok (targets (start_peers revision (InheritDynamic desired previous d)))"
    by (auto simp: start_peers_def target_ok_def intro!: table_ok_map)
  show "map_of (targets d) a = Some t \<Longrightarrow>
      map_of (targets (start_peers revision (InheritDynamic desired previous d))) a = Some t' \<Longrightarrow> keeps t t'"
    by (auto simp: start_peers_def InheritDynamic_def map_of_mapk split: if_splits intro!: keeps_same)
qed

section \<open>Invariants of a run\<close>

definition ghosts_ok :: "addr list \<Rightarrow> (addr \<times> array16) list \<Rightarrow> target_map \<Rightarrow> bool" where
  "ghosts_ok ds bs m \<longleftrightarrow>
    (\<forall>a \<in> set ds. \<exists>t. map_of m a = Some t \<and> dialing t)
    \<and> (\<forall>(a, u) \<in> set bs. a \<in> set ds \<and> u \<noteq> 0 \<and> (\<exists>t. map_of m a = Some t \<and> t_uid t = u))"

definition world_ok :: "world \<Rightarrow> bool" where
  "world_ok w \<longleftrightarrow> table_ok (targets (w_peers w)) \<and> dialCount (w_peers w) \<le> 4 \<and> outboundSessions (w_peers w) \<le> 128
    \<and> ghosts_ok (w_dials w) (w_bound w) (targets (w_peers w))"

lemma ghosts_evolve:
  assumes "ghosts_ok ds bs m" "evolves X m m'" "set ds' = set ds - X" "set bs' = {b \<in> set bs. fst b \<notin> X}"
  shows "ghosts_ok ds' bs' m'"
  unfolding ghosts_ok_def
proof (intro conjI ballI, goal_cases)
  case (1 a)
  with assms show ?case unfolding ghosts_ok_def evolves_def by blast
next
  case (2 x)
  obtain a u where x: "x = (a, u)" by force
  with 2 assms(4) have au: "(a, u) \<in> set bs" "a \<notin> X" by auto
  with assms(1) obtain t where t: "a \<in> set ds" "u \<noteq> 0" "map_of m a = Some t" "t_uid t = u" "dialing t"
    unfolding ghosts_ok_def by fastforce
  with assms(2) au obtain t' where "map_of m' a = Some t'" "keeps t t'" unfolding evolves_def by blast
  with t au assms(3) x show ?case by (auto simp: keeps_def)
qed

lemma world_ok_op:
  assumes "world_ok w" "op_ok X (targets (w_peers w)) (targets d)" "dialCount d \<le> 4" "outboundSessions d \<le> 128"
    and "set ds = set (w_dials w) - X" "set bs = {b \<in> set (w_bound w). fst b \<notin> X}"
  shows "world_ok \<lparr>w_desired = desired, w_peers = d, w_dials = ds, w_bound = bs\<rparr>"
  using assms ghosts_evolve[of "w_dials w" "w_bound w" "targets (w_peers w)" X "targets d" ds bs]
  by (simp add: world_ok_def op_ok_def)

definition table_of :: "world \<Rightarrow> target_map" where
  "table_of w = targets (w_peers w)"

definition step_safe :: "world \<Rightarrow> world \<Rightarrow> bool" where
  "step_safe w w' \<longleftrightarrow> world_ok w'
    \<and> (\<forall>a t t'. map_of (table_of w) a = Some t \<longrightarrow> map_of (table_of w') a = Some t' \<longrightarrow> keeps t t')"

lemma step_safe_op:
  assumes "world_ok w" "op_ok X (table_of w) (targets d)" "dialCount d \<le> 4" "outboundSessions d \<le> 128"
    and "set ds = set (w_dials w) - X" "set bs = {b \<in> set (w_bound w). fst b \<notin> X}"
  shows "step_safe w (w\<lparr>w_peers := d, w_dials := ds, w_bound := bs\<rparr>)"
proof -
  have "world_ok (w\<lparr>w_peers := d, w_dials := ds, w_bound := bs\<rparr>)"
    using world_ok_op[OF assms(1) assms(2)[unfolded table_of_def] assms(3-6), of "w_desired w"] by (cases w) simp
  with assms(2) show ?thesis by (simp add: step_safe_def op_ok_def evolves_def table_of_def)
qed

lemma step_safe_peers:
  assumes "world_ok w" "op_ok {} (table_of w) (targets d)" "dialCount d \<le> 4" "outboundSessions d \<le> 128"
  shows "step_safe w (w\<lparr>w_peers := d\<rparr>)"
  using step_safe_op[OF assms, of "w_dials w" "w_bound w"] by simp

lemma step_safe_targets:
  assumes "world_ok w" "op_ok {} (table_of w) (f (table_of w))"
  shows "step_safe w (with_targets f w)"
  unfolding with_targets_def using assms by (intro step_safe_peers) (auto simp: table_of_def world_ok_def)

lemma peer_step_safe:
  assumes "peer_step w w'" "world_ok w"
  shows "step_safe w w'"
proof -
  from assms(2) have ok: "table_ok (table_of w)" and b: "dialCount (w_peers w) \<le> 4" "outboundSessions (w_peers w) \<le> 128"
    and g: "ghosts_ok (w_dials w) (w_bound w) (table_of w)" by (simp_all add: world_ok_def table_of_def)
  note direct = step_safe_targets[OF assms(2)]
  from assms(1) show ?thesis
  proof cases
    case (Receive source m now)
    have "receivePolicy (w_desired w) source m now (w_peers w)
      = (w_peers w)\<lparr>targets := targets (receivePolicy (w_desired w) source m now (w_peers w))\<rparr>" by (rule receivePolicy_rest)
    then have "dialCount (receivePolicy (w_desired w) source m now (w_peers w)) \<le> 4"
      "outboundSessions (receivePolicy (w_desired w) source m now (w_peers w)) \<le> 128" using b by (metis dynamicPeers.select_convs dynamicPeers.surjective dynamicPeers.update_convs(1))+
    with Receive receivePolicy_op[OF ok[unfolded table_of_def]] assms(2) show ?thesis
      by (auto simp: table_of_def intro!: step_safe_peers)
  next
    case (Decline a t p)
    with ok show ?thesis by (auto simp: table_of_def intro!: direct op_ok_modify merge_ok merge_keeps)
  next
    case (Flush now draws)
    obtain d sends where f: "flushPolicy (w_desired w) now draws (w_peers w) = (d, sends)" by force
    note fl = flushPolicy_op[OF ok[unfolded table_of_def] f]
    from fl(3) b have "dialCount d \<le> 4" "outboundSessions d \<le> 128"
      by (metis dynamicPeers.select_convs dynamicPeers.surjective dynamicPeers.update_convs(1,2))+
    with Flush f fl(1) assms(2) show ?thesis by (auto simp: table_of_def intro!: step_safe_peers)
  next
    case (Scan now routed busy)
    with scan_targets_op[OF ok] show ?thesis by (auto intro: direct)
  next
    case (Query busy a)
    with mark_query_op[OF ok] show ?thesis by (auto intro: direct)
  next
    case (Reserve a dir busy now draw d r)
    note rd = reserveDial_op[OF ok[unfolded table_of_def] Reserve(2) b]
    from step_safe_peers[OF assms(2) _ rd(2,3)] rd(1) have s: "step_safe w (w\<lparr>w_peers := d\<rparr>)" by (simp add: table_of_def)
    with rd(4) Reserve(1) show ?thesis
      by (auto simp: step_safe_def table_of_def world_ok_def ghosts_ok_def)
  next
    case (Bind u a now now')
    with bindPolicyPeer_op(1)[OF ok Bind(2) prod.collapse[symmetric]] show ?thesis by (auto intro!: direct)
  next
    case (Bind_out u a now now' m)
    note bd = bindPolicyPeer_op[OF ok Bind_out(2) Bind_out(4)[folded table_of_def]]
    have "step_safe w (with_targets (\<lambda>_. m) w)" using bd(1) by (intro direct) auto
    with bd(2) Bind_out(1-3) show ?thesis
      by (auto simp: step_safe_def table_of_def with_targets_def world_ok_def ghosts_ok_def)
  next
    case (Admit a u)
    with g obtain t where "map_of (table_of w) a = Some t" "t_uid t = u" "u \<noteq> 0" by (auto simp: ghosts_ok_def)
    with Admit(1) ok show ?thesis by (auto intro!: direct admit_outbound_op)
  next
    case (Finish a failed up now draw)
    have "step_safe w (w\<lparr>w_peers := (w_peers w)\<lparr>targets := finishRoutedDial a failed up now draw (table_of w)\<rparr>,
        w_dials := filter (\<lambda>b. b \<noteq> a) (w_dials w), w_bound := filter (\<lambda>(b, _). b \<noteq> a) (w_bound w)\<rparr>)"
      by (rule step_safe_op[OF assms(2), where X = "{a}"]) (use finishRoutedDial_op[OF ok] b in auto)
    with Finish(1) show ?thesis by (simp add: with_targets_def table_of_def)
  next
    case Release
    with b ok assms(2) show ?thesis by (auto simp: table_of_def intro!: step_safe_peers op_ok_refl)
  next
    case (Postpone u now draw)
    with ok show ?thesis by (auto intro!: direct on_peer_op)
  next
    case (Reset u)
    with ok show ?thesis by (auto intro!: direct on_peer_op reset_budget_ok)
  next
    case Stop
    with b ok assms(2) show ?thesis by (auto simp: table_of_def intro!: step_safe_peers op_ok_refl)
  next
    case (Restart desired revision)
    with restart_op[OF ok[unfolded table_of_def]] show ?thesis
      by (auto simp: step_safe_def table_of_def world_ok_def ghosts_ok_def start_peers_def)
  qed
qed

lemma peer_run_ok: "peer_run w \<Longrightarrow> world_ok w"
proof (induction rule: peer_run.induct)
  case (Fresh desired revision)
  show ?case by (simp add: world_ok_def start_peers_def table_ok_def ghosts_ok_def)
next
  case (Step w w')
  then show ?case using peer_step_safe by (simp add: step_safe_def)
qed

section \<open>The rotation of the policy sender\<close>

lemma flush_visits_mono:
  "flush_visits f keys n (cursor, m, sends) = (cursor', m', sends') \<Longrightarrow> \<exists>more. sends' = sends @ more"
  by (induction n arbitrary: cursor m sends) (fastforce simp: Let_def split: if_splits option.splits prod.splits)+

lemma flush_visits_length:
  "flush_visits f keys n (cursor, m, sends) = (cursor', m', sends') \<Longrightarrow> length sends \<le> 16 \<Longrightarrow> length sends' \<le> 16"
  by (induction n arbitrary: cursor m sends) (fastforce simp: Let_def split: if_splits option.splits prod.splits)+

lemma flush_visits_sends:
  assumes "flush_visits f keys n (cursor, m, sends) = (cursor', m', sends')" "keys \<noteq> []"
    and "\<And>a t t' msg. f a t = Some (t', msg) \<Longrightarrow> Q msg" "list_all (\<lambda>(a, msg). a \<in> set keys \<and> Q msg) sends"
  shows "list_all (\<lambda>(a, msg). a \<in> set keys \<and> Q msg) sends'"
  using assms(1,4)
proof (induction n arbitrary: cursor m sends)
  case (Suc n)
  have idx: "keys ! (cursor mod length keys) \<in> set keys" using assms(2) by simp
  show ?case
  proof (cases "16 \<le> length sends")
    case False
    note step = Suc.prems(1)[unfolded flush_visits.simps(2) Let_def if_not_P[OF False]]
    show ?thesis
    proof (cases "Option.bind (map_of m (keys ! (cursor mod length keys))) (f (keys ! (cursor mod length keys)))")
      case None
      with step Suc.IH Suc.prems(2) show ?thesis by simp
    next
      case (Some tm)
      then have "Q (snd tm)" using assms(3) by (cases tm) (auto simp: Option.bind_eq_Some_conv)
      with step Some Suc.IH Suc.prems(2) idx show ?thesis by (cases tm) simp
    qed
  qed (use Suc.prems in simp)
qed simp

text \<open>
  A key \<open>k\<close> places behind the cursor is served in this call, or the cursor has moved at least as
  many places towards it as messages were still allowed.
\<close>

lemma flush_visits_progress:
  assumes "flush_visits f keys r (cursor, m, sends) = (cursor', m', sends')"
    and "distinct keys" "k < length keys" "k < r" "keys ! ((cursor + k) mod length keys) = a"
    and "map_of m a = Some t" "f a t = Some (t', msg)" "length sends \<le> 16"
  shows "(a, msg) \<in> set sends' \<or>
    (\<exists>j. 16 - length sends \<le> j \<and> j \<le> k \<and> keys ! ((cursor' + (k - j)) mod length keys) = a \<and> map_of m' a = Some t)"
  using assms(1,3-6,8)
proof (induction r arbitrary: cursor m sends k)
  case (Suc r)
  let ?n = "length keys"
  let ?b = "keys ! (cursor mod ?n)" and ?c = "(cursor mod ?n + 1) mod ?n"
  have n: "0 < ?n" using Suc.prems(2) by (rule le_less_trans[OF le0])
  show ?case
  proof (cases "16 \<le> length sends")
    case True
    with Suc.prems show ?thesis by (intro disjI2 exI[of _ 0]) auto
  next
    case False
    note step = Suc.prems(1)[unfolded flush_visits.simps(2) Let_def if_not_P[OF False]]
    show ?thesis
    proof (cases k)
      case 0
      with Suc.prems(4,5) assms(7) have "Option.bind (map_of m ?b) (f ?b) = Some (t', msg)" "?b = a" by auto
      with step have "flush_visits f keys r (?c, AList.update a t' m, sends @ [(a, msg)]) = (cursor', m', sends')" by simp
      from flush_visits_mono[OF this] show ?thesis by auto
    next
      case (Suc k')
      have "(cursor + k) mod ?n \<noteq> cursor mod ?n"
      proof
        assume "(cursor + k) mod ?n = cursor mod ?n"
        then have "?n dvd k" by (metis mod_add_self2 add_diff_cancel_left' le_add1 mod_eq_dvd_iff_nat)
        with Suc Suc.prems(2) show False by (auto dest: dvd_imp_le)
      qed
      then have ba: "?b \<noteq> a" using Suc.prems(4) assms(2) n by (auto simp: nth_eq_iff_index_eq)
      have pos: "keys ! ((?c + k') mod ?n) = a"
      proof -
        have "(?c + k') mod ?n = (cursor + k) mod ?n" unfolding Suc by (simp add: mod_simps)
        with Suc.prems(4) show ?thesis by simp
      qed
      obtain m1 sends1 where rec: "flush_visits f keys r (?c, m1, sends1) = (cursor', m', sends')"
        and m1: "map_of m1 a = map_of m a" and s1: "length sends1 \<le> Suc (length sends)"
        using step ba by (cases "Option.bind (map_of m ?b) (f ?b)") (auto simp: update_conv')
      have "(a, msg) \<in> set sends' \<or>
        (\<exists>j. 16 - length sends1 \<le> j \<and> j \<le> k' \<and> keys ! ((cursor' + (k' - j)) mod ?n) = a \<and> map_of m' a = Some t)"
        by (rule Suc.IH[OF rec]) (use Suc Suc.prems pos m1 s1 False in auto)
      then show ?thesis
      proof
        assume "\<exists>j. 16 - length sends1 \<le> j \<and> j \<le> k' \<and> keys ! ((cursor' + (k' - j)) mod ?n) = a \<and> map_of m' a = Some t"
        then obtain j where "16 - length sends1 \<le> j" "j \<le> k'" "keys ! ((cursor' + (k' - j)) mod ?n) = a" "map_of m' a = Some t" by blast
        with Suc s1 show ?thesis by (intro disjI2 exI[of _ "Suc j"]) auto
      qed simp
    qed
  qed
qed simp

definition update_due :: "dynamicPeers \<Rightarrow> addr \<Rightarrow> int \<Rightarrow> bool" where
  "update_due d a now \<longleftrightarrow> policySocket d \<and> policyRevision d \<noteq> 0
    \<and> (case map_of (targets d) a of None \<Rightarrow> False | Some t \<Rightarrow> pendingUpdate t \<and> reachable t \<and> nextUpdate t \<le> now)"

definition waits :: "dynamicPeers \<Rightarrow> addr \<Rightarrow> nat \<Rightarrow> bool" where
  "waits d a k \<longleftrightarrow> k < length (targets d)
    \<and> sort (map fst (targets d)) ! ((policyCursor d + k) mod length (targets d)) = a"

lemma waits_exists:
  assumes "map_of (targets d) a = Some t"
  shows "\<exists>k. waits d a k"
proof -
  let ?keys = "sort (map fst (targets d))" and ?n = "length (targets d)"
  from map_of_SomeD[OF assms] have "a \<in> set ?keys" by force
  then obtain i where i: "i < ?n" "?keys ! i = a" by (metis in_set_conv_nth length_map length_sort)
  let ?k = "(i + (?n - policyCursor d mod ?n)) mod ?n"
  have "(policyCursor d + ?k) mod ?n = (policyCursor d mod ?n + (i + (?n - policyCursor d mod ?n))) mod ?n" by (simp add: mod_simps)
  also have "policyCursor d mod ?n + (i + (?n - policyCursor d mod ?n)) = i + ?n"
    using i(1) mod_less_divisor[of ?n "policyCursor d"] by linarith
  finally have "(policyCursor d + ?k) mod ?n = i" using i(1) by simp
  moreover have "?k < ?n" by (rule mod_less_divisor) (rule le_less_trans[OF le0 i(1)])
  ultimately have "waits d a ?k" using i by (simp add: waits_def)
  then show ?thesis by blast
qed

lemma flush_update: "update_due d a now \<Longrightarrow> map_of (targets d) a = Some t \<Longrightarrow>
    \<exists>t' msg. flush_target desired (policyRevision d) now draw t = Some (t', msg) \<and> m_Type msg = PolicyUpdate"
  by (simp add: update_due_def flush_target_def)

lemma flushPolicy_progress:
  assumes "table_ok (targets d)" "update_due d a now" "waits d a k" "flushPolicy desired now draws d = (d', sends)"
  shows "(\<exists>msg. (a, msg) \<in> set sends \<and> m_Type msg = PolicyUpdate) \<or>
    (\<exists>k'. k' + 16 \<le> k \<and> waits d' a k' \<and> map_of (targets d') a = map_of (targets d) a)"
proof -
  let ?keys = "sort (map fst (targets d))" and ?f = "\<lambda>a. flush_target desired (policyRevision d) now (draws a)"
  from assms(2) obtain t where t: "map_of (targets d) a = Some t" "policySocket d" by (auto simp: update_due_def split: option.splits)
  from flush_update[OF assms(2) t(1)] obtain t' msg where f: "?f a t = Some (t', msg)" "m_Type msg = PolicyUpdate" by blast
  obtain c m s where v: "flush_visits ?f ?keys (length ?keys) (policyCursor d, targets d, []) = (c, m, s)" by (metis prod_cases3)
  with assms(4) t(2) have d': "d' = d\<lparr>targets := m, policyCursor := c\<rparr>" "sends = s" by (auto simp: flushPolicy_def Let_def)
  have fst_m: "map fst m = map fst (targets d)" using flush_visits_op[OF v assms(1)] by simp
  then have len: "length m = length (targets d)" by (metis length_map)
  have "(a, msg) \<in> set s \<or> (\<exists>j. 16 - length ([] :: (addr \<times> Message) list) \<le> j \<and> j \<le> k
      \<and> ?keys ! ((c + (k - j)) mod length ?keys) = a \<and> map_of m a = Some t)"
    by (rule flush_visits_progress[OF v _ _ _ _ t(1) f(1)])
      (use assms(1,3) in \<open>auto simp: table_ok_def waits_def\<close>)
  then show ?thesis
  proof
    assume "\<exists>j. 16 - length ([] :: (addr \<times> Message) list) \<le> j \<and> j \<le> k
      \<and> ?keys ! ((c + (k - j)) mod length ?keys) = a \<and> map_of m a = Some t"
    then obtain j where j: "16 \<le> j" "j \<le> k" "?keys ! ((c + (k - j)) mod length (targets d)) = a" "map_of m a = Some t" by auto
    with assms(3) have "k - j < length (targets d)" by (auto simp: waits_def)
    with j have "waits d' a (k - j)" by (simp add: waits_def d' fst_m len)
    with j t(1) show ?thesis by (intro disjI2 exI[of _ "k - j"]) (auto simp: d')
  qed (use f(2) d' in blast)
qed

fun flush_ticks :: "DesiredState \<Rightarrow> (int \<times> (addr \<Rightarrow> int)) list \<Rightarrow> dynamicPeers \<Rightarrow> (addr \<times> Message) list" where
  "flush_ticks desired [] d = []"
| "flush_ticks desired ((now, draws) # ticks) d =
    (case flushPolicy desired now draws d of (d, sends) \<Rightarrow> sends @ flush_ticks desired ticks d)"

lemma flush_ticks_serve:
  assumes "table_ok (targets d)" "list_all (\<lambda>(now, _). update_due d a now) ticks" "waits d a k" "k < 16 * length ticks"
  shows "\<exists>msg. (a, msg) \<in> set (flush_ticks desired ticks d) \<and> m_Type msg = PolicyUpdate"
  using assms
proof (induction ticks arbitrary: d k)
  case (Cons tick ticks)
  obtain now draws where tick: "tick = (now, draws)" by force
  obtain d' sends where f: "flushPolicy desired now draws d = (d', sends)" by force
  from Cons.prems(2) tick have due: "update_due d a now" by simp
  from flushPolicy_progress[OF Cons.prems(1) due Cons.prems(3) f] show ?case
  proof
    assume "\<exists>k'. k' + 16 \<le> k \<and> waits d' a k' \<and> map_of (targets d') a = map_of (targets d) a"
    then obtain k' where k': "k' + 16 \<le> k" "waits d' a k'" "map_of (targets d') a = map_of (targets d) a" by blast
    note fl = flushPolicy_op[OF Cons.prems(1) f]
    from fl(3) have rest: "policySocket d' = policySocket d" "policyRevision d' = policyRevision d"
      by (metis dynamicPeers.select_convs dynamicPeers.surjective dynamicPeers.update_convs(1,2))+
    have "update_due d' a = update_due d a" by (auto simp: update_due_def rest k'(3) fun_eq_iff)
    then have "\<exists>msg. (a, msg) \<in> set (flush_ticks desired ticks d') \<and> m_Type msg = PolicyUpdate"
      by (intro Cons.IH[of _ k']) (use k' Cons.prems fl(1) in \<open>auto simp: op_ok_def\<close>)
    with tick f show ?thesis by auto
  qed (use tick f in auto)
qed simp

section \<open>The directory as an abstraction\<close>

text \<open>
  What a node may rely on: a directory from loopbacks to an identity (0 while unknown) and the
  revision of the last policy (0 while none is known).  It never assigns one identity to two
  loopbacks, and while an entry stays its identity is final and its revision never goes back.
\<close>

definition directory :: "dynamicPeers \<Rightarrow> addr \<Rightarrow> (array16 \<times> nat) option" where
  "directory d a = map_option (\<lambda>t. (t_uid t, case t_policy t of None \<Rightarrow> 0 | Some p \<Rightarrow> unat (Revision p))) (map_of (targets d) a)"

definition directory_ok :: "(addr \<Rightarrow> (array16 \<times> nat) option) \<Rightarrow> bool" where
  "directory_ok D \<longleftrightarrow> (\<forall>a b u r s. D a = Some (u, r) \<longrightarrow> D b = Some (u, s) \<longrightarrow> u \<noteq> 0 \<longrightarrow> a = b)"

definition directory_next :: "(addr \<Rightarrow> (array16 \<times> nat) option) \<Rightarrow> (addr \<Rightarrow> (array16 \<times> nat) option) \<Rightarrow> bool" where
  "directory_next D D' \<longleftrightarrow> directory_ok D'
    \<and> (\<forall>a u r u' r'. D a = Some (u, r) \<longrightarrow> D' a = Some (u', r') \<longrightarrow> (u = 0 \<or> u' = u) \<and> r \<le> r')"

lemma table_directory: "table_ok (targets d) \<Longrightarrow> directory_ok (directory d)"
  unfolding directory_ok_def directory_def table_ok_def unclaimed_def by (auto, metis)

lemma keeps_revision:
  "keeps t t' \<Longrightarrow> (case t_policy t of None \<Rightarrow> 0 | Some p \<Rightarrow> unat (Revision p)) \<le> (case t_policy t' of None \<Rightarrow> 0 | Some p \<Rightarrow> unat (Revision p))"
  by (auto simp: keeps_def word_less_nat_alt split: option.splits)

lemma distinct_mapD: "distinct (map f xs) \<Longrightarrow> distinct xs"
  by (simp add: distinct_map)

lemma distinct_uids:
  assumes "table_ok m"
  shows "distinct (filter (\<lambda>u. u \<noteq> 0) (map (\<lambda>(a, t). t_uid t) m))"
proof -
  have d: "distinct (map fst m)" using assms by (simp add: table_ok_def)
  have "inj_on (\<lambda>(a, t). t_uid t) (set (filter (\<lambda>(a, t). t_uid t \<noteq> 0) m))"
  proof (rule inj_onI, clarsimp)
    fix a t b s
    assume *: "(a, t) \<in> set m" "(b, s) \<in> set m" "t_uid t = t_uid s" "t_uid s \<noteq> 0"
    then have "map_of m a = Some t" "map_of m b = Some s" using d by simp_all
    with * table_ok_D(2)[OF assms, of b s] show "a = b \<and> t = s" by (auto simp: unclaimed_def)
  qed
  then have "distinct (map (\<lambda>(a, t). t_uid t) (filter (\<lambda>(a, t). t_uid t \<noteq> 0) m))"
    using distinct_filter[OF distinct_mapD[OF d]] by (simp add: distinct_map)
  moreover have "filter (\<lambda>u. u \<noteq> 0) (map (\<lambda>(a, t). t_uid t) m) = map (\<lambda>(a, t). t_uid t) (filter (\<lambda>(a, t). t_uid t \<noteq> 0) m)"
    by (simp add: filter_map comp_def split_def)
  ultimately show ?thesis by simp
qed

section \<open>Properties\<close>

definition sample_node :: DesiredState where
  "sample_node = \<lparr>RetainedLinks = [], ds_Ports = system_port, ds_Durable = \<lparr>ds_SoftLimit = 2, ds_Stable = 0\<rparr>,
     ds_UID = \<lparr>nu_Name = [], nu_UUID = []\<rparr>, ds_UUID = 1, FabricPSK = [], LinkPoolV4 = NoPrefix, LinkPoolV6 = NoPrefix,
     LoopbackPoolV6 = NoPrefix, ds_LoopbackV6 = Addr6 1 [], ds_VFPPort = 58420, FabricTableID = 20000, LoopbackOwnerAlias = [],
     Forwarding = False, Links = [], ds_Routes = [], ds_Rules = [], ds_Babel = None,
     ds_DynamicLinks = Some \<lparr>dp_Mode = ''active'', dp_AllowCandidatePrefixes = [], RecoveryTimeout = 0\<rparr>, ds_PrivateKey = 0\<rparr>"

definition sample_query :: "array16 \<Rightarrow> Message" where
  "sample_query u = (message_of PolicyQuery)\<lparr>m_UID := Some \<lparr>UUID = u, Name = []\<rparr>\<rparr>"

definition sample_update :: "array16 \<Rightarrow> u64 \<Rightarrow> Message" where
  "sample_update u r = (message_of PolicyUpdate)\<lparr>m_UID := Some \<lparr>UUID = u, Name = []\<rparr>, m_Policy := Some \<lparr>Revision = r, Accept = False\<rparr>\<rparr>"

definition sample_world :: "dynamicPeers \<Rightarrow> world" where
  "sample_world d = \<lparr>w_desired = sample_node, w_peers = d, w_dials = [], w_bound = []\<rparr>"

definition sample_bound :: dynamicPeers where
  "sample_bound = (start_peers 5 [])\<lparr>targets := fst (bindPolicyPeer (Addr6 7 []) 9 100 101 [])\<rparr>"

lemma sample_run: "peer_run (sample_world sample_bound)"
proof -
  have "peer_run (sample_world (start_peers 5 []))" unfolding sample_world_def by (rule Fresh)
  from Step[OF this peer_step.Bind[of 9 _ "Addr6 7 []" 100 101]] show ?thesis
    by (simp add: sample_world_def with_targets_def sample_bound_def start_peers_def)
qed

lemma sample_step: "peer_step (sample_world sample_bound)
    (sample_world (receivePolicy sample_node (Addr6 7 []) (sample_update 9 3) 200 sample_bound))"
  using peer_step.Receive[of "sample_world sample_bound" "Addr6 7 []" "sample_update 9 3" 200] by (simp add: sample_world_def)

text \<open>
  C7: the peer table of a run, whatever the order of scans, dials, sessions, datagrams, failures and
  reloads: it has at most 4096 entries with distinct loopbacks, no node identity occurs twice, bound
  entries have an identity, stored policies a revision, and the dial budgets hold.
\<close>
theorem peer_table_invariant:
  assumes "peer_run w"
  shows "length (targets (w_peers w)) \<le> 4096 \<and> distinct (map fst (targets (w_peers w)))
    \<and> distinct (filter (\<lambda>u. u \<noteq> 0) (map (\<lambda>(a, t). t_uid t) (targets (w_peers w))))
    \<and> list_all (\<lambda>(a, t). target_ok t) (targets (w_peers w))
    \<and> dialCount (w_peers w) \<le> 4 \<and> outboundSessions (w_peers w) \<le> 128"
proof -
  from peer_run_ok[OF assms] have ok: "table_ok (targets (w_peers w))"
    and b: "dialCount (w_peers w) \<le> 4" "outboundSessions (w_peers w) \<le> 128" by (simp_all add: world_ok_def)
  from ok have d: "distinct (map fst (targets (w_peers w)))" by (simp add: table_ok_def)
  then have "list_all (\<lambda>(a, t). target_ok t) (targets (w_peers w))"
    using ok by (auto simp: list_all_iff table_ok_def)
  with ok b d distinct_uids[OF ok] show ?thesis by (simp add: table_ok_def)
qed

theorem peer_table_invariant_witness:
  "distinct (map fst (targets sample_bound)) \<and> map (\<lambda>(a, t). t_uid t) (targets sample_bound) = [9]"
proof -
  have "map (\<lambda>(a, t). t_uid t) (targets sample_bound) = [9]" by code_simp
  with peer_table_invariant[OF sample_run] show ?thesis by (simp add: sample_world_def)
qed

text \<open>
  C6: every step of a run is a step of the directory: identities stay unique and final, and the
  revision known of a peer never goes back, so that a delayed or repeated update has no effect.
\<close>
theorem peers_refine_directory:
  assumes "peer_run w" "peer_step w w'"
  shows "directory_next (directory (w_peers w)) (directory (w_peers w'))"
proof -
  from peer_step_safe[OF assms(2) peer_run_ok[OF assms(1)]] have s: "table_ok (targets (w_peers w'))"
    "\<And>a t t'. map_of (targets (w_peers w)) a = Some t \<Longrightarrow> map_of (targets (w_peers w')) a = Some t' \<Longrightarrow> keeps t t'"
    by (auto simp: step_safe_def world_ok_def table_of_def)
  have "(u = 0 \<or> u' = u) \<and> r \<le> r'"
    if "directory (w_peers w) a = Some (u, r)" "directory (w_peers w') a = Some (u', r')" for a u r u' r'
  proof -
    from that obtain t t' where t: "map_of (targets (w_peers w)) a = Some t" "map_of (targets (w_peers w')) a = Some t'"
      and ur: "u = t_uid t" "u' = t_uid t'" "r = (case t_policy t of None \<Rightarrow> 0 | Some p \<Rightarrow> unat (Revision p))"
        "r' = (case t_policy t' of None \<Rightarrow> 0 | Some p \<Rightarrow> unat (Revision p))"
      by (auto simp: directory_def)
    from s(2)[OF t] keeps_revision ur show ?thesis by (auto simp: keeps_def)
  qed
  with table_directory[OF s(1)] show ?thesis unfolding directory_next_def by blast
qed

theorem peers_refine_directory_witness:
  "directory_next (directory sample_bound) (directory (receivePolicy sample_node (Addr6 7 []) (sample_update 9 3) 200 sample_bound))
    \<and> directory sample_bound (Addr6 7 []) = Some (9, 0)
    \<and> directory (receivePolicy sample_node (Addr6 7 []) (sample_update 9 3) 200 sample_bound) (Addr6 7 []) = Some (9, 3)"
proof -
  have "directory sample_bound (Addr6 7 []) = Some (9, 0)"
    "directory (receivePolicy sample_node (Addr6 7 []) (sample_update 9 3) 200 sample_bound) (Addr6 7 []) = Some (9, 3)" by code_simp+
  with peers_refine_directory[OF sample_run sample_step] show ?thesis by (simp add: sample_world_def)
qed


definition sample_asked :: dynamicPeers where
  "sample_asked = receivePolicy sample_node (Addr6 7 []) (sample_query 9) 200 sample_bound"


text \<open>
  a tick hands at most 16 messages to the policy socket, each for a loopback of the table, and
  every one of them is a policy message that the datagram encoder accepts.
\<close>
lemma policy_sends_encodable:
  assumes "flushPolicy desired now draws d = (d', sends)" "ds_UUID desired \<noteq> 0"
  shows "length sends \<le> 16
    \<and> list_all (\<lambda>(a, msg). a \<in> fst ` set (targets d) \<and> IsPolicy (m_Type msg) \<and> is_ok (EncodeDatagram msg)) sends"
proof (cases "policySocket d \<and> targets d \<noteq> []")
  case True
  let ?keys = "sort (map fst (targets d))" and ?f = "\<lambda>a. flush_target desired (policyRevision d) now (draws a)"
  obtain c m s where v: "flush_visits ?f ?keys (length ?keys) (policyCursor d, targets d, []) = (c, m, s)" by (metis prod_cases3)
  with assms(1) True have s: "sends = s" by (auto simp: flushPolicy_def Let_def)
  have "message_canon msg \<and> IsPolicy (m_Type msg)" if "?f a t = Some (t', msg)" for a t t' msg
    using that assms(2)
    by (auto simp: flush_target_def Let_def message_canon_def type_class_defs word_le_nat_alt uid_canon_def policy_canon_def split: if_splits)
  then have valid: "IsPolicy (m_Type msg) \<and> is_ok (EncodeDatagram msg)" if "?f a t = Some (t', msg)" for a t t' msg
    using that datagram_codec.enc_total[of msg] by (auto simp: udp_type_def)
  have ne: "?keys \<noteq> []" using True by (metis length_0_conv length_map length_sort)
  have "list_all (\<lambda>(a, msg). a \<in> set ?keys \<and> IsPolicy (m_Type msg) \<and> is_ok (EncodeDatagram msg)) s"
    by (rule flush_visits_sends[OF v ne]) (use valid in auto)
  with flush_visits_length[OF v] s show ?thesis by (simp add: list_all_iff split_def)
next
  case False
  with assms(1) show ?thesis by (auto simp: flushPolicy_def Let_def split: if_splits)
qed

end
