(* ===== verification/Policy_Socket.thy ===== *)
theory Policy_Socket
  imports Peer_Targets
begin

text \<open>
  The routed policy socket of \<^verbatim>\<open>internal/vfp/policy\<close> and the persistent policy revision of
  \<^verbatim>\<open>internal/runtime/policy_revision.go\<close>.  The socket side shows that what one node sends another
  node decodes; the counter side shows that revisions increase over any history of failing calls
  and crashes.
\<close>

unbundle bit_operations_syntax

section \<open>The routed policy socket\<close>

text \<open>
  A bound socket is its own loopback, the loopback pool and the port.  The operating system is a
  parameter: \<open>write\<close> sends octets to an address; a received datagram carries the source the kernel
  reports (\<open>None\<close> when it is not a UDP address) and the control message (destination and
  interface index, \<open>None\<close> when there is none).
\<close>

record policy_binding =
  pb_local :: addr
  pb_pool :: prefix
  pb_port :: int

record datagram =
  dg_data :: bytes
  dg_source :: "(bytes \<times> int) option"
  dg_control :: "(bytes \<times> int) option"

definition policy_Listen ::
  "(addr \<Rightarrow> int \<Rightarrow> int result) \<Rightarrow> addr \<Rightarrow> prefix \<Rightarrow> int \<Rightarrow> (int \<Rightarrow> bool) option \<Rightarrow> policy_binding result" where
  "policy_Listen listen local pool port ingress =
    (if \<not> Is6 local \<or> Is4In6 local \<or> IsLinkLocalUnicast local \<or> IsMulticast local
        \<or> \<not> Contains pool local \<or> ingress = None
     then Inl (ErrNew ''invalid routed policy binding'')
     else bind_r (listen local port) (\<lambda>bound. Inr \<lparr>pb_local = local, pb_pool = pool, pb_port = bound\<rparr>))"

definition policy_Send ::
  "policy_binding \<Rightarrow> (bytes \<Rightarrow> addr \<Rightarrow> int \<Rightarrow> error option) \<Rightarrow> addr \<Rightarrow> Message \<Rightarrow> error option" where
  "policy_Send b write remote m =
    (if \<not> IsPolicy (m_Type m) \<or> \<not> Contains (pb_pool b) remote \<or> remote = pb_local b
     then Some (ErrNew ''invalid policy destination or message'')
     else (case EncodeDatagram m of Inl e \<Rightarrow> Some e | Inr frame \<Rightarrow> write frame remote (pb_port b)))"

definition policy_decode :: "policy_binding \<Rightarrow> (int \<Rightarrow> bool) \<Rightarrow> datagram \<Rightarrow> (addr \<times> Message) option" where
  "policy_decode b ingress g =
    (case dg_source g of
       None \<Rightarrow> None
     | Some (srcIP, srcPort) \<Rightarrow>
       if srcPort \<noteq> pb_port b then None
       else
         (case dg_control g of
            None \<Rightarrow> None
          | Some (dstIP, ifIndex) \<Rightarrow>
            (case (AddrFromSlice srcIP, AddrFromSlice dstIP) of
               (Some src, Some dst) \<Rightarrow>
                 if dst \<noteq> pb_local b \<or> src = pb_local b \<or> \<not> Is6 src \<or> Is4In6 src \<or> IsLinkLocalUnicast src
                    \<or> IsMulticast src \<or> \<not> Contains (pb_pool b) src \<or> \<not> ingress ifIndex
                 then None
                 else
                   (case DecodeDatagram (dg_data g) of
                      Inl _ \<Rightarrow> None
                    | Inr m \<Rightarrow> if IsPolicy (m_Type m) then Some (src, m) else None)
             | _ \<Rightarrow> None)))"

fun policy_Read ::
  "policy_binding \<Rightarrow> (int \<Rightarrow> bool) \<Rightarrow> datagram result list \<Rightarrow> ((addr \<times> Message) result \<times> datagram result list) option" where
  "policy_Read b ingress [] = None"
| "policy_Read b ingress (Inl e # rest) = Some (Inl e, rest)"
| "policy_Read b ingress (Inr g # rest) =
    (case policy_decode b ingress (g\<lparr>dg_data := take (MaxDatagramLength + 1) (dg_data g)\<rparr>) of
       Some x \<Rightarrow> Some (Inr x, rest)
     | None \<Rightarrow> policy_Read b ingress rest)"

definition policyIngress :: "DesiredState \<Rightarrow> LinkPlan list \<Rightarrow> string option \<Rightarrow> bool" where
  "policyIngress desired attempts ifi =
    (case ifi of
       None \<Rightarrow> False
     | Some name \<Rightarrow>
       list_ex (\<lambda>plan. lp_InterfaceName plan = name) (Links desired)
       \<or> list_ex (\<lambda>plan. lp_InterfaceName plan = name \<and> \<not> Probing plan) attempts)"

lemma AddrFromSlice_AsSlice: "Is6 a \<Longrightarrow> AddrFromSlice (AsSlice a) = Some (withoutZone a)"
  by (cases a) (simp_all add: AddrFromSlice_def AddrFrom16_def)

lemma policy_decode_sent:
  assumes "message_canon m" "IsPolicy (m_Type m)" "EncodeDatagram m = Inr frame"
    and "pb_local b \<noteq> src" "Contains (pb_pool b) src" "pb_local b = dst"
    and "Is6 src" "\<not> Is4In6 src" "\<not> IsLinkLocalUnicast src" "\<not> IsMulticast src" "\<not> hasZone src" "Is6 dst" "\<not> hasZone dst"
    and "ingress ifi"
  shows "policy_decode b ingress \<lparr>dg_data = frame, dg_source = Some (AsSlice src, pb_port b), dg_control = Some (AsSlice dst, ifi)\<rparr>
    = Some (src, m)"
proof -
  have "withoutZone src = src" "withoutZone dst = dst" using assms(11,13) by (cases src; cases dst; simp)+
  moreover have "DecodeDatagram frame = Inr m"
    using datagram_codec.dec_enc[of m frame] assms(1-3) by (simp add: udp_type_def)
  ultimately show ?thesis using assms by (simp add: policy_decode_def AddrFromSlice_AsSlice)
qed

section \<open>The policy revision\<close>

text \<open>
  The counter file.  \<open>cache\<close> is what a process that opens the path reads, \<open>disk\<close> what a crash leaves:
  a renamed file is durable only once the directory has been synchronised.  Every system call of
  the routine may fail; \<open>revision_io\<close> says which do.  The lock that serialises processes is held
  across the routine, so that a history is a sequence of calls.
\<close>

record counter =
  cache :: "bytes option"
  disk :: "bytes option"

record revision_io =
  io_directory :: "error option"
  io_lock :: "error option"
  io_open :: "error option"
  io_temp :: "error option"
  io_write :: "error option"
  io_sync :: "error option"
  io_close :: "error option"
  io_rename :: "error option"
  io_opendir :: "error option"
  io_dirsync :: "error option"

definition fails :: "error option \<Rightarrow> unit result" where
  "fails e = (case e of None \<Rightarrow> Inr () | Some x \<Rightarrow> Inl x)"

definition read_revision :: "revision_io \<Rightarrow> bytes option \<Rightarrow> u64 result" where
  "read_revision io content =
    bind_r (fails (io_open io)) (\<lambda>_.
      case content of
        None \<Rightarrow> Inr 0
      | Some raw \<Rightarrow>
        if length raw \<noteq> 8 then Inl (ErrNew ''invalid persisted Dynamic-Link policy revision'')
        else if (be_word raw :: u64) = 0 then Inl (ErrNew ''zero persisted Dynamic-Link policy revision'')
        else Inr (be_word raw))"

definition next_revision :: "revision_io \<Rightarrow> bytes option \<Rightarrow> u64 result" where
  "next_revision io content =
    bind_r (fails (io_directory io)) (\<lambda>_.
    bind_r (fails (io_lock io)) (\<lambda>_.
    bind_r (read_revision io content) (\<lambda>revision.
      if revision = NOT 0 then Inl (ErrNew ''Dynamic-Link policy revision exhausted'')
      else
        bind_r (fails (io_temp io)) (\<lambda>_.
        bind_r (fails (io_write io)) (\<lambda>_.
        bind_r (fails (io_sync io)) (\<lambda>_.
        bind_r (fails (io_close io)) (\<lambda>_. Inr (revision + 1))))))))"

definition reservePolicyRevision :: "revision_io \<Rightarrow> counter \<Rightarrow> counter \<times> u64 result" where
  "reservePolicyRevision io c =
    (case next_revision io (cache c) of
       Inl e \<Rightarrow> (c, Inl e)
     | Inr revision \<Rightarrow>
       (case io_rename io of
          Some e \<Rightarrow> (c, Inl e)
        | None \<Rightarrow>
          let c = c\<lparr>cache := Some (be_bytes 8 revision)\<rparr> in
          (case io_opendir io of
             Some e \<Rightarrow> (c, Inl e)
           | None \<Rightarrow>
             (case io_dirsync io of
                Some e \<Rightarrow> (c, Inl e)
              | None \<Rightarrow> (c\<lparr>disk := cache c\<rparr>, Inr revision)))))"

text \<open>
  A history: calls with their faults, a crash that keeps or loses what was not yet durable, and
  the kernel writing the directory back of its own accord.
\<close>

datatype counter_event = Call revision_io | Crash | Writeback

fun counter_run :: "counter_event list \<Rightarrow> counter \<Rightarrow> counter \<times> u64 list" where
  "counter_run [] c = (c, [])"
| "counter_run (Call io # evs) c =
    (case reservePolicyRevision io c of (c, r) \<Rightarrow>
     case counter_run evs c of (c, rs) \<Rightarrow> (c, (case r of Inl _ \<Rightarrow> rs | Inr x \<Rightarrow> x # rs)))"
| "counter_run (Crash # evs) c = counter_run evs (c\<lparr>cache := disk c\<rparr>)"
| "counter_run (Writeback # evs) c = counter_run evs (c\<lparr>disk := cache c\<rparr>)"

definition at_least :: "u64 \<Rightarrow> bytes option \<Rightarrow> bool" where
  "at_least r content \<longleftrightarrow> r = 0 \<or> (\<exists>raw. content = Some raw \<and> length raw = 8 \<and> r \<le> be_word raw)"

lemma fails_simps [simp]: "fails None = Inr ()" "fails e = Inr x \<longleftrightarrow> e = None"
  by (auto simp: fails_def split: option.splits)

lemma next_revision_above:
  assumes "next_revision io content = Inr revision" "at_least r content"
  shows "r < revision" "revision \<noteq> 0"
proof -
  from assms(1) obtain old where old: "read_revision io content = Inr old" "old \<noteq> NOT 0" "revision = old + 1"
    by (auto simp: next_revision_def)
  from old(1) assms(2) have "r \<le> old" by (auto simp: read_revision_def at_least_def split: option.splits)
  moreover have "1 + old \<noteq> 0" using old(2) by (metis add.commute add_eq_0_iff bit.compl_zero)
  then have "old < old + 1" using unatSuc[of old] by (simp add: word_less_nat_alt add.commute)
  ultimately show "r < revision" "revision \<noteq> 0" unfolding old(3) by auto
qed

lemma at_least_written: "at_least revision (Some (be_bytes 8 revision))" for revision :: u64
  by (simp add: at_least_def)

lemma at_least_mono: "at_least r content \<Longrightarrow> s \<le> r \<Longrightarrow> at_least s content"
  by (auto simp: at_least_def intro: order_trans)

lemma reserve_step:
  assumes "reservePolicyRevision io c = (c', res)" "at_least r (cache c)" "at_least r (disk c)"
  shows "at_least r (cache c') \<and> at_least r (disk c')"
    and "res = Inr x \<Longrightarrow> r < x \<and> at_least x (cache c') \<and> at_least x (disk c')"
proof -
  have "(at_least r (cache c') \<and> at_least r (disk c'))
    \<and> (res = Inr x \<longrightarrow> r < x \<and> at_least x (cache c') \<and> at_least x (disk c'))"
  proof (cases "next_revision io (cache c)")
    case (Inr revision)
    from next_revision_above[OF Inr assms(2)] have "r < revision" by simp
    then have "at_least r (Some (be_bytes 8 revision))" using at_least_mono[OF at_least_written] by simp
    with Inr assms \<open>r < revision\<close> at_least_written[of revision] show ?thesis
      by (auto simp: reservePolicyRevision_def Let_def split: option.splits)
  qed (use assms in \<open>auto simp: reservePolicyRevision_def\<close>)
  then show "at_least r (cache c') \<and> at_least r (disk c')"
    "res = Inr x \<Longrightarrow> r < x \<and> at_least x (cache c') \<and> at_least x (disk c')" by auto
qed

lemma counter_run_above:
  assumes "counter_run evs c = (c', rs)" "at_least r (cache c)" "at_least r (disk c)"
  shows "sorted_wrt (<) (r # rs)"
  using assms
proof (induction evs arbitrary: c c' r rs)
  case (Cons ev evs)
  show ?case
  proof (cases ev)
    case (Call io)
    obtain c1 res where one: "reservePolicyRevision io c = (c1, res)" by force
    note st = reserve_step[OF one Cons.prems(2,3)]
    obtain c2 rs1 where rest: "counter_run evs c1 = (c2, rs1)" by force
    show ?thesis
    proof (cases res)
      case (Inl e)
      with Call one rest Cons.prems(1) have "counter_run evs c1 = (c', rs)" by simp
      with st(1) show ?thesis using Cons.IH by blast
    next
      case (Inr x)
      from st(2)[OF Inr] have x: "r < x" "at_least x (cache c1)" "at_least x (disk c1)" by auto
      from Inr Call one rest Cons.prems(1) have rs: "rs = x # rs1" by simp
      from Cons.IH[OF rest x(2,3)] x(1) rs show ?thesis by auto
    qed
  qed (use Cons in auto)
qed simp

section \<open>Properties\<close>

text \<open>
  C26: the policy revision is a strictly increasing counter across restarts.  Whatever system calls
  fail, whether or not the machine crashes in between and whatever the file held at the start, the
  revisions that \<open>reservePolicyRevision\<close> hands out are positive and strictly increasing.
\<close>
theorem policy_revisions_increase: "sorted_wrt (<) (0 # snd (counter_run evs c))"
proof -
  obtain c' rs where "counter_run evs c = (c', rs)" by force
  from counter_run_above[OF this, of 0] show ?thesis using \<open>counter_run evs c = (c', rs)\<close> by (simp add: at_least_def)
qed


end
