(* ===== verification/Durable_Store.thy ===== *)
theory Durable_Store
  imports Message_Properties
begin

text \<open>
  The file of durable agreements, \<^verbatim>\<open>internal/runtime/durable_store.go\<close>: the record of an agreement,
  its text form, the checks of a record that is read, and the save that writes a temporary file,
  synchronises it, renames it over the old one and synchronises the directory, each system call of
  which may fail.  Shown: what a record becomes when it is written and read, and that a save leaves
  either the old file with an error or a file that loads as the table that was saved.
\<close>

unbundle bit_operations_syntax

section \<open>Records\<close>

record durableRecord =
  dr_ID :: array16
  dr_Peer :: UID
  dr_LastLoopback :: addr
  dr_PublicKey :: array32
  dr_LocalPort :: int
  dr_Fixed :: "FixedEndpoint list"
  dr_Confirmed :: bool

record durableOwner =
  ow_UUID :: array16
  ow_PublicKey :: array32

record durableLocalJSON =
  dl_ListenPort :: int
  dl_RecoveryEndpoint :: string

record durablePeerJSON =
  dp_UUID :: array16
  dp_Name :: bytes
  dp_PublicKey :: string
  dp_LastLoopback :: string
  dp_RecoveryEndpoint :: string

record durableRecordJSON =
  rj_AgreementID :: string
  rj_Confirmed :: bool
  rj_Local :: durableLocalJSON
  rj_Peer :: durablePeerJSON

record durableFile =
  df_Version :: int
  df_OwnerUUID :: array16
  df_OwnerKey :: string
  df_Records :: "durableRecordJSON list"

text \<open>
  Text forms of identifiers, keys and addresses, and the JSON form of the file, are parameters.
  \<open>js_Decode\<close> rejects unknown fields and also says whether nothing follows the value.
\<close>

record texts =
  tx_ParseUUID :: "string \<Rightarrow> array16 option"
  tx_UUID :: "array16 \<Rightarrow> string"
  tx_ParseKey :: "string \<Rightarrow> array32 option"
  tx_Key :: "array32 \<Rightarrow> string"
  tx_ParseAddrPort :: "string \<Rightarrow> addrport option"
  tx_AddrPort :: "addrport \<Rightarrow> string"
  tx_ParseAddr :: "string \<Rightarrow> addr option"
  tx_Addr :: "addr \<Rightarrow> string"
  js_Encode :: "durableFile \<Rightarrow> bytes result"
  js_Decode :: "bytes \<Rightarrow> (durableFile \<times> bool) option"

text \<open>
  What the packages document: parsing inverts printing of identifiers, keys and addresses without a
  zone, whose texts are in ASCII and not empty, and JSON keeps strings in ASCII (it replaces octets
  that are not UTF-8).
\<close>

definition ascii_text :: "string \<Rightarrow> bool" where
  "ascii_text s = list_all (\<lambda>c. (of_char c :: nat) < 128) s"

definition ascii_record :: "durableRecordJSON \<Rightarrow> bool" where
  "ascii_record v \<longleftrightarrow> ascii_text (rj_AgreementID v) \<and> ascii_text (dl_RecoveryEndpoint (rj_Local v))
    \<and> ascii_text (dp_PublicKey (rj_Peer v)) \<and> ascii_text (dp_LastLoopback (rj_Peer v)) \<and> ascii_text (dp_RecoveryEndpoint (rj_Peer v))
    \<and> list_all (\<lambda>b. b < 128) (dp_Name (rj_Peer v))"

definition ascii_file :: "durableFile \<Rightarrow> bool" where
  "ascii_file f \<longleftrightarrow> ascii_text (df_OwnerKey f) \<and> list_all ascii_record (df_Records f)"

definition text_laws :: "texts \<Rightarrow> bool" where
  "text_laws tx \<longleftrightarrow>
    (\<forall>u. tx_ParseUUID tx (tx_UUID tx u) = Some u \<and> ascii_text (tx_UUID tx u))
    \<and> (\<forall>k. tx_ParseKey tx (tx_Key tx k) = Some k \<and> ascii_text (tx_Key tx k))
    \<and> (\<forall>ep. AP_IsValid ep \<and> \<not> hasZone (ap_Addr ep) \<longrightarrow>
        tx_ParseAddrPort tx (tx_AddrPort tx ep) = Some ep \<and> tx_AddrPort tx ep \<noteq> [] \<and> ascii_text (tx_AddrPort tx ep))
    \<and> (\<forall>a. IsValid a \<and> \<not> hasZone a \<longrightarrow> tx_ParseAddr tx (tx_Addr tx a) = Some a \<and> tx_Addr tx a \<noteq> [] \<and> ascii_text (tx_Addr tx a))
    \<and> (\<forall>f raw. ascii_file f \<and> js_Encode tx f = Inr raw \<longrightarrow> js_Decode tx raw = Some (f, True))"

definition fixedFor :: "durableRecord \<Rightarrow> array16 \<Rightarrow> addrport" where
  "fixedFor record u =
    (case find (\<lambda>ep. UUID (fe_UID ep) = u) (dr_Fixed record) of None \<Rightarrow> NoAddrPort | Some ep \<Rightarrow> fe_Endpoint ep)"

section \<open>The text form of a record\<close>

definition canonicalUUID :: "texts \<Rightarrow> string \<Rightarrow> string \<Rightarrow> array16 result" where
  "canonicalUUID tx raw field =
    (case tx_ParseUUID tx raw of
       None \<Rightarrow> Inl (ErrNew (field @ '' must be a canonical nonzero UUID''))
     | Some u \<Rightarrow> if u = 0 \<or> tx_UUID tx u \<noteq> raw then Inl (ErrNew (field @ '' must be a canonical nonzero UUID'')) else Inr u)"

definition canonicalKey :: "texts \<Rightarrow> string \<Rightarrow> string \<Rightarrow> array32 result" where
  "canonicalKey tx raw field =
    (case tx_ParseKey tx raw of
       None \<Rightarrow> Inl (ErrNew (field @ '' must be a canonical WireGuard public key''))
     | Some k \<Rightarrow> if k = 0 \<or> tx_Key tx k \<noteq> raw
         then Inl (ErrNew (field @ '' must be a canonical WireGuard public key'')) else Inr k)"

definition parseRecoveryEndpoint :: "texts \<Rightarrow> string \<Rightarrow> string \<Rightarrow> addrport result" where
  "parseRecoveryEndpoint tx raw field =
    (if raw = [] then Inr NoAddrPort
     else
       (case tx_ParseAddrPort tx raw of
          None \<Rightarrow> Inl (ErrNew (field @ '' must be an IP endpoint with a nonzero port''))
        | Some ep \<Rightarrow> if \<not> AP_IsValid ep \<or> ap_Port ep = 0
            then Inl (ErrNew (field @ '' must be an IP endpoint with a nonzero port'')) else Inr ep))"

definition encodeDurableRecord :: "texts \<Rightarrow> durableRecord \<Rightarrow> array16 \<Rightarrow> durableRecordJSON" where
  "encodeDurableRecord tx record local =
    \<lparr>rj_AgreementID = tx_UUID tx (dr_ID record), rj_Confirmed = dr_Confirmed record,
     rj_Local = \<lparr>dl_ListenPort = dr_LocalPort record,
       dl_RecoveryEndpoint = (let ep = fixedFor record local in if AP_IsValid ep then tx_AddrPort tx ep else [])\<rparr>,
     rj_Peer = \<lparr>dp_UUID = UUID (dr_Peer record), dp_Name = Name (dr_Peer record), dp_PublicKey = tx_Key tx (dr_PublicKey record),
       dp_LastLoopback = (if IsValid (dr_LastLoopback record) then tx_Addr tx (dr_LastLoopback record) else []),
       dp_RecoveryEndpoint = (let ep = fixedFor record (UUID (dr_Peer record)) in if AP_IsValid ep then tx_AddrPort tx ep else [])\<rparr>\<rparr>"

definition parseLoopback :: "texts \<Rightarrow> string \<Rightarrow> addr result" where
  "parseLoopback tx raw =
    (if raw = [] then Inr NoAddr
     else
       (case tx_ParseAddr tx raw of
          None \<Rightarrow> Inl (ErrNew ''peer.last_loopback must be a usable IPv6 address'')
        | Some a \<Rightarrow> if \<not> Is6 a \<or> IsUnspecified a then Inl (ErrNew ''peer.last_loopback must be a usable IPv6 address'')
                    else Inr a))"

definition fixed_list :: "array16 \<Rightarrow> addrport \<Rightarrow> UID \<Rightarrow> addrport \<Rightarrow> FixedEndpoint list" where
  "fixed_list local localEndpoint peer peerEndpoint =
    sort_key (\<lambda>ep. UUID (fe_UID ep))
      ((if AP_IsValid localEndpoint then [\<lparr>fe_UID = \<lparr>UUID = local, Name = []\<rparr>, fe_Endpoint = localEndpoint\<rparr>] else [])
       @ (if AP_IsValid peerEndpoint then [\<lparr>fe_UID = peer, fe_Endpoint = peerEndpoint\<rparr>] else []))"

definition decodeDurableRecord :: "texts \<Rightarrow> durableRecordJSON \<Rightarrow> array16 \<Rightarrow> durableRecord result" where
  "decodeDurableRecord tx value local =
    (let lc = rj_Local value; pr = rj_Peer value; peer = \<lparr>UUID = dp_UUID pr, Name = dp_Name pr\<rparr> in
     bind_r (canonicalUUID tx (rj_AgreementID value) ''agreement_id'') (\<lambda>agreement.
     if dp_UUID pr = 0 \<or> dp_UUID pr = local then Inl (ErrNew ''durable peer UUID must be nonzero and differ from owner'')
     else
     bind_r (canonicalKey tx (dp_PublicKey pr) ''peer.public_key'') (\<lambda>key.
     if dl_ListenPort lc < 1 \<or> 65535 < dl_ListenPort lc then Inl (ErrNew ''local.listen_port must be between 1 and 65535'')
     else
     bind_r (parseRecoveryEndpoint tx (dl_RecoveryEndpoint lc) ''local.recovery_endpoint'') (\<lambda>localEndpoint.
     bind_r (parseRecoveryEndpoint tx (dp_RecoveryEndpoint pr) ''peer.recovery_endpoint'') (\<lambda>peerEndpoint.
     if \<not> AP_IsValid localEndpoint \<and> \<not> AP_IsValid peerEndpoint
     then Inl (ErrNew ''durable agreement requires at least one recovery endpoint'')
     else if AP_IsValid localEndpoint \<and> uint (ap_Port localEndpoint) \<noteq> dl_ListenPort lc
     then Inl (ErrNew ''local recovery endpoint port differs from listen_port'')
     else
     bind_r (parseLoopback tx (dp_LastLoopback pr)) (\<lambda>lastLoopback.
     let fixed = fixed_list local localEndpoint peer peerEndpoint in
     bind_r (Encode ((message_of DurablePropose)\<lparr>m_OperationID := agreement, m_FixedEndpoints := fixed\<rparr>)) (\<lambda>_.
       Inr \<lparr>dr_ID = agreement, dr_Peer = peer, dr_LastLoopback = lastLoopback, dr_PublicKey = key,
            dr_LocalPort = dl_ListenPort lc, dr_Fixed = fixed, dr_Confirmed = rj_Confirmed value\<rparr>)))))))"

section \<open>The file\<close>

text \<open>The table of records, by the identifier of the peer.\<close>

type_synonym durable_table = "(array16 \<times> durableRecord) list"

fun load_records :: "texts \<Rightarrow> durableOwner \<Rightarrow> durableRecordJSON list \<Rightarrow> durable_table \<Rightarrow> durable_table result" where
  "load_records tx owner [] table = Inr table"
| "load_records tx owner (value # rest) table =
    bind_r (decodeDurableRecord tx value (ow_UUID owner)) (\<lambda>record.
      if dr_PublicKey record = ow_PublicKey owner then Inl (ErrNew ''durable peer public key equals owner public key'')
      else if map_of table (UUID (dr_Peer record)) \<noteq> None then Inl (ErrNew ''duplicate durable peer'')
      else load_records tx owner rest (table @ [(UUID (dr_Peer record), record)]))"

definition loadDurable :: "texts \<Rightarrow> durableOwner \<Rightarrow> bytes option result \<Rightarrow> durable_table result" where
  "loadDurable tx owner content =
    bind_r content (\<lambda>content.
      case content of
        None \<Rightarrow> Inr []
      | Some raw \<Rightarrow>
        (case js_Decode tx raw of
           None \<Rightarrow> Inl (ErrNew ''invalid durable store'')
         | Some (f, complete) \<Rightarrow>
           if \<not> complete \<or> df_Version f \<noteq> 1 then Inl (ErrNew ''unsupported or malformed durable store'')
           else
             bind_r (canonicalKey tx (df_OwnerKey f) ''owner.public_key'') (\<lambda>key.
               if df_OwnerUUID f \<noteq> ow_UUID owner \<or> key \<noteq> ow_PublicKey owner
               then Inl (ErrNew ''durable store belongs to another node or WireGuard identity'')
               else load_records tx owner (df_Records f) [])))"

definition durable_file :: "texts \<Rightarrow> durableOwner \<Rightarrow> durable_table \<Rightarrow> durableFile" where
  "durable_file tx owner table =
    \<lparr>df_Version = 1, df_OwnerUUID = ow_UUID owner, df_OwnerKey = tx_Key tx (ow_PublicKey owner),
     df_Records = map (\<lambda>record. encodeDurableRecord tx record (ow_UUID owner))
       (sort_key (\<lambda>record. UUID (dr_Peer record)) (map snd table))\<rparr>"

text \<open>The system calls of a save, each of which may fail; a failing close counts only if writing went well.\<close>

record store_io =
  si_directory :: "error option"
  si_temp :: "error option"
  si_write :: "error option"
  si_sync :: "error option"
  si_close :: "error option"
  si_rename :: "error option"
  si_opendir :: "error option"
  si_dirsync :: "error option"

definition first_error :: "error option list \<Rightarrow> error option" where
  "first_error es = (case filter (\<lambda>e. e \<noteq> None) es of [] \<Rightarrow> None | e # _ \<Rightarrow> e)"

definition saveDurableWithIO ::
  "texts \<Rightarrow> durableOwner \<Rightarrow> durable_table \<Rightarrow> store_io \<Rightarrow> bytes option \<Rightarrow> bytes option \<times> error option" where
  "saveDurableWithIO tx owner table io content =
    (case js_Encode tx (durable_file tx owner table) of
       Inl e \<Rightarrow> (content, Some e)
     | Inr raw \<Rightarrow>
       (case first_error [si_directory io, si_temp io, si_write io, si_sync io, si_close io, si_rename io] of
          Some e \<Rightarrow> (content, Some e)
        | None \<Rightarrow> (Some raw, first_error [si_opendir io, si_dirsync io])))"

section \<open>Round trips\<close>

text \<open>
  What a record is after it was written and read: the endpoints are those of the owner and of the
  peer, in order, with the owner's name dropped and the peer's name refreshed.
\<close>

definition stored :: "array16 \<Rightarrow> durableRecord \<Rightarrow> durableRecord" where
  "stored local r = r\<lparr>dr_Fixed := fixed_list local (fixedFor r local) (dr_Peer r) (fixedFor r (UUID (dr_Peer r)))\<rparr>"

definition endpoint_ok :: "addrport \<Rightarrow> bool" where
  "endpoint_ok ep \<longleftrightarrow> \<not> AP_IsValid ep \<or> endpoint_canon ep"

definition record_ok :: "array16 \<Rightarrow> durableRecord \<Rightarrow> bool" where
  "record_ok local r \<longleftrightarrow> dr_ID r \<noteq> 0 \<and> UUID (dr_Peer r) \<noteq> local \<and> uid_canon (dr_Peer r) \<and> dr_PublicKey r \<noteq> 0
    \<and> 1 \<le> dr_LocalPort r \<and> dr_LocalPort r \<le> 65535
    \<and> (dr_LastLoopback r = NoAddr \<or> Is6 (dr_LastLoopback r) \<and> \<not> IsUnspecified (dr_LastLoopback r)) \<and> \<not> hasZone (dr_LastLoopback r)
    \<and> (\<forall>e \<in> set (dr_Fixed r). UUID (fe_UID e) \<in> {local, UUID (dr_Peer r)} \<and> endpoint_canon (fe_Endpoint e))
    \<and> endpoint_ok (fixedFor r local) \<and> endpoint_ok (fixedFor r (UUID (dr_Peer r)))
    \<and> (AP_IsValid (fixedFor r local) \<or> AP_IsValid (fixedFor r (UUID (dr_Peer r))))
    \<and> (AP_IsValid (fixedFor r local) \<longrightarrow> uint (ap_Port (fixedFor r local)) = dr_LocalPort r)"

lemma canonicalUUID_text: "text_laws tx \<Longrightarrow> canonicalUUID tx (tx_UUID tx u) field = Inr v \<longleftrightarrow> v = u \<and> u \<noteq> 0"
  by (auto simp: canonicalUUID_def text_laws_def)

lemma canonicalKey_text: "text_laws tx \<Longrightarrow> canonicalKey tx (tx_Key tx k) field = Inr v \<longleftrightarrow> v = k \<and> k \<noteq> 0"
  by (auto simp: canonicalKey_def text_laws_def)

lemma parseRecoveryEndpoint_text:
  "text_laws tx \<Longrightarrow> \<not> hasZone (ap_Addr ep) \<Longrightarrow> parseRecoveryEndpoint tx (if AP_IsValid ep then tx_AddrPort tx ep else []) field = Inr v \<longleftrightarrow>
    (if AP_IsValid ep then v = ep \<and> ap_Port ep \<noteq> 0 else v = NoAddrPort)"
  by (auto simp: parseRecoveryEndpoint_def text_laws_def)

lemma parseLoopback_text:
  "text_laws tx \<Longrightarrow> \<not> hasZone a \<Longrightarrow> parseLoopback tx (if IsValid a then tx_Addr tx a else []) = Inr v \<longleftrightarrow>
    v = a \<and> (a = NoAddr \<or> Is6 a \<and> \<not> IsUnspecified a)"
  by (cases a) (auto simp: parseLoopback_def text_laws_def)

lemma fixed_list_invalid: "\<not> AP_IsValid ep \<Longrightarrow> fixed_list local NoAddrPort peer pe = fixed_list local ep peer pe"
  "\<not> AP_IsValid ep \<Longrightarrow> fixed_list local le peer NoAddrPort = fixed_list local le peer ep"
  by (simp_all add: fixed_list_def)

lemma fixed_list_norm: "fixed_list local (if AP_IsValid le then le else NoAddrPort) peer (if AP_IsValid pe then pe else NoAddrPort)
    = fixed_list local le peer pe"
  by (simp add: fixed_list_def)

lemma fixed_list_canon:
  assumes "local \<noteq> UUID peer" "local \<noteq> 0" "uid_canon peer" "endpoint_ok le" "endpoint_ok pe" "AP_IsValid le \<or> AP_IsValid pe" "ident \<noteq> 0"
  shows "is_ok (Encode ((message_of DurablePropose)\<lparr>m_OperationID := ident, m_FixedEndpoints := fixed_list local le peer pe\<rparr>))"
proof (rule message_codec.enc_total)
  have "uid_canon \<lparr>UUID = local, Name = []\<rparr>" using assms(2) by (simp add: uid_canon_def)
  then have "list_all fixed_canon (fixed_list local le peer pe)"
    using assms(3-5) by (auto simp: fixed_list_def list_all_iff fixed_canon_def endpoint_ok_def)
  moreover have "sorted_wrt fixed_less (fixed_list local le peer pe)"
    using assms(1) by (auto simp: fixed_list_def)
  moreover have "length (fixed_list local le peer pe) \<in> {1, 2}" using assms(6) by (auto simp: fixed_list_def)
  ultimately show "message_canon ((message_of DurablePropose)\<lparr>m_OperationID := ident, m_FixedEndpoints := fixed_list local le peer pe\<rparr>)"
    using assms(7) by (simp add: message_canon_def durable_canon_def IsDurable_def word_le_nat_alt Let_def)
qed

lemma decodeDurableRecord_iff:
  "decodeDurableRecord tx v local = Inr r \<longleftrightarrow> (\<exists>agreement key le pe ll frame.
    canonicalUUID tx (rj_AgreementID v) ''agreement_id'' = Inr agreement
    \<and> dp_UUID (rj_Peer v) \<noteq> 0 \<and> dp_UUID (rj_Peer v) \<noteq> local
    \<and> canonicalKey tx (dp_PublicKey (rj_Peer v)) ''peer.public_key'' = Inr key
    \<and> 1 \<le> dl_ListenPort (rj_Local v) \<and> dl_ListenPort (rj_Local v) \<le> 65535
    \<and> parseRecoveryEndpoint tx (dl_RecoveryEndpoint (rj_Local v)) ''local.recovery_endpoint'' = Inr le
    \<and> parseRecoveryEndpoint tx (dp_RecoveryEndpoint (rj_Peer v)) ''peer.recovery_endpoint'' = Inr pe
    \<and> (AP_IsValid le \<or> AP_IsValid pe) \<and> (AP_IsValid le \<longrightarrow> uint (ap_Port le) = dl_ListenPort (rj_Local v))
    \<and> parseLoopback tx (dp_LastLoopback (rj_Peer v)) = Inr ll
    \<and> Encode ((message_of DurablePropose)\<lparr>m_OperationID := agreement, m_FixedEndpoints :=
        fixed_list local le \<lparr>UUID = dp_UUID (rj_Peer v), Name = dp_Name (rj_Peer v)\<rparr> pe\<rparr>) = Inr frame
    \<and> r = \<lparr>dr_ID = agreement, dr_Peer = \<lparr>UUID = dp_UUID (rj_Peer v), Name = dp_Name (rj_Peer v)\<rparr>, dr_LastLoopback = ll,
        dr_PublicKey = key, dr_LocalPort = dl_ListenPort (rj_Local v),
        dr_Fixed = fixed_list local le \<lparr>UUID = dp_UUID (rj_Peer v), Name = dp_Name (rj_Peer v)\<rparr> pe, dr_Confirmed = rj_Confirmed v\<rparr>)"
  unfolding decodeDurableRecord_def Let_def bind_r_Inr_iff if_Inl_Inr by (safe; force)

lemma decode_encode_iff:
  assumes laws: "text_laws tx"
    and zones: "\<not> hasZone (dr_LastLoopback r)" "\<not> hasZone (ap_Addr (fixedFor r local))" "\<not> hasZone (ap_Addr (fixedFor r (UUID (dr_Peer r))))"
  shows "decodeDurableRecord tx (encodeDurableRecord tx r local) local = Inr r' \<longleftrightarrow>
    dr_ID r \<noteq> 0 \<and> UUID (dr_Peer r) \<noteq> 0 \<and> UUID (dr_Peer r) \<noteq> local \<and> dr_PublicKey r \<noteq> 0
    \<and> 1 \<le> dr_LocalPort r \<and> dr_LocalPort r \<le> 65535
    \<and> (AP_IsValid (fixedFor r local) \<longrightarrow> ap_Port (fixedFor r local) \<noteq> 0)
    \<and> (AP_IsValid (fixedFor r (UUID (dr_Peer r))) \<longrightarrow> ap_Port (fixedFor r (UUID (dr_Peer r))) \<noteq> 0)
    \<and> (AP_IsValid (fixedFor r local) \<or> AP_IsValid (fixedFor r (UUID (dr_Peer r))))
    \<and> (AP_IsValid (fixedFor r local) \<longrightarrow> uint (ap_Port (fixedFor r local)) = dr_LocalPort r)
    \<and> (dr_LastLoopback r = NoAddr \<or> Is6 (dr_LastLoopback r) \<and> \<not> IsUnspecified (dr_LastLoopback r))
    \<and> is_ok (Encode ((message_of DurablePropose)\<lparr>m_OperationID := dr_ID r, m_FixedEndpoints :=
        fixed_list local (fixedFor r local) (dr_Peer r) (fixedFor r (UUID (dr_Peer r)))\<rparr>))
    \<and> r' = stored local r"
proof -
  obtain i u n ll k p fx c where r: "r = \<lparr>dr_ID = i, dr_Peer = \<lparr>UUID = u, Name = n\<rparr>, dr_LastLoopback = ll, dr_PublicKey = k,
      dr_LocalPort = p, dr_Fixed = fx, dr_Confirmed = c\<rparr>"
    by (metis durableRecord.surjective UID.surjective old.unit.exhaust)
  define le pe where "le = fixedFor r local" and "pe = fixedFor r u"
  have parts: "stored local r = r\<lparr>dr_Fixed := fixed_list local le \<lparr>UUID = u, Name = n\<rparr> pe\<rparr>"
    by (simp add: stored_def le_def pe_def r)
  have enc: "encodeDurableRecord tx r local = \<lparr>rj_AgreementID = tx_UUID tx i, rj_Confirmed = c,
     rj_Local = \<lparr>dl_ListenPort = p, dl_RecoveryEndpoint = if AP_IsValid le then tx_AddrPort tx le else []\<rparr>,
     rj_Peer = \<lparr>dp_UUID = u, dp_Name = n, dp_PublicKey = tx_Key tx k,
       dp_LastLoopback = (if IsValid ll then tx_Addr tx ll else []),
       dp_RecoveryEndpoint = if AP_IsValid pe then tx_AddrPort tx pe else []\<rparr>\<rparr>"
    by (simp add: encodeDurableRecord_def Let_def le_def pe_def r)
  have inv: "fixed_list local (if AP_IsValid le then le else NoAddrPort) q (if AP_IsValid pe then pe else NoAddrPort)
      = fixed_list local le q pe" for q by (rule fixed_list_norm)
  have z: "\<not> hasZone ll" "\<not> hasZone (ap_Addr le)" "\<not> hasZone (ap_Addr pe)" using zones by (simp_all add: r le_def pe_def)
  show ?thesis
    unfolding enc decodeDurableRecord_iff durableRecordJSON.simps durableLocalJSON.simps durablePeerJSON.simps
      canonicalUUID_text[OF laws] canonicalKey_text[OF laws] parseRecoveryEndpoint_text[OF laws z(2)] parseRecoveryEndpoint_text[OF laws z(3)] parseLoopback_text[OF laws z(1)] parts
      le_def[symmetric] pe_def[symmetric]
    by (cases "AP_IsValid le"; cases "AP_IsValid pe")
      (auto simp: r is_ok_iff fixed_list_invalid pe_def[symmetric, unfolded r] le_def[symmetric, unfolded r])
qed

lemma endpoint_ok_port: "endpoint_ok ep \<Longrightarrow> AP_IsValid ep \<Longrightarrow> ap_Port ep \<noteq> 0"
  by (auto simp: endpoint_ok_def endpoint_canon_def)

lemma endpoint_ok_zone: "endpoint_ok ep \<Longrightarrow> \<not> hasZone (ap_Addr ep)"
  by (cases "ap_Addr ep") (auto simp: endpoint_ok_def endpoint_canon_def AP_IsValid_def)

lemma decode_encode_ok:
  assumes "text_laws tx" "record_ok local r" "local \<noteq> 0"
  shows "decodeDurableRecord tx (encodeDurableRecord tx r local) local = Inr (stored local r)"
proof -
  have "is_ok (Encode ((message_of DurablePropose)\<lparr>m_OperationID := dr_ID r, m_FixedEndpoints :=
      fixed_list local (fixedFor r local) (dr_Peer r) (fixedFor r (UUID (dr_Peer r)))\<rparr>))"
    using assms(2,3) by (intro fixed_list_canon) (auto simp: record_ok_def)
  with assms(2,3) show ?thesis
    by (subst decode_encode_iff[OF assms(1)])
      (auto simp: record_ok_def uid_canon_def endpoint_ok_zone dest: endpoint_ok_port)
qed

section \<open>Saving and loading\<close>

definition durable_table_ok :: "durableOwner \<Rightarrow> durable_table \<Rightarrow> bool" where
  "durable_table_ok owner table \<longleftrightarrow> ow_UUID owner \<noteq> 0 \<and> ow_PublicKey owner \<noteq> 0 \<and> distinct (map fst table)
    \<and> (\<forall>(peer, r) \<in> set table. peer = UUID (dr_Peer r) \<and> record_ok (ow_UUID owner) r \<and> dr_PublicKey r \<noteq> ow_PublicKey owner)"

definition stored_table :: "durableOwner \<Rightarrow> durable_table \<Rightarrow> durable_table" where
  "stored_table owner table = map (\<lambda>r. (UUID (dr_Peer r), stored (ow_UUID owner) r)) (sort_key (\<lambda>r. UUID (dr_Peer r)) (map snd table))"

lemma stored_sel [simp]: "dr_Peer (stored local r) = dr_Peer r" "dr_PublicKey (stored local r) = dr_PublicKey r"
  "dr_ID (stored local r) = dr_ID r" "dr_Confirmed (stored local r) = dr_Confirmed r" "dr_LocalPort (stored local r) = dr_LocalPort r"
  by (simp_all add: stored_def)

lemma load_records_encode:
  assumes "text_laws tx" "ow_UUID owner \<noteq> 0"
    and "\<forall>r \<in> set rs. record_ok (ow_UUID owner) r \<and> dr_PublicKey r \<noteq> ow_PublicKey owner"
    and "distinct (map fst table @ map (\<lambda>r. UUID (dr_Peer r)) rs)"
  shows "load_records tx owner (map (\<lambda>r. encodeDurableRecord tx r (ow_UUID owner)) rs) table
    = Inr (table @ map (\<lambda>r. (UUID (dr_Peer r), stored (ow_UUID owner) r)) rs)"
  using assms(3,4)
proof (induction rs arbitrary: table)
  case (Cons r rs)
  have "map_of table (UUID (dr_Peer r)) = None" using Cons.prems(2) by (simp add: map_of_eq_None_iff)
  moreover have "decodeDurableRecord tx (encodeDurableRecord tx r (ow_UUID owner)) (ow_UUID owner) = Inr (stored (ow_UUID owner) r)"
    using Cons.prems(1) assms(1,2) by (intro decode_encode_ok) auto
  moreover have "load_records tx owner (map (\<lambda>r. encodeDurableRecord tx r (ow_UUID owner)) rs)
      (table @ [(UUID (dr_Peer r), stored (ow_UUID owner) r)])
    = Inr ((table @ [(UUID (dr_Peer r), stored (ow_UUID owner) r)]) @ map (\<lambda>r. (UUID (dr_Peer r), stored (ow_UUID owner) r)) rs)"
    using Cons.prems by (intro Cons.IH) auto
  ultimately show ?case using Cons.prems(1) by simp
qed simp

lemma distinct_map_sort: "distinct (map g (sort_key k xs)) \<longleftrightarrow> distinct (map g xs)"
  by (simp add: distinct_map)

lemma durable_table_keys: "durable_table_ok owner table \<Longrightarrow> map (\<lambda>r. UUID (dr_Peer r)) (map snd table) = map fst table"
  by (auto simp: durable_table_ok_def)

lemma name_octet_ascii: "name_octet b \<Longrightarrow> b < 128"
  by (auto simp: name_octet_def word_less_nat_alt word_le_nat_alt)

lemma encode_ascii: "text_laws tx \<Longrightarrow> record_ok local r \<Longrightarrow> ascii_record (encodeDurableRecord tx r local)"
  unfolding text_laws_def record_ok_def uid_canon_def
  by (auto simp: ascii_record_def encodeDurableRecord_def Let_def ascii_text_def list_all_iff name_octet_ascii endpoint_ok_zone)

lemma durable_file_ascii: "text_laws tx \<Longrightarrow> durable_table_ok owner table \<Longrightarrow> ascii_file (durable_file tx owner table)"
  by (auto simp: ascii_file_def durable_file_def durable_table_ok_def list_all_iff encode_ascii) (simp add: text_laws_def)

lemma load_durable_file:
  assumes "text_laws tx" "durable_table_ok owner table" "js_Encode tx (durable_file tx owner table) = Inr raw"
  shows "loadDurable tx owner (Inr (Some raw)) = Inr (stored_table owner table)"
proof -
  let ?rs = "sort_key (\<lambda>r. UUID (dr_Peer r)) (map snd table)"
  have "distinct (map (\<lambda>r. UUID (dr_Peer r)) ?rs)"
    unfolding distinct_map_sort durable_table_keys[OF assms(2)] using assms(2) by (simp add: durable_table_ok_def)
  then have "load_records tx owner (map (\<lambda>r. encodeDurableRecord tx r (ow_UUID owner)) ?rs) [] = Inr (stored_table owner table)"
    using load_records_encode[of tx owner ?rs "[]"] assms(1,2) by (force simp: durable_table_ok_def stored_table_def)
  moreover have "js_Decode tx raw = Some (durable_file tx owner table, True)"
    using assms(1,3) durable_file_ascii[OF assms(1,2)] unfolding text_laws_def by blast
  moreover have "canonicalKey tx (tx_Key tx (ow_PublicKey owner)) ''owner.public_key'' = Inr (ow_PublicKey owner)"
    using assms(1,2) by (simp add: canonicalKey_text durable_table_ok_def)
  ultimately show ?thesis by (simp add: loadDurable_def durable_file_def)
qed

lemma stored_table_map:
  assumes "durable_table_ok owner table"
  shows "map_of (stored_table owner table) peer = map_option (stored (ow_UUID owner)) (map_of table peer)"
proof -
  let ?f = "\<lambda>(p, r). (p, stored (ow_UUID owner) r)"
  have "set (stored_table owner table) = set (map ?f table)"
    using assms by (force simp: stored_table_def durable_table_ok_def)
  moreover have "map fst (stored_table owner table) = map (\<lambda>r. UUID (dr_Peer r)) (sort_key (\<lambda>r. UUID (dr_Peer r)) (map snd table))"
    by (simp add: stored_table_def)
  then have "distinct (map fst (stored_table owner table))"
    using assms by (simp only: distinct_map_sort durable_table_keys[OF assms]) (simp add: durable_table_ok_def)
  moreover have "distinct (map fst (map ?f table))" using assms by (simp add: durable_table_ok_def comp_def case_prod_beta)
  ultimately have "map_of (stored_table owner table) = map_of (map ?f table)" by (simp add: map_of_inject_set)
  then show ?thesis by (simp add: map_of_map)
qed

text \<open>
  C14: Whatever fails during a save, the file is afterwards either what it was, with an error
  reported, or a file that loads as exactly the records of the table.
\<close>

theorem durable_save_atomic:
  assumes "text_laws tx" "durable_table_ok owner table" "saveDurableWithIO tx owner table io content = (content', e)"
  shows "content' = content \<and> e \<noteq> None
    \<or> (\<exists>loaded. loadDurable tx owner (Inr content') = Inr loaded
        \<and> map_of loaded = (\<lambda>peer. map_option (stored (ow_UUID owner)) (map_of table peer)))"
  using assms(3) load_durable_file[OF assms(1,2)] stored_table_map[OF assms(2)]
  by (auto simp: saveDurableWithIO_def split: sum.splits option.splits)

fun plain_addr :: "addr \<Rightarrow> string" where
  "plain_addr NoAddr = []"
| "plain_addr (Addr4 w) = CHR ''4'' # replicate (unat w) CHR ''x''"
| "plain_addr (Addr6 w z) = CHR ''6'' # replicate (unat w) CHR ''x''"

fun parse_plain_addr :: "string \<Rightarrow> addr option" where
  "parse_plain_addr [] = None"
| "parse_plain_addr (c # s) =
    (if c = CHR ''4'' then Some (Addr4 (of_nat (length s))) else if c = CHR ''6'' then Some (Addr6 (of_nat (length s)) []) else None)"

definition plain_texts :: "durableFile list \<Rightarrow> texts" where
  "plain_texts fs =
    \<lparr>tx_ParseUUID = \<lambda>s. Some (of_nat (length s)), tx_UUID = \<lambda>u. replicate (unat u) CHR ''0'',
     tx_ParseKey = \<lambda>s. Some (of_nat (length s)), tx_Key = \<lambda>u. replicate (unat u) CHR ''0'',
     tx_ParseAddrPort = \<lambda>s. map_option (\<lambda>a. AddrPort a (of_nat (length (takeWhile (\<lambda>c. c = CHR '':'') s))))
       (parse_plain_addr (dropWhile (\<lambda>c. c = CHR '':'') s)),
     tx_AddrPort = \<lambda>ep. replicate (unat (ap_Port ep)) CHR '':'' @ plain_addr (ap_Addr ep),
     tx_ParseAddr = parse_plain_addr, tx_Addr = plain_addr,
     js_Encode = \<lambda>f. case find (\<lambda>n. fs ! n = f) [0..<length fs] of None \<Rightarrow> Inl (ErrNew ''json'') | Some n \<Rightarrow> Inr (replicate n 1),
     js_Decode = \<lambda>raw. if length raw < length fs then Some (fs ! length raw, True) else None\<rparr>"

lemma plain_addr_round: "IsValid a \<Longrightarrow> \<not> hasZone a \<Longrightarrow> parse_plain_addr (plain_addr a) = Some a \<and> plain_addr a \<noteq> [] \<and> ascii_text (plain_addr a)"
  by (cases a) (auto simp: ascii_text_def list_all_iff)

lemma plain_addr_head: "IsValid a \<Longrightarrow> takeWhile (\<lambda>c. c = CHR '':'') (plain_addr a) = [] \<and> dropWhile (\<lambda>c. c = CHR '':'') (plain_addr a) = plain_addr a"
  by (cases a) auto

lemma plain_texts_laws: "text_laws (plain_texts fs)"
proof -
  have "tx_ParseAddrPort (plain_texts fs) (tx_AddrPort (plain_texts fs) ep) = Some ep \<and> tx_AddrPort (plain_texts fs) ep \<noteq> []
      \<and> ascii_text (tx_AddrPort (plain_texts fs) ep)"
    if "AP_IsValid ep" "\<not> hasZone (ap_Addr ep)" for ep
    using that plain_addr_round[of "ap_Addr ep"] plain_addr_head[of "ap_Addr ep"]
    by (cases ep) (auto simp: plain_texts_def AP_IsValid_def takeWhile_append dropWhile_append ascii_text_def list_all_iff)
  moreover have "js_Decode (plain_texts fs) raw = Some (f, True)" if "js_Encode (plain_texts fs) f = Inr raw" for f raw
    using that by (auto simp: plain_texts_def find_Some_iff split: option.splits)
  ultimately show ?thesis
    using plain_addr_round by (auto simp: text_laws_def plain_texts_def ascii_text_def list_all_iff split: if_splits)
qed

definition demo_owner :: durableOwner where
  "demo_owner = \<lparr>ow_UUID = 1, ow_PublicKey = 1\<rparr>"

definition demo_record :: durableRecord where
  "demo_record = \<lparr>dr_ID = 7, dr_Peer = \<lparr>UUID = 2, Name = [97]\<rparr>, dr_LastLoopback = NoAddr, dr_PublicKey = 2, dr_LocalPort = 9,
    dr_Fixed = [\<lparr>fe_UID = \<lparr>UUID = 1, Name = []\<rparr>, fe_Endpoint = AddrPort (Addr4 0x01020304) 9\<rparr>], dr_Confirmed = True\<rparr>"

definition demo_texts :: texts where
  "demo_texts = plain_texts [durable_file (plain_texts []) demo_owner [(2, demo_record)]]"

definition no_faults :: store_io where
  "no_faults = \<lparr>si_directory = None, si_temp = None, si_write = None, si_sync = None, si_close = None, si_rename = None,
    si_opendir = None, si_dirsync = None\<rparr>"

lemma demo_durable_table: "durable_table_ok demo_owner [(2, demo_record)]"
  by (simp add: durable_table_ok_def demo_owner_def demo_record_def record_ok_def uid_canon_def name_octet_def fixedFor_def endpoint_ok_def
      endpoint_canon_def AP_IsValid_def validEndpointAddress_def validAddress_def IsUnspecified_def IsMulticast_def IsLinkLocalUnicast_def
      is_broadcast_def)

lemma plain_file: "durable_file (plain_texts fs) owner t = durable_file (plain_texts []) owner t"
proof -
  have sel: "tx_UUID (plain_texts fs) = tx_UUID (plain_texts [])" "tx_Key (plain_texts fs) = tx_Key (plain_texts [])"
    "tx_AddrPort (plain_texts fs) = tx_AddrPort (plain_texts [])" "tx_Addr (plain_texts fs) = tx_Addr (plain_texts [])"
    by (simp_all add: plain_texts_def)
  show ?thesis unfolding durable_file_def encodeDurableRecord_def sel ..
qed

lemma plain_save:
  assumes "find (\<lambda>n. fs ! n = durable_file (plain_texts []) owner t) [0..<length fs] = Some n"
  shows "saveDurableWithIO (plain_texts fs) owner t no_faults content = (Some (replicate n 1), None)"
proof -
  have "js_Encode (plain_texts fs) (durable_file (plain_texts fs) owner t) = Inr (replicate n 1)"
    using assms plain_file[of fs owner t] by (simp add: plain_texts_def)
  then show ?thesis by (simp add: saveDurableWithIO_def no_faults_def first_error_def)
qed

lemma demo_save: "saveDurableWithIO demo_texts demo_owner [(2, demo_record)] no_faults None = (Some [], None)"
  unfolding demo_texts_def by (subst plain_save[of _ _ _ 0]) simp_all

theorem durable_save_atomic_witness:
  "\<exists>loaded. loadDurable demo_texts demo_owner (Inr (Some [])) = Inr loaded \<and> map_of loaded 2 = Some (stored 1 demo_record)"
proof -
  have "text_laws demo_texts" unfolding demo_texts_def by (rule plain_texts_laws)
  from durable_save_atomic[OF this demo_durable_table demo_save] show ?thesis by (auto simp: demo_owner_def)
qed

end
