(* ===== verification/Durable_Manager.thy ===== *)
theory Durable_Manager
  imports Durable_Store Recovery Peer_Targets
begin

text \<open>
  The manager of durable agreements, \<^verbatim>\<open>internal/runtime/durable.go\<close>, \<^verbatim>\<open>durable_recovery.go\<close> and
  the deletion of \<^verbatim>\<open>durable_status.go\<close>: the table of records, written to its file before it is
  changed in memory, the observations of links, the negotiation of an agreement over a link (an
  offer, a counter-offer, the two confirmations that a record is saved), and the checks that end an
  agreement after half an hour of failure while both sides are ready.  An operation runs under the
  lock of the manager; what it meets outside is an argument.  Shown: every operation keeps the table
  such that its file can be read again, through crashes, restarts and failing saves.
\<close>

unbundle bit_operations_syntax

section \<open>State\<close>

abbreviation errDurableComplete :: error where
  "errDurableComplete \<equiv> ErrNew ''durable operation complete''"

abbreviation linkFailureTimeout :: duration where
  "linkFailureTimeout \<equiv> 30 * second"

abbreviation maxDynamicLinks :: int where
  "maxDynamicLinks \<equiv> 128"

record materializedState =
  ms_desired :: LinkPlan
  ms_local :: "prefix list"
  ms_peers :: "addr list"
  ms_remote :: array16
  ms_dynamic :: bool
  ms_active :: bool
  ms_committed :: bool
  ms_lastPong :: time

type_synonym link_states = "(string \<times> materializedState) list"

record durableObservation =
  ob_local :: addrport
  ob_remote :: addrport
  ob_control :: addr
  ob_port :: int
  ob_since :: time
  ob_seen :: time

abbreviation zero_observation :: durableObservation where
  "zero_observation \<equiv> \<lparr>ob_local = NoAddrPort, ob_remote = NoAddrPort, ob_control = NoAddr, ob_port = 0, ob_since = 0, ob_seen = 0\<rparr>"

text \<open>
  Sessions, operations and check states are compared as pointers: a session and an operation carry
  their identity, and check states are kept in a store by theirs, since a worker may still hold one
  that the table no longer names.
\<close>

record session =
  s_ident :: nat
  s_RemoteUID :: UID
  s_RemoteLoopbackV6 :: addr

record durableOperation =
  op_ident :: nat
  op_record :: durableRecord
  op_session :: "nat option"
  op_outgoing :: bool
  op_saved :: bool
  op_peerSaved :: bool
  op_until :: time

record durableCheckState =
  ck_query :: array16
  ck_agreement :: array16
  ck_next :: time
  ck_readyUntil :: time
  ck_failedSince :: time
  ck_restoreAfter :: time
  ck_busy :: bool

abbreviation new_check :: "array16 \<Rightarrow> durableCheckState" where
  "new_check agreement \<equiv> \<lparr>ck_query = 0, ck_agreement = agreement, ck_next = 0, ck_readyUntil = 0, ck_failedSince = 0,
    ck_restoreAfter = 0, ck_busy = False\<rparr>"

record durableManager =
  dm_cooldown :: "(array16 \<times> time) list"
  dm_closed :: bool
  dm_file :: "bytes option"
  dm_records :: durable_table
  dm_observations :: "(string \<times> durableObservation) list"
  dm_operations :: "(array16 \<times> durableOperation) list"
  dm_checks :: "(array16 \<times> nat) list"
  dm_checkStates :: "nat \<Rightarrow> durableCheckState"
  dm_allocated :: nat

record durable_config =
  dc_desired :: DesiredState
  dc_name :: bytes
  dc_publicKey :: array32
  dc_texts :: texts

definition durableOwner_of :: "durable_config \<Rightarrow> durableOwner" where
  "durableOwner_of cfg = \<lparr>ow_UUID = ds_UUID (dc_desired cfg), ow_PublicKey = dc_publicKey cfg\<rparr>"

abbreviation own_id :: "durable_config \<Rightarrow> array16" where
  "own_id cfg \<equiv> ds_UUID (dc_desired cfg)"

text \<open>
  What an operation meets outside: the readings of the clock in the order it makes them (those of
  the two loops apart), the links at each time it looks at them, whether the context of the session
  has ended, and the outcome of each save, each send and of the random identifier.
\<close>

record durable_env =
  e_now :: "nat \<Rightarrow> time"
  e_reserve :: "nat \<Rightarrow> time"
  e_endpoint :: "nat \<Rightarrow> time"
  e_states :: "nat \<Rightarrow> link_states"
  e_cancelled :: "nat \<Rightarrow> bool"
  e_io :: "nat \<Rightarrow> store_io"
  e_send :: "nat \<Rightarrow> error option"
  e_id :: "array16 result"
  e_revision :: u64

type_synonym durable_reply = "durableManager \<times> Message list \<times> error option"

section \<open>The table and its file\<close>

definition saveLocked :: "durable_config \<Rightarrow> store_io \<Rightarrow> durableRecord \<Rightarrow> durableManager \<Rightarrow> durableManager \<times> error option" where
  "saveLocked cfg io record d =
    (let peer = UUID (dr_Peer record); table = AList.update peer record (dm_records d) in
     case saveDurableWithIO (dc_texts cfg) (durableOwner_of cfg) table io (dm_file d) of
       (content, Some e) \<Rightarrow> (d\<lparr>dm_file := content\<rparr>, Some e)
     | (content, None) \<Rightarrow>
       (d\<lparr>dm_file := content, dm_records := table,
          dm_checks := (case map_of (dm_records d) peer of
              None \<Rightarrow> dm_checks d
            | Some previous \<Rightarrow> if dr_ID previous \<noteq> dr_ID record then AList.delete peer (dm_checks d) else dm_checks d)\<rparr>, None))"

definition deleteLocked ::
  "durable_config \<Rightarrow> store_io \<Rightarrow> time \<Rightarrow> link_states \<Rightarrow> array16 \<Rightarrow> durableManager \<Rightarrow> durableManager \<times> error option" where
  "deleteLocked cfg io now states remote d =
    (if map_of (dm_records d) remote = None then (d, None)
     else
       (let table = AList.delete remote (dm_records d) in
        case saveDurableWithIO (dc_texts cfg) (durableOwner_of cfg) table io (dm_file d) of
          (content, Some e) \<Rightarrow> (d\<lparr>dm_file := content\<rparr>, Some e)
        | (content, None) \<Rightarrow>
          (d\<lparr>dm_file := content, dm_records := table,
             dm_cooldown := AList.update remote (now + ds_Stable (ds_Durable (dc_desired cfg))) (dm_cooldown d),
             dm_operations := AList.delete remote (dm_operations d), dm_checks := AList.delete remote (dm_checks d),
             dm_observations := filter (\<lambda>(name, _). case map_of states name of None \<Rightarrow> True | Some state \<Rightarrow> ms_remote state \<noteq> remote)
               (dm_observations d)\<rparr>, None)))"

definition confirmedCountLocked :: "durableManager \<Rightarrow> int" where
  "confirmedCountLocked d = int (length (filter (\<lambda>(_, record). dr_Confirmed record) (dm_records d)))"

definition has :: "durableManager \<Rightarrow> array16 \<Rightarrow> bool" where
  "has d remote = (map_of (dm_records d) remote \<noteq> None)"

definition refreshPeerMetadata ::
  "durable_config \<Rightarrow> durable_env \<Rightarrow> UID \<Rightarrow> array32 \<Rightarrow> addr \<Rightarrow> durableManager \<Rightarrow> durableManager \<times> error option" where
  "refreshPeerMetadata cfg env peer publicKey loopback d =
    (case map_of (dm_records d) (UUID peer) of
       None \<Rightarrow> (d, None)
     | Some record \<Rightarrow>
       if dr_PublicKey record \<noteq> publicKey then deleteLocked cfg (e_io env 0) (e_now env 0) (e_states env 0) (UUID peer) d
       else if dr_Peer record = peer \<and> dr_LastLoopback record = loopback then (d, None)
       else saveLocked cfg (e_io env 0) (record\<lparr>dr_Peer := peer, dr_LastLoopback := loopback\<rparr>) d)"

section \<open>Opening\<close>

definition candidateAllowed :: "DesiredState \<Rightarrow> addrport \<Rightarrow> bool" where
  "candidateAllowed desired candidate =
    (case ds_DynamicLinks desired of
       None \<Rightarrow> False
     | Some plan \<Rightarrow> list_ex (\<lambda>p. Contains p (ap_Addr candidate)) (dp_AllowCandidatePrefixes plan))"

definition record_permitted :: "DesiredState \<Rightarrow> array16 \<times> durableRecord \<Rightarrow> bool" where
  "record_permitted desired entry =
    (case entry of (peer, record) \<Rightarrow>
       let choice = ds_Ports desired; fixedLocal = fixedFor record (ds_UUID desired); fixedRemote = fixedFor record peer in
       \<not> (AP_IsValid fixedLocal \<and>
            (Port choice \<noteq> 0 \<and> Port choice \<noteq> dr_LocalPort record
             \<or> First (Range choice) \<noteq> 0 \<and> (dr_LocalPort record < First (Range choice) \<or> Last (Range choice) < dr_LocalPort record))
          \<or> AP_IsValid fixedRemote \<and> \<not> candidateAllowed desired fixedRemote))"

definition openDurable ::
  "durable_config \<Rightarrow> (nat \<Rightarrow> store_io) \<Rightarrow> bytes option result \<Rightarrow> bytes option \<times> (durableManager result)" where
  "openDurable cfg io content =
    (let tx = dc_texts cfg; owner = durableOwner_of cfg; old = (case content of Inl _ \<Rightarrow> None | Inr c \<Rightarrow> c);
         manager = (\<lambda>c table. \<lparr>dm_cooldown = [], dm_closed = False, dm_file = c, dm_records = table, dm_observations = [],
            dm_operations = [], dm_checks = [], dm_checkStates = (\<lambda>_. new_check 0), dm_allocated = 0\<rparr>) in
     case loadDurable tx owner content of
       Inl e \<Rightarrow> (old, Inl e)
     | Inr records \<Rightarrow>
       if \<not> allowsInbound (dc_desired cfg) \<and> records \<noteq> [] then
         (case saveDurableWithIO tx owner [] (io 0) old of
            (c, Some e) \<Rightarrow> (c, Inl e)
          | (c, None) \<Rightarrow> (c, Inr (manager c [])))
       else
         (let kept = filter (record_permitted (dc_desired cfg)) records in
          if kept \<noteq> records then
            (case saveDurableWithIO tx owner kept (io 1) old of
               (c, Some e) \<Rightarrow> (c, Inl e)
             | (c, None) \<Rightarrow> (c, Inr (manager c kept)))
          else (old, Inr (manager old records))))"

section \<open>Observations\<close>

definition link_current :: "link_states \<Rightarrow> LinkPlan \<Rightarrow> bool" where
  "link_current states plan =
    (case map_of states (lp_InterfaceName plan) of
       None \<Rightarrow> False
     | Some state \<Rightarrow> ms_active state \<and> ms_dynamic state \<and> OwnerAlias (ms_desired state) = OwnerAlias plan)"

definition observation :: "durableManager \<Rightarrow> LinkPlan \<Rightarrow> durableObservation" where
  "observation d plan = (case map_of (dm_observations d) (lp_InterfaceName plan) of None \<Rightarrow> zero_observation | Some v \<Rightarrow> v)"

definition update_observation :: "addrport \<Rightarrow> addrport \<Rightarrow> addr \<Rightarrow> int \<Rightarrow> time \<Rightarrow> durableObservation \<Rightarrow> durableObservation" where
  "update_observation local remote control port now previous =
    \<lparr>ob_local = local, ob_remote = remote, ob_control = control, ob_port = port,
     ob_since = (if ob_local previous \<noteq> local \<or> ob_port previous \<noteq> port \<or> linkFailureTimeout \<le> now - ob_seen previous
                 then now else ob_since previous),
     ob_seen = now\<rparr>"

definition observeDurable ::
  "durable_config \<Rightarrow> durable_env \<Rightarrow> error option \<Rightarrow> LinkPlan \<Rightarrow> addrport \<Rightarrow> addr \<Rightarrow> time \<Rightarrow> int result \<Rightarrow> addrport option result \<Rightarrow>
    durableManager \<Rightarrow> durableManager \<times> error option" where
  "observeDurable cfg env ended plan local control now listenPort observed d =
    (case ended of Some e \<Rightarrow> (d, Some e) | None \<Rightarrow>
     if linkFailureTimeout \<le> e_now env 0 - now \<or> \<not> link_current (e_states env 0) plan then (d, None)
     else
     case listenPort of Inl e \<Rightarrow> (d, Some e) | Inr port \<Rightarrow>
     case observed of Inl e \<Rightarrow> (d, Some e) | Inr None \<Rightarrow> (d, None) | Inr (Some remote) \<Rightarrow>
     if linkFailureTimeout \<le> e_now env 1 - now \<or> \<not> link_current (e_states env 1) plan \<or> now < ob_seen (observation d plan)
     then (d, None)
     else
       (let d = d\<lparr>dm_observations := AList.update (lp_InterfaceName plan)
              (update_observation local remote control port now (observation d plan)) (dm_observations d)\<rparr>;
            peer = (case map_of (e_states env 2) (lp_InterfaceName plan) of None \<Rightarrow> 0 | Some state \<Rightarrow> ms_remote state) in
        case map_of (dm_records d) peer of
          None \<Rightarrow> (d, None)
        | Some record \<Rightarrow>
          (let ours = fixedFor record (own_id cfg); theirs = fixedFor record peer in
           if AP_IsValid ours \<and> (ours \<noteq> local \<or> uint (ap_Port ours) \<noteq> port) \<or> AP_IsValid theirs \<and> theirs \<noteq> remote
           then deleteLocked cfg (e_io env 0) (e_now env 2) (e_states env 3) peer d
           else (d, None))))"

definition eligibleLocked :: "durable_config \<Rightarrow> durableManager \<Rightarrow> LinkPlan \<Rightarrow> time \<Rightarrow> FixedEndpoint option" where
  "eligibleLocked cfg d plan now =
    (case map_of (dm_observations d) (lp_InterfaceName plan) of
       None \<Rightarrow> None
     | Some v \<Rightarrow>
       if linkFailureTimeout \<le> now - ob_seen v \<or> now - ob_since v < ds_Stable (ds_Durable (dc_desired cfg))
          \<or> uint (ap_Port (ob_local v)) \<noteq> ob_port v
       then None
       else Some \<lparr>fe_UID = \<lparr>UUID = own_id cfg, Name = dc_name cfg\<rparr>, fe_Endpoint = ob_local v\<rparr>)"

definition reservationsLocked :: "(nat \<Rightarrow> time) \<Rightarrow> durableManager \<Rightarrow> int" where
  "reservationsLocked clock d =
    int (length (filter (\<lambda>(i, peer, oper). map_of (dm_records d) peer = None \<and> clock i < op_until oper)
      (enumerate 0 (dm_operations d))))"

section \<open>Negotiation\<close>

definition sameFixed :: "FixedEndpoint list \<Rightarrow> FixedEndpoint list \<Rightarrow> bool" where
  "sameFixed a b = list_all2 (\<lambda>x y. UUID (fe_UID x) = UUID (fe_UID y) \<and> fe_Endpoint x = fe_Endpoint y) a b"

definition healthy :: "durable_env \<Rightarrow> nat \<Rightarrow> LinkPlan \<Rightarrow> array16 \<Rightarrow> bool" where
  "healthy env i plan peer =
    (\<not> e_cancelled env i \<and>
     (case map_of (e_states env i) (lp_InterfaceName plan) of
        None \<Rightarrow> False
      | Some state \<Rightarrow> ms_active state \<and> ms_dynamic state \<and> ms_remote state = peer
          \<and> OwnerAlias (ms_desired state) = OwnerAlias plan))"

definition decline :: "durable_config \<Rightarrow> durable_env \<Rightarrow> Message \<Rightarrow> durableManager \<Rightarrow> durable_reply" where
  "decline cfg env m d =
    (let v = (message_of DurableDecline)\<lparr>m_OperationID := m_OperationID m\<rparr>;
         v = (if allowsInbound (dc_desired cfg) then v
              else v\<lparr>m_DeclineReason := DeclinePolicy, m_Policy := Some \<lparr>Revision = e_revision env, Accept = False\<rparr>\<rparr>) in
     (d, [v], case e_send env 0 of Some e \<Rightarrow> Some e | None \<Rightarrow> Some errDurableComplete))"

fun endpoints_observed ::
  "durable_config \<Rightarrow> durable_env \<Rightarrow> LinkPlan \<Rightarrow> array16 \<Rightarrow> durableRecord option \<Rightarrow> durableManager \<Rightarrow> nat \<Rightarrow> FixedEndpoint list \<Rightarrow> bool" where
  "endpoints_observed cfg env plan peer known d i [] = True"
| "endpoints_observed cfg env plan peer known d i (ep # rest) =
    (let v = observation d plan in
     if UUID (fe_UID ep) = own_id cfg then
       ((case known of None \<Rightarrow> False | Some record \<Rightarrow> fixedFor record (own_id cfg) = fe_Endpoint ep)
          \<or> eligibleLocked cfg d plan (e_endpoint env i) \<noteq> None)
       \<and> fe_Endpoint ep = ob_local v \<and> uint (ap_Port (fe_Endpoint ep)) = ob_port v
       \<and> endpoints_observed cfg env plan peer known d (i + 1) rest
     else if UUID (fe_UID ep) = peer then
       fe_Endpoint ep = ob_remote v \<and> endpoints_observed cfg env plan peer known d (i + 1) rest
     else False)"

definition propose_busy :: "durable_config \<Rightarrow> durable_env \<Rightarrow> session \<Rightarrow> Message \<Rightarrow> durableManager \<Rightarrow> bool" where
  "propose_busy cfg env s m d =
    (let peer = UUID (s_RemoteUID s) in
     case map_of (dm_operations d) peer of
       None \<Rightarrow> False
     | Some current \<Rightarrow> op_session current \<noteq> Some (s_ident s) \<and> e_now env 1 < op_until current
         \<and> dr_ID (op_record current) \<noteq> m_OperationID m \<and> (\<not> op_outgoing current \<or> own_id cfg < peer))"

definition propose_full :: "durable_config \<Rightarrow> durable_env \<Rightarrow> session \<Rightarrow> Message \<Rightarrow> durableManager \<Rightarrow> bool" where
  "propose_full cfg env s m d =
    (let peer = UUID (s_RemoteUID s); count = int (length (dm_records d));
         reserved = reservationsLocked (e_reserve env) d
           - (case map_of (dm_operations d) peer of
                None \<Rightarrow> 0 | Some current \<Rightarrow> if e_now env 2 < op_until current \<and> \<not> has d peer then 1 else 0) in
     \<not> has d peer \<and> (maxDynamicLinks \<le> count
       \<or> ds_SoftLimit (ds_Durable (dc_desired cfg)) \<le> count + reserved \<and> m_Flags m AND NoDurable = 0))"

definition new_operation :: "durableManager \<Rightarrow> session \<Rightarrow> durableRecord \<Rightarrow> bool \<Rightarrow> time \<Rightarrow> durableOperation" where
  "new_operation d s record saved now =
    \<lparr>op_ident = dm_allocated d, op_record = record, op_session = Some (s_ident s), op_outgoing = False, op_saved = saved,
     op_peerSaved = False, op_until = now + 30 * second\<rparr>"

definition counter_propose ::
  "durable_env \<Rightarrow> session \<Rightarrow> durableRecord \<Rightarrow> FixedEndpoint \<Rightarrow> durableManager \<Rightarrow> durable_reply" where
  "counter_propose env s record ours d =
    (case e_id env of
       Inl e \<Rightarrow> (d, [], Some e)
     | Inr ident \<Rightarrow>
       (let record = record\<lparr>dr_ID := ident, dr_Fixed := sort_key (\<lambda>ep. UUID (fe_UID ep)) (dr_Fixed record @ [ours])\<rparr> in
        (d\<lparr>dm_operations := AList.update (UUID (s_RemoteUID s)) (new_operation d s record False (e_now env 5)) (dm_operations d),
           dm_allocated := dm_allocated d + 1\<rparr>,
         [(message_of DurablePropose)\<lparr>m_OperationID := ident, m_FixedEndpoints := dr_Fixed record\<rparr>], e_send env 0)))"

definition accept_propose ::
  "durable_config \<Rightarrow> durable_env \<Rightarrow> LinkPlan \<Rightarrow> session \<Rightarrow> durableRecord \<Rightarrow> durableManager \<Rightarrow> durable_reply" where
  "accept_propose cfg env plan s record d =
    (case saveLocked cfg (e_io env 0) record d of
       (d, Some e) \<Rightarrow> (d, [], Some e)
     | (d, None) \<Rightarrow>
       (let peer = UUID (s_RemoteUID s);
            d = d\<lparr>dm_operations := AList.update peer (new_operation d s record True (e_now env 5)) (dm_operations d),
              dm_allocated := dm_allocated d + 1\<rparr> in
        if \<not> healthy env 1 plan peer then (d, [], Some (ErrNew ''Link changed during durable save''))
        else (d, [(message_of DurableSaved)\<lparr>m_OperationID := dr_ID record\<rparr>], e_send env 0)))"

definition handlePropose ::
  "durable_config \<Rightarrow> durable_env \<Rightarrow> LinkPlan \<Rightarrow> session \<Rightarrow> Message \<Rightarrow> durableManager \<Rightarrow> durable_reply" where
  "handlePropose cfg env plan s m d =
    (let peer = UUID (s_RemoteUID s); known = map_of (dm_records d) peer; v = observation d plan;
         resume = (case known of None \<Rightarrow> False | Some record \<Rightarrow> dr_ID record = m_OperationID m);
         record = \<lparr>dr_ID = m_OperationID m, dr_Peer = s_RemoteUID s, dr_LastLoopback = s_RemoteLoopbackV6 s,
           dr_PublicKey = PeerPublicKey plan, dr_LocalPort = ob_port v, dr_Fixed = m_FixedEndpoints m, dr_Confirmed = False\<rparr>;
         resumed = record\<lparr>dr_Confirmed := resume \<and> dr_Confirmed (the known)\<rparr> in
     if dm_closed d \<or> e_now env 0 < (case map_of (dm_cooldown d) peer of None \<Rightarrow> 0 | Some t \<Rightarrow> t) \<or> \<not> allowsInbound (dc_desired cfg)
       \<or> propose_busy cfg env s m d \<or> propose_full cfg env s m d
       \<or> linkFailureTimeout \<le> e_now env 3 - ob_seen v
       \<or> \<not> endpoints_observed cfg env plan peer known d 0 (m_FixedEndpoints m)
       \<or> resume \<and> \<not> sameFixed (dr_Fixed (the known)) (m_FixedEndpoints m)
     then decline cfg env m d
     else
       (case eligibleLocked cfg d plan (e_now env 4) of
          Some ours \<Rightarrow>
            if \<not> resume \<and> \<not> AP_IsValid (fixedFor record (own_id cfg)) then counter_propose env s record ours d
            else accept_propose cfg env plan s resumed d
        | None \<Rightarrow> accept_propose cfg env plan s resumed d))"

text \<open>The confirmation of the other side is the second half of \<open>DurableSaved\<close>.\<close>

definition confirm_saved ::
  "durable_config \<Rightarrow> durable_env \<Rightarrow> nat \<Rightarrow> LinkPlan \<Rightarrow> session \<Rightarrow> durableOperation \<Rightarrow> Message list \<Rightarrow> durableManager \<Rightarrow> durable_reply" where
  "confirm_saved cfg env i plan s oper sent d =
    (let peer = UUID (s_RemoteUID s) in
     if \<not> healthy env 2 plan peer then (d, sent, Some (ErrNew ''Link changed during durable confirmation''))
     else
       (case saveLocked cfg (e_io env i) ((op_record oper)\<lparr>dr_Confirmed := True\<rparr>)
           (d\<lparr>dm_operations := AList.update peer (oper\<lparr>op_peerSaved := True\<rparr>) (dm_operations d)\<rparr>) of
          (d, Some e) \<Rightarrow> (d, sent, Some e)
        | (d, None) \<Rightarrow> (d\<lparr>dm_operations := AList.delete peer (dm_operations d)\<rparr>, sent, Some errDurableComplete)))"

definition handleSaved ::
  "durable_config \<Rightarrow> durable_env \<Rightarrow> LinkPlan \<Rightarrow> session \<Rightarrow> Message \<Rightarrow> durableManager \<Rightarrow> durable_reply" where
  "handleSaved cfg env plan s m d =
    (let peer = UUID (s_RemoteUID s) in
     case map_of (dm_operations d) peer of
       None \<Rightarrow> (d, [], Some (ErrNew ''stale durable confirmation''))
     | Some oper \<Rightarrow>
       if dm_closed d \<or> \<not> e_now env 0 < op_until oper \<or> dr_ID (op_record oper) \<noteq> m_OperationID m \<or> op_session oper \<noteq> Some (s_ident s)
       then (d, [], Some (ErrNew ''stale durable confirmation''))
       else if op_saved oper then confirm_saved cfg env 0 plan s oper [] d
       else
         (case saveLocked cfg (e_io env 0) (op_record oper) d of
            (d, Some e) \<Rightarrow> (d, [], Some e)
          | (d, None) \<Rightarrow>
            (let oper = oper\<lparr>op_saved := True\<rparr>; d = d\<lparr>dm_operations := AList.update peer oper (dm_operations d)\<rparr>;
                 saved = (message_of DurableSaved)\<lparr>m_OperationID := dr_ID (op_record oper)\<rparr> in
             if \<not> healthy env 1 plan peer then (d, [], Some (ErrNew ''Link changed during durable save''))
             else
               (case e_send env 0 of
                  Some e \<Rightarrow> (d, [saved], Some e)
                | None \<Rightarrow> confirm_saved cfg env 1 plan s oper [saved] d))))"

definition handleDecline ::
  "durable_env \<Rightarrow> session \<Rightarrow> Message \<Rightarrow> durableManager \<Rightarrow> durable_reply" where
  "handleDecline env s m d =
    (let peer = UUID (s_RemoteUID s) in
     (case map_of (dm_operations d) peer of
        None \<Rightarrow> d
      | Some oper \<Rightarrow>
        if op_session oper = Some (s_ident s) \<and> dr_ID (op_record oper) = m_OperationID m
        then d\<lparr>dm_operations := AList.update peer (oper\<lparr>op_until := e_now env 0 + 60 * second\<rparr>) (dm_operations d)\<rparr>
        else d, [], Some errDurableComplete))"

definition handleLink ::
  "durable_config \<Rightarrow> durable_env \<Rightarrow> LinkPlan \<Rightarrow> session \<Rightarrow> Message \<Rightarrow> durableManager \<Rightarrow> durable_reply" where
  "handleLink cfg env plan s m d =
    (case map_of (e_states env 0) (lp_InterfaceName plan) of
       None \<Rightarrow> (d, [], Some (ErrNew ''durable negotiation requires current healthy automatic Link''))
     | Some state \<Rightarrow>
       if \<not> ms_active state \<or> \<not> ms_dynamic state \<or> ms_remote state \<noteq> UUID (s_RemoteUID s) \<or> OwnerAlias (ms_desired state) \<noteq> OwnerAlias plan
       then (d, [], Some (ErrNew ''durable negotiation requires current healthy automatic Link''))
       else if m_Type m = DurablePropose then handlePropose cfg env plan s m d
       else if m_Type m = DurableSaved then handleSaved cfg env plan s m d
       else if m_Type m = DurableDecline then handleDecline env s m d
       else (d, [], Some (ErrNew ''unexpected durable Link message'')))"

section \<open>Offers\<close>

text \<open>One link of the round of \<^verbatim>\<open>tick\<close>: the operation it starts and the first message of the session it dials.\<close>

definition tick_offer ::
  "durable_config \<Rightarrow> durable_env \<Rightarrow> time \<Rightarrow> materializedState \<Rightarrow> durableManager \<Rightarrow> durableManager \<times> (nat \<times> Message) option" where
  "tick_offer cfg env now state d =
    (let peer = ms_remote state; plan = ms_desired state; v = observation d plan; known = map_of (dm_records d) peer;
         start = (\<lambda>record.
           (d\<lparr>dm_operations := AList.update peer \<lparr>op_ident = dm_allocated d, op_record = record, op_session = None, op_outgoing = True,
                 op_saved = False, op_peerSaved = False, op_until = now + 30 * second\<rparr> (dm_operations d),
              dm_allocated := dm_allocated d + 1\<rparr>,
            Some (dm_allocated d, (message_of DurablePropose)\<lparr>m_OperationID := dr_ID record, m_FixedEndpoints := dr_Fixed record,
              m_Flags := if confirmedCountLocked d = 0 then NoDurable else 0\<rparr>))) in
     if \<not> allowsInbound (dc_desired cfg) \<or> \<not> ms_dynamic state \<or> \<not> ms_active state
       \<or> (case map_of (dm_operations d) peer of None \<Rightarrow> False | Some oper \<Rightarrow> now < op_until oper)
       \<or> (case known of None \<Rightarrow> False | Some record \<Rightarrow> dr_Confirmed record)
       \<or> \<not> IsValid (ob_control v) \<or> linkFailureTimeout \<le> now - ob_seen v
     then (d, None)
     else
       (case known of
          Some record \<Rightarrow> start record
        | None \<Rightarrow>
          if \<not> active (dc_desired cfg) then (d, None)
          else
            (case eligibleLocked cfg d plan now of
               None \<Rightarrow> (d, None)
             | Some fixed \<Rightarrow>
               if ds_SoftLimit (ds_Durable (dc_desired cfg)) \<le> int (length (dm_records d)) + reservationsLocked (e_reserve env) d
               then (d, None)
               else
                 (case e_id env of
                    Inl e \<Rightarrow> (d, None)
                  | Inr ident \<Rightarrow>
                    start \<lparr>dr_ID = ident, dr_Peer = \<lparr>UUID = peer, Name = []\<rparr>,
                      dr_LastLoopback = (case ms_peers state of [] \<Rightarrow> NoAddr | a # _ \<Rightarrow> a), dr_PublicKey = PeerPublicKey plan,
                      dr_LocalPort = ob_port v, dr_Fixed = [fixed], dr_Confirmed = False\<rparr>))))"

text \<open>The session an offer opened becomes operational.\<close>

definition offer_operational :: "array16 \<Rightarrow> nat \<Rightarrow> session \<Rightarrow> durableManager \<Rightarrow> durableManager \<times> error option" where
  "offer_operational peer ident s d =
    (case map_of (dm_operations d) peer of
       None \<Rightarrow> (d, Some (ErrNew ''superseded durable operation''))
     | Some oper \<Rightarrow>
       if op_ident oper \<noteq> ident \<or> UUID (s_RemoteUID s) \<noteq> peer then (d, Some (ErrNew ''superseded durable operation''))
       else
         (d\<lparr>dm_operations := AList.update peer (oper\<lparr>op_session := Some (s_ident s),
             op_record := (op_record oper)\<lparr>dr_Peer := s_RemoteUID s, dr_LastLoopback := s_RemoteLoopbackV6 s\<rparr>\<rparr>) (dm_operations d)\<rparr>, None))"

section \<open>Checks\<close>

abbreviation durableCheckInterval :: duration where "durableCheckInterval \<equiv> 10 * second"
abbreviation durableReadyFreshness :: duration where "durableReadyFreshness \<equiv> 30 * second"
abbreviation durableFailureTimeout :: duration where "durableFailureTimeout \<equiv> 30 * minute"

definition failed :: "durableCheckState \<Rightarrow> time \<Rightarrow> bool \<Rightarrow> bool \<Rightarrow> durableCheckState \<times> bool" where
  "failed c now localReady connected =
    (if connected \<or> \<not> localReady \<or> \<not> now < ck_readyUntil c then (c\<lparr>ck_failedSince := 0\<rparr>, False)
     else
       (let c = (if ck_failedSince c = 0 then c\<lparr>ck_failedSince := now\<rparr> else c) in
        (c, durableFailureTimeout \<le> now - ck_failedSince c)))"

definition hasDirectLink :: "link_states \<Rightarrow> array16 \<Rightarrow> bool" where
  "hasDirectLink states remote = list_ex (\<lambda>(_, state). ms_active state \<and> ms_remote state = remote) states"

definition begin_check :: "time \<Rightarrow> durableRecord \<Rightarrow> durableManager \<Rightarrow> durableManager \<times> nat \<times> bool" where
  "begin_check now record d =
    (let peer = UUID (dr_Peer record);
         (d, c) = (case map_of (dm_checks d) peer of
             Some c \<Rightarrow> (d, c)
           | None \<Rightarrow> (d\<lparr>dm_checks := AList.update peer (dm_allocated d) (dm_checks d),
                dm_checkStates := (dm_checkStates d)(dm_allocated d := new_check (dr_ID record)),
                dm_allocated := dm_allocated d + 1\<rparr>, dm_allocated d));
         inspect = (ck_restoreAfter (dm_checkStates d c) \<le> now) in
     (if inspect then d\<lparr>dm_checkStates := (dm_checkStates d)(c := (dm_checkStates d c)\<lparr>ck_restoreAfter := now + 10 * second\<rparr>)\<rparr> else d,
      c, inspect))"

datatype check_result = Superseded | Retired "error option" | Waiting | Query array16

definition finish_check ::
  "durable_config \<Rightarrow> durable_env \<Rightarrow> time \<Rightarrow> durableRecord \<Rightarrow> nat \<Rightarrow> bool \<Rightarrow> bool \<Rightarrow> durableManager \<Rightarrow> durableManager \<times> check_result" where
  "finish_check cfg env now record c localReady connected d =
    (let peer = UUID (dr_Peer record) in
     if (case map_of (dm_records d) peer of None \<Rightarrow> True | Some current \<Rightarrow> dr_ID current \<noteq> dr_ID record) then (d, Superseded)
     else
       (case failed (dm_checkStates d c) now localReady connected of (state, lost) \<Rightarrow>
         let d = d\<lparr>dm_checkStates := (dm_checkStates d)(c := state)\<rparr> in
         if lost then
           (case deleteLocked cfg (e_io env 0) (e_now env 0) (e_states env 0) peer d of (d, e) \<Rightarrow> (d, Retired e))
         else if connected \<or> ck_busy state \<or> now < ck_next state then (d, Waiting)
         else
           (case e_id env of
              Inl e \<Rightarrow> (d, Waiting)
            | Inr query \<Rightarrow>
              (d\<lparr>dm_checkStates := (dm_checkStates d)
                   (c := state\<lparr>ck_query := query, ck_busy := True, ck_next := now + durableCheckInterval\<rparr>)\<rparr>, Query query))))"

definition check_done :: "nat \<Rightarrow> durableManager \<Rightarrow> durableManager" where
  "check_done c d = d\<lparr>dm_checkStates := (dm_checkStates d)(c := (dm_checkStates d c)\<lparr>ck_busy := False\<rparr>)\<rparr>"

definition check_message :: "durable_config \<Rightarrow> durableRecord \<Rightarrow> array16 \<Rightarrow> session \<Rightarrow> Message result" where
  "check_message cfg record query s =
    (if UUID (s_RemoteUID s) \<noteq> UUID (dr_Peer record) then Inl (ErrNew ''durable check peer identity mismatch'')
     else Inr ((message_of DurableCheck)\<lparr>m_OperationID := query, m_AgreementID := dr_ID record\<rparr>))"

definition acceptStatus ::
  "durable_config \<Rightarrow> durable_env \<Rightarrow> bool \<Rightarrow> durableRecord \<Rightarrow> nat \<Rightarrow> array16 \<Rightarrow> Message \<Rightarrow> time \<Rightarrow> durableManager \<Rightarrow>
    durableManager \<times> error option" where
  "acceptStatus cfg env ended record c query m now d =
    (let peer = UUID (dr_Peer record); state = dm_checkStates d c in
     if m_Type m \<noteq> DurableStatus \<or> m_OperationID m \<noteq> query \<or> m_AgreementID m \<noteq> dr_ID record then (d, None)
     else
       (case map_of (dm_records d) peer of
          None \<Rightarrow> (d, Some errDurableComplete)
        | Some current \<Rightarrow>
          if dr_ID current \<noteq> dr_ID record \<or> map_of (dm_checks d) peer \<noteq> Some c \<or> ck_query state \<noteq> query \<or> ended
          then (d, Some errDurableComplete)
          else if m_Status m = Ready then
            (d\<lparr>dm_checkStates := (dm_checkStates d)(c := state\<lparr>ck_readyUntil := now + durableReadyFreshness\<rparr>)\<rparr>, Some errDurableComplete)
          else if m_Status m = NotReady then
            (d\<lparr>dm_checkStates := (dm_checkStates d)(c := state\<lparr>ck_readyUntil := 0, ck_failedSince := 0\<rparr>)\<rparr>, Some errDurableComplete)
          else if m_Status m = Absent \<and> (dr_Confirmed current \<or> \<not> hasDirectLink (e_states env 0) peer) then
            (case deleteLocked cfg (e_io env 0) (e_now env 0) (e_states env 1) peer d of
               (d, Some e) \<Rightarrow> (d, Some e)
             | (d, None) \<Rightarrow> (d, Some errDurableComplete))
          else (d, Some errDurableComplete)))"

definition handleCheck :: "durable_config \<Rightarrow> durable_env \<Rightarrow> bool \<Rightarrow> session \<Rightarrow> Message \<Rightarrow> durableManager \<Rightarrow> durable_reply" where
  "handleCheck cfg env localReady s m d =
    (let reply = (\<lambda>status. (message_of DurableStatus)\<lparr>m_OperationID := m_OperationID m, m_AgreementID := m_AgreementID m, m_Status := status\<rparr>) in
     case map_of (dm_records d) (UUID (s_RemoteUID s)) of
       None \<Rightarrow> (d, [reply Absent], e_send env 0)
     | Some record \<Rightarrow>
       if dr_ID record \<noteq> m_AgreementID m then (d, [reply Absent], e_send env 0)
       else
         (case (if dr_Peer record \<noteq> s_RemoteUID s \<or> dr_LastLoopback record \<noteq> s_RemoteLoopbackV6 s
                then saveLocked cfg (e_io env 0) (record\<lparr>dr_Peer := s_RemoteUID s, dr_LastLoopback := s_RemoteLoopbackV6 s\<rparr>) d
                else (d, None)) of
            (d, Some e) \<Rightarrow> (d, [], Some e)
          | (d, None) \<Rightarrow> (d, [reply (if localReady then Ready else NotReady)], e_send env 0)))"

definition confirmRestore :: "durable_config \<Rightarrow> durable_env \<Rightarrow> durableRecord \<Rightarrow> int \<Rightarrow> durableManager \<Rightarrow> durableManager \<times> error option" where
  "confirmRestore cfg env record port d =
    (case map_of (dm_records d) (UUID (dr_Peer record)) of
       None \<Rightarrow> (d, Some (ErrNew ''durable restore superseded''))
     | Some current \<Rightarrow>
       if dr_ID current \<noteq> dr_ID record \<or> dm_closed d then (d, Some (ErrNew ''durable restore superseded''))
       else if dr_LocalPort current = port then (d, None)
       else if AP_IsValid (fixedFor current (own_id cfg)) then (d, Some (ErrNew ''fixed durable port changed''))
       else saveLocked cfg (e_io env 0) (current\<lparr>dr_LocalPort := port\<rparr>) d)"

text \<open>The operator's deletion; the flag is whether the runtime is stopping.\<close>

definition DeleteDurable :: "durable_config \<Rightarrow> durable_env \<Rightarrow> bool \<Rightarrow> string \<Rightarrow> durableManager \<Rightarrow> durableManager \<times> error option" where
  "DeleteDurable cfg env ending raw d =
    (case tx_ParseUUID (dc_texts cfg) raw of
       None \<Rightarrow> (d, Some (ErrNew ''peer must be a nonzero UUID''))
     | Some peer \<Rightarrow>
       if peer = 0 then (d, Some (ErrNew ''peer must be a nonzero UUID''))
       else if dm_closed d \<or> ending then (d, Some (ErrNew ''runtime stopping''))
       else deleteLocked cfg (e_io env 0) (e_now env 0) (e_states env 0) peer d)"

section \<open>What the manager keeps\<close>

definition loopback_ok :: "addr \<Rightarrow> bool" where
  "loopback_ok a \<longleftrightarrow> (a = NoAddr \<or> Is6 a \<and> \<not> IsUnspecified a) \<and> \<not> hasZone a"

definition agreement_ok :: "durable_config \<Rightarrow> array16 \<Rightarrow> durableRecord \<Rightarrow> bool" where
  "agreement_ok cfg peer r \<longleftrightarrow> UUID (dr_Peer r) = peer \<and> record_ok (own_id cfg) r \<and> dr_PublicKey r \<noteq> dc_publicKey cfg"

definition observation_ok :: "durableObservation \<Rightarrow> bool" where
  "observation_ok v \<longleftrightarrow> endpoint_canon (ob_local v) \<and> 1 \<le> ob_port v \<and> ob_port v \<le> 65535"

definition disk_ok :: "durable_config \<Rightarrow> bytes option \<Rightarrow> bool" where
  "disk_ok cfg content \<longleftrightarrow> content = None \<or> (\<exists>t raw. content = Some raw \<and> durable_table_ok (durableOwner_of cfg) t
    \<and> js_Encode (dc_texts cfg) (durable_file (dc_texts cfg) (durableOwner_of cfg) t) = Inr raw)"

definition manager_ok :: "durable_config \<Rightarrow> durableManager \<Rightarrow> bool" where
  "manager_ok cfg d \<longleftrightarrow> disk_ok cfg (dm_file d) \<and> durable_table_ok (durableOwner_of cfg) (dm_records d)
    \<and> (\<forall>(peer, oper) \<in> set (dm_operations d). agreement_ok cfg peer (op_record oper))
    \<and> (\<forall>(_, v) \<in> set (dm_observations d). observation_ok v)"

text \<open>What the session layer, the link plan and the random source give.\<close>

definition remote_ok :: "durable_config \<Rightarrow> session \<Rightarrow> bool" where
  "remote_ok cfg s \<longleftrightarrow> uid_canon (s_RemoteUID s) \<and> UUID (s_RemoteUID s) \<noteq> own_id cfg \<and> loopback_ok (s_RemoteLoopbackV6 s)"

definition plan_ok :: "durable_config \<Rightarrow> LinkPlan \<Rightarrow> bool" where
  "plan_ok cfg plan \<longleftrightarrow> PeerPublicKey plan \<noteq> 0 \<and> PeerPublicKey plan \<noteq> dc_publicKey cfg"

definition env_ok :: "durable_env \<Rightarrow> bool" where
  "env_ok env \<longleftrightarrow> linkFailureTimeout \<le> e_now env 3 \<and> e_id env \<noteq> Inr 0"

lemma set_update_subset: "set (AList.update k v al) \<subseteq> insert (k, v) (set al)"
  by (induction al) auto

lemma set_delete_subset: "set (AList.delete k al) \<subseteq> set al"
  by (auto simp: AList.delete_eq)

lemma update_all: "(\<forall>(k, v) \<in> set al. P k v) \<Longrightarrow> P k v \<Longrightarrow> \<forall>(k, v) \<in> set (AList.update k v al). P k v"
  using set_update_subset[of k v al] by blast

lemma delete_all: "(\<forall>(k, v) \<in> set al. P k v) \<Longrightarrow> \<forall>(k, v) \<in> set (AList.delete k al). P k v"
  using set_delete_subset[of k al] by blast

lemma agreement_table:
  "durable_table_ok (durableOwner_of cfg) t \<longleftrightarrow> own_id cfg \<noteq> 0 \<and> dc_publicKey cfg \<noteq> 0 \<and> distinct (map fst t)
    \<and> (\<forall>(peer, r) \<in> set t. agreement_ok cfg peer r)"
  by (auto simp: durable_table_ok_def durableOwner_of_def agreement_ok_def)

lemma fixedFor_cases:
  obtains "fixedFor r u = NoAddrPort" "\<forall>e \<in> set (dr_Fixed r). UUID (fe_UID e) \<noteq> u"
  | e where "e \<in> set (dr_Fixed r)" "UUID (fe_UID e) = u" "fixedFor r u = fe_Endpoint e"
proof (cases "find (\<lambda>ep. UUID (fe_UID ep) = u) (dr_Fixed r)")
  case None
  with that(1) show ?thesis by (auto simp: fixedFor_def find_None_iff)
next
  case (Some e)
  then have "e \<in> set (dr_Fixed r)" "UUID (fe_UID e) = u" by (auto simp: find_Some_iff)
  with that(2)[of e] Some show ?thesis by (simp add: fixedFor_def)
qed

lemma fixedFor_ok:
  assumes "list_all fixed_canon (dr_Fixed r)" "dr_Fixed r \<noteq> []" "\<forall>e \<in> set (dr_Fixed r). UUID (fe_UID e) \<in> {local, peer}"
    and "\<forall>e \<in> set (dr_Fixed r). UUID (fe_UID e) = local \<longrightarrow> uint (ap_Port (fe_Endpoint e)) = dr_LocalPort r"
  shows "endpoint_ok (fixedFor r u)" "AP_IsValid (fixedFor r local) \<or> AP_IsValid (fixedFor r peer)"
    "AP_IsValid (fixedFor r local) \<longrightarrow> uint (ap_Port (fixedFor r local)) = dr_LocalPort r"
proof -
  have canon: "endpoint_canon (fe_Endpoint e)" if "e \<in> set (dr_Fixed r)" for e
    using assms(1) that by (auto simp: list_all_iff fixed_canon_def)
  have valid: "AP_IsValid (fixedFor r u)" if "e \<in> set (dr_Fixed r)" "UUID (fe_UID e) = u" for e u
    using that by (cases rule: fixedFor_cases[of r u]) (auto intro: endpoint_canon_valid canon)
  show "endpoint_ok (fixedFor r u)"
    by (cases rule: fixedFor_cases[of r u]) (auto simp: endpoint_ok_def canon)
  from assms(2) obtain e where "e \<in> set (dr_Fixed r)" by (cases "dr_Fixed r") auto
  with valid assms(3) show "AP_IsValid (fixedFor r local) \<or> AP_IsValid (fixedFor r peer)" by blast
  show "AP_IsValid (fixedFor r local) \<longrightarrow> uint (ap_Port (fixedFor r local)) = dr_LocalPort r"
    using assms(4) by (cases rule: fixedFor_cases[of r "local"]) auto
qed

lemma record_ok_metadata:
  "record_ok local r \<Longrightarrow> uid_canon u \<Longrightarrow> UUID u = UUID (dr_Peer r) \<Longrightarrow> loopback_ok a \<Longrightarrow>
    record_ok local (r\<lparr>dr_Peer := u, dr_LastLoopback := a\<rparr>)"
  by (simp add: record_ok_def loopback_ok_def fixedFor_def)

lemma record_ok_confirmed [simp]: "record_ok local (r\<lparr>dr_Confirmed := c\<rparr>) = record_ok local r"
  by (simp add: record_ok_def fixedFor_def)

lemma record_ok_port:
  "record_ok local r \<Longrightarrow> 1 \<le> p \<Longrightarrow> p \<le> 65535 \<Longrightarrow> \<not> AP_IsValid (fixedFor r local) \<Longrightarrow> record_ok local (r\<lparr>dr_LocalPort := p\<rparr>)"
  by (simp add: record_ok_def fixedFor_def)

lemma agreement_ok_metadata:
  "agreement_ok cfg peer r \<Longrightarrow> remote_ok cfg s \<Longrightarrow> UUID (s_RemoteUID s) = peer \<Longrightarrow>
    agreement_ok cfg peer (r\<lparr>dr_Peer := s_RemoteUID s, dr_LastLoopback := s_RemoteLoopbackV6 s\<rparr>)"
  by (auto simp: agreement_ok_def remote_ok_def intro: record_ok_metadata)

lemma agreement_ok_confirmed [simp]: "agreement_ok cfg peer (r\<lparr>dr_Confirmed := c\<rparr>) = agreement_ok cfg peer r"
  by (simp add: agreement_ok_def)

lemma fixed_agreement_ok:
  assumes "list_all fixed_canon (dr_Fixed r)" "dr_Fixed r \<noteq> []" "\<forall>e \<in> set (dr_Fixed r). UUID (fe_UID e) \<in> {own_id cfg, UUID (dr_Peer r)}"
    and "\<forall>e \<in> set (dr_Fixed r). UUID (fe_UID e) = own_id cfg \<longrightarrow> uint (ap_Port (fe_Endpoint e)) = dr_LocalPort r"
    and "dr_ID r \<noteq> 0" "uid_canon (dr_Peer r)" "UUID (dr_Peer r) \<noteq> own_id cfg" "loopback_ok (dr_LastLoopback r)"
    and "dr_PublicKey r \<noteq> 0" "dr_PublicKey r \<noteq> dc_publicKey cfg" "1 \<le> dr_LocalPort r" "dr_LocalPort r \<le> 65535"
  shows "agreement_ok cfg (UUID (dr_Peer r)) r"
  using assms(1,3,5-12) fixedFor_ok[OF assms(1-4)]
  by (simp add: agreement_ok_def record_ok_def loopback_ok_def list_all_iff fixed_canon_def)

abbreviation save_file :: "durable_config \<Rightarrow> durable_table \<Rightarrow> store_io \<Rightarrow> durableManager \<Rightarrow> bytes option \<times> error option" where
  "save_file cfg t io d \<equiv> saveDurableWithIO (dc_texts cfg) (durableOwner_of cfg) t io (dm_file d)"

lemma saveLocked_cases:
  obtains (failed) e content where "saveLocked cfg io r d = (d\<lparr>dm_file := content\<rparr>, Some e)"
    "save_file cfg (AList.update (UUID (dr_Peer r)) r (dm_records d)) io d = (content, Some e)"
  | (saved) content checks where "saveLocked cfg io r d
      = (d\<lparr>dm_file := content, dm_records := AList.update (UUID (dr_Peer r)) r (dm_records d), dm_checks := checks\<rparr>, None)"
    "save_file cfg (AList.update (UUID (dr_Peer r)) r (dm_records d)) io d = (content, None)"
proof -
  obtain content e where s: "save_file cfg (AList.update (UUID (dr_Peer r)) r (dm_records d)) io d = (content, e)" by fastforce
  show ?thesis
  proof (cases e)
    case None
    show ?thesis by (rule saved[OF _ s[unfolded None]]) (use s None in \<open>simp add: saveLocked_def Let_def\<close>)
  next
    case (Some x)
    show ?thesis by (rule failed[OF _ s[unfolded Some]]) (use s Some in \<open>simp add: saveLocked_def Let_def\<close>)
  qed
qed

lemma deleteLocked_cases:
  obtains (absent) "deleteLocked cfg io now states remote d = (d, None)"
  | (failed) e content where "deleteLocked cfg io now states remote d = (d\<lparr>dm_file := content\<rparr>, Some e)"
    "save_file cfg (AList.delete remote (dm_records d)) io d = (content, Some e)"
  | (deleted) content cooldown checks obs where "deleteLocked cfg io now states remote d
      = (d\<lparr>dm_file := content, dm_records := AList.delete remote (dm_records d), dm_cooldown := cooldown,
           dm_operations := AList.delete remote (dm_operations d), dm_checks := checks, dm_observations := obs\<rparr>, None)"
    "save_file cfg (AList.delete remote (dm_records d)) io d = (content, None)" "set obs \<subseteq> set (dm_observations d)"
proof (cases "map_of (dm_records d) remote = None")
  case True
  then show ?thesis using absent by (simp add: deleteLocked_def)
next
  case False
  obtain content e where s: "save_file cfg (AList.delete remote (dm_records d)) io d = (content, e)" by fastforce
  show ?thesis
  proof (cases e)
    case None
    show ?thesis by (rule deleted[OF _ s[unfolded None]]) (use False s None in \<open>auto simp: deleteLocked_def Let_def\<close>)
  next
    case (Some x)
    show ?thesis by (rule failed[OF _ s[unfolded Some]]) (use False s Some in \<open>auto simp: deleteLocked_def Let_def\<close>)
  qed
qed

lemma save_disk_ok:
  assumes "durable_table_ok (durableOwner_of cfg) t" "disk_ok cfg (dm_file d)" "save_file cfg t io d = (content, e)"
  shows "disk_ok cfg content"
  using assms by (auto simp: saveDurableWithIO_def disk_ok_def split: sum.splits option.splits)

lemma saveLocked_table:
  assumes "manager_ok cfg d" "agreement_ok cfg (UUID (dr_Peer r)) r"
  shows "durable_table_ok (durableOwner_of cfg) (AList.update (UUID (dr_Peer r)) r (dm_records d))"
proof -
  have "distinct (map fst (AList.update (UUID (dr_Peer r)) r (dm_records d)))"
    using assms(1) by (intro distinct_update) (simp add: manager_ok_def agreement_table)
  moreover have "\<forall>(peer, r) \<in> set (AList.update (UUID (dr_Peer r)) r (dm_records d)). agreement_ok cfg peer r"
    using assms by (intro update_all) (auto simp: manager_ok_def agreement_table)
  ultimately show ?thesis using assms(1) by (simp add: manager_ok_def agreement_table)
qed

lemma saveLocked_ok:
  assumes "manager_ok cfg d" "agreement_ok cfg (UUID (dr_Peer r)) r" "saveLocked cfg io r d = (d', e)"
  shows "manager_ok cfg d'"
proof -
  note t = saveLocked_table[OF assms(1,2)]
  have disk: "disk_ok cfg (dm_file d)" using assms(1) by (simp add: manager_ok_def)
  show ?thesis
    using t save_disk_ok[OF t disk] assms(1,3)
    by (cases rule: saveLocked_cases[of cfg io r d]) (auto simp: manager_ok_def)
qed

lemma deleteLocked_table:
  assumes "manager_ok cfg d"
  shows "durable_table_ok (durableOwner_of cfg) (AList.delete remote (dm_records d))"
proof -
  have "distinct (map fst (AList.delete remote (dm_records d)))"
    using assms by (intro distinct_delete) (simp add: manager_ok_def agreement_table)
  moreover have "\<forall>(peer, r) \<in> set (AList.delete remote (dm_records d)). agreement_ok cfg peer r"
    using assms by (intro delete_all) (auto simp: manager_ok_def agreement_table)
  ultimately show ?thesis using assms by (simp add: manager_ok_def agreement_table)
qed

lemma deleteLocked_ok:
  assumes "manager_ok cfg d" "deleteLocked cfg io now states remote d = (d', e)"
  shows "manager_ok cfg d'"
proof -
  note t = deleteLocked_table[OF assms(1), of remote]
  have disk: "disk_ok cfg (dm_file d)" using assms(1) by (simp add: manager_ok_def)
  have "\<forall>(peer, oper) \<in> set (AList.delete remote (dm_operations d)). agreement_ok cfg peer (op_record oper)"
    using assms(1) by (intro delete_all) (auto simp: manager_ok_def)
  with t save_disk_ok[OF t disk] assms show ?thesis
    by (cases rule: deleteLocked_cases[of cfg io now states remote d]) (auto simp: manager_ok_def)
qed

section \<open>The negotiation keeps it\<close>

lemma propose_canon:
  assumes "message_canon m" "m_Type m = DurablePropose"
  shows "m_OperationID m \<noteq> 0" "list_all fixed_canon (m_FixedEndpoints m)" "m_FixedEndpoints m \<noteq> []"
    "sorted_wrt fixed_less (m_FixedEndpoints m)" "length (m_FixedEndpoints m) \<le> 2"
proof -
  have "durable_canon m"
    using assms by (simp add: message_canon_def IsDurable_def word_le_nat_alt Let_def)
  then show "m_OperationID m \<noteq> 0" "list_all fixed_canon (m_FixedEndpoints m)" "m_FixedEndpoints m \<noteq> []"
    "sorted_wrt fixed_less (m_FixedEndpoints m)" "length (m_FixedEndpoints m) \<le> 2"
    using assms(2) by (auto simp: durable_canon_def Let_def)
qed

definition proposed_record :: "LinkPlan \<Rightarrow> session \<Rightarrow> Message \<Rightarrow> durableManager \<Rightarrow> durableRecord" where
  "proposed_record plan s m d =
    \<lparr>dr_ID = m_OperationID m, dr_Peer = s_RemoteUID s, dr_LastLoopback = s_RemoteLoopbackV6 s,
     dr_PublicKey = PeerPublicKey plan, dr_LocalPort = ob_port (observation d plan), dr_Fixed = m_FixedEndpoints m, dr_Confirmed = False\<rparr>"

definition resumes :: "session \<Rightarrow> Message \<Rightarrow> durableManager \<Rightarrow> bool" where
  "resumes s m d = (case map_of (dm_records d) (UUID (s_RemoteUID s)) of None \<Rightarrow> False | Some record \<Rightarrow> dr_ID record = m_OperationID m)"

lemma handlePropose_cases:
  obtains (decline) "handlePropose cfg env plan s m d = decline cfg env m d"
  | (counter) ours where "handlePropose cfg env plan s m d = counter_propose env s (proposed_record plan s m d) ours d"
      "eligibleLocked cfg d plan (e_now env 4) = Some ours" "\<not> AP_IsValid (fixedFor (proposed_record plan s m d) (own_id cfg))"
      "endpoints_observed cfg env plan (UUID (s_RemoteUID s)) (map_of (dm_records d) (UUID (s_RemoteUID s))) d 0 (m_FixedEndpoints m)"
      "e_now env 3 - ob_seen (observation d plan) < linkFailureTimeout" "\<not> propose_full cfg env s m d"
  | (accept) confirmed where
      "handlePropose cfg env plan s m d = accept_propose cfg env plan s ((proposed_record plan s m d)\<lparr>dr_Confirmed := confirmed\<rparr>) d"
      "confirmed \<Longrightarrow> \<exists>old. map_of (dm_records d) (UUID (s_RemoteUID s)) = Some old \<and> dr_ID old = m_OperationID m \<and> dr_Confirmed old
        \<and> sameFixed (dr_Fixed old) (m_FixedEndpoints m)"
      "endpoints_observed cfg env plan (UUID (s_RemoteUID s)) (map_of (dm_records d) (UUID (s_RemoteUID s))) d 0 (m_FixedEndpoints m)"
      "e_now env 3 - ob_seen (observation d plan) < linkFailureTimeout" "\<not> propose_full cfg env s m d"
proof -
  let ?known = "map_of (dm_records d) (UUID (s_RemoteUID s))"
  define refuse where "refuse \<longleftrightarrow> dm_closed d \<or> e_now env 0 < (case map_of (dm_cooldown d) (UUID (s_RemoteUID s)) of None \<Rightarrow> 0 | Some t \<Rightarrow> t)
    \<or> \<not> allowsInbound (dc_desired cfg) \<or> propose_busy cfg env s m d \<or> propose_full cfg env s m d
    \<or> linkFailureTimeout \<le> e_now env 3 - ob_seen (observation d plan)
    \<or> \<not> endpoints_observed cfg env plan (UUID (s_RemoteUID s)) ?known d 0 (m_FixedEndpoints m)
    \<or> resumes s m d \<and> \<not> sameFixed (dr_Fixed (the ?known)) (m_FixedEndpoints m)"
  let ?resumed = "(proposed_record plan s m d)\<lparr>dr_Confirmed := resumes s m d \<and> dr_Confirmed (the ?known)\<rparr>"
  have eq: "handlePropose cfg env plan s m d =
      (if refuse then decline cfg env m d
       else case eligibleLocked cfg d plan (e_now env 4) of
          Some ours \<Rightarrow> if \<not> resumes s m d \<and> \<not> AP_IsValid (fixedFor (proposed_record plan s m d) (own_id cfg))
            then counter_propose env s (proposed_record plan s m d) ours d else accept_propose cfg env plan s ?resumed d
        | None \<Rightarrow> accept_propose cfg env plan s ?resumed d)"
    unfolding handlePropose_def Let_def refuse_def proposed_record_def resumes_def by simp
  show ?thesis
  proof (cases refuse)
    case True
    then show ?thesis using eq that(1) by simp
  next
    case False
    have facts: "endpoints_observed cfg env plan (UUID (s_RemoteUID s)) ?known d 0 (m_FixedEndpoints m)"
      "e_now env 3 - ob_seen (observation d plan) < linkFailureTimeout" "\<not> propose_full cfg env s m d"
      using False by (auto simp: refuse_def)
    have acc: "\<exists>old. ?known = Some old \<and> dr_ID old = m_OperationID m \<and> dr_Confirmed old \<and> sameFixed (dr_Fixed old) (m_FixedEndpoints m)"
      if "resumes s m d \<and> dr_Confirmed (the ?known)"
      using that False by (auto simp: resumes_def refuse_def split: option.splits)
    show ?thesis
    proof (cases "\<exists>ours. eligibleLocked cfg d plan (e_now env 4) = Some ours \<and> \<not> resumes s m d
        \<and> \<not> AP_IsValid (fixedFor (proposed_record plan s m d) (own_id cfg))")
      case True
      then obtain ours where ours: "eligibleLocked cfg d plan (e_now env 4) = Some ours" "\<not> resumes s m d"
        "\<not> AP_IsValid (fixedFor (proposed_record plan s m d) (own_id cfg))" by blast
      show ?thesis by (rule that(2)[OF _ ours(1,3) facts]) (use False ours eq in simp)
    next
      case no: False
      then have "handlePropose cfg env plan s m d = accept_propose cfg env plan s ?resumed d"
        using False eq by (auto split: option.splits)
      then show ?thesis by (rule that(3)[OF _ acc facts])
    qed
  qed
qed

lemma endpoints_observed_all:
  "endpoints_observed cfg env plan peer known d i fixed \<Longrightarrow> e \<in> set fixed \<Longrightarrow>
    UUID (fe_UID e) = own_id cfg \<and> fe_Endpoint e = ob_local (observation d plan) \<and> uint (ap_Port (fe_Endpoint e)) = ob_port (observation d plan)
    \<or> UUID (fe_UID e) = peer \<and> UUID (fe_UID e) \<noteq> own_id cfg \<and> fe_Endpoint e = ob_remote (observation d plan)"
  by (induction cfg env plan peer known d i fixed rule: endpoints_observed.induct) (auto simp: Let_def split: if_splits)

lemma fresh_observation:
  assumes "manager_ok cfg d" "linkFailureTimeout \<le> now" "now - ob_seen (observation d plan) < linkFailureTimeout"
  shows "observation_ok (observation d plan)"
proof (cases "map_of (dm_observations d) (lp_InterfaceName plan)")
  case (Some v)
  then have "(lp_InterfaceName plan, v) \<in> set (dm_observations d)" by (rule map_of_SomeD)
  with assms(1) Some show ?thesis by (auto simp: manager_ok_def observation_def)
qed (use assms(2,3) in \<open>simp add: observation_def\<close>)

lemma proposed_ok:
  assumes "manager_ok cfg d" "env_ok env" "remote_ok cfg s" "plan_ok cfg plan" "message_canon m" "m_Type m = DurablePropose"
    and "endpoints_observed cfg env plan (UUID (s_RemoteUID s)) known d 0 (m_FixedEndpoints m)"
    and "e_now env 3 - ob_seen (observation d plan) < linkFailureTimeout"
  shows "agreement_ok cfg (UUID (s_RemoteUID s)) (proposed_record plan s m d)"
proof -
  have "observation_ok (observation d plan)"
    using fresh_observation[OF assms(1) _ assms(8)] assms(2) by (simp add: env_ok_def)
  then have "agreement_ok cfg (UUID (dr_Peer (proposed_record plan s m d))) (proposed_record plan s m d)"
    using propose_canon[OF assms(5,6)] endpoints_observed_all[OF assms(7)] assms(3,4)
    by (intro fixed_agreement_ok) (auto simp: proposed_record_def observation_ok_def remote_ok_def plan_ok_def)
  then show ?thesis by (simp add: proposed_record_def)
qed

lemma eligible_canon:
  assumes "manager_ok cfg d" "eligibleLocked cfg d plan now = Some ours" "uid_canon \<lparr>UUID = own_id cfg, Name = dc_name cfg\<rparr>"
  shows "fixed_canon ours" "UUID (fe_UID ours) = own_id cfg" "fe_Endpoint ours = ob_local (observation d plan)"
    "uint (ap_Port (fe_Endpoint ours)) = ob_port (observation d plan)" "observation_ok (observation d plan)"
proof -
  obtain v where v: "map_of (dm_observations d) (lp_InterfaceName plan) = Some v" "uint (ap_Port (ob_local v)) = ob_port v"
    "ours = \<lparr>fe_UID = \<lparr>UUID = own_id cfg, Name = dc_name cfg\<rparr>, fe_Endpoint = ob_local v\<rparr>"
    using assms(2) by (auto simp: eligibleLocked_def split: option.splits if_splits)
  have "observation_ok v" using assms(1) map_of_SomeD[OF v(1)] by (auto simp: manager_ok_def)
  with v assms(3) show "fixed_canon ours" "UUID (fe_UID ours) = own_id cfg" "fe_Endpoint ours = ob_local (observation d plan)"
    "uint (ap_Port (fe_Endpoint ours)) = ob_port (observation d plan)" "observation_ok (observation d plan)"
    by (auto simp: fixed_canon_def observation_ok_def observation_def)
qed

lemma manager_ok_fields [simp]:
  "manager_ok cfg (d\<lparr>dm_allocated := n\<rparr>) = manager_ok cfg d"
  "manager_ok cfg (d\<lparr>dm_checks := k\<rparr>) = manager_ok cfg d" "manager_ok cfg (d\<lparr>dm_checkStates := q\<rparr>) = manager_ok cfg d"
  "manager_ok cfg (d\<lparr>dm_closed := b\<rparr>) = manager_ok cfg d"
  by (simp_all add: manager_ok_def)

lemma manager_ok_operation:
  "manager_ok cfg d \<Longrightarrow> agreement_ok cfg peer (op_record oper) \<Longrightarrow> manager_ok cfg (d\<lparr>dm_operations := AList.update peer oper (dm_operations d)\<rparr>)"
  using update_all[of "dm_operations d" "\<lambda>peer oper. agreement_ok cfg peer (op_record oper)"] by (auto simp: manager_ok_def)

lemma manager_ok_remove: "manager_ok cfg d \<Longrightarrow> manager_ok cfg (d\<lparr>dm_operations := AList.delete peer (dm_operations d)\<rparr>)"
  using delete_all[of "dm_operations d" "\<lambda>peer oper. agreement_ok cfg peer (op_record oper)"] by (auto simp: manager_ok_def)

lemma operation_ok: "manager_ok cfg d \<Longrightarrow> map_of (dm_operations d) peer = Some oper \<Longrightarrow> agreement_ok cfg peer (op_record oper)"
  by (auto simp: manager_ok_def dest: map_of_SomeD)

lemma known_ok: "manager_ok cfg d \<Longrightarrow> map_of (dm_records d) peer = Some r \<Longrightarrow> agreement_ok cfg peer r"
  by (auto simp: manager_ok_def agreement_table dest: map_of_SomeD)

lemma agreement_peer: "agreement_ok cfg peer r \<Longrightarrow> UUID (dr_Peer r) = peer"
  by (simp add: agreement_ok_def)

lemma new_operation_record [simp]: "op_record (new_operation d s r saved now) = r"
  by (simp add: new_operation_def)

lemma accept_propose_ok:
  assumes "manager_ok cfg d" "agreement_ok cfg (UUID (s_RemoteUID s)) r" "accept_propose cfg env plan s r d = (d', sent, e)"
  shows "manager_ok cfg d'"
proof -
  obtain d1 e1 where s: "saveLocked cfg (e_io env 0) r d = (d1, e1)" by fastforce
  have "manager_ok cfg d1" using saveLocked_ok[OF assms(1) _ s] assms(2) agreement_peer[OF assms(2)] by simp
  with assms(2,3) s show ?thesis
    by (auto simp: accept_propose_def Let_def manager_ok_operation split: option.splits if_splits)
qed

lemma counter_ok:
  assumes "agreement_ok cfg peer r" "list_all fixed_canon (dr_Fixed r)" "\<forall>e \<in> set (dr_Fixed r). UUID (fe_UID e) \<in> {own_id cfg, peer}"
    and "\<forall>e \<in> set (dr_Fixed r). UUID (fe_UID e) = own_id cfg \<longrightarrow> uint (ap_Port (fe_Endpoint e)) = dr_LocalPort r"
    and "fixed_canon ours" "UUID (fe_UID ours) = own_id cfg" "uint (ap_Port (fe_Endpoint ours)) = dr_LocalPort r" "ident \<noteq> 0"
  shows "agreement_ok cfg peer (r\<lparr>dr_ID := ident, dr_Fixed := sort_key (\<lambda>ep. UUID (fe_UID ep)) (dr_Fixed r @ [ours])\<rparr>)"
    (is "agreement_ok cfg peer ?r")
proof -
  have p: "peer = UUID (dr_Peer ?r)" using agreement_peer[OF assms(1)] by simp
  have fixed: "set (dr_Fixed ?r) = insert ours (set (dr_Fixed r))" by simp
  then have "dr_Fixed ?r \<noteq> []" by (metis empty_not_insert list.set(1))
  then have "agreement_ok cfg (UUID (dr_Peer ?r)) ?r"
    using assms fixed by (intro fixed_agreement_ok) (auto simp: list_all_iff agreement_ok_def record_ok_def loopback_ok_def)
  with p show ?thesis by simp
qed

lemma counter_propose_ok:
  assumes "manager_ok cfg d" "env_ok env" "remote_ok cfg s" "plan_ok cfg plan" "message_canon m" "m_Type m = DurablePropose"
    and "endpoints_observed cfg env plan (UUID (s_RemoteUID s)) known d 0 (m_FixedEndpoints m)"
    and "e_now env 3 - ob_seen (observation d plan) < linkFailureTimeout"
    and "eligibleLocked cfg d plan now = Some ours" "uid_canon \<lparr>UUID = own_id cfg, Name = dc_name cfg\<rparr>"
    and "counter_propose env s (proposed_record plan s m d) ours d = (d', sent, e)"
  shows "manager_ok cfg d'"
proof (cases "e_id env")
  case (Inr ident)
  let ?r = "proposed_record plan s m d"
  have "ident \<noteq> 0" using assms(2) Inr by (auto simp: env_ok_def)
  then have "agreement_ok cfg (UUID (s_RemoteUID s)) (?r\<lparr>dr_ID := ident, dr_Fixed := sort_key (\<lambda>ep. UUID (fe_UID ep)) (dr_Fixed ?r @ [ours])\<rparr>)"
    using eligible_canon[OF assms(1,9,10)] endpoints_observed_all[OF assms(7)] propose_canon(2)[OF assms(5,6)]
    by (intro counter_ok[OF proposed_ok[OF assms(1-8)]]) (auto simp: proposed_record_def)
  then have "manager_ok cfg (d\<lparr>dm_operations := AList.update (UUID (s_RemoteUID s)) (new_operation d s
      (?r\<lparr>dr_ID := ident, dr_Fixed := sort_key (\<lambda>ep. UUID (fe_UID ep)) (dr_Fixed ?r @ [ours])\<rparr>) False (e_now env 5)) (dm_operations d)\<rparr>)"
    by (intro manager_ok_operation assms(1)) simp
  with assms(11) Inr show ?thesis by (auto simp: counter_propose_def Let_def)
qed (use assms in \<open>simp add: counter_propose_def\<close>)

lemma confirm_saved_ok:
  assumes "manager_ok cfg d" "agreement_ok cfg (UUID (s_RemoteUID s)) (op_record oper)"
    and "confirm_saved cfg env i plan s oper sent d = (d', sent', e)"
  shows "manager_ok cfg d'"
proof -
  let ?r = "(op_record oper)\<lparr>dr_Confirmed := True\<rparr>"
  let ?d = "d\<lparr>dm_operations := AList.update (UUID (s_RemoteUID s)) (oper\<lparr>op_peerSaved := True\<rparr>) (dm_operations d)\<rparr>"
  obtain d1 e1 where s: "saveLocked cfg (e_io env i) ?r ?d = (d1, e1)" by fastforce
  have "manager_ok cfg ?d" using assms(1,2) by (simp add: manager_ok_operation)
  then have "manager_ok cfg d1"
    using saveLocked_ok[OF _ _ s] assms(2) agreement_peer[OF assms(2)] by simp
  with assms(1,3) s show ?thesis
    by (auto simp: confirm_saved_def Let_def manager_ok_remove split: option.splits if_splits)
qed

lemma handleSaved_ok:
  assumes "manager_ok cfg d" "handleSaved cfg env plan s m d = (d', sent, e)"
  shows "manager_ok cfg d'"
proof (cases "map_of (dm_operations d) (UUID (s_RemoteUID s))")
  case (Some oper)
  note ok = operation_ok[OF assms(1) Some]
  obtain d1 e1 where s: "saveLocked cfg (e_io env 0) (op_record oper) d = (d1, e1)" by fastforce
  let ?d2 = "d1\<lparr>dm_operations := AList.update (UUID (s_RemoteUID s)) (oper\<lparr>op_saved := True\<rparr>) (dm_operations d1)\<rparr>"
  have d1: "manager_ok cfg d1" using saveLocked_ok[OF assms(1) _ s] ok agreement_peer[OF ok] by simp
  then have d2: "manager_ok cfg ?d2" using ok by (simp add: manager_ok_operation)
  have c1: "manager_ok cfg d'" if "confirm_saved cfg env 0 plan s oper [] d = (d', sent, e)"
    using confirm_saved_ok[OF assms(1) ok that] .
  have c2: "manager_ok cfg d'" if "confirm_saved cfg env 1 plan s (oper\<lparr>op_saved := True\<rparr>) q ?d2 = (d', sent, e)" for q
    using confirm_saved_ok[OF d2 _ that] ok by simp
  show ?thesis
    using assms Some s d1 d2 c1 c2 unfolding handleSaved_def Let_def by (auto split: option.splits if_splits)
qed (use assms in \<open>simp add: handleSaved_def\<close>)

lemma handleLink_ok:
  assumes "manager_ok cfg d" "env_ok env" "remote_ok cfg s" "plan_ok cfg plan" "message_canon m"
    "uid_canon \<lparr>UUID = own_id cfg, Name = dc_name cfg\<rparr>" "handleLink cfg env plan s m d = (d', sent, e)"
  shows "manager_ok cfg d'"
proof -
  have p: "manager_ok cfg d'" if t: "m_Type m = DurablePropose" and h: "handlePropose cfg env plan s m d = (d', sent, e)"
  proof (cases rule: handlePropose_cases[of cfg env plan s m d])
    case decline
    with h assms(1) show ?thesis by (auto simp: decline_def Let_def)
  next
    case (counter ours)
    show ?thesis using counter_propose_ok[OF assms(1-5) t counter(4,5,2) assms(6) trans[OF counter(1)[symmetric] h]] .
  next
    case (accept confirmed)
    show ?thesis using accept_propose_ok[OF assms(1) _ trans[OF accept(1)[symmetric] h]] proposed_ok[OF assms(1-5) t accept(3,4)] by simp
  qed
  have "manager_ok cfg d'" if "handleDecline env s m d = (d', sent, e)"
    using that assms(1) operation_ok[OF assms(1)]
    by (auto simp: handleDecline_def Let_def intro!: manager_ok_operation split: option.splits if_splits)
  with p handleSaved_ok[OF assms(1)] assms(1,7) show ?thesis
    by (auto simp: handleLink_def split: option.splits if_splits)
qed

lemma observation_stored: "manager_ok cfg d \<Longrightarrow> observation_ok v \<Longrightarrow> manager_ok cfg (d\<lparr>dm_observations := AList.update name v (dm_observations d)\<rparr>)"
  using update_all[of "dm_observations d" "\<lambda>_. observation_ok"] by (auto simp: manager_ok_def)

lemma tick_offer_ok:
  assumes "manager_ok cfg d" "env_ok env" "plan_ok cfg (ms_desired state)" "uid_canon \<lparr>UUID = own_id cfg, Name = dc_name cfg\<rparr>"
    and "ms_remote state \<noteq> 0" "ms_remote state \<noteq> own_id cfg" "list_all loopback_ok (ms_peers state)"
    and "tick_offer cfg env now state d = (d', offer)"
  shows "manager_ok cfg d'"
proof -
  let ?peer = "ms_remote state" and ?plan = "ms_desired state"
  have start: "manager_ok cfg (d\<lparr>dm_operations := AList.update ?peer \<lparr>op_ident = dm_allocated d, op_record = r, op_session = None,
      op_outgoing = True, op_saved = False, op_peerSaved = False, op_until = now + 30 * second\<rparr> (dm_operations d),
      dm_allocated := dm_allocated d + 1\<rparr>)" if "agreement_ok cfg ?peer r" for r
    using manager_ok_operation[OF assms(1)] that by simp
  have new: "agreement_ok cfg ?peer \<lparr>dr_ID = ident, dr_Peer = \<lparr>UUID = ?peer, Name = []\<rparr>,
      dr_LastLoopback = (case ms_peers state of [] \<Rightarrow> NoAddr | a # _ \<Rightarrow> a), dr_PublicKey = PeerPublicKey ?plan,
      dr_LocalPort = ob_port (observation d ?plan), dr_Fixed = [ours], dr_Confirmed = False\<rparr>" (is "agreement_ok cfg ?peer ?r")
    if "e_id env = Inr ident" "eligibleLocked cfg d ?plan now = Some ours" for ident ours
  proof -
    have "loopback_ok (dr_LastLoopback ?r)" using assms(7) by (cases "ms_peers state") (auto simp: loopback_ok_def)
    then have "agreement_ok cfg (UUID (dr_Peer ?r)) ?r"
      using eligible_canon[OF assms(1) that(2) assms(4)] that(1) assms(2,3,5,6)
      by (intro fixed_agreement_ok) (auto simp: env_ok_def plan_ok_def uid_canon_def observation_ok_def)
    then show ?thesis by simp
  qed
  show ?thesis
    using assms(1,8) start new known_ok[OF assms(1)]
    by (auto simp: tick_offer_def Let_def split: if_splits option.splits sum.splits)
qed

lemma offer_operational_ok:
  assumes "manager_ok cfg d" "remote_ok cfg s" "offer_operational peer ident s d = (d', e)"
  shows "manager_ok cfg d'"
  using assms operation_ok[OF assms(1)]
  by (auto simp: offer_operational_def intro!: manager_ok_operation agreement_ok_metadata split: option.splits if_splits)

lemma refresh_ok:
  assumes "manager_ok cfg d" "uid_canon peer" "UUID peer \<noteq> own_id cfg" "loopback_ok loopback"
    and "refreshPeerMetadata cfg env peer key loopback d = (d', e)"
  shows "manager_ok cfg d'"
proof (cases "map_of (dm_records d) (UUID peer)")
  case (Some r)
  have "agreement_ok cfg (UUID (dr_Peer (r\<lparr>dr_Peer := peer, dr_LastLoopback := loopback\<rparr>))) (r\<lparr>dr_Peer := peer, dr_LastLoopback := loopback\<rparr>)"
    using known_ok[OF assms(1) Some] assms(2,4) by (auto simp: agreement_ok_def intro: record_ok_metadata)
  with saveLocked_ok[OF assms(1) this] deleteLocked_ok[OF assms(1)] assms(1,5) Some show ?thesis
    by (auto simp: refreshPeerMetadata_def split: if_splits)
qed (use assms in \<open>simp add: refreshPeerMetadata_def\<close>)

lemma observe_ok:
  assumes "manager_ok cfg d" "endpoint_canon local" "\<forall>port. listenPort = Inr port \<longrightarrow> 1 \<le> port \<and> port \<le> 65535"
    and "observeDurable cfg env ended plan local control now listenPort observed d = (d', e)"
  shows "manager_ok cfg d'"
proof -
  let ?d = "\<lambda>port remote. d\<lparr>dm_observations := AList.update (lp_InterfaceName plan)
    (update_observation local remote control port now (observation d plan)) (dm_observations d)\<rparr>"
  have "manager_ok cfg (?d port remote)" if "listenPort = Inr port" for port remote
    using assms(2,3) that by (intro observation_stored assms(1)) (simp add: observation_ok_def update_observation_def)
  note ok = this deleteLocked_ok[OF this]
  show ?thesis
    using assms(1,4) ok
    by (auto simp: observeDurable_def Let_def split: option.splits sum.splits if_splits prod.splits)
qed

lemma begin_check_ok: "manager_ok cfg d \<Longrightarrow> begin_check now record d = (d', c, inspect) \<Longrightarrow> manager_ok cfg d'"
  by (auto simp: begin_check_def Let_def split: option.splits if_splits prod.splits)

lemma finish_check_ok:
  assumes "manager_ok cfg d" "finish_check cfg env now record c localReady connected d = (d', res)"
  shows "manager_ok cfg d'"
proof -
  have "manager_ok cfg d''" if "deleteLocked cfg io t states peer (d\<lparr>dm_checkStates := q\<rparr>) = (d'', e)" for d'' io t states peer q e
    using deleteLocked_ok[OF _ that] assms(1) by simp
  with assms show ?thesis
    by (auto simp: finish_check_def Let_def split: option.splits if_splits prod.splits sum.splits)
qed

lemma acceptStatus_ok:
  assumes "manager_ok cfg d" "acceptStatus cfg env ended record c query m now d = (d', e)"
  shows "manager_ok cfg d'"
  using assms deleteLocked_ok[OF assms(1)]
  by (auto simp: acceptStatus_def Let_def split: option.splits if_splits prod.splits)

lemma handleCheck_ok:
  assumes "manager_ok cfg d" "remote_ok cfg s" "handleCheck cfg env ready s m d = (d', sent, e)"
  shows "manager_ok cfg d'"
proof (cases "map_of (dm_records d) (UUID (s_RemoteUID s))")
  case (Some r)
  have "agreement_ok cfg (UUID (s_RemoteUID s)) (r\<lparr>dr_Peer := s_RemoteUID s, dr_LastLoopback := s_RemoteLoopbackV6 s\<rparr>)"
    using agreement_ok_metadata[OF known_ok[OF assms(1) Some] assms(2)] by simp
  with saveLocked_ok[OF assms(1), of "r\<lparr>dr_Peer := s_RemoteUID s, dr_LastLoopback := s_RemoteLoopbackV6 s\<rparr>"] assms(1,3) Some
  show ?thesis by (auto simp: handleCheck_def Let_def split: if_splits prod.splits option.splits)
qed (use assms in \<open>auto simp: handleCheck_def Let_def\<close>)

lemma confirmRestore_ok:
  assumes "manager_ok cfg d" "1 \<le> port" "port \<le> 65535" "confirmRestore cfg env record port d = (d', e)"
  shows "manager_ok cfg d'"
proof (cases "map_of (dm_records d) (UUID (dr_Peer record))")
  case (Some r)
  note ok = known_ok[OF assms(1) Some]
  have "agreement_ok cfg (UUID (dr_Peer (r\<lparr>dr_LocalPort := port\<rparr>))) (r\<lparr>dr_LocalPort := port\<rparr>)" if "\<not> AP_IsValid (fixedFor r (own_id cfg))"
    using ok that assms(2,3) by (auto simp: agreement_ok_def intro: record_ok_port)
  from saveLocked_ok[OF assms(1) this] assms(1,4) Some show ?thesis
    by (auto simp: confirmRestore_def split: if_splits)
qed (use assms in \<open>simp add: confirmRestore_def\<close>)

lemma DeleteDurable_ok: "manager_ok cfg d \<Longrightarrow> DeleteDurable cfg env ending raw d = (d', e) \<Longrightarrow> manager_ok cfg d'"
  by (auto simp: DeleteDurable_def split: option.splits if_splits intro: deleteLocked_ok)

section \<open>Starting again\<close>

lemma fixedFor_stored:
  assumes "record_ok local r"
  shows "fixedFor (stored local r) u = fixedFor r u"
proof -
  have ne: "UUID (dr_Peer r) \<noteq> local" using assms by (simp add: record_ok_def)
  have norm: "\<not> AP_IsValid (fixedFor r u) \<Longrightarrow> fixedFor r u = NoAddrPort" for u
    using assms by (cases rule: fixedFor_cases[of r u]) (auto simp: record_ok_def endpoint_canon_valid)
  have "fixedFor (stored local r) u = (if AP_IsValid (fixedFor r u) then fixedFor r u else NoAddrPort)" if "u \<in> {local, UUID (dr_Peer r)}"
    using that ne by (auto simp: stored_def fixed_list_def fixedFor_def[of "dr_Fixed_update _ _"])
  moreover have "fixedFor (stored local r) u = NoAddrPort \<and> fixedFor r u = NoAddrPort" if "u \<notin> {local, UUID (dr_Peer r)}"
  proof -
    have "fixedFor r u = NoAddrPort" using assms that by (cases rule: fixedFor_cases[of r u]) (auto simp: record_ok_def)
    moreover have "fixedFor (stored local r) u = NoAddrPort"
      using that by (cases rule: fixedFor_cases[of "stored local r" u]) (auto simp: stored_def fixed_list_def split: if_splits)
    ultimately show ?thesis by simp
  qed
  ultimately show ?thesis using norm by metis
qed

lemma record_ok_stored:
  assumes "record_ok local r"
  shows "record_ok local (stored local r)"
proof -
  have "\<forall>e \<in> set (dr_Fixed (stored local r)). UUID (fe_UID e) \<in> {local, UUID (dr_Peer r)} \<and> endpoint_canon (fe_Endpoint e)"
    using assms by (auto simp: stored_def fixed_list_def record_ok_def endpoint_ok_def)
  moreover have "dr_LastLoopback (stored local r) = dr_LastLoopback r" by (simp add: stored_def)
  ultimately show ?thesis using assms by (simp add: record_ok_def fixedFor_stored[OF assms])
qed

lemma stored_table_ok: "durable_table_ok owner t \<Longrightarrow> durable_table_ok owner (stored_table owner t)"
proof -
  assume ok: "durable_table_ok owner t"
  have "map fst (stored_table owner t) = map (\<lambda>r. UUID (dr_Peer r)) (sort_key (\<lambda>r. UUID (dr_Peer r)) (map snd t))"
    by (simp add: stored_table_def)
  then have "distinct (map fst (stored_table owner t))"
    using ok by (simp only: distinct_map_sort durable_table_keys[OF ok]) (simp add: durable_table_ok_def)
  with ok show ?thesis by (auto simp: durable_table_ok_def stored_table_def record_ok_stored)
qed

lemma empty_table_ok: "own_id cfg \<noteq> 0 \<Longrightarrow> dc_publicKey cfg \<noteq> 0 \<Longrightarrow> durable_table_ok (durableOwner_of cfg) []"
  by (simp add: durable_table_ok_def durableOwner_of_def)

lemma filter_table_ok: "durable_table_ok owner t \<Longrightarrow> durable_table_ok owner (filter P t)"
  by (auto simp: durable_table_ok_def distinct_map_filter)

lemma load_disk:
  assumes "text_laws (dc_texts cfg)" "own_id cfg \<noteq> 0" "dc_publicKey cfg \<noteq> 0" "disk_ok cfg content"
  obtains t where "loadDurable (dc_texts cfg) (durableOwner_of cfg) (Inr content) = Inr t" "durable_table_ok (durableOwner_of cfg) t"
proof (cases content)
  case None
  then show ?thesis using that[of "[]"] empty_table_ok[OF assms(2,3)] by (simp add: loadDurable_def)
next
  case (Some raw)
  with assms(4) obtain t where "durable_table_ok (durableOwner_of cfg) t"
    "js_Encode (dc_texts cfg) (durable_file (dc_texts cfg) (durableOwner_of cfg) t) = Inr raw" by (auto simp: disk_ok_def)
  with load_durable_file[OF assms(1)] that Some stored_table_ok show ?thesis by metis
qed

abbreviation fresh_manager :: "bytes option \<Rightarrow> durable_table \<Rightarrow> durableManager" where
  "fresh_manager content t \<equiv> \<lparr>dm_cooldown = [], dm_closed = False, dm_file = content, dm_records = t, dm_observations = [],
    dm_operations = [], dm_checks = [], dm_checkStates = (\<lambda>_. new_check 0), dm_allocated = 0\<rparr>"

lemma openDurable_cases:
  assumes "text_laws (dc_texts cfg)" "own_id cfg \<noteq> 0" "dc_publicKey cfg \<noteq> 0" "disk_ok cfg content"
  obtains (failed) content' e where "openDurable cfg io (Inr content) = (content', Inl e)" "disk_ok cfg content'"
  | (opened) content' t loaded where "openDurable cfg io (Inr content) = (content', Inr (fresh_manager content' t))"
    "loadDurable (dc_texts cfg) (durableOwner_of cfg) (Inr content) = Inr loaded" "set t \<subseteq> set loaded"
    "durable_table_ok (durableOwner_of cfg) loaded" "durable_table_ok (durableOwner_of cfg) t"
    "t = loaded \<and> content' = content \<or> (\<exists>io. saveDurableWithIO (dc_texts cfg) (durableOwner_of cfg) t io content = (content', None))"
    "disk_ok cfg content'"
proof -
  let ?tx = "dc_texts cfg" and ?owner = "durableOwner_of cfg"
  obtain loaded where l: "loadDurable ?tx ?owner (Inr content) = Inr loaded" "durable_table_ok ?owner loaded"
    by (rule load_disk[OF assms])
  have saved: thesis
    if t: "durable_table_ok ?owner t" "set t \<subseteq> set loaded"
      and eq: "openDurable cfg io (Inr content) = (case saveDurableWithIO ?tx ?owner t i content of
        (c, Some e) \<Rightarrow> (c, Inl e) | (c, None) \<Rightarrow> (c, Inr (fresh_manager c t)))" for t i
  proof -
    obtain c e where s: "saveDurableWithIO ?tx ?owner t i content = (c, e)" by fastforce
    have disk: "disk_ok cfg c" using save_disk_ok[OF t(1), of "fresh_manager content []" i c e] assms(4) s by simp
    show thesis
    proof (cases e)
      case None
      show thesis by (rule opened[OF _ l(1) t(2) l(2) t(1) _ disk]) (use eq s None in auto)
    next
      case (Some x)
      show thesis by (rule failed[OF _ disk]) (use eq s Some in simp)
    qed
  qed
  define kept where "kept = filter (record_permitted (dc_desired cfg)) loaded"
  consider (clear) "\<not> allowsInbound (dc_desired cfg)" "loaded \<noteq> []" | (changed) "allowsInbound (dc_desired cfg) \<or> loaded = []" "kept \<noteq> loaded"
    | (same) "allowsInbound (dc_desired cfg) \<or> loaded = []" "kept = loaded" by blast
  then show thesis
  proof cases
    case clear
    show thesis by (rule saved[OF empty_table_ok[OF assms(2,3)], of "io 0"]) (use clear l in \<open>auto simp: openDurable_def Let_def split: prod.splits option.splits\<close>)
  next
    case changed
    show thesis
      by (rule saved[of kept "io 1"]) (use changed l in \<open>auto simp: openDurable_def Let_def kept_def filter_table_ok split: prod.splits option.splits\<close>)
  next
    case same
    show thesis by (rule opened[OF _ l(1) _ l(2) l(2) _ assms(4)]) (use same l in \<open>auto simp: openDurable_def Let_def kept_def\<close>)
  qed
qed

section \<open>A node over time\<close>

text \<open>
  The operations in any order, the lock held during each, and crashes and restarts.  A node that
  does not run is its file.
\<close>

datatype durable_event =
    EvLink durable_env LinkPlan session Message
  | EvOffer durable_env time materializedState
  | EvOperational array16 nat session
  | EvRefresh durable_env UID array32 addr
  | EvObserve durable_env "error option" LinkPlan addrport addr time "int result" "addrport option result"
  | EvBeginCheck time durableRecord
  | EvFinishCheck durable_env time durableRecord nat bool bool
  | EvCheckDone nat
  | EvStatus durable_env bool durableRecord nat array16 Message time
  | EvCheck durable_env bool session Message
  | EvRestore durable_env durableRecord int
  | EvDelete durable_env bool string
  | EvClose
  | EvRestart "nat \<Rightarrow> store_io"

datatype durable_node = Down "bytes option" | Up durableManager

fun durable_step :: "durable_config \<Rightarrow> durable_event \<Rightarrow> durableManager \<Rightarrow> durableManager \<times> Message list" where
  "durable_step cfg (EvLink env plan s m) d = (case handleLink cfg env plan s m d of (d, sent, _) \<Rightarrow> (d, sent))"
| "durable_step cfg (EvOffer env now state) d =
    (case tick_offer cfg env now state d of (d, None) \<Rightarrow> (d, []) | (d, Some (_, first)) \<Rightarrow> (d, [first]))"
| "durable_step cfg (EvOperational peer ident s) d = (fst (offer_operational peer ident s d), [])"
| "durable_step cfg (EvRefresh env peer key loopback) d = (fst (refreshPeerMetadata cfg env peer key loopback d), [])"
| "durable_step cfg (EvObserve env ended plan local control now port observed) d =
    (fst (observeDurable cfg env ended plan local control now port observed d), [])"
| "durable_step cfg (EvBeginCheck now record) d = (fst (begin_check now record d), [])"
| "durable_step cfg (EvFinishCheck env now record c ready connected) d = (fst (finish_check cfg env now record c ready connected d), [])"
| "durable_step cfg (EvCheckDone c) d = (check_done c d, [])"
| "durable_step cfg (EvStatus env ended record c query m now) d = (fst (acceptStatus cfg env ended record c query m now d), [])"
| "durable_step cfg (EvCheck env ready s m) d = (case handleCheck cfg env ready s m d of (d, sent, _) \<Rightarrow> (d, sent))"
| "durable_step cfg (EvRestore env record port) d = (fst (confirmRestore cfg env record port d), [])"
| "durable_step cfg (EvDelete env ending raw) d = (fst (DeleteDurable cfg env ending raw d), [])"
| "durable_step cfg EvClose d = (d\<lparr>dm_closed := True\<rparr>, [])"
| "durable_step cfg (EvRestart io) d = (d, [])"

definition start_node :: "durable_config \<Rightarrow> (nat \<Rightarrow> store_io) \<Rightarrow> bytes option \<Rightarrow> durable_node" where
  "start_node cfg io content = (case openDurable cfg io (Inr content) of (c, Inl _) \<Rightarrow> Down c | (_, Inr d) \<Rightarrow> Up d)"

fun node_file :: "durable_node \<Rightarrow> bytes option" where
  "node_file (Down content) = content"
| "node_file (Up d) = dm_file d"

definition node_step :: "durable_config \<Rightarrow> durable_event \<Rightarrow> durable_node \<Rightarrow> durable_node \<times> Message list" where
  "node_step cfg ev node =
    (case ev of
       EvRestart io \<Rightarrow> (start_node cfg io (node_file node), [])
     | _ \<Rightarrow> (case node of Down content \<Rightarrow> (Down content, []) | Up d \<Rightarrow> (case durable_step cfg ev d of (d, sent) \<Rightarrow> (Up d, sent))))"

definition node_run :: "durable_config \<Rightarrow> durable_event list \<Rightarrow> durable_node \<Rightarrow> durable_node" where
  "node_run cfg evs node = fold (\<lambda>ev node. fst (node_step cfg ev node)) evs node"

text \<open>What the other components give an operation.\<close>

fun event_ok :: "durable_config \<Rightarrow> durable_event \<Rightarrow> bool" where
  "event_ok cfg (EvLink env plan s m) \<longleftrightarrow> env_ok env \<and> remote_ok cfg s \<and> plan_ok cfg plan \<and> message_canon m"
| "event_ok cfg (EvOffer env now state) \<longleftrightarrow> env_ok env \<and> plan_ok cfg (ms_desired state) \<and> ms_remote state \<noteq> 0
    \<and> ms_remote state \<noteq> own_id cfg \<and> list_all loopback_ok (ms_peers state)"
| "event_ok cfg (EvOperational peer ident s) \<longleftrightarrow> remote_ok cfg s"
| "event_ok cfg (EvRefresh env peer key loopback) \<longleftrightarrow> uid_canon peer \<and> UUID peer \<noteq> own_id cfg \<and> loopback_ok loopback"
| "event_ok cfg (EvObserve env ended plan local control now port observed) \<longleftrightarrow>
    endpoint_canon local \<and> (case port of Inl _ \<Rightarrow> True | Inr p \<Rightarrow> 1 \<le> p \<and> p \<le> 65535)"
| "event_ok cfg (EvCheck env ready s m) \<longleftrightarrow> remote_ok cfg s"
| "event_ok cfg (EvRestore env record port) \<longleftrightarrow> 1 \<le> port \<and> port \<le> 65535"
| "event_ok cfg _ \<longleftrightarrow> True"

definition config_ok :: "durable_config \<Rightarrow> bool" where
  "config_ok cfg \<longleftrightarrow> text_laws (dc_texts cfg) \<and> dc_publicKey cfg \<noteq> 0 \<and> uid_canon \<lparr>UUID = own_id cfg, Name = dc_name cfg\<rparr>"

fun node_ok :: "durable_config \<Rightarrow> durable_node \<Rightarrow> bool" where
  "node_ok cfg (Down content) = disk_ok cfg content"
| "node_ok cfg (Up d) = manager_ok cfg d"

lemma manager_disk: "manager_ok cfg d \<Longrightarrow> disk_ok cfg (dm_file d)"
  by (simp add: manager_ok_def)

lemma node_disk: "node_ok cfg node \<Longrightarrow> disk_ok cfg (node_file node)"
  by (cases node) (simp_all add: manager_disk)

lemma config_own: "config_ok cfg \<Longrightarrow> own_id cfg \<noteq> 0"
  by (simp add: config_ok_def uid_canon_def)

lemmas config_facts = config_ok_def[THEN iffD1] config_own

lemma durable_step_ok:
  assumes "config_ok cfg" "event_ok cfg ev" "manager_ok cfg d"
  shows "manager_ok cfg (fst (durable_step cfg ev d))"
proof (cases ev)
  case (EvLink env plan s m)
  obtain d' sent e where h: "handleLink cfg env plan s m d = (d', sent, e)" by (metis prod_cases3)
  have "manager_ok cfg d'" by (rule handleLink_ok[OF assms(3) _ _ _ _ _ h]) (use assms(1,2) EvLink in \<open>auto simp: config_ok_def\<close>)
  with EvLink h show ?thesis by simp
next
  case (EvOffer env now state)
  obtain d' offer where h: "tick_offer cfg env now state d = (d', offer)" by fastforce
  have "manager_ok cfg d'" by (rule tick_offer_ok[OF assms(3) _ _ _ _ _ _ h]) (use assms(1,2) EvOffer in \<open>auto simp: config_ok_def\<close>)
  with EvOffer h show ?thesis by (cases offer) auto
next
  case (EvOperational peer ident s)
  with assms offer_operational_ok[OF assms(3)] show ?thesis by simp (metis prod.collapse)
next
  case (EvRefresh env peer key loopback)
  with assms refresh_ok[OF assms(3)] show ?thesis by simp (metis prod.collapse)
next
  case (EvObserve env ended plan addr control now port observed)
  have "\<forall>p. port = Inr p \<longrightarrow> 1 \<le> p \<and> p \<le> 65535" using assms(2) EvObserve by auto
  with assms(2) EvObserve observe_ok[OF assms(3), of addr port] show ?thesis by simp (metis prod.collapse)
next
  case (EvBeginCheck now r)
  with begin_check_ok[OF assms(3)] show ?thesis by simp (metis prod.collapse)
next
  case (EvFinishCheck env now r c ready connected)
  with finish_check_ok[OF assms(3)] show ?thesis by simp (metis prod.collapse)
next
  case (EvStatus env ended r c query m now)
  with acceptStatus_ok[OF assms(3)] show ?thesis by simp (metis prod.collapse)
next
  case (EvCheck env ready s m)
  obtain d' sent e where h: "handleCheck cfg env ready s m d = (d', sent, e)" by (metis prod_cases3)
  with assms(2) handleCheck_ok[OF assms(3)] EvCheck show ?thesis by auto
next
  case (EvRestore env r port)
  with assms(2) confirmRestore_ok[OF assms(3)] show ?thesis by simp (metis prod.collapse)
next
  case (EvDelete env ending raw)
  with DeleteDurable_ok[OF assms(3)] show ?thesis by simp (metis prod.collapse)
qed (use assms in \<open>simp_all add: check_done_def\<close>)

lemma start_node_ok:
  assumes "config_ok cfg" "disk_ok cfg content"
  shows "node_ok cfg (start_node cfg io content)"
proof -
  note c = assms(1)[THEN config_facts(1)] config_own[OF assms(1)]
  show ?thesis
    by (rule openDurable_cases[OF _ _ _ assms(2), of io]) (use c in \<open>auto simp: start_node_def manager_ok_def\<close>)
qed

lemma node_step_restart: "node_step cfg (EvRestart io) node = (start_node cfg io (node_file node), [])"
  by (simp add: node_step_def)

lemma node_step_Down: "\<forall>io. ev \<noteq> EvRestart io \<Longrightarrow> node_step cfg ev (Down content) = (Down content, [])"
  by (cases ev) (simp_all add: node_step_def)

lemma node_step_Up:
  "\<forall>io. ev \<noteq> EvRestart io \<Longrightarrow> node_step cfg ev (Up d) = (Up (fst (durable_step cfg ev d)), snd (durable_step cfg ev d))"
  by (cases ev) (simp_all add: node_step_def case_prod_beta del: durable_step.simps)

lemmas node_step_simps = node_step_restart node_step_Down node_step_Up

lemma node_step_ok:
  assumes "config_ok cfg" "event_ok cfg ev" "node_ok cfg node"
  shows "node_ok cfg (fst (node_step cfg ev node))"
proof (cases "\<exists>io. ev = EvRestart io")
  case True
  then show ?thesis using start_node_ok[OF assms(1) node_disk[OF assms(3)]] by (auto simp: node_step_simps)
next
  case False
  then show ?thesis using durable_step_ok[OF assms(1,2)] assms(3) by (cases node) (auto simp: node_step_simps)
qed

lemma node_run_ok: "config_ok cfg \<Longrightarrow> list_all (event_ok cfg) evs \<Longrightarrow> node_ok cfg node \<Longrightarrow> node_ok cfg (node_run cfg evs node)"
  by (induction evs arbitrary: node) (auto simp: node_run_def node_step_ok)


end
