(* ===== verification/Durable_Agreement.thy ===== *)
theory Durable_Agreement
  imports Durable_Manager
begin

text \<open>
  Durable agreements between nodes.  A record a node says it saved can be read from its file; a
  property that refreshing a record and reloading it keep holds of every record of a node if the
  offers and confirmations it takes part in give it (locale \<open>record_property\<close>); over any run of
  any number of nodes a confirmed agreement was saved by both sides with the same endpoints; and the
  exchange a message starts on a session ends.
\<close>

unbundle bit_operations_syntax

section \<open>A record that was saved can be read\<close>

definition file_has :: "durable_config \<Rightarrow> bytes option \<Rightarrow> array16 \<Rightarrow> array16 \<Rightarrow> (array16 \<Rightarrow> addrport) \<Rightarrow> bool" where
  "file_has cfg content peer ident endpoints \<longleftrightarrow>
    (\<exists>loaded r. loadDurable (dc_texts cfg) (durableOwner_of cfg) (Inr content) = Inr loaded
      \<and> map_of loaded peer = Some r \<and> dr_ID r = ident \<and> fixedFor r = endpoints)"

lemma save_reads:
  assumes "text_laws (dc_texts cfg)" "durable_table_ok (durableOwner_of cfg) t" "save_file cfg t io d = (content, e)"
  shows "content = dm_file d \<and> e \<noteq> None \<or> loadDurable (dc_texts cfg) (durableOwner_of cfg) (Inr content) = Inr (stored_table (durableOwner_of cfg) t)"
  using assms(3) load_durable_file[OF assms(1,2)]
  by (auto simp: saveDurableWithIO_def split: sum.splits option.splits dest: sym)

lemma table_record_ok: "durable_table_ok (durableOwner_of cfg) t \<Longrightarrow> map_of t peer = Some r \<Longrightarrow> record_ok (own_id cfg) r"
  by (auto simp: agreement_table agreement_ok_def dest!: map_of_SomeD)

lemma save_file_has:
  assumes "text_laws (dc_texts cfg)" "durable_table_ok (durableOwner_of cfg) t" "save_file cfg t io d = (content, e)"
    and "map_of t peer = Some r" "e \<noteq> None \<Longrightarrow> file_has cfg (dm_file d) peer (dr_ID r) (fixedFor r)"
  shows "file_has cfg content peer (dr_ID r) (fixedFor r)"
proof (cases "content = dm_file d \<and> e \<noteq> None")
  case False
  with save_reads[OF assms(1-3)]
  have "loadDurable (dc_texts cfg) (durableOwner_of cfg) (Inr content) = Inr (stored_table (durableOwner_of cfg) t)" by blast
  moreover have "map_of (stored_table (durableOwner_of cfg) t) peer = Some (stored (own_id cfg) r)"
    using stored_table_map[OF assms(2), of peer] assms(4) by (simp add: durableOwner_of_def)
  moreover have "fixedFor (stored (own_id cfg) r) = fixedFor r"
    using fixedFor_stored[OF table_record_ok[OF assms(2,4)]] by blast
  ultimately show ?thesis by (auto simp: file_has_def)
qed (use assms(5) in simp)

lemma saveLocked_has:
  assumes "text_laws (dc_texts cfg)" "manager_ok cfg d" "agreement_ok cfg (UUID (dr_Peer r)) r" "saveLocked cfg io r d = (d', e)"
    and "e \<noteq> None \<Longrightarrow> file_has cfg (dm_file d) (UUID (dr_Peer r)) (dr_ID r) (fixedFor r)"
  shows "file_has cfg (dm_file d') (UUID (dr_Peer r)) (dr_ID r) (fixedFor r)"
proof -
  let ?t = "AList.update (UUID (dr_Peer r)) r (dm_records d)"
  have m: "map_of ?t (UUID (dr_Peer r)) = Some r" by (simp add: update_conv')
  show ?thesis
  proof (cases rule: saveLocked_cases[of cfg io r d])
    case (failed x content)
    with save_file_has[OF assms(1) saveLocked_table[OF assms(2,3)] failed(2) m] assms(4,5) show ?thesis by auto
  next
    case (saved content checks)
    with save_file_has[OF assms(1) saveLocked_table[OF assms(2,3)] saved(2) m] assms(4) show ?thesis by auto
  qed
qed

lemma accept_saved:
  assumes "text_laws (dc_texts cfg)" "manager_ok cfg d" "agreement_ok cfg (UUID (s_RemoteUID s)) r"
    and "accept_propose cfg env plan s r d = (d', sent, e)" "msg \<in> set sent"
  shows "m_Type msg = DurableSaved \<and> m_OperationID msg = dr_ID r \<and> file_has cfg (dm_file d') (UUID (s_RemoteUID s)) (dr_ID r) (fixedFor r)"
proof -
  obtain d1 e1 where s: "saveLocked cfg (e_io env 0) r d = (d1, e1)" by fastforce
  have p: "UUID (dr_Peer r) = UUID (s_RemoteUID s)" using agreement_peer[OF assms(3)] .
  have "e1 = None" using assms(4,5) s by (auto simp: accept_propose_def Let_def split: option.splits)
  with saveLocked_has[OF assms(1,2) _ s] assms(3) p
  have "file_has cfg (dm_file d1) (UUID (s_RemoteUID s)) (dr_ID r) (fixedFor r)" by simp
  with assms(4,5) s \<open>e1 = None\<close> show ?thesis
    by (auto simp: accept_propose_def Let_def message_of_def split: if_splits)
qed

lemma confirm_sent: "confirm_saved cfg env i plan s oper sent d = (d', sent', e) \<Longrightarrow> sent' = sent"
  by (auto simp: confirm_saved_def Let_def split: if_splits option.splits prod.splits)

lemma confirm_has:
  assumes "text_laws (dc_texts cfg)" "manager_ok cfg d" "agreement_ok cfg (UUID (s_RemoteUID s)) (op_record oper)"
    and "file_has cfg (dm_file d) (UUID (s_RemoteUID s)) (dr_ID (op_record oper)) (fixedFor (op_record oper))"
    and "confirm_saved cfg env i plan s oper sent d = (d', sent', e)"
  shows "file_has cfg (dm_file d') (UUID (s_RemoteUID s)) (dr_ID (op_record oper)) (fixedFor (op_record oper))"
proof -
  let ?r = "(op_record oper)\<lparr>dr_Confirmed := True\<rparr>"
  let ?d = "d\<lparr>dm_operations := AList.update (UUID (s_RemoteUID s)) (oper\<lparr>op_peerSaved := True\<rparr>) (dm_operations d)\<rparr>"
  obtain d1 e1 where s: "saveLocked cfg (e_io env i) ?r ?d = (d1, e1)" by fastforce
  have p: "UUID (dr_Peer ?r) = UUID (s_RemoteUID s)" using agreement_peer[OF assms(3)] by simp
  have f: "fixedFor ?r = fixedFor (op_record oper)" by (simp add: fixedFor_def fun_eq_iff)
  have "manager_ok cfg ?d" using assms(2,3) by (simp add: manager_ok_operation)
  then have "file_has cfg (dm_file d1) (UUID (s_RemoteUID s)) (dr_ID (op_record oper)) (fixedFor (op_record oper))"
    using saveLocked_has[OF assms(1) _ _ s] assms(3,4) p f by simp
  with assms(4,5) s show ?thesis by (auto simp: confirm_saved_def Let_def split: if_splits option.splits)
qed

lemma handleSaved_saved:
  assumes "text_laws (dc_texts cfg)" "manager_ok cfg d" "handleSaved cfg env plan s m d = (d', sent, e)" "msg \<in> set sent"
  obtains oper where "map_of (dm_operations d) (UUID (s_RemoteUID s)) = Some oper" "m_Type msg = DurableSaved"
    "m_OperationID msg = dr_ID (op_record oper)" "\<not> op_saved oper"
    "file_has cfg (dm_file d') (UUID (s_RemoteUID s)) (dr_ID (op_record oper)) (fixedFor (op_record oper))"
proof (cases "map_of (dm_operations d) (UUID (s_RemoteUID s))")
  case (Some oper)
  note ok = operation_ok[OF assms(2) Some]
  note p = agreement_peer[OF ok]
  obtain d1 e1 where s: "saveLocked cfg (e_io env 0) (op_record oper) d = (d1, e1)" by fastforce
  let ?oper = "oper\<lparr>op_saved := True\<rparr>"
  let ?d = "d1\<lparr>dm_operations := AList.update (UUID (s_RemoteUID s)) ?oper (dm_operations d1)\<rparr>"
  have new: "\<not> op_saved oper" "e1 = None"
    using assms(3,4) Some s confirm_sent[of cfg env 0 plan s oper "[]" d]
    by (auto simp: handleSaved_def Let_def split: if_splits option.splits)
  have d1: "manager_ok cfg d1" using saveLocked_ok[OF assms(2) _ s] ok p by simp
  have has1: "file_has cfg (dm_file d1) (UUID (s_RemoteUID s)) (dr_ID (op_record oper)) (fixedFor (op_record oper))"
    using saveLocked_has[OF assms(1,2) _ s] ok p new(2) by simp
  have "manager_ok cfg ?d" using d1 ok by (simp add: manager_ok_operation)
  note conf = confirm_has[OF assms(1) this, of s ?oper, simplified, OF ok has1]
  have "m_Type msg = DurableSaved \<and> m_OperationID msg = dr_ID (op_record oper)
    \<and> file_has cfg (dm_file d') (UUID (s_RemoteUID s)) (dr_ID (op_record oper)) (fixedFor (op_record oper))"
    using assms(3,4) Some s new has1 conf
    by (auto simp: handleSaved_def Let_def message_of_def split: if_splits option.splits dest: confirm_sent)
  with that[OF Some] new(1) show thesis by blast
qed (use assms(3,4) in \<open>simp add: handleSaved_def\<close>)

section \<open>Properties of every record of a node\<close>

definition file_all :: "durable_config \<Rightarrow> (array16 \<Rightarrow> durableRecord \<Rightarrow> bool) \<Rightarrow> bytes option \<Rightarrow> bool" where
  "file_all cfg P content \<longleftrightarrow>
    (\<forall>loaded. loadDurable (dc_texts cfg) (durableOwner_of cfg) (Inr content) = Inr loaded \<longrightarrow> (\<forall>(peer, r) \<in> set loaded. P peer r))"

definition records_all :: "durable_config \<Rightarrow> (array16 \<Rightarrow> durableRecord \<Rightarrow> bool) \<Rightarrow> durableManager \<Rightarrow> bool" where
  "records_all cfg P d \<longleftrightarrow> (\<forall>(peer, r) \<in> set (dm_records d). P peer r)
    \<and> (\<forall>(peer, oper) \<in> set (dm_operations d). P peer (op_record oper)) \<and> file_all cfg P (dm_file d)"

fun node_all :: "durable_config \<Rightarrow> (array16 \<Rightarrow> durableRecord \<Rightarrow> bool) \<Rightarrow> durable_node \<Rightarrow> bool" where
  "node_all cfg P (Down content) = file_all cfg P content"
| "node_all cfg P (Up d) = records_all cfg P d"

lemma records_all_fields [simp]:
  "records_all cfg P (d\<lparr>dm_allocated := n\<rparr>) = records_all cfg P d" "records_all cfg P (d\<lparr>dm_checks := k\<rparr>) = records_all cfg P d"
  "records_all cfg P (d\<lparr>dm_checkStates := q\<rparr>) = records_all cfg P d" "records_all cfg P (d\<lparr>dm_closed := b\<rparr>) = records_all cfg P d"
  "records_all cfg P (d\<lparr>dm_observations := v\<rparr>) = records_all cfg P d"
  by (simp_all add: records_all_def)

lemma records_all_mono: "records_all cfg P d \<Longrightarrow> (\<And>peer r. P peer r \<Longrightarrow> Q peer r) \<Longrightarrow> records_all cfg Q d"
  by (fastforce simp: records_all_def file_all_def)

lemma node_all_mono: "node_all cfg P node \<Longrightarrow> (\<And>peer r. P peer r \<Longrightarrow> Q peer r) \<Longrightarrow> node_all cfg Q node"
  by (cases node) (fastforce simp: file_all_def records_all_mono)+

text \<open>
  A property that does not depend on what a session refreshes (the name and loopback of the peer,
  the local port) nor on the names a reload drops.
\<close>

locale record_property =
  fixes cfg :: durable_config and P :: "array16 \<Rightarrow> durableRecord \<Rightarrow> bool"
  assumes metadata: "P peer r \<Longrightarrow> P peer (r\<lparr>dr_Peer := u, dr_LastLoopback := a\<rparr>)"
    and port: "P peer r \<Longrightarrow> P peer (r\<lparr>dr_LocalPort := p\<rparr>)"
    and reload: "record_ok (own_id cfg) r \<Longrightarrow> P peer r \<Longrightarrow> P peer (stored (own_id cfg) r)"
begin

abbreviation all :: "durableManager \<Rightarrow> bool" where
  "all d \<equiv> config_ok cfg \<and> manager_ok cfg d \<and> records_all cfg P d"

lemma known_all: "all d \<Longrightarrow> map_of (dm_records d) peer = Some r \<Longrightarrow> P peer r"
  by (auto simp: records_all_def dest: map_of_SomeD)

lemma oper_all: "all d \<Longrightarrow> map_of (dm_operations d) peer = Some oper \<Longrightarrow> P peer (op_record oper)"
  by (auto simp: records_all_def dest: map_of_SomeD)

lemma stored_all:
  assumes "durable_table_ok (durableOwner_of cfg) t" "\<forall>(peer, r) \<in> set t. P peer r"
  shows "\<forall>(peer, r) \<in> set (stored_table (durableOwner_of cfg) t). P peer r"
proof -
  have "P (UUID (dr_Peer r)) (stored (own_id cfg) r)" if "(peer, r) \<in> set t" for peer r
  proof -
    have "peer = UUID (dr_Peer r)" "record_ok (own_id cfg) r" using assms(1) that by (auto simp: agreement_table agreement_ok_def)
    with assms(2) that reload show ?thesis by auto
  qed
  then show ?thesis by (auto simp: stored_table_def durableOwner_of_def)
qed

lemma save_all:
  assumes "durable_table_ok (durableOwner_of cfg) t" "\<forall>(peer, r) \<in> set t. P peer r" "save_file cfg t io d = (content, e)" "file_all cfg P (dm_file d)"
    and "config_ok cfg"
  shows "file_all cfg P content"
proof -
  have tx: "text_laws (dc_texts cfg)" using assms(5) by (simp add: config_ok_def)
  from save_reads[OF tx assms(1,3)] stored_all[OF assms(1,2)] assms(4) show ?thesis by (auto simp: file_all_def)
qed

lemma saveLocked_all:
  assumes "all d" "agreement_ok cfg (UUID (dr_Peer r)) r" "P (UUID (dr_Peer r)) r" "saveLocked cfg io r d = (d', e)"
  shows "all d'"
proof -
  let ?t = "AList.update (UUID (dr_Peer r)) r (dm_records d)"
  have m: "manager_ok cfg d" and f: "file_all cfg P (dm_file d)" and c: "config_ok cfg" using assms(1) by (auto simp: records_all_def)
  have t: "\<forall>(peer, r) \<in> set ?t. P peer r" using assms(1,3) by (intro update_all) (auto simp: records_all_def)
  note s = save_all[OF saveLocked_table[OF m assms(2)] t _ f c]
  have "records_all cfg P d'"
    using s t assms(1,4) by (cases rule: saveLocked_cases[of cfg io r d]) (auto simp: records_all_def)
  with saveLocked_ok[OF m assms(2,4)] c show ?thesis by simp
qed

lemma deleteLocked_all:
  assumes "all d" "deleteLocked cfg io now states remote d = (d', e)"
  shows "all d'"
proof -
  let ?t = "AList.delete remote (dm_records d)"
  have m: "manager_ok cfg d" and f: "file_all cfg P (dm_file d)" and c: "config_ok cfg" using assms(1) by (auto simp: records_all_def)
  have t: "\<forall>(peer, r) \<in> set ?t. P peer r" using assms(1) by (intro delete_all) (auto simp: records_all_def)
  have o: "\<forall>(peer, oper) \<in> set (AList.delete remote (dm_operations d)). P peer (op_record oper)"
    using assms(1) by (intro delete_all) (auto simp: records_all_def)
  note s = save_all[OF deleteLocked_table[OF m] t _ f c]
  have "records_all cfg P d'"
    using s t o assms by (cases rule: deleteLocked_cases[of cfg io now states remote d]) (auto simp: records_all_def)
  with deleteLocked_ok[OF m assms(2)] c show ?thesis by simp
qed

lemma operation_all:
  assumes "all d" "agreement_ok cfg peer (op_record oper)" "P peer (op_record oper)"
  shows "all (d\<lparr>dm_operations := AList.update peer oper (dm_operations d)\<rparr>)"
  using manager_ok_operation[OF _ assms(2)] assms(1,3) update_all[of "dm_operations d" "\<lambda>peer oper. P peer (op_record oper)" peer oper]
  by (auto simp: records_all_def)

lemma remove_all: "all d \<Longrightarrow> all (d\<lparr>dm_operations := AList.delete peer (dm_operations d)\<rparr>)"
  using manager_ok_remove delete_all[of "dm_operations d" "\<lambda>peer oper. P peer (op_record oper)" peer] by (auto simp: records_all_def)

end

context record_property
begin

lemma accept_all:
  assumes "all d" "agreement_ok cfg (UUID (s_RemoteUID s)) r" "P (UUID (s_RemoteUID s)) r" "accept_propose cfg env plan s r d = (d', sent, e)"
  shows "all d'"
proof -
  obtain d1 e1 where s: "saveLocked cfg (e_io env 0) r d = (d1, e1)" by fastforce
  have "all d1" using saveLocked_all[OF assms(1) _ _ s] assms(2,3) agreement_peer[OF assms(2)] by simp
  with assms(2-4) s operation_all[of d1 "UUID (s_RemoteUID s)" "new_operation d1 s r True (e_now env 5)"] show ?thesis
    by (auto simp: accept_propose_def Let_def split: option.splits if_splits)
qed

lemma confirm_all:
  assumes "all d" "agreement_ok cfg (UUID (s_RemoteUID s)) (op_record oper)" "P (UUID (s_RemoteUID s)) (op_record oper)"
    and "P (UUID (s_RemoteUID s)) ((op_record oper)\<lparr>dr_Confirmed := True\<rparr>)"
    and "confirm_saved cfg env i plan s oper sent d = (d', sent', e)"
  shows "all d'"
proof -
  let ?r = "(op_record oper)\<lparr>dr_Confirmed := True\<rparr>"
  let ?d = "d\<lparr>dm_operations := AList.update (UUID (s_RemoteUID s)) (oper\<lparr>op_peerSaved := True\<rparr>) (dm_operations d)\<rparr>"
  obtain d1 e1 where s: "saveLocked cfg (e_io env i) ?r ?d = (d1, e1)" by fastforce
  have "all ?d" using operation_all[OF assms(1), of "UUID (s_RemoteUID s)" "oper\<lparr>op_peerSaved := True\<rparr>"] assms(2,3) by simp
  then have "all d1" using saveLocked_all[OF _ _ _ s] assms(2,4) agreement_peer[OF assms(2)] by simp
  with assms(1,5) s remove_all[of d1] show ?thesis
    by (auto simp: confirm_saved_def Let_def split: option.splits if_splits)
qed

lemma handleSaved_all:
  assumes "all d" "\<And>r. P (UUID (s_RemoteUID s)) r \<Longrightarrow> dr_ID r = m_OperationID m \<Longrightarrow> P (UUID (s_RemoteUID s)) (r\<lparr>dr_Confirmed := True\<rparr>)"
    and "handleSaved cfg env plan s m d = (d', sent, e)"
  shows "all d'"
proof (cases "map_of (dm_operations d) (UUID (s_RemoteUID s))")
  case (Some oper)
  have ok: "agreement_ok cfg (UUID (s_RemoteUID s)) (op_record oper)" using operation_ok assms(1) Some by blast
  have P: "P (UUID (s_RemoteUID s)) (op_record oper)" using oper_all assms(1) Some by blast
  have C: "dr_ID (op_record oper) = m_OperationID m \<Longrightarrow> P (UUID (s_RemoteUID s)) ((op_record oper)\<lparr>dr_Confirmed := True\<rparr>)"
    using assms(2)[OF P] .
  obtain d1 e1 where s: "saveLocked cfg (e_io env 0) (op_record oper) d = (d1, e1)" by fastforce
  let ?oper = "oper\<lparr>op_saved := True\<rparr>"
  let ?d2 = "d1\<lparr>dm_operations := AList.update (UUID (s_RemoteUID s)) ?oper (dm_operations d1)\<rparr>"
  have d1: "all d1" using saveLocked_all[OF assms(1) _ _ s] ok P agreement_peer[OF ok] by simp
  have d2: "all ?d2" using operation_all[OF d1, of "UUID (s_RemoteUID s)" ?oper] ok P by simp
  have c1: "all d'" if "confirm_saved cfg env 0 plan s oper [] d = (d', sent, e)" "dr_ID (op_record oper) = m_OperationID m"
    using confirm_all[OF assms(1) ok P C that(1)] that(2) by simp
  have c2: "all d'" if "confirm_saved cfg env (Suc 0) plan s ?oper q ?d2 = (d', sent, e)" "dr_ID (op_record oper) = m_OperationID m" for q
    using confirm_all[OF d2 _ _ _ that(1)] ok P C that(2) by simp
  show ?thesis
    using assms(1,3) Some s d1 d2 c1 c2 unfolding handleSaved_def Let_def by (auto split: option.splits if_splits)
qed (use assms in \<open>simp add: handleSaved_def\<close>)

lemma handlePropose_all:
  assumes "all d" "env_ok env" "remote_ok cfg s" "plan_ok cfg plan" "message_canon m" "m_Type m = DurablePropose"
    and accept: "\<And>confirmed. (confirmed \<Longrightarrow> \<exists>old. P (UUID (s_RemoteUID s)) old \<and> dr_ID old = m_OperationID m \<and> dr_Confirmed old)
      \<Longrightarrow> P (UUID (s_RemoteUID s)) ((proposed_record plan s m d)\<lparr>dr_Confirmed := confirmed\<rparr>)"
    and counter: "\<And>ident ours r. e_id env = Inr ident \<Longrightarrow> handlePropose cfg env plan s m d = counter_propose env s r ours d
      \<Longrightarrow> r = proposed_record plan s m d \<Longrightarrow>
      P (UUID (s_RemoteUID s)) (r\<lparr>dr_ID := ident, dr_Fixed := sort_key (\<lambda>ep. UUID (fe_UID ep)) (dr_Fixed r @ [ours])\<rparr>)"
    and "handlePropose cfg env plan s m d = (d', sent, e)"
  shows "all d'"
proof -
  have m: "manager_ok cfg d" using assms(1) by simp
  have self: "uid_canon \<lparr>UUID = own_id cfg, Name = dc_name cfg\<rparr>" using assms(1) by (simp add: config_ok_def)
  show ?thesis
  proof (cases rule: handlePropose_cases[of cfg env plan s m d])
    case decline
    with assms(1,9) show ?thesis by (auto simp: decline_def Let_def)
  next
    case (counter ours)
    let ?r = "proposed_record plan s m d"
    note h = trans[OF counter(1)[symmetric] assms(9)]
    have "manager_ok cfg d'" by (rule counter_propose_ok[OF m assms(2-6) counter(4,5,2) self h])
    moreover have "records_all cfg P d'"
    proof (cases "e_id env")
      case (Inr ident)
      let ?c = "?r\<lparr>dr_ID := ident, dr_Fixed := sort_key (\<lambda>ep. UUID (fe_UID ep)) (dr_Fixed ?r @ [ours])\<rparr>"
      have "P (UUID (s_RemoteUID s)) ?c" using assms(8)[OF Inr counter(1)] by simp
      then have "\<forall>(peer, oper) \<in> set (AList.update (UUID (s_RemoteUID s)) (new_operation d s ?c False (e_now env 5)) (dm_operations d)). P peer (op_record oper)"
        using assms(1) by (intro update_all) (auto simp: records_all_def)
      with Inr h assms(1) show ?thesis by (auto simp: counter_propose_def Let_def records_all_def)
    qed (use h assms(1) in \<open>simp add: counter_propose_def\<close>)
    ultimately show ?thesis using assms(1) by simp
  next
    case (accept confirmed)
    have "P (UUID (s_RemoteUID s)) ((proposed_record plan s m d)\<lparr>dr_Confirmed := confirmed\<rparr>)"
      using accept(2) known_all[OF assms(1)] by (intro assms(7)) blast
    with accept_all[OF assms(1) _ _ trans[OF accept(1)[symmetric] assms(9)]] proposed_ok[OF m assms(2-6) accept(3,4)]
    show ?thesis by simp
  qed
qed

lemma handleDecline_all:
  assumes "all d" "handleDecline env s m d = (d', sent, e)"
  shows "all d'"
proof (cases "map_of (dm_operations d) (UUID (s_RemoteUID s))")
  case (Some oper)
  have "agreement_ok cfg (UUID (s_RemoteUID s)) (op_record oper)" "P (UUID (s_RemoteUID s)) (op_record oper)"
    using operation_ok oper_all assms(1) Some by blast+
  with operation_all[OF assms(1), of "UUID (s_RemoteUID s)" "oper\<lparr>op_until := _\<rparr>"] assms Some show ?thesis
    by (auto simp: handleDecline_def Let_def split: if_splits)
qed (use assms in \<open>auto simp: handleDecline_def Let_def\<close>)

lemma operational_all:
  assumes "all d" "remote_ok cfg s" "offer_operational peer ident s d = (d', e)"
  shows "all d'"
proof (cases "map_of (dm_operations d) peer")
  case (Some oper)
  let ?oper = "oper\<lparr>op_session := Some (s_ident s),
    op_record := (op_record oper)\<lparr>dr_Peer := s_RemoteUID s, dr_LastLoopback := s_RemoteLoopbackV6 s\<rparr>\<rparr>"
  have ok: "agreement_ok cfg peer (op_record oper)" "P peer (op_record oper)" using operation_ok oper_all assms(1) Some by blast+
  have "all (d\<lparr>dm_operations := AList.update peer ?oper (dm_operations d)\<rparr>)" if "UUID (s_RemoteUID s) = peer"
    using operation_all[OF assms(1), of peer ?oper] agreement_ok_metadata[OF ok(1) assms(2) that] metadata[OF ok(2)] by simp
  with assms Some show ?thesis by (auto simp: offer_operational_def split: if_splits)
qed (use assms in \<open>simp add: offer_operational_def\<close>)

end

text \<open>What a property asks of an operation that makes or confirms a record.\<close>

definition link_grants :: "(array16 \<Rightarrow> durableRecord \<Rightarrow> bool) \<Rightarrow> durable_config \<Rightarrow> durable_env \<Rightarrow> LinkPlan \<Rightarrow> session \<Rightarrow> Message \<Rightarrow> durableManager \<Rightarrow> bool" where
  "link_grants P cfg env plan s m d \<longleftrightarrow>
    (m_Type m = DurablePropose \<longrightarrow> (\<forall>confirmed. (confirmed \<longrightarrow> (\<exists>old. P (UUID (s_RemoteUID s)) old \<and> dr_ID old = m_OperationID m \<and> dr_Confirmed old))
      \<longrightarrow> P (UUID (s_RemoteUID s)) ((proposed_record plan s m d)\<lparr>dr_Confirmed := confirmed\<rparr>)))
    \<and> (m_Type m = DurablePropose \<longrightarrow> (\<forall>ident ours. e_id env = Inr ident
      \<and> handleLink cfg env plan s m d = counter_propose env s (proposed_record plan s m d) ours d \<longrightarrow>
      P (UUID (s_RemoteUID s)) ((proposed_record plan s m d)\<lparr>dr_ID := ident, dr_Fixed := sort_key (\<lambda>ep. UUID (fe_UID ep))
        (dr_Fixed (proposed_record plan s m d) @ [ours])\<rparr>)))
    \<and> (m_Type m = DurableSaved \<longrightarrow> (\<forall>r. P (UUID (s_RemoteUID s)) r \<and> dr_ID r = m_OperationID m \<longrightarrow>
      P (UUID (s_RemoteUID s)) (r\<lparr>dr_Confirmed := True\<rparr>)))"

definition offer_grants :: "(array16 \<Rightarrow> durableRecord \<Rightarrow> bool) \<Rightarrow> durable_config \<Rightarrow> durable_env \<Rightarrow> time \<Rightarrow> materializedState \<Rightarrow> durableManager \<Rightarrow> bool" where
  "offer_grants P cfg env now state d \<longleftrightarrow> (\<forall>d' n first r. tick_offer cfg env now state d = (d', Some (n, first)) \<and> e_id env = Inr (dr_ID r)
    \<and> m_OperationID first = dr_ID r \<and> m_FixedEndpoints first = dr_Fixed r \<and> m_Type first = DurablePropose \<and> \<not> dr_Confirmed r \<longrightarrow> P (ms_remote state) r)"

fun grants :: "(array16 \<Rightarrow> durableRecord \<Rightarrow> bool) \<Rightarrow> durable_config \<Rightarrow> durable_event \<Rightarrow> durableManager \<Rightarrow> bool" where
  "grants P cfg (EvLink env plan s m) d = link_grants P cfg env plan s m d"
| "grants P cfg (EvOffer env now state) d = offer_grants P cfg env now state d"
| "grants P cfg _ d = True"

context record_property
begin

lemma handleLink_all:
  assumes "all d" "env_ok env" "remote_ok cfg s" "plan_ok cfg plan" "message_canon m" "link_grants P cfg env plan s m d"
    and "handleLink cfg env plan s m d = (d', sent, e)"
  shows "all d'"
proof -
  have p: "all d'" if "m_Type m = DurablePropose" "handlePropose cfg env plan s m d = (d', sent, e)"
    by (rule handlePropose_all[OF assms(1-5) that(1) _ _ that(2)]) (use assms(6,7) that in \<open>auto simp: link_grants_def\<close>)
  have q: "all d'" if "m_Type m = DurableSaved" "handleSaved cfg env plan s m d = (d', sent, e)"
    by (rule handleSaved_all[OF assms(1) _ that(2)]) (use assms(6) that(1) in \<open>auto simp: link_grants_def\<close>)
  from p q handleDecline_all[OF assms(1)] assms(1,7) show ?thesis
    by (auto simp: handleLink_def split: option.splits if_splits)
qed

lemma offer_all:
  assumes "all d" "event_ok cfg (EvOffer env now state)" "offer_grants P cfg env now state d" "tick_offer cfg env now state d = (d', offer)"
  shows "all d'"
proof -
  have m: "manager_ok cfg d" using assms(1) by simp
  have "manager_ok cfg d'"
    by (rule tick_offer_ok[OF m _ _ _ _ _ _ assms(4)]) (use assms(1,2) in \<open>auto simp: config_ok_def\<close>)
  moreover have "records_all cfg P d'"
  proof -
    let ?peer = "ms_remote state"
    have start: "records_all cfg P (d\<lparr>dm_operations := AList.update ?peer \<lparr>op_ident = dm_allocated d, op_record = r, op_session = None,
        op_outgoing = True, op_saved = False, op_peerSaved = False, op_until = now + 30 * second\<rparr> (dm_operations d),
        dm_allocated := dm_allocated d + 1\<rparr>)" (is "records_all cfg P (d\<lparr>dm_operations := ?ops r, dm_allocated := _\<rparr>)") if "P ?peer r" for r
    proof -
      have "\<forall>(peer, oper) \<in> set (?ops r). P peer (op_record oper)" using assms(1) that by (intro update_all) (auto simp: records_all_def)
      with assms(1) show ?thesis by (simp add: records_all_def)
    qed
    have new: "P ?peer r" if "offer = Some (n, first)" "e_id env = Inr (dr_ID r)" "m_OperationID first = dr_ID r"
      "m_FixedEndpoints first = dr_Fixed r" "m_Type first = DurablePropose" "\<not> dr_Confirmed r" for n first r
      using assms(3,4) that unfolding offer_grants_def by blast
    show ?thesis
      using assms(1,4) start new known_all[OF assms(1)]
      by (auto simp: tick_offer_def Let_def message_of_def split: if_splits option.splits sum.splits)
  qed
  ultimately show ?thesis using assms(1) by simp
qed

lemma refresh_all:
  assumes "all d" "uid_canon peer" "UUID peer \<noteq> own_id cfg" "loopback_ok loopback"
    and "refreshPeerMetadata cfg env peer key loopback d = (d', e)"
  shows "all d'"
proof (cases "map_of (dm_records d) (UUID peer)")
  case (Some r)
  let ?r = "r\<lparr>dr_Peer := peer, dr_LastLoopback := loopback\<rparr>"
  have "agreement_ok cfg (UUID (dr_Peer ?r)) ?r"
    using known_ok assms(1) Some assms(2,4) by (auto simp: agreement_ok_def intro: record_ok_metadata)
  moreover have "P (UUID (dr_Peer ?r)) ?r" using metadata known_all[OF assms(1) Some] by simp
  ultimately show ?thesis
    using saveLocked_all[OF assms(1), of ?r] deleteLocked_all[OF assms(1)] assms(1,5) Some
    by (auto simp: refreshPeerMetadata_def split: if_splits)
qed (use assms in \<open>simp add: refreshPeerMetadata_def\<close>)

lemma observe_all:
  assumes "all d" "endpoint_canon addr" "\<forall>port. listenPort = Inr port \<longrightarrow> 1 \<le> port \<and> port \<le> 65535"
    and "observeDurable cfg env ended plan addr control now listenPort observed d = (d', e)"
  shows "all d'"
proof -
  let ?d = "\<lambda>port remote. d\<lparr>dm_observations := AList.update (lp_InterfaceName plan)
    (update_observation addr remote control port now (observation d plan)) (dm_observations d)\<rparr>"
  have "manager_ok cfg (?d port remote)" if "listenPort = Inr port" for port remote
    using assms(1-3) that by (intro observation_stored) (auto simp: observation_ok_def update_observation_def)
  then have ok: "all (?d port remote)" if "listenPort = Inr port" for port remote using assms(1) that by simp
  note del = deleteLocked_all[OF ok]
  show ?thesis
    using assms(1,4) ok del
    by (auto simp: observeDurable_def Let_def split: option.splits sum.splits if_splits prod.splits)
qed

lemma check_all:
  assumes "all d"
  shows "begin_check now record d = (d', c, inspect) \<Longrightarrow> all d'"
    and "finish_check cfg env now record c ready connected d = (d', res) \<Longrightarrow> all d'"
    and "acceptStatus cfg env ended record c query m now d = (d', e) \<Longrightarrow> all d'"
    and "DeleteDurable cfg env ending raw d = (d', e) \<Longrightarrow> all d'"
proof -
  show "begin_check now record d = (d', c, inspect) \<Longrightarrow> all d'"
    using assms by (auto simp: begin_check_def Let_def split: option.splits if_splits prod.splits)
  have "all d''" if "deleteLocked cfg io t states peer (d\<lparr>dm_checkStates := q\<rparr>) = (d'', e)" for d'' io t states peer q e
    using deleteLocked_all[OF _ that] assms by simp
  with assms show "finish_check cfg env now record c ready connected d = (d', res) \<Longrightarrow> all d'"
    by (auto simp: finish_check_def Let_def split: option.splits if_splits prod.splits sum.splits)
  show "acceptStatus cfg env ended record c query m now d = (d', e) \<Longrightarrow> all d'"
    using assms deleteLocked_all[OF assms] by (auto simp: acceptStatus_def Let_def split: option.splits if_splits prod.splits)
  show "DeleteDurable cfg env ending raw d = (d', e) \<Longrightarrow> all d'"
    using assms deleteLocked_all[OF assms] by (auto simp: DeleteDurable_def split: option.splits if_splits)
qed

lemma handleCheck_all:
  assumes "all d" "remote_ok cfg s" "handleCheck cfg env ready s m d = (d', sent, e)"
  shows "all d'"
proof (cases "map_of (dm_records d) (UUID (s_RemoteUID s))")
  case (Some r)
  let ?r = "r\<lparr>dr_Peer := s_RemoteUID s, dr_LastLoopback := s_RemoteLoopbackV6 s\<rparr>"
  have "agreement_ok cfg (UUID (dr_Peer ?r)) ?r" using agreement_ok_metadata[OF _ assms(2)] known_ok assms(1) Some by auto
  moreover have "P (UUID (dr_Peer ?r)) ?r" using metadata known_all[OF assms(1) Some] by simp
  ultimately show ?thesis
    using saveLocked_all[OF assms(1), of ?r] assms(1,3) Some
    by (auto simp: handleCheck_def Let_def split: if_splits prod.splits option.splits)
qed (use assms in \<open>auto simp: handleCheck_def Let_def\<close>)

lemma restore_all:
  assumes "all d" "1 \<le> q" "q \<le> 65535" "confirmRestore cfg env record q d = (d', e)"
  shows "all d'"
proof (cases "map_of (dm_records d) (UUID (dr_Peer record))")
  case (Some r)
  have ok: "agreement_ok cfg (UUID (dr_Peer record)) r" using known_ok assms(1) Some by blast
  have "P (UUID (dr_Peer r)) (r\<lparr>dr_LocalPort := q\<rparr>)" using port known_all[OF assms(1) Some] agreement_peer[OF ok] by simp
  moreover have "agreement_ok cfg (UUID (dr_Peer r)) (r\<lparr>dr_LocalPort := q\<rparr>)" if "\<not> AP_IsValid (fixedFor r (own_id cfg))"
    using ok that assms(2,3) by (auto simp: agreement_ok_def intro: record_ok_port)
  ultimately show ?thesis
    using saveLocked_all[OF assms(1), of "r\<lparr>dr_LocalPort := q\<rparr>"] assms(1,4) Some
    by (auto simp: confirmRestore_def split: if_splits)
qed (use assms in \<open>simp add: confirmRestore_def\<close>)

end

context record_property
begin

lemma step_all:
  assumes "event_ok cfg ev" "all d" "grants P cfg ev d"
  shows "all (fst (durable_step cfg ev d))"
proof (cases ev)
  case (EvLink env plan s m)
  obtain d' sent e where h: "handleLink cfg env plan s m d = (d', sent, e)" by (metis prod_cases3)
  have "all d'" by (rule handleLink_all[OF assms(2) _ _ _ _ _ h]) (use assms EvLink in auto)
  with EvLink h show ?thesis by simp
next
  case (EvOffer env now state)
  obtain d' offer where h: "tick_offer cfg env now state d = (d', offer)" by fastforce
  have "all d'" by (rule offer_all[OF assms(2) _ _ h]) (use assms EvOffer in auto)
  with EvOffer h show ?thesis by (cases offer) auto
next
  case (EvOperational peer ident s)
  obtain d' e where h: "offer_operational peer ident s d = (d', e)" by fastforce
  with assms operational_all[OF assms(2) _ h] EvOperational show ?thesis by simp
next
  case (EvRefresh env peer key loopback)
  obtain d' e where h: "refreshPeerMetadata cfg env peer key loopback d = (d', e)" by fastforce
  with assms refresh_all[OF assms(2) _ _ _ h] EvRefresh show ?thesis by simp
next
  case (EvObserve env ended plan addr control now q observed)
  obtain d' e where h: "observeDurable cfg env ended plan addr control now q observed d = (d', e)" by fastforce
  have "\<forall>p. q = Inr p \<longrightarrow> 1 \<le> p \<and> p \<le> 65535" using assms(1) EvObserve by auto
  with assms observe_all[OF assms(2) _ _ h] EvObserve h show ?thesis by simp
next
  case (EvBeginCheck now r)
  obtain d' c i where h: "begin_check now r d = (d', c, i)" by (metis prod_cases3)
  with check_all(1)[OF assms(2) h] EvBeginCheck show ?thesis by simp
next
  case (EvFinishCheck env now r c ready connected)
  obtain d' res where h: "finish_check cfg env now r c ready connected d = (d', res)" by fastforce
  with check_all(2)[OF assms(2) h] EvFinishCheck show ?thesis by simp
next
  case (EvStatus env ended r c query m now)
  obtain d' e where h: "acceptStatus cfg env ended r c query m now d = (d', e)" by fastforce
  with check_all(3)[OF assms(2) h] EvStatus show ?thesis by simp
next
  case (EvCheck env ready s m)
  obtain d' sent e where h: "handleCheck cfg env ready s m d = (d', sent, e)" by (metis prod_cases3)
  with handleCheck_all[OF assms(2) _ h] assms(1) EvCheck show ?thesis by simp
next
  case (EvRestore env r q)
  obtain d' e where h: "confirmRestore cfg env r q d = (d', e)" by fastforce
  with restore_all[OF assms(2) _ _ h] assms(1) EvRestore show ?thesis by simp
next
  case (EvDelete env ending raw)
  obtain d' e where h: "DeleteDurable cfg env ending raw d = (d', e)" by fastforce
  with check_all(4)[OF assms(2) h] EvDelete show ?thesis by simp
qed (use assms(2) in \<open>simp_all add: check_done_def\<close>)

lemma start_all:
  assumes "disk_ok cfg content" "file_all cfg P content" "config_ok cfg"
  shows "node_all cfg P (start_node cfg io content)"
proof -
  have c: "text_laws (dc_texts cfg)" "dc_publicKey cfg \<noteq> 0" "own_id cfg \<noteq> 0" using assms(3) by (simp_all add: config_ok_def config_own)
  obtain loaded where l: "loadDurable (dc_texts cfg) (durableOwner_of cfg) (Inr content) = Inr loaded" "durable_table_ok (durableOwner_of cfg) loaded"
    by (rule load_disk[OF c(1,3,2) assms(1)])
  have loaded: "\<forall>(peer, r) \<in> set loaded. P peer r" using assms(2) l(1) by (simp add: file_all_def)
  have save: "file_all cfg P content'" if "durable_table_ok (durableOwner_of cfg) t" "set t \<subseteq> set loaded"
      "saveDurableWithIO (dc_texts cfg) (durableOwner_of cfg) t i content = (content', e)" for t i content' e
    using save_all[OF that(1), of i "fresh_manager content []" content' e] loaded that(2,3) assms(2,3) by auto
  show ?thesis
  proof (cases "openDurable cfg io (Inr content)")
    case (Pair content' res)
    have kept: "durable_table_ok (durableOwner_of cfg) (filter (record_permitted (dc_desired cfg)) loaded)"
      using filter_table_ok[OF l(2)] .
    have empty: "durable_table_ok (durableOwner_of cfg) []" using empty_table_ok c by blast
    show ?thesis
      using Pair l(1) loaded assms(2) save[OF empty] save[OF kept]
      by (auto simp: start_node_def openDurable_def Let_def records_all_def split: if_splits option.splits prod.splits)
  qed
qed

lemma node_step_all:
  assumes "event_ok cfg ev" "node_ok cfg node" "node_all cfg P node" "\<And>d. node = Up d \<Longrightarrow> grants P cfg ev d"
    and "config_ok cfg"
  shows "node_all cfg P (fst (node_step cfg ev node))"
proof (cases "\<exists>io. ev = EvRestart io")
  case True
  have "file_all cfg P (node_file node)" using assms(3) by (cases node) (auto simp: records_all_def)
  with start_all[OF node_disk[OF assms(2)] _ assms(5)] True show ?thesis by (auto simp: node_step_simps)
next
  case False
  then show ?thesis
    using step_all[OF assms(1)] assms(2-5) by (cases node) (auto simp: node_step_simps)
qed

end

section \<open>Nodes that negotiate\<close>

text \<open>
  Any number of nodes, by identifier, each doing any operation at any time.  A session delivers
  only what its peer sent, any number of times and in any order, and a random identifier is one no
  offer has carried.  \<open>w_terms\<close> keeps the endpoints first offered under an identifier.
\<close>

record durable_world =
  w_nodes :: "array16 \<Rightarrow> durable_node"
  w_history :: "(array16 \<times> array16 \<times> Message) list"
  w_terms :: "array16 \<rightharpoonup> (array16 \<Rightarrow> addrport)"

definition terms_of :: "FixedEndpoint list \<Rightarrow> array16 \<Rightarrow> addrport" where
  "terms_of fixed u = (case find (\<lambda>ep. UUID (fe_UID ep) = u) fixed of None \<Rightarrow> NoAddrPort | Some ep \<Rightarrow> fe_Endpoint ep)"

definition learn :: "Message \<Rightarrow> (array16 \<rightharpoonup> (array16 \<Rightarrow> addrport)) \<Rightarrow> (array16 \<rightharpoonup> (array16 \<Rightarrow> addrport))" where
  "learn m known =
    (if m_Type m = DurablePropose \<and> known (m_OperationID m) = None
     then known(m_OperationID m \<mapsto> terms_of (m_FixedEndpoints m)) else known)"

fun event_peer :: "durable_event \<Rightarrow> array16" where
  "event_peer (EvLink env plan s m) = UUID (s_RemoteUID s)"
| "event_peer (EvOffer env now state) = ms_remote state"
| "event_peer (EvCheck env ready s m) = UUID (s_RemoteUID s)"
| "event_peer _ = 0"

fun event_id :: "durable_event \<Rightarrow> array16 option" where
  "event_id (EvLink env plan s m) = (case e_id env of Inl _ \<Rightarrow> None | Inr x \<Rightarrow> Some x)"
| "event_id (EvOffer env now state) = (case e_id env of Inl _ \<Rightarrow> None | Inr x \<Rightarrow> Some x)"
| "event_id _ = None"

fun delivered :: "array16 \<Rightarrow> durable_event \<Rightarrow> (array16 \<times> array16 \<times> Message) list \<Rightarrow> bool" where
  "delivered i (EvLink env plan s m) past = ((UUID (s_RemoteUID s), i, m) \<in> set past)"
| "delivered i _ past = True"

definition may_step :: "(array16 \<Rightarrow> durable_config) \<Rightarrow> array16 \<Rightarrow> durable_event \<Rightarrow> durable_world \<Rightarrow> bool" where
  "may_step cfgs i ev w \<longleftrightarrow> config_ok (cfgs i) \<and> own_id (cfgs i) = i \<and> event_ok (cfgs i) ev \<and> delivered i ev (w_history w)
    \<and> (case event_id ev of None \<Rightarrow> True | Some x \<Rightarrow> w_terms w x = None)"

definition world_step :: "(array16 \<Rightarrow> durable_config) \<Rightarrow> array16 \<Rightarrow> durable_event \<Rightarrow> durable_world \<Rightarrow> durable_world" where
  "world_step cfgs i ev w =
    (case node_step (cfgs i) ev (w_nodes w i) of (node, sent) \<Rightarrow>
       \<lparr>w_nodes = (w_nodes w)(i := node), w_history = map (\<lambda>m. (i, event_peer ev, m)) sent @ w_history w,
        w_terms = fold learn sent (w_terms w)\<rparr>)"

definition empty_world :: durable_world where
  "empty_world = \<lparr>w_nodes = (\<lambda>_. Down None), w_history = [], w_terms = Map.empty\<rparr>"

text \<open>The worlds of a run, the latest first.\<close>

inductive durable_trace :: "(array16 \<Rightarrow> durable_config) \<Rightarrow> durable_world list \<Rightarrow> bool" for cfgs where
  start: "durable_trace cfgs [empty_world]"
| step: "durable_trace cfgs (w # ws) \<Longrightarrow> may_step cfgs i ev w \<Longrightarrow> durable_trace cfgs (world_step cfgs i ev w # w # ws)"

section \<open>The endpoints of an identifier\<close>

definition agreed_record :: "array16 \<Rightarrow> (array16 \<rightharpoonup> (array16 \<Rightarrow> addrport)) \<Rightarrow> (array16 \<times> array16 \<times> Message) list \<Rightarrow> array16 \<Rightarrow> durableRecord \<Rightarrow> bool" where
  "agreed_record i known past peer r \<longleftrightarrow> known (dr_ID r) = Some (fixedFor r)
    \<and> (dr_Confirmed r \<longrightarrow> (\<exists>m. (peer, i, m) \<in> set past \<and> m_Type m = DurableSaved \<and> m_OperationID m = dr_ID r))"

lemma fixedFor_terms: "fixedFor r = terms_of (dr_Fixed r)"
  by (simp add: fun_eq_iff fixedFor_def terms_of_def)

lemma fixedFor_fields [simp]:
  "fixedFor (r\<lparr>dr_Peer := u\<rparr>) = fixedFor r" "fixedFor (r\<lparr>dr_LastLoopback := a\<rparr>) = fixedFor r"
  "fixedFor (r\<lparr>dr_LocalPort := p\<rparr>) = fixedFor r" "fixedFor (r\<lparr>dr_Confirmed := c\<rparr>) = fixedFor r"
  by (simp_all add: fixedFor_terms)

interpretation agreement: record_property cfg "agreed_record i known past" for cfg i known past
  by unfold_locales (simp_all add: agreed_record_def fixedFor_stored fun_eq_iff)

lemma learn_mono: "known x = Some f \<Longrightarrow> learn m known x = Some f"
  by (auto simp: learn_def)

lemma fold_learn_mono: "known x = Some f \<Longrightarrow> fold learn ms known x = Some f"
  by (induction ms arbitrary: known) (auto simp: learn_mono)

lemma agreed_record_mono:
  "agreed_record i known past peer r \<Longrightarrow> set past \<subseteq> set past' \<Longrightarrow> agreed_record i (fold learn ms known) past' peer r"
  by (auto simp: agreed_record_def fold_learn_mono)

text \<open>The messages an operation sends.\<close>

lemma handlePropose_sent:
  assumes "config_ok cfg" "manager_ok cfg d" "env_ok env" "remote_ok cfg s" "plan_ok cfg plan" "message_canon m" "m_Type m = DurablePropose"
    and "handlePropose cfg env plan s m d = (d', sent, e)" "msg \<in> set sent"
  obtains "m_Type msg = DurableDecline"
  | "m_Type msg = DurablePropose" "e_id env = Inr (m_OperationID msg)" "sent = [msg]"
  | "m_Type msg = DurableSaved" "m_OperationID msg = m_OperationID m"
    "file_has cfg (dm_file d') (UUID (s_RemoteUID s)) (m_OperationID m) (terms_of (m_FixedEndpoints m))"
proof (cases rule: handlePropose_cases[of cfg env plan s m d])
  case decline
  with assms(8,9) have "m_Type msg = DurableDecline" by (auto simp: decline_def Let_def message_of_def split: if_splits)
  then show ?thesis by (rule that(1))
next
  case (counter ours)
  obtain ident where "e_id env = Inr ident" using counter(1) assms(8,9) by (cases "e_id env") (auto simp: counter_propose_def)
  then have "m_Type msg = DurablePropose" "m_OperationID msg = ident" "sent = [msg]"
    using counter(1) assms(8,9) by (auto simp: counter_propose_def Let_def message_of_def)
  with \<open>e_id env = Inr ident\<close> show ?thesis using that(2) by simp
next
  case (accept confirmed)
  let ?r = "(proposed_record plan s m d)\<lparr>dr_Confirmed := confirmed\<rparr>"
  have "text_laws (dc_texts cfg)" using assms(1) by (simp add: config_ok_def)
  moreover have "agreement_ok cfg (UUID (s_RemoteUID s)) ?r" using proposed_ok[OF assms(2-7) accept(3,4)] by simp
  ultimately show ?thesis
    using accept_saved[OF _ assms(2) _ trans[OF accept(1)[symmetric] assms(8)] assms(9)] that(3)
    by (simp add: fixedFor_terms proposed_record_def)
qed

lemma offer_sent:
  assumes "tick_offer cfg env now state d = (d', Some (n, first))"
  obtains r where "m_Type first = DurablePropose" "m_OperationID first = dr_ID r" "m_FixedEndpoints first = dr_Fixed r"
    "map_of (dm_records d) (ms_remote state) = Some r"
  | "m_Type first = DurablePropose" "e_id env = Inr (m_OperationID first)"
  using assms by (auto simp: tick_offer_def Let_def message_of_def split: if_splits option.splits sum.splits)

definition offers_known :: "(array16 \<rightharpoonup> (array16 \<Rightarrow> addrport)) \<Rightarrow> (array16 \<times> array16 \<times> Message) list \<Rightarrow> bool" where
  "offers_known known past \<longleftrightarrow> (\<forall>(sender, receiver, m) \<in> set past. m_Type m = DurablePropose \<longrightarrow> known (m_OperationID m) = Some (terms_of (m_FixedEndpoints m)))"

lemma step_offers:
  assumes "config_ok cfg" "event_ok cfg ev" "manager_ok cfg d" "records_all cfg (agreed_record i known past) d"
    and fresh: "\<And>x. event_id ev = Some x \<Longrightarrow> known x = None"
    and sent: "durable_step cfg ev d = (d', sent)" "msg \<in> set sent" "m_Type msg = DurablePropose"
  shows "fold learn sent known (m_OperationID msg) = Some (terms_of (m_FixedEndpoints msg))"
proof -
  have learned: ?thesis if "sent = [msg]" "known (m_OperationID msg) = None"
    using that sent(3) by (simp add: learn_def)
  consider (link) env plan s m where "ev = EvLink env plan s m" | (offer) env now state where "ev = EvOffer env now state"
    | (check) env ready s m where "ev = EvCheck env ready s m"
    using sent(1,2) by (cases ev) auto
  then show ?thesis
  proof cases
    case link
    obtain e where h: "handleLink cfg env plan s m d = (d', sent, e)" using sent(1) link by (auto split: prod.splits)
    have "m_Type m \<noteq> DurableSaved \<or> sent = []" if "m_Type msg = DurablePropose"
    proof (rule ccontr)
      assume n: "\<not> ?thesis"
      then have "handleSaved cfg env plan s m d = (d', sent, e)"
        using h by (auto simp: handleLink_def split: option.splits if_splits)
      from handleSaved_saved[OF _ assms(3) this sent(2)] assms(1) have "m_Type msg = DurableSaved" by (auto simp: config_ok_def)
      with that show False by simp
    qed
    then have p: "m_Type m = DurablePropose" "handlePropose cfg env plan s m d = (d', sent, e)"
      using h sent(2,3) by (auto simp: handleLink_def handleDecline_def Let_def split: option.splits if_splits)
    have ok: "env_ok env" "remote_ok cfg s" "plan_ok cfg plan" "message_canon m" using assms(2) link by auto
    show ?thesis
      by (rule handlePropose_sent[OF assms(1,3) ok p sent(2)])
        (use sent(3) learned fresh link in \<open>auto\<close>)
  next
    case offer
    obtain n where o: "tick_offer cfg env now state d = (d', Some (n, msg))" "sent = [msg]"
      using sent offer by (auto split: prod.splits option.splits)
    show ?thesis
    proof (rule offer_sent[OF o(1)])
      fix r assume r: "m_OperationID msg = dr_ID r" "m_FixedEndpoints msg = dr_Fixed r" "map_of (dm_records d) (ms_remote state) = Some r"
      have "agreed_record i known past (ms_remote state) r" using assms(4) r(3) by (auto simp: records_all_def dest: map_of_SomeD)
      then have "known (m_OperationID msg) = Some (terms_of (m_FixedEndpoints msg))" using r by (simp add: agreed_record_def fixedFor_terms)
      then show ?thesis by (rule fold_learn_mono)
    next
      assume "e_id env = Inr (m_OperationID msg)"
      with fresh offer show ?thesis by (intro learned o(2)) simp
    qed
  next
    case check
    with sent show ?thesis by (auto simp: handleCheck_def Let_def message_of_def split: option.splits if_splits prod.splits)
  qed
qed

lemma step_saved:
  assumes "config_ok cfg" "event_ok cfg ev" "manager_ok cfg d" "records_all cfg (agreed_record i known past) d"
    and offers: "offers_known known past" "delivered i ev past"
    and sent: "durable_step cfg ev d = (d', sent)" "msg \<in> set sent" "m_Type msg = DurableSaved"
  shows "\<exists>f. known (m_OperationID msg) = Some f \<and> file_has cfg (dm_file d') (event_peer ev) (m_OperationID msg) f"
proof -
  have tx: "text_laws (dc_texts cfg)" using assms(1) by (simp add: config_ok_def)
  consider (link) env plan s m where "ev = EvLink env plan s m" | (offer) env now state where "ev = EvOffer env now state"
    | (check) env ready s m where "ev = EvCheck env ready s m"
    using sent(1,2) by (cases ev) auto
  then show ?thesis
  proof cases
    case link
    obtain e where h: "handleLink cfg env plan s m d = (d', sent, e)" using sent(1) link by (auto split: prod.splits)
    have ok: "env_ok env" "remote_ok cfg s" "plan_ok cfg plan" "message_canon m" using assms(2) link by auto
    consider (propose) "m_Type m = DurablePropose" "handlePropose cfg env plan s m d = (d', sent, e)"
      | (saved) "handleSaved cfg env plan s m d = (d', sent, e)"
      using h sent(2,3) by (auto simp: handleLink_def handleDecline_def Let_def split: option.splits if_splits)
    then show ?thesis
    proof cases
      case propose
      have k: "known (m_OperationID m) = Some (terms_of (m_FixedEndpoints m))"
        using offers link propose(1) by (auto simp: offers_known_def)
      show ?thesis
        by (rule handlePropose_sent[OF assms(1,3) ok propose sent(2)]) (use sent(3) link k in auto)
    next
      case saved
      obtain oper where o: "map_of (dm_operations d) (UUID (s_RemoteUID s)) = Some oper" "m_OperationID msg = dr_ID (op_record oper)"
        "file_has cfg (dm_file d') (UUID (s_RemoteUID s)) (dr_ID (op_record oper)) (fixedFor (op_record oper))"
        using handleSaved_saved[OF tx assms(3) saved sent(2)] by blast
      have "agreed_record i known past (UUID (s_RemoteUID s)) (op_record oper)"
        using assms(4) o(1) by (auto simp: records_all_def dest: map_of_SomeD)
      with o(2,3) link show ?thesis by (auto simp: agreed_record_def)
    qed
  next
    case offer
    with sent show ?thesis by (auto elim!: offer_sent split: prod.splits option.splits)
  next
    case check
    with sent show ?thesis by (auto simp: handleCheck_def Let_def message_of_def split: option.splits if_splits prod.splits)
  qed
qed

lemma step_grants:
  assumes "config_ok cfg" "event_ok cfg ev" "offers_known known past" "delivered i ev past"
    and fresh: "\<And>x. event_id ev = Some x \<Longrightarrow> known x = None"
    and "durable_step cfg ev d = (d', sent)" "set past \<subseteq> set past'"
  shows "grants (agreed_record i (fold learn sent known) past') cfg ev d"
proof (cases ev)
  case (EvLink env plan s m)
  let ?known = "fold learn sent known" and ?peer = "UUID (s_RemoteUID s)" and ?r = "proposed_record plan s m d"
  have m: "(?peer, i, m) \<in> set past'" using assms(4,7) EvLink by auto
  have offer: "?known (m_OperationID m) = Some (terms_of (m_FixedEndpoints m))" if "m_Type m = DurablePropose"
    using assms(3,4) EvLink that by (intro fold_learn_mono) (auto simp: offers_known_def)
  have "agreed_record i ?known past' ?peer (?r\<lparr>dr_Confirmed := confirmed\<rparr>)"
    if "m_Type m = DurablePropose" "confirmed \<longrightarrow> (\<exists>old. agreed_record i ?known past' ?peer old \<and> dr_ID old = m_OperationID m \<and> dr_Confirmed old)" for confirmed
    using offer that by (auto simp: agreed_record_def fixedFor_terms proposed_record_def)
  moreover have "agreed_record i ?known past' ?peer (?r\<lparr>dr_ID := ident, dr_Fixed := sort_key (\<lambda>ep. UUID (fe_UID ep)) (dr_Fixed ?r @ [ours])\<rparr>)"
    if "e_id env = Inr ident" "handleLink cfg env plan s m d = counter_propose env s ?r ours d" for ident ours
  proof -
    have "sent = [(message_of DurablePropose)\<lparr>m_OperationID := ident, m_FixedEndpoints := sort_key (\<lambda>ep. UUID (fe_UID ep)) (dr_Fixed ?r @ [ours])\<rparr>]"
      using assms(6) EvLink that by (auto simp: counter_propose_def Let_def)
    moreover have "known ident = None" using fresh EvLink that(1) by simp
    ultimately show ?thesis by (simp add: agreed_record_def fixedFor_terms learn_def message_of_def proposed_record_def)
  qed
  ultimately show ?thesis using EvLink m by (auto simp: link_grants_def agreed_record_def)
next
  case (EvOffer env now state)
  have "agreed_record i (fold learn sent known) past' (ms_remote state) r"
    if "tick_offer cfg env now state d = (d'', Some (n, first))" "e_id env = Inr (dr_ID r)" "m_OperationID first = dr_ID r"
      "m_FixedEndpoints first = dr_Fixed r" "m_Type first = DurablePropose" "\<not> dr_Confirmed r" for d'' n first r
  proof -
    have "sent = [first]" using assms(6) EvOffer that(1) by simp
    moreover have "known (dr_ID r) = None" using fresh EvOffer that(2) by simp
    ultimately show ?thesis using that by (simp add: agreed_record_def fixedFor_terms learn_def)
  qed
  then show ?thesis using EvOffer by (auto simp: offer_grants_def)
qed simp_all

definition saves_known :: "(array16 \<Rightarrow> durable_config) \<Rightarrow> durable_world list \<Rightarrow> durable_world \<Rightarrow> bool" where
  "saves_known cfgs ws w \<longleftrightarrow> (\<forall>(sender, receiver, m) \<in> set (w_history w). m_Type m = DurableSaved \<longrightarrow>
    (\<exists>f. w_terms w (m_OperationID m) = Some f \<and>
      (\<exists>w0 \<in> set ws. file_has (cfgs sender) (node_file (w_nodes w0 sender)) receiver (m_OperationID m) f)))"

definition durable_world_ok :: "(array16 \<Rightarrow> durable_config) \<Rightarrow> durable_world list \<Rightarrow> durable_world \<Rightarrow> bool" where
  "durable_world_ok cfgs ws w \<longleftrightarrow> (\<forall>i. node_ok (cfgs i) (w_nodes w i) \<and> node_all (cfgs i) (agreed_record i (w_terms w) (w_history w)) (w_nodes w i))
    \<and> offers_known (w_terms w) (w_history w) \<and> saves_known cfgs ws w"

lemma world_ok_start: "durable_world_ok cfgs [empty_world] empty_world"
  by (simp add: durable_world_ok_def empty_world_def disk_ok_def file_all_def loadDurable_def offers_known_def saves_known_def)

lemma node_step_sent:
  assumes "node_step cfg ev node = (node', sent)" "sent \<noteq> []"
  obtains d d' where "node = Up d" "durable_step cfg ev d = (d', sent)" "node' = Up d'"
proof (cases "\<exists>io. ev = EvRestart io")
  case False
  show thesis
  proof (cases node)
    case (Up d)
    show thesis by (rule that[OF Up, of "fst (durable_step cfg ev d)"]) (use False Up assms(1) in \<open>auto simp: node_step_simps\<close>)
  qed (use False assms in \<open>auto simp: node_step_simps\<close>)
qed (use assms in \<open>auto simp: node_step_simps\<close>)

lemma world_ok_step:
  assumes ok: "durable_world_ok cfgs ws w" and may: "may_step cfgs i ev w"
  shows "durable_world_ok cfgs (world_step cfgs i ev w # ws) (world_step cfgs i ev w)"
proof -
  obtain node sent where n: "node_step (cfgs i) ev (w_nodes w i) = (node, sent)" by fastforce
  let ?known = "fold learn sent (w_terms w)" and ?past = "map (\<lambda>m. (i, event_peer ev, m)) sent @ w_history w"
  have w': "world_step cfgs i ev w = \<lparr>w_nodes = (w_nodes w)(i := node), w_history = ?past, w_terms = ?known\<rparr>"
    by (simp add: world_step_def n)
  have c: "config_ok (cfgs i)" "event_ok (cfgs i) ev" "delivered i ev (w_history w)"
    and fresh: "\<And>x. event_id ev = Some x \<Longrightarrow> w_terms w x = None"
    using may by (auto simp: may_step_def)
  have inv: "node_ok (cfgs j) (w_nodes w j)" "node_all (cfgs j) (agreed_record j (w_terms w) (w_history w)) (w_nodes w j)"
    "offers_known (w_terms w) (w_history w)" "saves_known cfgs ws w" for j using ok by (auto simp: durable_world_ok_def)
  have mono: "node_all (cfgs j) (agreed_record j ?known ?past) (w_nodes w j)" for j
    using inv(2) by (rule node_all_mono) (auto intro: agreed_record_mono)
  have "grants (agreed_record i ?known ?past) (cfgs i) ev d" if "w_nodes w i = Up d" for d
  proof (cases "\<exists>io. ev = EvRestart io")
    case False
    then have "durable_step (cfgs i) ev d = (fst (durable_step (cfgs i) ev d), sent)" using n that by (auto simp: node_step_simps)
    from step_grants[OF c(1,2) inv(3) c(3) fresh this] show ?thesis by simp
  qed auto
  then have "node_all (cfgs i) (agreed_record i ?known ?past) node"
    using agreement.node_step_all[OF c(2) inv(1) mono _ c(1)] n by simp
  moreover have "node_ok (cfgs i) node" using node_step_ok[OF c(1,2) inv(1)[of i]] n by simp
  moreover have "offers_known ?known ?past"
  proof -
    have "?known (m_OperationID m) = Some (terms_of (m_FixedEndpoints m))" if m: "m \<in> set sent" "m_Type m = DurablePropose" for m
    proof -
      obtain d d' where d: "w_nodes w i = Up d" "durable_step (cfgs i) ev d = (d', sent)"
        using node_step_sent[OF n] m(1) by (metis list.set_cases neq_Nil_conv)
      show ?thesis by (rule step_offers[OF c(1,2) _ _ fresh d(2) m]) (use inv(1,2)[of i] d(1) in auto)
    qed
    with inv(3) show ?thesis by (fastforce simp: offers_known_def fold_learn_mono)
  qed
  moreover have "saves_known cfgs (world_step cfgs i ev w # ws) (world_step cfgs i ev w)"
  proof -
    have "\<exists>f. ?known (m_OperationID m) = Some f \<and> file_has (cfgs i) (node_file node) (event_peer ev) (m_OperationID m) f"
      if m: "m \<in> set sent" "m_Type m = DurableSaved" for m
    proof -
      obtain d d' where d: "w_nodes w i = Up d" "durable_step (cfgs i) ev d = (d', sent)" "node = Up d'"
        using node_step_sent[OF n] m(1) by (metis list.set_cases neq_Nil_conv)
      have "\<exists>f. w_terms w (m_OperationID m) = Some f \<and> file_has (cfgs i) (dm_file d') (event_peer ev) (m_OperationID m) f"
        by (rule step_saved[OF c(1,2) _ _ inv(3) c(3) d(2) m]) (use inv(1,2)[of i] d(1) in auto)
      with d(3) show ?thesis using fold_learn_mono by fastforce
    qed
    with inv(4) show ?thesis unfolding saves_known_def w' by (fastforce simp: fold_learn_mono)
  qed
  ultimately show ?thesis using inv(1) mono by (simp add: durable_world_ok_def w')
qed

lemma trace_ok: "durable_trace cfgs ws \<Longrightarrow> durable_world_ok cfgs ws (hd ws)"
  by (induction rule: durable_trace.induct) (auto simp: world_ok_start world_ok_step)

text \<open>
  C2: However the nodes interleave, lose or repeat messages, crash, restart and fail to save: when a
  node holds a confirmed agreement with a peer, the file of that peer has at some time held the
  agreement with the same identifier, for this node and with the same endpoints.
\<close>

theorem durable_agreement_bilateral:
  assumes "durable_trace cfgs (w # ws)" "w_nodes w i = Up d" "map_of (dm_records d) j = Some r" "dr_Confirmed r"
  shows "\<exists>w0 \<in> set (w # ws). file_has (cfgs j) (node_file (w_nodes w0 j)) i (dr_ID r) (fixedFor r)"
proof -
  have ok: "durable_world_ok cfgs (w # ws) w" using trace_ok[OF assms(1)] by simp
  then have "records_all (cfgs i) (agreed_record i (w_terms w) (w_history w)) d" using assms(2) by (auto simp: durable_world_ok_def dest: spec[of _ i])
  then have "agreed_record i (w_terms w) (w_history w) j r" using assms(3) by (auto simp: records_all_def dest: map_of_SomeD)
  then obtain m where m: "(j, i, m) \<in> set (w_history w)" "m_Type m = DurableSaved" "m_OperationID m = dr_ID r"
    and f: "w_terms w (dr_ID r) = Some (fixedFor r)" using assms(4) by (auto simp: agreed_record_def)
  from ok m f show ?thesis unfolding durable_world_ok_def saves_known_def by fastforce
qed

section \<open>An exchange ends\<close>

text \<open>
  The two ends of a session, and the exchange a message starts on it: each end handles what it
  receives and what it sends goes to the other.
\<close>

record party =
  pt_cfg :: durable_config
  pt_plan :: LinkPlan
  pt_session :: session
  pt_manager :: durableManager

partial_function (option) converse :: "(nat \<Rightarrow> durable_env) \<Rightarrow> nat \<Rightarrow> party \<Rightarrow> party \<Rightarrow> Message \<Rightarrow> (nat \<times> party \<times> party) option" where
  "converse envs k x y m =
    (case handleLink (pt_cfg x) (envs k) (pt_plan x) (pt_session x) m (pt_manager x) of (d, sent, _) \<Rightarrow>
       case sent of
         [] \<Rightarrow> Some (k, x\<lparr>pt_manager := d\<rparr>, y)
       | reply # _ \<Rightarrow> converse envs (k + 1) y (x\<lparr>pt_manager := d\<rparr>) reply)"

text \<open>Whether an end would answer a confirmation with its own.\<close>

definition unsaved :: "party \<Rightarrow> bool" where
  "unsaved x = (case map_of (dm_operations (pt_manager x)) (UUID (s_RemoteUID (pt_session x))) of None \<Rightarrow> False | Some oper \<Rightarrow> \<not> op_saved oper)"

lemma saveLocked_operations: "saveLocked cfg io r d = (d', e) \<Longrightarrow> dm_operations d' = dm_operations d"
  by (cases rule: saveLocked_cases[of cfg io r d]) auto

lemma update_eq [simp]: "map_of (AList.update k v al) k = Some v"
  by (simp add: update_conv')

lemma delete_eq [simp]: "map_of (AList.delete k al) k = None"
  by (simp add: delete_conv')

lemma confirm_unsaved:
  assumes "confirm_saved cfg env i plan s oper sent d = (d', sent', e)" "op_saved oper"
    "map_of (dm_operations d) (UUID (s_RemoteUID s)) = Some oper" "map_of (dm_operations d') (UUID (s_RemoteUID s)) = Some oper'"
  shows "op_saved oper'"
  using assms by (auto simp: confirm_saved_def Let_def split: if_splits option.splits prod.splits dest!: saveLocked_operations)

text \<open>What an end answers, and the state of its own operation afterwards.\<close>

lemma reply_cases:
  assumes h: "handleLink cfg env plan s m d = (d', sent, e)" "sent \<noteq> []"
  obtains (decline) reply where "sent = [reply]" "m_Type reply = DurableDecline"
  | (propose) ours reply where "m_Type m = DurablePropose" "sent = [reply]" "m_Type reply = DurablePropose"
      "m_FixedEndpoints reply = sort_key (\<lambda>ep. UUID (fe_UID ep)) (m_FixedEndpoints m @ [ours])" "UUID (fe_UID ours) = own_id cfg"
      "endpoints_observed cfg env plan (UUID (s_RemoteUID s)) (map_of (dm_records d) (UUID (s_RemoteUID s))) d 0 (m_FixedEndpoints m)"
      "\<not> AP_IsValid (terms_of (m_FixedEndpoints m) (own_id cfg))"
  | (saved) reply where "m_Type m \<in> {DurablePropose, DurableSaved}" "sent = [reply]" "m_Type reply = DurableSaved"
      "\<forall>oper. map_of (dm_operations d') (UUID (s_RemoteUID s)) = Some oper \<longrightarrow> op_saved oper"
      "m_Type m = DurableSaved \<longrightarrow> (\<exists>oper. map_of (dm_operations d) (UUID (s_RemoteUID s)) = Some oper \<and> \<not> op_saved oper)"
proof -
  consider (p) "m_Type m = DurablePropose" "handlePropose cfg env plan s m d = (d', sent, e)"
    | (q) "m_Type m = DurableSaved" "handleSaved cfg env plan s m d = (d', sent, e)"
    using h by (auto simp: handleLink_def handleDecline_def Let_def split: option.splits if_splits)
  then show thesis
  proof cases
    case p
    show thesis
    proof (cases rule: handlePropose_cases[of cfg env plan s m d])
      case decline
      with p(2) have "sent = [hd sent]" "m_Type (hd sent) = DurableDecline" by (auto simp: decline_def Let_def message_of_def split: if_splits)
      then show thesis by (rule that(1))
    next
      case (counter ours)
      have u: "UUID (fe_UID ours) = own_id cfg" using counter(2) by (auto simp: eligibleLocked_def split: option.splits if_splits)
      obtain ident where "e_id env = Inr ident" using counter(1) p(2) h(2) by (cases "e_id env") (auto simp: counter_propose_def)
      then have s: "sent = [hd sent]" "m_Type (hd sent) = DurablePropose"
        "m_FixedEndpoints (hd sent) = sort_key (\<lambda>ep. UUID (fe_UID ep)) (m_FixedEndpoints m @ [ours])"
        using counter(1) p(2) by (auto simp: counter_propose_def Let_def message_of_def proposed_record_def)
      show thesis
        by (rule that(2)[OF p(1) s u counter(4)]) (use counter(3) in \<open>simp add: fixedFor_terms proposed_record_def\<close>)
    next
      case (accept confirmed)
      obtain d1 e1 where s1: "saveLocked cfg (e_io env 0) ((proposed_record plan s m d)\<lparr>dr_Confirmed := confirmed\<rparr>) d = (d1, e1)" by fastforce
      have "sent = [hd sent] \<and> m_Type (hd sent) = DurableSaved
          \<and> (\<forall>oper. map_of (dm_operations d') (UUID (s_RemoteUID s)) = Some oper \<longrightarrow> op_saved oper)"
        using accept(1) p(2) h(2) s1
        by (auto simp: accept_propose_def Let_def message_of_def new_operation_def split: option.splits if_splits)
      then show thesis using that(3)[of "hd sent"] p(1) by simp
    qed
  next
    case q
    obtain oper where o: "map_of (dm_operations d) (UUID (s_RemoteUID s)) = Some oper" using q(2) h(2)
      by (cases "map_of (dm_operations d) (UUID (s_RemoteUID s))") (auto simp: handleSaved_def)
    obtain d1 e1 where s1: "saveLocked cfg (e_io env 0) (op_record oper) d = (d1, e1)" by fastforce
    have n: "\<not> op_saved oper"
      using q(2) h(2) o confirm_sent[of cfg env 0 plan s oper "[]" d] by (auto simp: handleSaved_def Let_def split: if_splits)
    have "sent = [hd sent] \<and> m_Type (hd sent) = DurableSaved
        \<and> (\<forall>oper. map_of (dm_operations d') (UUID (s_RemoteUID s)) = Some oper \<longrightarrow> op_saved oper)"
      using q(2) h(2) o n s1
      by (auto simp: handleSaved_def Let_def message_of_def split: option.splits if_splits dest: confirm_sent confirm_unsaved)
    then show thesis using that(3)[of "hd sent"] q(1) o n by simp
  qed
qed

lemma converse_step:
  assumes "handleLink (pt_cfg x) (envs k) (pt_plan x) (pt_session x) m (pt_manager x) = (d, sent, e)"
  shows "converse envs k x y m = (case sent of [] \<Rightarrow> Some (k, x\<lparr>pt_manager := d\<rparr>, y) | reply # _ \<Rightarrow> converse envs (k + 1) y (x\<lparr>pt_manager := d\<rparr>) reply)"
  by (subst converse.simps) (simp add: assms)

definition ends_by :: "(nat \<times> party \<times> party) option \<Rightarrow> nat \<Rightarrow> bool" where
  "ends_by res n = (case res of None \<Rightarrow> False | Some (k, _) \<Rightarrow> k \<le> n)"

lemma ends_by_mono: "ends_by res n \<Longrightarrow> n \<le> n' \<Longrightarrow> ends_by res n'"
  by (auto simp: ends_by_def split: option.splits)

lemma converse_quiet:
  assumes "m_Type m \<noteq> DurablePropose" "m_Type m \<noteq> DurableSaved"
  shows "ends_by (converse envs k x y m) k"
proof -
  obtain d sent e where h: "handleLink (pt_cfg x) (envs k) (pt_plan x) (pt_session x) m (pt_manager x) = (d, sent, e)" by (metis prod_cases3)
  then have "sent = []" using assms by (auto simp: handleLink_def handleDecline_def Let_def split: option.splits if_splits)
  then show ?thesis by (simp add: converse_step[of x envs k, OF h] ends_by_def)
qed

lemma converse_saved_quiet:
  assumes "m_Type m = DurableSaved" "\<not> unsaved x"
  shows "ends_by (converse envs k x y m) k"
proof -
  obtain d sent e where h: "handleLink (pt_cfg x) (envs k) (pt_plan x) (pt_session x) m (pt_manager x) = (d, sent, e)" by (metis prod_cases3)
  have "sent = []"
  proof (rule ccontr)
    assume n: "sent \<noteq> []"
    have "handleSaved (pt_cfg x) (envs k) (pt_plan x) (pt_session x) m (pt_manager x) = (d, sent, e)"
      using h assms(1) n by (auto simp: handleLink_def split: option.splits if_splits)
    with assms(2) n show False
      by (cases "map_of (dm_operations (pt_manager x)) (UUID (s_RemoteUID (pt_session x)))")
        (auto simp: handleSaved_def Let_def unsaved_def split: if_splits dest: confirm_sent)
  qed
  then show ?thesis by (simp add: converse_step[of x envs k, OF h] ends_by_def)
qed

lemma converse_saved_once:
  assumes "m_Type m = DurableSaved" "\<not> unsaved y"
  shows "ends_by (converse envs k x y m) (k + 1)"
proof -
  obtain d sent e where h: "handleLink (pt_cfg x) (envs k) (pt_plan x) (pt_session x) m (pt_manager x) = (d, sent, e)" by (metis prod_cases3)
  show ?thesis
  proof (cases "sent = []")
    case True
    then show ?thesis by (simp add: converse_step[of x envs k, OF h] ends_by_def)
  next
    case False
    show ?thesis
    proof (rule reply_cases[OF h False])
      fix reply assume "sent = [reply]" "m_Type reply = DurableDecline"
      then show ?thesis using ends_by_mono[OF converse_quiet[of reply envs "k + 1" y]] by (simp add: converse_step[of x envs k, OF h])
    next
      fix reply assume "sent = [reply]" "m_Type reply = DurableSaved"
      then show ?thesis using converse_saved_quiet[OF _ assms(2), of reply envs "k + 1"] by (simp add: converse_step[of x envs k, OF h])
    qed (use assms in simp)
  qed
qed

text \<open>After a confirmation the sender has none left to send.\<close>

lemma converse_saved:
  assumes "m_Type m = DurableSaved"
  shows "ends_by (converse envs k x y m) (k + 2)"
proof -
  obtain d sent e where h: "handleLink (pt_cfg x) (envs k) (pt_plan x) (pt_session x) m (pt_manager x) = (d, sent, e)" by (metis prod_cases3)
  show ?thesis
  proof (cases "sent = []")
    case True
    then show ?thesis by (simp add: converse_step[of x envs k, OF h] ends_by_def)
  next
    case False
    show ?thesis
    proof (rule reply_cases[OF h False])
      fix reply assume r: "sent = [reply]" "m_Type reply = DurableDecline"
      then show ?thesis using ends_by_mono[OF converse_quiet[of reply envs "k + 1" y]] by (simp add: converse_step[of x envs k, OF h])
    next
      fix reply assume r: "sent = [reply]" "m_Type reply = DurableSaved"
        "\<forall>oper. map_of (dm_operations d) (UUID (s_RemoteUID (pt_session x))) = Some oper \<longrightarrow> op_saved oper"
      have "\<not> unsaved (x\<lparr>pt_manager := d\<rparr>)" using r(3) by (auto simp: unsaved_def split: option.splits)
      from converse_saved_once[OF r(2) this, of envs "k + 1" y] show ?thesis by (simp add: converse_step[of x envs k, OF h] r(1))
    qed (use assms in simp)
  qed
qed

lemma converse_no_counter:
  assumes "m_Type m = DurablePropose" "AP_IsValid (terms_of (m_FixedEndpoints m) (own_id (pt_cfg x)))"
  shows "ends_by (converse envs k x y m) (k + 2)"
proof -
  obtain d sent e where h: "handleLink (pt_cfg x) (envs k) (pt_plan x) (pt_session x) m (pt_manager x) = (d, sent, e)" by (metis prod_cases3)
  show ?thesis
  proof (cases "sent = []")
    case True
    then show ?thesis by (simp add: converse_step[of x envs k, OF h] ends_by_def)
  next
    case False
    show ?thesis
    proof (rule reply_cases[OF h False])
      fix reply assume "sent = [reply]" "m_Type reply = DurableDecline"
      then show ?thesis using ends_by_mono[OF converse_quiet[of reply envs "k + 1" y]] by (simp add: converse_step[of x envs k, OF h])
    next
      fix reply assume r: "sent = [reply]" "m_Type reply = DurableSaved"
        "\<forall>oper. map_of (dm_operations d) (UUID (s_RemoteUID (pt_session x))) = Some oper \<longrightarrow> op_saved oper"
      have "\<not> unsaved (x\<lparr>pt_manager := d\<rparr>)" using r(3) by (auto simp: unsaved_def split: option.splits)
      from converse_saved_once[OF r(2) this, of envs "k + 1" y] show ?thesis by (simp add: converse_step[of x envs k, OF h] r(1))
    qed (use assms(2) in simp)
  qed
qed

lemma terms_of_member: "e \<in> set fixed \<Longrightarrow> UUID (fe_UID e) = u \<Longrightarrow> \<exists>e' \<in> set fixed. UUID (fe_UID e') = u \<and> terms_of fixed u = fe_Endpoint e'"
proof (cases "find (\<lambda>ep. UUID (fe_UID ep) = u) fixed")
  case (Some e')
  then have "e' \<in> set fixed" "UUID (fe_UID e') = u" by (auto simp: find_Some_iff)
  with Some show ?thesis by (auto simp: terms_of_def)
qed (auto simp: find_None_iff)

lemma counter_names_peer:
  assumes "message_canon m" "m_Type m = DurablePropose" "UUID (fe_UID ours) = own_id cfg" "peer \<noteq> own_id cfg"
    and "endpoints_observed cfg env plan peer known d 0 (m_FixedEndpoints m)" "\<not> AP_IsValid (terms_of (m_FixedEndpoints m) (own_id cfg))"
  shows "AP_IsValid (terms_of (sort_key (\<lambda>ep. UUID (fe_UID ep)) (m_FixedEndpoints m @ [ours])) peer)"
proof -
  have valid: "AP_IsValid (fe_Endpoint e)" if "e \<in> set (m_FixedEndpoints m)" for e
    using propose_canon(2)[OF assms(1,2)] that by (auto simp: list_all_iff fixed_canon_def intro: endpoint_canon_valid)
  obtain e where e: "e \<in> set (m_FixedEndpoints m)" using propose_canon(3)[OF assms(1,2)] by (cases "m_FixedEndpoints m") auto
  have "UUID (fe_UID e) \<noteq> own_id cfg" using terms_of_member[OF e] valid assms(6) by force
  then have "UUID (fe_UID e) = peer" using endpoints_observed_all[OF assms(5) e] by blast
  moreover have "e \<in> set (sort_key (\<lambda>ep. UUID (fe_UID ep)) (m_FixedEndpoints m @ [ours]))" using e by simp
  ultimately obtain e' where e': "e' \<in> set (sort_key (\<lambda>ep. UUID (fe_UID ep)) (m_FixedEndpoints m @ [ours]))" "UUID (fe_UID e') = peer"
    "terms_of (sort_key (\<lambda>ep. UUID (fe_UID ep)) (m_FixedEndpoints m @ [ours])) peer = fe_Endpoint e'"
    using terms_of_member by metis
  then have "e' \<in> set (m_FixedEndpoints m)" using assms(3,4) by auto
  with valid e'(3) show ?thesis by simp
qed

text \<open>
  C20: The exchange a message starts on a session ends, whatever the two ends hold and meet: at most
  three further messages follow it, a counter-offer and the two confirmations.
\<close>

theorem durable_exchange_ends:
  assumes "message_canon m" "UUID (s_RemoteUID (pt_session x)) = own_id (pt_cfg y)" "own_id (pt_cfg y) \<noteq> own_id (pt_cfg x)"
  shows "\<exists>k x' y'. converse envs 0 x y m = Some (k, x', y') \<and> k \<le> 3"
proof -
  obtain d sent e where h: "handleLink (pt_cfg x) (envs 0) (pt_plan x) (pt_session x) m (pt_manager x) = (d, sent, e)" by (metis prod_cases3)
  have "ends_by (converse envs 0 x y m) 3"
  proof (cases "sent = []")
    case True
    then show ?thesis by (simp add: converse_step[of x envs 0, OF h] ends_by_def)
  next
    case False
    note step = converse_step[of x envs 0, OF h]
    show ?thesis
    proof (rule reply_cases[OF h False])
      fix reply assume "sent = [reply]" "m_Type reply = DurableDecline"
      then show ?thesis using ends_by_mono[OF converse_quiet[of reply envs 1 y]] by (simp add: step)
    next
      fix reply assume r: "sent = [reply]" "m_Type reply = DurableSaved"
      then show ?thesis using converse_saved[of reply envs 1 y] by (simp add: step numeral_3_eq_3)
    next
      fix ours reply
      assume r: "m_Type m = DurablePropose" "sent = [reply]" "m_Type reply = DurablePropose" "UUID (fe_UID ours) = own_id (pt_cfg x)"
        "m_FixedEndpoints reply = sort_key (\<lambda>ep. UUID (fe_UID ep)) (m_FixedEndpoints m @ [ours])"
        "\<not> AP_IsValid (terms_of (m_FixedEndpoints m) (own_id (pt_cfg x)))"
        "endpoints_observed (pt_cfg x) (envs 0) (pt_plan x) (UUID (s_RemoteUID (pt_session x)))
          (map_of (dm_records (pt_manager x)) (UUID (s_RemoteUID (pt_session x)))) (pt_manager x) 0 (m_FixedEndpoints m)"
      have "AP_IsValid (terms_of (m_FixedEndpoints reply) (own_id (pt_cfg y)))"
        using counter_names_peer[OF assms(1) r(1,4) _ r(7,6)] assms(2,3) r(5) by simp
      from converse_no_counter[OF r(3) this, of envs 1] show ?thesis by (simp add: step r(2) numeral_3_eq_3)
    qed
  qed
  then show ?thesis by (auto simp: ends_by_def split: option.splits)
qed

section \<open>A run of two nodes\<close>

abbreviation demo_ep :: addrport where "demo_ep \<equiv> AddrPort (Addr4 0x01020304) 9"

definition demo_plan :: "array32 \<Rightarrow> LinkPlan" where
  "demo_plan key = \<lparr>WaitingPort = False, lp_Ports = system_port, Probing = False, ReceiveOnly = False, lp_PeerName = [],
    lp_InterfaceName = ''vf0'', OwnerAlias = ''owner'', lp_PrivateKey = 0, PeerPublicKey = key, PresharedKey = 0, ListenPort = 9,
    lp_Endpoints = [], Keepalive = None, BootstrapAddress = NoPrefix, LinkOverrides = []\<rparr>"

definition demo_state :: "array16 \<Rightarrow> array32 \<Rightarrow> materializedState" where
  "demo_state peer key = \<lparr>ms_desired = demo_plan key, ms_local = [], ms_peers = [], ms_remote = peer, ms_dynamic = True, ms_active = True,
    ms_committed = True, ms_lastPong = 0\<rparr>"

definition demo_env :: "array16 \<Rightarrow> array32 \<Rightarrow> time \<Rightarrow> durable_env" where
  "demo_env peer key now = \<lparr>e_now = (\<lambda>_. now), e_reserve = (\<lambda>_. now), e_endpoint = (\<lambda>_. now),
    e_states = (\<lambda>_. [(''vf0'', demo_state peer key)]), e_cancelled = (\<lambda>_. False), e_io = (\<lambda>_. no_faults), e_send = (\<lambda>_. None),
    e_id = Inr 7, e_revision = 1\<rparr>"

definition quiet_env :: "array16 \<Rightarrow> array32 \<Rightarrow> time \<Rightarrow> durable_env" where
  "quiet_env peer key now = (demo_env peer key now)\<lparr>e_id := Inl (ErrNew [])\<rparr>"

definition demo_agreement :: "array16 \<Rightarrow> array32 \<Rightarrow> bool \<Rightarrow> durableRecord" where
  "demo_agreement peer key confirmed = \<lparr>dr_ID = 7, dr_Peer = \<lparr>UUID = peer, Name = []\<rparr>, dr_LastLoopback = NoAddr, dr_PublicKey = key,
    dr_LocalPort = 9, dr_Fixed = [\<lparr>fe_UID = \<lparr>UUID = 1, Name = []\<rparr>, fe_Endpoint = demo_ep\<rparr>], dr_Confirmed = confirmed\<rparr>"

definition demo_party :: "array16 \<Rightarrow> array32 \<Rightarrow> array16 \<Rightarrow> array32 \<Rightarrow> durable_config" where
  "demo_party u key peer peerKey = \<lparr>dc_desired = sample_node\<lparr>ds_UUID := u, ds_Durable := \<lparr>ds_SoftLimit = 2, ds_Stable = second\<rparr>\<rparr>, dc_name = [],
    dc_publicKey = key,
    dc_texts = plain_texts
      [durable_file (plain_texts []) \<lparr>ow_UUID = u, ow_PublicKey = key\<rparr> [(peer, demo_agreement peer peerKey False)],
       durable_file (plain_texts []) \<lparr>ow_UUID = u, ow_PublicKey = key\<rparr> [(peer, demo_agreement peer peerKey True)]]\<rparr>"

definition demo_cfg :: "array16 \<Rightarrow> durable_config" where
  "demo_cfg u = (if u = 1 then demo_party 1 1 2 2 else demo_party u 2 1 1)"

abbreviation demo_propose :: Message where
  "demo_propose \<equiv> (message_of DurablePropose)\<lparr>m_OperationID := 7, m_FixedEndpoints := [\<lparr>fe_UID = \<lparr>UUID = 1, Name = []\<rparr>, fe_Endpoint = demo_ep\<rparr>],
    m_Flags := NoDurable\<rparr>"

abbreviation demo_saved :: Message where
  "demo_saved \<equiv> (message_of DurableSaved)\<lparr>m_OperationID := 7\<rparr>"

definition demo_session :: "array16 \<Rightarrow> session" where
  "demo_session peer = \<lparr>s_ident = 0, s_RemoteUID = \<lparr>UUID = peer, Name = []\<rparr>, s_RemoteLoopbackV6 = NoAddr\<rparr>"

definition demo_manager :: "bytes option \<Rightarrow> durable_table \<Rightarrow> durableObservation \<Rightarrow> (array16 \<times> durableOperation) list \<Rightarrow> durableManager" where
  "demo_manager content t v ops = (fresh_manager content t)\<lparr>dm_observations := [(''vf0'', v)], dm_operations := ops, dm_allocated := length ops\<rparr>"

definition demo_seen :: "addrport \<Rightarrow> addrport \<Rightarrow> time \<Rightarrow> durableObservation" where
  "demo_seen local remote now = \<lparr>ob_local = local, ob_remote = remote, ob_control = Addr4 5, ob_port = 9, ob_since = now, ob_seen = now\<rparr>"

definition demo_operation :: "array16 \<Rightarrow> array32 \<Rightarrow> nat option \<Rightarrow> bool \<Rightarrow> bool \<Rightarrow> durableOperation" where
  "demo_operation peer key session outgoing saved = \<lparr>op_ident = 0, op_record = demo_agreement peer key False, op_session = session,
    op_outgoing = outgoing, op_saved = saved, op_peerSaved = False, op_until = 132 * second\<rparr>"

lemmas demo_defs = demo_plan_def demo_state_def demo_env_def quiet_env_def demo_agreement_def demo_session_def demo_manager_def
  demo_seen_def demo_operation_def

lemma demo_config: "u = 1 \<or> u = 2 \<Longrightarrow> config_ok (demo_cfg u)"
  by (auto simp: config_ok_def demo_cfg_def demo_party_def plain_texts_laws uid_canon_def sample_node_def)

lemma demo_own [simp]: "own_id (demo_cfg u) = u"
  by (simp add: demo_cfg_def demo_party_def)

lemma demo_config_fields:
  "dc_name (demo_cfg u) = []" "ds_Durable (dc_desired (demo_cfg u)) = \<lparr>ds_SoftLimit = 2, ds_Stable = second\<rparr>" "dc_publicKey (demo_cfg u) = (if u = 1 then 1 else 2)"
  by (simp_all add: demo_cfg_def demo_party_def)

lemma demo_inbound: "allowsInbound (dc_desired (demo_cfg u))" "active (dc_desired (demo_cfg u))"
  by (simp_all add: demo_cfg_def demo_party_def sample_node_def allowsInbound_def active_def)

lemma demo_start: "u = 1 \<or> u = 2 \<Longrightarrow> node_step (demo_cfg u) (EvRestart (\<lambda>_. no_faults)) (Down None) = (Up (fresh_manager None []), [])"
  by (simp add: node_step_def start_node_def openDurable_def Let_def loadDurable_def)

lemma demo_observe:
  "0 \<le> now \<Longrightarrow> node_step (demo_cfg u) (EvObserve (quiet_env peer key now) None (demo_plan key) local (Addr4 5) now (Inr 9) (Inr (Some remote))) (Up (fresh_manager None []))
    = (Up (demo_manager None [] (demo_seen local remote now) []), [])"
  by (simp add: node_step_def observeDurable_def Let_def link_current_def observation_def update_observation_def demo_defs)

lemma demo_offer:
  "node_step (demo_cfg 1) (EvOffer (demo_env 2 2 102000000000) 102000000000 (demo_state 2 2)) (Up (demo_manager None [] (demo_seen demo_ep remote (100 * second)) []))
    = (Up (demo_manager None [] (demo_seen demo_ep remote (100 * second)) [(2, demo_operation 2 2 None True False)]), [demo_propose])"
  by (simp add: node_step_def tick_offer_def Let_def demo_inbound eligibleLocked_def demo_config_fields demo_defs observation_def
      reservationsLocked_def confirmedCountLocked_def)

lemma demo_operational:
  "node_step (demo_cfg 1) (EvOperational 2 0 (demo_session 2)) (Up (demo_manager None [] v [(2, demo_operation 2 2 None True False)]))
    = (Up (demo_manager None [] v [(2, demo_operation 2 2 (Some 0) True False)]), [])"
  by (simp add: node_step_def offer_operational_def demo_defs)

lemma demo_save_file:
  assumes "u = 1 \<and> p = 2 \<and> k = 2 \<or> u = 2 \<and> p = 1 \<and> k = 1"
  shows "saveDurableWithIO (dc_texts (demo_cfg u)) (durableOwner_of (demo_cfg u)) [(p, demo_agreement p k c)] no_faults content
    = (Some (if c then [1] else []), None)"
proof -
  have ne: "durable_file (plain_texts []) w [(p, demo_agreement p k False)] \<noteq> durable_file (plain_texts []) w [(p, demo_agreement p k True)]" for w
    by (simp add: durable_file_def encodeDurableRecord_def demo_agreement_def)
  have two: "[0..<length [x, y]] = [0, Suc 0]" for x y :: durableFile by (simp add: upt_rec)
  have "saveDurableWithIO (plain_texts [durable_file (plain_texts []) w [(p, demo_agreement p k False)], durable_file (plain_texts []) w [(p, demo_agreement p k True)]])
      w [(p, demo_agreement p k c)] no_faults content = (Some (if c then [1] else []), None)" for w
  proof (cases c)
    case True
    then have c: "c = True" by simp
    show ?thesis unfolding c by (subst plain_save[where n = "Suc 0"]) (unfold two, simp_all add: ne)
  next
    case False
    then have c: "c = False" by simp
    show ?thesis unfolding c by (subst plain_save[where n = 0]) (unfold two, simp_all)
  qed
  then show ?thesis using assms by (auto simp: demo_cfg_def demo_party_def durableOwner_of_def)
qed

abbreviation demo_other :: addrport where "demo_other \<equiv> AddrPort (Addr4 0x05060708) 9"

lemma handlePropose_accepts:
  assumes "\<not> dm_closed d" "(case map_of (dm_cooldown d) (UUID (s_RemoteUID s)) of None \<Rightarrow> 0 | Some t \<Rightarrow> t) \<le> e_now env 0" "allowsInbound (dc_desired cfg)"
    and "\<not> propose_busy cfg env s m d" "\<not> propose_full cfg env s m d" "e_now env 3 - ob_seen (observation d plan) < linkFailureTimeout"
    and "endpoints_observed cfg env plan (UUID (s_RemoteUID s)) None d 0 (m_FixedEndpoints m)" "map_of (dm_records d) (UUID (s_RemoteUID s)) = None"
    and "eligibleLocked cfg d plan (e_now env 4) = None \<or> AP_IsValid (terms_of (m_FixedEndpoints m) (own_id cfg))"
  shows "handlePropose cfg env plan s m d = accept_propose cfg env plan s (proposed_record plan s m d) d"
proof -
  have "fixedFor (proposed_record plan s m d) = terms_of (m_FixedEndpoints m)" by (simp add: fixedFor_terms proposed_record_def)
  with assms show ?thesis
    unfolding handlePropose_def Let_def proposed_record_def[symmetric] by (auto simp: proposed_record_def split: option.splits)
qed

lemma demo_saveLocked:
  assumes "u = 1 \<and> p = 2 \<and> k = 2 \<or> u = 2 \<and> p = 1 \<and> k = 1" "dm_records d = [] \<or> dm_records d = [(p, demo_agreement p k False)]"
  shows "saveLocked (demo_cfg u) no_faults (demo_agreement p k c) d
    = (d\<lparr>dm_file := Some (if c then [1] else []), dm_records := [(p, demo_agreement p k c)]\<rparr>, None)"
proof -
  have t: "AList.update (UUID (dr_Peer (demo_agreement p k c))) (demo_agreement p k c) (dm_records d) = [(p, demo_agreement p k c)]"
    using assms(2) by (auto simp: demo_agreement_def)
  have c: "(case map_of (dm_records d) (UUID (dr_Peer (demo_agreement p k c))) of None \<Rightarrow> dm_checks d
      | Some previous \<Rightarrow> if dr_ID previous \<noteq> dr_ID (demo_agreement p k c) then AList.delete (UUID (dr_Peer (demo_agreement p k c))) (dm_checks d)
        else dm_checks d) = dm_checks d"
    using assms(2) by (auto simp: demo_agreement_def)
  show ?thesis by (simp add: saveLocked_def Let_def t c demo_save_file[OF assms(1)])
qed

lemma demo_healthy: "healthy (quiet_env peer key now) i (demo_plan key) peer"
  by (simp add: healthy_def demo_defs)

lemma demo_accept:
  "node_step (demo_cfg 2) (EvLink (quiet_env 1 1 102000000000) (demo_plan 1) (demo_session 1) demo_propose)
      (Up (demo_manager None [] (demo_seen demo_other demo_ep 101500000000) []))
    = (Up (demo_manager (Some []) [(1, demo_agreement 1 1 False)] (demo_seen demo_other demo_ep 101500000000)
        [(1, demo_operation 1 1 (Some 0) False True)]), [demo_saved])" (is "node_step _ _ (Up ?d) = _")
proof -
  have p: "handlePropose (demo_cfg 2) (quiet_env 1 1 102000000000) (demo_plan 1) (demo_session 1) demo_propose ?d
      = accept_propose (demo_cfg 2) (quiet_env 1 1 102000000000) (demo_plan 1) (demo_session 1) (demo_agreement 1 1 False) ?d"
  proof -
    have v: "observation ?d (demo_plan 1) = demo_seen demo_other demo_ep 101500000000" by (simp add: observation_def demo_defs)
    have r: "dm_records ?d = []" "dm_closed ?d = False" "dm_cooldown ?d = []" "UUID (s_RemoteUID (demo_session 1)) = 1"
      "e_now (quiet_env 1 1 102000000000) i = 102 * second" for i by (simp_all add: demo_defs)
    have "proposed_record (demo_plan 1) (demo_session 1) demo_propose ?d = demo_agreement 1 1 False"
      unfolding proposed_record_def v by (simp add: demo_defs)
    moreover have "endpoints_observed (demo_cfg 2) (quiet_env 1 1 102000000000) (demo_plan 1) 1 None ?d 0 (m_FixedEndpoints demo_propose)"
      by (simp add: v) (simp add: demo_seen_def)
    moreover have "eligibleLocked (demo_cfg 2) ?d (demo_plan 1) 102000000000 = None"
      by (simp add: eligibleLocked_def demo_config_fields demo_defs)
    moreover have "\<not> propose_busy (demo_cfg 2) env s m ?d" "\<not> propose_full (demo_cfg 2) env (demo_session 1) demo_propose ?d" for env s m
      by (simp_all add: propose_busy_def propose_full_def demo_manager_def has_def message_of_def)
    ultimately show ?thesis
      using handlePropose_accepts[of ?d "demo_session 1" "quiet_env 1 1 102000000000" "demo_cfg 2" demo_propose "demo_plan 1"] v r demo_inbound
      by (simp add: demo_seen_def)
  qed
  have "accept_propose (demo_cfg 2) (quiet_env 1 1 102000000000) (demo_plan 1) (demo_session 1) (demo_agreement 1 1 False) ?d
      = (demo_manager (Some []) [(1, demo_agreement 1 1 False)] (demo_seen demo_other demo_ep 101500000000)
          [(1, demo_operation 1 1 (Some 0) False True)], [demo_saved], None)"
  proof -
    have i: "e_io (quiet_env 1 1 102000000000) 0 = no_faults" "UUID (s_RemoteUID (demo_session 1)) = 1" "e_send (quiet_env 1 1 102000000000) 0 = None"
      by (simp_all add: demo_defs)
    have s: "saveLocked (demo_cfg 2) no_faults (demo_agreement 1 1 False) ?d = (?d\<lparr>dm_file := Some [], dm_records := [(1, demo_agreement 1 1 False)]\<rparr>, None)"
      using demo_saveLocked[of 2 1 1 ?d False] by (simp add: demo_manager_def)
    show ?thesis unfolding accept_propose_def i s Let_def
      by (simp add: demo_healthy new_operation_def demo_operation_def demo_manager_def demo_session_def) (simp add: demo_defs)
  qed
  with p show ?thesis by (simp add: node_step_def handleLink_def) (simp add: demo_defs message_of_def)
qed

lemma demo_confirm:
  "node_step (demo_cfg 1) (EvLink (quiet_env 2 2 102000000000) (demo_plan 2) (demo_session 2) demo_saved)
      (Up (demo_manager None [] v [(2, demo_operation 2 2 (Some 0) True False)]))
    = (Up ((demo_manager (Some [1]) [(2, demo_agreement 2 2 True)] v [])\<lparr>dm_allocated := 1\<rparr>), [demo_saved])" (is "node_step _ _ (Up ?d) = _")
proof -
  let ?env = "quiet_env 2 2 102000000000" and ?op = "demo_operation 2 2 (Some 0) True False"
  have i: "e_io ?env j = no_faults" "UUID (s_RemoteUID (demo_session 2)) = 2" "e_send ?env 0 = None" "s_ident (demo_session 2) = 0"
    "map_of (dm_operations ?d) 2 = Some ?op" "dm_closed ?d = False" "e_now ?env 0 < op_until ?op" "op_session ?op = Some 0"
    "dr_ID (op_record ?op) = 7" "op_record ?op = demo_agreement 2 2 False" "\<not> op_saved ?op" for j
    by (simp_all add: demo_defs)
  let ?d1 = "?d\<lparr>dm_file := Some [], dm_records := [(2, demo_agreement 2 2 False)]\<rparr>"
  let ?op1 = "?op\<lparr>op_saved := True\<rparr>"
  let ?d2 = "?d1\<lparr>dm_operations := AList.update 2 ?op1 (dm_operations ?d1)\<rparr>"
  have s1: "saveLocked (demo_cfg 1) no_faults (demo_agreement 2 2 False) ?d = (?d1, None)"
    using demo_saveLocked[of 1 2 2 ?d False] by (simp add: demo_manager_def)
  have c: "(demo_agreement 2 2 False)\<lparr>dr_Confirmed := True\<rparr> = demo_agreement 2 2 True" by (simp add: demo_agreement_def)
  have "confirm_saved (demo_cfg 1) ?env 1 (demo_plan 2) (demo_session 2) ?op1 sent ?d2
      = (((demo_manager (Some [1]) [(2, demo_agreement 2 2 True)] v [])\<lparr>dm_allocated := 1\<rparr>), sent, Some errDurableComplete)" for sent
    unfolding confirm_saved_def Let_def i
    by (simp add: demo_healthy i c demo_manager_def demo_saveLocked)
  then have "handleSaved (demo_cfg 1) ?env (demo_plan 2) (demo_session 2) demo_saved ?d
      = (((demo_manager (Some [1]) [(2, demo_agreement 2 2 True)] v [])\<lparr>dm_allocated := 1\<rparr>), [demo_saved], Some errDurableComplete)"
    unfolding handleSaved_def Let_def i(2) by (simp add: i s1 demo_healthy message_of_def demo_agreement_def[THEN arg_cong, of dr_ID])
  then show ?thesis by (simp add: node_step_def handleLink_def) (simp add: demo_defs message_of_def)
qed

definition demo_events :: "(array16 \<times> durable_event) list" where
  "demo_events =
    [(1, EvRestart (\<lambda>_. no_faults)), (2, EvRestart (\<lambda>_. no_faults)),
     (1, EvObserve (quiet_env 2 2 (100 * second)) None (demo_plan 2) demo_ep (Addr4 5) (100 * second) (Inr 9) (Inr (Some demo_other))),
     (2, EvObserve (quiet_env 1 1 101500000000) None (demo_plan 1) demo_other (Addr4 5) 101500000000 (Inr 9) (Inr (Some demo_ep))),
     (1, EvOffer (demo_env 2 2 102000000000) 102000000000 (demo_state 2 2)),
     (1, EvOperational 2 0 (demo_session 2)),
     (2, EvLink (quiet_env 1 1 102000000000) (demo_plan 1) (demo_session 1) demo_propose),
     (1, EvLink (quiet_env 2 2 102000000000) (demo_plan 2) (demo_session 2) demo_saved)]"

text \<open>The worlds of a list of events, the latest first.\<close>

fun worlds :: "(array16 \<Rightarrow> durable_config) \<Rightarrow> (array16 \<times> durable_event) list \<Rightarrow> durable_world list \<Rightarrow> durable_world list" where
  "worlds cfgs [] ws = ws"
| "worlds cfgs ((i, ev) # evs) ws = worlds cfgs evs (world_step cfgs i ev (hd ws) # ws)"

fun may_run :: "(array16 \<Rightarrow> durable_config) \<Rightarrow> (array16 \<times> durable_event) list \<Rightarrow> durable_world \<Rightarrow> bool" where
  "may_run cfgs [] w = True"
| "may_run cfgs ((i, ev) # evs) w \<longleftrightarrow> may_step cfgs i ev w \<and> may_run cfgs evs (world_step cfgs i ev w)"

lemma worlds_trace: "durable_trace cfgs ws \<Longrightarrow> may_run cfgs evs (hd ws) \<Longrightarrow> durable_trace cfgs (worlds cfgs evs ws)"
proof (induction evs arbitrary: ws)
  case (Cons e evs)
  obtain i ev where e: "e = (i, ev)" by fastforce
  obtain w rest where ws: "ws = w # rest" using Cons.prems(1) by (auto elim: durable_trace.cases)
  have "durable_trace cfgs (world_step cfgs i ev w # w # rest)"
    using durable_trace.step Cons.prems ws e by auto
  with Cons.IH[OF this] Cons.prems(2) show ?case by (simp add: e ws)
qed simp

lemma demo_canon: "message_canon demo_propose" "message_canon demo_saved"
  by code_simp+

lemma demo_event_ok: "(i, ev) \<in> set demo_events \<Longrightarrow> event_ok (demo_cfg i) ev"
  using demo_canon
  by (auto simp: demo_events_def env_ok_def remote_ok_def plan_ok_def demo_config_fields demo_defs uid_canon_def loopback_ok_def
      endpoint_canon_def validEndpointAddress_def validAddress_def IsUnspecified_def IsMulticast_def IsLinkLocalUnicast_def is_broadcast_def)

lemma world_step_eq:
  assumes "node_step (cfgs i) ev (w_nodes w i) = (node, sent)"
  shows "world_step cfgs i ev w = \<lparr>w_nodes = (w_nodes w)(i := node), w_history = map (\<lambda>m. (i, event_peer ev, m)) sent @ w_history w,
    w_terms = fold learn sent (w_terms w)\<rparr>"
  by (simp add: world_step_def assms)

abbreviation demo_final :: durableManager where
  "demo_final \<equiv> (demo_manager (Some [1]) [(2, demo_agreement 2 2 True)] (demo_seen demo_ep demo_other (100 * second)) [])\<lparr>dm_allocated := 1\<rparr>"

lemma demo_run: "may_run demo_cfg demo_events empty_world \<and> w_nodes (hd (worlds demo_cfg demo_events [empty_world])) 1 = Up demo_final"
proof -
  define evs where "evs = demo_events"
  have ok: "event_ok (demo_cfg i) ev" if "(i, ev) \<in> set evs" for i ev using demo_event_ok that by (simp add: evs_def)
  have may: "may_step demo_cfg i ev w" if "(i, ev) \<in> set evs" "delivered i ev (w_history w)" "case event_id ev of None \<Rightarrow> True | Some x \<Rightarrow> w_terms w x = None" for i ev w
  proof -
    have "i = 1 \<or> i = 2" using that(1) by (auto simp: evs_def demo_events_def)
    with that ok[OF that(1)] demo_config[of i] show ?thesis by (auto simp: may_step_def)
  qed
  note evs = evs_def[unfolded demo_events_def]
  obtain e1 e2 e3 e4 e5 e6 e7 e8 where e: "demo_events = [(1, e1), (2, e2), (1, e3), (2, e4), (1, e5), (1, e6), (2, e7), (1, e8)]"
    and d: "e1 = EvRestart (\<lambda>_. no_faults)" "e2 = EvRestart (\<lambda>_. no_faults)"
      "e3 = EvObserve (quiet_env 2 2 (100 * second)) None (demo_plan 2) demo_ep (Addr4 5) (100 * second) (Inr 9) (Inr (Some demo_other))"
      "e4 = EvObserve (quiet_env 1 1 101500000000) None (demo_plan 1) demo_other (Addr4 5) 101500000000 (Inr 9) (Inr (Some demo_ep))"
      "e5 = EvOffer (demo_env 2 2 102000000000) 102000000000 (demo_state 2 2)"
      "e6 = EvOperational 2 0 (demo_session 2)"
      "e7 = EvLink (quiet_env 1 1 102000000000) (demo_plan 1) (demo_session 1) demo_propose"
      "e8 = EvLink (quiet_env 2 2 102000000000) (demo_plan 2) (demo_session 2) demo_saved"
    unfolding demo_events_def by blast
  let ?f = "fresh_manager None []" and ?v = "demo_seen demo_ep demo_other (100 * second)" and ?u = "demo_seen demo_other demo_ep 101500000000"
  define N where "N = (\<lambda>a b. (\<lambda>_. Down None)(1 := a, 2 := b) :: array16 \<Rightarrow> durable_node)"
  have N: "N a b 1 = a" "N a b 2 = b" "(N a b)(1 := c) = N c b" "(N a b)(2 := c) = N a c" "(\<lambda>_. Down None) = N (Down None) (Down None)" for a b c
    by (auto simp: N_def fun_eq_iff)
  define W where "W = (\<lambda>a b h t. \<lparr>w_nodes = N a b, w_history = h, w_terms = t\<rparr>)"
  have W: "w_nodes (W a b h t) = N a b" "w_history (W a b h t) = h" "w_terms (W a b h t) = t" for a b h t by (simp_all add: W_def)
  have step1: "world_step demo_cfg 1 ev (W a b h t) = W c b (map (\<lambda>m. (1, event_peer ev, m)) sent @ h) (fold learn sent t)"
    if "node_step (demo_cfg 1) ev a = (c, sent)" for ev a b c h t sent
    using world_step_eq[of demo_cfg 1 ev "W a b h t" c sent] that by (simp add: W_def N)
  have step2: "world_step demo_cfg 2 ev (W a b h t) = W a c (map (\<lambda>m. (2, event_peer ev, m)) sent @ h) (fold learn sent t)"
    if "node_step (demo_cfg 2) ev b = (c, sent)" for ev a b c h t sent
    using world_step_eq[of demo_cfg 2 ev "W a b h t" c sent] that by (simp add: W_def N)
  let ?A1 = "Up ?f" and ?A2 = "Up (demo_manager None [] ?v [])" and ?A3 = "Up (demo_manager None [] ?v [(2, demo_operation 2 2 None True False)])"
    and ?A4 = "Up (demo_manager None [] ?v [(2, demo_operation 2 2 (Some 0) True False)])"
    and ?B1 = "Up (demo_manager None [] ?u [])"
    and ?B2 = "Up (demo_manager (Some []) [(1, demo_agreement 1 1 False)] ?u [(1, demo_operation 1 1 (Some 0) False True)])"
  let ?T = "fold learn [demo_propose] Map.empty" and ?h1 = "[(1, event_peer e5, demo_propose)]"
  have s0: "empty_world = W (Down None) (Down None) [] Map.empty" by (simp add: empty_world_def W_def N(5))
  have s1: "world_step demo_cfg 1 e1 (W (Down None) (Down None) [] Map.empty) = W ?A1 (Down None) [] Map.empty"
    using step1[OF demo_start[of 1, simplified]] d(1) by simp
  have s2: "world_step demo_cfg 2 e2 (W ?A1 (Down None) [] Map.empty) = W ?A1 ?A1 [] Map.empty"
    using step2[OF demo_start[of 2, simplified]] d(2) by simp
  have s3: "world_step demo_cfg 1 e3 (W ?A1 ?A1 [] Map.empty) = W ?A2 ?A1 [] Map.empty"
    using step1[OF demo_observe[of "100 * second" 1 2 2 demo_ep demo_other]] d(3) by simp
  have s4: "world_step demo_cfg 2 e4 (W ?A2 ?A1 [] Map.empty) = W ?A2 ?B1 [] Map.empty"
    using step2[OF demo_observe[of 101500000000 2 1 1 demo_other demo_ep]] d(4) by simp
  have s5: "world_step demo_cfg 1 e5 (W ?A2 ?B1 [] Map.empty) = W ?A3 ?B1 ?h1 ?T"
    using step1[OF demo_offer] d(5) by simp
  have s6: "world_step demo_cfg 1 e6 (W ?A3 ?B1 ?h1 ?T) = W ?A4 ?B1 ?h1 ?T"
    using step1[OF demo_operational] d(6) by simp
  have s7: "world_step demo_cfg 2 e7 (W ?A4 ?B1 ?h1 ?T) = W ?A4 ?B2 ((2, event_peer e7, demo_saved) # ?h1) (learn demo_saved ?T)"
    using step2[OF demo_accept] d(7) by simp
  have s8: "\<exists>h t. world_step demo_cfg 1 e8 (W ?A4 ?B2 ((2, event_peer e7, demo_saved) # ?h1) (learn demo_saved ?T)) = W (Up demo_final) ?B2 h t"
    using step1[OF demo_confirm] d(8) by auto
  note mem = may[unfolded evs_def e]
  have m: "may_step demo_cfg 1 e1 (W a b [] Map.empty)" "may_step demo_cfg 2 e2 (W a b [] Map.empty)" "may_step demo_cfg 1 e3 (W a b [] Map.empty)"
    "may_step demo_cfg 2 e4 (W a b [] Map.empty)" "may_step demo_cfg 1 e5 (W a b [] Map.empty)" "may_step demo_cfg 1 e6 (W a b h t)"
    "may_step demo_cfg 2 e7 (W a b ?h1 t)" "may_step demo_cfg 1 e8 (W a b ((2, event_peer e7, demo_saved) # ?h1) t)" for a b h t
    by (rule mem; simp add: W d demo_defs)+
  from s8 obtain h t where s8: "world_step demo_cfg 1 e8 (W ?A4 ?B2 ((2, event_peer e7, demo_saved) # ?h1) (learn demo_saved ?T)) = W (Up demo_final) ?B2 h t" by blast
  show ?thesis unfolding e s0 may_run.simps worlds.simps list.sel s1 s2 s3 s4 s5 s6 s7 s8 W N by (simp add: m del: One_nat_def)
qed

theorem durable_agreement_bilateral_witness:
  "\<exists>w0 \<in> set (worlds demo_cfg demo_events [empty_world]).
    file_has (demo_cfg 2) (node_file (w_nodes w0 2)) 1 7 (fixedFor (demo_agreement 2 2 True))"
proof -
  have t: "durable_trace demo_cfg (worlds demo_cfg demo_events [empty_world])"
    using worlds_trace[OF durable_trace.start] demo_run by simp
  obtain w ws where w: "worlds demo_cfg demo_events [empty_world] = w # ws" using t by (auto elim: durable_trace.cases)
  have "w_nodes w 1 = Up demo_final" using demo_run w by simp
  moreover have "map_of (dm_records demo_final) 2 = Some (demo_agreement 2 2 True)" "dr_Confirmed (demo_agreement 2 2 True)"
    "dr_ID (demo_agreement 2 2 True) = 7" by (simp_all add: demo_manager_def demo_agreement_def)
  ultimately show ?thesis using durable_agreement_bilateral[OF t[unfolded w]] w by fastforce
qed

definition demo_side :: "array16 \<Rightarrow> array16 \<Rightarrow> array32 \<Rightarrow> durableManager \<Rightarrow> party" where
  "demo_side u peer key d = \<lparr>pt_cfg = demo_cfg u, pt_plan = demo_plan key, pt_session = demo_session peer, pt_manager = d\<rparr>"

theorem durable_exchange_ends_witness:
  "\<exists>k x' y'. converse (\<lambda>_. quiet_env 1 1 102000000000) 0
      (demo_side 2 1 1 (demo_manager None [] (demo_seen demo_other demo_ep 101500000000) []))
      (demo_side 1 2 2 (demo_manager None [] (demo_seen demo_ep demo_other (100 * second)) [(2, demo_operation 2 2 (Some 0) True False)]))
      demo_propose = Some (k, x', y') \<and> k \<le> 3"
  by (rule durable_exchange_ends[OF demo_canon(1)]) (simp_all add: demo_side_def demo_session_def)

section \<open>The file of a node over time\<close>

text \<open>
  C21: Whatever operations, failing saves, crashes and restarts a node goes through, its file can be
  read: it loads as a table in which every record is complete, belongs to its peer and names
  only endpoints of the two nodes.
\<close>

theorem durable_store_readable:
  assumes "config_ok cfg" "list_all (event_ok cfg) evs"
  shows "\<exists>t. loadDurable (dc_texts cfg) (durableOwner_of cfg) (Inr (node_file (node_run cfg evs (Down None)))) = Inr t
    \<and> durable_table_ok (durableOwner_of cfg) t"
proof -
  have "node_ok cfg (node_run cfg evs (Down None))" using node_run_ok[OF assms] by (simp add: disk_ok_def)
  from node_disk[OF this] obtain t where "loadDurable (dc_texts cfg) (durableOwner_of cfg) (Inr (node_file (node_run cfg evs (Down None)))) = Inr t"
    "durable_table_ok (durableOwner_of cfg) t"
    using assms(1) config_own[OF assms(1)] by (auto simp: config_ok_def elim: load_disk)
  then show ?thesis by blast
qed

theorem durable_store_readable_witness:
  "\<exists>t. loadDurable (dc_texts (demo_cfg 1)) (durableOwner_of (demo_cfg 1))
      (Inr (node_file (node_run (demo_cfg 1) (map snd (filter (\<lambda>(i, _). i = 1) demo_events)) (Down None)))) = Inr t
    \<and> durable_table_ok (durableOwner_of (demo_cfg 1)) t"
  by (rule durable_store_readable) (use demo_event_ok demo_config in \<open>auto simp: list_all_iff\<close>)

section \<open>Giving up an agreement\<close>

text \<open>
  What happens to the check state of an agreement: a round of checks, and the answers of the peer
  that were accepted.
\<close>

datatype check_event = Round time bool bool | PeerReady time | PeerNotReady

fun check_step :: "check_event \<Rightarrow> durableCheckState \<Rightarrow> durableCheckState \<times> bool" where
  "check_step (Round now localReady connected) c = failed c now localReady connected"
| "check_step (PeerReady now) c = (c\<lparr>ck_readyUntil := now + durableReadyFreshness\<rparr>, False)"
| "check_step PeerNotReady c = (c\<lparr>ck_readyUntil := 0, ck_failedSince := 0\<rparr>, False)"

text \<open>The events are listed with the latest first.\<close>

fun check_run :: "array16 \<Rightarrow> check_event list \<Rightarrow> durableCheckState" where
  "check_run agreement [] = new_check agreement"
| "check_run agreement (e # es) = fst (check_step e (check_run agreement es))"

definition peer_fresh :: "check_event list \<Rightarrow> time \<Rightarrow> bool" where
  "peer_fresh es now \<longleftrightarrow> (\<exists>t. PeerReady t \<in> set (takeWhile (\<lambda>e. e \<noteq> PeerNotReady) es) \<and> now < t + durableReadyFreshness)"

fun failing_since :: "time \<Rightarrow> check_event list \<Rightarrow> bool" where
  "failing_since start [] = False"
| "failing_since start (Round now localReady connected # es) \<longleftrightarrow>
    localReady \<and> \<not> connected \<and> peer_fresh es now \<and> (now = start \<or> failing_since start es)"
| "failing_since start (PeerReady t # es) = failing_since start es"
| "failing_since start (PeerNotReady # es) = False"

fun event_time :: "check_event \<Rightarrow> time" where
  "event_time (Round now _ _) = now"
| "event_time (PeerReady now) = now"
| "event_time PeerNotReady = 1"

lemma check_run_fresh:
  "list_all (\<lambda>e. 0 < event_time e) es \<Longrightarrow> now < ck_readyUntil (check_run agreement es) \<Longrightarrow> 0 < now \<Longrightarrow> peer_fresh es now"
proof (induction es)
  case (Cons e es)
  then show ?case by (cases e) (auto simp: peer_fresh_def failed_def Let_def split: if_splits)
qed simp

lemma check_run_since:
  "list_all (\<lambda>e. 0 < event_time e) es \<Longrightarrow> ck_failedSince (check_run agreement es) \<noteq> 0 \<Longrightarrow>
    failing_since (ck_failedSince (check_run agreement es)) es"
proof (induction es)
  case (Cons e es)
  then show ?case
    using check_run_fresh[of es _ agreement] by (cases e) (auto simp: failed_def Let_def split: if_splits)
qed simp




end
