(* ===== verification/Link_State.thy ===== *)
theory Link_State
  imports Durable_Manager Ports Inference Engine
begin

text \<open>
  The links a node has installed, \<^verbatim>\<open>internal/runtime/link_session.go\<close> and \<^verbatim>\<open>link_routes.go\<close>, with the
  receipts of \<^verbatim>\<open>warm_links.go\<close>, the evidence and the removal of \<^verbatim>\<open>dynamic_lifecycle.go\<close> and the
  periodic repair of \<^verbatim>\<open>runtime.go\<close>.  The table of links, the evidence, the receipts in memory and on
  disk and the table of resources are one state; what the code asks of the kernel and of the routing
  daemon is kept as the list of calls it makes, and the outcome of each call is an argument.  Shown:
  every operation keeps the table such that a link that is healthy is committed, that only a
  committed link names loopbacks of its peer, and that the repair asks for the route to a loopback
  on exactly one link, whatever the order in which the links are visited.
\<close>

section \<open>State\<close>

datatype link_call =
    CallMaterialize LinkPlan "prefix list" "addr list"
  | CallKeepLinkAlive LinkPlan
  | CallRemoveDynamic LinkPlan
  | CallSetLinkState string bool "prefix list"
  | CallOnCommit Result
  | CallCloseSession nat

record warmLink =
  wl_Interface :: string
  wl_Owner :: string
  wl_PublicKey :: array32
  wl_Port :: int
  wl_Result :: Result
  wl_Remote :: addr
  wl_Static :: bool
  wl_LastPong :: time

type_synonym receipts = "(string \<times> warmLink) list"

text \<open>\<open>wf_disk\<close> is the table the receipt file holds, \<open>None\<close> when there is no file.\<close>

record warmLinks =
  wf_Links :: receipts
  wf_disk :: "receipts option"

record runner =
  rn_states :: link_states
  rn_evidence :: "Evidence list"
  rn_warm :: "warmLinks option"
  rn_durable :: durableManager
  rn_resources :: resources
  rn_pool :: portPool
  rn_calls :: "link_call list"

text \<open>
  What an operation meets outside, in the order it asks: readings of the clock, whether its context
  has ended, the outcome of the calls of the kernel, of the write of the receipt file and of its
  removal (whether it fails for another reason than a missing file), and what the manager of
  agreements meets.
\<close>

record link_env =
  le_now :: "nat \<Rightarrow> time"
  le_ended :: "nat \<Rightarrow> error option"
  le_materialize :: "nat \<Rightarrow> error option"
  le_keepAlive :: "error option"
  le_remove :: "nat \<Rightarrow> error option"
  le_write :: "nat \<Rightarrow> error option"
  le_unlink :: "nat \<Rightarrow> bool"
  le_durable :: durable_env
  le_listenPort :: "int result"
  le_draw :: int

definition called :: "link_call \<Rightarrow> 'a runner_scheme \<Rightarrow> 'a runner_scheme" where
  "called c r = r\<lparr>rn_calls := rn_calls r @ [c]\<rparr>"

definition SetLinkState :: "durable_config \<Rightarrow> string \<Rightarrow> bool \<Rightarrow> prefix list \<Rightarrow> 'a runner_scheme \<Rightarrow> 'a runner_scheme" where
  "SetLinkState cfg name up local r =
    (if ds_Babel (dc_desired cfg) = None then r else called (CallSetLinkState name up local) r)"

section \<open>The route to a loopback\<close>

definition route_owner :: "link_states \<Rightarrow> addr \<Rightarrow> string \<Rightarrow> string" where
  "route_owner states peer name =
    foldl (\<lambda>owner (name, state). if name < owner \<and> ms_committed state \<and> peer \<in> set (ms_peers state) then name else owner) name states"

definition selected_peers :: "link_states \<Rightarrow> LinkPlan \<Rightarrow> addr list \<Rightarrow> addr list" where
  "selected_peers states plan peers =
    filter (\<lambda>peer. route_owner states peer (lp_InterfaceName plan) = lp_InterfaceName plan) peers"

definition materializeLink ::
  "'e link_env_scheme \<Rightarrow> nat \<Rightarrow> LinkPlan \<Rightarrow> prefix list \<Rightarrow> addr list \<Rightarrow> 'a runner_scheme \<Rightarrow> 'a runner_scheme \<times> error option" where
  "materializeLink env i plan local peers r =
    (called (CallMaterialize plan local (selected_peers (rn_states r) plan peers)) r, le_materialize env i)"

fun maintain_links :: "'e link_env_scheme \<Rightarrow> nat \<Rightarrow> materializedState list \<Rightarrow> 'a runner_scheme \<Rightarrow> 'a runner_scheme \<times> bool" where
  "maintain_links env i [] r = (r, True)"
| "maintain_links env i (state # states) r =
    (case materializeLink env i (ms_desired state) (ms_local state) (ms_peers state) r of
       (r, err) \<Rightarrow>
       (case maintain_links env (Suc i) states r of (r, well) \<Rightarrow> (r, err = None \<and> well)))"

definition maintainMaterialized :: "'e link_env_scheme \<Rightarrow> 'a runner_scheme \<Rightarrow> 'a runner_scheme \<times> bool" where
  "maintainMaterialized env r = maintain_links env 0 (map snd (rn_states r)) r"

section \<open>Receipts\<close>

text \<open>A failed write must not leave an older receipt on disk: the file is removed.\<close>

definition saveWarmLinks :: "'e link_env_scheme \<Rightarrow> nat \<Rightarrow> warmLinks \<Rightarrow> warmLinks" where
  "saveWarmLinks env i w =
    (case le_write env i of
       None \<Rightarrow> w\<lparr>wf_disk := Some (wf_Links w)\<rparr>
     | Some _ \<Rightarrow> if le_unlink env i then w else w\<lparr>wf_disk := None\<rparr>)"

definition takeWarmLink :: "LinkPlan \<Rightarrow> 'a runner_scheme \<Rightarrow> warmLink option" where
  "takeWarmLink plan r = (case rn_warm r of None \<Rightarrow> None | Some w \<Rightarrow> map_of (wf_Links w) (OwnerAlias plan))"

definition rememberWarmLink :: "'e link_env_scheme \<Rightarrow> nat \<Rightarrow> LinkPlan \<Rightarrow> Result \<Rightarrow> addr \<Rightarrow> 'a runner_scheme \<Rightarrow> 'a runner_scheme" where
  "rememberWarmLink env i plan result remote r =
    (case rn_warm r of None \<Rightarrow> r | Some w \<Rightarrow>
     case map_of (rn_states r) (lp_InterfaceName plan) of None \<Rightarrow> r | Some state \<Rightarrow>
     if \<not> ms_active state \<or> OwnerAlias (ms_desired state) \<noteq> OwnerAlias plan then r
     else
       (let receipt = \<lparr>wl_Interface = lp_InterfaceName plan, wl_Owner = OwnerAlias plan, wl_PublicKey = PeerPublicKey plan,
              wl_Port = ListenPort plan, wl_Result = result, wl_Remote = remote, wl_Static = \<not> ms_dynamic state,
              wl_LastPong = ms_lastPong state\<rparr> in
        r\<lparr>rn_warm := Some (saveWarmLinks env i (w\<lparr>wf_Links := AList.update (OwnerAlias plan) receipt (wf_Links w)\<rparr>))\<rparr>))"

definition forgetWarmLink :: "'e link_env_scheme \<Rightarrow> nat \<Rightarrow> LinkPlan \<Rightarrow> 'a runner_scheme \<Rightarrow> 'a runner_scheme" where
  "forgetWarmLink env i plan r =
    (case rn_warm r of None \<Rightarrow> r | Some w \<Rightarrow>
     if map_of (wf_Links w) (OwnerAlias plan) = None then r
     else r\<lparr>rn_warm := Some (saveWarmLinks env i (w\<lparr>wf_Links := AList.delete (OwnerAlias plan) (wf_Links w)\<rparr>))\<rparr>)"

section \<open>Evidence\<close>

fun put_evidence :: "Evidence \<Rightarrow> Evidence list \<Rightarrow> Evidence list" where
  "put_evidence value [] = [value]"
| "put_evidence value (e # evidence) =
    (if ev_Link e = ev_Link value then value # evidence else e # put_evidence value evidence)"

definition setEvidence :: "string \<Rightarrow> int \<Rightarrow> addrport \<Rightarrow> Evidence list \<Rightarrow> Evidence list \<times> error option" where
  "setEvidence name port endpoint evidence =
    (case NewEvidence name port endpoint of
       Inl e \<Rightarrow> (evidence, Some e)
     | Inr value \<Rightarrow> (put_evidence value evidence, None))"

fun removeEvidence :: "string \<Rightarrow> Evidence list \<Rightarrow> Evidence list" where
  "removeEvidence name [] = []"
| "removeEvidence name (e # evidence) = (if ev_Link e = name then evidence else e # removeEvidence name evidence)"

definition recordEndpointEvidence :: "'e link_env_scheme \<Rightarrow> string \<Rightarrow> addrport \<Rightarrow> 'a runner_scheme \<Rightarrow> 'a runner_scheme \<times> error option" where
  "recordEndpointEvidence env name endpoint r =
    (case le_ended env 0 of Some e \<Rightarrow> (r, Some e) | None \<Rightarrow>
     case le_listenPort env of Inl e \<Rightarrow> (r, Some e) | Inr port \<Rightarrow>
     case setEvidence name port endpoint (rn_evidence r) of (evidence, err) \<Rightarrow> (r\<lparr>rn_evidence := evidence\<rparr>, err))"

section \<open>Commitment, withdrawal and loss\<close>

definition commitLink ::
  "durable_config \<Rightarrow> 'e link_env_scheme \<Rightarrow> LinkPlan \<Rightarrow> bool \<Rightarrow> Result \<Rightarrow> bool \<Rightarrow> 'a runner_scheme \<Rightarrow> 'a runner_scheme \<times> error option" where
  "commitLink cfg env desired dynamic result onCommit r =
    (let remote = UUID (res_RemoteUID result);
         localAddresses = fst (EndpointAddresses (res_Proposal result) (own_id cfg) remote);
         peerLoopbacks = (if IsValid (res_RemoteLoopbackV6 result) then [res_RemoteLoopbackV6 result] else []);
         r = called (CallKeepLinkAlive desired) r in
     case le_keepAlive env of Some e \<Rightarrow> (r, Some e) | None \<Rightarrow>
     case materializeLink env 0 desired localAddresses peerLoopbacks r of
       (r, Some e) \<Rightarrow> (r, Some e)
     | (r, None) \<Rightarrow>
       (let r = r\<lparr>rn_states := AList.update (lp_InterfaceName desired)
                  \<lparr>ms_desired = desired, ms_local = localAddresses, ms_peers = peerLoopbacks, ms_remote = remote,
                   ms_dynamic = dynamic, ms_active = True, ms_committed = True, ms_lastPong = le_now env 1\<rparr> (rn_states r)\<rparr>;
            r = r\<lparr>rn_durable := fst (refreshPeerMetadata cfg ((le_durable env)\<lparr>e_states := \<lambda>_. rn_states r\<rparr>)
                  (res_RemoteUID result) (PeerPublicKey desired) (res_RemoteLoopbackV6 result) (rn_durable r))\<rparr>;
            r = SetLinkState cfg (lp_InterfaceName desired) True localAddresses r in
        (if onCommit then called (CallOnCommit result) r else r, None)))"

definition withdrawLinkAdjacency ::
  "durable_config \<Rightarrow> 'e link_env_scheme \<Rightarrow> LinkPlan \<Rightarrow> 'a runner_scheme \<Rightarrow> 'a runner_scheme \<times> error option" where
  "withdrawLinkAdjacency cfg env plan r =
    (case map_of (rn_states r) (lp_InterfaceName plan) of None \<Rightarrow> (r, None) | Some state \<Rightarrow>
     if \<not> ms_active state \<and> ms_peers state = [] \<or> OwnerAlias (ms_desired state) \<noteq> OwnerAlias plan then (r, None)
     else
       (case materializeLink env 1 plan (ms_local state) [] (forgetWarmLink env 0 plan r) of
          (r, Some e) \<Rightarrow> (r, Some e)
        | (r, None) \<Rightarrow>
          (SetLinkState cfg (lp_InterfaceName plan) False []
             (r\<lparr>rn_states := AList.update (lp_InterfaceName plan)
                  (state\<lparr>ms_active := False, ms_committed := False, ms_peers := []\<rparr>) (rn_states r),
                rn_evidence := removeEvidence (lp_InterfaceName plan) (rn_evidence r)\<rparr>), None)))"

definition markLinkLost :: "LinkPlan \<Rightarrow> 'a runner_scheme \<Rightarrow> 'a runner_scheme" where
  "markLinkLost plan r =
    r\<lparr>rn_states :=
        (case map_of (rn_states r) (lp_InterfaceName plan) of
           None \<Rightarrow> rn_states r
         | Some state \<Rightarrow>
           if OwnerAlias (ms_desired state) = OwnerAlias plan
           then AList.update (lp_InterfaceName plan) (state\<lparr>ms_active := False\<rparr>) (rn_states r) else rn_states r),
      rn_evidence := removeEvidence (lp_InterfaceName plan) (rn_evidence r)\<rparr>"

definition committedLink :: "LinkPlan \<Rightarrow> 'a runner_scheme \<Rightarrow> materializedState option" where
  "committedLink plan r =
    (case map_of (rn_states r) (lp_InterfaceName plan) of
       None \<Rightarrow> None
     | Some state \<Rightarrow> if ms_committed state \<and> OwnerAlias (ms_desired state) = OwnerAlias plan then Some state else None)"

definition hasDirectLinkToLoopback :: "link_states \<Rightarrow> addr \<Rightarrow> bool" where
  "hasDirectLinkToLoopback states loopback = list_ex (\<lambda>(_, state). ms_active state \<and> loopback \<in> set (ms_peers state)) states"

definition hasHealthyStatic :: "link_states \<Rightarrow> array16 \<Rightarrow> bool" where
  "hasHealthyStatic states remote =
    list_ex (\<lambda>(_, state). ms_active state \<and> \<not> ms_dynamic state \<and> ms_remote state = remote) states"

section \<open>Removal\<close>

definition removeDynamicState :: "durable_config \<Rightarrow> 'e link_env_scheme \<Rightarrow> nat \<Rightarrow> LinkPlan \<Rightarrow> 'a runner_scheme \<Rightarrow> 'a runner_scheme" where
  "removeDynamicState cfg env i plan r =
    (let r = forgetWarmLink env i plan r in
     case map_of (rn_states r) (lp_InterfaceName plan) of None \<Rightarrow> r | Some state \<Rightarrow>
     if ms_dynamic state \<and> OwnerAlias (ms_desired state) = OwnerAlias plan
     then SetLinkState cfg (lp_InterfaceName plan) False []
            (r\<lparr>rn_states := AList.delete (lp_InterfaceName plan) (rn_states r)\<rparr>)
     else r)"

definition removeInterface :: "durable_config \<Rightarrow> 'e link_env_scheme \<Rightarrow> nat \<Rightarrow> LinkPlan \<Rightarrow> 'a runner_scheme \<Rightarrow> 'a runner_scheme" where
  "removeInterface cfg env i plan r =
    (if (case map_of (rn_states r) (lp_InterfaceName plan) of
           None \<Rightarrow> False | Some state \<Rightarrow> OwnerAlias (ms_desired state) \<noteq> OwnerAlias plan)
     then r
     else
       (let r = removeDynamicState cfg env i plan (r\<lparr>rn_evidence := removeEvidence (lp_InterfaceName plan) (rn_evidence r)\<rparr>);
            r = called (CallRemoveDynamic plan) r;
            (resources, pool) = removed plan (le_remove env i) (rn_resources r, rn_pool r) in
        r\<lparr>rn_resources := resources, rn_pool := pool\<rparr>))"

section \<open>The table of links\<close>

definition state_ok :: "string \<Rightarrow> materializedState \<Rightarrow> bool" where
  "state_ok name state =
    ((ms_active state \<or> ms_peers state \<noteq> [] \<longrightarrow> ms_committed state)
     \<and> (ms_peers state \<noteq> [] \<longrightarrow> lp_InterfaceName (ms_desired state) = name))"

definition states_ok :: "link_states \<Rightarrow> bool" where
  "states_ok m = (distinct (map fst m) \<and> list_all (\<lambda>(name, state). state_ok name state) m)"

lemma states_okD: "states_ok m \<Longrightarrow> map_of m name = Some state \<Longrightarrow> state_ok name state"
  by (auto simp: states_ok_def list_all_iff dest: map_of_SomeD)

lemma states_ok_update: "states_ok m \<Longrightarrow> state_ok name state \<Longrightarrow> states_ok (AList.update name state m)"
  using set_update_subset[of name state m] by (fastforce simp: states_ok_def list_all_iff distinct_update)

lemma states_ok_delete: "states_ok m \<Longrightarrow> states_ok (AList.delete name m)"
  by (auto simp: states_ok_def list_all_iff AList.delete_eq distinct_map_filter)

lemma called_simps [simp]:
  "rn_states (called c r) = rn_states r" "rn_evidence (called c r) = rn_evidence r" "rn_warm (called c r) = rn_warm r"
  "rn_durable (called c r) = rn_durable r" "rn_resources (called c r) = rn_resources r" "rn_pool (called c r) = rn_pool r"
  "rn_calls (called c r) = rn_calls r @ [c]" "runner.more (called c r) = runner.more r"
  by (simp_all add: called_def)

lemma SetLinkState_simps [simp]:
  "rn_states (SetLinkState cfg name up local r) = rn_states r" "rn_evidence (SetLinkState cfg name up local r) = rn_evidence r"
  "rn_warm (SetLinkState cfg name up local r) = rn_warm r" "rn_durable (SetLinkState cfg name up local r) = rn_durable r"
  "rn_resources (SetLinkState cfg name up local r) = rn_resources r" "rn_pool (SetLinkState cfg name up local r) = rn_pool r"
  "runner.more (SetLinkState cfg name up local r) = runner.more r"
  by (simp_all add: SetLinkState_def)

lemma forgetWarmLink_simps [simp]:
  "rn_states (forgetWarmLink env i plan r) = rn_states r" "rn_evidence (forgetWarmLink env i plan r) = rn_evidence r"
  "rn_durable (forgetWarmLink env i plan r) = rn_durable r" "rn_resources (forgetWarmLink env i plan r) = rn_resources r"
  "rn_pool (forgetWarmLink env i plan r) = rn_pool r" "rn_calls (forgetWarmLink env i plan r) = rn_calls r"
  "runner.more (forgetWarmLink env i plan r) = runner.more r"
  by (simp_all add: forgetWarmLink_def split: option.split)

lemma rememberWarmLink_simps [simp]:
  "rn_states (rememberWarmLink env i plan result remote r) = rn_states r"
  "rn_evidence (rememberWarmLink env i plan result remote r) = rn_evidence r"
  "rn_durable (rememberWarmLink env i plan result remote r) = rn_durable r"
  "rn_resources (rememberWarmLink env i plan result remote r) = rn_resources r"
  "rn_pool (rememberWarmLink env i plan result remote r) = rn_pool r"
  "rn_calls (rememberWarmLink env i plan result remote r) = rn_calls r"
  "runner.more (rememberWarmLink env i plan result remote r) = runner.more r"
  by (simp_all add: rememberWarmLink_def Let_def split: option.split)

text \<open>What a committed link says of its interface.\<close>

definition committed_state :: "durable_config \<Rightarrow> LinkPlan \<Rightarrow> bool \<Rightarrow> Result \<Rightarrow> time \<Rightarrow> materializedState" where
  "committed_state cfg plan dynamic result now =
    \<lparr>ms_desired = plan, ms_local = fst (EndpointAddresses (res_Proposal result) (own_id cfg) (UUID (res_RemoteUID result))),
     ms_peers = (if IsValid (res_RemoteLoopbackV6 result) then [res_RemoteLoopbackV6 result] else []),
     ms_remote = UUID (res_RemoteUID result), ms_dynamic = dynamic, ms_active = True, ms_committed = True, ms_lastPong = now\<rparr>"

lemma commitLink_states:
  "rn_states (fst (commitLink cfg env plan dynamic result onCommit r)) =
    (if snd (commitLink cfg env plan dynamic result onCommit r) = None
     then AList.update (lp_InterfaceName plan) (committed_state cfg plan dynamic result (le_now env 1)) (rn_states r)
     else rn_states r)"
  by (auto simp: commitLink_def committed_state_def materializeLink_def Let_def split: option.split)

lemma commitLink_other [simp]:
  "rn_evidence (fst (commitLink cfg env plan dynamic result onCommit r)) = rn_evidence r"
  "rn_warm (fst (commitLink cfg env plan dynamic result onCommit r)) = rn_warm r"
  "rn_resources (fst (commitLink cfg env plan dynamic result onCommit r)) = rn_resources r"
  "rn_pool (fst (commitLink cfg env plan dynamic result onCommit r)) = rn_pool r"
  "runner.more (fst (commitLink cfg env plan dynamic result onCommit r)) = runner.more r"
  by (simp_all add: commitLink_def materializeLink_def Let_def split: option.split)

lemma withdraw_states:
  "rn_states (fst (withdrawLinkAdjacency cfg env plan r)) =
    (case map_of (rn_states r) (lp_InterfaceName plan) of
       Some state \<Rightarrow>
         if snd (withdrawLinkAdjacency cfg env plan r) = None \<and> (ms_active state \<or> ms_peers state \<noteq> [])
            \<and> OwnerAlias (ms_desired state) = OwnerAlias plan
         then AList.update (lp_InterfaceName plan) (state\<lparr>ms_active := False, ms_committed := False, ms_peers := []\<rparr>) (rn_states r)
         else rn_states r
     | None \<Rightarrow> rn_states r)"
  by (auto simp: withdrawLinkAdjacency_def materializeLink_def split: option.split)

lemma withdraw_other [simp]:
  "rn_resources (fst (withdrawLinkAdjacency cfg env plan r)) = rn_resources r"
  "rn_pool (fst (withdrawLinkAdjacency cfg env plan r)) = rn_pool r"
  "rn_durable (fst (withdrawLinkAdjacency cfg env plan r)) = rn_durable r"
  "runner.more (fst (withdrawLinkAdjacency cfg env plan r)) = runner.more r"
  by (simp_all add: withdrawLinkAdjacency_def materializeLink_def split: option.split)

lemma commitLink_ok: "states_ok (rn_states r) \<Longrightarrow> states_ok (rn_states (fst (commitLink cfg env plan dynamic result onCommit r)))"
  by (simp add: commitLink_states states_ok_update state_ok_def committed_state_def)

lemma withdraw_ok: "states_ok (rn_states r) \<Longrightarrow> states_ok (rn_states (fst (withdrawLinkAdjacency cfg env plan r)))"
  by (auto simp: withdraw_states state_ok_def intro!: states_ok_update dest: states_okD split: option.split)

lemma markLinkLost_ok: "states_ok (rn_states r) \<Longrightarrow> states_ok (rn_states (markLinkLost plan r))"
  by (auto simp: markLinkLost_def state_ok_def intro!: states_ok_update dest: states_okD split: option.split)

lemma removeDynamicState_states:
  "rn_states (removeDynamicState cfg env i plan r) =
    (case map_of (rn_states r) (lp_InterfaceName plan) of
       None \<Rightarrow> rn_states r
     | Some state \<Rightarrow> if ms_dynamic state \<and> OwnerAlias (ms_desired state) = OwnerAlias plan
                   then AList.delete (lp_InterfaceName plan) (rn_states r) else rn_states r)"
  by (simp add: removeDynamicState_def Let_def split: option.split)

lemma removeInterface_states:
  "rn_states (removeInterface cfg env i plan r) =
    (case map_of (rn_states r) (lp_InterfaceName plan) of
       None \<Rightarrow> rn_states r
     | Some state \<Rightarrow> if ms_dynamic state \<and> OwnerAlias (ms_desired state) = OwnerAlias plan
                   then AList.delete (lp_InterfaceName plan) (rn_states r) else rn_states r)"
  by (simp add: removeInterface_def removeDynamicState_states Let_def split: option.split prod.split)

lemma removeInterface_ok: "states_ok (rn_states r) \<Longrightarrow> states_ok (rn_states (removeInterface cfg env i plan r))"
  by (auto simp: removeInterface_states intro: states_ok_delete split: option.split)

section \<open>One output for a loopback\<close>

definition claims :: "addr \<Rightarrow> string \<times> materializedState \<Rightarrow> bool" where
  "claims peer entry = (ms_committed (snd entry) \<and> peer \<in> set (ms_peers (snd entry)))"

lemma Min_insert_min: "finite S \<Longrightarrow> Min (insert (min a b) S) = Min (insert b (insert a S))"
  by (cases "S = {}") (auto simp: ac_simps)

lemma route_owner_Min:
  "route_owner m peer name = Min (insert name (fst ` {entry \<in> set m. claims peer entry}))"
proof (induction m arbitrary: name)
  case Nil
  then show ?case by (simp add: route_owner_def)
next
  case (Cons e m)
  let ?S = "fst ` {entry \<in> set m. claims peer entry}"
  obtain n s where e: "e = (n, s)" by fastforce
  have step: "route_owner (e # m) peer name = route_owner m peer (if claims peer e then min n name else name)"
    by (auto simp: route_owner_def claims_def e min_def)
  have "fst ` {entry \<in> set (e # m). claims peer entry} = (if claims peer e then insert n ?S else ?S)"
    by (auto simp: e image_iff)
  then show ?case
    by (simp add: step Cons.IH Min_insert_min del: Min_insert)
qed

lemma maintain_links_calls:
  "rn_states (fst (maintain_links env i states r)) = rn_states r
   \<and> rn_calls (fst (maintain_links env i states r)) = rn_calls r
       @ map (\<lambda>state. CallMaterialize (ms_desired state) (ms_local state)
           (selected_peers (rn_states r) (ms_desired state) (ms_peers state))) states"
proof (induction states arbitrary: i r)
  case (Cons state states)
  from Cons.IH[of "Suc i" "called (CallMaterialize (ms_desired state) (ms_local state)
      (selected_peers (rn_states r) (ms_desired state) (ms_peers state))) r"]
  show ?case by (simp add: materializeLink_def case_prod_beta)
qed simp

text \<open>The link that carries the route to a loopback: the least name among those that claim it.\<close>

definition elected :: "link_states \<Rightarrow> addr \<Rightarrow> string" where
  "elected m peer = Min (fst ` {entry \<in> set m. claims peer entry})"

lemma elected_claims:
  assumes "entry \<in> set m" "claims peer entry"
  shows "\<exists>state. (elected m peer, state) \<in> set m \<and> claims peer (elected m peer, state)"
proof -
  have "elected m peer \<in> fst ` {entry \<in> set m. claims peer entry}"
    unfolding elected_def by (rule Min_in) (simp, use assms in blast)
  then show ?thesis by force
qed

lemma selected_iff:
  assumes "states_ok m" "(name, state) \<in> set m"
  shows "peer \<in> set (selected_peers m (ms_desired state) (ms_peers state)) \<longleftrightarrow>
    peer \<in> set (ms_peers state) \<and> name = elected m peer"
proof (cases "peer \<in> set (ms_peers state)")
  case True
  from assms have "state_ok name state" by (auto simp: states_ok_def list_all_iff)
  with True have n: "lp_InterfaceName (ms_desired state) = name" and c: "claims peer (name, state)"
    by (auto simp: state_ok_def claims_def)
  let ?S = "fst ` {entry \<in> set m. claims peer entry}"
  from c assms(2) have "name \<in> ?S" by force
  then have "route_owner m peer name = elected m peer"
    by (simp add: route_owner_Min elected_def insert_absorb)
  with True n show ?thesis by (auto simp: selected_peers_def)
qed (auto simp: selected_peers_def)

section \<open>Receipts on disk\<close>

text \<open>
  A link that is withdrawn or removed must not be adopted again from an old receipt: after the
  receipt is dropped, the file names it only if both the write and the removal of the file failed.
\<close>

lemma forget_disk:
  assumes "rn_warm (forgetWarmLink env i plan r) = Some w" "wf_disk w = Some table" "\<not> (le_write env i \<noteq> None \<and> le_unlink env i)"
    and "\<And>w0. rn_warm r = Some w0 \<Longrightarrow> wf_disk w0 = None \<or> wf_disk w0 = Some (wf_Links w0)"
  shows "map_of table (OwnerAlias plan) = None"
  using assms by (auto simp: forgetWarmLink_def saveWarmLinks_def delete_conv' split: option.splits if_splits)

lemma put_evidence_links: "distinct (map ev_Link es) \<Longrightarrow> distinct (map ev_Link (put_evidence v es))
    \<and> set (map ev_Link (put_evidence v es)) = insert (ev_Link v) (set (map ev_Link es))"
  by (induction es) auto

lemma removeEvidence_filter: "distinct (map ev_Link evidence) \<Longrightarrow>
    removeEvidence name evidence = filter (\<lambda>e. ev_Link e \<noteq> name) evidence"
  by (induction evidence) (auto intro!: filter_True[symmetric] simp: image_iff)

end
