(* ===== verification/Dynamic_Attempts.thy ===== *)
theory Dynamic_Attempts
  imports Link_State
begin

text \<open>
  The attempts of a node to build links of its own, \<^verbatim>\<open>internal/runtime/dynamic.go\<close>,
  \<^verbatim>\<open>dynamic_engine.go\<close>, \<^verbatim>\<open>dynamic_lifecycle.go\<close> and \<^verbatim>\<open>dynamic_negotiation.go\<close>, with the socket of
  an attempt and its handoff from \<^verbatim>\<open>dynamic_probe.go\<close> and the restoration of an agreement from
  \<^verbatim>\<open>durable_recovery.go\<close>.  An attempt is an object: workers and timers keep a reference to it after
  another has taken its place, so attempts live in a store and the table maps a peer to a
  reference.  Each operation is a function of the engine's state, which extends that of the links;
  what it meets outside is an argument.
\<close>

section \<open>State\<close>

datatype dynamicAttemptState =
    dynamicPreparing | dynamicProposing | dynamicProbing | dynamicAttempting | dynamicUp | dynamicRecovering | dynamicStopped

text \<open>A socket is known by its local endpoint, a context by a number.\<close>

record udpAttempt =
  ua_ctx :: nat
  ua_receiverKey :: array32
  ua_primary :: "addrport leasedProbe"
  ua_remoteKey :: array32
  ua_remoteEndpoint :: addrport
  ua_remotePublicKey :: array32

text \<open>A timer is its due time while it runs; the deadline also carries the context it was armed with.\<close>

record dynamicAttempt =
  at_controlReady :: bool
  at_port :: "portLease option"
  at_udp :: "udpAttempt option"
  at_remote :: array16
  at_operationID :: array16
  at_localProposal :: bool
  at_plan :: LinkPlan
  at_candidate :: addrport
  at_session :: "session option"
  at_state :: dynamicAttemptState
  at_responseTimer :: "time option"
  at_deadlineTimer :: "(time \<times> nat) option"
  at_deadlineEpoch :: u64
  at_cancel :: "nat option"

record dynamicCleanup =
  cu_ident :: nat
  cu_plan :: LinkPlan

record dynamicEngine = runner +
  en_peers :: dynamicPeers
  en_attempts :: "(array16 \<times> nat) list"
  en_objects :: "dynamicAttempt list"
  en_pendingCleanups :: "(array16 \<times> dynamicCleanup) list"
  en_allocated :: nat
  en_contexts :: nat
  en_cancelled :: "nat list"

record dynamic_config =
  dy_durable :: durable_config
  dy_primitives :: primitives
  dy_publicKey :: "array32 \<Rightarrow> array32"
  dy_endpointText :: "addrport \<Rightarrow> string"

text \<open>
  What an attempt meets outside besides what a link does: the random operation and probe keys, the
  source address of the route to an endpoint, the outcome of a send and the system of the ports.
\<close>

record dynamic_env = link_env +
  de_operationID :: "array16 result"
  de_probeKey :: "array32 result"
  de_probeSource :: "addrport \<Rightarrow> addr result"
  de_send :: "error option"
  de_system :: "(link_call list, addrport) system"

abbreviation dynamicResponseTimeout :: duration where
  "dynamicResponseTimeout \<equiv> 10 * second"

abbreviation dynamicConnectivityTimeout :: duration where
  "dynamicConnectivityTimeout \<equiv> 30 * second"

abbreviation no_plan :: LinkPlan where
  "no_plan \<equiv> \<lparr>WaitingPort = False, lp_Ports = \<lparr>Port = 0, Range = no_range\<rparr>, Probing = False, ReceiveOnly = False, lp_PeerName = [],
    lp_InterfaceName = [], OwnerAlias = [], lp_PrivateKey = 0, PeerPublicKey = 0, PresharedKey = 0, ListenPort = 0, lp_Endpoints = [],
    Keepalive = None, BootstrapAddress = NoPrefix, LinkOverrides = []\<rparr>"

definition object :: "dynamicEngine \<Rightarrow> nat \<Rightarrow> dynamicAttempt" where
  "object d a = en_objects d ! a"

definition modify :: "nat \<Rightarrow> (dynamicAttempt \<Rightarrow> dynamicAttempt) \<Rightarrow> dynamicEngine \<Rightarrow> dynamicEngine" where
  "modify a f d = d\<lparr>en_objects := (en_objects d)[a := f (object d a)]\<rparr>"

definition cancel_ctx :: "nat \<Rightarrow> dynamicEngine \<Rightarrow> dynamicEngine" where
  "cancel_ctx c d = d\<lparr>en_cancelled := c # en_cancelled d\<rparr>"

definition isCurrentAttemptLocked :: "dynamicEngine \<Rightarrow> nat \<Rightarrow> bool" where
  "isCurrentAttemptLocked d a = (map_of (en_attempts d) (at_remote (object d a)) = Some a)"

definition resourceCountLocked :: "dynamicEngine \<Rightarrow> int" where
  "resourceCountLocked d = int (length (en_attempts d) + length (en_pendingCleanups d)
     + length (filter (\<lambda>(_, resource). lr_cleanup resource) (rn_resources d)))"

section \<open>The end of an attempt\<close>

definition udp_close :: "dynamic_env \<Rightarrow> udpAttempt \<Rightarrow> dynamicEngine \<Rightarrow> dynamicEngine" where
  "udp_close env u d =
    (let d = cancel_ctx (ua_ctx u) d;
         (calls, pool) = probe_Close (de_system env) (ua_primary u) (rn_calls d) (rn_pool d) in
     d\<lparr>rn_calls := calls, rn_pool := pool\<rparr>)"

definition stopAttempt :: "dynamic_env \<Rightarrow> nat \<Rightarrow> dynamicEngine \<Rightarrow> dynamicEngine" where
  "stopAttempt env a d =
    (let x = object d a;
         d = (case at_udp x of None \<Rightarrow> d | Some u \<Rightarrow> udp_close env u d);
         d = modify a (\<lambda>x. x\<lparr>at_state := dynamicStopped, at_responseTimer := None, at_deadlineTimer := None\<rparr>) d in
     case at_cancel x of None \<Rightarrow> d | Some c \<Rightarrow> cancel_ctx c d)"

definition discardAttemptLocked :: "dynamic_env \<Rightarrow> array16 \<Rightarrow> nat \<Rightarrow> dynamicEngine \<Rightarrow> dynamicEngine" where
  "discardAttemptLocked env remote a d = stopAttempt env a (d\<lparr>en_attempts := AList.delete remote (en_attempts d)\<rparr>)"

definition on_target :: "array16 \<Rightarrow> (dynamicTarget \<Rightarrow> dynamicTarget) \<Rightarrow> dynamicEngine \<Rightarrow> dynamicEngine" where
  "on_target remote f d = d\<lparr>en_peers := (en_peers d)\<lparr>targets := on_peer remote f (targets (en_peers d))\<rparr>\<rparr>"

definition close_session :: "nat \<Rightarrow> dynamicEngine \<Rightarrow> dynamicEngine" where
  "close_session a d =
    (case at_session (object d a) of
       Some s \<Rightarrow> if at_localProposal (object d a) then called (CallCloseSession (s_ident s)) d else d
     | None \<Rightarrow> d)"

definition fallbackLocked :: "dynamic_env \<Rightarrow> nat \<Rightarrow> dynamicEngine \<Rightarrow> dynamicEngine \<times> LinkPlan option" where
  "fallbackLocked env a d =
    (if \<not> isCurrentAttemptLocked d a then (d, None)
     else
       (let remote = at_remote (object d a);
            d = discardAttemptLocked env remote a d;
            d = on_target remote (postpone (le_now env 4) (le_draw env)) d;
            d = close_session a d;
            plan = at_plan (object d a) in
        (d, if lp_InterfaceName plan = [] then None else Some plan)))"

definition cleanup_after :: "durable_config \<Rightarrow> dynamic_env \<Rightarrow> dynamicEngine \<times> LinkPlan option \<Rightarrow> dynamicEngine" where
  "cleanup_after cfg env r = (case r of (d, None) \<Rightarrow> d | (d, Some plan) \<Rightarrow> removeInterface cfg env 0 plan d)"

definition failAttempt ::
  "durable_config \<Rightarrow> dynamic_env \<Rightarrow> nat \<Rightarrow> dynamicAttemptState list \<Rightarrow> dynamicEngine \<Rightarrow> dynamicEngine" where
  "failAttempt cfg env a allowed d =
    (if isCurrentAttemptLocked d a \<and> at_state (object d a) \<in> set allowed
     then cleanup_after cfg env (fallbackLocked env a d) else d)"

definition cancelDeferredCleanupLocked :: "array16 \<Rightarrow> dynamicEngine \<Rightarrow> dynamicEngine" where
  "cancelDeferredCleanupLocked remote d = d\<lparr>en_pendingCleanups := AList.delete remote (en_pendingCleanups d)\<rparr>"

definition deferCleanupLocked :: "array16 \<Rightarrow> LinkPlan \<Rightarrow> dynamicEngine \<Rightarrow> dynamicEngine" where
  "deferCleanupLocked remote plan d =
    (let d = cancelDeferredCleanupLocked remote d in
     d\<lparr>en_pendingCleanups := AList.update remote \<lparr>cu_ident = en_allocated d, cu_plan = plan\<rparr> (en_pendingCleanups d),
       en_allocated := Suc (en_allocated d)\<rparr>)"

definition deferred_cleanup :: "durable_config \<Rightarrow> dynamic_env \<Rightarrow> array16 \<Rightarrow> nat \<Rightarrow> LinkPlan \<Rightarrow> dynamicEngine \<Rightarrow> dynamicEngine" where
  "deferred_cleanup cfg env remote ident plan d =
    (if map_option cu_ident (map_of (en_pendingCleanups d) remote) \<noteq> Some ident then d
     else
       (let d = cancelDeferredCleanupLocked remote d in
        case map_of (en_attempts d) remote of
          Some a \<Rightarrow>
            if lp_InterfaceName (at_plan (object d a)) = lp_InterfaceName plan then d
            else removeInterface cfg env 0 plan d
        | None \<Rightarrow> removeInterface cfg env 0 plan d))"

definition routedSessionClosed :: "durable_config \<Rightarrow> dynamic_env \<Rightarrow> session \<Rightarrow> dynamicEngine \<Rightarrow> dynamicEngine" where
  "routedSessionClosed cfg env s d =
    (case map_of (en_attempts d) (UUID (s_RemoteUID s)) of
       Some a \<Rightarrow>
         if map_option s_ident (at_session (object d a)) = Some (s_ident s) \<and> at_state (object d a) \<in> {dynamicProposing, dynamicProbing}
         then cleanup_after cfg env (fallbackLocked env a d) else d
     | None \<Rightarrow> d)"

section \<open>Connectivity\<close>

definition armConnectivityDeadlineLocked :: "durable_config \<Rightarrow> dynamic_env \<Rightarrow> nat \<Rightarrow> nat \<Rightarrow> dynamicEngine \<Rightarrow> dynamicEngine" where
  "armConnectivityDeadlineLocked cfg env a ctx d =
    (let now = le_now env 5;
         delay = (case committedLink (at_plan (object d a)) d of
                    None \<Rightarrow> dynamicConnectivityTimeout
                  | Some state \<Rightarrow>
                    (let timeout = (case ds_DynamicLinks (dc_desired cfg) of
                           Some plan \<Rightarrow> if 0 < RecoveryTimeout plan then RecoveryTimeout plan else 30 * minute
                         | None \<Rightarrow> 30 * minute) in
                     ms_lastPong state + timeout - now)) in
     modify a (\<lambda>x. x\<lparr>at_deadlineEpoch := at_deadlineEpoch x + 1, at_deadlineTimer := Some (now + max delay 0, ctx)\<rparr>) d)"

definition startConnectivityLocked :: "durable_config \<Rightarrow> dynamic_env \<Rightarrow> nat \<Rightarrow> dynamicEngine \<Rightarrow> dynamicEngine" where
  "startConnectivityLocked cfg env a d =
    (let ctx = en_contexts d;
         d = modify a (\<lambda>x. x\<lparr>at_cancel := Some ctx\<rparr>) (d\<lparr>en_contexts := Suc ctx\<rparr>) in
     armConnectivityDeadlineLocked cfg env a ctx d)"

definition expireConnectivity :: "nat \<Rightarrow> nat \<Rightarrow> u64 \<Rightarrow> dynamicEngine \<Rightarrow> dynamicEngine" where
  "expireConnectivity a ctx epoch d =
    (if isCurrentAttemptLocked d a \<and> at_deadlineEpoch (object d a) = epoch \<and> at_state (object d a) \<noteq> dynamicUp
        \<and> \<not> has (rn_durable d) (at_remote (object d a)) \<and> ctx \<notin> set (en_cancelled d)
     then (case at_cancel (object d a) of None \<Rightarrow> d | Some c \<Rightarrow> cancel_ctx c d) else d)"

definition commitAttemptLocked :: "nat \<Rightarrow> dynamicEngine \<Rightarrow> dynamicEngine" where
  "commitAttemptLocked a d =
    (let d = modify a (\<lambda>x. x\<lparr>at_state := dynamicUp\<rparr>) d;
         d = on_target (at_remote (object d a)) reset_budget d;
         d = close_session a d in
     modify a (\<lambda>x. x\<lparr>at_deadlineTimer := None\<rparr>) d)"

definition dynamic_commitLink ::
  "durable_config \<Rightarrow> dynamic_env \<Rightarrow> nat \<Rightarrow> Result \<Rightarrow> dynamicEngine \<Rightarrow> dynamicEngine \<times> error option" where
  "dynamic_commitLink cfg env a result d =
    (case le_ended env 1 of Some e \<Rightarrow> (d, Some e) | None \<Rightarrow>
     if stopped (en_peers d) \<or> \<not> isCurrentAttemptLocked d a \<or> at_state (object d a) \<notin> {dynamicAttempting, dynamicRecovering}
     then (d, Some (ErrNew ''dynamic Link Attempt is no longer awaiting connectivity''))
     else
       (let (d, failure) =
              (if hasHealthyStatic (rn_states d) (at_remote (object d a)) then (d, Some (ErrNew ''healthy static Link takes priority''))
               else if UUID (res_RemoteUID result) \<noteq> at_remote (object d a)
               then (d, Some (ErrNew ''dynamic Link Node UID does not match routed target''))
               else commitLink cfg env (at_plan (object d a)) True result False d) in
        case failure of
          Some e \<Rightarrow> (cleanup_after cfg env (fallbackLocked env a d), Some e)
        | None \<Rightarrow> (commitAttemptLocked a d, None)))"

definition staticTakesOver :: "durable_config \<Rightarrow> dynamic_env \<Rightarrow> array16 \<Rightarrow> dynamicEngine \<Rightarrow> dynamicEngine" where
  "staticTakesOver cfg env remote d =
    (case map_of (en_attempts d) remote of
       None \<Rightarrow> d
     | Some a \<Rightarrow> failAttempt cfg env a
         [dynamicPreparing, dynamicProposing, dynamicProbing, dynamicAttempting, dynamicRecovering, dynamicUp] d)"

definition control_ready :: "nat \<Rightarrow> bool \<Rightarrow> dynamicEngine \<Rightarrow> dynamicEngine" where
  "control_ready a value d = (if isCurrentAttemptLocked d a then modify a (\<lambda>x. x\<lparr>at_controlReady := value\<rparr>) d else d)"

definition control_failed :: "durable_config \<Rightarrow> dynamic_env \<Rightarrow> nat \<Rightarrow> nat \<Rightarrow> dynamicEngine \<Rightarrow> dynamicEngine" where
  "control_failed cfg env a ctx d =
    (if isCurrentAttemptLocked d a \<and> at_state (object d a) = dynamicUp
     then armConnectivityDeadlineLocked cfg env a ctx (modify a (\<lambda>x. x\<lparr>at_state := dynamicRecovering\<rparr>) d) else d)"

section \<open>Preparation\<close>

definition text_of :: "bytes \<Rightarrow> string" where
  "text_of bs = map (\<lambda>b. char_of (unat b)) bs"

definition nodeUID :: "dynamic_config \<Rightarrow> UID \<Rightarrow> NodeUID" where
  "nodeUID dcfg value = \<lparr>nu_Name = text_of (Name value), nu_UUID = pm_uuid (dy_primitives dcfg) (UUID value)\<rparr>"

definition BuildDynamicLink :: "dynamic_config \<Rightarrow> NodeUID \<Rightarrow> LinkPlan" where
  "BuildDynamicLink dcfg remote =
    (let state = dc_desired (dy_durable dcfg); interfaceName = DynamicInterfaceName remote in
     no_plan\<lparr>lp_Ports := ds_Ports state, ListenPort := Port (ds_Ports state), lp_PeerName := nu_UUID remote,
       lp_InterfaceName := interfaceName,
       OwnerAlias := ''velvet:link:'' @ pm_uuid (dy_primitives dcfg) (ds_UUID state) @ '':dynamic:'' @ nu_UUID remote,
       lp_PrivateKey := ds_PrivateKey state,
       BootstrapAddress := DeriveLinkLocal (pm_mac (dy_primitives dcfg)) (DesiredState.FabricPSK state) (ds_UUID state) (ascii interfaceName)\<rparr>)"

text \<open>\<open>on_calls\<close> runs a call of the system on the list of calls.\<close>

definition on_calls :: "(link_call list \<Rightarrow> link_call list \<times> 'b) \<Rightarrow> dynamicEngine \<Rightarrow> dynamicEngine \<times> 'b" where
  "on_calls f d = (case f (rn_calls d) of (calls, x) \<Rightarrow> (d\<lparr>rn_calls := calls\<rparr>, x))"

text \<open>The plan is returned with the error of the kernel; it is the zero plan when there is none to configure.\<close>

definition ConfigureDynamic ::
  "dynamic_config \<Rightarrow> dynamic_env \<Rightarrow> LinkPlan \<Rightarrow> array32 \<Rightarrow> addrport \<Rightarrow> dynamicEngine \<Rightarrow> dynamicEngine \<times> LinkPlan \<times> error option" where
  "ConfigureDynamic dcfg env plan peerPublicKey endpoint d =
    (if peerPublicKey = dy_publicKey dcfg (lp_PrivateKey plan)
     then (d, no_plan, Some (ErrNew ''dynamic peer WireGuard public key equals local public key''))
     else
     case deriveWGLinkPSK (pm_hkdf (dy_primitives dcfg)) (DesiredState.FabricPSK (dc_desired (dy_durable dcfg)))
            (dy_publicKey dcfg (lp_PrivateKey plan)) peerPublicKey of
       Inl e \<Rightarrow> (d, no_plan, Some e)
     | Inr psk \<Rightarrow>
       (let plan = plan\<lparr>PeerPublicKey := peerPublicKey, PresharedKey := psk,
              lp_Endpoints := (if AP_IsValid endpoint then [dy_endpointText dcfg endpoint] else [])\<rparr> in
        case on_calls (sys_ConfigureLink (de_system env) plan) d of (d, err) \<Rightarrow> (d, plan, err)))"

definition prepareUDP :: "dynamic_config \<Rightarrow> dynamic_env \<Rightarrow> nat \<Rightarrow> addrport \<Rightarrow> dynamicEngine \<Rightarrow> dynamicEngine \<times> udpAttempt result" where
  "prepareUDP dcfg env a hint d =
    (let ctx = en_contexts d; d = d\<lparr>en_contexts := Suc ctx\<rparr> in
     case de_probeKey env of Inl e \<Rightarrow> (cancel_ctx ctx d, Inl e) | Inr key \<Rightarrow>
     case de_probeSource env hint of Inl e \<Rightarrow> (cancel_ctx ctx d, Inl e) | Inr source \<Rightarrow>
     case reserveProbe (de_system env) (AddrPort source (word_of_int (ListenPort (at_plan (object d a)))))
            (ds_Ports (dc_desired (dy_durable dcfg))) (rn_pool d) (rn_calls d) of
       (calls, pool, r) \<Rightarrow>
       (let d = d\<lparr>rn_calls := calls, rn_pool := pool\<rparr> in
        case r of
          Inl e \<Rightarrow> (cancel_ctx ctx d, Inl e)
        | Inr primary \<Rightarrow>
          (d, Inr \<lparr>ua_ctx = ctx, ua_receiverKey = key, ua_primary = primary, ua_remoteKey = 0,
                 ua_remoteEndpoint = NoAddrPort, ua_remotePublicKey = 0\<rparr>)))"

definition primary_port :: "udpAttempt \<Rightarrow> int" where
  "primary_port u = (case lp_socket (ua_primary u) of None \<Rightarrow> 0 | Some endpoint \<Rightarrow> uint (ap_Port endpoint))"

definition own_plan :: "LinkPlan \<Rightarrow> portLease option \<Rightarrow> dynamicEngine \<Rightarrow> dynamicEngine" where
  "own_plan plan lease d = d\<lparr>rn_resources := own plan lease (rn_resources d)\<rparr>"

text \<open>The interface of a fresh attempt; one that takes over a reservation has its interface.\<close>

definition prepare_interface ::
  "dynamic_config \<Rightarrow> dynamic_env \<Rightarrow> session \<Rightarrow> udpAttempt \<Rightarrow> nat \<Rightarrow> dynamicEngine \<Rightarrow> dynamicEngine \<times> error option" where
  "prepare_interface dcfg env s u a d =
    (if lp_InterfaceName (at_plan (object d a)) \<noteq> [] then (d, None)
     else
       (let plan = BuildDynamicLink dcfg (nodeUID dcfg (s_RemoteUID s));
            plan = plan\<lparr>OwnerAlias := OwnerAlias plan @ '':'' @ pm_uuid (dy_primitives dcfg) (at_operationID (object d a)),
                        Probing := True, ListenPort := primary_port u\<rparr>;
            d = own_plan plan None (modify a (\<lambda>x. x\<lparr>at_plan := plan\<rparr>) d) in
        case on_calls (sys_PrepareLink (de_system env) plan) d of
          (d, Inl e) \<Rightarrow> (d, Some e)
        | (d, Inr plan) \<Rightarrow> (own_plan plan None (modify a (\<lambda>x. x\<lparr>at_plan := plan\<rparr>) d), None)))"

definition new_attempt :: "session \<Rightarrow> array16 \<Rightarrow> bool \<Rightarrow> LinkPlan \<Rightarrow> dynamicAttempt" where
  "new_attempt s operationID localProposal reserved =
    \<lparr>at_controlReady = False, at_port = None, at_udp = None, at_remote = UUID (s_RemoteUID s), at_operationID = operationID,
     at_localProposal = localProposal, at_plan = reserved, at_candidate = NoAddrPort, at_session = Some s,
     at_state = dynamicPreparing, at_responseTimer = None, at_deadlineTimer = None, at_deadlineEpoch = 0, at_cancel = None\<rparr>"

definition add_attempt :: "dynamicAttempt \<Rightarrow> dynamicEngine \<Rightarrow> dynamicEngine" where
  "add_attempt x d =
    d\<lparr>en_objects := en_objects d @ [x], en_attempts := AList.update (at_remote x) (length (en_objects d)) (en_attempts d)\<rparr>"

definition prepareAttemptLocked ::
  "dynamic_config \<Rightarrow> dynamic_env \<Rightarrow> session \<Rightarrow> array16 \<Rightarrow> bool \<Rightarrow> LinkPlan \<Rightarrow> dynamicEngine \<Rightarrow> dynamicEngine \<times> nat \<times> error option" where
  "prepareAttemptLocked dcfg env s operationID localProposal reserved d =
    (let a = length (en_objects d); d = add_attempt (new_attempt s operationID localProposal reserved) d in
     case Baseline (rn_evidence d) 1 of None \<Rightarrow> (d, a, Some (ErrNew ''cannot infer Candidate from Endpoint Evidence'')) | Some hint \<Rightarrow>
     case prepareUDP dcfg env a hint d of (d, Inl e) \<Rightarrow> (d, a, Some e) | (d, Inr u) \<Rightarrow>
     case prepare_interface dcfg env s u a (modify a (\<lambda>x. x\<lparr>at_udp := Some u\<rparr>) d) of (d, Some e) \<Rightarrow> (d, a, Some e) | (d, None) \<Rightarrow>
     let d = modify a (\<lambda>x. x\<lparr>at_plan := (at_plan x)\<lparr>ListenPort := primary_port u, Probing := True\<rparr>\<rparr>) d in
     case Baseline (rn_evidence d) (primary_port u) of
       None \<Rightarrow> (d, a, Some (ErrNew ''cannot infer Candidate''))
     | Some candidate \<Rightarrow> (modify a (\<lambda>x. x\<lparr>at_candidate := candidate\<rparr>) d, a, None))"

definition configureAttemptLocked :: "dynamic_config \<Rightarrow> nat \<Rightarrow> Message \<Rightarrow> dynamicEngine \<Rightarrow> dynamicEngine \<times> error option" where
  "configureAttemptLocked dcfg a value d =
    (if \<not> candidateAllowed (dc_desired (dy_durable dcfg)) (m_Endpoint value) then (d, Some (ErrNew ''remote Candidate rejected''))
     else if m_ProbeKey value = 0 then (d, Some (ErrNew ''missing probe receive key''))
     else if m_WGPublicKey value = dy_publicKey dcfg (lp_PrivateKey (at_plan (object d a)))
     then (d, Some (ErrNew ''peer WireGuard key equals local key''))
     else
       (modify a (\<lambda>x. x\<lparr>at_udp := map_option (\<lambda>u. u\<lparr>ua_remoteEndpoint := m_Endpoint value, ua_remoteKey := m_ProbeKey value,
              ua_remotePublicKey := m_WGPublicKey value\<rparr>) (at_udp x),
            at_state := dynamicProbing, at_responseTimer := None\<rparr>) d, None))"

definition startProbeLocked :: "nat \<Rightarrow> dynamicEngine \<Rightarrow> dynamicEngine" where
  "startProbeLocked a d = modify a (\<lambda>x. x\<lparr>at_state := dynamicProbing, at_cancel := map_option ua_ctx (at_udp x)\<rparr>) d"

section \<open>Proposals\<close>

definition dynamicLinkMessage :: "dynamic_config \<Rightarrow> byte \<Rightarrow> dynamicAttempt \<Rightarrow> Message" where
  "dynamicLinkMessage dcfg kind x =
    (message_of kind)\<lparr>m_OperationID := at_operationID x, m_WGPublicKey := dy_publicKey dcfg (lp_PrivateKey (at_plan x)),
      m_Endpoint := at_candidate x, m_ProbeKey := (case at_udp x of None \<Rightarrow> 0 | Some u \<Rightarrow> ua_receiverKey u)\<rparr>"

definition prepareOutbound ::
  "dynamic_config \<Rightarrow> dynamic_env \<Rightarrow> session \<Rightarrow> dynamicEngine \<Rightarrow> dynamicEngine \<times> nat option result" where
  "prepareOutbound dcfg env s d =
    (let cfg = dy_durable dcfg; remoteID = UUID (s_RemoteUID s) in
     if stopped (en_peers d) \<or> le_ended env 2 \<noteq> None then (d, Inl (ErrNew ''context canceled''))
     else
       (let (m, admitted) = admit_outbound (dc_desired cfg) (s_RemoteLoopbackV6 s) remoteID (targets (en_peers d));
            d = d\<lparr>en_peers := (en_peers d)\<lparr>targets := m\<rparr>\<rparr> in
        if \<not> admitted then (d, Inr None)
        else if has (rn_durable d) remoteID \<or> hasDirectLink (rn_states d) remoteID \<or> map_of (en_attempts d) remoteID \<noteq> None
        then (d, Inr None)
        else if maxDynamicLinks \<le> resourceCountLocked d then (d, Inr None)
        else if rn_evidence d = [] then (d, Inr None)
        else
        case de_operationID env of Inl e \<Rightarrow> (d, Inl e) | Inr operationID \<Rightarrow>
        case prepareAttemptLocked dcfg env s operationID True no_plan d of
          (d, a, Some e) \<Rightarrow> (cleanup_after cfg env (fallbackLocked env a d), Inl e)
        | (d, a, None) \<Rightarrow> (modify a (\<lambda>x. x\<lparr>at_state := dynamicProposing\<rparr>) d, Inr (Some a))))"

text \<open>The section after the send: the attempt may have been replaced meanwhile.\<close>

definition proposal_sent :: "durable_config \<Rightarrow> dynamic_env \<Rightarrow> nat \<Rightarrow> dynamicEngine \<Rightarrow> dynamicEngine" where
  "proposal_sent cfg env a d =
    (case de_send env of
       Some e \<Rightarrow> failAttempt cfg env a [dynamicProposing] d
     | None \<Rightarrow>
       if isCurrentAttemptLocked d a \<and> at_state (object d a) = dynamicProposing
       then modify a (\<lambda>x. x\<lparr>at_responseTimer := Some (le_now env 6 + dynamicResponseTimeout)\<rparr>) d else d)"

text \<open>The reply is what is sent on the session; without one the session is closed.\<close>

definition startOutbound ::
  "dynamic_config \<Rightarrow> dynamic_env \<Rightarrow> session \<Rightarrow> dynamicEngine \<Rightarrow> dynamicEngine \<times> Message option \<times> error option" where
  "startOutbound dcfg env s d =
    (case prepareOutbound dcfg env s d of
       (d, Inl e) \<Rightarrow> (d, None, Some e)
     | (d, Inr None) \<Rightarrow> (called (CallCloseSession (s_ident s)) d, None, None)
     | (d, Inr (Some a)) \<Rightarrow>
       (proposal_sent (dy_durable dcfg) env a d, Some (dynamicLinkMessage dcfg DynamicLinkPropose (object d a)), de_send env))"

definition proposingAttemptLocked :: "dynamicEngine \<Rightarrow> session \<Rightarrow> array16 \<Rightarrow> nat option" where
  "proposingAttemptLocked d s operationID =
    (case map_of (en_attempts d) (UUID (s_RemoteUID s)) of
       None \<Rightarrow> None
     | Some a \<Rightarrow>
       if map_option s_ident (at_session (object d a)) = Some (s_ident s) \<and> at_operationID (object d a) = operationID
          \<and> at_state (object d a) = dynamicProposing
       then Some a else None)"

definition stale_proposal :: "dynamic_config \<Rightarrow> dynamicAttempt \<Rightarrow> Message \<Rightarrow> bool" where
  "stale_proposal dcfg current value =
    (m_OperationID value = at_operationID current \<or> m_ProbeKey value = 0
     \<or> m_WGPublicKey value = dy_publicKey dcfg (ds_PrivateKey (dc_desired (dy_durable dcfg))))"

text \<open>
  The place of an incoming proposal: refused, or the reference it replaces and the interface it
  takes over.  A recovering link is retired; of two crossing proposals that of the smaller identity
  stays.
\<close>

definition replace_current ::
  "dynamic_config \<Rightarrow> dynamic_env \<Rightarrow> session \<Rightarrow> Message \<Rightarrow> dynamicEngine \<Rightarrow> dynamicEngine \<times> LinkPlan option" where
  "replace_current dcfg env s value d =
    (let cfg = dy_durable dcfg; remoteID = UUID (s_RemoteUID s) in
     case map_of (en_attempts d) remoteID of
       None \<Rightarrow> (d, Some no_plan)
     | Some c \<Rightarrow>
       if at_state (object d c) = dynamicRecovering then
         (if stale_proposal dcfg (object d c) value then (d, None)
          else
            (let d = discardAttemptLocked env remoteID c d;
                 d = removeInterface cfg env 1 (at_plan (object d c)) d in
             if map_of (rn_resources d) (OwnerAlias (at_plan (object d c))) \<noteq> None \<or> stopped (en_peers d) \<or> le_ended env 3 \<noteq> None
                \<or> has (rn_durable d) remoteID \<or> hasDirectLink (rn_states d) remoteID
             then (d, None) else (d, Some no_plan)))
       else if at_state (object d c) \<noteq> dynamicProposing \<or> \<not> at_localProposal (object d c)
               \<or> bytes_Compare (be_bytes 16 (own_id cfg)) (be_bytes 16 remoteID) < 0
       then (d, None)
       else
         (let plan = at_plan (object d c);
              d = discardAttemptLocked env remoteID c d;
              d = (case at_session (object d c) of
                     Some s' \<Rightarrow> if s_ident s' \<noteq> s_ident s then called (CallCloseSession (s_ident s')) d else d
                   | None \<Rightarrow> d) in
          (d, Some plan)))"

definition prepareInbound :: "dynamic_config \<Rightarrow> dynamic_env \<Rightarrow> session \<Rightarrow> Message \<Rightarrow> dynamicEngine \<Rightarrow> dynamicEngine \<times> nat option" where
  "prepareInbound dcfg env s value d =
    (let cfg = dy_durable dcfg; remoteID = UUID (s_RemoteUID s) in
     if stopped (en_peers d) \<or> le_ended env 2 \<noteq> None \<or> \<not> allowsInbound (dc_desired cfg) \<or> has (rn_durable d) remoteID
        \<or> \<not> candidateAllowed (dc_desired cfg) (m_Endpoint value) \<or> hasDirectLink (rn_states d) remoteID
     then (d, None)
     else if map_of (en_attempts d) remoteID = None \<and> map_of (en_pendingCleanups d) remoteID = None
             \<and> maxDynamicLinks \<le> resourceCountLocked d
     then (d, None)
     else if rn_evidence d = [] then (d, None)
     else
     case replace_current dcfg env s value d of
       (d, None) \<Rightarrow> (d, None)
     | (d, Some plan) \<Rightarrow>
       (let plan = (case map_of (en_pendingCleanups d) remoteID of
                      Some cleanup \<Rightarrow> if lp_InterfaceName plan = [] then cu_plan cleanup else plan
                    | None \<Rightarrow> plan);
            d = cancelDeferredCleanupLocked remoteID d;
            (d, a, err) = prepareAttemptLocked dcfg env s (m_OperationID value) False plan d;
            (d, err) = (case err of None \<Rightarrow> configureAttemptLocked dcfg a value d | Some e \<Rightarrow> (d, Some e)) in
        case err of
          Some e \<Rightarrow> (cleanup_after cfg env (fallbackLocked env a d), None)
        | None \<Rightarrow> (d, Some a)))"

definition accept_sent :: "durable_config \<Rightarrow> dynamic_env \<Rightarrow> nat \<Rightarrow> dynamicEngine \<Rightarrow> dynamicEngine" where
  "accept_sent cfg env a d =
    (case de_send env of
       Some e \<Rightarrow> failAttempt cfg env a [dynamicProbing] d
     | None \<Rightarrow> if isCurrentAttemptLocked d a then startProbeLocked a d else d)"

definition decline_message :: "durable_config \<Rightarrow> u64 \<Rightarrow> array16 \<Rightarrow> Message" where
  "decline_message cfg revision operationID =
    (let decline = (message_of DynamicLinkDecline)\<lparr>m_OperationID := operationID\<rparr> in
     if allowsInbound (dc_desired cfg) then decline
     else decline\<lparr>m_DeclineReason := DeclinePolicy, m_Policy := Some \<lparr>Revision = revision, Accept = False\<rparr>\<rparr>)"

definition handleDynamicProposal ::
  "dynamic_config \<Rightarrow> dynamic_env \<Rightarrow> session \<Rightarrow> Message \<Rightarrow> dynamicEngine \<Rightarrow> dynamicEngine \<times> Message \<times> error option" where
  "handleDynamicProposal dcfg env s value d =
    (case prepareInbound dcfg env s value d of
       (d, None) \<Rightarrow> (d, decline_message (dy_durable dcfg) (policyRevision (en_peers d)) (m_OperationID value), de_send env)
     | (d, Some a) \<Rightarrow>
       (accept_sent (dy_durable dcfg) env a d, dynamicLinkMessage dcfg DynamicLinkAccept (object d a), de_send env))"

definition handleAccept :: "dynamic_config \<Rightarrow> dynamic_env \<Rightarrow> session \<Rightarrow> Message \<Rightarrow> dynamicEngine \<Rightarrow> dynamicEngine" where
  "handleAccept dcfg env s value d =
    (case proposingAttemptLocked d s (m_OperationID value) of
       None \<Rightarrow> d
     | Some a \<Rightarrow>
       (case configureAttemptLocked dcfg a value d of
          (d, Some e) \<Rightarrow> cleanup_after (dy_durable dcfg) env (fallbackLocked env a d)
        | (d, None) \<Rightarrow> startProbeLocked a d))"

definition handleDynamicDecline :: "dynamic_env \<Rightarrow> session \<Rightarrow> Message \<Rightarrow> dynamicEngine \<Rightarrow> dynamicEngine" where
  "handleDynamicDecline env s value d =
    (case proposingAttemptLocked d s (m_OperationID value) of
       None \<Rightarrow> d
     | Some a \<Rightarrow>
       (let m = targets (en_peers d);
            m = (case map_of m (s_RemoteLoopbackV6 s) of
                   None \<Rightarrow> m | Some t \<Rightarrow> AList.update (s_RemoteLoopbackV6 s) (mergePolicyLocked t (m_Policy value)) m);
            d = d\<lparr>en_peers := (en_peers d)\<lparr>targets := m\<rparr>\<rparr> in
        case fallbackLocked env a d of
          (d, None) \<Rightarrow> d
        | (d, Some plan) \<Rightarrow> deferCleanupLocked (at_remote (object d a)) plan d))"

section \<open>From the probe to the link\<close>

text \<open>The two sections of the handoff, before and after both ends have said that they receive.\<close>

definition awaits_handoff :: "dynamicEngine \<Rightarrow> nat \<Rightarrow> udpAttempt \<Rightarrow> bool" where
  "awaits_handoff d a u = (isCurrentAttemptLocked d a \<and> at_state (object d a) = dynamicProbing \<and> ua_ctx u \<notin> set (en_cancelled d))"

definition handoff_receive ::
  "dynamic_config \<Rightarrow> dynamic_env \<Rightarrow> nat \<Rightarrow> addrport \<Rightarrow> addrport \<Rightarrow> dynamicEngine \<Rightarrow> dynamicEngine \<times> LinkPlan result" where
  "handoff_receive dcfg env a localEndpoint endpoint d =
    (case de_probeSource env endpoint of Inl e \<Rightarrow> (d, Inl e) | Inr source \<Rightarrow>
     if source \<noteq> ap_Addr localEndpoint then (d, Inl (ErrNew ''handoff route source changed''))
     else
     case at_udp (object d a) of None \<Rightarrow> (d, Inl (Panic ''nil pointer dereference'')) | Some u \<Rightarrow>
     if \<not> awaits_handoff d a u then (d, Inl (ErrNew ''context canceled''))
     else
       (let (calls, primary) = probe_handoff (de_system env) (ua_primary u) (rn_calls d);
            plan = at_plan (object d a);
            d = modify a (\<lambda>x. x\<lparr>at_udp := Some (u\<lparr>ua_primary := primary\<rparr>), at_port := Some (lp_lease primary)\<rparr>) (d\<lparr>rn_calls := calls\<rparr>);
            d = own_plan plan (Some (lp_lease primary)) d in
        case ConfigureDynamic dcfg env (plan\<lparr>Probing := False, ReceiveOnly := True\<rparr>) (ua_remotePublicKey u) endpoint d of
          (d, _, Some e) \<Rightarrow> (d, Inl e)
        | (d, plan, None) \<Rightarrow> (modify a (\<lambda>x. x\<lparr>at_plan := plan\<rparr>) d, Inr plan)))"

definition handoff_connect ::
  "dynamic_config \<Rightarrow> dynamic_env \<Rightarrow> nat \<Rightarrow> LinkPlan \<Rightarrow> addrport \<Rightarrow> dynamicEngine \<Rightarrow> dynamicEngine \<times> error option" where
  "handoff_connect dcfg env a plan endpoint d =
    (case at_udp (object d a) of None \<Rightarrow> (d, Some (Panic ''nil pointer dereference'')) | Some u \<Rightarrow>
     if \<not> awaits_handoff d a u then (d, Some (ErrNew ''context canceled''))
     else
       (case ConfigureDynamic dcfg env (plan\<lparr>ReceiveOnly := False\<rparr>) (ua_remotePublicKey u) endpoint d of
          (d, _, Some e) \<Rightarrow> (d, Some e)
        | (d, plan, None) \<Rightarrow>
          (startConnectivityLocked (dy_durable dcfg) env a
             (modify a (\<lambda>x. x\<lparr>at_plan := plan, at_state := dynamicAttempting\<rparr>) d), None)))"

text \<open>The end of \<^verbatim>\<open>runProbe\<close>: the sockets are closed, and a failure ends the attempt.\<close>

definition probe_finished :: "durable_config \<Rightarrow> dynamic_env \<Rightarrow> nat \<Rightarrow> error option \<Rightarrow> dynamicEngine \<Rightarrow> dynamicEngine" where
  "probe_finished cfg env a err d =
    (let d = (if err = None then d else failAttempt cfg env a [dynamicProbing] d) in
     case at_udp (object d a) of None \<Rightarrow> d | Some u \<Rightarrow> udp_close env u d)"

section \<open>Restoration and stop\<close>

definition restored_attempt :: "durableRecord \<Rightarrow> LinkPlan \<Rightarrow> portLease \<Rightarrow> bool \<Rightarrow> dynamicAttempt" where
  "restored_attempt record plan lease localProposal =
    \<lparr>at_controlReady = False, at_port = Some lease, at_udp = None, at_remote = UUID (dr_Peer record), at_operationID = dr_ID record,
     at_localProposal = localProposal, at_plan = plan, at_candidate = NoAddrPort, at_session = None,
     at_state = dynamicAttempting, at_responseTimer = None, at_deadlineTimer = None, at_deadlineEpoch = 0, at_cancel = None\<rparr>"

definition unprepare :: "dynamic_env \<Rightarrow> LinkPlan \<Rightarrow> dynamicEngine \<Rightarrow> dynamicEngine" where
  "unprepare env plan d =
    (let d = called (CallRemoveDynamic plan) d;
         (resources, pool) = removed plan (le_remove env 0) (rn_resources d, rn_pool d) in
     d\<lparr>rn_resources := resources, rn_pool := pool\<rparr>)"

definition restore_link ::
  "dynamic_config \<Rightarrow> dynamic_env \<Rightarrow> durableRecord \<Rightarrow> LinkPlan \<Rightarrow> portLease \<Rightarrow> dynamicEngine \<Rightarrow> dynamicEngine \<times> error option" where
  "restore_link dcfg env record plan lease d =
    (let cfg = dy_durable dcfg in
     case on_calls (sys_PrepareLink (de_system env) plan) (own_plan plan (Some lease) d) of
       (d, Inl e) \<Rightarrow> (unprepare env plan d, Some e)
     | (d, Inr plan) \<Rightarrow>
       (let endpoint = (if active (dc_desired cfg) then fixedFor record (UUID (dr_Peer record)) else NoAddrPort) in
        case ConfigureDynamic dcfg env plan (dr_PublicKey record) endpoint d of
          (d, plan, Some e) \<Rightarrow> (unprepare env plan d, Some e)
        | (d, plan, None) \<Rightarrow>
          (case confirmRestore cfg (le_durable env) record (ListenPort plan) (rn_durable d) of
             (m, Some e) \<Rightarrow> (unprepare env plan (d\<lparr>rn_durable := m\<rparr>), Some e)
           | (m, None) \<Rightarrow>
             (let d = own_plan plan (Some lease) (d\<lparr>rn_durable := m\<rparr>);
                  a = length (en_objects d);
                  d = add_attempt (restored_attempt record plan lease (AP_IsValid endpoint)) d in
              (startConnectivityLocked cfg env a d, None)))))"

text \<open>The socket that reserves the port of a restored link; it is closed before the kernel takes the port.\<close>

definition restore_bind :: "('n, 'k) system \<Rightarrow> int \<Rightarrow> 'n \<times> 'k option \<Rightarrow> ('n \<times> 'k option) \<times> int result" where
  "restore_bind sys port st =
    (case st of (n, socket) \<Rightarrow>
     case sys_listen_any sys port (close_opt sys socket n) of
       (n, Inl e) \<Rightarrow> ((n, None), Inl e)
     | (n, Inr k) \<Rightarrow> ((n, Some k), Inr (uint (sys_port sys k))))"

definition restore_port :: "dynamic_env \<Rightarrow> PortChoice \<Rightarrow> int \<Rightarrow> dynamicEngine \<Rightarrow> dynamicEngine \<times> portLease result" where
  "restore_port env choice sticky d =
    (let sys = de_system env;
         (calls, start) = (if First (Range choice) \<noteq> 0
           then sys_rand sys (Last (Range choice) - First (Range choice) + 1) (rn_calls d) else (rn_calls d, 0))
     in case bind_port (restore_bind sys) choice sticky start (rn_pool d) (calls, None) of
          ((calls, socket), pool, r) \<Rightarrow> (d\<lparr>rn_calls := close_opt sys socket calls, rn_pool := pool\<rparr>, r))"

definition restore :: "dynamic_config \<Rightarrow> dynamic_env \<Rightarrow> durableRecord \<Rightarrow> dynamicEngine \<Rightarrow> dynamicEngine \<times> error option" where
  "restore dcfg env record d =
    (let cfg = dy_durable dcfg; remoteID = UUID (dr_Peer record) in
     if stopped (en_peers d) \<or> le_ended env 2 \<noteq> None \<or> \<not> allowsInbound (dc_desired cfg) \<or> \<not> has (rn_durable d) remoteID then (d, None)
     else if map_of (en_attempts d) remoteID \<noteq> None \<or> hasDirectLink (rn_states d) remoteID then (d, None)
     else if maxDynamicLinks \<le> resourceCountLocked d then (d, Some (ErrNew ''automatic Link resource limit reached''))
     else
     case de_operationID env of Inl e \<Rightarrow> (d, Some e) | Inr generation \<Rightarrow>
       (let plan = BuildDynamicLink dcfg (nodeUID dcfg (dr_Peer record));
            plan = plan\<lparr>OwnerAlias := OwnerAlias plan @ '':'' @ pm_uuid (dy_primitives dcfg) generation\<rparr>;
            choice = (if AP_IsValid (fixedFor record (own_id cfg)) then \<lparr>Port = dr_LocalPort record, Range = no_range\<rparr>
                      else ds_Ports (dc_desired cfg)) in
        case restore_port env choice (dr_LocalPort record) d of
          (d, Inl e) \<Rightarrow> (d, Some e)
        | (d, Inr lease) \<Rightarrow> restore_link dcfg env record (plan\<lparr>ListenPort := pl_port lease\<rparr>) lease d))"

definition removeFailed :: "durable_config \<Rightarrow> dynamic_env \<Rightarrow> array16 \<Rightarrow> dynamicEngine \<Rightarrow> dynamicEngine" where
  "removeFailed cfg env peer d =
    (case map_of (en_attempts d) peer of
       None \<Rightarrow> d | Some a \<Rightarrow> failAttempt cfg env a [dynamicAttempting, dynamicRecovering] d)"

text \<open>\<open>ready\<close> is what the kernel says of the interface, \<^verbatim>\<open>LinkReady\<close>.\<close>

definition retireUnavailable :: "durable_config \<Rightarrow> dynamic_env \<Rightarrow> (LinkPlan \<Rightarrow> bool) \<Rightarrow> array16 \<Rightarrow> dynamicEngine \<Rightarrow> dynamicEngine" where
  "retireUnavailable cfg env ready peer d =
    (case map_of (en_attempts d) peer of
       None \<Rightarrow> d
     | Some a \<Rightarrow>
       if at_state (object d a) \<in> {dynamicAttempting, dynamicRecovering, dynamicUp}
          \<and> lp_InterfaceName (at_plan (object d a)) \<noteq> [] \<and> \<not> ready (at_plan (object d a)) \<and> le_ended env 2 = None
       then failAttempt cfg env a [dynamicAttempting, dynamicRecovering, dynamicUp] d else d)"

definition localReady :: "durable_config \<Rightarrow> (LinkPlan \<Rightarrow> bool) \<Rightarrow> durableRecord \<Rightarrow> dynamicEngine \<Rightarrow> bool" where
  "localReady cfg ready record d =
    (case map_of (en_attempts d) (UUID (dr_Peer record)) of
       None \<Rightarrow> False
     | Some a \<Rightarrow>
       (let plan = at_plan (object d a) in
        at_controlReady (object d a) \<and> at_state (object d a) \<noteq> dynamicStopped \<and> lp_InterfaceName plan \<noteq> []
        \<and> (\<not> AP_IsValid (fixedFor record (own_id cfg)) \<or> ListenPort plan = dr_LocalPort record) \<and> ready plan))"

text \<open>A link adopted from a receipt: its kernel interface is kept, and an automatic link recovers.\<close>

definition adopted_attempt :: "durable_config \<Rightarrow> warmLink \<Rightarrow> LinkPlan \<Rightarrow> portLease \<Rightarrow> dynamicAttempt" where
  "adopted_attempt cfg receipt plan lease =
    \<lparr>at_controlReady = False, at_port = Some lease, at_udp = None, at_remote = UUID (res_RemoteUID (wl_Result receipt)), at_operationID = 0,
     at_localProposal = active (dc_desired cfg), at_plan = plan, at_candidate = NoAddrPort, at_session = None,
     at_state = dynamicRecovering, at_responseTimer = None, at_deadlineTimer = None, at_deadlineEpoch = 0, at_cancel = None\<rparr>"

definition adopted_state :: "durable_config \<Rightarrow> warmLink \<Rightarrow> LinkPlan \<Rightarrow> materializedState" where
  "adopted_state cfg receipt plan =
    (let result = wl_Result receipt; remote = UUID (res_RemoteUID result) in
     \<lparr>ms_desired = plan, ms_local = fst (EndpointAddresses (res_Proposal result) (own_id cfg) remote), ms_peers = [res_RemoteLoopbackV6 result],
      ms_remote = remote, ms_dynamic = \<not> wl_Static receipt, ms_active = False, ms_committed = True, ms_lastPong = wl_LastPong receipt\<rparr>)"

definition adopt_link :: "durable_config \<Rightarrow> dynamic_env \<Rightarrow> warmLink \<Rightarrow> LinkPlan \<Rightarrow> portLease \<Rightarrow> dynamicEngine \<Rightarrow> dynamicEngine \<times> error option" where
  "adopt_link cfg env receipt plan lease d =
    (let state = adopted_state cfg receipt plan; d = called (CallKeepLinkAlive plan) d in
     case le_keepAlive env of Some e \<Rightarrow> (d, Some e) | None \<Rightarrow>
     case materializeLink env 0 plan (ms_local state) (ms_peers state) d of
       (d, Some e) \<Rightarrow> (d, Some e)
     | (d, None) \<Rightarrow>
       (let d = SetLinkState cfg (lp_InterfaceName plan) True (ms_local state)
                  (d\<lparr>rn_states := AList.update (lp_InterfaceName plan) state (rn_states d)\<rparr>) in
        if wl_Static receipt then (d, None)
        else
          (let a = length (en_objects d); d = add_attempt (adopted_attempt cfg receipt plan lease) d in
           (startConnectivityLocked cfg env a d, None))))"

fun adoptWarmLinks :: "durable_config \<Rightarrow> ((dynamic_env \<times> warmLink \<times> LinkPlan \<times> portLease) list) \<Rightarrow> dynamicEngine \<Rightarrow> dynamicEngine \<times> error option" where
  "adoptWarmLinks cfg [] d = (d, None)"
| "adoptWarmLinks cfg ((env, receipt, plan, lease) # adopted) d =
    (case adopt_link cfg env receipt plan lease d of
       (d, Some e) \<Rightarrow> (d, Some e)
     | (d, None) \<Rightarrow> adoptWarmLinks cfg adopted d)"

definition stop_plans :: "dynamicEngine \<Rightarrow> LinkPlan list" where
  "stop_plans d =
    map (\<lambda>(_, a). at_plan (object d a)) (filter (\<lambda>(_, a). committedLink (at_plan (object d a)) d = None) (en_attempts d))
    @ map (\<lambda>(_, cleanup). cu_plan cleanup) (en_pendingCleanups d)"

text \<open>The lock is released while the workers end; \<open>rest\<close> is what they do to the state meanwhile.\<close>

definition stop_engine ::
  "durable_config \<Rightarrow> dynamic_env \<Rightarrow> (dynamicEngine \<Rightarrow> dynamicEngine) \<Rightarrow> dynamicEngine \<Rightarrow> dynamicEngine" where
  "stop_engine cfg env rest d =
    (let plans = stop_plans d;
         d = fold (\<lambda>(_, a). stopAttempt env a) (en_attempts d) (d\<lparr>en_peers := (en_peers d)\<lparr>stopped := True\<rparr>\<rparr>);
         d = rest (d\<lparr>en_attempts := [], en_pendingCleanups := []\<rparr>) in
     fold (\<lambda>(i, plan). removeInterface cfg env i plan) (enumerate 0 plans) d)"

end
