(* ===== verification/Attempt_Table.thy ===== *)
theory Attempt_Table
  imports Dynamic_Attempts
begin

text \<open>
  The table of attempts through every operation of \<open>Dynamic_Attempts\<close>: a peer has at most one attempt
  that is not stopped, and it is the one the table names; an object only moves along the life cycle
  of an attempt and never leaves the stopped state; and no operation takes the node past its limit
  on attempts, deferred removals and removals that failed.  The step lemmas are stated with three
  relations: \<open>quiet\<close> leaves the table alone, \<open>moves k\<close> adds at most \<open>k\<close> resources, \<open>safe\<close> keeps the limit.
\<close>

section \<open>What the operations leave alone\<close>

text \<open>The part of the state the attempts are kept in.\<close>

definition same_core :: "dynamicEngine \<Rightarrow> dynamicEngine \<Rightarrow> bool" where
  "same_core d d' = (en_attempts d' = en_attempts d \<and> en_objects d' = en_objects d
     \<and> en_pendingCleanups d' = en_pendingCleanups d \<and> rn_resources d' = rn_resources d)"

lemma same_core_refl [simp]: "same_core d d"
  by (simp add: same_core_def)

lemma same_coreD:
  "same_core d d' \<Longrightarrow> en_attempts d' = en_attempts d" "same_core d d' \<Longrightarrow> en_objects d' = en_objects d"
  "same_core d d' \<Longrightarrow> en_pendingCleanups d' = en_pendingCleanups d" "same_core d d' \<Longrightarrow> rn_resources d' = rn_resources d"
  by (simp_all add: same_core_def)

named_theorems core_simps \<open>fields an operation leaves alone\<close>

lemma cancel_ctx_core [core_simps]:
  "en_attempts (cancel_ctx c d) = en_attempts d" "en_objects (cancel_ctx c d) = en_objects d"
  "en_pendingCleanups (cancel_ctx c d) = en_pendingCleanups d" "rn_resources (cancel_ctx c d) = rn_resources d"
  by (simp_all add: cancel_ctx_def)

lemma called_core [core_simps]:
  "en_attempts (called c d) = en_attempts d" "en_objects (called c d) = en_objects d"
  "en_pendingCleanups (called c d) = en_pendingCleanups d"
  by (simp_all add: called_def)

lemma SetLinkState_core [core_simps]:
  "en_attempts (SetLinkState cfg name up local d) = en_attempts d" "en_objects (SetLinkState cfg name up local d) = en_objects d"
  "en_pendingCleanups (SetLinkState cfg name up local d) = en_pendingCleanups d"
  by (simp_all add: SetLinkState_def core_simps)

lemma udp_close_core [core_simps]:
  "en_attempts (udp_close env u d) = en_attempts d" "en_objects (udp_close env u d) = en_objects d"
  "en_pendingCleanups (udp_close env u d) = en_pendingCleanups d" "rn_resources (udp_close env u d) = rn_resources d"
  by (simp_all add: udp_close_def Let_def core_simps split: prod.split)

lemma on_target_core [core_simps]:
  "en_attempts (on_target remote f d) = en_attempts d" "en_objects (on_target remote f d) = en_objects d"
  "en_pendingCleanups (on_target remote f d) = en_pendingCleanups d" "rn_resources (on_target remote f d) = rn_resources d"
  by (simp_all add: on_target_def)

lemma close_session_core [core_simps]:
  "en_attempts (close_session a d) = en_attempts d" "en_objects (close_session a d) = en_objects d"
  "en_pendingCleanups (close_session a d) = en_pendingCleanups d" "rn_resources (close_session a d) = rn_resources d"
  by (simp_all add: close_session_def core_simps split: option.split)

lemma modify_core [core_simps]:
  "en_attempts (modify a f d) = en_attempts d" "en_pendingCleanups (modify a f d) = en_pendingCleanups d"
  "rn_resources (modify a f d) = rn_resources d" "en_objects (modify a f d) = (en_objects d)[a := f (en_objects d ! a)]"
  by (simp_all add: modify_def object_def)

lemma forgetWarmLink_core [core_simps]:
  "en_attempts (forgetWarmLink env i plan d) = en_attempts d" "en_objects (forgetWarmLink env i plan d) = en_objects d"
  "en_pendingCleanups (forgetWarmLink env i plan d) = en_pendingCleanups d"
  by (simp_all add: forgetWarmLink_def split: option.split)

lemma removeDynamicState_core [core_simps]:
  "en_attempts (removeDynamicState cfg env i plan d) = en_attempts d" "en_objects (removeDynamicState cfg env i plan d) = en_objects d"
  "en_pendingCleanups (removeDynamicState cfg env i plan d) = en_pendingCleanups d"
  "rn_resources (removeDynamicState cfg env i plan d) = rn_resources d"
  by (simp_all add: removeDynamicState_def Let_def core_simps split: option.split)

lemma removeInterface_core [core_simps]:
  "en_attempts (removeInterface cfg env i plan d) = en_attempts d" "en_objects (removeInterface cfg env i plan d) = en_objects d"
  "en_pendingCleanups (removeInterface cfg env i plan d) = en_pendingCleanups d"
  by (simp_all add: removeInterface_def Let_def core_simps split: prod.split option.split)

lemma materializeLink_core: "same_core d (fst (materializeLink env i plan local peers d))"
  by (simp add: materializeLink_def same_core_def core_simps)

lemma commitLink_core: "same_core d (fst (commitLink cfg env plan dynamic result onCommit d))"
  by (simp add: commitLink_def materializeLink_def same_core_def core_simps Let_def split: option.split)

lemma on_calls_core: "on_calls f d = (d', x) \<Longrightarrow> same_core d d'"
  by (auto simp: on_calls_def same_core_def split: prod.splits)

lemma ConfigureDynamic_core: "ConfigureDynamic dcfg env plan key endpoint d = (d', x) \<Longrightarrow> same_core d d'"
  by (auto simp: ConfigureDynamic_def Let_def dest!: on_calls_core split: if_splits sum.splits prod.splits)

lemma prepareUDP_core: "prepareUDP dcfg env a hint d = (d', x) \<Longrightarrow> same_core d d'"
  by (auto simp: prepareUDP_def Let_def same_core_def core_simps split: sum.splits prod.splits)

lemma arm_core [core_simps]:
  "en_attempts (armConnectivityDeadlineLocked cfg env a ctx d) = en_attempts d"
  "en_pendingCleanups (armConnectivityDeadlineLocked cfg env a ctx d) = en_pendingCleanups d"
  "rn_resources (armConnectivityDeadlineLocked cfg env a ctx d) = rn_resources d"
  by (simp_all add: armConnectivityDeadlineLocked_def Let_def core_simps)

lemma start_core [core_simps]:
  "en_attempts (startConnectivityLocked cfg env a d) = en_attempts d"
  "en_pendingCleanups (startConnectivityLocked cfg env a d) = en_pendingCleanups d"
  "rn_resources (startConnectivityLocked cfg env a d) = rn_resources d"
  by (simp_all add: startConnectivityLocked_def Let_def core_simps)

section \<open>The table of attempts\<close>

text \<open>What is kept of an object: the peer it is for and its state.\<close>

definition profile :: "dynamicEngine \<Rightarrow> (array16 \<times> dynamicAttemptState) list" where
  "profile d = map (\<lambda>x. (at_remote x, at_state x)) (en_objects d)"

lemma same_core_profile: "same_core d d' \<Longrightarrow> profile d' = profile d"
  by (simp add: same_core_def profile_def)

lemma profile_modify: "profile (modify a f d) = (profile d)[a := (at_remote (f (object d a)), at_state (f (object d a)))]"
  by (simp add: profile_def modify_def map_update)

lemma profile_same: "at_remote (f (object d a)) = at_remote (object d a) \<Longrightarrow> at_state (f (object d a)) = at_state (object d a) \<Longrightarrow>
    profile (modify a f d) = profile d"
  by (simp add: profile_def modify_def object_def list_update_same_conv map_update)
     (metis (no_types, lifting) list_update_beyond list_update_id map_update not_le_imp_less)

lemma profile_objects: "en_objects d' = en_objects d \<Longrightarrow> profile d' = profile d"
  by (simp add: profile_def)

lemma profile_start [simp]: "profile (startConnectivityLocked cfg env a d) = profile d"
  by (simp add: startConnectivityLocked_def armConnectivityDeadlineLocked_def Let_def profile_same)
     (simp add: profile_def)

lemma profile_arm [simp]: "profile (armConnectivityDeadlineLocked cfg env a ctx d) = profile d"
  by (simp add: armConnectivityDeadlineLocked_def Let_def profile_same)

definition table_good :: "(array16 \<times> nat) list \<Rightarrow> (array16 \<times> dynamicAttemptState) list \<Rightarrow> bool" where
  "table_good t p =
    (distinct (map fst t) \<and> (\<forall>(u, a) \<in> set t. a < length p \<and> fst (p ! a) = u \<and> snd (p ! a) \<noteq> dynamicStopped)
     \<and> (\<forall>a < length p. snd (p ! a) \<noteq> dynamicStopped \<longrightarrow> map_of t (fst (p ! a)) = Some a))"

text \<open>The life of an attempt, but for the handoff of a probe to the kernel, which only its own worker makes.\<close>

definition edge :: "dynamicAttemptState \<Rightarrow> dynamicAttemptState \<Rightarrow> bool" where
  "edge s t = (s = t \<or> s \<noteq> dynamicStopped \<and> t = dynamicStopped
     \<or> (s, t) \<in> {(dynamicPreparing, dynamicProposing), (dynamicPreparing, dynamicProbing), (dynamicProposing, dynamicProbing),
                 (dynamicAttempting, dynamicUp), (dynamicUp, dynamicRecovering), (dynamicRecovering, dynamicUp)})"

definition advances :: "(array16 \<times> dynamicAttemptState) list \<Rightarrow> (array16 \<times> dynamicAttemptState) list \<Rightarrow> bool" where
  "advances p p' = (length p \<le> length p' \<and> (\<forall>a < length p. fst (p' ! a) = fst (p ! a) \<and> edge (snd (p ! a)) (snd (p' ! a))))"

definition cleanups :: "resources \<Rightarrow> nat" where
  "cleanups m = length (filter (\<lambda>(_, resource). lr_cleanup resource) m)"

definition count :: "dynamicEngine \<Rightarrow> nat" where
  "count d = length (en_attempts d) + length (en_pendingCleanups d) + cleanups (rn_resources d)"

lemma resourceCount: "resourceCountLocked d = int (count d)"
  by (simp add: resourceCountLocked_def count_def cleanups_def)

text \<open>The plan of a resource bears the alias it is kept under.\<close>

definition owned :: "resources \<Rightarrow> bool" where
  "owned m = list_all (\<lambda>(a, r). OwnerAlias (lr_plan r) = a) m"

definition engine_good :: "dynamicEngine \<Rightarrow> bool" where
  "engine_good d = (table_good (en_attempts d) (profile d) \<and> distinct (map fst (en_pendingCleanups d))
     \<and> distinct (map fst (rn_resources d)) \<and> owned (rn_resources d))"

lemma edge_refl [simp]: "edge s s"
  by (simp add: edge_def)

lemma edge_stop [simp]: "edge s dynamicStopped"
  by (simp add: edge_def)

lemma advances_refl [simp]: "advances p p"
  by (simp add: advances_def)

lemma advances_update: "edge (snd (p ! a)) s \<Longrightarrow> advances p (p[a := (fst (p ! a), s)])"
  by (cases "a < length p") (auto simp: advances_def nth_list_update)

lemma advances_add: "advances p p' \<Longrightarrow> advances p (p' @ [x])"
  by (auto simp: advances_def nth_append)

lemma length_delete: "distinct (map fst t) \<Longrightarrow> map_of t u = Some a \<Longrightarrow> Suc (length (AList.delete u t)) = length t"
proof (induction t)
  case (Cons x t)
  show ?case
  proof (cases "fst x = u")
    case True
    with Cons.prems have "AList.delete u t = t"
      by (intro AList.delete_id) auto
    with True show ?thesis by simp
  qed (use Cons in auto)
qed simp

lemma length_delete_le: "length (AList.delete u t) \<le> length t"
  by (simp add: AList.delete_eq)

lemma length_update_le: "length (AList.update u a t) \<le> Suc (length t)"
  by (induction t) auto

lemma distinct_delete: "distinct (map fst t) \<Longrightarrow> distinct (map fst (AList.delete u t))"
  by (simp add: AList.delete_eq distinct_map_filter)

lemma profile_length [simp]: "length (profile d) = length (en_objects d)"
  by (simp add: profile_def)

lemma profile_nth: "a < length (en_objects d) \<Longrightarrow> profile d ! a = (at_remote (object d a), at_state (object d a))"
  by (simp add: profile_def object_def)

lemma table_stop:
  assumes "table_good t p" "map_of t u = Some a"
  shows "table_good (AList.delete u t) (p[a := (u, dynamicStopped)])"
proof -
  from assms have a: "a < length p" "fst (p ! a) = u" by (auto simp: table_good_def dest: map_of_SomeD)
  have other: "v \<noteq> u \<Longrightarrow> b \<noteq> a" if "(v, b) \<in> set t" for v b
    using assms(1) that a by (auto simp: table_good_def)
  show ?thesis
    using assms a other unfolding table_good_def
    by (auto simp: nth_list_update distinct_delete delete_conv' AList.delete_eq distinct_map_filter split: if_splits)
qed

lemma table_move:
  assumes "table_good t p" "a < length p" "snd (p ! a) \<noteq> dynamicStopped" "s \<noteq> dynamicStopped"
  shows "table_good t (p[a := (fst (p ! a), s)])"
  using assms by (fastforce simp: table_good_def nth_list_update)

lemma table_add:
  assumes "table_good t p" "map_of t u = None" "s \<noteq> dynamicStopped"
  shows "table_good (AList.update u (length p) t) (p @ [(u, s)])"
proof -
  have "set (AList.update u (length p) t) \<subseteq> insert (u, length p) (set t)" by (rule set_update_subset)
  then show ?thesis
    using assms unfolding table_good_def
    by (auto simp: distinct_update nth_append update_conv' less_Suc_eq split: if_splits)
qed

lemma table_current:
  assumes "table_good (en_attempts d) (profile d)" "isCurrentAttemptLocked d a"
  shows "a < length (en_objects d)" "at_state (object d a) \<noteq> dynamicStopped"
proof -
  from assms(2) have "(at_remote (object d a), a) \<in> set (en_attempts d)"
    by (auto simp: isCurrentAttemptLocked_def dest: map_of_SomeD)
  with assms(1) have a: "a < length (profile d)" and s: "snd (profile d ! a) \<noteq> dynamicStopped"
    by (auto simp: table_good_def)
  then show "a < length (en_objects d)" "at_state (object d a) \<noteq> dynamicStopped" by (simp_all add: profile_nth)
qed

lemma table_lookup:
  assumes "table_good (en_attempts d) (profile d)" "map_of (en_attempts d) u = Some a"
  shows "isCurrentAttemptLocked d a" "at_remote (object d a) = u"
proof -
  from assms have "a < length (profile d)" "fst (profile d ! a) = u" by (auto simp: table_good_def dest: map_of_SomeD)
  then show "at_remote (object d a) = u" by (simp add: profile_nth)
  with assms(2) show "isCurrentAttemptLocked d a" by (simp add: isCurrentAttemptLocked_def)
qed

lemma table_live:
  assumes "table_good (en_attempts d) (profile d)" "a < length (en_objects d)" "at_state (object d a) \<noteq> dynamicStopped"
  shows "isCurrentAttemptLocked d a"
  using assms by (auto simp: table_good_def isCurrentAttemptLocked_def profile_nth)

section \<open>The operations keep the table\<close>

text \<open>\<open>moves k d d'\<close>: the table stays good, objects follow the life cycle, and at most \<open>k\<close> resources are added.\<close>

definition moves :: "nat \<Rightarrow> dynamicEngine \<Rightarrow> dynamicEngine \<Rightarrow> bool" where
  "moves k d d' = (engine_good d' \<and> advances (profile d) (profile d') \<and> count d' \<le> count d + k)"

lemma moves_refl: "engine_good d \<Longrightarrow> moves 0 d d"
  by (simp add: moves_def)

lemma moves_core: "engine_good d \<Longrightarrow> same_core d d' \<Longrightarrow> moves 0 d d'"
  by (auto simp: moves_def engine_good_def same_core_profile same_coreD count_def)

lemma moves_weaken: "moves k d d' \<Longrightarrow> k \<le> n \<Longrightarrow> moves n d d'"
  by (auto simp: moves_def)

lemma moves_good: "moves k d d' \<Longrightarrow> engine_good d'"
  by (simp add: moves_def)

text \<open>Composition when the second part stops objects or leaves their state.\<close>

lemma advances_trans_same: "advances p p' \<Longrightarrow> advances p p' \<Longrightarrow> p'' = p' \<Longrightarrow> advances p p''"
  by simp

lemma moves_quiet: "moves k d d' \<Longrightarrow> moves n d' d'' \<Longrightarrow> profile d'' = profile d' \<Longrightarrow> moves (k + n) d d''"
  by (auto simp: moves_def)

lemma quiet_moves: "profile d' = profile d \<Longrightarrow> moves k d d' \<Longrightarrow> moves n d' d'' \<Longrightarrow> moves (k + n) d d''"
  by (auto simp: moves_def)

lemma removed_keys: "distinct (map fst m) \<Longrightarrow> distinct (map fst (fst (removed plan err (m, p))))"
proof -
  have "map fst (map (\<lambda>(a, x). if a = al then (a, f x) else (a, x)) m) = map fst m" for al and f :: "linkResources \<Rightarrow> linkResources"
    by (induction m) auto
  then show "distinct (map fst m) \<Longrightarrow> ?thesis"
    by (simp add: removed_def distinct_map_filter split: option.split del: map_map)
qed

lemma removed_owned: "owned m \<Longrightarrow> owned (fst (removed plan err (m, p)))"
  by (auto simp: owned_def list_all_iff removed_def split: option.split if_splits)

lemma own_owned: "owned m \<Longrightarrow> owned (own plan lease m)"
  by (auto simp: owned_def list_all_iff own_def)

lemma cleanups_le: "distinct (map fst m) \<Longrightarrow>
    length (filter (\<lambda>(_, r). lr_cleanup r) (map (\<lambda>(a, x). if a = alias then (a, x\<lparr>lr_cleanup := True\<rparr>) else (a, x)) m))
      \<le> Suc (length (filter (\<lambda>(_, r). lr_cleanup r) m))"
proof (induction m)
  case (Cons e m)
  obtain a x where e: "e = (a, x)" by fastforce
  show ?case
  proof (cases "a = alias")
    case True
    with Cons.prems have "map (\<lambda>(a, x). if a = alias then (a, x\<lparr>lr_cleanup := True\<rparr>) else (a, x)) m = m"
      by (intro map_idI) (auto simp: e image_iff)
    then show ?thesis by (simp add: e True)
  qed (use Cons in \<open>simp add: e\<close>)
qed simp

lemma cleanups_filter: "cleanups (filter P m) \<le> cleanups m"
  by (induction m) (auto simp: cleanups_def)

lemma cleanups_removed: "distinct (map fst m) \<Longrightarrow> cleanups (fst (removed plan err (m, p))) \<le> Suc (cleanups m)"
  using cleanups_le[of m "OwnerAlias plan"] cleanups_filter[of "\<lambda>(a, _). a \<noteq> OwnerAlias plan" m]
  by (auto simp: removed_def cleanups_def split: option.split)

lemma own_keys: "distinct (map fst m) \<Longrightarrow> distinct (map fst (own plan lease m))"
  by (auto simp: own_def distinct_map_filter)

lemma cleanups_own: "cleanups (own plan lease m) \<le> cleanups m"
  using cleanups_filter[of "\<lambda>(a, _). a \<noteq> OwnerAlias plan" m] by (simp add: own_def cleanups_def)

lemma removeInterface_resources:
  "rn_resources (removeInterface cfg env i plan d) = rn_resources d
   \<or> rn_resources (removeInterface cfg env i plan d) = fst (removed plan (le_remove env i) (rn_resources d, rn_pool d))"
  by (auto simp: removeInterface_def Let_def core_simps removed_def forgetWarmLink_def removeDynamicState_def SetLinkState_def
      split: prod.split option.split)

lemma removeInterface_quiet: "engine_good d \<Longrightarrow> moves 1 d (removeInterface cfg env i plan d) \<and> profile (removeInterface cfg env i plan d) = profile d"
  using removeInterface_resources[of cfg env i plan d]
  by (auto simp: moves_def engine_good_def count_def core_simps profile_def removed_keys removed_owned le_SucI cleanups_removed
      intro: order.trans[OF cleanups_removed])

lemma stopAttempt_core [core_simps]:
  "en_attempts (stopAttempt env a d) = en_attempts d" "en_pendingCleanups (stopAttempt env a d) = en_pendingCleanups d"
  "rn_resources (stopAttempt env a d) = rn_resources d" "length (en_objects (stopAttempt env a d)) = length (en_objects d)"
  by (simp_all add: stopAttempt_def Let_def core_simps split: option.split)

lemma nth_list_update_if: "xs[a := y] ! b = (if a = b \<and> a < length xs then y else xs ! b)"
  by (cases "a < length xs") (auto simp: nth_list_update list_update_beyond not_less)

lemma stop_objects: "en_objects (stopAttempt env a d) =
    (en_objects d)[a := (en_objects d ! a)\<lparr>at_state := dynamicStopped, at_responseTimer := None, at_deadlineTimer := None\<rparr>]"
  by (simp add: stopAttempt_def Let_def core_simps split: option.split)

lemma profile_stop: "profile (stopAttempt env a d) = (profile d)[a := (at_remote (object d a), dynamicStopped)]"
  by (simp add: profile_def stop_objects map_update object_def)

lemma object_stop: "at_plan (object (stopAttempt env a d) b) = at_plan (object d b)"
  "at_remote (object (stopAttempt env a d) b) = at_remote (object d b)"
  "at_session (object (stopAttempt env a d) b) = at_session (object d b)"
  by (simp_all add: object_def stop_objects nth_list_update_if)

lemma discard_moves:
  assumes "engine_good d" "map_of (en_attempts d) u = Some a"
  shows "engine_good (discardAttemptLocked env u a d)" "advances (profile d) (profile (discardAttemptLocked env u a d))"
    "Suc (count (discardAttemptLocked env u a d)) = count d"
    "map_of (en_attempts (discardAttemptLocked env u a d)) u = None"
proof -
  let ?d = "d\<lparr>en_attempts := AList.delete u (en_attempts d)\<rparr>"
  from assms have t: "table_good (en_attempts d) (profile d)" by (simp add: engine_good_def)
  from table_lookup[OF this assms(2)] table_current(1)[OF t] have u: "at_remote (object d a) = u" and a: "a < length (en_objects d)" by auto
  have p: "profile (discardAttemptLocked env u a d) = (profile d)[a := (u, dynamicStopped)]"
    using u by (simp add: discardAttemptLocked_def profile_def stop_objects map_update object_def)
  have f: "fst (profile d ! a) = u" by (simp add: profile_nth a u)
  show "engine_good (discardAttemptLocked env u a d)"
    using assms(1) table_stop[OF t assms(2)] by (simp add: engine_good_def p) (simp add: discardAttemptLocked_def core_simps)
  show "advances (profile d) (profile (discardAttemptLocked env u a d))"
    using advances_update[of "profile d" a dynamicStopped] by (simp add: p f)
  show "Suc (count (discardAttemptLocked env u a d)) = count d"
    using length_delete[of "en_attempts d" u a] t assms(2) by (simp add: count_def discardAttemptLocked_def core_simps table_good_def)
  show "map_of (en_attempts (discardAttemptLocked env u a d)) u = None"
    by (simp add: discardAttemptLocked_def core_simps delete_conv')
qed

lemma fallback_moves:
  assumes "engine_good d" "fallbackLocked env a d = (d', plan)"
  shows "engine_good d'" "advances (profile d) (profile d')" "count d' + (if plan = None then 0 else 1) \<le> count d"
proof -
  have *: "engine_good d' \<and> advances (profile d) (profile d') \<and> count d' + (if plan = None then 0 else 1) \<le> count d"
  proof (cases "isCurrentAttemptLocked d a")
    case True
    let ?u = "at_remote (object d a)"
    from True have m: "map_of (en_attempts d) ?u = Some a" by (simp add: isCurrentAttemptLocked_def)
    define e where "e = discardAttemptLocked env ?u a d"
    note dm = discard_moves[OF assms(1) m, of env, folded e_def]
    from assms(2) True have "same_core e d'"
      by (auto simp: fallbackLocked_def Let_def same_core_def core_simps e_def)
    then have "engine_good d' = engine_good e" "profile d' = profile e" "count d' = count e"
      by (auto simp: engine_good_def count_def same_core_profile same_coreD)
    with dm show ?thesis by simp
  qed (use assms in \<open>auto simp: fallbackLocked_def\<close>)
  then show "engine_good d'" "advances (profile d) (profile d')" "count d' + (if plan = None then 0 else 1) \<le> count d" by blast+
qed

lemma cleanup_moves:
  assumes "engine_good d"
  shows "moves 0 d (cleanup_after cfg env (fallbackLocked env a d))"
proof -
  obtain d' plan where f: "fallbackLocked env a d = (d', plan)" by fastforce
  note fm = fallback_moves[OF assms f]
  show ?thesis
  proof (cases plan)
    case None
    with fm show ?thesis by (simp add: f cleanup_after_def moves_def)
  next
    case (Some x)
    from removeInterface_quiet[OF fm(1), of cfg env 0 x] fm Some show ?thesis
      by (auto simp: f cleanup_after_def moves_def)
  qed
qed

lemma failAttempt_moves: "engine_good d \<Longrightarrow> moves 0 d (failAttempt cfg env a allowed d)"
  by (simp add: failAttempt_def cleanup_moves moves_refl)

lemma moves_same_pendings:
  assumes "engine_good d" "en_attempts d' = en_attempts d" "en_pendingCleanups d' = en_pendingCleanups d"
    "rn_resources d' = rn_resources d" "profile d' = profile d"
  shows "moves 0 d d'"
  using assms by (simp add: moves_def engine_good_def count_def)

text \<open>A change of state of one attempt that is alive.\<close>

lemma modify_good:
  assumes "engine_good d" "isCurrentAttemptLocked d a" "at_remote (f (object d a)) = at_remote (object d a)"
    "at_state (f (object d a)) \<noteq> dynamicStopped"
  shows "engine_good (modify a f d)" "profile (modify a f d) = (profile d)[a := (fst (profile d ! a), at_state (f (object d a)))]"
    "count (modify a f d) = count d" "snd (profile d ! a) = at_state (object d a)"
proof -
  from assms(1) have t: "table_good (en_attempts d) (profile d)" by (simp add: engine_good_def)
  note cur = table_current[OF t assms(2)]
  then have n: "profile d ! a = (at_remote (object d a), at_state (object d a))" by (simp add: profile_nth)
  show p: "profile (modify a f d) = (profile d)[a := (fst (profile d ! a), at_state (f (object d a)))]"
    by (simp add: profile_modify n assms(3))
  from table_move[OF t, of a "at_state (f (object d a))"] cur n assms show "engine_good (modify a f d)"
    by (simp add: engine_good_def p core_simps)
  show "count (modify a f d) = count d" by (simp add: count_def core_simps)
  show "snd (profile d ! a) = at_state (object d a)" by (simp add: n)
qed

lemma modify_moves:
  assumes "engine_good d" "isCurrentAttemptLocked d a" "at_remote (f (object d a)) = at_remote (object d a)"
    "edge (at_state (object d a)) (at_state (f (object d a)))" "at_state (f (object d a)) \<noteq> dynamicStopped"
  shows "moves 0 d (modify a f d)"
  using modify_good[where f = f, OF assms(1-3,5)] advances_update[of "profile d" a "at_state (f (object d a))"] assms(4)
  by (simp add: moves_def)

lemma commitAttempt_moves:
  assumes "engine_good d" "isCurrentAttemptLocked d a" "at_state (object d a) \<in> {dynamicAttempting, dynamicRecovering, dynamicUp}"
  shows "moves 0 d (commitAttemptLocked a d)"
proof -
  let ?e = "modify a (\<lambda>x. x\<lparr>at_state := dynamicUp\<rparr>) d"
  have e: "moves 0 d ?e" by (rule modify_moves) (use assms in \<open>auto simp: edge_def\<close>)
  have "moves 0 ?e (commitAttemptLocked a d)"
    by (rule moves_same_pendings) (use e in \<open>simp_all add: moves_def commitAttemptLocked_def Let_def core_simps profile_same,
      simp add: profile_def core_simps\<close>)
  moreover have "profile (commitAttemptLocked a d) = profile ?e"
    by (simp add: commitAttemptLocked_def Let_def profile_same) (simp add: profile_def core_simps)
  ultimately show ?thesis using e moves_quiet[of 0 d ?e 0] by simp
qed

text \<open>Steps that leave the table of attempts and the life cycle alone and free or add no resource.\<close>

definition quiet :: "dynamicEngine \<Rightarrow> dynamicEngine \<Rightarrow> bool" where
  "quiet d d' = (en_attempts d' = en_attempts d \<and> profile d' = profile d \<and> en_pendingCleanups d' = en_pendingCleanups d
     \<and> (distinct (map fst (rn_resources d)) \<longrightarrow> distinct (map fst (rn_resources d'))) \<and> (owned (rn_resources d) \<longrightarrow> owned (rn_resources d'))
     \<and> cleanups (rn_resources d') \<le> cleanups (rn_resources d))"

lemma quiet_refl: "quiet d d"
  by (simp add: quiet_def)

lemma quiet_trans: "quiet d d' \<Longrightarrow> quiet d' d'' \<Longrightarrow> quiet d d''"
  by (auto simp: quiet_def)

lemma quiet_core: "same_core d d' \<Longrightarrow> quiet d d'"
  by (simp add: quiet_def same_coreD same_core_profile)

lemma quiet_modify: "at_remote (f (object d a)) = at_remote (object d a) \<Longrightarrow> at_state (f (object d a)) = at_state (object d a) \<Longrightarrow>
    quiet d (modify a f d)"
  by (simp add: quiet_def core_simps profile_same)

lemma quiet_own: "quiet d (own_plan plan lease d)"
  by (simp add: quiet_def own_plan_def own_keys own_owned cleanups_own profile_def)

lemma quiet_start: "quiet d (startConnectivityLocked cfg env a d)"
  by (simp add: quiet_def core_simps)

lemma quiet_arm: "quiet d (armConnectivityDeadlineLocked cfg env a ctx d)"
  by (simp add: quiet_def core_simps)

lemma quiet_good: "quiet d d' \<Longrightarrow> engine_good d \<Longrightarrow> engine_good d'"
  by (simp add: quiet_def engine_good_def)

lemma quiet_count: "quiet d d' \<Longrightarrow> count d' \<le> count d"
  by (simp add: quiet_def count_def)

lemma moves_then_quiet: "moves k d d' \<Longrightarrow> quiet d' d'' \<Longrightarrow> moves k d d''"
  using quiet_good[of d' d''] quiet_count[of d' d''] by (auto simp: moves_def quiet_def)

lemma quiet_then_moves: "quiet d d' \<Longrightarrow> engine_good d \<Longrightarrow> (engine_good d' \<Longrightarrow> moves k d' d'') \<Longrightarrow> moves k d d''"
  using quiet_good[of d d'] quiet_count[of d d'] by (auto simp: moves_def quiet_def)

lemma quiet_current: "quiet d d' \<Longrightarrow> a < length (en_objects d) \<Longrightarrow> isCurrentAttemptLocked d' a = isCurrentAttemptLocked d a"
  and quiet_object: "quiet d d' \<Longrightarrow> a < length (en_objects d) \<Longrightarrow>
    at_state (object d' a) = at_state (object d a) \<and> at_remote (object d' a) = at_remote (object d a)"
proof -
  assume q: "quiet d d'" and a: "a < length (en_objects d)"
  then have l: "length (en_objects d') = length (en_objects d)" by (metis quiet_def profile_length)
  from q have "profile d' ! a = profile d ! a" by (simp add: quiet_def)
  then show o: "at_state (object d' a) = at_state (object d a) \<and> at_remote (object d' a) = at_remote (object d a)"
    using a l by (simp add: profile_nth)
  then show "isCurrentAttemptLocked d' a = isCurrentAttemptLocked d a"
    using q by (simp add: isCurrentAttemptLocked_def quiet_def)
qed

lemma prepare_interface_quiet:
  assumes "prepare_interface dcfg env s u a d = (d', e)"
  shows "quiet d d'"
proof (cases "lp_InterfaceName (at_plan (object d a)) \<noteq> []")
  case False
  define plan where "plan = (let plan = BuildDynamicLink dcfg (nodeUID dcfg (s_RemoteUID s)) in
    plan\<lparr>OwnerAlias := OwnerAlias plan @ '':'' @ pm_uuid (dy_primitives dcfg) (at_operationID (object d a)),
      Probing := True, ListenPort := primary_port u\<rparr>)"
  define f where "f = own_plan plan None (modify a (\<lambda>x. x\<lparr>at_plan := plan\<rparr>) d)"
  have q: "quiet d f" unfolding f_def by (rule quiet_trans[OF quiet_modify quiet_own]) simp_all
  from False assms obtain g r where g: "on_calls (sys_PrepareLink (de_system env) plan) f = (g, r)"
    and d': "d' = (case r of Inl e \<Rightarrow> g | Inr plan \<Rightarrow> own_plan plan None (modify a (\<lambda>x. x\<lparr>at_plan := plan\<rparr>) g))"
    by (auto simp: prepare_interface_def plan_def f_def Let_def split: prod.splits sum.splits)
  note qg = quiet_trans[OF q quiet_core[OF on_calls_core[OF g]]]
  show ?thesis
  proof (cases r)
    case (Inr p)
    then show ?thesis unfolding d' sum.case
      by (simp, intro quiet_trans[OF qg] quiet_trans[OF quiet_modify quiet_own]) simp_all
  qed (simp add: d' qg)
qed (use assms in \<open>auto simp: prepare_interface_def quiet_refl\<close>)

lemma add_moves:
  assumes "engine_good d" "map_of (en_attempts d) (at_remote x) = None" "at_state x \<noteq> dynamicStopped"
  shows "moves 1 d (add_attempt x d)" "isCurrentAttemptLocked (add_attempt x d) (length (en_objects d))"
    "object (add_attempt x d) (length (en_objects d)) = x"
proof -
  have p: "profile (add_attempt x d) = profile d @ [(at_remote x, at_state x)]" by (simp add: add_attempt_def profile_def)
  from assms have t: "table_good (en_attempts d) (profile d)" by (simp add: engine_good_def)
  from table_add[OF t assms(2,3)] have "engine_good (add_attempt x d)"
    using assms(1) by (simp add: engine_good_def p) (simp add: add_attempt_def)
  moreover have "count (add_attempt x d) \<le> Suc (count d)"
    using length_update_le[of "at_remote x" "length (en_objects d)" "en_attempts d"] by (simp add: count_def add_attempt_def)
  ultimately show "moves 1 d (add_attempt x d)" by (simp add: moves_def p advances_add)
  show "object (add_attempt x d) (length (en_objects d)) = x" by (simp add: object_def add_attempt_def)
  then show "isCurrentAttemptLocked (add_attempt x d) (length (en_objects d))"
    by (simp add: isCurrentAttemptLocked_def) (simp add: add_attempt_def update_conv')
qed

lemma prepareAttempt_quiet:
  assumes "prepareAttemptLocked dcfg env s oid lp reserved d = (d', a, err)"
  shows "a = length (en_objects d)" "quiet (add_attempt (new_attempt s oid lp reserved) d) d'"
proof -
  let ?d = "add_attempt (new_attempt s oid lp reserved) d"
  show a: "a = length (en_objects d)"
    using assms by (auto simp: prepareAttemptLocked_def Let_def split: option.splits prod.splits sum.splits)
  show "quiet ?d d'"
  proof (cases "Baseline (rn_evidence ?d) 1")
    case (Some hint)
    obtain e r where e: "prepareUDP dcfg env a hint ?d = (e, r)" by fastforce
    note qe = quiet_core[OF prepareUDP_core[OF e]]
    show ?thesis
    proof (cases r)
      case (Inr u)
      let ?f = "modify a (\<lambda>x. x\<lparr>at_udp := Some u\<rparr>) e"
      have qf: "quiet ?d ?f" by (rule quiet_trans[OF qe quiet_modify]) simp_all
      obtain g x where g: "prepare_interface dcfg env s u a ?f = (g, x)" by fastforce
      note qg = quiet_trans[OF qf prepare_interface_quiet[OF g]]
      let ?h = "modify a (\<lambda>x. x\<lparr>at_plan := (at_plan x)\<lparr>ListenPort := primary_port u, Probing := True\<rparr>\<rparr>) g"
      have qh: "quiet ?d ?h" by (rule quiet_trans[OF qg quiet_modify]) simp_all
      have qi: "quiet ?d (modify a (\<lambda>x. x\<lparr>at_candidate := c\<rparr>) ?h)" for c by (rule quiet_trans[OF qh quiet_modify]) simp_all
      from assms Some e Inr g qg qh qi a show ?thesis
        by (auto simp: prepareAttemptLocked_def Let_def split: option.splits)
    qed (use assms Some e a qe in \<open>auto simp: prepareAttemptLocked_def Let_def\<close>)
  qed (use assms in \<open>auto simp: prepareAttemptLocked_def Let_def quiet_refl\<close>)
qed

lemma prepareAttempt_moves:
  assumes "engine_good d" "map_of (en_attempts d) (UUID (s_RemoteUID s)) = None"
    "prepareAttemptLocked dcfg env s oid lp reserved d = (d', a, err)"
  shows "moves 1 d d'" "isCurrentAttemptLocked d' a" "at_state (object d' a) = dynamicPreparing" "a = length (en_objects d)"
    "at_remote (object d' a) = UUID (s_RemoteUID s)"
proof -
  let ?x = "new_attempt s oid lp reserved"
  have x: "at_remote ?x = UUID (s_RemoteUID s)" "at_state ?x = dynamicPreparing" by (simp_all add: new_attempt_def)
  note am = add_moves[OF assms(1), of ?x] note q = prepareAttempt_quiet[OF assms(3)]
  from q(1) show a: "a = length (en_objects d)" .
  then have l: "a < length (en_objects (add_attempt ?x d))" by (simp add: add_attempt_def)
  from am(1) x assms(2) moves_then_quiet[OF _ q(2)] show "moves 1 d d'" by simp
  from quiet_current[OF q(2) l] quiet_object[OF q(2) l] am(2,3) x assms(2) a
  show "isCurrentAttemptLocked d' a" "at_state (object d' a) = dynamicPreparing" "at_remote (object d' a) = UUID (s_RemoteUID s)" by simp_all
qed

lemma advances_stop: "advances p p' \<Longrightarrow> advances p (p'[a := (fst (p' ! a), dynamicStopped)])"
  by (auto simp: advances_def nth_list_update_if)

lemma advances_beyond: "advances p p' \<Longrightarrow> length p \<le> a \<Longrightarrow> advances p (p'[a := x])"
  by (auto simp: advances_def nth_list_update_if)

lemma fallback_profile:
  assumes "engine_good d" "fallbackLocked env a d = (d', plan)"
  shows "profile d' = profile d \<or> profile d' = (profile d)[a := (fst (profile d ! a), dynamicStopped)]"
proof (cases "isCurrentAttemptLocked d a")
  case True
  from assms(1) have "table_good (en_attempts d) (profile d)" by (simp add: engine_good_def)
  from table_current(1)[OF this True] have "fst (profile d ! a) = at_remote (object d a)" by (simp add: profile_nth)
  moreover from assms(2) True have "profile d' = (profile d)[a := (at_remote (object d a), dynamicStopped)]"
    by (auto simp: fallbackLocked_def Let_def discardAttemptLocked_def profile_def core_simps stop_objects map_update object_def)
  ultimately show ?thesis by simp
qed (use assms in \<open>auto simp: fallbackLocked_def\<close>)

lemma cleanup_profile:
  assumes "engine_good d"
  shows "profile (cleanup_after cfg env (fallbackLocked env a d)) = profile d
    \<or> profile (cleanup_after cfg env (fallbackLocked env a d)) = (profile d)[a := (fst (profile d ! a), dynamicStopped)]"
proof -
  obtain d' plan where f: "fallbackLocked env a d = (d', plan)" by fastforce
  have "profile (cleanup_after cfg env (d', plan)) = profile d'"
    by (simp add: cleanup_after_def profile_def core_simps split: option.split)
  with fallback_profile[OF assms f] show ?thesis by (simp add: f)
qed

lemma moves_then_cleanup: "moves k d d' \<Longrightarrow> moves k d (cleanup_after cfg env (fallbackLocked env a d'))"
  using cleanup_moves[OF moves_good, of k d d' cfg env a] cleanup_profile[OF moves_good, of k d d' cfg env a]
  by (auto simp: moves_def advances_stop)

lemma moves_then_fail: "moves k d d' \<Longrightarrow> moves k d (failAttempt cfg env a allowed d')"
  by (simp add: failAttempt_def moves_then_cleanup)

lemma modify_beyond:
  assumes "moves k d d'" "isCurrentAttemptLocked d' a" "length (en_objects d) \<le> a"
    "at_remote (f (object d' a)) = at_remote (object d' a)" "edge (at_state (object d' a)) (at_state (f (object d' a)))"
    "at_state (f (object d' a)) \<noteq> dynamicStopped"
  shows "moves k d (modify a f d')"
proof -
  from modify_moves[where f = f, OF moves_good[OF assms(1)] assms(2,4-6)] have m: "moves 0 d' (modify a f d')" .
  have "advances (profile d) (profile (modify a f d'))"
    unfolding profile_modify using assms(1,3) by (simp add: moves_def advances_beyond)
  with m assms(1) show ?thesis by (auto simp: moves_def)
qed

text \<open>The bound an operation keeps.\<close>

definition safe :: "dynamicEngine \<Rightarrow> dynamicEngine \<Rightarrow> bool" where
  "safe d d' = (engine_good d' \<and> advances (profile d) (profile d') \<and> (resourceCountLocked d \<le> maxDynamicLinks \<longrightarrow> resourceCountLocked d' \<le> maxDynamicLinks))"

lemma moves_safe: "moves 0 d d' \<Longrightarrow> safe d d'"
  by (auto simp: moves_def safe_def resourceCount)

lemma moves_safe1: "moves 1 d d' \<Longrightarrow> resourceCountLocked d < maxDynamicLinks \<Longrightarrow> safe d d'"
  by (auto simp: moves_def safe_def resourceCount)

lemma quiet_targets: "quiet d (d\<lparr>en_peers := x\<rparr>)"
  by (simp add: quiet_def profile_def)

lemma prepareOutbound_safe:
  assumes "engine_good d" "prepareOutbound dcfg env s d = (d', r)"
  shows "safe d d'"
    and "r = Inr (Some a) \<Longrightarrow> a = length (en_objects d) \<and> isCurrentAttemptLocked d' a \<and> at_state (object d' a) = dynamicProposing"
proof -
  define m where "m = fst (admit_outbound (dc_desired (dy_durable dcfg)) (s_RemoteLoopbackV6 s) (UUID (s_RemoteUID s)) (targets (en_peers d)))"
  define e where "e = d\<lparr>en_peers := (en_peers d)\<lparr>targets := m\<rparr>\<rparr>"
  have q: "quiet d e" and oe: "length (en_objects e) = length (en_objects d)" and ae: "en_attempts e = en_attempts d"
    by (simp_all add: e_def quiet_targets)
  have ge: "engine_good e" by (rule quiet_good[OF q assms(1)])
  have dm: "moves 0 d d" "moves 0 d e" by (rule moves_refl[OF assms(1)], rule moves_then_quiet[OF moves_refl[OF assms(1)] q])
  have ce: "resourceCountLocked e = resourceCountLocked d" by (simp add: resourceCountLocked_def e_def)
  consider (refused) "d' = d \<or> d' = e" "\<And>a. r \<noteq> Inr (Some a)"
    | (prepared) oid f b err where "map_of (en_attempts e) (UUID (s_RemoteUID s)) = None" "resourceCountLocked e < maxDynamicLinks"
        "prepareAttemptLocked dcfg env s oid True no_plan e = (f, b, err)"
        "(d', r) = (case err of Some x \<Rightarrow> (cleanup_after (dy_durable dcfg) env (fallbackLocked env b f), Inl x)
           | None \<Rightarrow> (modify b (\<lambda>x. x\<lparr>at_state := dynamicProposing\<rparr>) f, Inr (Some b)))"
    using assms(2) by (auto simp: prepareOutbound_def e_def m_def Let_def split: prod.splits if_splits sum.splits option.splits)
  then have "safe d d' \<and> (r = Inr (Some a) \<longrightarrow> a = length (en_objects d) \<and> isCurrentAttemptLocked d' a \<and> at_state (object d' a) = dynamicProposing)"
  proof cases
    case refused
    with dm moves_safe show ?thesis by blast
  next
    case prepared
    note pm = prepareAttempt_moves[OF ge prepared(1,3)]
    have m1: "moves 1 d f" using quiet_then_moves[OF q assms(1)] pm(1) by simp
    have lt: "resourceCountLocked d < maxDynamicLinks" using prepared(2) ce by simp
    show ?thesis
    proof (cases err)
      case None
      let ?g = "modify b (\<lambda>x. x\<lparr>at_state := dynamicProposing\<rparr>) f"
      from table_current(1)[OF _ pm(2)] moves_good[OF pm(1)] have l: "b < length (en_objects f)" by (simp add: engine_good_def)
      have "moves 1 d ?g" by (rule modify_beyond[OF m1 pm(2)]) (use pm(3,4) oe in \<open>simp_all add: edge_def\<close>)
      moreover have "isCurrentAttemptLocked ?g b" "at_state (object ?g b) = dynamicProposing"
        using pm(2) l by (simp_all add: isCurrentAttemptLocked_def core_simps object_def)
      ultimately show ?thesis using None prepared(4) moves_safe1 lt pm(4) oe by auto
    next
      case (Some x)
      with prepared(4) moves_safe1[OF moves_then_cleanup[OF m1] lt] show ?thesis by simp
    qed
  qed
  then show "safe d d'" "r = Inr (Some a) \<Longrightarrow> a = length (en_objects d) \<and> isCurrentAttemptLocked d' a \<and> at_state (object d' a) = dynamicProposing" by blast+
qed

lemma map_of_marked: "map_of (map (\<lambda>(a, x). if a = al then (a, f x) else (a, x)) m) al = map_option f (map_of m al)"
  by (induction m) auto

lemma removed_gone: "map_of (fst (removed plan err (m, p))) (OwnerAlias plan) = None \<Longrightarrow>
    cleanups (fst (removed plan err (m, p))) \<le> cleanups m"
  using cleanups_filter[of "\<lambda>(a, _). a \<noteq> OwnerAlias plan" m]
  by (simp add: removed_def map_of_marked split: option.splits)

lemma removeInterface_gone:
  assumes "engine_good d" "map_of (rn_resources (removeInterface cfg env i plan d)) (OwnerAlias plan) = None"
  shows "count (removeInterface cfg env i plan d) \<le> count d"
proof -
  from removed_gone[of plan "le_remove env i" "rn_resources d" "rn_pool d"] removeInterface_resources[of cfg env i plan d] assms(2)
  show ?thesis by (auto simp: count_def core_simps)
qed

lemma removeInterface_objects: "object (removeInterface cfg env i plan d) a = object d a"
  by (simp add: object_def core_simps)

lemma discard_plan: "at_plan (object (discardAttemptLocked env u a d) b) = at_plan (object d b)"
  by (simp add: discardAttemptLocked_def object_stop) (simp add: object_def)

lemma replace_current_moves:
  assumes "engine_good d" "replace_current dcfg env s value d = (d', r)"
  shows "moves 0 d d'" "r \<noteq> None \<Longrightarrow> map_of (en_attempts d') (UUID (s_RemoteUID s)) = None"
    "r \<noteq> None \<Longrightarrow> map_of (en_attempts d) (UUID (s_RemoteUID s)) = None \<and> d' = d \<or> Suc (count d') \<le> count d"
    "en_pendingCleanups d' = en_pendingCleanups d"
proof -
  let ?u = "UUID (s_RemoteUID s)"
  have "moves 0 d d' \<and> (r \<noteq> None \<longrightarrow> map_of (en_attempts d') ?u = None
      \<and> (map_of (en_attempts d) ?u = None \<and> d' = d \<or> Suc (count d') \<le> count d)) \<and> en_pendingCleanups d' = en_pendingCleanups d"
  proof (cases "map_of (en_attempts d) ?u")
    case None
    with assms show ?thesis by (auto simp: replace_current_def Let_def moves_refl)
  next
    case (Some c)
    define e where "e = discardAttemptLocked env ?u c d"
    note dm = discard_moves[OF assms(1) Some, of env, folded e_def]
    have pe: "en_pendingCleanups e = en_pendingCleanups d" by (simp add: e_def discardAttemptLocked_def core_simps)
    define plan where "plan = at_plan (object d c)"
    have pl: "at_plan (object e c) = plan" by (simp add: e_def plan_def discard_plan)
    define f where "f = removeInterface (dy_durable dcfg) env 1 plan e"
    from removeInterface_quiet[OF dm(1), of "dy_durable dcfg" env 1 plan] have fm: "moves 1 e f" "profile f = profile e"
      by (simp_all add: f_def)
    have fp: "en_attempts f = en_attempts e" "en_pendingCleanups f = en_pendingCleanups d" "object f c = object e c"
      by (simp_all add: f_def core_simps removeInterface_objects pe)
    have mf: "moves 0 d f" using fm dm by (auto simp: moves_def)
    have gone: "Suc (count f) \<le> count d" if "map_of (rn_resources f) (OwnerAlias plan) = None"
      using removeInterface_gone[OF dm(1), of "dy_durable dcfg" env 1 plan] that dm(3) by (simp add: f_def)
    show ?thesis
    proof (cases "at_state (object d c) = dynamicRecovering")
      case True
      with assms(2) Some consider (a) "d' = d" "r = None" | (b) "d' = f"
          "r \<noteq> None \<longrightarrow> map_of (rn_resources f) (OwnerAlias plan) = None"
        by (auto simp: replace_current_def Let_def e_def[symmetric] pl f_def removeInterface_objects split: if_splits)
      then show ?thesis
      proof cases
        case b
        with gone mf fp dm(4) show ?thesis by auto
      qed (simp add: moves_refl assms(1))
    next
      case False
      have q: "same_core e (called x e)" for x by (simp add: same_core_def core_simps)
      from False assms(2) Some consider (a) "d' = d" "r = None" | (b) "same_core e d'"
        by (auto simp: replace_current_def Let_def e_def[symmetric] q split: if_splits option.splits)
      then show ?thesis
      proof cases
        case b
        then have "engine_good d' = engine_good e" "profile d' = profile e" "count d' = count e"
            "en_attempts d' = en_attempts e" "en_pendingCleanups d' = en_pendingCleanups e"
          by (auto simp: engine_good_def count_def same_core_profile same_coreD)
        with dm pe show ?thesis by (auto simp: moves_def)
      qed (simp add: moves_refl assms(1))
    qed
  qed
  then show "moves 0 d d'" "r \<noteq> None \<Longrightarrow> map_of (en_attempts d') ?u = None"
    "r \<noteq> None \<Longrightarrow> map_of (en_attempts d) ?u = None \<and> d' = d \<or> Suc (count d') \<le> count d"
    "en_pendingCleanups d' = en_pendingCleanups d" by blast+
qed

lemma prepare_after:
  assumes "engine_good e" "advances (profile d) (profile e)" "Suc (count e) \<le> count d + k"
    "map_of (en_attempts e) (UUID (s_RemoteUID s)) = None" "prepareAttemptLocked dcfg env s oid lp reserved e = (f, a, err)"
  shows "moves k d f" "isCurrentAttemptLocked f a" "at_state (object f a) = dynamicPreparing" "a = length (en_objects e)"
    "at_remote (object f a) = UUID (s_RemoteUID s)"
proof -
  note pm = prepareAttempt_moves[OF assms(1,4,5)]
  show "isCurrentAttemptLocked f a" "at_state (object f a) = dynamicPreparing" "a = length (en_objects e)"
    "at_remote (object f a) = UUID (s_RemoteUID s)" by (rule pm)+
  have "profile f = profile e @ [(UUID (s_RemoteUID s), dynamicPreparing)]"
    using prepareAttempt_quiet(2)[OF assms(5)] by (simp add: quiet_def profile_def add_attempt_def new_attempt_def)
  with pm(1) assms(2,3) show "moves k d f" by (auto simp: moves_def advances_add)
qed

lemma cancelDeferred:
  assumes "engine_good d"
  shows "engine_good (cancelDeferredCleanupLocked u d)" "profile (cancelDeferredCleanupLocked u d) = profile d"
    "count (cancelDeferredCleanupLocked u d) \<le> count d"
    "map_of (en_pendingCleanups d) u \<noteq> None \<Longrightarrow> Suc (count (cancelDeferredCleanupLocked u d)) = count d"
    "en_attempts (cancelDeferredCleanupLocked u d) = en_attempts d"
    "length (en_objects (cancelDeferredCleanupLocked u d)) = length (en_objects d)"
  using assms length_delete_le[of u "en_pendingCleanups d"] length_delete[of "en_pendingCleanups d" u]
  by (auto simp: cancelDeferredCleanupLocked_def engine_good_def profile_def distinct_delete count_def)

lemma configure_cases:
  assumes "configureAttemptLocked dcfg a value d = (d', e)"
  shows "e \<noteq> None \<and> d' = d \<or> e = None \<and> (\<exists>f. d' = modify a f d \<and> (\<forall>x. at_remote (f x) = at_remote x \<and> at_state (f x) = dynamicProbing))"
  using assms by (auto simp: configureAttemptLocked_def split: if_splits intro!: exI)

lemma prepareInbound_safe:
  assumes "engine_good d" "prepareInbound dcfg env s value d = (d', r)"
  shows "safe d d'"
    and "r = Some a \<Longrightarrow> length (en_objects d) \<le> a \<and> isCurrentAttemptLocked d' a \<and> at_state (object d' a) = dynamicProbing"
proof -
  let ?u = "UUID (s_RemoteUID s)"
  consider (refused) "d' = d \<or> replace_current dcfg env s value d = (d', None)" "r = None"
    | (prepared) e plan f b err g err' where "replace_current dcfg env s value d = (e, Some plan)"
        "map_of (en_attempts d) ?u = None \<Longrightarrow> map_of (en_pendingCleanups d) ?u = None \<Longrightarrow> resourceCountLocked d < maxDynamicLinks"
        "prepareAttemptLocked dcfg env s (m_OperationID value) False
           (case map_of (en_pendingCleanups e) ?u of Some cleanup \<Rightarrow> if lp_InterfaceName plan = [] then cu_plan cleanup else plan | None \<Rightarrow> plan)
           (cancelDeferredCleanupLocked ?u e) = (f, b, err)"
        "(g, err') = (case err of None \<Rightarrow> configureAttemptLocked dcfg b value f | Some x \<Rightarrow> (f, Some x))"
        "(d', r) = (case err' of Some x \<Rightarrow> (cleanup_after (dy_durable dcfg) env (fallbackLocked env b g), None) | None \<Rightarrow> (g, Some b))"
    using assms(2)
    by (auto simp: prepareInbound_def Let_def split: prod.splits if_splits option.splits)
  then have "safe d d' \<and> (r = Some a \<longrightarrow> length (en_objects d) \<le> a \<and> isCurrentAttemptLocked d' a \<and> at_state (object d' a) = dynamicProbing)"
  proof cases
    case refused
    with replace_current_moves(1)[OF assms(1)] moves_refl[OF assms(1)] moves_safe show ?thesis by auto
  next
    case prepared
    note rc = replace_current_moves[OF assms(1) prepared(1)]
    define h where "h = cancelDeferredCleanupLocked ?u e"
    note cd = cancelDeferred[OF moves_good[OF rc(1)], of ?u, folded h_def]
    from rc(1) have ev: "advances (profile d) (profile h)" by (simp add: moves_def cd(2))
    define k where "k = (if map_of (en_attempts d) ?u = None \<and> map_of (en_pendingCleanups d) ?u = None then 1 else 0::nat)"
    have cnt: "Suc (count h) \<le> count d + k"
      using rc(3,4) cd(3,4) by (auto simp: k_def)
    have none: "map_of (en_attempts h) ?u = None" using rc(2) cd(5) by simp
    note pa = prepare_after[OF cd(1) ev cnt none prepared(3)[folded h_def]]
    have k: "moves k d x \<Longrightarrow> safe d x" for x
      using moves_safe moves_safe1 prepared(2) by (auto simp: k_def split: if_splits)
    have old: "length (en_objects d) \<le> b"
      using ev pa(4) by (simp add: advances_def)
    have g: "moves k d g \<and> (err' = None \<longrightarrow> isCurrentAttemptLocked g b \<and> at_state (object g b) = dynamicProbing)"
    proof (cases err)
      case None
      with prepared(4) have c: "configureAttemptLocked dcfg b value f = (g, err')" by simp
      from configure_cases[OF c] show ?thesis
      proof (elim disjE conjE exE)
        fix F assume "err' = None" and G: "g = modify b F f" and F: "\<forall>x. at_remote (F x) = at_remote x \<and> at_state (F x) = dynamicProbing"
        from table_current(1)[OF _ pa(2)] moves_good[OF pa(1)] have l: "b < length (en_objects f)" by (simp add: engine_good_def)
        have "moves k d g" unfolding G by (rule modify_beyond[OF pa(1,2) old]) (use pa(3) F in \<open>simp_all add: edge_def\<close>)
        with l F pa(2) show ?thesis by (simp add: G isCurrentAttemptLocked_def core_simps object_def)
      qed (use pa(1) in auto)
    qed (use prepared(4) pa(1) in auto)
    show ?thesis
    proof (cases err')
      case None
      with g k prepared(5) old show ?thesis by auto
    next
      case (Some x)
      with g k prepared(5) show ?thesis using moves_then_cleanup by auto
    qed
  qed
  then show "safe d d'" "r = Some a \<Longrightarrow> length (en_objects d) \<le> a \<and> isCurrentAttemptLocked d' a \<and> at_state (object d' a) = dynamicProbing" by blast+
qed

lemma startProbe_moves: "engine_good d \<Longrightarrow> isCurrentAttemptLocked d a \<Longrightarrow> at_state (object d a) \<in> {dynamicProbing, dynamicProposing} \<Longrightarrow>
    moves 0 d (startProbeLocked a d)"
  unfolding startProbeLocked_def by (rule modify_moves) (auto simp: edge_def)

lemma proposing_current: "engine_good d \<Longrightarrow> proposingAttemptLocked d s oid = Some a \<Longrightarrow>
    isCurrentAttemptLocked d a \<and> at_state (object d a) = dynamicProposing \<and> at_operationID (object d a) = oid"
  using table_lookup[of d "UUID (s_RemoteUID s)" a]
  by (auto simp: proposingAttemptLocked_def engine_good_def split: option.splits if_splits)

lemma handleAccept_moves:
  assumes "engine_good d"
  shows "moves 0 d (handleAccept dcfg env s value d)"
proof (cases "proposingAttemptLocked d s (m_OperationID value)")
  case None
  with assms show ?thesis by (simp add: handleAccept_def moves_refl)
next
  case (Some a)
  obtain e err where c: "configureAttemptLocked dcfg a value d = (e, err)" by fastforce
  note cur = proposing_current[OF assms Some]
  show ?thesis
  proof (cases err)
    case None
    from configure_cases[OF c] None obtain f where e: "e = modify a f d"
      and f: "at_remote (f x) = at_remote x" "at_state (f x) = dynamicProbing" for x by auto
    have "handleAccept dcfg env s value d = modify a (\<lambda>x. (f x)\<lparr>at_state := dynamicProbing, at_cancel := map_option ua_ctx (at_udp (f x))\<rparr>) d"
      using Some c None e
      by (simp add: handleAccept_def startProbeLocked_def modify_def object_def)
         (metis list_update_beyond list_update_overwrite not_le nth_list_update_eq)
    also have "moves 0 d \<dots>" by (rule modify_moves[OF assms]) (use cur f in \<open>auto simp: edge_def\<close>)
    finally show ?thesis .
  next
    case S: (Some x)
    from configure_cases[OF c] S have "e = d" by auto
    with Some c S show ?thesis by (simp add: handleAccept_def cleanup_moves[OF assms])
  qed
qed

lemma defer_core:
  "en_attempts (deferCleanupLocked u plan d) = en_attempts d" "en_objects (deferCleanupLocked u plan d) = en_objects d"
  "rn_resources (deferCleanupLocked u plan d) = rn_resources d"
  "distinct (map fst (en_pendingCleanups d)) \<Longrightarrow> distinct (map fst (en_pendingCleanups (deferCleanupLocked u plan d)))"
  "length (en_pendingCleanups (deferCleanupLocked u plan d)) \<le> Suc (length (en_pendingCleanups d))"
  using length_update_le[of u "\<lparr>cu_ident = en_allocated d, cu_plan = plan\<rparr>" "AList.delete u (en_pendingCleanups d)"]
    length_delete_le[of u "en_pendingCleanups d"]
  by (auto simp: deferCleanupLocked_def cancelDeferredCleanupLocked_def Let_def distinct_update distinct_delete)

lemma handleDecline_moves:
  assumes "engine_good d"
  shows "moves 0 d (handleDynamicDecline env s value d)"
proof (cases "proposingAttemptLocked d s (m_OperationID value)")
  case None
  with assms show ?thesis by (simp add: handleDynamicDecline_def moves_refl)
next
  case (Some a)
  define e where "e = (let m = targets (en_peers d); m = (case map_of m (s_RemoteLoopbackV6 s) of
      None \<Rightarrow> m | Some t \<Rightarrow> AList.update (s_RemoteLoopbackV6 s) (mergePolicyLocked t (m_Policy value)) m) in
      d\<lparr>en_peers := (en_peers d)\<lparr>targets := m\<rparr>\<rparr>)"
  have q: "quiet d e" by (simp add: e_def Let_def quiet_targets)
  note ge = quiet_good[OF q assms]
  obtain f plan where f: "fallbackLocked env a e = (f, plan)" by fastforce
  note fm = fallback_moves[OF ge f]
  have H: "handleDynamicDecline env s value d = (case plan of None \<Rightarrow> f | Some plan \<Rightarrow> deferCleanupLocked (at_remote (object f a)) plan f)"
    using Some f by (simp add: handleDynamicDecline_def e_def Let_def split: option.split)
  have "moves 0 e (handleDynamicDecline env s value d)"
  proof (cases plan)
    case (Some p)
    let ?g = "deferCleanupLocked (at_remote (object f a)) p f"
    have p: "profile ?g = profile f" by (simp add: profile_def defer_core)
    have "engine_good ?g" using fm(1) unfolding engine_good_def p by (simp add: defer_core)
    moreover have "count ?g \<le> Suc (count f)" using defer_core(5)[of "at_remote (object f a)" p f] by (simp add: count_def defer_core)
    ultimately show ?thesis using fm Some by (simp add: H moves_def p)
  qed (use fm in \<open>simp add: H moves_def\<close>)
  then show ?thesis by (rule quiet_then_moves[OF q assms])
qed

lemma routedSessionClosed_moves: "engine_good d \<Longrightarrow> moves 0 d (routedSessionClosed cfg env s d)"
  by (simp add: routedSessionClosed_def cleanup_moves moves_refl split: option.split)

lemma dynamic_commitLink_moves:
  assumes "engine_good d"
  shows "moves 0 d (fst (dynamic_commitLink cfg env a result d))"
proof (cases "le_ended env 1 = None \<and> \<not> stopped (en_peers d) \<and> isCurrentAttemptLocked d a
    \<and> at_state (object d a) \<in> {dynamicAttempting, dynamicRecovering}")
  case True
  note t = table_current[OF conjunct1[OF assms[unfolded engine_good_def]], of a]
  define p where "p = (if hasHealthyStatic (rn_states d) (at_remote (object d a)) then (d, Some (ErrNew ''healthy static Link takes priority''))
      else if UUID (res_RemoteUID result) \<noteq> at_remote (object d a)
      then (d, Some (ErrNew ''dynamic Link Node UID does not match routed target''))
      else commitLink cfg env (at_plan (object d a)) True result False d)"
  obtain e failure where e: "p = (e, failure)" by fastforce
  have q: "quiet d e" using commitLink_core[of d cfg env "at_plan (object d a)" True result False] e
    by (auto simp: p_def quiet_refl split: if_splits dest: quiet_core)
  from True have "dynamic_commitLink cfg env a result d = (case p of (d, failure) \<Rightarrow>
      case failure of Some e \<Rightarrow> (cleanup_after cfg env (fallbackLocked env a d), Some e) | None \<Rightarrow> (commitAttemptLocked a d, None))"
    by (simp add: dynamic_commitLink_def Let_def p_def)
  then have H: "fst (dynamic_commitLink cfg env a result d) =
      (case failure of Some x \<Rightarrow> cleanup_after cfg env (fallbackLocked env a e) | None \<Rightarrow> commitAttemptLocked a e)"
    by (simp add: e split: option.split)
  show ?thesis
  proof (cases failure)
    case None
    have "isCurrentAttemptLocked e a" "at_state (object e a) \<in> {dynamicAttempting, dynamicRecovering, dynamicUp}"
      using quiet_current[OF q] quiet_object[OF q] True t(1) by auto
    with None show ?thesis by (simp add: H quiet_then_moves[OF q assms commitAttempt_moves])
  next
    case (Some x)
    show ?thesis by (simp add: H Some quiet_then_moves[OF q assms cleanup_moves])
  qed
qed (use assms in \<open>auto simp: dynamic_commitLink_def moves_refl split: option.split\<close>)

lemma staticTakesOver_moves: "engine_good d \<Longrightarrow> moves 0 d (staticTakesOver cfg env remote d)"
  by (simp add: staticTakesOver_def failAttempt_moves moves_refl split: option.split)

lemma control_ready_moves: "engine_good d \<Longrightarrow> moves 0 d (control_ready a value d)"
  using moves_then_quiet[OF moves_refl quiet_modify, of d "\<lambda>x. x\<lparr>at_controlReady := value\<rparr>" a]
  by (simp add: control_ready_def moves_refl)

lemma control_failed_moves:
  assumes "engine_good d"
  shows "moves 0 d (control_failed cfg env a ctx d)"
proof (cases "isCurrentAttemptLocked d a \<and> at_state (object d a) = dynamicUp")
  case True
  have "moves 0 d (modify a (\<lambda>x. x\<lparr>at_state := dynamicRecovering\<rparr>) d)"
    by (rule modify_moves) (use True assms in \<open>auto simp: edge_def\<close>)
  from moves_then_quiet[OF this quiet_arm] True show ?thesis by (simp add: control_failed_def)
qed (use assms in \<open>auto simp: control_failed_def moves_refl\<close>)

lemma expireConnectivity_moves: "engine_good d \<Longrightarrow> moves 0 d (expireConnectivity a ctx epoch d)"
  by (auto simp: expireConnectivity_def moves_refl same_core_def core_simps intro!: moves_core split: option.split)

lemma deferred_cleanup_moves:
  assumes "engine_good d"
  shows "moves 0 d (deferred_cleanup cfg env remote ident plan d)"
proof (cases "map_option cu_ident (map_of (en_pendingCleanups d) remote) = Some ident")
  case True
  then have "map_of (en_pendingCleanups d) remote \<noteq> None" by auto
  define e where "e = cancelDeferredCleanupLocked remote d"
  note cd = cancelDeferred[OF assms, of remote, folded e_def]
  have r: "moves 1 e (removeInterface cfg env 0 plan e) \<and> profile (removeInterface cfg env 0 plan e) = profile e"
    by (rule removeInterface_quiet[OF cd(1)])
  have "deferred_cleanup cfg env remote ident plan d = e \<or> deferred_cleanup cfg env remote ident plan d = removeInterface cfg env 0 plan e"
    using True by (auto simp: deferred_cleanup_def e_def Let_def split: option.split)
  then show ?thesis using r cd \<open>map_of (en_pendingCleanups d) remote \<noteq> None\<close> by (auto simp: moves_def)
qed (use assms in \<open>simp add: deferred_cleanup_def moves_refl\<close>)

lemma accept_sent_moves:
  assumes "engine_good d" "isCurrentAttemptLocked d a \<Longrightarrow> at_state (object d a) = dynamicProbing"
  shows "moves 0 d (accept_sent cfg env a d)"
  using assms by (auto simp: accept_sent_def failAttempt_moves moves_refl startProbe_moves split: option.split)

lemma proposal_sent_moves:
  assumes "engine_good d"
  shows "moves 0 d (proposal_sent cfg env a d)"
  using assms moves_then_quiet[OF moves_refl quiet_modify, of d "\<lambda>x. x\<lparr>at_responseTimer := Some (le_now env 6 + dynamicResponseTimeout)\<rparr>" a]
  by (simp add: proposal_sent_def failAttempt_moves moves_refl split: option.split)

lemma probe_finished_moves:
  assumes "engine_good d"
  shows "moves 0 d (probe_finished cfg env a err d)"
proof -
  let ?e = "if err = None then d else failAttempt cfg env a [dynamicProbing] d"
  have "moves 0 d ?e" using assms by (simp add: moves_refl failAttempt_moves)
  moreover have "same_core ?e (udp_close env u ?e)" for u by (simp add: same_core_def core_simps)
  ultimately show ?thesis
    by (auto simp: probe_finished_def Let_def intro: moves_then_quiet[OF _ quiet_core] split: option.split)
qed

lemma handoff_receive_moves:
  assumes "engine_good d" "handoff_receive dcfg env a l ep d = (d', r)"
  shows "moves 0 d d'"
proof -
  have "quiet d d'"
  proof (cases "at_udp (object d a)")
    case None
    with assms(2) show ?thesis by (auto simp: handoff_receive_def quiet_refl split: sum.splits if_splits)
  next
    case (Some u)
    obtain calls primary where h: "probe_handoff (de_system env) (ua_primary u) (rn_calls d) = (calls, primary)" by fastforce
    define e where "e = own_plan (at_plan (object d a)) (Some (lp_lease primary))
      (modify a (\<lambda>x. x\<lparr>at_udp := Some (u\<lparr>ua_primary := primary\<rparr>), at_port := Some (lp_lease primary)\<rparr>) (d\<lparr>rn_calls := calls\<rparr>))"
    have "quiet d (d\<lparr>rn_calls := calls\<rparr>)" by (simp add: quiet_def profile_def)
    then have qe: "quiet d e" unfolding e_def by (rule quiet_trans[OF _ quiet_trans[OF quiet_modify quiet_own]]) simp_all
    define plan where "plan = (at_plan (object d a))\<lparr>Probing := False, ReceiveOnly := True\<rparr>"
    obtain f plan' err where f: "ConfigureDynamic dcfg env plan (ua_remotePublicKey u) ep e = (f, plan', err)"
      by (metis prod_cases3)
    note qf = quiet_trans[OF qe quiet_core[OF ConfigureDynamic_core[OF f]]]
    have "quiet d (modify a (\<lambda>x. x\<lparr>at_plan := plan'\<rparr>) f)" by (rule quiet_trans[OF qf quiet_modify]) simp_all
    with assms(2) Some h f qf show ?thesis
      by (auto simp: handoff_receive_def Let_def plan_def e_def quiet_refl split: sum.splits if_splits option.splits)
  qed
  then show ?thesis by (rule moves_then_quiet[OF moves_refl[OF assms(1)]])
qed

lemma handoff_connect_moves:
  assumes "engine_good d" "handoff_connect dcfg env a plan ep d = (d', r)"
  shows "r \<noteq> None \<Longrightarrow> moves 0 d d'"
    and "r = None \<Longrightarrow> engine_good d' \<and> count d' \<le> count d \<and> isCurrentAttemptLocked d a \<and> a < length (en_objects d)
      \<and> snd (profile d ! a) = dynamicProbing \<and> profile d' = (profile d)[a := (fst (profile d ! a), dynamicAttempting)]"
proof -
  have "(r \<noteq> None \<longrightarrow> moves 0 d d') \<and> (r = None \<longrightarrow> engine_good d' \<and> count d' \<le> count d \<and> isCurrentAttemptLocked d a \<and> a < length (en_objects d)
      \<and> snd (profile d ! a) = dynamicProbing \<and> profile d' = (profile d)[a := (fst (profile d ! a), dynamicAttempting)])"
  proof (cases "\<exists>u. at_udp (object d a) = Some u \<and> awaits_handoff d a u")
    case True
    then obtain u where u: "at_udp (object d a) = Some u" "awaits_handoff d a u" by blast
    then have cur: "isCurrentAttemptLocked d a" "at_state (object d a) = dynamicProbing" by (auto simp: awaits_handoff_def)
    note t = table_current[OF conjunct1[OF assms(1)[unfolded engine_good_def]], of a]
    obtain f plan' err where f: "ConfigureDynamic dcfg env (plan\<lparr>ReceiveOnly := False\<rparr>) (ua_remotePublicKey u) ep d = (f, plan', err)"
      by (metis prod_cases3)
    note qf = quiet_core[OF ConfigureDynamic_core[OF f]]
    have mf: "moves 0 d f" by (rule moves_then_quiet[OF moves_refl[OF assms(1)] qf])
    define F where "F = (\<lambda>x::dynamicAttempt. x\<lparr>at_plan := plan', at_state := dynamicAttempting\<rparr>)"
    have cf: "isCurrentAttemptLocked f a" using quiet_current[OF qf t(1)] cur by simp
    have "at_remote (F (object f a)) = at_remote (object f a)" "at_state (F (object f a)) \<noteq> dynamicStopped" by (simp_all add: F_def)
    note mg = modify_good[where f = F, OF moves_good[OF mf] cf this]
    let ?g = "startConnectivityLocked (dy_durable dcfg) env a (modify a F f)"
    note qg = quiet_start[of "modify a F f" "dy_durable dcfg" env a]
    have pf: "profile f = profile d" using qf by (simp add: quiet_def)
    have "engine_good ?g" "count ?g \<le> count d" "profile ?g = (profile d)[a := (fst (profile d ! a), dynamicAttempting)]"
      using quiet_good[OF qg mg(1)] quiet_count[OF qg] mg(2,3) quiet_count[OF qf] pf by (simp_all add: F_def)
    moreover have "snd (profile d ! a) = dynamicProbing" using t(1) cur by (simp add: profile_nth)
    ultimately show ?thesis using mf assms(2) u f cur t(1)
      by (auto simp: handoff_connect_def F_def[symmetric] split: option.splits)
  qed (use assms in \<open>auto simp: handoff_connect_def moves_refl split: option.splits if_splits\<close>)
  then show "r \<noteq> None \<Longrightarrow> moves 0 d d'" "r = None \<Longrightarrow> engine_good d' \<and> count d' \<le> count d \<and> isCurrentAttemptLocked d a \<and> a < length (en_objects d)
      \<and> snd (profile d ! a) = dynamicProbing \<and> profile d' = (profile d)[a := (fst (profile d ! a), dynamicAttempting)]" by blast+
qed

lemma unprepare_moves:
  assumes "engine_good d"
  shows "moves 1 d (unprepare env plan d)" "profile (unprepare env plan d) = profile d"
proof -
  have R: "rn_resources (unprepare env plan d) = fst (removed plan (le_remove env 0) (rn_resources d, rn_pool d))"
    "en_attempts (unprepare env plan d) = en_attempts d" "en_pendingCleanups (unprepare env plan d) = en_pendingCleanups d"
    by (simp_all add: unprepare_def Let_def core_simps split: prod.split)
  show p: "profile (unprepare env plan d) = profile d"
    by (simp add: unprepare_def Let_def profile_def core_simps split: prod.split)
  from assms have "distinct (map fst (rn_resources d))" by (simp add: engine_good_def)
  from removed_keys[OF this] cleanups_removed[OF this] removed_owned[of "rn_resources d"] assms show "moves 1 d (unprepare env plan d)"
    by (simp add: moves_def engine_good_def count_def R p)
qed

lemma quiet_then_unprepare: "quiet d e \<Longrightarrow> engine_good d \<Longrightarrow> moves 1 d (unprepare env plan e)"
  by (rule quiet_then_moves[OF _ _ unprepare_moves(1)])

lemma quiet_durable: "quiet d (d\<lparr>rn_durable := m\<rparr>)"
  by (simp add: quiet_def profile_def)

lemma restore_link_moves:
  assumes "engine_good d" "map_of (en_attempts d) (UUID (dr_Peer record)) = None"
    "restore_link dcfg env record plan lease d = (d', r)"
  shows "moves 1 d d'"
proof -
  let ?cfg = "dy_durable dcfg"
  define endpoint where "endpoint = (if active (dc_desired ?cfg) then fixedFor record (UUID (dr_Peer record)) else NoAddrPort)"
  obtain e x where e: "on_calls (sys_PrepareLink (de_system env) plan) (own_plan plan (Some lease) d) = (e, x)" by fastforce
  note qe = quiet_trans[OF quiet_own quiet_core[OF on_calls_core[OF e]]]
  show ?thesis
  proof (cases x)
    case (Inl err)
    with assms(3) e quiet_then_unprepare[OF qe assms(1)] show ?thesis by (auto simp: restore_link_def Let_def)
  next
    case (Inr p)
    obtain f p' err where f: "ConfigureDynamic dcfg env p (dr_PublicKey record) endpoint e = (f, p', err)" by (metis prod_cases3)
    note qf = quiet_trans[OF qe quiet_core[OF ConfigureDynamic_core[OF f]]]
    obtain m err' where m: "confirmRestore ?cfg (le_durable env) record (ListenPort p') (rn_durable f) = (m, err')" by fastforce
    note qg = quiet_trans[OF qf quiet_durable[of f m]]
    note qh = quiet_trans[OF qg quiet_own[of _ p' "Some lease"]]
    let ?h = "own_plan p' (Some lease) (f\<lparr>rn_durable := m\<rparr>)"
    have "moves 1 d (add_attempt (restored_attempt record p' lease (AP_IsValid endpoint)) ?h)"
      by (rule quiet_then_moves[OF qh assms(1) add_moves(1)]) (use qh assms(2) in \<open>simp_all add: restored_attempt_def quiet_def\<close>)
    note final = moves_then_quiet[OF this quiet_start[of _ ?cfg env "length (en_objects ?h)"]]
    from assms(3) e Inr f m quiet_then_unprepare[OF qf assms(1)] quiet_then_unprepare[OF qg assms(1)] final show ?thesis
      by (auto simp: restore_link_def Let_def endpoint_def[symmetric] split: option.splits)
  qed
qed

lemma restore_safe:
  assumes "engine_good d" "restore dcfg env record d = (d', r)"
  shows "safe d d'"
proof -
  consider (refused) "d' = d"
    | (port) choice e x where "resourceCountLocked d < maxDynamicLinks" "map_of (en_attempts d) (UUID (dr_Peer record)) = None"
        "restore_port env choice (dr_LocalPort record) d = (e, x)"
        "(d', r) = (case x of Inl err \<Rightarrow> (e, Some err)
           | Inr lease \<Rightarrow> restore_link dcfg env record
               ((BuildDynamicLink dcfg (nodeUID dcfg (dr_Peer record)))\<lparr>OwnerAlias :=
                 OwnerAlias (BuildDynamicLink dcfg (nodeUID dcfg (dr_Peer record))) @ '':'' @
                 pm_uuid (dy_primitives dcfg) (case de_operationID env of Inr g \<Rightarrow> g), ListenPort := pl_port lease\<rparr>) lease e)"
    using assms(2) by (auto simp: restore_def Let_def split: if_splits sum.splits prod.splits)
  then show ?thesis
  proof cases
    case refused
    with moves_refl[OF assms(1)] moves_safe show ?thesis by simp
  next
    case port
    then have q: "quiet d e"
      by (auto simp: restore_port_def quiet_def profile_def Let_def split: prod.splits)
    have ae: "map_of (en_attempts e) (UUID (dr_Peer record)) = None" using q port(2) by (simp add: quiet_def)
    show ?thesis
    proof (cases x)
      case (Inl err)
      with port(4) moves_safe[OF moves_then_quiet[OF moves_refl[OF assms(1)] q]] show ?thesis by simp
    next
      case (Inr lease)
      with port(4) have "(d', r) = restore_link dcfg env record
               ((BuildDynamicLink dcfg (nodeUID dcfg (dr_Peer record)))\<lparr>OwnerAlias :=
                 OwnerAlias (BuildDynamicLink dcfg (nodeUID dcfg (dr_Peer record))) @ '':'' @
                 pm_uuid (dy_primitives dcfg) (case de_operationID env of Inr g \<Rightarrow> g), ListenPort := pl_port lease\<rparr>) lease e" by simp
      from restore_link_moves[OF quiet_good[OF q assms(1)] ae this[symmetric]]
      have "moves 1 d d'" by (intro quiet_then_moves[OF q assms(1)])
      from moves_safe1[OF this port(1)] show ?thesis .
    qed
  qed
qed

lemma removeFailed_moves: "engine_good d \<Longrightarrow> moves 0 d (removeFailed cfg env peer d)"
  by (simp add: removeFailed_def failAttempt_moves moves_refl split: option.split)

lemma retireUnavailable_moves: "engine_good d \<Longrightarrow> moves 0 d (retireUnavailable cfg env ready peer d)"
  by (simp add: retireUnavailable_def failAttempt_moves moves_refl split: option.split)

text \<open>The retry of failed removals, \<open>retryLinkCleanup\<close>, on the state of the engine.\<close>

definition retry_cleanup :: "dynamic_env \<Rightarrow> dynamicEngine \<Rightarrow> dynamicEngine" where
  "retry_cleanup env d =
    (case retryLinkCleanup (de_system env) (rn_resources d, rn_pool d) (rn_calls d) of
       (calls, resources, pool) \<Rightarrow> d\<lparr>rn_calls := calls, rn_resources := resources, rn_pool := pool\<rparr>)"

lemma cleanups_removed_marked:
  assumes "distinct (map fst m)" "err = None \<or> (\<exists>r. map_of m (OwnerAlias plan) = Some r \<and> lr_cleanup r) \<or> map_of m (OwnerAlias plan) = None"
  shows "cleanups (fst (removed plan err (m, p))) \<le> cleanups m"
proof -
  have mark: "map (\<lambda>(a, x). if a = al then (a, x\<lparr>lr_cleanup := True\<rparr>) else (a, x)) m = m" if "map_of m al = Some r" "lr_cleanup r" for al r
  proof (rule map_idI)
    fix e assume e: "e \<in> set m"
    then have "map_of m (fst e) = Some (snd e)" using assms(1) by simp
    with that show "(case e of (a, x) \<Rightarrow> if a = al then (a, x\<lparr>lr_cleanup := True\<rparr>) else (a, x)) = e"
      by (cases "fst e = al") (simp_all add: case_prod_beta prod_eq_iff)
  qed
  with assms(2) cleanups_filter[of "\<lambda>(a, _). a \<noteq> OwnerAlias plan" m] show ?thesis
    by (auto simp: removed_def split: option.split)
qed

text \<open>Every plan the retry visits belongs to a resource that waits for its removal or is gone.\<close>

definition marked :: "resources \<Rightarrow> LinkPlan \<Rightarrow> bool" where
  "marked m plan = (case map_of m (OwnerAlias plan) of None \<Rightarrow> True | Some r \<Rightarrow> lr_cleanup r)"

lemma map_of_without: "map_of (filter (\<lambda>(a, _). a \<noteq> al) m) b = (if b = al then None else map_of m b)"
  by (induction m) auto

lemma map_of_mark: "map_of (map (\<lambda>(a, x). if a = al then (a, f x) else (a, x)) m) b =
    (if b = al then map_option f (map_of m b) else map_of m b)"
  by (induction m) auto

lemma marked_removed: "marked m q \<Longrightarrow> marked (fst (removed plan err (m, p))) q"
  by (cases "map_of m (OwnerAlias plan)"; cases err; cases "OwnerAlias q = OwnerAlias plan")
     (simp_all add: marked_def removed_def map_of_without map_of_mark)

lemma cleanup_plans_le:
  "distinct (map fst (fst mp)) \<Longrightarrow> (\<And>plan. plan \<in> set plans \<Longrightarrow> marked (fst mp) plan) \<Longrightarrow> cleanup_plans sys plans mp n = (n', mp') \<Longrightarrow>
    distinct (map fst (fst mp')) \<and> cleanups (fst mp') \<le> cleanups (fst mp) \<and> (owned (fst mp) \<longrightarrow> owned (fst mp'))"
proof (induction plans arbitrary: mp n)
  case (Cons plan plans)
  obtain m p where mp: "mp = (m, p)" by fastforce
  obtain k err where k: "sys_RemoveDynamic sys plan n = (k, err)" by fastforce
  let ?mp = "removed plan err mp"
  have "cleanups (fst ?mp) \<le> cleanups m" using Cons.prems(1,2)
    unfolding mp by (intro cleanups_removed_marked) (force simp: marked_def split: option.splits)+
  moreover have "distinct (map fst (fst ?mp))" using Cons.prems(1) by (simp add: mp removed_keys)
  moreover have "owned m \<Longrightarrow> owned (fst ?mp)" by (simp add: mp removed_owned)
  moreover have "marked (fst ?mp) q" if "q \<in> set plans" for q using Cons.prems(2)[of q] that by (simp add: mp marked_removed)
  ultimately show ?case using Cons.IH[of ?mp k] Cons.prems(3) k by (auto simp: mp)
qed simp

lemma retry_cleanup_moves:
  assumes "engine_good d"
  shows "moves 0 d (retry_cleanup env d)"
proof -
  obtain calls m p where r: "retryLinkCleanup (de_system env) (rn_resources d, rn_pool d) (rn_calls d) = (calls, m, p)" by (metis prod_cases3)
  from assms(1) have dist: "distinct (map fst (rn_resources d))" and ow: "owned (rn_resources d)" by (simp_all add: engine_good_def)
  have "marked (rn_resources d) plan" if mem: "plan \<in> set (map (\<lambda>(_, r). lr_plan r) (filter (\<lambda>(_, r). lr_cleanup r) (rn_resources d)))" for plan
  proof -
    from mem obtain a x where "(a, x) \<in> set (rn_resources d)" "lr_cleanup x" "plan = lr_plan x" by auto
    with ow dist show ?thesis by (force simp: owned_def list_all_iff marked_def)
  qed
  from cleanup_plans_le[of "(rn_resources d, rn_pool d)", OF _ _ r[unfolded retryLinkCleanup_def]] this dist
  ow have "distinct (map fst m) \<and> cleanups m \<le> cleanups (rn_resources d) \<and> owned m" by simp
  then have "quiet d (retry_cleanup env d)" by (simp add: retry_cleanup_def r quiet_def profile_def)
  then show ?thesis by (rule moves_then_quiet[OF moves_refl[OF assms(1)]])
qed

lemma adopt_link_moves:
  assumes "engine_good d" "map_of (en_attempts d) (UUID (res_RemoteUID (wl_Result receipt))) = None"
    "adopt_link cfg env receipt plan lease d = (d', r)"
  shows "moves 1 d d'"
proof -
  define state where "state = adopted_state cfg receipt plan"
  define e where "e = fst (materializeLink env 0 plan (ms_local state) (ms_peers state) (called (CallKeepLinkAlive plan) d))"
  define f where "f = SetLinkState cfg (lp_InterfaceName plan) True (ms_local state)
    (e\<lparr>rn_states := AList.update (lp_InterfaceName plan) state (rn_states e)\<rparr>)"
  have q: "quiet d (called (CallKeepLinkAlive plan) d)" "quiet d e" "quiet d f"
    by (rule quiet_core, simp add: same_core_def core_simps f_def e_def materializeLink_def)+
  have a: "moves 1 d (add_attempt (adopted_attempt cfg receipt plan lease) f)"
    by (rule quiet_then_moves[OF q(3) assms(1) add_moves(1)]) (use q assms(2) in \<open>simp_all add: adopted_attempt_def quiet_def\<close>)
  note s = moves_then_quiet[OF a quiet_start[of _ cfg env "length (en_objects f)"]]
  have w: "quiet d g \<Longrightarrow> moves 1 d g" for g
    by (rule moves_weaken[OF moves_then_quiet[OF moves_refl[OF assms(1)]]]) simp_all
  show ?thesis using assms(3) w[OF q(1)] w[OF q(2)] w[OF q(3)] s
    by (auto simp: adopt_link_def Let_def state_def[symmetric] e_def f_def materializeLink_def split: option.splits if_splits)
qed

end
