(* ===== verification/Link_Health.thy ===== *)
theory Link_Health
  imports Attempt_Table
begin

text \<open>
  The supervision of a link, \<^verbatim>\<open>internal/runtime/link_health.go\<close>, with the controls of
  \<^verbatim>\<open>link_manager.go\<close> and the retry of \<^verbatim>\<open>dynamic_lifecycle.go\<close>: one loop for an interface, which pings
  the peer, starts negotiations, installs what they agree on, commits the link when the peer is
  heard and reports it lost when it is silent.  The loop handles one event at a time; the rest of
  the node runs between two events.  What the loop reports to is an interface, the locale
  \<open>link_control\<close>, and the two controls of the code, of a configured link and of an attempt, are its
  interpretations.  Shown: every event keeps the loop and the table of links in agreement.
\<close>

section \<open>Challenges\<close>

record linkHealth =
  lh_pending :: array16
  lh_expires :: time
  lh_lastPong :: time

abbreviation linkPingInterval :: duration where
  "linkPingInterval \<equiv> 10 * second"

abbreviation no_health :: linkHealth where
  "no_health \<equiv> \<lparr>lh_pending = 0, lh_expires = 0, lh_lastPong = 0\<rparr>"

definition challenge :: "array16 result \<Rightarrow> time \<Rightarrow> linkHealth \<Rightarrow> linkHealth \<times> array16 result" where
  "challenge random now h =
    (case random of Inl e \<Rightarrow> (h, Inl e) | Inr ident \<Rightarrow> (h\<lparr>lh_pending := ident, lh_expires := now + linkPingInterval\<rparr>, Inr ident))"

definition pong :: "array16 \<Rightarrow> time \<Rightarrow> linkHealth \<Rightarrow> linkHealth \<times> bool" where
  "pong ident now h =
    (if ident = 0 \<or> ident \<noteq> lh_pending h \<or> \<not> now < lh_expires h then (h, False)
     else (h\<lparr>lh_pending := 0, lh_lastPong := now\<rparr>, True))"

definition health_expired :: "time \<Rightarrow> linkHealth \<Rightarrow> bool" where
  "health_expired now h = (lh_lastPong h \<noteq> 0 \<and> \<not> now < lh_lastPong h + linkFailureTimeout)"

section \<open>The control of a link\<close>

record linkControl =
  lc_automatic :: bool
  lc_passive :: bool
  lc_peer :: array16
  lc_ready :: "bool \<Rightarrow> dynamicEngine \<Rightarrow> dynamicEngine"
  lc_commit :: "dynamic_env \<Rightarrow> Result \<Rightarrow> dynamicEngine \<Rightarrow> dynamicEngine \<times> error option"
  lc_failed :: "dynamic_env \<Rightarrow> dynamicEngine \<Rightarrow> dynamicEngine"

text \<open>A configured link reports nothing but its commitment: \<open>ready\<close> and \<open>failed\<close> are nil there.\<close>

definition staticControl :: "durable_config \<Rightarrow> LinkPlan \<Rightarrow> bool \<Rightarrow> linkControl" where
  "staticControl cfg plan onCommit =
    \<lparr>lc_automatic = False, lc_passive = False, lc_peer = 0, lc_ready = (\<lambda>_ d. d),
     lc_commit = (\<lambda>env result d. commitLink cfg env plan False result onCommit d), lc_failed = (\<lambda>_ d. d)\<rparr>"

definition linkControl_of :: "durable_config \<Rightarrow> nat \<Rightarrow> nat \<Rightarrow> dynamicEngine \<Rightarrow> linkControl" where
  "linkControl_of cfg a ctx d0 =
    \<lparr>lc_automatic = True, lc_passive = \<not> at_localProposal (object d0 a), lc_peer = at_remote (object d0 a),
     lc_ready = control_ready a, lc_commit = (\<lambda>env result d. dynamic_commitLink cfg env a result d),
     lc_failed = (\<lambda>env d. control_failed cfg env a ctx d)\<rparr>"

section \<open>The loop\<close>

record supervisor =
  sv_result :: "Result option"
  sv_remote :: addr
  sv_health :: linkHealth
  sv_healthy :: bool
  sv_busy :: bool
  sv_ready :: bool
  sv_changed :: bool
  sv_nextPing :: time
  sv_nextNegotiation :: time

text \<open>What the loop sends or starts: \<open>Negotiate\<close> starts a worker, as the dialling side or not.\<close>

datatype link_output =
    SendHello
  | SendAck addr
  | SendPing addr array16
  | SendPong addr array16 addrport
  | Negotiate bool addr
  | CloseConnection
  | InstallReply "error option"
  | ObserveLater addrport addr time

datatype link_event =
    Accepted "addr option result"
  | Finished "error option"
  | Install Result addr
  | Packet addr Message
  | HelloTimer
  | Tick time
  | ReadError error
  | Done error

record health_env =
  he_env :: dynamic_env
  he_random :: "array16 result"
  he_observed :: "addrport option result"

record link_params =
  lk_cfg :: durable_config
  lk_plan :: LinkPlan
  lk_control :: linkControl
  lk_local :: addr

text \<open>A step: the state of the loop and of the node, what is sent, and the error the loop returns with.\<close>

type_synonym link_reply = "supervisor \<times> dynamicEngine \<times> link_output list \<times> error option"

definition shouldDial :: "addr \<Rightarrow> addr \<Rightarrow> bool" where
  "shouldDial local remote = (local < remote)"

definition shouldAcceptDiscovered :: "addr \<Rightarrow> addr \<Rightarrow> bool" where
  "shouldAcceptDiscovered local remote = (Is6 remote \<and> IsLinkLocalUnicast remote \<and> remote \<noteq> local \<and> \<not> shouldDial local remote)"

definition link_start :: "time \<Rightarrow> bool \<Rightarrow> addr \<Rightarrow> supervisor \<Rightarrow> supervisor \<times> link_output list" where
  "link_start now initiator target sv =
    (sv\<lparr>sv_busy := True, sv_changed := False, sv_nextNegotiation := now + second\<rparr>, [Negotiate initiator target])"

definition ping :: "health_env \<Rightarrow> time \<Rightarrow> supervisor \<Rightarrow> supervisor \<times> link_output list \<times> error option" where
  "ping env now sv =
    (if sv_result sv = None \<or> \<not> sv_ready sv then (sv, [], None)
     else
       (case challenge (he_random env) now (sv_health sv) of
          (h, Inl e) \<Rightarrow> (sv\<lparr>sv_health := h\<rparr>, [], Some e)
        | (h, Inr ident) \<Rightarrow> (sv\<lparr>sv_health := h, sv_nextPing := now + linkPingInterval\<rparr>, [SendPing (sv_remote sv) ident], None)))"

definition withdraw :: "link_params \<Rightarrow> health_env \<Rightarrow> supervisor \<Rightarrow> dynamicEngine \<Rightarrow> supervisor \<times> dynamicEngine \<times> error option" where
  "withdraw p env sv d =
    (case withdrawLinkAdjacency (lk_cfg p) (he_env env) (lk_plan p) d of
       (d, Some e) \<Rightarrow> (sv, d, Some e)
     | (d, None) \<Rightarrow> (sv\<lparr>sv_healthy := False\<rparr>, lc_failed (lk_control p) (he_env env) d, None))"

text \<open>
  The entry of the table of links is read and written back: of a missing entry that makes one with
  zero fields but for the time.
\<close>

abbreviation zero_state :: materializedState where
  "zero_state \<equiv> \<lparr>ms_desired = no_plan, ms_local = [], ms_peers = [], ms_remote = 0, ms_dynamic = False, ms_active = False,
     ms_committed = False, ms_lastPong = 0\<rparr>"

definition note_pong :: "LinkPlan \<Rightarrow> time \<Rightarrow> 'a runner_scheme \<Rightarrow> 'a runner_scheme" where
  "note_pong plan now r =
    (let state = (case map_of (rn_states r) (lp_InterfaceName plan) of None \<Rightarrow> zero_state | Some state \<Rightarrow> state) in
     r\<lparr>rn_states := AList.update (lp_InterfaceName plan) (state\<lparr>ms_lastPong := now\<rparr>) (rn_states r)\<rparr>)"

definition commit_health ::
  "link_params \<Rightarrow> health_env \<Rightarrow> Result \<Rightarrow> supervisor \<Rightarrow> dynamicEngine \<Rightarrow> supervisor \<times> dynamicEngine \<times> error option" where
  "commit_health p env result sv d =
    (if sv_healthy sv then (sv, d, None)
     else
       (case lc_commit (lk_control p) (he_env env) result d of
          (d, Some e) \<Rightarrow> (sv, d, Some e)
        | (d, None) \<Rightarrow>
          (sv\<lparr>sv_healthy := True\<rparr>,
           if lc_automatic (lk_control p) then d
           else staticTakesOver (lk_cfg p) (he_env env) (UUID (res_RemoteUID result)) d, None)))"

definition confirm ::
  "link_params \<Rightarrow> health_env \<Rightarrow> time \<Rightarrow> supervisor \<Rightarrow> dynamicEngine \<Rightarrow> supervisor \<times> dynamicEngine \<times> error option" where
  "confirm p env now sv d =
    (case sv_result sv of None \<Rightarrow> (sv, d, Some (Panic ''nil pointer dereference'')) | Some result \<Rightarrow>
     case commit_health p env result sv d of
       (sv, d, Some e) \<Rightarrow> (sv, d, Some e)
     | (sv, d, None) \<Rightarrow>
       (let sv = sv\<lparr>sv_health := (sv_health sv)\<lparr>lh_lastPong := now\<rparr>\<rparr>;
            d = rememberWarmLink (he_env env) 1 (lk_plan p) result (sv_remote sv) (note_pong (lk_plan p) now d) in
        (sv, d, None)))"

section \<open>The events\<close>

definition on_accepted :: "link_params \<Rightarrow> health_env \<Rightarrow> addr option \<Rightarrow> supervisor \<Rightarrow> dynamicEngine \<Rightarrow> link_reply" where
  "on_accepted p env target sv d =
    (case target of None \<Rightarrow> (sv, d, [CloseConnection], None) | Some target \<Rightarrow>
     if \<not> shouldAcceptDiscovered (lk_local p) target \<and> \<not> (sv_healthy sv \<and> target = sv_remote sv)
        \<or> sv_busy sv \<or> le_now (he_env env) 0 < sv_nextNegotiation sv
     then (sv, d, [CloseConnection], None)
     else (case link_start (le_now (he_env env) 3) False target sv of (sv, out) \<Rightarrow> (sv, d, out, None)))"

definition on_finished :: "link_params \<Rightarrow> health_env \<Rightarrow> error option \<Rightarrow> supervisor \<Rightarrow> dynamicEngine \<Rightarrow> link_reply" where
  "on_finished p env e sv d =
    (let sv = sv\<lparr>sv_busy := False\<rparr> in
     case e of
       Some _ \<Rightarrow>
         (if sv_changed sv then sv\<lparr>sv_ready := False, sv_result := None, sv_health := no_health\<rparr> else sv, d, [], None)
     | None \<Rightarrow>
       (let sv = sv\<lparr>sv_ready := (sv_result sv \<noteq> None)\<rparr>;
            (sv, d, err) = (if sv_ready sv then confirm p env (le_now (he_env env) 0) sv d else (sv, d, None)) in
        case err of
          Some err \<Rightarrow> (sv, d, [], Some err)
        | None \<Rightarrow> (case ping env (le_now (he_env env) 2) sv of (sv, out, err) \<Rightarrow> (sv, d, out, err))))"

definition same_install :: "supervisor \<Rightarrow> Result \<Rightarrow> addr \<Rightarrow> bool" where
  "same_install sv v remote =
    (case sv_result sv of None \<Rightarrow> False
     | Some r \<Rightarrow> sv_remote sv = remote \<and> UUID (res_RemoteUID r) = UUID (res_RemoteUID v)
         \<and> res_RemoteLoopbackV6 r = res_RemoteLoopbackV6 v \<and> res_Proposal r = res_Proposal v)"

definition installed_state :: "durable_config \<Rightarrow> LinkPlan \<Rightarrow> bool \<Rightarrow> Result \<Rightarrow> materializedState" where
  "installed_state cfg plan automatic v =
    \<lparr>ms_desired = plan, ms_local = fst (EndpointAddresses (res_Proposal v) (own_id cfg) (UUID (res_RemoteUID v))), ms_peers = [],
     ms_remote = UUID (res_RemoteUID v), ms_dynamic = automatic, ms_active = False, ms_committed = False, ms_lastPong = 0\<rparr>"

text \<open>A negotiation agreed on something else: the old adjacency is withdrawn, the new addresses are installed.\<close>

definition install_new ::
  "link_params \<Rightarrow> health_env \<Rightarrow> Result \<Rightarrow> addr \<Rightarrow> supervisor \<Rightarrow> dynamicEngine \<Rightarrow> supervisor \<times> dynamicEngine \<times> error option \<times> error option" where
  "install_new p env v remote sv d =
    (let sv = sv\<lparr>sv_ready := False, sv_changed := True\<rparr> in
     case withdraw p env sv d of
       (sv, d, Some e) \<Rightarrow> (sv, d, Some e, Some e)
     | (sv, d, None) \<Rightarrow>
       (let state = installed_state (lk_cfg p) (lk_plan p) (lc_automatic (lk_control p)) v in
        case materializeLink (he_env env) 2 (lk_plan p) (ms_local state) [] d of
          (d, Some e) \<Rightarrow> (sv, d, Some e, None)
        | (d, None) \<Rightarrow>
          (sv\<lparr>sv_result := Some v, sv_remote := remote, sv_health := no_health\<rparr>,
           d\<lparr>rn_states := AList.update (lp_InterfaceName (lk_plan p)) state (rn_states d)\<rparr>, None, None)))"

definition on_install :: "link_params \<Rightarrow> health_env \<Rightarrow> Result \<Rightarrow> addr \<Rightarrow> supervisor \<Rightarrow> dynamicEngine \<Rightarrow> link_reply" where
  "on_install p env v remote sv d =
    (if lc_peer (lk_control p) \<noteq> 0 \<and> UUID (res_RemoteUID v) \<noteq> lc_peer (lk_control p)
     then (sv, d, [InstallReply (Some (ErrNew ''negotiated UID differs from routed target''))], None)
     else
       (case (if same_install sv v remote then (sv, d, None, None) else install_new p env v remote sv d) of
          (sv, d, Some e, stop) \<Rightarrow> (sv, d, [InstallReply (Some e)], stop)
        | (sv, d, None, _) \<Rightarrow>
          (case ping env (le_now (he_env env) 2) sv of (sv, out, err) \<Rightarrow> (sv, d, InstallReply None # out, err))))"

definition on_discovery :: "link_params \<Rightarrow> health_env \<Rightarrow> addr \<Rightarrow> Message \<Rightarrow> supervisor \<Rightarrow> dynamicEngine \<Rightarrow> link_reply" where
  "on_discovery p env source m sv d =
    (let ack = (if m_Type m = DiscoveryHello then [SendAck source] else []) in
     if \<not> sv_busy sv \<and> \<not> le_now (he_env env) 0 < sv_nextNegotiation sv \<and> shouldDial (lk_local p) source
        \<and> (\<not> sv_healthy sv \<or> m_Type m = DiscoveryHello)
     then (case link_start (le_now (he_env env) 3) True source sv of (sv, out) \<Rightarrow> (sv, d, ack @ out, None))
     else (sv, d, ack, None))"

definition on_pong :: "link_params \<Rightarrow> health_env \<Rightarrow> Message \<Rightarrow> supervisor \<Rightarrow> dynamicEngine \<Rightarrow> link_reply" where
  "on_pong p env m sv d =
    (let now = le_now (he_env env) 0 in
     case pong (m_OperationID m) now (sv_health sv) of
       (h, False) \<Rightarrow> (sv, d, [], None)
     | (h, True) \<Rightarrow>
       (case confirm p env now (sv\<lparr>sv_health := h\<rparr>) d of
          (sv, d, Some e) \<Rightarrow> (sv, d, [], Some e)
        | (sv, d, None) \<Rightarrow>
          if AP_IsValid (m_Endpoint m)
          then (sv, fst (recordEndpointEvidence (he_env env) (lp_InterfaceName (lk_plan p)) (m_Endpoint m) d),
                [ObserveLater (m_Endpoint m) (sv_remote sv) now], None)
          else (sv, d, [], None)))"

definition on_packet :: "link_params \<Rightarrow> health_env \<Rightarrow> addr \<Rightarrow> Message \<Rightarrow> supervisor \<Rightarrow> dynamicEngine \<Rightarrow> link_reply" where
  "on_packet p env source m sv d =
    (if source = lk_local p then (sv, d, [], None)
     else if IsDiscovery (m_Type m) then on_discovery p env source m sv d
     else if sv_result sv = None \<or> \<not> sv_ready sv \<or> source \<noteq> sv_remote sv then (sv, d, [], None)
     else if m_Type m = LinkPing
     then (sv, d, [SendPong (sv_remote sv) (m_OperationID m) (case he_observed env of Inr (Some endpoint) \<Rightarrow> endpoint | _ \<Rightarrow> NoAddrPort)], None)
     else if m_Type m = LinkPong then on_pong p env m sv d
     else (sv, d, [], None))"

definition on_tick :: "link_params \<Rightarrow> health_env \<Rightarrow> time \<Rightarrow> supervisor \<Rightarrow> dynamicEngine \<Rightarrow> link_reply" where
  "on_tick p env now sv d =
    (let (sv, d) =
       (if sv_healthy sv \<and> health_expired now (sv_health sv)
        then (sv\<lparr>sv_healthy := False\<rparr>, lc_failed (lk_control p) (he_env env) (markLinkLost (lk_plan p) d)) else (sv, d)) in
     if sv_result sv \<noteq> None \<and> \<not> now < sv_nextPing sv
     then (case ping env now sv of (sv, out, err) \<Rightarrow> (sv, d, out, err)) else (sv, d, [], None))"

fun link_step :: "link_params \<Rightarrow> health_env \<Rightarrow> link_event \<Rightarrow> supervisor \<Rightarrow> dynamicEngine \<Rightarrow> link_reply" where
  "link_step p env (Accepted (Inl e)) sv d = (sv, d, [], Some e)"
| "link_step p env (Accepted (Inr target)) sv d = on_accepted p env target sv d"
| "link_step p env (Finished e) sv d = on_finished p env e sv d"
| "link_step p env (Install v remote) sv d = on_install p env v remote sv d"
| "link_step p env (Packet source m) sv d = on_packet p env source m sv d"
| "link_step p env HelloTimer sv d = (sv, d, if \<not> sv_healthy sv \<and> \<not> sv_busy sv then [SendHello] else [], None)"
| "link_step p env (Tick now) sv d = on_tick p env now sv d"
| "link_step p env (ReadError e) sv d = (sv, d, [], Some e)"
| "link_step p env (Done e) sv d = (sv, d, [], Some e)"

section \<open>Start and end\<close>

definition no_supervisor :: supervisor where
  "no_supervisor = \<lparr>sv_result = None, sv_remote = NoAddr, sv_health = no_health, sv_healthy = False, sv_busy = False, sv_ready = False,
     sv_changed = False, sv_nextPing = 0, sv_nextNegotiation = 0\<rparr>"

definition initial_supervisor :: "LinkPlan \<Rightarrow> dynamicEngine \<Rightarrow> supervisor" where
  "initial_supervisor plan d =
    (case takeWarmLink plan d of
       None \<Rightarrow> no_supervisor
     | Some receipt \<Rightarrow> no_supervisor\<lparr>sv_result := Some (wl_Result receipt), sv_remote := wl_Remote receipt, sv_ready := True,
         sv_health := no_health\<lparr>lh_lastPong := wl_LastPong receipt\<rparr>\<rparr>)"

definition manage_start :: "link_params \<Rightarrow> health_env \<Rightarrow> dynamicEngine \<Rightarrow> link_reply" where
  "manage_start p env d =
    (let d = lc_ready (lk_control p) True d in
     case ping env (le_now (he_env env) 0) (initial_supervisor (lk_plan p) d) of
       (sv, out, Some e) \<Rightarrow> (sv, lc_ready (lk_control p) False d, out, Some e)
     | (sv, out, None) \<Rightarrow> (sv, d, out @ (if lc_passive (lk_control p) then [] else [SendHello]), None))"

definition manage_end :: "link_params \<Rightarrow> dynamicEngine \<Rightarrow> dynamicEngine" where
  "manage_end p d = lc_ready (lk_control p) False d"

text \<open>
  What the supervision of an attempt does when its loop has returned: it ends, or it reports the
  link lost and starts another loop after a while.
\<close>

definition establish_next :: "durable_config \<Rightarrow> dynamic_env \<Rightarrow> nat \<Rightarrow> nat \<Rightarrow> bool \<Rightarrow> dynamicEngine \<Rightarrow> dynamicEngine \<times> bool" where
  "establish_next cfg env a ctx engineEnded d =
    (let plan = at_plan (object d a) in
     if committedLink plan d = None \<and> \<not> has (rn_durable d) (at_remote (object d a)) \<or> ctx \<in> set (en_cancelled d)
     then (if engineEnded then d else failAttempt cfg env a [dynamicAttempting, dynamicRecovering, dynamicUp] d, False)
     else (control_failed cfg env a ctx (markLinkLost plan d), True))"

section \<open>What the loop needs of its control\<close>

text \<open>
  A commitment that succeeds has written the entry of the link; neither the report of a failure nor
  the readiness touch the table.  \<open>serves\<close> says that the control still stands for the link of the
  plan.
\<close>

locale link_control =
  fixes control :: linkControl
    and cfg :: durable_config
    and plan :: LinkPlan
    and serves :: "dynamicEngine \<Rightarrow> bool"
  assumes commit_installs: "serves d \<Longrightarrow> lc_commit control env result d = (d', None) \<Longrightarrow>
      \<exists>t. rn_states d' = AList.update (lp_InterfaceName plan) (committed_state cfg plan (lc_automatic control) result t) (rn_states d)"
    and commit_serves: "serves d \<Longrightarrow> lc_commit control env result d = (d', None) \<Longrightarrow> serves d'"
    and failed_keeps: "rn_states (lc_failed control env d) = rn_states d"
    and failed_serves: "serves d \<Longrightarrow> serves (lc_failed control env d)"
    and ready_keeps: "rn_states (lc_ready control up d) = rn_states d"
    and ready_serves: "serves d \<Longrightarrow> serves (lc_ready control up d)"
    and objects_serve: "serves d \<Longrightarrow> en_objects d' = en_objects d \<Longrightarrow> serves d'"
    and configured_serves: "\<not> lc_automatic control \<Longrightarrow> serves d"

lemma commitLink_installs: "commitLink cfg env plan dynamic result onCommit r = (r', None) \<Longrightarrow>
    rn_states r' = AList.update (lp_InterfaceName plan) (committed_state cfg plan dynamic result (le_now env 1)) (rn_states r)"
  using commitLink_states[of cfg env plan dynamic result onCommit r] by simp

interpretation configured_link: link_control "staticControl cfg plan onCommit" cfg plan "\<lambda>_. True"
  by unfold_locales (auto simp: staticControl_def dest: commitLink_installs)

text \<open>The plan of an attempt is set before its supervision begins.\<close>

definition stands_for :: "nat \<Rightarrow> LinkPlan \<Rightarrow> dynamicEngine \<Rightarrow> bool" where
  "stands_for a plan d = (a < length (en_objects d) \<and> at_plan (object d a) = plan)"

definition same_plans :: "dynamicEngine \<Rightarrow> dynamicEngine \<Rightarrow> bool" where
  "same_plans d d' = (map at_plan (en_objects d') = map at_plan (en_objects d))"

lemma same_plans_stands: "same_plans d d' \<Longrightarrow> stands_for a plan d \<Longrightarrow> stands_for a plan d'"
  unfolding same_plans_def stands_for_def object_def by (metis length_map nth_map)

lemma same_plans_trans: "same_plans d d' \<Longrightarrow> same_plans d' d'' \<Longrightarrow> same_plans d d''"
  by (simp add: same_plans_def)

lemma same_plans_objects: "en_objects d' = en_objects d \<Longrightarrow> same_plans d d'"
  by (simp add: same_plans_def)

lemma same_plans_modify: "(\<And>x. at_plan (f x) = at_plan x) \<Longrightarrow> same_plans d (modify a f d)"
  unfolding same_plans_def by (rule nth_equalityI) (auto simp: modify_def object_def nth_list_update_if)

lemma failed_same_plans: "same_plans d (control_failed cfg env a ctx d)"
proof -
  have "same_plans d (armConnectivityDeadlineLocked cfg env a ctx (modify a (\<lambda>x. x\<lparr>at_state := dynamicRecovering\<rparr>) d))"
    unfolding armConnectivityDeadlineLocked_def Let_def by (intro same_plans_trans[OF same_plans_modify same_plans_modify]) simp_all
  then show ?thesis by (simp add: control_failed_def same_plans_objects)
qed

lemma ready_same_plans: "same_plans d (control_ready a up d)"
  by (simp add: control_ready_def same_plans_modify same_plans_objects)

lemma commitAttempt_same_plans: "same_plans d (commitAttemptLocked a d)"
proof -
  have "same_plans d (modify a f (close_session a (on_target u g (modify a h d))))"
    if "\<And>x. at_plan (f x) = at_plan x" "\<And>x. at_plan (h x) = at_plan x" for f g h u
    using same_plans_modify[of h d a, OF that(2)] same_plans_modify[of f "close_session a (on_target u g (modify a h d))" a, OF that(1)]
    by (simp add: same_plans_def core_simps)
  then show ?thesis by (simp add: commitAttemptLocked_def Let_def)
qed

lemma control_states [simp]:
  "rn_states (modify a f d) = rn_states d" "rn_states (on_target u g d) = rn_states d" "rn_states (close_session a d) = rn_states d"
  by (simp_all add: modify_def on_target_def close_session_def split: option.split)

lemma attempt_commit:
  assumes "dynamic_commitLink cfg env a result d = (d', None)"
  obtains e where "commitLink cfg env (at_plan (object d a)) True result False d = (e, None)" "d' = commitAttemptLocked a e"
  using assms by (auto simp: dynamic_commitLink_def Let_def split: option.splits if_splits prod.splits)

lemma attempt_commit_installs:
  assumes "dynamic_commitLink cfg env a result d = (d', None)"
  shows "rn_states d' = AList.update (lp_InterfaceName (at_plan (object d a)))
      (committed_state cfg (at_plan (object d a)) True result (le_now env 1)) (rn_states d)"
    and "same_plans d d'"
proof -
  from attempt_commit[OF assms] obtain e where
    e: "commitLink cfg env (at_plan (object d a)) True result False d = (e, None)" "d' = commitAttemptLocked a e" .
  from commitLink_installs[OF e(1)]
  show "rn_states d' = AList.update (lp_InterfaceName (at_plan (object d a)))
      (committed_state cfg (at_plan (object d a)) True result (le_now env 1)) (rn_states d)"
    by (simp add: e(2) commitAttemptLocked_def Let_def)
  from same_coreD(2)[OF commitLink_core[of d cfg env "at_plan (object d a)" True result False]] e(1)
  have "en_objects e = en_objects d" by simp
  with commitAttempt_same_plans[of e a] show "same_plans d d'" by (simp add: e(2) same_plans_def)
qed

lemma failed_states [simp]: "rn_states (control_failed cfg env a ctx d) = rn_states d"
  by (simp add: control_failed_def armConnectivityDeadlineLocked_def Let_def)

lemma ready_states [simp]: "rn_states (control_ready a up d) = rn_states d"
  by (simp add: control_ready_def)

interpretation attempt_link: link_control "linkControl_of cfg a ctx d0" cfg plan "stands_for a plan"
proof unfold_locales
  fix d env result d'
  assume s: "stands_for a plan d" and c: "lc_commit (linkControl_of cfg a ctx d0) env result d = (d', None)"
  then have c: "dynamic_commitLink cfg env a result d = (d', None)" and p: "at_plan (object d a) = plan"
    by (simp_all add: linkControl_of_def stands_for_def)
  from attempt_commit_installs(1)[OF c]
  show "\<exists>t. rn_states d' = AList.update (lp_InterfaceName plan) (committed_state cfg plan (lc_automatic (linkControl_of cfg a ctx d0)) result t) (rn_states d)"
    by (auto simp: p linkControl_of_def)
  from same_plans_stands[OF attempt_commit_installs(2)[OF c] s] show "stands_for a plan d'" .
qed (auto simp: linkControl_of_def same_plans_stands[OF failed_same_plans] same_plans_stands[OF ready_same_plans]
    intro: same_plans_stands[OF same_plans_objects])

section \<open>The state of the loop\<close>

text \<open>The entry of the link in the table, if it is still that of the plan.\<close>

definition own_entry :: "LinkPlan \<Rightarrow> 'a runner_scheme \<Rightarrow> materializedState option" where
  "own_entry plan r =
    (case map_of (rn_states r) (lp_InterfaceName plan) of
       None \<Rightarrow> None
     | Some state \<Rightarrow> if OwnerAlias (ms_desired state) = OwnerAlias plan then Some state else None)"

definition supervisor_ok :: "supervisor \<Rightarrow> bool" where
  "supervisor_ok sv = ((sv_healthy sv \<longrightarrow> sv_result sv \<noteq> None \<and> sv_ready sv) \<and> (sv_busy sv \<and> sv_changed sv \<longrightarrow> \<not> sv_healthy sv \<and> \<not> sv_ready sv))"

definition agrees :: "durable_config \<Rightarrow> LinkPlan \<Rightarrow> bool \<Rightarrow> supervisor \<Rightarrow> 'a runner_scheme \<Rightarrow> bool" where
  "agrees cfg plan automatic sv r =
    (\<forall>state. own_entry plan r = Some state \<longrightarrow>
       (if sv_healthy sv
        then \<exists>result. sv_result sv = Some result \<and> state = committed_state cfg plan automatic result (lh_lastPong (sv_health sv))
        else \<not> ms_active state))"

text \<open>A worker reports only while it runs, and the loop starts one at a time.\<close>

definition enabled :: "supervisor \<Rightarrow> link_event \<Rightarrow> bool" where
  "enabled sv event = (case event of Finished _ \<Rightarrow> sv_busy sv | Install _ _ \<Rightarrow> sv_busy sv | _ \<Rightarrow> True)"

definition link_with :: "linkControl \<Rightarrow> durable_config \<Rightarrow> LinkPlan \<Rightarrow> addr \<Rightarrow> link_params" where
  "link_with control cfg plan local = \<lparr>lk_cfg = cfg, lk_plan = plan, lk_control = control, lk_local = local\<rparr>"

lemma link_with_simps [simp]:
  "lk_cfg (link_with control cfg plan local) = cfg" "lk_plan (link_with control cfg plan local) = plan"
  "lk_control (link_with control cfg plan local) = control" "lk_local (link_with control cfg plan local) = local"
  by (simp_all add: link_with_def)

lemma own_entry_cong: "rn_states r' = rn_states r \<Longrightarrow> own_entry plan r' = own_entry plan r"
  by (simp add: own_entry_def)

lemma own_entry_update: "rn_states r' = AList.update (lp_InterfaceName plan) state (rn_states r) \<Longrightarrow>
    own_entry plan r' = (if OwnerAlias (ms_desired state) = OwnerAlias plan then Some state else None)"
  by (simp add: own_entry_def update_conv')

lemma withdraw_inactive: "withdrawLinkAdjacency cfg env plan r = (r', None) \<Longrightarrow> own_entry plan r' = Some state \<Longrightarrow> \<not> ms_active state"
  using withdraw_states[of cfg env plan r] by (auto simp: own_entry_def update_conv' split: option.splits if_splits)

lemma lost_entry: "own_entry plan (markLinkLost plan r) = map_option (\<lambda>state. state\<lparr>ms_active := False\<rparr>) (own_entry plan r)"
  by (auto simp: own_entry_def markLinkLost_def update_conv' split: option.splits)

lemma withdraw_objects: "withdrawLinkAdjacency cfg env plan d = (d', e) \<Longrightarrow> en_objects d' = en_objects d"
  using withdraw_other(4)[of cfg env plan d] by (auto simp: withdrawLinkAdjacency_def materializeLink_def core_simps split: option.splits if_splits)

lemma rememberWarmLink_objects [simp]: "en_objects (rememberWarmLink env i plan result remote d) = en_objects d"
  by (simp add: rememberWarmLink_def Let_def split: option.split)

lemma note_pong_objects [simp]: "en_objects (note_pong plan now d) = en_objects d"
  by (simp add: note_pong_def Let_def)

lemma markLinkLost_objects [simp]: "en_objects (markLinkLost plan d) = en_objects d"
  by (simp add: markLinkLost_def)

lemma stop_states [simp]: "rn_states (stopAttempt env a d) = rn_states d"
  by (simp add: stopAttempt_def udp_close_def cancel_ctx_def Let_def split: option.split prod.split)

lemma fallback_states: "fallbackLocked env a d = (d', gone) \<Longrightarrow> rn_states d' = rn_states d"
  by (auto simp: fallbackLocked_def discardAttemptLocked_def Let_def split: if_splits)

lemma takesOver_cases:
  "rn_states (staticTakesOver cfg env remote d) = rn_states d
   \<or> (\<exists>e gone. rn_states e = rn_states d \<and> staticTakesOver cfg env remote d = removeInterface cfg env 0 gone e)"
proof -
  have "rn_states (cleanup_after cfg env (fallbackLocked env a d)) = rn_states d
      \<or> (\<exists>e gone. rn_states e = rn_states d \<and> cleanup_after cfg env (fallbackLocked env a d) = removeInterface cfg env 0 gone e)" for a
  proof (cases "fallbackLocked env a d")
    case (Pair e gone)
    with fallback_states[OF this] show ?thesis by (cases gone) (auto simp: cleanup_after_def)
  qed
  then show ?thesis by (simp add: staticTakesOver_def failAttempt_def split: option.split)
qed

lemma takesOver_ok: "states_ok (rn_states d) \<Longrightarrow> states_ok (rn_states (staticTakesOver cfg env remote d))"
  using takesOver_cases[of cfg env remote d] by (auto simp: removeInterface_ok)

text \<open>A configured link that takes over removes the entries of attempts only.\<close>

lemma takesOver_entry:
  assumes "own_entry plan d = Some state" "\<not> ms_dynamic state"
  shows "own_entry plan (staticTakesOver cfg env remote d) = Some state"
  using takesOver_cases[of cfg env remote d]
proof (elim disjE exE conjE)
  fix e gone
  assume "rn_states e = rn_states d" "staticTakesOver cfg env remote d = removeInterface cfg env 0 gone e"
  with assms show ?thesis
    by (auto simp: own_entry_def removeInterface_states delete_conv' split: option.splits if_splits)
qed (use assms in \<open>simp add: own_entry_def\<close>)

section \<open>The loop and the table agree\<close>

definition loop_ok :: "durable_config \<Rightarrow> LinkPlan \<Rightarrow> bool \<Rightarrow> (dynamicEngine \<Rightarrow> bool) \<Rightarrow> supervisor \<Rightarrow> dynamicEngine \<Rightarrow> bool" where
  "loop_ok cfg plan automatic serves sv d = (supervisor_ok sv \<and> agrees cfg plan automatic sv d \<and> serves d)"

lemma ping_fields:
  assumes "ping env now sv = (sv', out, e)"
  shows "sv_result sv' = sv_result sv" "sv_remote sv' = sv_remote sv" "sv_healthy sv' = sv_healthy sv" "sv_busy sv' = sv_busy sv"
    "sv_ready sv' = sv_ready sv" "sv_changed sv' = sv_changed sv" "lh_lastPong (sv_health sv') = lh_lastPong (sv_health sv)"
  using assms by (auto simp: ping_def challenge_def split: sum.splits if_splits)

lemma ping_ok: "ping env now sv = (sv', out, e) \<Longrightarrow> loop_ok cfg plan automatic serves sv' d = loop_ok cfg plan automatic serves sv d"
  by (simp add: loop_ok_def supervisor_ok_def agrees_def ping_fields)

lemma start_ok: "link_start now initiator target sv = (sv', out) \<Longrightarrow> loop_ok cfg plan automatic serves sv d \<Longrightarrow>
    loop_ok cfg plan automatic serves sv' d"
  by (auto simp: loop_ok_def supervisor_ok_def agrees_def link_start_def)

lemma note_pong_entry: "OwnerAlias plan \<noteq> [] \<Longrightarrow>
    own_entry plan (note_pong plan now d) = map_option (\<lambda>state. state\<lparr>ms_lastPong := now\<rparr>) (own_entry plan d)"
  by (simp add: own_entry_def note_pong_def Let_def update_conv' split: option.split)

lemma committed_state_pong [simp]:
  "(committed_state cfg plan automatic result t)\<lparr>ms_lastPong := now\<rparr> = committed_state cfg plan automatic result now"
  by (simp add: committed_state_def)

lemma committed_state_fields [simp]: "ms_desired (committed_state cfg plan automatic result t) = plan"
  "ms_dynamic (committed_state cfg plan automatic result t) = automatic"
  by (simp_all add: committed_state_def)

lemma install_no_stop: "install_new p env v remote sv d = (sv', d', None, stop) \<Longrightarrow> stop = None"
  by (auto simp: install_new_def Let_def split: prod.splits option.splits)

lemma install_engine:
  assumes "on_install p env v remote sv d = (sv', d', out, None)"
  shows "d' = d \<or> (\<exists>sv1 e. install_new p env v remote sv d = (sv1, d', e, None))"
proof -
  obtain sv1 d1 e stop where i: "install_new p env v remote sv d = (sv1, d1, e, stop)" by (metis prod_cases4)
  have "e = None \<Longrightarrow> stop = None" using i install_no_stop by blast
  with assms i show ?thesis by (cases e) (auto simp: on_install_def split: if_splits prod.splits)
qed

context link_control
begin

lemma commit_health_ok:
  assumes "commit_health (link_with control cfg plan local) env result sv d = (sv', d', None)" "serves d"
    and "sv_healthy sv \<Longrightarrow> \<forall>state. own_entry plan d = Some state \<longrightarrow> (\<exists>t. state = committed_state cfg plan (lc_automatic control) result t)"
  shows "sv' = sv\<lparr>sv_healthy := True\<rparr>" "serves d'"
    and "\<forall>state. own_entry plan d' = Some state \<longrightarrow> (\<exists>t. state = committed_state cfg plan (lc_automatic control) result t)"
proof -
  have *: "sv' = sv\<lparr>sv_healthy := True\<rparr> \<and> serves d' \<and>
      (\<forall>state. own_entry plan d' = Some state \<longrightarrow> (\<exists>t. state = committed_state cfg plan (lc_automatic control) result t))"
  proof (cases "sv_healthy sv")
    case True
    with assms show ?thesis by (cases sv) (auto simp: commit_health_def)
  next
    case False
    with assms(1) obtain e where e: "lc_commit control (he_env env) result d = (e, None)" and sv: "sv' = sv\<lparr>sv_healthy := True\<rparr>"
      and d': "d' = (if lc_automatic control then e else staticTakesOver cfg (he_env env) (UUID (res_RemoteUID result)) e)"
      by (auto simp: commit_health_def split: prod.splits option.splits)
    from commit_installs[OF assms(2) e] obtain t where
      t: "own_entry plan e = Some (committed_state cfg plan (lc_automatic control) result t)"
      by (auto dest!: own_entry_update)
    then have "own_entry plan d' = Some (committed_state cfg plan (lc_automatic control) result t)"
      using takesOver_entry[OF t] by (simp add: d')
    moreover have "serves d'"
      using commit_serves[OF assms(2) e] configured_serves by (simp add: d')
    ultimately show ?thesis unfolding sv by (metis option.inject)
  qed
  then show "sv' = sv\<lparr>sv_healthy := True\<rparr>" "serves d'"
    "\<forall>state. own_entry plan d' = Some state \<longrightarrow> (\<exists>t. state = committed_state cfg plan (lc_automatic control) result t)" by blast+
qed

lemma confirm_ok:
  assumes "OwnerAlias plan \<noteq> []" "confirm (link_with control cfg plan local) env now (sv\<lparr>sv_health := h\<rparr>) d = (sv', d', None)"
    and "sv_ready sv" "loop_ok cfg plan (lc_automatic control) serves sv d"
  shows "loop_ok cfg plan (lc_automatic control) serves sv' d'"
    and "sv' = sv\<lparr>sv_health := h\<lparr>lh_lastPong := now\<rparr>, sv_healthy := True\<rparr>"
proof -
  from assms(2) obtain result sv1 d1 where r: "sv_result sv = Some result"
    and c: "commit_health (link_with control cfg plan local) env result (sv\<lparr>sv_health := h\<rparr>) d = (sv1, d1, None)"
    and sv': "sv' = sv1\<lparr>sv_health := (sv_health sv1)\<lparr>lh_lastPong := now\<rparr>\<rparr>"
    and d': "d' = rememberWarmLink (he_env env) 1 plan result (sv_remote sv1) (note_pong plan now d1)"
    by (auto simp: confirm_def Let_def split: option.splits prod.splits)
  from assms(4) have ok: "supervisor_ok sv" "agrees cfg plan (lc_automatic control) sv d" "serves d" by (simp_all add: loop_ok_def)
  note ch = commit_health_ok[OF c ok(3)]
  have e: "sv_healthy (sv\<lparr>sv_health := h\<rparr>) \<Longrightarrow>
      \<forall>state. own_entry plan d = Some state \<longrightarrow> (\<exists>t. state = committed_state cfg plan (lc_automatic control) result t)"
    using ok(2) r by (auto simp: agrees_def)
  show sv: "sv' = sv\<lparr>sv_health := h\<lparr>lh_lastPong := now\<rparr>, sv_healthy := True\<rparr>"
    using ch(1)[OF e] by (simp add: sv')
  have "serves d'" using objects_serve[OF ch(2)[OF e]] by (simp add: d')
  moreover have "own_entry plan d' = map_option (\<lambda>state. state\<lparr>ms_lastPong := now\<rparr>) (own_entry plan d1)"
    using note_pong_entry[OF assms(1), of now d1] own_entry_cong[of d' "note_pong plan now d1" plan] by (simp add: d')
  then have "agrees cfg plan (lc_automatic control) sv' d'"
    using ch(3)[OF e] by (auto simp: agrees_def sv r)
  moreover have "supervisor_ok sv'"
    using ok(1) assms(3) r by (auto simp: supervisor_ok_def sv)
  ultimately show "loop_ok cfg plan (lc_automatic control) serves sv' d'" by (simp add: loop_ok_def)
qed

lemma withdraw_step:
  assumes "withdraw (link_with control cfg plan local) env sv d = (sv', d', None)" "serves d"
  shows "sv' = sv\<lparr>sv_healthy := False\<rparr>" "serves d'" "\<And>state. own_entry plan d' = Some state \<Longrightarrow> \<not> ms_active state"
proof -
  from assms(1) obtain e where e: "withdrawLinkAdjacency cfg (he_env env) plan d = (e, None)"
    and d': "d' = lc_failed control (he_env env) e" and sv: "sv' = sv\<lparr>sv_healthy := False\<rparr>"
    by (auto simp: withdraw_def split: prod.splits option.splits)
  show "sv' = sv\<lparr>sv_healthy := False\<rparr>" by (rule sv)
  show "serves d'" using failed_serves objects_serve[OF assms(2) withdraw_objects[OF e]] by (simp add: d')
  show "\<not> ms_active state" if "own_entry plan d' = Some state" for state
    using that withdraw_inactive[OF e] by (simp add: d' own_entry_cong[OF failed_keeps])
qed

lemma install_step:
  assumes "install_new (link_with control cfg plan local) env v remote sv d = (sv', d', e, None)" "serves d"
  shows "loop_ok cfg plan (lc_automatic control) serves sv' d'"
proof -
  let ?sv = "sv\<lparr>sv_ready := False, sv_changed := True\<rparr>"
  obtain sv1 d1 where w: "withdraw (link_with control cfg plan local) env ?sv d = (sv1, d1, None)"
    using assms(1) by (auto simp: install_new_def Let_def split: prod.splits option.splits)
  note ws = withdraw_step[OF w assms(2)]
  let ?state = "installed_state cfg plan (lc_automatic control) v"
  obtain d2 m where m: "materializeLink (he_env env) 2 plan (ms_local ?state) [] d1 = (d2, m)" by fastforce
  have d2: "rn_states d2 = rn_states d1" "en_objects d2 = en_objects d1" using m by (auto simp: materializeLink_def core_simps)
  show ?thesis
  proof (cases m)
    case None
    with assms(1) w m have "sv' = sv1\<lparr>sv_result := Some v, sv_remote := remote, sv_health := no_health\<rparr>"
      "d' = d2\<lparr>rn_states := AList.update (lp_InterfaceName plan) ?state (rn_states d2)\<rparr>"
      by (auto simp: install_new_def Let_def)
    with ws objects_serve[OF ws(2), of d'] show ?thesis
      by (auto simp: loop_ok_def supervisor_ok_def agrees_def d2 own_entry_def update_conv' installed_state_def)
  next
    case (Some x)
    with assms(1) w m have "sv' = sv1" "d' = d2" by (auto simp: install_new_def Let_def)
    with ws objects_serve[OF ws(2), of d'] own_entry_cong[OF d2(1)] show ?thesis
      by (auto simp: loop_ok_def supervisor_ok_def agrees_def d2)
  qed
qed

lemma tick_step:
  assumes "on_tick (link_with control cfg plan local) env now sv d = (sv', d', out, None)"
    and "loop_ok cfg plan (lc_automatic control) serves sv d"
  shows "loop_ok cfg plan (lc_automatic control) serves sv' d'"
proof -
  define sv1 d1 where "sv1 = (if sv_healthy sv \<and> health_expired now (sv_health sv) then sv\<lparr>sv_healthy := False\<rparr> else sv)"
    and "d1 = (if sv_healthy sv \<and> health_expired now (sv_health sv) then lc_failed control (he_env env) (markLinkLost plan d) else d)"
  have "loop_ok cfg plan (lc_automatic control) serves sv1 d1"
    using assms(2) failed_serves objects_serve[of d "markLinkLost plan d"]
    by (auto simp: sv1_def d1_def loop_ok_def supervisor_ok_def agrees_def own_entry_cong[OF failed_keeps] lost_entry)
  moreover have "d' = d1 \<and> (sv' = sv1 \<or> ping env now sv1 = (sv', out, None))"
    using assms(1) by (auto simp: on_tick_def Let_def sv1_def d1_def split: if_splits prod.splits)
  ultimately show ?thesis by (auto simp: ping_ok)
qed

lemma pong_step:
  assumes "OwnerAlias plan \<noteq> []" "on_pong (link_with control cfg plan local) env m sv d = (sv', d', out, None)" "sv_ready sv"
    and "loop_ok cfg plan (lc_automatic control) serves sv d"
  shows "loop_ok cfg plan (lc_automatic control) serves sv' d'"
proof -
  let ?now = "le_now (he_env env) 0"
  obtain h heard where h: "pong (m_OperationID m) ?now (sv_health sv) = (h, heard)" by fastforce
  show ?thesis
  proof (cases heard)
    case True
    with assms(2) h obtain sv1 d1 where
      c: "confirm (link_with control cfg plan local) env ?now (sv\<lparr>sv_health := h\<rparr>) d = (sv1, d1, None)"
      and e: "sv' = sv1" "rn_states d' = rn_states d1" "en_objects d' = en_objects d1"
      by (auto simp: on_pong_def recordEndpointEvidence_def Let_def split: prod.splits option.splits if_splits sum.splits)
    from confirm_ok(1)[OF assms(1) c assms(3,4)] objects_serve e show ?thesis
      by (auto simp: loop_ok_def agrees_def own_entry_cong[OF e(2)])
  qed (use assms h in \<open>auto simp: on_pong_def\<close>)
qed

lemma finished_step:
  assumes "OwnerAlias plan \<noteq> []" "on_finished (link_with control cfg plan local) env e sv d = (sv', d', out, None)" "sv_busy sv"
    and ok: "loop_ok cfg plan (lc_automatic control) serves sv d"
  shows "loop_ok cfg plan (lc_automatic control) serves sv' d'"
proof (cases e)
  case (Some x)
  with assms show ?thesis by (auto simp: on_finished_def Let_def loop_ok_def supervisor_ok_def agrees_def split: if_splits)
next
  case None
  let ?sv = "sv\<lparr>sv_busy := False, sv_ready := (sv_result sv \<noteq> None)\<rparr>"
  have ok': "loop_ok cfg plan (lc_automatic control) serves ?sv d"
    using ok by (auto simp: loop_ok_def supervisor_ok_def agrees_def)
  show ?thesis
  proof (cases "sv_result sv = None")
    case True
    with None assms(2) have "d' = d \<and> ping env (le_now (he_env env) 2) ?sv = (sv', out, None)"
      by (auto simp: on_finished_def Let_def split: prod.splits)
    with ok' show ?thesis by (auto simp: ping_ok)
  next
    case False
    with None assms(2) obtain sv1 where
      "confirm (link_with control cfg plan local) env (le_now (he_env env) 0) (?sv\<lparr>sv_health := sv_health ?sv\<rparr>) d = (sv1, d', None)"
      and p: "ping env (le_now (he_env env) 2) sv1 = (sv', out, None)"
      by (cases sv) (auto simp: on_finished_def Let_def split: prod.splits option.splits)
    from confirm_ok(1)[OF assms(1) this(1) _ ok'] False p show ?thesis by (simp add: ping_ok)
  qed
qed

lemma link_step_ok:
  assumes "OwnerAlias plan \<noteq> []" "enabled sv event" "link_step (link_with control cfg plan local) env event sv d = (sv', d', out, None)"
    and ok: "loop_ok cfg plan (lc_automatic control) serves sv d"
  shows "loop_ok cfg plan (lc_automatic control) serves sv' d'"
proof (cases event)
  case (Accepted x)
  with assms(3) ok show ?thesis
    by (cases x) (auto simp: on_accepted_def start_ok split: option.splits if_splits prod.splits)
next
  case (Finished e)
  with assms finished_step[OF assms(1)] show ?thesis by (simp add: enabled_def)
next
  case (Install v remote)
  have w: "serves d" using ok by (simp add: loop_ok_def)
  show ?thesis
  proof (cases "same_install sv v remote")
    case True
    with assms(3) Install ok show ?thesis by (auto simp: on_install_def ping_ok split: if_splits prod.splits)
  next
    case False
    obtain sv1 d1 e stop where i: "install_new (link_with control cfg plan local) env v remote sv d = (sv1, d1, e, stop)"
      by (metis prod_cases4)
    show ?thesis
    proof (cases e)
      case None
      with i install_no_stop have "stop = None" by blast
      from install_step[OF i[unfolded this] w] None i False assms(3) Install ok show ?thesis
        by (auto simp: on_install_def ping_ok split: if_splits prod.splits)
    next
      case (Some x)
      with i False assms(3) Install ok install_step[of local env v remote sv d sv1 d1 e] w show ?thesis
        by (auto simp: on_install_def split: if_splits)
    qed
  qed
next
  case (Packet source m)
  with assms(3) ok pong_step[OF assms(1)] show ?thesis
    by (auto simp: on_packet_def on_discovery_def Let_def start_ok split: if_splits prod.splits)
next
  case (Tick now)
  with assms(3) ok tick_step show ?thesis by simp
qed (use assms(3) ok in auto)

text \<open>Every event keeps the table well formed.\<close>

lemma confirm_states_ok:
  assumes "confirm (link_with control cfg plan local) env now sv d = (sv', d', None)" "serves d" "states_ok (rn_states d)"
  shows "states_ok (rn_states d')"
proof -
  from assms(1) obtain result sv1 d1 where c: "commit_health (link_with control cfg plan local) env result sv d = (sv1, d1, None)"
    and d': "rn_states d' = rn_states (note_pong plan now d1)"
    by (auto simp: confirm_def Let_def split: option.splits prod.splits)
  have "states_ok (rn_states d1)"
  proof (cases "sv_healthy sv")
    case False
    with c obtain e where e: "lc_commit control (he_env env) result d = (e, None)"
      and d1: "d1 = (if lc_automatic control then e else staticTakesOver cfg (he_env env) (UUID (res_RemoteUID result)) e)"
      by (auto simp: commit_health_def split: prod.splits option.splits)
    from commit_installs[OF assms(2) e] assms(3) have "states_ok (rn_states e)"
      by (auto intro!: states_ok_update simp: state_ok_def committed_state_def)
    then show ?thesis by (simp add: d1 takesOver_ok)
  qed (use c assms in \<open>auto simp: commit_health_def\<close>)
  then show ?thesis
    by (auto simp: d' note_pong_def Let_def state_ok_def intro!: states_ok_update dest: states_okD split: option.split)
qed

lemma withdraw_states_ok: "withdraw (link_with control cfg plan local) env sv d = (sv', d', None) \<Longrightarrow> states_ok (rn_states d) \<Longrightarrow>
    states_ok (rn_states d')"
  using withdraw_ok[of d cfg "he_env env" plan] by (auto simp: withdraw_def failed_keeps split: prod.splits option.splits)

lemma install_states_ok:
  assumes "install_new (link_with control cfg plan local) env v remote sv d = (sv', d', e, None)" "states_ok (rn_states d)"
  shows "states_ok (rn_states d')"
proof -
  obtain sv1 d1 where w: "withdraw (link_with control cfg plan local) env (sv\<lparr>sv_ready := False, sv_changed := True\<rparr>) d = (sv1, d1, None)"
    using assms(1) by (auto simp: install_new_def Let_def split: prod.splits option.splits)
  from withdraw_states_ok[OF w assms(2)] w assms(1) show ?thesis
    by (auto simp: install_new_def Let_def materializeLink_def state_ok_def installed_state_def intro!: states_ok_update split: option.splits)
qed

lemma link_step_states_ok:
  assumes "link_step (link_with control cfg plan local) env event sv d = (sv', d', out, None)" "serves d" "states_ok (rn_states d)"
  shows "states_ok (rn_states d')"
proof (cases event)
  case (Accepted x)
  with assms show ?thesis by (cases x) (auto simp: on_accepted_def split: option.splits if_splits prod.splits)
next
  case (Finished e)
  with assms confirm_states_ok[OF _ assms(2,3)] show ?thesis
    by (auto simp: on_finished_def Let_def split: option.splits if_splits prod.splits)
next
  case (Install v remote)
  with assms(1) have "on_install (link_with control cfg plan local) env v remote sv d = (sv', d', out, None)" by simp
  from install_engine[OF this] install_states_ok assms(3) show ?thesis by blast
next
  case (Packet source m)
  with assms confirm_states_ok[OF _ assms(2,3)] show ?thesis
    by (auto simp: on_packet_def on_discovery_def on_pong_def recordEndpointEvidence_def Let_def
        split: if_splits prod.splits option.splits sum.splits bool.splits)
next
  case (Tick now)
  with assms markLinkLost_ok[of d plan] show ?thesis
    by (auto simp: on_tick_def Let_def failed_keeps split: if_splits prod.splits)
qed (use assms in auto)

end

end
