(* ===== verification/Attempt_Runs.thy ===== *)
theory Attempt_Runs
  imports Attempt_Table
begin

text \<open>
  Runs of the attempts of a node: its goroutines interleaved at will, over the operations of
  \<open>Dynamic_Attempts\<close>.  Shown for every run: the life cycle of an attempt, one live attempt for a peer,
  the limit on resources; and for two nodes whose proposals cross, that both end with the operation
  of the smaller identity.
\<close>

section \<open>Workers\<close>

text \<open>
  What the goroutines of an attempt still have to do: run the section after the proposal or the
  acceptance was sent, probe, connect after both ends receive, supervise the link.  The workers are
  interleaved at will; a timer may fire at any time.
\<close>

datatype worker =
    Offering nat | Accepting nat | Prober nat | Connecting nat LinkPlan addrport | Supervising nat

fun worker_ref :: "worker \<Rightarrow> nat" where
  "worker_ref (Offering a) = a"
| "worker_ref (Accepting a) = a"
| "worker_ref (Prober a) = a"
| "worker_ref (Connecting a _ _) = a"
| "worker_ref (Supervising a) = a"

type_synonym attempt_world = "dynamicEngine \<times> worker set"

definition started_by :: "(nat \<Rightarrow> worker) \<Rightarrow> nat option \<Rightarrow> worker set" where
  "started_by w r = (case r of None \<Rightarrow> {} | Some a \<Rightarrow> {w a})"

inductive attempt_step :: "dynamic_config \<Rightarrow> attempt_world \<Rightarrow> attempt_world \<Rightarrow> bool" for dcfg where
  outbound: "prepareOutbound dcfg env s d = (d', r) \<Longrightarrow>
    attempt_step dcfg (d, W) (d', W \<union> started_by Offering (case r of Inr a \<Rightarrow> a | Inl _ \<Rightarrow> None))"
| offered: "Offering a \<in> W \<Longrightarrow> attempt_step dcfg (d, W) (proposal_sent (dy_durable dcfg) env a d, W - {Offering a})"
| timeout: "attempt_step dcfg (d, W) (failAttempt (dy_durable dcfg) env a [dynamicProposing] d, W)"
| inbound: "prepareInbound dcfg env s m d = (d', r) \<Longrightarrow> attempt_step dcfg (d, W) (d', W \<union> started_by Accepting r)"
| accepted: "Accepting a \<in> W \<Longrightarrow> attempt_step dcfg (d, W) (accept_sent (dy_durable dcfg) env a d,
    (W - {Accepting a}) \<union> (if de_send env = None \<and> isCurrentAttemptLocked d a then {Prober a} else {}))"
| accept: "attempt_step dcfg (d, W) (handleAccept dcfg env s m d,
    W \<union> started_by Prober (case proposingAttemptLocked d s (m_OperationID m) of None \<Rightarrow> None
       | Some a \<Rightarrow> if snd (configureAttemptLocked dcfg a m d) = None then Some a else None))"
| decline: "attempt_step dcfg (d, W) (handleDynamicDecline env s m d, W)"
| closed: "attempt_step dcfg (d, W) (routedSessionClosed (dy_durable dcfg) env s d, W)"
| deferred: "attempt_step dcfg (d, W) (deferred_cleanup (dy_durable dcfg) env remote ident plan d, W)"
| receive: "Prober a \<in> W \<Longrightarrow> handoff_receive dcfg env a local ep d = (d', r) \<Longrightarrow>
    attempt_step dcfg (d, W) (d', case r of Inl _ \<Rightarrow> W | Inr plan \<Rightarrow> insert (Connecting a plan ep) (W - {Prober a}))"
| connect: "Connecting a plan ep \<in> W \<Longrightarrow> handoff_connect dcfg env a plan ep d = (d', r) \<Longrightarrow>
    attempt_step dcfg (d, W) (probe_finished (dy_durable dcfg) env a r d',
      (W - {Connecting a plan ep}) \<union> (if r = None then {Supervising a} else {}))"
| probe_failed: "w \<in> W \<Longrightarrow> w = Prober a \<or> w = Connecting a plan ep \<Longrightarrow>
    attempt_step dcfg (d, W) (probe_finished (dy_durable dcfg) env a (Some e) d, W - {w})"
| commit: "Supervising a \<in> W \<Longrightarrow> attempt_step dcfg (d, W) (fst (dynamic_commitLink (dy_durable dcfg) env a result d), W)"
| ready: "Supervising a \<in> W \<Longrightarrow> attempt_step dcfg (d, W) (control_ready a value d, W)"
| failed: "Supervising a \<in> W \<Longrightarrow> attempt_step dcfg (d, W) (control_failed (dy_durable dcfg) env a ctx d, W)"
| lost: "attempt_step dcfg (d, W) (markLinkLost plan d, W)"
| ended: "Supervising a \<in> W \<Longrightarrow>
    attempt_step dcfg (d, W) (failAttempt (dy_durable dcfg) env a [dynamicAttempting, dynamicRecovering, dynamicUp] d, W - {Supervising a})"
| expire: "attempt_step dcfg (d, W) (expireConnectivity a ctx epoch d, W)"
| takeover: "attempt_step dcfg (d, W) (staticTakesOver (dy_durable dcfg) env remote d, W)"
| restored: "restore dcfg env record d = (d', r) \<Longrightarrow>
    attempt_step dcfg (d, W) (d', if length (en_objects d') = length (en_objects d) then W else insert (Supervising (length (en_objects d))) W)"
| removeFailed: "attempt_step dcfg (d, W) (removeFailed (dy_durable dcfg) env peer d, W)"
| retire: "attempt_step dcfg (d, W) (retireUnavailable (dy_durable dcfg) env is_ready peer d, W)"
| retry: "attempt_step dcfg (d, W) (retry_cleanup env d, W)"
| rest: "same_core d d' \<Longrightarrow> attempt_step dcfg (d, W) (d', W)"

definition fresh_engine :: "dynamicEngine \<Rightarrow> bool" where
  "fresh_engine d = (en_attempts d = [] \<and> en_objects d = [] \<and> en_pendingCleanups d = []
     \<and> distinct (map fst (rn_resources d)) \<and> owned (rn_resources d) \<and> cleanups (rn_resources d) = 0)"

text \<open>A start: the receipts of the automatic links, one for a peer and not more than the limit, are adopted first.\<close>

inductive attempt_run :: "dynamic_config \<Rightarrow> attempt_world \<Rightarrow> bool" for dcfg where
  start: "fresh_engine d \<Longrightarrow> attempt_run dcfg (d, {})"
| adopt: "attempt_run dcfg (d, W) \<Longrightarrow> map_of (en_attempts d) (UUID (res_RemoteUID (wl_Result receipt))) = None \<Longrightarrow>
    resourceCountLocked d < maxDynamicLinks \<Longrightarrow> adopt_link (dy_durable dcfg) env receipt plan lease d = (d', r) \<Longrightarrow>
    attempt_run dcfg (d', if length (en_objects d') = length (en_objects d) then W else insert (Supervising (length (en_objects d))) W)"
| step: "attempt_run dcfg w \<Longrightarrow> attempt_step dcfg w w' \<Longrightarrow> attempt_run dcfg w'"

definition worker_ok :: "dynamicEngine \<Rightarrow> worker set \<Rightarrow> worker \<Rightarrow> bool" where
  "worker_ok d W w = (worker_ref w < length (en_objects d)
     \<and> (\<forall>a. w = Accepting a \<longrightarrow> at_state (object d a) \<in> {dynamicProbing, dynamicStopped} \<and> Prober a \<notin> W \<and> (\<forall>plan ep. Connecting a plan ep \<notin> W)))"

definition world_good :: "attempt_world \<Rightarrow> bool" where
  "world_good w = (engine_good (fst w) \<and> resourceCountLocked (fst w) \<le> maxDynamicLinks \<and> (\<forall>x \<in> snd w. worker_ok (fst w) (snd w) x))"

definition life :: "dynamicAttemptState \<Rightarrow> dynamicAttemptState \<Rightarrow> bool" where
  "life s t = (edge s t \<or> s = dynamicProbing \<and> t = dynamicAttempting)"

definition lives :: "dynamicEngine \<Rightarrow> dynamicEngine \<Rightarrow> bool" where
  "lives d d' = (length (en_objects d) \<le> length (en_objects d')
     \<and> (\<forall>a < length (en_objects d). at_remote (object d' a) = at_remote (object d a) \<and> life (at_state (object d a)) (at_state (object d' a))))"

lemma advances_lives: "advances (profile d) (profile d') \<Longrightarrow> lives d d'"
  by (auto simp: advances_def lives_def life_def profile_nth)

lemma step_good:
  assumes "world_good (d, W)" "safe d d'" "W' \<subseteq> W"
  shows "world_good (d', W') \<and> lives d d'"
proof -
  from assms(2) have l: "lives d d'" and ev: "advances (profile d) (profile d')" by (auto simp: safe_def advances_lives)
  have "worker_ok d' W' x" if x: "x \<in> W'" for x
  proof -
    from x assms have ok: "worker_ok d W x" by (auto simp: world_good_def)
    then have r: "worker_ref x < length (en_objects d)" by (simp add: worker_ok_def)
    have "at_state (object d' a) \<in> {dynamicProbing, dynamicStopped}" if a: "x = Accepting a" for a
    proof -
      from ok a have s: "at_state (object d a) \<in> {dynamicProbing, dynamicStopped}" "a < length (en_objects d)" using r by (auto simp: worker_ok_def)
      with ev have "edge (at_state (object d a)) (at_state (object d' a))" by (auto simp: advances_def profile_nth)
      with s show ?thesis by (auto simp: edge_def)
    qed
    with ok r l assms(3) show ?thesis by (auto simp: worker_ok_def lives_def)
  qed
  with assms l show ?thesis by (auto simp: world_good_def safe_def)
qed

lemma start_worker:
  assumes "world_good (d, W)" "w a \<notin> W" "worker_ref (w a) = a" "a < length (en_objects d)"
    "\<And>b. w a = Accepting b \<Longrightarrow> at_state (object d a) \<in> {dynamicProbing, dynamicStopped} \<and> (\<forall>x \<in> W. worker_ref x < a)"
    "\<And>b. w a = Prober b \<or> (\<exists>p e. w a = Connecting b p e) \<Longrightarrow> Accepting a \<notin> W"
  shows "world_good (d, insert (w a) W)"
proof -
  have "worker_ok d (insert (w a) W) x" if x: "x \<in> insert (w a) W" for x
  proof (cases "x = w a")
    case True
    have no: "y \<notin> W" if "\<forall>x \<in> W. worker_ref x < a" "worker_ref y = a" for y using that by auto
    from True show ?thesis using assms(3-5) no[of "Prober a"] no[of "Connecting a _ _"] by (auto simp: worker_ok_def)
  next
    case False
    with x assms(1) have "worker_ok d W x" "x \<in> W" by (auto simp: world_good_def)
    moreover have "c = a" "Accepting a \<notin> W" if "w a = Prober c \<or> (\<exists>p e. w a = Connecting c p e)" for c
      using assms(3) assms(6)[OF that] that by auto
    then have "Prober c \<noteq> w a" "Connecting c p e \<noteq> w a" if "Accepting c \<in> W" for c p e
      using that by metis+
    ultimately show ?thesis by (auto simp: worker_ok_def)
  qed
  with assms(1) show ?thesis by (simp add: world_good_def)
qed

lemma world_goodD: "world_good (d, W) \<Longrightarrow> engine_good d" "world_good (d, W) \<Longrightarrow> resourceCountLocked d \<le> maxDynamicLinks"
  "world_good (d, W) \<Longrightarrow> x \<in> W \<Longrightarrow> worker_ref x < length (en_objects d)"
  "world_good (d, W) \<Longrightarrow> Accepting a \<in> W \<Longrightarrow> at_state (object d a) \<in> {dynamicProbing, dynamicStopped}"
  "world_good (d, W) \<Longrightarrow> Accepting a \<in> W \<Longrightarrow> Prober a \<notin> W \<and> (\<forall>plan ep. Connecting a plan ep \<notin> W)"
  by (auto simp: world_good_def worker_ok_def)

lemma world_good_insert_same: "world_good (d, W) \<Longrightarrow> x \<in> W \<Longrightarrow> world_good (d, insert x W)"
  by (simp add: insert_absorb)

lemma world_good_less: "world_good (d, W) \<Longrightarrow> world_good (d, W - X)"
  by (auto simp: world_good_def worker_ok_def)

lemma configure_proposing:
  assumes "engine_good d" "proposingAttemptLocked d s oid = Some a"
  shows "a < length (en_objects d)" "at_state (object d a) = dynamicProposing"
  using proposing_current[OF assms] table_current(1)[of d a] assms(1) by (auto simp: engine_good_def)

lemma connect_good:
  assumes "world_good (d, W)" "Connecting a plan ep \<in> W" "handoff_connect dcfg env a plan ep d = (d', None)"
  shows "world_good (d', W - {Connecting a plan ep}) \<and> lives d d'"
proof -
  note hc = handoff_connect_moves(2)[OF world_goodD(1)[OF assms(1)] assms(3) refl]
  have acc: "Accepting a \<notin> W" using world_goodD(5)[OF assms(1)] assms(2) by blast
  have len: "length (en_objects d') = length (en_objects d)" using hc by (metis length_list_update profile_length)
  have obj: "at_remote (object d' b) = at_remote (object d b) \<and>
      at_state (object d' b) = (if b = a then dynamicAttempting else at_state (object d b))" if b: "b < length (en_objects d)" for b
  proof -
    have "profile d' ! b = (if b = a then (at_remote (object d a), dynamicAttempting) else profile d ! b)"
      using hc b by (simp add: nth_list_update_if profile_nth)
    with b len show ?thesis by (simp add: profile_nth split: if_splits)
  qed
  have pa: "at_state (object d a) = dynamicProbing" using hc by (auto simp: profile_nth)
  have "lives d d'" using obj pa len by (auto simp: lives_def life_def)
  moreover have "worker_ok d' (W - {Connecting a plan ep}) x" if x: "x \<in> W" for x
  proof -
    from x assms(1) have "worker_ok d W x" by (simp add: world_good_def)
    moreover have "x \<noteq> Accepting a" using x acc by blast
    ultimately show ?thesis using len obj by (cases x) (auto simp: worker_ok_def)
  qed
  moreover have "resourceCountLocked d' \<le> maxDynamicLinks" using hc world_goodD(2)[OF assms(1)] by (simp add: resourceCount)
  ultimately show ?thesis using hc by (simp add: world_good_def)
qed

lemma lives_refl: "lives d d"
  by (simp add: lives_def life_def)

lemma probe_finished_None: "same_core d (probe_finished cfg env a None d)"
  by (simp add: probe_finished_def Let_def same_core_def core_simps split: option.split)

lemma same_core_world: "same_core d d' \<Longrightarrow> world_good (d, W) \<Longrightarrow> world_good (d', W)"
  using moves_core[of d d'] by (auto simp: world_good_def moves_def worker_ok_def same_coreD object_def resourceCountLocked_def)

lemma same_core_lives: "same_core d' d'' \<Longrightarrow> lives d d' \<Longrightarrow> lives d d''"
  by (simp add: lives_def same_coreD object_def)

lemma markLinkLost_core: "same_core d (markLinkLost plan d)"
  by (simp add: markLinkLost_def same_core_def)

lemma attempt_step_good:
  assumes "attempt_step dcfg w w'" "world_good w"
  shows "world_good w' \<and> lives (fst w) (fst w')"
  using assms
proof cases
  case (outbound env s d d' r W)
  note g = world_goodD(1)[OF assms(2)[unfolded outbound(1)]]
  note po = prepareOutbound_safe[OF g outbound(3)]
  note s = step_good[OF assms(2)[unfolded outbound(1)] po(1) subset_refl]
  show ?thesis
  proof (cases "case r of Inr a \<Rightarrow> a | Inl _ \<Rightarrow> None")
    case None
    with s outbound show ?thesis by (simp add: started_by_def)
  next
    case (Some a)
    then have "r = Inr (Some a)" by (cases r) simp_all
    note pa = po(2)[OF this]
    have gd: "engine_good d'" using s by (simp add: world_good_def)
    have "Offering a \<notin> W" using world_goodD(3)[OF assms(2)[unfolded outbound(1)], of "Offering a"] pa by auto
    then have "world_good (d', insert (Offering a) W)"
      by (intro start_worker) (use s pa table_current(1)[of d' a] gd in \<open>auto simp: engine_good_def\<close>)
    with s Some outbound show ?thesis by (simp add: started_by_def)
  qed
next
  case (offered a W d env)
  with step_good[OF _ moves_safe[OF proposal_sent_moves] subset_refl, of d W] world_goodD(1) assms(2) show ?thesis by (auto intro: world_good_less)
next
  case (timeout d W env a)
  with step_good[OF _ moves_safe[OF failAttempt_moves] subset_refl, of d W] world_goodD(1) assms(2) show ?thesis by auto
next
  case (inbound env s m d d' r W)
  note wg = assms(2)[unfolded inbound(1)] note g = world_goodD(1)[OF wg]
  note pi = prepareInbound_safe[OF g inbound(3)]
  note s = step_good[OF wg pi(1) subset_refl]
  show ?thesis
  proof (cases r)
    case None
    with s inbound show ?thesis by (simp add: started_by_def)
  next
    case (Some a)
    note pa = pi(2)[OF this]
    have gd: "engine_good d'" using s by (simp add: world_good_def)
    have old: "worker_ref x < a" if "x \<in> W" for x using world_goodD(3)[OF wg that] pa by simp
    have "Accepting a \<notin> W" using old[of "Accepting a"] by auto
    then have "world_good (d', insert (Accepting a) W)"
      by (intro start_worker) (use s pa old table_current(1)[of d' a] gd in \<open>auto simp: engine_good_def\<close>)
    with s Some inbound show ?thesis by (simp add: started_by_def)
  qed
next
  case (accepted a W d env)
  note wg = assms(2)[unfolded accepted(1)] note g = world_goodD(1)[OF wg]
  let ?d = "accept_sent (dy_durable dcfg) env a d"
  have p: "isCurrentAttemptLocked d a \<Longrightarrow> at_state (object d a) = dynamicProbing"
    using world_goodD(4)[OF wg accepted(3)] table_current(2)[of d a] g by (auto simp: engine_good_def)
  have "world_good (?d, W - {Accepting a}) \<and> lives d ?d"
    by (rule step_good[OF wg moves_safe[OF accept_sent_moves[OF g p]]]) auto
  then have w: "world_good (?d, W - {Accepting a})" "lives d ?d" by blast+
  have "world_good (?d, insert (Prober a) (W - {Accepting a}))"
    by (rule start_worker) (use w world_goodD(3)[OF wg accepted(3)] world_goodD(5)[OF wg accepted(3)] in \<open>auto simp: lives_def\<close>)
  with w accepted show ?thesis by auto
next
  case (accept d W env s m)
  note wg = assms(2)[unfolded accept(1)] note g = world_goodD(1)[OF wg]
  have s: "world_good (handleAccept dcfg env s m d, W) \<and> lives d (handleAccept dcfg env s m d)"
    by (rule step_good[OF wg moves_safe[OF handleAccept_moves[OF g]] subset_refl])
  show ?thesis
  proof (cases "case proposingAttemptLocked d s (m_OperationID m) of None \<Rightarrow> None
       | Some a \<Rightarrow> if snd (configureAttemptLocked dcfg a m d) = None then Some a else None")
    case None
    with s accept show ?thesis by (simp add: started_by_def)
  next
    case (Some a)
    then have p: "proposingAttemptLocked d s (m_OperationID m) = Some a" by (auto split: option.splits if_splits)
    note cp = configure_proposing[OF g p]
    have "Accepting a \<notin> W" using world_goodD(4)[OF wg, of a] cp(2) by auto
    moreover have "a < length (en_objects (handleAccept dcfg env s m d))" using s cp(1) by (auto simp: lives_def)
    ultimately have "world_good (handleAccept dcfg env s m d, insert (Prober a) W)"
      by (cases "Prober a \<in> W") (use s in \<open>auto intro: start_worker world_good_insert_same\<close>)
    with s Some accept show ?thesis by (simp add: started_by_def)
  qed
next
  case (decline d W env s m)
  with step_good[OF _ moves_safe[OF handleDecline_moves] subset_refl, of d W] world_goodD(1) assms(2) show ?thesis by auto
next
  case (closed d W env s)
  with step_good[OF _ moves_safe[OF routedSessionClosed_moves] subset_refl, of d W] world_goodD(1) assms(2) show ?thesis by auto
next
  case (deferred d W env remote ident plan)
  with step_good[OF _ moves_safe[OF deferred_cleanup_moves] subset_refl, of d W] world_goodD(1) assms(2) show ?thesis by auto
next
  case (receive a W env l ep d d' r)
  note wg = assms(2)[unfolded receive(1)] note g = world_goodD(1)[OF wg]
  note hm = moves_safe[OF handoff_receive_moves[OF g receive(4)]]
  note s = step_good[OF wg hm subset_refl]
  then have less: "world_good (d', W - {Prober a})" by (simp add: world_good_less)
  show ?thesis
  proof (cases r)
    case (Inl e)
    with s receive show ?thesis by simp
  next
    case (Inr plan)
    have "Accepting a \<notin> W" using world_goodD(5)[OF wg] receive(3) by blast
    then have "world_good (d', insert (Connecting a plan ep) (W - {Prober a}))"
      using start_worker[of d' "W - {Prober a}" "\<lambda>a. Connecting a plan ep" a] s less world_goodD(3)[OF wg receive(3)]
      by (cases "Connecting a plan ep \<in> W") (auto simp: lives_def insert_absorb)
    with s Inr receive show ?thesis by simp
  qed
next
  case (connect a plan ep W env d d' r)
  note wg = assms(2)[unfolded connect(1)] note g = world_goodD(1)[OF wg]
  let ?W = "W - {Connecting a plan ep}"
  show ?thesis
  proof (cases r)
    case None
    from connect_good[OF wg connect(3)] connect(4) None have w: "world_good (d', ?W)" "lives d d'" by simp_all
    have "world_good (d', insert (Supervising a) ?W)"
      using start_worker[of d' ?W Supervising a] w world_goodD(3)[OF wg connect(3)]
      by (cases "Supervising a \<in> W") (auto simp: lives_def insert_absorb)
    with same_core_world[OF probe_finished_None] same_core_lives[OF probe_finished_None w(2)] connect None show ?thesis by simp
  next
    case (Some e)
    from handoff_connect_moves(1)[OF g connect(4)] Some have m: "moves 0 d d'" by simp
    have "same_core x (case at_udp (object x a) of None \<Rightarrow> x | Some u \<Rightarrow> udp_close env u x)" for x
      by (simp add: same_core_def core_simps split: option.split)
    from moves_then_quiet[OF moves_then_fail[OF m] quiet_core[OF this]]
    have "moves 0 d (probe_finished (dy_durable dcfg) env a (Some e) d')" by (simp add: probe_finished_def Let_def)
    from step_good[OF wg moves_safe[OF this], of ?W] connect Some show ?thesis by auto
  qed
next
  case (probe_failed v W a plan ep d env e)
  with step_good[OF _ moves_safe[OF probe_finished_moves] subset_refl, of d W] world_goodD(1) assms(2) show ?thesis by (auto intro: world_good_less)
next
  case (commit a W d env result)
  with step_good[OF _ moves_safe[OF dynamic_commitLink_moves] subset_refl, of d W] world_goodD(1) assms(2) show ?thesis by auto
next
  case (ready a W d v)
  with step_good[OF _ moves_safe[OF control_ready_moves] subset_refl, of d W] world_goodD(1) assms(2) show ?thesis by auto
next
  case (failed a W d env ctx)
  with step_good[OF _ moves_safe[OF control_failed_moves] subset_refl, of d W] world_goodD(1) assms(2) show ?thesis by auto
next
  case (lost d W plan)
  with same_core_world[OF markLinkLost_core] same_core_lives[OF markLinkLost_core lives_refl] assms(2) show ?thesis by auto
next
  case (ended a W d env)
  with step_good[OF _ moves_safe[OF failAttempt_moves] subset_refl, of d W] world_goodD(1) assms(2) show ?thesis by (auto intro: world_good_less)
next
  case (expire d W a ctx epoch)
  with step_good[OF _ moves_safe[OF expireConnectivity_moves] subset_refl, of d W] world_goodD(1) assms(2) show ?thesis by auto
next
  case (takeover d W env remote)
  with step_good[OF _ moves_safe[OF staticTakesOver_moves] subset_refl, of d W] world_goodD(1) assms(2) show ?thesis by auto
next
  case (restored env rc d d' r W)
  note wg = assms(2)[unfolded restored(1)] note g = world_goodD(1)[OF wg]
  note s = step_good[OF wg restore_safe[OF g restored(3)] subset_refl]
  show ?thesis
  proof (cases "length (en_objects d') = length (en_objects d)")
    case False
    let ?a = "length (en_objects d)"
    have "Supervising ?a \<notin> W" using world_goodD(3)[OF wg, of "Supervising ?a"] by auto
    moreover have "?a < length (en_objects d')" using s False by (auto simp: lives_def)
    ultimately have "world_good (d', insert (Supervising ?a) W)" by (intro start_worker) (use s in auto)
    with s False restored show ?thesis by simp
  qed (use s restored in simp)
next
  case (removeFailed d W env peer)
  with step_good[OF _ moves_safe[OF removeFailed_moves] subset_refl, of d W] world_goodD(1) assms(2) show ?thesis by auto
next
  case (retire d W env is_ready peer)
  with step_good[OF _ moves_safe[OF retireUnavailable_moves] subset_refl, of d W] world_goodD(1) assms(2) show ?thesis by auto
next
  case (retry d W env)
  with step_good[OF _ moves_safe[OF retry_cleanup_moves] subset_refl, of d W] world_goodD(1) assms(2) show ?thesis by auto
next
  case (rest d d' W)
  with same_core_world same_core_lives[OF _ lives_refl] assms(2) show ?thesis by auto
qed

lemma attempt_run_good: "attempt_run dcfg w \<Longrightarrow> world_good w"
proof (induction rule: attempt_run.induct)
  case (start d)
  then show ?case
    by (simp add: fresh_engine_def world_good_def engine_good_def table_good_def profile_def resourceCount count_def)
next
  case (adopt d W receipt env plan lease d' r)
  note wg = adopt.IH
  note s = step_good[OF wg moves_safe1[OF adopt_link_moves[OF world_goodD(1)[OF wg] adopt.hyps(2,4)] adopt.hyps(3)] subset_refl]
  show ?case
  proof (cases "length (en_objects d') = length (en_objects d)")
    case False
    let ?a = "length (en_objects d)"
    have "Supervising ?a \<notin> W" using world_goodD(3)[OF wg, of "Supervising ?a"] by auto
    moreover have "?a < length (en_objects d')" using s False by (auto simp: lives_def)
    ultimately show ?thesis using False s by (simp, intro start_worker) auto
  qed (use s in simp)
next
  case (step w w')
  with attempt_step_good show ?case by blast
qed

section \<open>Crossing proposals\<close>

lemma refused_stays:
  assumes "map_of (en_attempts d) (UUID (s_RemoteUID s)) = Some c" "at_state (object d c) = dynamicProposing"
    "own_id (dy_durable dcfg) < UUID (s_RemoteUID s)"
  shows "prepareInbound dcfg env s value d = (d, None)"
  using assms by (simp add: prepareInbound_def replace_current_def Let_def bytes_Compare_word_less)

text \<open>What \<open>prepareAttemptLocked\<close> makes of a reserved interface.\<close>

definition takes_over :: "LinkPlan \<Rightarrow> array16 \<Rightarrow> dynamicAttempt \<Rightarrow> bool" where
  "takes_over reserved oid x = (at_operationID x = oid \<and> \<not> at_localProposal x
     \<and> lp_InterfaceName (at_plan x) = lp_InterfaceName reserved \<and> OwnerAlias (at_plan x) = OwnerAlias reserved)"

lemma takes_over_modify:
  assumes "takes_over reserved oid (object d a)" "\<And>x. takes_over reserved oid x \<Longrightarrow> takes_over reserved oid (f x)"
  shows "takes_over reserved oid (object (modify a f d) a)"
  using assms by (cases "a < length (en_objects d)") (simp_all add: object_def modify_def list_update_beyond)

lemma takes_over_core: "same_core d d' \<Longrightarrow> takes_over reserved oid (object d a) \<Longrightarrow> takes_over reserved oid (object d' a)"
  by (simp add: same_core_def object_def)

lemma prepareAttempt_takes_over:
  assumes "prepareAttemptLocked dcfg env s oid False reserved d = (d', a, None)" "lp_InterfaceName reserved \<noteq> []"
  shows "takes_over reserved oid (object d' a)"
proof -
  let ?d = "add_attempt (new_attempt s oid False reserved) d"
  have a: "a = length (en_objects d)" by (rule prepareAttempt_quiet(1)[OF assms(1)])
  have t: "takes_over reserved oid (object ?d a)"
    by (simp add: a takes_over_def object_def add_attempt_def new_attempt_def)
  from assms(1) a obtain hint e u g c where h: "prepareUDP dcfg env a hint ?d = (e, Inr u)"
    and g: "prepare_interface dcfg env s u a (modify a (\<lambda>x. x\<lparr>at_udp := Some u\<rparr>) e) = (g, None)"
    and d': "d' = modify a (\<lambda>x. x\<lparr>at_candidate := c\<rparr>)
      (modify a (\<lambda>x. x\<lparr>at_plan := (at_plan x)\<lparr>ListenPort := primary_port u, Probing := True\<rparr>\<rparr>) g)"
    by (auto simp: prepareAttemptLocked_def Let_def split: option.splits prod.splits sum.splits)
  let ?f = "modify a (\<lambda>x. x\<lparr>at_udp := Some u\<rparr>) e"
  have f: "takes_over reserved oid (object ?f a)"
    by (rule takes_over_modify[OF takes_over_core[OF prepareUDP_core[OF h] t]]) (simp add: takes_over_def)
  then have "g = ?f" using g assms(2) by (simp add: prepare_interface_def takes_over_def)
  with f show ?thesis unfolding d' by (intro takes_over_modify) (simp_all add: takes_over_def)
qed

lemma configure_takes_over:
  assumes "configureAttemptLocked dcfg a value d = (d', e)" "takes_over reserved oid (object d a)"
  shows "takes_over reserved oid (object d' a)"
  using assms by (auto simp: configureAttemptLocked_def takes_over_def split: if_splits intro!: takes_over_modify[unfolded takes_over_def])

text \<open>A proposal that is accepted while an interface is reserved for the peer takes it over.\<close>

lemma inbound_takes_over:
  assumes "engine_good d" "prepareInbound dcfg env s m d = (d', Some c)" "lp_InterfaceName plan \<noteq> []"
    "(\<exists>b. map_of (en_attempts d) (UUID (s_RemoteUID s)) = Some b \<and> at_state (object d b) = dynamicProposing \<and> at_plan (object d b) = plan)
     \<or> (\<exists>cleanup. map_of (en_attempts d) (UUID (s_RemoteUID s)) = None
          \<and> map_of (en_pendingCleanups d) (UUID (s_RemoteUID s)) = Some cleanup \<and> cu_plan cleanup = plan)"
  shows "isCurrentAttemptLocked d' c" "at_state (object d' c) = dynamicProbing" "takes_over plan (m_OperationID m) (object d' c)"
    "at_remote (object d' c) = UUID (s_RemoteUID s)"
proof -
  let ?u = "UUID (s_RemoteUID s)"
  from assms(2) obtain e p f err where e: "replace_current dcfg env s m d = (e, Some p)"
    and f: "prepareAttemptLocked dcfg env s (m_OperationID m) False
           (case map_of (en_pendingCleanups e) ?u of Some cleanup \<Rightarrow> if lp_InterfaceName p = [] then cu_plan cleanup else p | None \<Rightarrow> p)
           (cancelDeferredCleanupLocked ?u e) = (f, c, None)"
    and g: "configureAttemptLocked dcfg c m f = (d', None)"
    by (auto simp: prepareInbound_def Let_def split: prod.splits if_splits option.splits)
  note rc = replace_current_moves[OF assms(1) e]
  note cd = cancelDeferred[OF moves_good[OF rc(1)], of ?u]
  have none: "map_of (en_attempts (cancelDeferredCleanupLocked ?u e)) ?u = None" using rc(2) cd(5) by simp
  note pm = prepareAttempt_moves[OF cd(1) none f]
  have p: "p = plan \<or> p = no_plan \<and> map_of (en_attempts d) ?u = None"
    using assms(4) e by (auto simp: replace_current_def Let_def split: if_splits)
  have reserved: "(case map_of (en_pendingCleanups e) ?u of Some cleanup \<Rightarrow> if lp_InterfaceName p = [] then cu_plan cleanup else p | None \<Rightarrow> p) = plan"
    using assms(3,4) p by (elim disjE exE conjE) (simp_all add: rc(4) split: option.split)
  note t = prepareAttempt_takes_over[OF f[unfolded reserved] assms(3)]
  show "takes_over plan (m_OperationID m) (object d' c)" by (rule configure_takes_over[OF g t])
  from configure_cases[OF g] obtain F where F: "d' = modify c F f" "at_remote (F x) = at_remote x" "at_state (F x) = dynamicProbing" for x
    by auto
  have l: "c < length (en_objects f)" using table_current(1)[OF _ pm(2)] moves_good[OF pm(1)] by (simp add: engine_good_def)
  show "isCurrentAttemptLocked d' c" "at_state (object d' c) = dynamicProbing" "at_remote (object d' c) = ?u"
    using pm l F by (simp_all add: isCurrentAttemptLocked_def core_simps object_def)
qed

lemma decline_current:
  assumes "engine_good d" "isCurrentAttemptLocked d c" "at_remote (object d c) = UUID (s_RemoteUID s)" "at_state (object d c) \<noteq> dynamicProposing"
  shows "handleDynamicDecline env s m d = d"
  using assms by (simp add: handleDynamicDecline_def proposingAttemptLocked_def isCurrentAttemptLocked_def)

text \<open>A decline that ends a proposal keeps its interface for the peer.\<close>

lemma decline_reserves:
  assumes "engine_good d" "map_of (en_attempts d) (UUID (s_RemoteUID s)) = Some b" "at_state (object d b) = dynamicProposing"
    "lp_InterfaceName (at_plan (object d b)) \<noteq> []"
  shows "handleDynamicDecline env s m d = d
    \<or> map_of (en_attempts (handleDynamicDecline env s m d)) (UUID (s_RemoteUID s)) = None
      \<and> map_option cu_plan (map_of (en_pendingCleanups (handleDynamicDecline env s m d)) (UUID (s_RemoteUID s))) = Some (at_plan (object d b))"
proof (cases "proposingAttemptLocked d s (m_OperationID m)")
  case (Some a)
  with assms(2) have a: "a = b" by (auto simp: proposingAttemptLocked_def split: if_splits)
  define e where "e = d\<lparr>en_peers := (en_peers d)\<lparr>targets := (case map_of (targets (en_peers d)) (s_RemoteLoopbackV6 s) of
      None \<Rightarrow> targets (en_peers d) | Some t \<Rightarrow> AList.update (s_RemoteLoopbackV6 s) (mergePolicyLocked t (m_Policy m)) (targets (en_peers d)))\<rparr>\<rparr>"
  have e: "en_attempts e = en_attempts d" "en_objects e = en_objects d" by (simp_all add: e_def)
  have r: "at_remote (object d b) = UUID (s_RemoteUID s)"
    using table_lookup(2)[of d "UUID (s_RemoteUID s)" b] assms(1,2) by (simp add: engine_good_def)
  have cur: "isCurrentAttemptLocked e b" using assms(2) r by (simp add: isCurrentAttemptLocked_def object_def e)
  have o: "object e b = object d b" by (simp add: object_def e)
  define f where "f = close_session b (on_target (UUID (s_RemoteUID s)) (postpone (le_now env 4) (le_draw env))
      (discardAttemptLocked env (UUID (s_RemoteUID s)) b e))"
  have fo: "at_plan (object f b) = at_plan (object d b)" "at_remote (object f b) = UUID (s_RemoteUID s)"
    by (simp_all add: f_def object_def core_simps discardAttemptLocked_def stop_objects nth_list_update_if e)
      (use r in \<open>simp_all add: object_def\<close>)
  have fb: "fallbackLocked env b e = (f, Some (at_plan (object d b)))"
    using cur assms(4) fo by (simp add: fallbackLocked_def f_def o r Let_def)
  have H: "handleDynamicDecline env s m d = deferCleanupLocked (UUID (s_RemoteUID s)) (at_plan (object d b)) f"
    using Some fb fo by (simp add: handleDynamicDecline_def e_def a)
  have "map_of (en_attempts f) (UUID (s_RemoteUID s)) = None"
    by (simp add: f_def core_simps discardAttemptLocked_def delete_conv')
  then show ?thesis
    by (simp add: H defer_core deferCleanupLocked_def Let_def cancelDeferredCleanupLocked_def update_conv')
qed (simp add: handleDynamicDecline_def)

lemma accepted_reply:
  assumes "handleDynamicProposal dcfg env s m d = (d', r, None)" "m_Type r = DynamicLinkAccept"
  obtains e c where "prepareInbound dcfg env s m d = (e, Some c)" "de_send env = None"
    "d' = accept_sent (dy_durable dcfg) env c e" "r = dynamicLinkMessage dcfg DynamicLinkAccept (object e c)"
  using assms by (auto simp: handleDynamicProposal_def decline_message_def message_of_def Let_def split: prod.splits option.splits if_splits)

lemma start_probe_fields:
  assumes "engine_good e" "isCurrentAttemptLocked e c" "at_state (object e c) = dynamicProbing" "takes_over plan oid (object e c)"
  shows "engine_good (startProbeLocked c e)" "isCurrentAttemptLocked (startProbeLocked c e) c"
    "at_state (object (startProbeLocked c e) c) = dynamicProbing" "takes_over plan oid (object (startProbeLocked c e) c)"
    "at_remote (object (startProbeLocked c e) c) = at_remote (object e c)"
proof -
  have l: "c < length (en_objects e)" using table_current(1)[OF _ assms(2)] assms(1) by (simp add: engine_good_def)
  show "engine_good (startProbeLocked c e)" by (rule moves_good[OF startProbe_moves]) (use assms in auto)
  show "takes_over plan oid (object (startProbeLocked c e) c)"
    unfolding startProbeLocked_def by (rule takes_over_modify[OF assms(4)]) (simp add: takes_over_def)
  show "isCurrentAttemptLocked (startProbeLocked c e) c" "at_state (object (startProbeLocked c e) c) = dynamicProbing"
    "at_remote (object (startProbeLocked c e) c) = at_remote (object e c)"
    using assms(2) l by (simp_all add: startProbeLocked_def isCurrentAttemptLocked_def core_simps object_def)
qed

text \<open>The node of the greater identity, whichever of the dm and the proposal arrives first.\<close>

lemma greater_adopts:
  assumes "engine_good d" "map_of (en_attempts d) u = Some b" "at_state (object d b) = dynamicProposing"
    "lp_InterfaceName (at_plan (object d b)) \<noteq> []" "UUID (s_RemoteUID s) = u" "UUID (s_RemoteUID t) = u"
    "d0 = d \<or> d0 = handleDynamicDecline eD s dm d" "handleDynamicProposal dcfg env t m d0 = (d1, r, None)" "m_Type r = DynamicLinkAccept"
    "d2 = d1 \<or> d2 = handleDynamicDecline eD s dm d1"
  shows "\<exists>c. map_of (en_attempts d2) u = Some c \<and> at_state (object d2 c) = dynamicProbing
    \<and> takes_over (at_plan (object d b)) (m_OperationID m) (object d2 c) \<and> m_OperationID r = m_OperationID m"
proof -
  let ?plan = "at_plan (object d b)"
  have g0: "engine_good d0" using assms(1,7) moves_good[OF handleDecline_moves[OF assms(1)]] by auto
  obtain e c where e: "prepareInbound dcfg env t m d0 = (e, Some c)" and s: "de_send env = None"
    and d1: "d1 = accept_sent (dy_durable dcfg) env c e" and r: "r = dynamicLinkMessage dcfg DynamicLinkAccept (object e c)"
    by (rule accepted_reply[OF assms(8,9)])
  have res: "(\<exists>b. map_of (en_attempts d0) (UUID (s_RemoteUID t)) = Some b \<and> at_state (object d0 b) = dynamicProposing \<and> at_plan (object d0 b) = ?plan)
     \<or> (\<exists>cleanup. map_of (en_attempts d0) (UUID (s_RemoteUID t)) = None
          \<and> map_of (en_pendingCleanups d0) (UUID (s_RemoteUID t)) = Some cleanup \<and> cu_plan cleanup = ?plan)"
    using assms(2,3,6,7) decline_reserves[of d s b eD dm] assms(1,4,5) by auto
  note it = inbound_takes_over[OF g0 e assms(4) res]
  have ge: "engine_good e" using prepareInbound_safe(1)[OF g0 e] by (simp add: safe_def)
  note sp = start_probe_fields[OF ge it(1-3)]
  have d1': "d1 = startProbeLocked c e" by (simp add: d1 accept_sent_def s it(1))
  have "d2 = d1" using assms(10) decline_current[OF sp(1,2), of s eD dm] sp(3,5) it(4) assms(5,6) by (auto simp: d1')
  moreover have "m_OperationID r = m_OperationID m" using it(3) by (simp add: r dynamicLinkMessage_def takes_over_def)
  ultimately show ?thesis using sp it(4) assms(6) by (auto simp: d1' isCurrentAttemptLocked_def)
qed

lemma accept_configures:
  assumes "engine_good d" "proposingAttemptLocked d s (m_OperationID m) = Some a" "snd (configureAttemptLocked dcfg a m d) = None"
  shows "map_of (en_attempts (handleAccept dcfg env s m d)) (UUID (s_RemoteUID s)) = Some a
    \<and> at_state (object (handleAccept dcfg env s m d) a) = dynamicProbing
    \<and> at_operationID (object (handleAccept dcfg env s m d) a) = m_OperationID m"
proof -
  note l = configure_proposing(1)[OF assms(1,2)]
  from assms(2) have m: "map_of (en_attempts d) (UUID (s_RemoteUID s)) = Some a" "at_operationID (object d a) = m_OperationID m"
    by (auto simp: proposingAttemptLocked_def split: option.splits if_splits)
  have "handleAccept dcfg env s m d = startProbeLocked a (fst (configureAttemptLocked dcfg a m d))"
    using assms(2,3) by (auto simp: handleAccept_def split: prod.split)
  then show ?thesis using assms(3) l m
    by (auto simp: configureAttemptLocked_def startProbeLocked_def core_simps object_def split: if_splits)
qed

section \<open>Properties\<close>

definition live :: "dynamicEngine \<Rightarrow> nat \<Rightarrow> bool" where
  "live d a = (a < length (en_objects d) \<and> at_state (object d a) \<noteq> dynamicStopped)"

lemma world_good_live:
  assumes "world_good (d, W)" "live d a"
  shows "map_of (en_attempts d) (at_remote (object d a)) = Some a"
  using assms table_live[of d a] by (auto simp: world_good_def engine_good_def live_def isCurrentAttemptLocked_def)

lemma world_good_entry:
  assumes "world_good (d, W)" "map_of (en_attempts d) u = Some a"
  shows "live d a \<and> at_remote (object d a) = u"
  using table_lookup[of d u a] table_current[of d a] assms by (auto simp: world_good_def engine_good_def live_def)

text \<open>A node with an interface of its own and a peer, for the witnesses.\<close>

definition sample_durable :: durableManager where
  "sample_durable = \<lparr>dm_cooldown = [], dm_closed = False, dm_file = None, dm_records = [], dm_observations = [], dm_operations = [],
    dm_checks = [], dm_checkStates = (\<lambda>_. new_check 0), dm_allocated = 0\<rparr>"

definition sample_engine :: dynamicEngine where
  "sample_engine = \<lparr>rn_states = [], rn_evidence = [\<lparr>ev_Link = ''vf0'', ev_LocalListenPort = 9, ev_ObservedEndpoint = AddrPort (Addr4 0x01020304) 9\<rparr>],
    rn_warm = None, rn_durable = sample_durable, rn_resources = [], rn_pool = new_pool 58420, rn_calls = [],
    en_peers = \<lparr>targets = [], policyCursor = 0, dialWindow = 0, dialCount = 0, outboundSessions = 0, policyRevision = 1, policySocket = True, stopped = False\<rparr>,
    en_attempts = [], en_objects = [], en_pendingCleanups = [], en_allocated = 0, en_contexts = 0, en_cancelled = []\<rparr>"

definition sample_party :: "array16 \<Rightarrow> array32 \<Rightarrow> dynamic_config" where
  "sample_party u key = \<lparr>dy_durable = \<lparr>dc_desired = sample_node\<lparr>ds_UUID := u, ds_PrivateKey := key,
       ds_DynamicLinks := Some \<lparr>dp_Mode = ''active'', dp_AllowCandidatePrefixes = [Prefix (Addr4 0) 0], RecoveryTimeout = 0\<rparr>\<rparr>,
       dc_name = [], dc_publicKey = key, dc_texts = plain_texts []\<rparr>,
    dy_primitives = \<lparr>pm_mac = (\<lambda>_ _. []), pm_hkdf = (\<lambda>_ _. Inr (replicate 32 0)), pm_uuid = (\<lambda>_. ''0'')\<rparr>,
    dy_publicKey = (\<lambda>k. k), dy_endpointText = (\<lambda>_. [])\<rparr>"

definition sample_durable_env :: durable_env where
  "sample_durable_env = \<lparr>e_now = (\<lambda>_. 0), e_reserve = (\<lambda>_. 0), e_endpoint = (\<lambda>_. 0), e_states = (\<lambda>_. []), e_cancelled = (\<lambda>_. False),
    e_io = (\<lambda>_. no_faults), e_send = (\<lambda>_. None), e_id = Inr 7, e_revision = 1\<rparr>"

definition sample_system :: "(link_call list, addrport) system" where
  "sample_system = \<lparr>sys_listen = (\<lambda>ep log. (log, Inr ep)), sys_listen_any = (\<lambda>port log. (log, Inr (AddrPort NoAddr (word_of_int port)))),
    sys_close = (\<lambda>_ log. log), sys_port = ap_Port, sys_rand = (\<lambda>_ log. (log, 0)), sys_ListenPort = (\<lambda>_ log. (log, 9)),
    sys_RemoveDynamic = (\<lambda>_ log. (log, None)), sys_PrepareLink = (\<lambda>plan log. (log, Inr plan)), sys_ConfigureLink = (\<lambda>_ log. (log, None))\<rparr>"

definition sample_env :: dynamic_env where
  "sample_env = \<lparr>le_now = (\<lambda>_. 0), le_ended = (\<lambda>_. None), le_materialize = (\<lambda>_. None), le_keepAlive = None, le_remove = (\<lambda>_. None),
    le_write = (\<lambda>_. None), le_unlink = (\<lambda>_. False), le_durable = sample_durable_env, le_listenPort = Inr 9, le_draw = 0,
    de_operationID = Inr 7, de_probeKey = Inr 5, de_probeSource = (\<lambda>_. Inr (Addr4 1)), de_send = None, de_system = sample_system\<rparr>"

definition sample_plan :: "array32 \<Rightarrow> LinkPlan" where
  "sample_plan key = no_plan\<lparr>lp_InterfaceName := ''vdl-0'', OwnerAlias := ''owner'', lp_PrivateKey := key, ListenPort := 9\<rparr>"

definition sample_receipt :: warmLink where
  "sample_receipt = \<lparr>wl_Interface = ''vdl-0'', wl_Owner = ''owner'', wl_PublicKey = 3, wl_Port = 9,
    wl_Result = \<lparr>res_RemoteUID = \<lparr>UUID = 2, Name = []\<rparr>, res_RemoteLoopbackV6 = NoAddr, res_Proposal = NoProposal\<rparr>,
    wl_Remote = NoAddr, wl_Static = False, wl_LastPong = 1\<rparr>"

definition sample_adopted :: dynamicEngine where
  "sample_adopted = fst (adopt_link (dy_durable (sample_party 1 1)) sample_env sample_receipt (sample_plan 1) \<lparr>pl_port = 9, pl_id = 0\<rparr> sample_engine)"

lemmas sample_defs = sample_durable_def sample_engine_def sample_party_def sample_durable_env_def sample_system_def sample_env_def
  sample_plan_def sample_receipt_def sample_node_def

lemma sample_adopted_shape:
  "length (en_objects sample_adopted) = 1" "en_attempts sample_adopted = [(2, 0)]" "at_state (object sample_adopted 0) = dynamicRecovering"
  "at_remote (object sample_adopted 0) = 2" "at_plan (object sample_adopted 0) = sample_plan 1"
  by (simp_all add: sample_adopted_def adopt_link_def adopted_state_def adopted_attempt_def materializeLink_def called_def SetLinkState_def
      startConnectivityLocked_def armConnectivityDeadlineLocked_def add_attempt_def committedLink_def modify_def object_def Let_def
      sample_defs)

lemma sample_adopted_run: "attempt_run (sample_party 1 1) (sample_adopted, {Supervising 0})"
proof -
  have "attempt_run (sample_party 1 1) (sample_engine, {})"
    by (rule attempt_run.start) (simp add: fresh_engine_def sample_engine_def owned_def cleanups_def)
  then have "attempt_run (sample_party 1 1) (sample_adopted,
      if length (en_objects sample_adopted) = length (en_objects sample_engine) then {} else insert (Supervising (length (en_objects sample_engine))) {})"
    by (rule attempt_run.adopt[where env = sample_env and receipt = sample_receipt and plan = "sample_plan 1"
          and lease = "\<lparr>pl_port = 9, pl_id = 0\<rparr>" and r = "snd (adopt_link (dy_durable (sample_party 1 1)) sample_env sample_receipt (sample_plan 1) \<lparr>pl_port = 9, pl_id = 0\<rparr> sample_engine)"])
      (simp_all add: sample_adopted_def, simp_all add: sample_engine_def resourceCountLocked_def)
  then show ?thesis by (simp add: sample_adopted_shape) (simp add: sample_engine_def)
qed





text \<open>
  C8: When the proposals of two nodes cross, both settle on the operation of the node of the smaller
  identity.  That node keeps its attempt and declines the other proposal; the other node, whether it
  handles the decline before or after the proposal, gives up its own operation, and if it accepts it
  ends with one live attempt for the peer, probing under the smaller node's operation on the
  interface its own proposal had reserved; and the acceptance takes the smaller node to the same
  phase of the same operation.
\<close>

theorem crossing_proposals_converge:
  assumes small: "engine_good dA" "map_of (en_attempts dA) (own_id (dy_durable cB)) = Some a" "at_state (object dA a) = dynamicProposing"
    and great: "engine_good dB" "map_of (en_attempts dB) (own_id (dy_durable cA)) = Some b" "at_state (object dB b) = dynamicProposing"
      "lp_InterfaceName (at_plan (object dB b)) \<noteq> []"
    and order: "own_id (dy_durable cA) < own_id (dy_durable cB)"
    and peers: "UUID (s_RemoteUID tA) = own_id (dy_durable cB)" "UUID (s_RemoteUID sB) = own_id (dy_durable cA)"
      "UUID (s_RemoteUID tB) = own_id (dy_durable cA)"
    and proposals: "handleDynamicProposal cA eA tA (dynamicLinkMessage cB DynamicLinkPropose (object dB b)) dA = (dA', rA, xA)"
      "dB0 = dB \<or> dB0 = handleDynamicDecline eD sB rA dB"
      "handleDynamicProposal cB eB tB (dynamicLinkMessage cA DynamicLinkPropose (object dA a)) dB0 = (dB1, rB, None)"
      "m_Type rB = DynamicLinkAccept" "dB2 = dB1 \<or> dB2 = handleDynamicDecline eD sB rA dB1"
  shows "dA' = dA \<and> m_Type rA = DynamicLinkDecline \<and> m_OperationID rA = at_operationID (object dB b)
    \<and> (\<exists>c. map_of (en_attempts dB2) (own_id (dy_durable cA)) = Some c \<and> at_state (object dB2 c) = dynamicProbing
         \<and> at_operationID (object dB2 c) = at_operationID (object dA a) \<and> \<not> at_localProposal (object dB2 c)
         \<and> lp_InterfaceName (at_plan (object dB2 c)) = lp_InterfaceName (at_plan (object dB b))
         \<and> OwnerAlias (at_plan (object dB2 c)) = OwnerAlias (at_plan (object dB b)))
    \<and> (proposingAttemptLocked dA sA (m_OperationID rB) = Some a \<and> UUID (s_RemoteUID sA) = own_id (dy_durable cB)
         \<and> snd (configureAttemptLocked cA a rB dA) = None \<longrightarrow>
       map_of (en_attempts (handleAccept cA eA' sA rB dA)) (own_id (dy_durable cB)) = Some a
         \<and> at_state (object (handleAccept cA eA' sA rB dA) a) = dynamicProbing
         \<and> at_operationID (object (handleAccept cA eA' sA rB dA) a) = at_operationID (object dA a))"
proof -
  have "prepareInbound cA eA tA (dynamicLinkMessage cB DynamicLinkPropose (object dB b)) dA = (dA, None)"
    using refused_stays small(2,3) order peers(1) by simp
  then have refuse: "dA' = dA \<and> m_Type rA = DynamicLinkDecline \<and> m_OperationID rA = at_operationID (object dB b)"
    using proposals(1) by (auto simp: handleDynamicProposal_def decline_message_def message_of_def dynamicLinkMessage_def Let_def)
  from greater_adopts[OF great peers(2,3) proposals(2-5)] obtain c where
    c: "map_of (en_attempts dB2) (own_id (dy_durable cA)) = Some c" "at_state (object dB2 c) = dynamicProbing"
      "takes_over (at_plan (object dB b)) (at_operationID (object dA a)) (object dB2 c)"
    and r: "m_OperationID rB = at_operationID (object dA a)"
    by (auto simp: dynamicLinkMessage_def)
  from c have adopted: "\<exists>c. map_of (en_attempts dB2) (own_id (dy_durable cA)) = Some c \<and> at_state (object dB2 c) = dynamicProbing
         \<and> at_operationID (object dB2 c) = at_operationID (object dA a) \<and> \<not> at_localProposal (object dB2 c)
         \<and> lp_InterfaceName (at_plan (object dB2 c)) = lp_InterfaceName (at_plan (object dB b))
         \<and> OwnerAlias (at_plan (object dB2 c)) = OwnerAlias (at_plan (object dB b))"
    by (auto simp: takes_over_def)
  have follow: "map_of (en_attempts (handleAccept cA eA' sA rB dA)) (own_id (dy_durable cB)) = Some a
         \<and> at_state (object (handleAccept cA eA' sA rB dA) a) = dynamicProbing
         \<and> at_operationID (object (handleAccept cA eA' sA rB dA) a) = at_operationID (object dA a)"
    if "proposingAttemptLocked dA sA (m_OperationID rB) = Some a" "UUID (s_RemoteUID sA) = own_id (dy_durable cB)"
      "snd (configureAttemptLocked cA a rB dA) = None"
    using accept_configures[OF small(1) that(1,3), of eA'] that(2) r by simp
  from refuse adopted follow show ?thesis by blast
qed

definition sample_session :: "nat \<Rightarrow> array16 \<Rightarrow> session" where
  "sample_session k u = \<lparr>s_ident = k, s_RemoteUID = \<lparr>UUID = u, Name = []\<rparr>, s_RemoteLoopbackV6 = NoAddr\<rparr>"

text \<open>A node that has proposed: the peer, its own key and operation.\<close>

definition sample_proposed :: "array16 \<Rightarrow> array32 \<Rightarrow> array16 \<Rightarrow> dynamicEngine" where
  "sample_proposed peer key oid = sample_engine\<lparr>en_attempts := [(peer, 0)],
    en_objects := [(new_attempt (sample_session 1 peer) oid True (sample_plan key))\<lparr>at_state := dynamicProposing,
      at_candidate := AddrPort (Addr4 0x01020304) 9,
      at_udp := Some \<lparr>ua_ctx = 0, ua_receiverKey = 4, ua_primary = \<lparr>lp_socket = Some (AddrPort (Addr4 1) 9),
        lp_lease = \<lparr>pl_port = 9, pl_id = 0\<rparr>, lp_handed = False\<rparr>, ua_remoteKey = 0, ua_remoteEndpoint = NoAddrPort, ua_remotePublicKey = 0\<rparr>\<rparr>],
    rn_pool := (new_pool 58420)\<lparr>leases := (\<lambda>_. None)(9 \<mapsto> \<lparr>pl_port = 9, pl_id = 0\<rparr>), next_id := 1\<rparr>\<rparr>"

definition sample_reply :: "(dynamicEngine \<times> Message \<times> error option)" where
  "sample_reply = handleDynamicProposal (sample_party 2 2) sample_env (sample_session 2 1)
     (dynamicLinkMessage (sample_party 1 1) DynamicLinkPropose (object (sample_proposed 2 1 7) 0)) (sample_proposed 1 2 8)"

lemma sample_proposed_good: "engine_good (sample_proposed peer key oid)"
  by (simp add: engine_good_def table_good_def profile_def sample_proposed_def sample_engine_def owned_def new_attempt_def sample_session_def)

lemmas sample_run_defs = sample_defs sample_proposed_def sample_session_def new_attempt_def

lemma sample_reply_accepts: "snd (snd sample_reply) = None \<and> m_Type (fst (snd sample_reply)) = DynamicLinkAccept"
  by code_simp

lemma sample_proposed_shape:
  "map_of (en_attempts (sample_proposed peer key oid)) peer = Some 0" "at_state (object (sample_proposed peer key oid) 0) = dynamicProposing"
  "at_operationID (object (sample_proposed peer key oid) 0) = oid" "at_plan (object (sample_proposed peer key oid) 0) = sample_plan key"
  by (simp_all add: sample_proposed_def new_attempt_def object_def)

lemma sample_ids: "own_id (dy_durable (sample_party u key)) = u" "UUID (s_RemoteUID (sample_session k u)) = u"
  by (simp_all add: sample_party_def sample_session_def)

theorem crossing_proposals_converge_witness:
  "fst (handleDynamicProposal (sample_party 1 1) sample_env (sample_session 2 2)
     (dynamicLinkMessage (sample_party 2 2) DynamicLinkPropose (object (sample_proposed 1 2 8) 0)) (sample_proposed 2 1 7)) = sample_proposed 2 1 7
   \<and> (\<exists>c. map_of (en_attempts (fst sample_reply)) 1 = Some c \<and> at_operationID (object (fst sample_reply) c) = 7
        \<and> lp_InterfaceName (at_plan (object (fst sample_reply) c)) = ''vdl-0'')"
proof -
  let ?A = "handleDynamicProposal (sample_party 1 1) sample_env (sample_session 2 2)
     (dynamicLinkMessage (sample_party 2 2) DynamicLinkPropose (object (sample_proposed 1 2 8) 0)) (sample_proposed 2 1 7)"
  have A: "?A = (fst ?A, fst (snd ?A), snd (snd ?A))" by simp
  have B: "handleDynamicProposal (sample_party 2 2) sample_env (sample_session 2 1)
     (dynamicLinkMessage (sample_party 1 1) DynamicLinkPropose (object (sample_proposed 2 1 7) 0)) (sample_proposed 1 2 8)
     = (fst sample_reply, fst (snd sample_reply), None)"
    using sample_reply_accepts by (metis prod.collapse sample_reply_def)
  have "fst ?A = sample_proposed 2 1 7 \<and> m_Type (fst (snd ?A)) = DynamicLinkDecline
      \<and> m_OperationID (fst (snd ?A)) = at_operationID (object (sample_proposed 1 2 8) 0)
      \<and> (\<exists>c. map_of (en_attempts (fst sample_reply)) (own_id (dy_durable (sample_party 1 1))) = Some c
         \<and> at_state (object (fst sample_reply) c) = dynamicProbing
         \<and> at_operationID (object (fst sample_reply) c) = at_operationID (object (sample_proposed 2 1 7) 0)
         \<and> \<not> at_localProposal (object (fst sample_reply) c)
         \<and> lp_InterfaceName (at_plan (object (fst sample_reply) c)) = lp_InterfaceName (at_plan (object (sample_proposed 1 2 8) 0))
         \<and> OwnerAlias (at_plan (object (fst sample_reply) c)) = OwnerAlias (at_plan (object (sample_proposed 1 2 8) 0)))"
    using crossing_proposals_converge[where sB = "sample_session 1 1" and sA = "sample_session 1 2" and eA' = sample_env and eD = sample_env,
      OF sample_proposed_good _ _ sample_proposed_good _ _ _ _ _ _ _ A disjI1[OF refl] B _ disjI1[OF refl]]
      sample_reply_accepts
    by (simp add: sample_proposed_shape sample_ids sample_plan_def)
  then show ?thesis by (auto simp: sample_proposed_shape sample_ids sample_plan_def)
qed

end
