(* ===== verification/Link_Runs.thy ===== *)
theory Link_Runs
  imports Link_Health Attempt_Runs
begin

text \<open>
  The supervision of a link over time: the runs of the loop of \<^verbatim>\<open>link_health.go\<close>, for a configured
  link or an attempt, while the rest of the node goes on.  Shown: a link is held healthy only on
  evidence of the peer, and the table of links says so with the addresses that were agreed on; a
  silent peer is given up after thirty seconds, but keeps its addresses; and the periodic repair
  asks for the route to a loopback on exactly one link.  An answer handled after the link was
  removed makes an entry without an owner.
\<close>

section \<open>Runs of the loop\<close>

text \<open>
  The two uses of the loop: a configured link, and the attempt \<open>a\<close> of the engine, under the context
  its supervision was started with.
\<close>

datatype link_role = Configured bool | OfAttempt nat nat dynamicEngine

fun role_control :: "durable_config \<Rightarrow> LinkPlan \<Rightarrow> link_role \<Rightarrow> linkControl" where
  "role_control cfg plan (Configured onCommit) = staticControl cfg plan onCommit"
| "role_control cfg plan (OfAttempt a ctx d0) = linkControl_of cfg a ctx d0"

fun role_serves :: "LinkPlan \<Rightarrow> link_role \<Rightarrow> dynamicEngine \<Rightarrow> bool" where
  "role_serves plan (Configured onCommit) = (\<lambda>_. True)"
| "role_serves plan (OfAttempt a ctx d0) = stands_for a plan"

abbreviation supervised :: "durable_config \<Rightarrow> LinkPlan \<Rightarrow> link_role \<Rightarrow> link_params" where
  "supervised cfg plan role \<equiv> link_with (role_control cfg plan role) cfg plan (pf_Addr (BootstrapAddress plan))"

text \<open>What the loop has handled, oldest first: \<open>None\<close> is its start.\<close>

type_synonym link_history = "(health_env \<times> link_event option \<times> link_output list) list"

text \<open>
  A run: the loop starts when the link is not healthy, it handles events, and the rest of the node
  does anything between two of them, except that it does not write the entry of this link; it may
  remove it.
\<close>

inductive link_run :: "durable_config \<Rightarrow> LinkPlan \<Rightarrow> link_role \<Rightarrow> link_history \<Rightarrow> supervisor \<Rightarrow> dynamicEngine \<Rightarrow> bool" for cfg plan role where
  started: "role_serves plan role d \<Longrightarrow> (\<And>state. own_entry plan d = Some state \<Longrightarrow> \<not> ms_active state) \<Longrightarrow>
    manage_start (supervised cfg plan role) env d = (sv, d', out, None) \<Longrightarrow> link_run cfg plan role [(env, None, out)] sv d'"
| handled: "link_run cfg plan role past sv d \<Longrightarrow> enabled sv event \<Longrightarrow>
    link_step (supervised cfg plan role) env event sv d = (sv', d', out, None) \<Longrightarrow>
    link_run cfg plan role (past @ [(env, Some event, out)]) sv' d'"
| elsewhere: "link_run cfg plan role past sv d \<Longrightarrow> role_serves plan role d' \<Longrightarrow> own_entry plan d' \<in> {None, own_entry plan d} \<Longrightarrow>
    link_run cfg plan role past sv d'"

lemma role_step_ok:
  assumes "OwnerAlias plan \<noteq> []" "enabled sv event" "link_step (supervised cfg plan role) env event sv d = (sv', d', out, None)"
    and "loop_ok cfg plan (lc_automatic (role_control cfg plan role)) (role_serves plan role) sv d"
  shows "loop_ok cfg plan (lc_automatic (role_control cfg plan role)) (role_serves plan role) sv' d'"
  using assms configured_link.link_step_ok[OF assms(1,2)] attempt_link.link_step_ok[OF assms(1,2)] by (cases role) simp_all

lemma role_ready:
  "rn_states (lc_ready (role_control cfg plan role) up d) = rn_states d"
  "role_serves plan role d \<Longrightarrow> role_serves plan role (lc_ready (role_control cfg plan role) up d)"
  using configured_link.ready_keeps attempt_link.ready_keeps attempt_link.ready_serves by (cases role; simp)+

lemma start_shape:
  assumes "manage_start p env d = (sv, d', out, None)"
  obtains sv0 outp where "sv0 = initial_supervisor (lk_plan p) d'" "d' = lc_ready (lk_control p) True d"
    "ping env (le_now (he_env env) 0) sv0 = (sv, outp, None)" "out = outp @ (if lc_passive (lk_control p) then [] else [SendHello])"
  using assms by (auto simp: manage_start_def Let_def split: prod.splits option.splits)

lemma initial_fields: "\<not> sv_healthy (initial_supervisor plan d)" "\<not> sv_busy (initial_supervisor plan d)" "lh_pending (sv_health (initial_supervisor plan d)) = 0"
  by (simp_all add: initial_supervisor_def no_supervisor_def split: option.split)

lemma link_run_ok:
  assumes "link_run cfg plan role past sv d" "OwnerAlias plan \<noteq> []"
  shows "loop_ok cfg plan (lc_automatic (role_control cfg plan role)) (role_serves plan role) sv d"
  using assms
proof (induction rule: link_run.induct)
  case (started d env sv d' out)
  from started(3) obtain sv0 outp where s: "sv0 = initial_supervisor plan d'"
    "d' = lc_ready (role_control cfg plan role) True d" "ping env (le_now (he_env env) 0) sv0 = (sv, outp, None)"
    by (rule start_shape) simp
  have "loop_ok cfg plan (lc_automatic (role_control cfg plan role)) (role_serves plan role) sv0 d'"
    using started(1,2) role_ready(2)[OF started(1), of cfg True]
    by (auto simp: loop_ok_def supervisor_ok_def agrees_def s(1,2) initial_fields own_entry_cong[OF role_ready(1)])
  with s(3) show ?case by (simp add: ping_ok)
next
  case (handled past sv d event env sv' d' out)
  then show ?case using role_step_ok by blast
next
  case (elsewhere past sv d d')
  then show ?case by (auto simp: loop_ok_def agrees_def)
qed

section \<open>Evidence of the peer\<close>

text \<open>When a challenge was sent.\<close>

fun ping_clock :: "health_env \<Rightarrow> link_event option \<Rightarrow> time" where
  "ping_clock env None = le_now (he_env env) 0"
| "ping_clock env (Some (Tick now)) = now"
| "ping_clock env (Some event) = le_now (he_env env) 2"

definition asked :: "link_history \<Rightarrow> addr \<Rightarrow> array16 \<Rightarrow> time \<Rightarrow> bool" where
  "asked past remote ident t =
    (\<exists>(env, event, out) \<in> set past. SendPing remote ident \<in> set out \<and> ping_clock env event = t)"

text \<open>
  The peer was heard at a time: a negotiation with it was completed, or it returned the value of a
  challenge that was sent to it, less than ten seconds ago.
\<close>

definition answered :: "link_history \<Rightarrow> link_event option \<Rightarrow> time \<Rightarrow> bool" where
  "answered past event now =
    (event = Some (Finished None)
     \<or> (\<exists>source m t. event = Some (Packet source m) \<and> m_Type m = LinkPong
          \<and> asked past source (m_OperationID m) t \<and> now < t + linkPingInterval))"

definition heard_at :: "link_history \<Rightarrow> time \<Rightarrow> bool" where
  "heard_at past now =
    (\<exists>before env event out after. past = before @ (env, event, out) # after
       \<and> now = le_now (he_env env) 0 \<and> answered before event now)"

definition known :: "link_history \<Rightarrow> supervisor \<Rightarrow> bool" where
  "known past sv =
    ((lh_pending (sv_health sv) \<noteq> 0 \<longrightarrow>
        asked past (sv_remote sv) (lh_pending (sv_health sv)) (lh_expires (sv_health sv) - linkPingInterval))
     \<and> (sv_healthy sv \<longrightarrow> heard_at past (lh_lastPong (sv_health sv))))"

lemma asked_mono: "asked past remote ident t \<Longrightarrow> set past \<subseteq> set past' \<Longrightarrow> asked past' remote ident t"
  by (auto simp: asked_def)

lemma heard_at_more: "heard_at past now \<Longrightarrow> heard_at (past @ [x]) now"
  unfolding heard_at_def by (metis append_Cons append_assoc)

lemma heard_at_now: "answered past event (le_now (he_env env) 0) \<Longrightarrow> heard_at (past @ [(env, event, out)]) (le_now (he_env env) 0)"
  unfolding heard_at_def by blast

lemma known_more: "known past sv \<Longrightarrow> known (past @ [x]) sv"
  by (auto simp: known_def intro: asked_mono heard_at_more)

lemma known_cong: "sv_health sv' = sv_health sv \<Longrightarrow> sv_remote sv' = sv_remote sv \<Longrightarrow> sv_healthy sv' = sv_healthy sv \<Longrightarrow>
    known past sv' = known past sv"
  by (simp add: known_def)

lemma known_ping:
  assumes "ping env now sv = (sv', outp, None)" "known (past @ [(env, event, out)]) sv"
    and "set outp \<subseteq> set out" "ping_clock env event = now"
  shows "known (past @ [(env, event, out)]) sv'"
  using assms by (auto simp: ping_def challenge_def known_def asked_def split: if_splits sum.splits)

lemma known_other [simp]:
  "known past (sv\<lparr>sv_busy := b\<rparr>) = known past sv" "known past (sv\<lparr>sv_ready := b\<rparr>) = known past sv"
  "known past (sv\<lparr>sv_changed := b\<rparr>) = known past sv" "known past (sv\<lparr>sv_nextNegotiation := t\<rparr>) = known past sv"
  by (simp_all add: known_def)

lemma confirm_fields:
  "confirm p env now sv d = (sv', d', None) \<Longrightarrow> sv' = sv\<lparr>sv_health := (sv_health sv)\<lparr>lh_lastPong := now\<rparr>, sv_healthy := True\<rparr>"
  by (cases sv) (auto simp: confirm_def commit_health_def Let_def split: option.splits prod.splits if_splits)

lemma known_confirm:
  assumes "confirm p env (le_now (he_env env) 0) sv d = (sv', d', None)" "answered past event (le_now (he_env env) 0)"
    and "lh_pending (sv_health sv) \<noteq> 0 \<Longrightarrow>
      asked past (sv_remote sv) (lh_pending (sv_health sv)) (lh_expires (sv_health sv) - linkPingInterval)"
  shows "known (past @ [(env, event, out)]) sv'"
  using confirm_fields[OF assms(1)] assms(3) heard_at_now[OF assms(2)] by (auto simp: known_def intro: asked_mono)

lemma install_new_fields:
  assumes "install_new p env v remote sv d = (sv', d', e, None)"
  shows "\<not> sv_healthy sv'" "sv_health sv' = no_health \<or> sv_health sv' = sv_health sv \<and> sv_remote sv' = sv_remote sv"
  using assms by (auto simp: install_new_def withdraw_def Let_def split: option.splits prod.splits)

lemma known_install:
  "known past sv \<Longrightarrow> install_new p env v remote sv d = (sv', d', e, None) \<Longrightarrow> known past sv'"
  using install_new_fields[of p env v remote sv d sv' d' e] by (auto simp: known_def)

lemma known_finished:
  assumes "known past sv" "supervisor_ok sv" "sv_busy sv" "on_finished p env e sv d = (sv', d', out, None)"
  shows "known (past @ [(env, Some (Finished e), out)]) sv'"
proof (cases e)
  case (Some x)
  with assms known_more[OF assms(1), of "(env, Some (Finished e), out)"] show ?thesis
    by (auto simp: on_finished_def Let_def known_def supervisor_ok_def split: if_splits)
next
  case None
  let ?sv = "sv\<lparr>sv_busy := False, sv_ready := (sv_result sv \<noteq> None)\<rparr>"
  from None assms(4) obtain sv1 where p: "ping env (le_now (he_env env) 2) sv1 = (sv', out, None)"
    and c: "sv1 = ?sv \<and> \<not> sv_ready ?sv \<or> confirm p env (le_now (he_env env) 0) ?sv d = (sv1, d', None)"
    by (auto simp: on_finished_def Let_def split: prod.splits option.splits if_splits)
  from c have "known (past @ [(env, Some (Finished None), out)]) sv1"
  proof
    assume "sv1 = ?sv \<and> \<not> sv_ready ?sv"
    with known_more[OF assms(1)] show ?thesis by simp
  next
    assume "confirm p env (le_now (he_env env) 0) ?sv d = (sv1, d', None)"
    then show ?thesis by (rule known_confirm) (use assms(1) in \<open>auto simp: answered_def known_def\<close>)
  qed
  from known_ping[OF p this] None show ?thesis by simp
qed

lemma known_pong:
  assumes "known past sv" "on_pong p env m sv d = (sv', d', out, None)" "m_Type m = LinkPong"
  shows "known (past @ [(env, Some (Packet (sv_remote sv) m), out)]) sv'"
proof -
  let ?now = "le_now (he_env env) 0"
  obtain h heard where h: "pong (m_OperationID m) ?now (sv_health sv) = (h, heard)" by fastforce
  show ?thesis
  proof (cases heard)
    case False
    with assms(2) h known_more[OF assms(1)] show ?thesis by (auto simp: on_pong_def)
  next
    case True
    with h have i: "m_OperationID m \<noteq> 0" "m_OperationID m = lh_pending (sv_health sv)" "?now < lh_expires (sv_health sv)" "lh_pending h = 0"
      by (auto simp: pong_def split: if_splits)
    from True h assms(2) obtain d1 where c: "confirm p env ?now (sv\<lparr>sv_health := h\<rparr>) d = (sv', d1, None)"
      by (auto simp: on_pong_def Let_def split: prod.splits option.splits if_splits)
    from assms(1) i have "asked past (sv_remote sv) (m_OperationID m) (lh_expires (sv_health sv) - linkPingInterval)"
      by (simp add: known_def)
    with i assms(3) have "answered past (Some (Packet (sv_remote sv) m)) ?now" by (auto simp: answered_def)
    from known_confirm[OF c this] i show ?thesis by simp
  qed
qed

lemma install_shape:
  assumes "on_install p env v remote sv d = (sv', d', out, None)"
  shows "sv' = sv \<or> (\<exists>d1 e. install_new p env v remote sv d = (sv', d1, e, None))
    \<or> (\<exists>sv1 outp d1. (sv1 = sv \<or> install_new p env v remote sv d = (sv1, d1, None, None))
         \<and> ping env (le_now (he_env env) 2) sv1 = (sv', outp, None) \<and> set outp \<subseteq> set out)"
proof -
  obtain sv1 d1 e stop where i: "install_new p env v remote sv d = (sv1, d1, e, stop)" by (metis prod_cases4)
  obtain sv2 outp x where p: "ping env (le_now (he_env env) 2) (if same_install sv v remote then sv else sv1) = (sv2, outp, x)"
    by (metis prod_cases3)
  have "e = None \<Longrightarrow> stop = None" using i install_no_stop by blast
  with assms i p show ?thesis
    by (cases e) (auto simp: on_install_def split: if_splits)
qed

lemma known_step:
  assumes "known past sv" "supervisor_ok sv" "enabled sv event" "link_step p env event sv d = (sv', d', out, None)"
  shows "known (past @ [(env, Some event, out)]) sv'"
proof (cases event)
  case (Accepted x)
  with assms(4) known_more[OF assms(1), of "(env, Some event, out)"] show ?thesis
    by (cases x) (auto simp: on_accepted_def link_start_def known_def split: option.splits if_splits)
next
  case (Finished e)
  with assms known_finished show ?thesis by (simp add: enabled_def)
next
  case (Install v remote)
  from assms(4) Install have "on_install p env v remote sv d = (sv', d', out, None)" by simp
  from install_shape[OF this] consider "sv' = sv" | d1 e where "install_new p env v remote sv d = (sv', d1, e, None)"
    | sv1 outp d1 where "sv1 = sv \<or> install_new p env v remote sv d = (sv1, d1, None, None)"
        "ping env (le_now (he_env env) 2) sv1 = (sv', outp, None)" "set outp \<subseteq> set out" by blast
  then show ?thesis
  proof cases
    case 1
    with known_more[OF assms(1)] show ?thesis by simp
  next
    case 2
    from known_more[OF known_install[OF assms(1) 2]] show ?thesis .
  next
    case 3
    then have "known past sv1" using known_install[OF assms(1)] assms(1) by blast
    from known_ping[OF 3(2) known_more[OF this] 3(3)] Install show ?thesis by simp
  qed
next
  case (Packet source m)
  with assms(4) known_more[OF assms(1), of "(env, Some event, out)"] known_pong[OF assms(1)] show ?thesis
    by (auto simp: on_packet_def on_discovery_def link_start_def Let_def split: if_splits)
next
  case (Tick now)
  define sv1 where "sv1 = (if sv_healthy sv \<and> health_expired now (sv_health sv) then sv\<lparr>sv_healthy := False\<rparr> else sv)"
  from assms(1) have "known past sv1" by (simp add: sv1_def known_def)
  moreover from assms(4) Tick have "sv' = sv1 \<or> ping env now sv1 = (sv', out, None)"
    by (auto simp: on_tick_def Let_def sv1_def split: if_splits prod.splits)
  ultimately show ?thesis using Tick known_more known_ping[of env now sv1 sv' out past "Some event" out] by auto
next
  case HelloTimer
  with assms(4) known_more[OF assms(1)] show ?thesis by simp
qed (use assms(4) in auto)

lemma link_run_known: "link_run cfg plan role past sv d \<Longrightarrow> OwnerAlias plan \<noteq> [] \<Longrightarrow> known past sv"
proof (induction rule: link_run.induct)
  case (started d env sv d' out)
  from started(3) obtain sv0 outp where s: "sv0 = initial_supervisor plan d'"
    "ping env (le_now (he_env env) 0) sv0 = (sv, outp, None)" "set outp \<subseteq> set out"
    by (rule start_shape) simp
  have "known [(env, None, out)] sv0" by (simp add: known_def s(1) initial_fields)
  from known_ping[of env _ sv0 sv outp "[]" None out] this s show ?case by simp
next
  case (handled past sv d event env sv' d' out)
  from link_run_ok[OF handled(1)] handled show ?case by (intro known_step) (auto simp: loop_ok_def)
qed

section \<open>A run for the witnesses\<close>

fun handle_all :: "link_params \<Rightarrow> (health_env \<times> link_event) list \<Rightarrow> supervisor \<times> dynamicEngine \<times> link_history \<Rightarrow>
    (supervisor \<times> dynamicEngine \<times> link_history) option" where
  "handle_all p [] s = Some s"
| "handle_all p ((env, event) # events) (sv, d, past) =
    (if \<not> enabled sv event then None
     else
       (case link_step p env event sv d of
          (sv, d, out, None) \<Rightarrow> handle_all p events (sv, d, past @ [(env, Some event, out)])
        | _ \<Rightarrow> None))"

lemma handle_all_run: "link_run cfg plan role past sv d \<Longrightarrow>
    handle_all (supervised cfg plan role) events (sv, d, past) = Some (sv', d', past') \<Longrightarrow> link_run cfg plan role past' sv' d'"
proof (induction events arbitrary: sv d past)
  case (Cons x events)
  obtain env event where x: "x = (env, event)" by fastforce
  obtain sv1 d1 out stop where s: "link_step (supervised cfg plan role) env event sv d = (sv1, d1, out, stop)" by (metis prod_cases4)
  from Cons.prems(2) x s have stop: "stop = None" and e: "enabled sv event"
    and r: "handle_all (supervised cfg plan role) events (sv1, d1, past @ [(env, Some event, out)]) = Some (sv', d', past')"
    by (auto split: option.splits if_splits)
  from link_run.handled[OF Cons.prems(1) e s[unfolded stop]] r show ?case by (rule Cons.IH)
qed simp

definition sample_link :: LinkPlan where
  "sample_link = (sample_plan 1)\<lparr>BootstrapAddress := Prefix (Addr6 (0xfe80 * 2 ^ 112 + 1) []) 64\<rparr>"

definition sample_cfg :: durable_config where
  "sample_cfg = dy_durable (sample_party 1 1)"

definition sample_peer :: addr where
  "sample_peer = Addr6 (0xfe80 * 2 ^ 112 + 2) []"

definition sample_at :: "time \<Rightarrow> health_env" where
  "sample_at t = \<lparr>he_env = sample_env\<lparr>le_now := (\<lambda>_. t)\<rparr>, he_random = Inr 77, he_observed = Inr None\<rparr>"

definition sample_agreed :: Result where
  "sample_agreed = \<lparr>res_RemoteUID = \<lparr>UUID = 2, Name = []\<rparr>, res_RemoteLoopbackV6 = Addr6 5 [], res_Proposal = NoProposal\<rparr>"

definition sample_answer :: Message where
  "sample_answer = (message_of LinkPong)\<lparr>m_OperationID := 77\<rparr>"

text \<open>Contact, an agreement, its end, a challenge, the answer.\<close>

definition sample_events :: "(health_env \<times> link_event) list" where
  "sample_events =
    [(sample_at (2 * second), Packet sample_peer (message_of DiscoveryHello)),
     (sample_at (3 * second), Install sample_agreed sample_peer),
     (sample_at (3 * second), Finished None),
     (sample_at (14 * second), Tick (14 * second)),
     (sample_at (15 * second), Packet sample_peer sample_answer)]"

definition sample_start :: link_reply where
  "sample_start = manage_start (supervised sample_cfg sample_link (Configured False)) (sample_at second) sample_engine"

definition sample_run :: "(supervisor \<times> dynamicEngine \<times> link_history) option" where
  "sample_run = (case sample_start of (sv, d, out, _) \<Rightarrow>
     handle_all (supervised sample_cfg sample_link (Configured False)) sample_events (sv, d, [(sample_at second, None, out)]))"

lemma sample_alias: "OwnerAlias sample_link \<noteq> []"
  by (simp add: sample_link_def sample_plan_def)

lemma sample_facts:
  "(case sample_run of None \<Rightarrow> False | Some (sv, d, past) \<Rightarrow>
      sv_healthy sv \<and> lh_lastPong (sv_health sv) = 15 * second
      \<and> map_option (\<lambda>state. (ms_remote state, ms_peers state)) (own_entry sample_link d) = Some (2, [Addr6 5 []])
      \<and> list_all (\<lambda>(env, _, _). le_now (he_env env) 0 \<noteq> 0 \<and> le_now (he_env env) 0 \<le> 15 * second) past)"
  by code_simp

lemma sample_start_facts: "snd (snd (snd sample_start)) = None"
  by code_simp

lemma sample_link_run:
  obtains sv d past where "sample_run = Some (sv, d, past)" "link_run sample_cfg sample_link (Configured False) past sv d"
    "sv_healthy sv" "lh_lastPong (sv_health sv) = 15 * second" "\<And>t. heard_at past t \<Longrightarrow> t \<noteq> 0 \<and> t \<le> 15 * second"
proof -
  obtain sv0 d0 out stop where s: "sample_start = (sv0, d0, out, stop)" by (metis prod_cases4)
  have stop: "stop = None" using sample_start_facts by (simp add: s)
  then have "link_run sample_cfg sample_link (Configured False) [(sample_at second, None, out)] sv0 d0"
    by (intro link_run.started[of _ _ sample_engine]) (use s in \<open>simp_all add: sample_start_def sample_engine_def own_entry_def\<close>)
  note run = handle_all_run[OF this, of sample_events]
  from sample_facts obtain sv d past where p: "sample_run = Some (sv, d, past)" by (auto split: option.splits)
  then have "link_run sample_cfg sample_link (Configured False) past sv d" by (intro run) (simp add: sample_run_def s)
  moreover have "t \<noteq> 0 \<and> t \<le> 15 * second" if "heard_at past t" for t
    using that sample_facts by (auto simp: p heard_at_def)
  ultimately show thesis using that[OF p] sample_facts by (simp add: p)
qed

section \<open>Health, loss and the table\<close>

lemma heard_evidence:
  assumes "link_run cfg plan role past sv d" "OwnerAlias plan \<noteq> []" "sv_healthy sv"
  shows "heard_at past (lh_lastPong (sv_health sv))"
  using link_run_known[OF assms(1,2)] assms(3) by (simp add: known_def)

text \<open>
  C4: a link is held healthy only on evidence of its peer: the time of the last sign of life is the
  time at which a negotiation was completed or the value of a challenge came back, from the address
  it had been sent to and less than ten seconds after it had been sent; and there is an agreement
  that has been installed.
\<close>
theorem link_health_evidence:
  assumes "link_run cfg plan role past sv d" "OwnerAlias plan \<noteq> []" "sv_healthy sv"
  shows "sv_ready sv \<and> sv_result sv \<noteq> None
    \<and> (\<exists>before env event out after. past = before @ (env, event, out) # after
         \<and> lh_lastPong (sv_health sv) = le_now (he_env env) 0
         \<and> (event = Some (Finished None)
            \<or> (\<exists>source m t. event = Some (Packet source m) \<and> m_Type m = LinkPong
                 \<and> asked before source (m_OperationID m) t \<and> le_now (he_env env) 0 < t + linkPingInterval)))"
proof (intro conjI)
  show "sv_ready sv" "sv_result sv \<noteq> None"
    using link_run_ok[OF assms(1,2)] assms(3) by (auto simp: loop_ok_def supervisor_ok_def)
  from heard_evidence[OF assms] obtain before env event out after where
    "past = before @ (env, event, out) # after" "lh_lastPong (sv_health sv) = le_now (he_env env) 0"
    "answered before event (le_now (he_env env) 0)" unfolding heard_at_def by auto
  then show "\<exists>before env event out after. past = before @ (env, event, out) # after
      \<and> lh_lastPong (sv_health sv) = le_now (he_env env) 0
      \<and> (event = Some (Finished None)
         \<or> (\<exists>source m t. event = Some (Packet source m) \<and> m_Type m = LinkPong
              \<and> asked before source (m_OperationID m) t \<and> le_now (he_env env) 0 < t + linkPingInterval))"
    unfolding answered_def by blast
qed

theorem link_health_evidence_witness:
  "\<exists>sv d past. sample_run = Some (sv, d, past) \<and> lh_lastPong (sv_health sv) = 15 * second \<and> sv_ready sv \<and> sv_result sv \<noteq> None
    \<and> (\<exists>before env event out after. past = before @ (env, event, out) # after
         \<and> lh_lastPong (sv_health sv) = le_now (he_env env) 0
         \<and> (event = Some (Finished None)
            \<or> (\<exists>source m t. event = Some (Packet source m) \<and> m_Type m = LinkPong
                 \<and> asked before source (m_OperationID m) t \<and> le_now (he_env env) 0 < t + linkPingInterval)))"
proof (rule sample_link_run)
  fix sv d past
  assume "sample_run = Some (sv, d, past)" "link_run sample_cfg sample_link (Configured False) past sv d" "sv_healthy sv"
    "lh_lastPong (sv_health sv) = 15 * second"
  with link_health_evidence[of sample_cfg sample_link "Configured False" past sv d, OF _ sample_alias] show ?thesis
    by (intro exI[of _ sv] exI[of _ d] exI[of _ past]) simp
qed

text \<open>
  C9: the table of links follows the loop: as long as the entry is that of the link, it is marked
  active exactly when the loop holds the link healthy; then it is committed, holds the addresses,
  the node and the loopback of the agreement the loop has installed, and the time of the last sign
  of life.
\<close>
theorem link_table_agrees:
  assumes "link_run cfg plan role past sv d" "OwnerAlias plan \<noteq> []" "own_entry plan d = Some state"
  shows "ms_active state = sv_healthy sv
    \<and> (sv_healthy sv \<longrightarrow> (\<exists>result. sv_result sv = Some result \<and> ms_committed state
         \<and> ms_local state = fst (EndpointAddresses (res_Proposal result) (own_id cfg) (UUID (res_RemoteUID result)))
         \<and> ms_peers state = (if IsValid (res_RemoteLoopbackV6 result) then [res_RemoteLoopbackV6 result] else [])
         \<and> ms_remote state = UUID (res_RemoteUID result) \<and> ms_lastPong state = lh_lastPong (sv_health sv)))"
proof (cases "sv_healthy sv")
  case True
  with link_run_ok[OF assms(1,2)] assms(3) obtain result where r: "sv_result sv = Some result"
    and s: "state = committed_state cfg plan (lc_automatic (role_control cfg plan role)) result (lh_lastPong (sv_health sv))"
    by (simp add: loop_ok_def agrees_def) blast
  from True r show ?thesis by (simp add: s committed_state_def)
next
  case False
  with link_run_ok[OF assms(1,2)] assms(3) show ?thesis by (simp add: loop_ok_def agrees_def)
qed

theorem link_table_agrees_witness:
  "\<exists>sv d past state. sample_run = Some (sv, d, past) \<and> own_entry sample_link d = Some state \<and> ms_active state \<and> ms_committed state
    \<and> ms_remote state = 2 \<and> ms_peers state = [Addr6 5 []] \<and> ms_lastPong state = lh_lastPong (sv_health sv)"
proof (rule sample_link_run)
  fix sv d past
  assume p: "sample_run = Some (sv, d, past)" "link_run sample_cfg sample_link (Configured False) past sv d" "sv_healthy sv"
  obtain state where e: "own_entry sample_link d = Some state" "ms_remote state = 2" "ms_peers state = [Addr6 5 []]"
    using sample_facts by (auto simp: p(1))
  from link_table_agrees[OF p(2) sample_alias e(1)] p e show ?thesis
    by (intro exI[of _ sv] exI[of _ d] exI[of _ past] exI[of _ state]) auto
qed

lemma tick_cases:
  assumes "on_tick p env now sv d = (sv', d', out, stop)"
  shows "sv_healthy sv \<and> health_expired now (sv_health sv) \<and> \<not> sv_healthy sv' \<and> d' = lc_failed (lk_control p) (he_env env) (markLinkLost (lk_plan p) d)
    \<or> \<not> (sv_healthy sv \<and> health_expired now (sv_health sv)) \<and> sv_healthy sv' = sv_healthy sv \<and> d' = d"
  using assms by (auto simp: on_tick_def Let_def dest: ping_fields split: if_splits prod.splits)

text \<open>
  C10: a silent peer is given up: when nothing has been heard of the peer for thirty seconds, the
  next tick of the loop leaves the link not healthy and its entry not active; all else the entry
  holds, the addresses and the loopbacks, stays until a successor agreement replaces it.
\<close>
theorem silent_link_lost:
  assumes "link_run cfg plan role past sv d" "OwnerAlias plan \<noteq> []"
    and silent: "\<And>t. heard_at past t \<Longrightarrow> t \<noteq> 0 \<and> t + linkFailureTimeout \<le> now"
    and "link_step (supervised cfg plan role) env (Tick now) sv d = (sv', d', out, stop)"
  shows "\<not> sv_healthy sv' \<and> own_entry plan d' = map_option (\<lambda>state. state\<lparr>ms_active := False\<rparr>) (own_entry plan d)"
proof (cases "sv_healthy sv")
  case True
  from assms(4) have tick: "on_tick (supervised cfg plan role) env now sv d = (sv', d', out, stop)" by simp
  from silent[OF heard_evidence[OF assms(1,2) True]] have "health_expired now (sv_health sv)" by (simp add: health_expired_def)
  with True tick_cases[OF tick] have h: "\<not> sv_healthy sv'" and d': "d' = lc_failed (role_control cfg plan role) (he_env env) (markLinkLost plan d)"
    by auto
  have same: "rn_states d' = rn_states (markLinkLost plan d)"
    by (cases role) (simp_all add: d' staticControl_def linkControl_of_def)
  from h lost_entry[of plan d] show ?thesis by (simp add: own_entry_cong[OF same])
next
  case False
  from assms(4) have tick: "on_tick (supervised cfg plan role) env now sv d = (sv', d', out, stop)" by simp
  have "own_entry plan d = map_option (\<lambda>state. state\<lparr>ms_active := False\<rparr>) (own_entry plan d)"
    using link_run_ok[OF assms(1,2)] False by (cases "own_entry plan d") (simp_all add: loop_ok_def agrees_def)
  with False tick_cases[OF tick] show ?thesis by auto
qed

theorem silent_link_lost_witness:
  "\<exists>sv d past. sample_run = Some (sv, d, past) \<and> sv_healthy sv
    \<and> (case link_step (supervised sample_cfg sample_link (Configured False)) (sample_at (45 * second)) (Tick (45 * second)) sv d of
         (sv', d', out, stop) \<Rightarrow> \<not> sv_healthy sv'
           \<and> own_entry sample_link d' = map_option (\<lambda>state. state\<lparr>ms_active := False\<rparr>) (own_entry sample_link d))"
proof (rule sample_link_run)
  fix sv d past
  assume p: "sample_run = Some (sv, d, past)" "link_run sample_cfg sample_link (Configured False) past sv d" "sv_healthy sv"
    and t: "\<And>t. heard_at past t \<Longrightarrow> t \<noteq> 0 \<and> t \<le> 15 * second"
  obtain sv' d' out stop where s: "link_step (supervised sample_cfg sample_link (Configured False)) (sample_at (45 * second)) (Tick (45 * second)) sv d
      = (sv', d', out, stop)" by (metis prod_cases4)
  have "\<And>t. heard_at past t \<Longrightarrow> t \<noteq> 0 \<and> t + linkFailureTimeout \<le> 45 * second" using t by fastforce
  from silent_link_lost[OF p(2) sample_alias this s] p(1,3) show ?thesis
    by (intro exI[of _ sv] exI[of _ d] exI[of _ past]) (simp only: s prod.case simp_thms)
qed

section \<open>The repair of the routes\<close>

fun routes_to :: "addr \<Rightarrow> link_call \<Rightarrow> bool" where
  "routes_to peer (CallMaterialize plan local peers) = (peer \<in> set peers)"
| "routes_to peer c = False"

lemma filter_key:
  "distinct (map fst m) \<Longrightarrow> (k, v) \<in> set m \<Longrightarrow> (\<And>e. e \<in> set m \<Longrightarrow> P e = (fst e = k)) \<Longrightarrow> filter P m = [(k, v)]"
proof (induction m)
  case (Cons e m)
  show ?case
  proof (cases "fst e = k")
    case True
    with Cons.prems(1) have rest: "\<And>x. x \<in> set m \<Longrightarrow> fst x \<noteq> k"
      by (metis distinct.simps(2) image_eqI list.map(2) list.set_map)
    with Cons.prems(2) True have "e = (k, v)" by fastforce
    moreover from rest Cons.prems(3) have "filter P m = []" by (auto simp: filter_empty_conv)
    ultimately show ?thesis using Cons.prems(3)[of e] by simp
  next
    case False
    with Cons.prems have "(k, v) \<in> set m" "\<not> P e" by auto
    with Cons.IH Cons.prems show ?thesis by simp
  qed
qed simp

lemma elected_least: "entry \<in> set m \<Longrightarrow> claims peer entry \<Longrightarrow> elected m peer \<le> fst entry"
  unfolding elected_def by (rule Min_le) auto

text \<open>
  C12: the periodic repair asks the kernel for every link, and for the route to a loopback exactly
  once: on the link with the least name among those that are committed to a peer with that
  loopback, whatever the order in which the table is visited.
\<close>
theorem loopback_route_elected:
  assumes "states_ok (rn_states r)" "(other, state0) \<in> set (rn_states r)" "claims peer (other, state0)"
    and "maintainMaterialized env r = (r', well)"
  shows "\<exists>new name state. rn_calls r' = rn_calls r @ new \<and> length new = length (rn_states r)
    \<and> (name, state) \<in> set (rn_states r) \<and> claims peer (name, state)
    \<and> (\<forall>entry \<in> set (rn_states r). claims peer entry \<longrightarrow> name \<le> fst entry)
    \<and> filter (routes_to peer) new =
        [CallMaterialize (ms_desired state) (ms_local state) (selected_peers (rn_states r) (ms_desired state) (ms_peers state))]"
proof -
  let ?m = "rn_states r"
  define call where "call = (\<lambda>state :: materializedState. CallMaterialize (ms_desired state) (ms_local state) (selected_peers ?m (ms_desired state) (ms_peers state)))"
  from elected_claims[OF assms(2,3)] obtain state where e: "(elected ?m peer, state) \<in> set ?m" "claims peer (elected ?m peer, state)" by blast
  have calls: "rn_calls r' = rn_calls r @ map (\<lambda>e. call (snd e)) ?m"
    using maintain_links_calls[of env 0 "map snd ?m" r] assms(4) by (simp add: maintainMaterialized_def call_def comp_def)
  have "routes_to peer (call (snd e)) = (fst e = elected ?m peer)" if "e \<in> set ?m" for e
  proof -
    obtain n s where n: "e = (n, s)" by fastforce
    with that assms(1) selected_iff have "routes_to peer (call s) \<longleftrightarrow> peer \<in> set (ms_peers s) \<and> n = elected ?m peer" by (auto simp: call_def)
    moreover have "peer \<in> set (ms_peers s)" if "n = elected ?m peer"
      using that \<open>e \<in> set ?m\<close> e assms(1) n by (auto simp: states_ok_def claims_def dest: eq_key_imp_eq_value)
    ultimately show ?thesis by (auto simp: n)
  qed
  then have "filter (routes_to peer \<circ> (\<lambda>e. call (snd e))) ?m = [(elected ?m peer, state)]"
    using assms(1) e(1) by (intro filter_key) (auto simp: states_ok_def)
  then have "filter (routes_to peer) (map (\<lambda>e. call (snd e)) ?m) = [call state]" by (simp add: filter_map)
  with calls e elected_least[of _ ?m peer] show ?thesis unfolding call_def
    by (intro exI[of _ "map (\<lambda>e. call (snd e)) ?m"] exI[of _ "elected ?m peer"] exI[of _ state]) (simp add: call_def)
qed

definition sample_table :: dynamicEngine where
  "sample_table = sample_engine\<lparr>rn_states :=
    map (\<lambda>name. (name, committed_state sample_cfg (sample_link\<lparr>lp_InterfaceName := name\<rparr>) False sample_agreed second)) [''vf1'', ''vf0'']\<rparr>"

theorem loopback_route_elected_witness:
  "\<exists>new name state. rn_calls (fst (maintainMaterialized sample_env sample_table)) = new \<and> length new = 2
    \<and> (name, state) \<in> set (rn_states sample_table)
    \<and> (\<forall>entry \<in> set (rn_states sample_table). claims (Addr6 5 []) entry \<longrightarrow> name \<le> fst entry)
    \<and> (\<exists>plan local routes. filter (routes_to (Addr6 5 [])) new = [CallMaterialize plan local routes])"
proof -
  have ok: "states_ok (rn_states sample_table)" and l: "length (rn_states sample_table) = 2" "rn_calls sample_table = []"
    by (simp_all add: sample_table_def sample_engine_def states_ok_def state_ok_def committed_state_def sample_agreed_def)
  have "claims (Addr6 5 []) (''vf1'', snd (hd (rn_states sample_table)))" "(''vf1'', snd (hd (rn_states sample_table))) \<in> set (rn_states sample_table)"
    by (simp_all add: sample_table_def sample_engine_def claims_def committed_state_def sample_agreed_def)
  from loopback_route_elected[OF ok this(2,1) surjective_pairing] l show ?thesis by fastforce
qed

section \<open>An answer after the removal\<close>

text \<open>
  An answer that is handled after the interface was removed, before the loop sees that its context
  has ended, makes the entry again: with zero fields, so that no one owns it.  From then on the
  repair asks the kernel for an interface without a name, and the interface of a later attempt of
  the same name is not removed when that attempt fails.
\<close>

lemma stale_answer_entry:
  assumes "map_of (rn_states r) (lp_InterfaceName plan) = None" "OwnerAlias plan \<noteq> []"
  shows "map_of (rn_states (note_pong plan now r)) (lp_InterfaceName plan) = Some (zero_state\<lparr>ms_lastPong := now\<rparr>)"
    and "removeInterface cfg env i plan (note_pong plan now r) = note_pong plan now r"
  using assms by (simp_all add: note_pong_def Let_def removeInterface_def update_conv')

lemma stale_answer_handled:
  assumes "sv_healthy sv" "sv_result sv = Some result" "lh_pending (sv_health sv) \<noteq> 0" "m_OperationID m = lh_pending (sv_health sv)"
    and "le_now (he_env env) 0 < lh_expires (sv_health sv)" "\<not> AP_IsValid (m_Endpoint m)"
    and "map_of (rn_states d) (lp_InterfaceName (lk_plan p)) = None"
    and "on_pong p env m sv d = (sv', d', out, stop)"
  shows "stop = None \<and> map_of (rn_states d') (lp_InterfaceName (lk_plan p)) = Some (zero_state\<lparr>ms_lastPong := le_now (he_env env) 0\<rparr>)"
  using assms(8) by (simp add: on_pong_def pong_def confirm_def commit_health_def assms(1-7) Let_def)
    (auto simp: note_pong_def Let_def assms(7) update_conv')

end
