(* ===== verification/Spec2Isabelle.thy ===== *)
theory Spec2Isabelle
  imports Engine_Agreement Link_Discovery Ports Probe_Socket Policy_Socket Durable_Agreement Link_Runs
begin

text \<open>
  Velvet Fabric: a verification library for the node agent under \<^verbatim>\<open>src/\<close>.

  \<^bold>\<open>The program.\<close>  A node reads a specification (\<^verbatim>\<open>internal/spec\<close>), compiles it to a desired state
  (\<^verbatim>\<open>internal/reconcile\<close>) and keeps the kernel in that state (\<^verbatim>\<open>internal/linux\<close>).  On every WireGuard
  link to a configured peer a session of the Velvet Fabric Protocol (\<^verbatim>\<open>internal/vfp\<close>) negotiates the
  addresses of the link, derived from the fabric key (\<^verbatim>\<open>internal/link\<close>).  Nodes that reach each other
  only through the fabric learn of each other by routed loopbacks, exchange identities and policies
  (\<^verbatim>\<open>internal/runtime\<close>), and then look for a direct path: they infer how address translators map
  their sockets (\<^verbatim>\<open>internal/inference\<close>), search for a pair of endpoints that works in both directions
  (\<^verbatim>\<open>internal/linkdiscovery\<close>), probing with authenticated datagrams (\<^verbatim>\<open>internal/vfp/probe\<close>), and hand
  the port over to WireGuard.  Each such try is an attempt, with timers, a deadline and the kernel
  resources it holds.  Every link, configured or automatic, is supervised by a loop that challenges
  the peer, and the links that are up are kept in one table from which routes are repaired.  Two
  nodes whose direct link has been stable agree on the endpoints to
  restore it with and keep the agreement on disk.  A node that cannot be kept healthy is retired by the recovery
  tracker (\<^verbatim>\<open>internal/recovery\<close>).

  \<^bold>\<open>Conventions.\<close>  Go structs are records with the names of the source (a prefix where two structs
  share a field name), fixed arrays and sized integers are words, \<^verbatim>\<open>int\<close> is \<^typ>\<open>int\<close> where the code
  cannot overflow, a \<^verbatim>\<open>(value, error)\<close> pair is a sum with the error on the left, and a run-time panic
  is an error value of its own.  Loops are structural recursion or \<open>function\<close>s with a measure; no
  definition uses fuel that the code does not have: the bounds that occur (64 counterproposals, 12000
  probes, 16 messages per tick, the budgets of \<open>Limits\<close>) are the constants of the code.  Goroutines
  are modelled where their interleaving matters (\<open>Engine_Agreement\<close>, \<open>Peer_Targets\<close>, \<open>Durable_Manager\<close>,
  \<open>Durable_Agreement\<close>, \<open>Attempt_Runs\<close>, \<open>Link_Runs\<close>) by a step relation over the critical sections.
  Objects that goroutines share are references into a store, contexts are numbers with the list of
  those that were cancelled, and a timer is its due time.  Mutexes, log lines and the texts of some diagnostics are left out.

  \<^bold>\<open>Parameters.\<close>  Code outside the sources enters as an argument: HMAC and HKDF (\<open>mac\<close>, \<open>pm_hkdf\<close>),
  AES-GCM (\<open>cipher\<close> with \<open>aead_laws\<close>), parsers of addresses, keys, identifiers and JSON (\<open>parsers\<close>,
  \<open>json\<close>, \<open>texts\<close> with \<open>text_laws\<close>), the kernel's sockets, interfaces and files (\<open>system\<close>, \<open>sockets\<close>, \<open>io\<close>,
  \<open>revision_io\<close>, \<open>store_io\<close>, \<open>durable_env\<close>, \<open>link_env\<close>, \<open>dynamic_env\<close>, \<open>health_env\<close>), the
  \<^verbatim>\<open>Network\<close> and \<^verbatim>\<open>Peer\<close> interfaces of link discovery, clocks and random draws.  Every theorem that
  assumes something of a parameter has a witness with a concrete one.

  \<^bold>\<open>Theories.\<close>

  \<^item> \<open>Prelude\<close>, \<open>Netip\<close>: words and octets, results, the \<open>wire_codec\<close> and \<open>exact_codec\<close> interfaces; the
    part of \<^verbatim>\<open>net/netip\<close> in use.
  \<^item> \<open>Tlv\<close>, \<open>Wire_Fields\<close>, \<open>Control_Codec\<close>, \<open>Message_Types\<close>, \<open>Durable_Codec\<close>, \<open>Message_Codec\<close>,
    \<open>Message_Properties\<close>: \<^verbatim>\<open>tlv.go\<close>, \<^verbatim>\<open>message.go\<close>, \<^verbatim>\<open>control.go\<close>, \<^verbatim>\<open>durable.go\<close>.  The field codecs are
    exact, every accepted frame can be encoded again, streams and datagrams keep their bounds.
  \<^item> \<open>Link_Derive\<close>: \<^verbatim>\<open>derive.go\<close>.  Derived subnets lie in their pools, both ends derive the same
    proposal and key, and configure matching addresses.
  \<^item> \<open>Engine\<close>, \<open>Engine_Agreement\<close>: \<^verbatim>\<open>engine.go\<close>.  A session commits at most one valid result; two
    sessions on a lossy, failing connection never commit different proposals, and on a good one both
    commit; proposals are fresh and bounded.
  \<^item> \<open>Inference\<close>, \<open>Link_Discovery\<close>: \<^verbatim>\<open>inference.go\<close>, \<^verbatim>\<open>survey.go\<close>, \<^verbatim>\<open>search.go\<close>, \<^verbatim>\<open>peer.go\<close>.  Candidates are
    usable, a search keeps its budget, releases its sockets and reports only usable paths, and the
    two peers of a round choose mirrored paths.
  \<^item> \<open>Recovery\<close>: \<^verbatim>\<open>recovery.go\<close>.  No node is retired within the window of its last progress, and one
    that keeps failing is.
  \<^item> \<open>Node_Spec\<close>, \<open>Desired_State\<close>: \<^verbatim>\<open>spec.go\<close>, \<^verbatim>\<open>ports.go\<close>, \<^verbatim>\<open>desired.go\<close>.  A validated specification
    compiles, its routes do not leak between domains and fail closed, and announcements are scoped.
  \<^item> \<open>Ports\<close>: \<^verbatim>\<open>runtime/ports.go\<close> and the resource table of \<^verbatim>\<open>link_manager.go\<close>, against the interface
    \<open>lease_pool\<close>.  Leases are exclusive, ranges are exhausted before a reservation fails.
  \<^item> \<open>Probe_Socket\<close>: \<^verbatim>\<open>probe/socket.go\<close>.  Opening is the inverse of sealing; nothing is reported twice.
  \<^item> \<open>Peer_Targets\<close>: \<^verbatim>\<open>dynamic_policy.go\<close>, \<^verbatim>\<open>dynamic_discovery.go\<close> and the other writers of the peer
    table.  The table is an implementation of a directory with unique, final identities and
    revisions that never go back; the sender starves no peer.
  \<^item> \<open>Policy_Socket\<close>: \<^verbatim>\<open>policy/socket.go\<close>, \<^verbatim>\<open>policy_revision.go\<close>.  Revisions increase over crashes.
  \<^item> \<open>Durable_Store\<close>, \<open>Durable_Manager\<close>, \<open>Durable_Agreement\<close>: \<^verbatim>\<open>durable_store.go\<close>, \<^verbatim>\<open>durable.go\<close>,
    \<^verbatim>\<open>durable_recovery.go\<close>.  A save is atomic and its file loads as what was saved; the file of a node
    stays readable over any operations, crashes and failing saves; a confirmed agreement was saved by
    both sides with the same endpoints (over any number of nodes and any interleaving, through the
    interface \<open>record_property\<close>); every exchange on a session ends; an agreement is given up only after
    half an hour of continuous failure.
  \<^item> \<open>Link_State\<close>: \<^verbatim>\<open>link_session.go\<close>, \<^verbatim>\<open>link_routes.go\<close>, the receipts of \<^verbatim>\<open>warm_links.go\<close>, the
    evidence and the removal of \<^verbatim>\<open>dynamic_lifecycle.go\<close>, the repair of \<^verbatim>\<open>runtime.go\<close>.  The state they share
    is \<open>runner\<close>; what is asked of the kernel is kept as a list of calls.  A healthy link is
    committed, and one link is elected for a loopback.
  \<^item> \<open>Dynamic_Attempts\<close>, \<open>Attempt_Table\<close>, \<open>Attempt_Runs\<close>: \<^verbatim>\<open>dynamic.go\<close>, \<^verbatim>\<open>dynamic_engine.go\<close>,
    \<^verbatim>\<open>dynamic_lifecycle.go\<close>, \<^verbatim>\<open>dynamic_negotiation.go\<close>, the handoff of \<^verbatim>\<open>dynamic_probe.go\<close>, the restoration
    of \<^verbatim>\<open>durable_recovery.go\<close> and the adoption of \<^verbatim>\<open>warm_links.go\<close>.  The state is \<open>dynamicEngine\<close>, an
    extension of \<open>runner\<close>.  Over any interleaving of messages, timers and workers attempts only
    advance, are not revived, are one per peer and within the limit of resources; crossing proposals
    end as one attempt on each side.
  \<^item> \<open>Link_Health\<close>, \<open>Link_Runs\<close>: \<^verbatim>\<open>link_health.go\<close> and the controls of \<^verbatim>\<open>link_manager.go\<close>, against the
    interface \<open>link_control\<close>, with a configured link and an attempt as its interpretations.  A link
    is held healthy only on evidence of the peer, the table of links agrees with the loop, a silent
    peer is given up, and the repair asks for one route to a loopback.
  \<^item> This theory: a policy decision taken on one node reaches the table of another, through sender,
    codec, socket and receiver.

  \<^bold>\<open>Not modelled.\<close>  The wiring of the components and the goroutines that only move values between
  channels: the start of the engine and of the runner, the adapters that run link discovery over
  probe sockets and routed sessions (\<^verbatim>\<open>dynamic_observe.go\<close> and the rounds of \<^verbatim>\<open>dynamic_probe.go\<close>), the
  work queue of the durable agreements, the checks of a receipt at start-up, and the status
  listings.  The Linux backend, the manager of the routing daemon, the control socket, link-local
  discovery, the commands and the reading and rewriting of the configuration file are
  operating-system and library calls with little logic of their own; what other parts rely on is a
  parameter here.
\<close>

unbundle bit_operations_syntax

section \<open>Policies across two nodes\<close>

lemma flush_update_content:
  assumes "flushPolicy desired now draws d = (d', sends)" "(a, msg) \<in> set sends" "m_Type msg = PolicyUpdate"
  shows "msg = (message_of PolicyUpdate)\<lparr>m_UID := Some \<lparr>UUID = ds_UUID desired, Name = []\<rparr>,
      m_Policy := Some \<lparr>Revision = policyRevision d, Accept = allowsInbound desired\<rparr>\<rparr> \<and> policyRevision d \<noteq> 0"
proof -
  let ?keys = "sort (map fst (targets d))" and ?f = "\<lambda>a. flush_target desired (policyRevision d) now (draws a)"
  let ?Q = "\<lambda>msg. m_Type msg = PolicyUpdate \<longrightarrow> msg = (message_of PolicyUpdate)\<lparr>m_UID := Some \<lparr>UUID = ds_UUID desired, Name = []\<rparr>,
      m_Policy := Some \<lparr>Revision = policyRevision d, Accept = allowsInbound desired\<rparr>\<rparr> \<and> policyRevision d \<noteq> 0"
  obtain c m s where v: "flush_visits ?f ?keys (length ?keys) (policyCursor d, targets d, []) = (c, m, s)" by (metis prod_cases3)
  from assms(1,2) v have s: "policySocket d" "(a, msg) \<in> set s" by (auto simp: flushPolicy_def Let_def split: if_splits)
  have "?keys \<noteq> []"
  proof
    assume "?keys = []"
    with v s(2) show False by simp
  qed
  then have "list_all (\<lambda>(a, msg). a \<in> set ?keys \<and> ?Q msg) s"
    by (rule flush_visits_sends[OF v]) (auto simp: flush_target_def Let_def split: if_splits)
  with s(2) assms(3) show ?thesis by (auto simp: list_all_iff)
qed

lemma receive_bound_update:
  assumes "map_of (targets d) a = Some t" "bound t" "t_uid t = u" "table_ok (targets d)" "\<not> stopped d"
    and "m_UID m = Some \<lparr>UUID = u, Name = []\<rparr>" "u \<noteq> ds_UUID desired" "m_Type m = PolicyUpdate"
  shows "targets (receivePolicy desired a m now d) = AList.update a (mergePolicyLocked t (m_Policy m)) (targets d)"
proof -
  from assms(2,3) table_ok_D[OF assms(4,1)] have "u \<noteq> 0" "\<not> claimed_elsewhere a u (targets d)"
    using assms(4) by (auto simp: target_ok_def unclaimed_iff table_ok_def)
  with assms show ?thesis by (simp add: receivePolicy_def Let_def)
qed

text \<open>
  C18: a policy decision reaches the peer.  When a tick of one node sends an update to the loopback
  of a second node, the socket encodes it; the datagram that arrives there from the first node's
  loopback over an accepted interface is decoded to the same message; and if the second node has
  bound that loopback to the first node's identity, its directory afterwards holds the later of
  the revision it knew and the first node's revision.
\<close>
theorem policy_update_reaches_peer:
  assumes "flushPolicy desired now draws d = (d', sends)" "(remote, msg) \<in> set sends" "m_Type msg = PolicyUpdate"
    and "ds_UUID desired \<noteq> 0" "ds_LoopbackV6 desired = source"
    and source: "Is6 source" "\<not> Is4In6 source" "\<not> IsLinkLocalUnicast source" "\<not> IsMulticast source" "\<not> hasZone source"
    and "pb_local b = remote" "Is6 remote" "\<not> hasZone remote" "remote \<noteq> source" "Contains (pb_pool b) source" "ingress ifi"
    and "peer_run w" "\<not> stopped (w_peers w)" "ds_UUID desired' \<noteq> ds_UUID desired"
    and "map_of (targets (w_peers w)) source = Some t" "bound t" "t_uid t = ds_UUID desired"
  shows "\<exists>frame. EncodeDatagram msg = Inr frame
    \<and> policy_decode b ingress \<lparr>dg_data = frame, dg_source = Some (AsSlice source, pb_port b), dg_control = Some (AsSlice remote, ifi)\<rparr>
        = Some (source, msg)
    \<and> directory (receivePolicy desired' source msg now' (w_peers w)) source
        = Some (ds_UUID desired, max (case t_policy t of None \<Rightarrow> 0 | Some p \<Rightarrow> unat (Revision p)) (unat (policyRevision d)))"
proof -
  from flush_update_content[OF assms(1-3)]
  have msg: "msg = (message_of PolicyUpdate)\<lparr>m_UID := Some \<lparr>UUID = ds_UUID desired, Name = []\<rparr>,
      m_Policy := Some \<lparr>Revision = policyRevision d, Accept = allowsInbound desired\<rparr>\<rparr>" "policyRevision d \<noteq> 0" by auto
  then have canon: "message_canon msg" using assms(4)
    by (simp add: message_canon_def type_class_defs word_le_nat_alt uid_canon_def policy_canon_def Let_def)
  then obtain frame where frame: "EncodeDatagram msg = Inr frame"
    using datagram_codec.enc_total[of msg] assms(3) by (auto simp: is_ok_iff udp_type_def IsPolicy_def)
  have dec: "policy_decode b ingress \<lparr>dg_data = frame, dg_source = Some (AsSlice source, pb_port b), dg_control = Some (AsSlice remote, ifi)\<rparr>
        = Some (source, msg)"
    by (rule policy_decode_sent[where b = b and src = source and dst = remote]) (use canon frame assms in \<open>auto simp: IsPolicy_def\<close>)
  have "table_ok (targets (w_peers w))" using peer_run_ok[OF assms(17)] by (simp add: world_ok_def)
  from receive_bound_update[OF assms(20,21,22) this assms(18), of msg desired' now'] msg assms(3,19)
  have "directory (receivePolicy desired' source msg now' (w_peers w)) source
      = Some (ds_UUID desired, max (case t_policy t of None \<Rightarrow> 0 | Some p \<Rightarrow> unat (Revision p)) (unat (policyRevision d)))"
    using assms(22)
    by (auto simp: directory_def update_conv' mergePolicyLocked_def word_le_nat_alt split: option.splits)
  with frame dec show ?thesis by blast
qed

definition other_node :: DesiredState where
  "other_node = sample_node\<lparr>ds_UUID := 9, ds_LoopbackV6 := Addr6 7 []\<rparr>"

definition other_binding :: policy_binding where
  "other_binding = \<lparr>pb_local = Addr6 7 [], pb_pool = Prefix (Addr6 0 []) 64, pb_port = 58420\<rparr>"

definition other_peers :: dynamicPeers where
  "other_peers = (start_peers 2 [])\<lparr>targets := fst (bindPolicyPeer (Addr6 1 []) 1 100 101 [])\<rparr>"

lemma other_run: "peer_run \<lparr>w_desired = other_node, w_peers = other_peers, w_dials = [], w_bound = []\<rparr>"
  using Step[OF Fresh[of other_node 2] peer_step.Bind[of 1 _ "Addr6 1 []" 100 101]]
  by (simp add: with_targets_def other_peers_def start_peers_def)

theorem policy_update_reaches_peer_witness:
  "case snd (flushPolicy sample_node 300 (\<lambda>_. 0) sample_asked) of
     [(remote, msg)] \<Rightarrow> remote = Addr6 7 [] \<and> (\<exists>frame. EncodeDatagram msg = Inr frame)
       \<and> directory (receivePolicy other_node (Addr6 1 []) msg 400 other_peers) (Addr6 1 []) = Some (1, 5)
   | _ \<Rightarrow> False"
proof -
  let ?fl = "flushPolicy sample_node 300 (\<lambda>_. 0) sample_asked"
  obtain d' sends where f: "?fl = (d', sends)" by force
  have "map (\<lambda>(a, m). (a, m_Type m)) (snd ?fl) = [(Addr6 7 [], PolicyUpdate)]" by code_simp
  with f obtain msg where sends: "sends = [(Addr6 7 [], msg)]" "m_Type msg = PolicyUpdate" by auto
  obtain t where t: "map_of (targets other_peers) (Addr6 1 []) = Some t" "bound t" "t_uid t = 1" "t_policy t = None"
    by (simp add: other_peers_def start_peers_def bindPolicyPeer_def targetLocked_def claimed_elsewhere_def new_target_def)
  have c: "Contains (Prefix (Addr6 0 []) 64) (Addr6 1 [])" "policyRevision sample_asked = 5"
    "\<not> Is4In6 (Addr6 1 [])" "\<not> IsLinkLocalUnicast (Addr6 1 [])" "\<not> IsMulticast (Addr6 1 [])" by code_simp+
  have "\<exists>frame. EncodeDatagram msg = Inr frame
    \<and> policy_decode other_binding (\<lambda>i. i = 3) \<lparr>dg_data = frame, dg_source = Some (AsSlice (Addr6 1 []), pb_port other_binding),
        dg_control = Some (AsSlice (Addr6 7 []), 3)\<rparr> = Some (Addr6 1 [], msg)
    \<and> directory (receivePolicy other_node (Addr6 1 []) msg 400 (w_peers \<lparr>w_desired = other_node, w_peers = other_peers, w_dials = [], w_bound = []\<rparr>)) (Addr6 1 [])
        = Some (ds_UUID sample_node, max (case t_policy t of None \<Rightarrow> 0 | Some p \<Rightarrow> unat (Revision p)) (unat (policyRevision sample_asked)))"
    by (rule policy_update_reaches_peer[OF f _ sends(2)])
      (use sends t c other_run in \<open>simp_all add: sample_node_def other_node_def other_binding_def other_peers_def start_peers_def\<close>)
  moreover have "ds_UUID sample_node = 1" by (simp add: sample_node_def)
  ultimately have "(\<exists>frame. EncodeDatagram msg = Inr frame)
    \<and> directory (receivePolicy other_node (Addr6 1 []) msg 400 other_peers) (Addr6 1 []) = Some (1, 5)"
    using t(4) c(2) by auto
  with f sends show ?thesis by simp
qed


end
